(* ===== verification/Prelude.thy ===== *)
theory Prelude
  imports Main "HOL-Library.AList"
begin

text \<open>
  The shared base of the development: the numeric and string checks of the
  TypeScript sources (safe integers, identifiers, digests), the insertion-ordered
  \<^verbatim>\<open>Map\<close> of JavaScript as an association list, the structured workspace error
  (\<^verbatim>\<open>src/workspace/errors.ts\<close>, \<^verbatim>\<open>src/core/errors.ts\<close>), the proof-rule collections,
  and the two interfaces that several components implement:
  \<^item> \<open>invariant_system\<close>: an invariant kept by every step holds in every reachable state;
  \<^item> \<open>generation_fence\<close>: a writer fenced by generation numbers. A token of an older
    generation is never accepted again.
\<close>

named_theorems js_defs \<open>definitions of the JavaScript-level checks\<close>
named_theorems step_intro \<open>introduction rules of the components' step relations\<close>

section \<open>Numbers\<close>

text \<open>\<^verbatim>\<open>Number.MAX_SAFE_INTEGER\<close> and \<^verbatim>\<open>Number.isSafeInteger\<close> on integers.\<close>

definition max_safe_integer :: int where
  "max_safe_integer = 9007199254740991"

definition is_safe_integer :: "int \<Rightarrow> bool" where
  "is_safe_integer i \<longleftrightarrow> - max_safe_integer \<le> i \<and> i \<le> max_safe_integer"

declare is_safe_integer_def [js_defs] max_safe_integer_def [js_defs]

section \<open>Strings\<close>

definition valid_identifier :: "string \<Rightarrow> bool" where
  "valid_identifier s \<longleftrightarrow> s \<noteq> [] \<and> length s \<le> 256 \<and> CHR 0x00 \<notin> set s"

definition is_lower_hex :: "char \<Rightarrow> bool" where
  "is_lower_hex c \<longleftrightarrow> c \<in> set ''0123456789abcdef''"

text \<open>\<^verbatim>\<open>/^[a-f0-9]{64}$/u\<close> and \<^verbatim>\<open>/^sha256:[a-f0-9]{64}$/u\<close>.\<close>

definition is_sha256_hex :: "string \<Rightarrow> bool" where
  "is_sha256_hex s \<longleftrightarrow> length s = 64 \<and> list_all is_lower_hex s"

definition is_sha256_digest :: "string \<Rightarrow> bool" where
  "is_sha256_digest s \<longleftrightarrow> take 7 s = ''sha256:'' \<and> is_sha256_hex (drop 7 s)"

text \<open>\<^verbatim>\<open>/^[0-9a-f]{8}-[0-9a-f]{4}-[0-9a-f]{4}-[0-9a-f]{4}-[0-9a-f]{12}$/u\<close>.\<close>

definition uuid_text :: "string \<Rightarrow> bool" where
  "uuid_text s \<longleftrightarrow> length s = 36 \<and> list_all (\<lambda>(i, c). if i \<in> {8, 13, 18, 23} then c = CHR ''-'' else is_lower_hex c) (enumerate 0 s)"

definition try_bind :: "'e + 'a \<Rightarrow> ('a \<Rightarrow> 'e + 'b) \<Rightarrow> 'e + 'b" where
  "try_bind m f = (case m of Inl e \<Rightarrow> Inl e | Inr x \<Rightarrow> f x)"

lemma try_bind_simps [simp]: "try_bind (Inl e) f = Inl e" "try_bind (Inr x) f = f x"
  by (simp_all add: try_bind_def)

lemma try_bind_Inr: "try_bind m f = Inr y \<longleftrightarrow> (\<exists>x. m = Inr x \<and> f x = Inr y)"
  by (cases m) auto

text \<open>
  The number of bytes of a string in UTF-8, \<^verbatim>\<open>Buffer.byteLength(s, "utf8")\<close>; a character
  stands for a code unit below 256.
\<close>

definition utf8_length :: "string \<Rightarrow> nat" where
  "utf8_length s = sum_list (map (\<lambda>c. if (of_char c :: nat) < 128 then 1 else 2) s)"

lemma utf8_length_le: "utf8_length s \<le> 2 * length s"
  by (induction s) (simp_all add: utf8_length_def)

lemma utf8_length_append [simp]: "utf8_length (s @ t) = utf8_length s + utf8_length t"
  by (simp add: utf8_length_def)

text \<open>Equations on the bits of a character, which evaluate faster than its number as a \<open>nat\<close>.\<close>

lemma of_nat_of_char: "of_nat (of_char c) = of_char c"
  by (cases c) simp

lemma of_char_less_int: "(of_char a :: nat) < of_char b \<longleftrightarrow> (of_char a :: int) < of_char b"
  unfolding of_nat_of_char [where 'a = int, symmetric] by simp

lemma utf8_length_code [code]: "utf8_length s = sum_list (map (\<lambda>c. case c of Char b0 b1 b2 b3 b4 b5 b6 b7 \<Rightarrow> if b7 then 2 else 1) s)"
proof -
  have "(if (of_char c :: nat) < 128 then 1 else 2) = (case c of Char b0 b1 b2 b3 b4 b5 b6 b7 \<Rightarrow> if b7 then 2 else (1::nat))" for c
    by (rule char.exhaust [of c]) (simp add: of_char_def of_bool_def)
  then show ?thesis by (simp add: utf8_length_def)
qed

text \<open>\<^verbatim>\<open>s.split(c)\<close> for a one-character separator, and \<^verbatim>\<open>parts.join(c)\<close>.\<close>

fun split_on :: "char \<Rightarrow> string \<Rightarrow> string list" where
  "split_on c [] = [[]]"
| "split_on c (x # xs) =
     (if x = c then [] # split_on c xs
      else case split_on c xs of [] \<Rightarrow> [[x]] | p # ps \<Rightarrow> (x # p) # ps)"

fun join_on :: "char \<Rightarrow> string list \<Rightarrow> string" where
  "join_on c [] = []"
| "join_on c [p] = p"
| "join_on c (p # q # ps) = p @ c # join_on c (q # ps)"

lemma split_on_not_Nil [simp]: "split_on c s \<noteq> []"
  by (induction s) (auto split: list.splits)

lemma split_on_no_sep: "c \<notin> set p \<Longrightarrow> split_on c p = [p]"
  by (induction p) auto

lemma split_on_append: "c \<notin> set p \<Longrightarrow> split_on c (p @ c # s) = p # split_on c s"
  by (induction p) auto

lemma split_join: "ps \<noteq> [] \<Longrightarrow> (\<forall>p \<in> set ps. c \<notin> set p) \<Longrightarrow> split_on c (join_on c ps) = ps"
  by (induction c ps rule: join_on.induct) (simp_all add: split_on_no_sep split_on_append)

lemma join_split: "join_on c (split_on c s) = s"
proof (induction s)
  case (Cons x xs)
  then show ?case by (cases "split_on c xs"; cases "tl (split_on c xs)") (auto split: list.splits)
qed simp

lemma split_on_set: "p \<in> set (split_on c s) \<Longrightarrow> set p \<subseteq> set s - {c}"
  by (induction s arbitrary: p) (fastforce split: if_splits list.splits)+

lemma join_on_set: "set (join_on c ps) \<subseteq> insert c (\<Union> (set ` set ps))"
  by (induction c ps rule: join_on.induct) auto

declare valid_identifier_def [js_defs] is_sha256_hex_def [js_defs] is_sha256_digest_def [js_defs]
  is_lower_hex_def [js_defs]

section \<open>The insertion-ordered Map\<close>

text \<open>
  A JavaScript \<^verbatim>\<open>Map\<close> iterates in insertion order and keeps the position of a key
  that is set again, which is what \<^const>\<open>AList.update\<close> does on association lists.
\<close>

type_synonym ('k, 'v) js_map = "('k \<times> 'v) list"

abbreviation map_get :: "('k, 'v) js_map \<Rightarrow> 'k \<Rightarrow> 'v option" where
  "map_get \<equiv> map_of"

abbreviation map_set :: "'k \<Rightarrow> 'v \<Rightarrow> ('k, 'v) js_map \<Rightarrow> ('k, 'v) js_map" where
  "map_set \<equiv> AList.update"

abbreviation map_values :: "('k, 'v) js_map \<Rightarrow> 'v list" where
  "map_values \<equiv> map snd"

lemma map_get_set [simp]: "map_get (map_set k v m) k' = (if k' = k then Some v else map_get m k')"
  by (simp add: update_conv')

lemma map_set_new: "map_get m k = None \<Longrightarrow> map_set k v m = m @ [(k, v)]"
  by (induction m) (auto split: if_splits)

lemma length_map_set: "length (map_set k v m) = (if map_get m k = None then Suc (length m) else length m)"
  by (induction m) auto

lemma map_get_delete: "map_get (AList.delete k m) j = (if j = k then None else map_get m j)"
  by (simp add: delete_conv')

lemma distinct_map_set [simp]: "distinct (map fst m) \<Longrightarrow> distinct (map fst (map_set k v m))"
  by (rule distinct_update)

section \<open>Workspace errors and exit codes\<close>

datatype failure_class = Conflict | Integrity | Policy | Unsupported

datatype exit_code =
  Exit_success | Exit_usage | Exit_auth | Exit_policy | Exit_network | Exit_conflict
  | Exit_remote | Exit_unsupported | Exit_internal

fun exit_number :: "exit_code \<Rightarrow> int" where
  "exit_number Exit_success = 0"
| "exit_number Exit_usage = 2"
| "exit_number Exit_auth = 3"
| "exit_number Exit_policy = 4"
| "exit_number Exit_network = 5"
| "exit_number Exit_conflict = 6"
| "exit_number Exit_remote = 7"
| "exit_number Exit_unsupported = 8"
| "exit_number Exit_internal = 70"

fun exit_by_class :: "failure_class \<Rightarrow> exit_code" where
  "exit_by_class Conflict = Exit_conflict"
| "exit_by_class Integrity = Exit_internal"
| "exit_by_class Policy = Exit_policy"
| "exit_by_class Unsupported = Exit_unsupported"

record cuna_error =
  ce_code :: string
  ce_exitCode :: exit_code
  ce_hint :: "string option"
  ce_retryable :: bool
  ce_reason :: "string option"

definition workspaceError :: "string \<Rightarrow> failure_class \<Rightarrow> string \<Rightarrow> cuna_error" where
  "workspaceError code cls reason =
     \<lparr>ce_code = ''cuna.workspace.'' @ code,
      ce_exitCode = exit_by_class cls,
      ce_hint = (if code = ''secret_blocked''
                 then Some ''Remove sensitive files from the synchronization scope, then retry from the intended project folder.''
                 else None),
      ce_retryable = False,
      ce_reason = Some reason\<rparr>"

section \<open>Interfaces\<close>

subsection \<open>Invariants of step relations\<close>

locale invariant_system =
  fixes init :: "'s \<Rightarrow> bool" and step :: "'s \<Rightarrow> 's \<Rightarrow> bool" and inv :: "'s \<Rightarrow> bool"
  assumes init_inv: "init s \<Longrightarrow> inv s"
    and step_inv: "inv s \<Longrightarrow> step s t \<Longrightarrow> inv t"
begin

lemma steps_inv:
  assumes "step\<^sup>*\<^sup>* s t" and "inv s"
  shows "inv t"
  using assms by (induction rule: rtranclp_induct) (auto intro: step_inv)

lemma reachable_inv: "init s \<Longrightarrow> step\<^sup>*\<^sup>* s t \<Longrightarrow> inv t"
  by (blast intro: init_inv steps_inv)

end

subsection \<open>Generation fences\<close>

text \<open>
  \<open>gen s k\<close> is the newest generation issued for the resource \<open>k\<close>, \<open>accepts s k g\<close>
  says that a token of generation \<open>g\<close> would be let through, and \<open>issues s t k g\<close> that
  the step from \<open>s\<close> to \<open>t\<close> handed out a new token of generation \<open>g\<close>.
\<close>

locale generation_fence = invariant_system init step inv
  for init :: "'s \<Rightarrow> bool" and step :: "'s \<Rightarrow> 's \<Rightarrow> bool" and inv :: "'s \<Rightarrow> bool" +
  fixes gen :: "'s \<Rightarrow> 'k \<Rightarrow> int"
    and accepts :: "'s \<Rightarrow> 'k \<Rightarrow> int \<Rightarrow> bool"
    and issues :: "'s \<Rightarrow> 's \<Rightarrow> 'k \<Rightarrow> int \<Rightarrow> bool"
  assumes gen_mono: "inv s \<Longrightarrow> step s t \<Longrightarrow> gen s k \<le> gen t k"
    and accepts_newest: "inv s \<Longrightarrow> accepts s k g \<Longrightarrow> g = gen s k"
    and issues_fresh: "inv s \<Longrightarrow> issues s t k g \<Longrightarrow> step s t \<and> gen s k < g \<and> gen t k = g"
begin

lemma gen_steps_mono:
  assumes "step\<^sup>*\<^sup>* s t" and "inv s"
  shows "gen s k \<le> gen t k"
  using assms
proof (induction rule: rtranclp_induct)
  case (step t u)
  then have "gen t k \<le> gen u k" by (blast intro: gen_mono steps_inv)
  with step show ?case by simp
qed simp

theorem stale_never_accepted:
  assumes "inv s" and "step\<^sup>*\<^sup>* s t" and "g < gen s k"
  shows "\<not> accepts t k g"
proof
  assume "accepts t k g"
  then have "g = gen t k" using assms(1,2) by (blast intro: accepts_newest steps_inv)
  moreover have "gen s k \<le> gen t k" using assms by (blast intro: gen_steps_mono)
  ultimately show False using assms(3) by simp
qed

theorem issue_fences_older:
  assumes "inv s" and "issues s s' k g'" and "step\<^sup>*\<^sup>* s' t" and "g \<le> gen s k"
  shows "\<not> accepts t k g"
proof -
  from assms(1,2) have "step s s'" and "gen s k < g'" and "gen s' k = g'"
    by (auto dest: issues_fresh)
  moreover from this assms(1) have "inv s'" by (blast intro: step_inv)
  ultimately show ?thesis using assms(3,4) by (intro stale_never_accepted) auto
qed

theorem issued_generations_increase:
  assumes "inv s" and "issues s s' k g" and "step\<^sup>*\<^sup>* s' t" and "issues t t' k h"
  shows "g < h"
proof -
  from assms(1,2) have s': "step s s'" "gen s' k = g" by (auto dest: issues_fresh)
  with assms(1) have "inv s'" by (blast intro: step_inv)
  with assms(3) have "inv t" and "gen s' k \<le> gen t k" by (auto intro: steps_inv gen_steps_mono)
  with assms(4) s' show ?thesis by (auto dest: issues_fresh)
qed

end

end
