(* ===== verification/Lease.thy ===== *)
theory Lease
  imports Prelude
begin

text \<open>
  The fenced writer leases of the daemon, \<^verbatim>\<open>src/daemon/lease.ts\<close>: the store
  \<^verbatim>\<open>FencedLeaseStore\<close> keeps one record per resource and the last generation it ever
  issued for it. Every operation reads the clock once; the reading is the argument
  \<open>now\<close>. The store of the source is mutated only on the paths that return, so an
  operation that throws (\<open>Inl\<close>) leaves the store as it was.
\<close>

datatype lease_state = Lease_active | Lease_expired_state | Lease_released

datatype lease_error = Lease_conflict | Stale_fence | Invalid_lease | Lease_expired

record fence_token =
  ft_resourceId :: string
  ft_ownerId :: string
  ft_generation :: int

record lease_snapshot = fence_token +
  lsn_state :: lease_state
  lsn_acquiredAt :: int
  lsn_expiresAt :: int

record lease_record =
  lr_ownerId :: string
  lr_generation :: int
  lr_acquiredAt :: int
  lr_expiresAt :: int
  lr_released :: bool

record lease_store =
  ls_records :: "string \<rightharpoonup> lease_record"
  ls_lastGeneration :: "string \<rightharpoonup> int"

definition empty_lease_store :: lease_store where
  "empty_lease_store = \<lparr>ls_records = Map.empty, ls_lastGeneration = Map.empty\<rparr>"

definition lease_snapshot_of :: "string \<Rightarrow> lease_record \<Rightarrow> int \<Rightarrow> lease_snapshot" where
  "lease_snapshot_of resourceId record now =
     \<lparr>ft_resourceId = resourceId,
      ft_ownerId = lr_ownerId record,
      ft_generation = lr_generation record,
      lsn_state = (if lr_released record then Lease_released
                   else if lr_expiresAt record \<le> now then Lease_expired_state
                   else Lease_active),
      lsn_acquiredAt = lr_acquiredAt record,
      lsn_expiresAt = lr_expiresAt record\<rparr>"

definition valid_ttl :: "int \<Rightarrow> bool" where
  "valid_ttl ttlMs \<longleftrightarrow> is_safe_integer ttlMs \<and> 100 \<le> ttlMs \<and> ttlMs \<le> 5 * 60000"

definition last_generation :: "lease_store \<Rightarrow> string \<Rightarrow> int" where
  "last_generation s r = (case ls_lastGeneration s r of None \<Rightarrow> 0 | Some g \<Rightarrow> g)"

definition lease_live :: "lease_record \<Rightarrow> int \<Rightarrow> bool" where
  "lease_live c now \<longleftrightarrow> \<not> lr_released c \<and> now < lr_expiresAt c"

definition lease_acquire ::
  "lease_store \<Rightarrow> int \<Rightarrow> string \<Rightarrow> string \<Rightarrow> int \<Rightarrow> lease_error + (lease_store \<times> lease_snapshot)" where
  "lease_acquire s now resourceId ownerId ttlMs =
     (if \<not> valid_identifier resourceId \<or> \<not> valid_identifier ownerId \<or> \<not> valid_ttl ttlMs
      then Inl Invalid_lease
      else
        let fresh = \<lparr>lr_ownerId = ownerId, lr_generation = last_generation s resourceId + 1,
                     lr_acquiredAt = now, lr_expiresAt = now + ttlMs, lr_released = False\<rparr>;
            grant = Inr (s\<lparr>ls_records := (ls_records s)(resourceId \<mapsto> fresh),
                           ls_lastGeneration := (ls_lastGeneration s)(resourceId \<mapsto> lr_generation fresh)\<rparr>,
                         lease_snapshot_of resourceId fresh now)
        in case ls_records s resourceId of
             None \<Rightarrow> grant
           | Some c \<Rightarrow>
               if lease_live c now
               then (if lr_ownerId c = ownerId then Inr (s, lease_snapshot_of resourceId c now)
                     else Inl Lease_conflict)
               else grant)"

definition assert_current :: "lease_store \<Rightarrow> fence_token \<Rightarrow> lease_error + lease_record" where
  "assert_current s token =
     (case ls_records s (ft_resourceId token) of
        None \<Rightarrow> Inl Stale_fence
      | Some c \<Rightarrow>
          if lr_released c \<or> lr_ownerId c \<noteq> ft_ownerId token \<or> lr_generation c \<noteq> ft_generation token
          then Inl Stale_fence else Inr c)"

definition lease_renew ::
  "lease_store \<Rightarrow> int \<Rightarrow> fence_token \<Rightarrow> int \<Rightarrow> lease_error + (lease_store \<times> lease_snapshot)" where
  "lease_renew s now token ttlMs =
     (if \<not> valid_ttl ttlMs then Inl Invalid_lease
      else case assert_current s token of
        Inl e \<Rightarrow> Inl e
      | Inr c \<Rightarrow>
          if lr_expiresAt c \<le> now then Inl Lease_expired
          else let c' = c\<lparr>lr_expiresAt := now + ttlMs\<rparr>
               in Inr (s\<lparr>ls_records := (ls_records s)(ft_resourceId token \<mapsto> c')\<rparr>,
                       lease_snapshot_of (ft_resourceId token) c' now))"

definition lease_release ::
  "lease_store \<Rightarrow> int \<Rightarrow> fence_token \<Rightarrow> lease_error + (lease_store \<times> lease_snapshot)" where
  "lease_release s now token =
     (case assert_current s token of
        Inl e \<Rightarrow> Inl e
      | Inr c \<Rightarrow>
          if lr_expiresAt c \<le> now then Inl Lease_expired
          else let c' = c\<lparr>lr_released := True\<rparr>
               in Inr (s\<lparr>ls_records := (ls_records s)(ft_resourceId token \<mapsto> c')\<rparr>,
                       lease_snapshot_of (ft_resourceId token) c' now))"

definition assert_writer :: "lease_store \<Rightarrow> int \<Rightarrow> fence_token \<Rightarrow> lease_error + unit" where
  "assert_writer s now token =
     (case assert_current s token of
        Inl e \<Rightarrow> Inl e
      | Inr c \<Rightarrow> if lr_expiresAt c \<le> now then Inl Lease_expired else Inr ())"

definition lease_inspect :: "lease_store \<Rightarrow> int \<Rightarrow> string \<Rightarrow> lease_snapshot option" where
  "lease_inspect s now resourceId =
     map_option (\<lambda>r. lease_snapshot_of resourceId r now) (ls_records s resourceId)"

section \<open>Steps, invariant, fence\<close>

text \<open>A step of the store is one operation of any caller at any clock reading.\<close>

inductive lease_step :: "lease_store \<Rightarrow> lease_store \<Rightarrow> bool" where
  acquire: "lease_acquire s now r own ttl = Inr (s', sn) \<Longrightarrow> lease_step s s'"
| renew: "lease_renew s now tok ttl = Inr (s', sn) \<Longrightarrow> lease_step s s'"
| release: "lease_release s now tok = Inr (s', sn) \<Longrightarrow> lease_step s s'"

definition lease_inv :: "lease_store \<Rightarrow> bool" where
  "lease_inv s \<longleftrightarrow>
     (\<forall>r. map_option lr_generation (ls_records s r) = ls_lastGeneration s r) \<and>
     (\<forall>r g. ls_lastGeneration s r = Some g \<longrightarrow> 1 \<le> g)"

lemmas lease_op_defs = lease_acquire_def lease_renew_def lease_release_def assert_current_def

lemma assert_current_InrD:
  "assert_current s tok = Inr c \<Longrightarrow>
     ls_records s (ft_resourceId tok) = Some c \<and> \<not> lr_released c \<and>
     lr_ownerId c = ft_ownerId tok \<and> lr_generation c = ft_generation tok"
  by (auto simp: assert_current_def split: option.splits if_splits)

lemma last_generation_record:
  "lease_inv s \<Longrightarrow> ls_records s r = Some c \<Longrightarrow> last_generation s r = lr_generation c"
  unfolding lease_inv_def last_generation_def by (metis option.case(2) option.simps(9))

lemma last_generation_nonneg: "lease_inv s \<Longrightarrow> 0 \<le> last_generation s r"
  by (force simp: lease_inv_def last_generation_def split: option.splits)

lemma lease_inv_grant:
  assumes "lease_inv s" and "lr_generation c = last_generation s r + 1"
  shows "lease_inv (s\<lparr>ls_records := (ls_records s)(r \<mapsto> c),
                      ls_lastGeneration := (ls_lastGeneration s)(r \<mapsto> lr_generation c)\<rparr>)"
  using assms last_generation_nonneg [OF assms(1), of r] by (auto simp: lease_inv_def)

lemma lease_inv_update:
  assumes "lease_inv s" and "ls_records s r = Some c" and "lr_generation c' = lr_generation c"
  shows "lease_inv (s\<lparr>ls_records := (ls_records s)(r \<mapsto> c')\<rparr>)"
  using assms by (auto simp: lease_inv_def) (metis option.simps(9))

text \<open>What each operation can do to the store, for any arguments.\<close>

lemma lease_acquire_cases:
  assumes "lease_acquire s now r own ttl = Inr (s', sn)"
  obtains (same) c where "s' = s" "ls_records s r = Some c" "lease_live c now" "lr_ownerId c = own"
      "sn = lease_snapshot_of r c now"
  | (fresh) c where "c = \<lparr>lr_ownerId = own, lr_generation = last_generation s r + 1, lr_acquiredAt = now,
        lr_expiresAt = now + ttl, lr_released = False\<rparr>"
      "s' = s\<lparr>ls_records := (ls_records s)(r \<mapsto> c),
              ls_lastGeneration := (ls_lastGeneration s)(r \<mapsto> lr_generation c)\<rparr>"
      "sn = lease_snapshot_of r c now" "\<forall>d. ls_records s r = Some d \<longrightarrow> \<not> lease_live d now" "valid_ttl ttl"
  using assms by (auto simp: lease_acquire_def Let_def split: if_splits option.splits)

lemma lease_renew_cases:
  assumes "lease_renew s now tok ttl = Inr (s', sn)"
  obtains c where "assert_current s tok = Inr c" "now < lr_expiresAt c" "valid_ttl ttl"
    "s' = s\<lparr>ls_records := (ls_records s)(ft_resourceId tok \<mapsto> c\<lparr>lr_expiresAt := now + ttl\<rparr>)\<rparr>"
  using assms by (auto simp: lease_renew_def Let_def split: if_splits sum.splits)

lemma lease_release_cases:
  assumes "lease_release s now tok = Inr (s', sn)"
  obtains c where "assert_current s tok = Inr c" "now < lr_expiresAt c"
    "s' = s\<lparr>ls_records := (ls_records s)(ft_resourceId tok \<mapsto> c\<lparr>lr_released := True\<rparr>)\<rparr>"
  using assms by (auto simp: lease_release_def Let_def split: if_splits sum.splits)

lemma lease_step_cases:
  assumes "lease_step s t"
  obtains (keep) "t = s"
  | (grant) r c where "lr_generation c = last_generation s r + 1"
      "t = s\<lparr>ls_records := (ls_records s)(r \<mapsto> c),
             ls_lastGeneration := (ls_lastGeneration s)(r \<mapsto> lr_generation c)\<rparr>"
  | (update) r c c' where "ls_records s r = Some c" "lr_generation c' = lr_generation c"
      "t = s\<lparr>ls_records := (ls_records s)(r \<mapsto> c')\<rparr>"
  using assms
proof cases
  case (acquire now r own ttl sn)
  then show thesis
  proof (cases rule: lease_acquire_cases)
    case (fresh c)
    then show thesis by (intro grant [of c r]) simp_all
  qed (rule keep)
next
  case (renew now tok ttl sn)
  then show thesis
  proof (cases rule: lease_renew_cases)
    case (1 c)
    then show thesis
      using assert_current_InrD [of s tok c] by (intro update [of "ft_resourceId tok" c]) auto
  qed
next
  case (release now tok sn)
  then show thesis
  proof (cases rule: lease_release_cases)
    case (1 c)
    then show thesis
      using assert_current_InrD [of s tok c] by (intro update [of "ft_resourceId tok" c]) auto
  qed
qed

lemma lease_step_inv:
  assumes "lease_inv s" and "lease_step s t"
  shows "lease_inv t"
  using assms(2)
proof (cases rule: lease_step_cases)
  case (grant r c)
  then show ?thesis using lease_inv_grant [OF assms(1), of c r] by simp
qed (auto simp: assms(1) intro: lease_inv_update [OF assms(1)])

lemma lease_step_generation: "lease_step s t \<Longrightarrow> last_generation s r \<le> last_generation t r"
  by (erule lease_step_cases) (auto simp: last_generation_def)

definition lease_accepts :: "lease_store \<Rightarrow> string \<Rightarrow> int \<Rightarrow> bool" where
  "lease_accepts s r g \<longleftrightarrow>
     (\<exists>own now. assert_writer s now \<lparr>ft_resourceId = r, ft_ownerId = own, ft_generation = g\<rparr> = Inr ())"

definition lease_issues :: "lease_store \<Rightarrow> lease_store \<Rightarrow> string \<Rightarrow> int \<Rightarrow> bool" where
  "lease_issues s t r g \<longleftrightarrow>
     (\<exists>now own ttl sn. lease_acquire s now r own ttl = Inr (t, sn) \<and> t \<noteq> s \<and> ft_generation sn = g)"

lemma assert_writer_InrD:
  "assert_writer s now tok = Inr u \<Longrightarrow>
     \<exists>c. ls_records s (ft_resourceId tok) = Some c \<and> lease_live c now \<and>
         lr_ownerId c = ft_ownerId tok \<and> lr_generation c = ft_generation tok"
  by (cases "assert_current s tok")
     (auto simp: assert_writer_def lease_live_def dest!: assert_current_InrD split: if_splits)

lemma lease_accepts_generation:
  "lease_inv s \<Longrightarrow> lease_accepts s r g \<Longrightarrow> g = last_generation s r"
  by (auto simp: lease_accepts_def last_generation_record dest!: assert_writer_InrD)

lemma lease_issues_generation:
  assumes "lease_issues s t r g"
  shows "lease_step s t \<and> last_generation s r < g \<and> last_generation t r = g"
proof -
  from assms obtain now own ttl sn where
    acq: "lease_acquire s now r own ttl = Inr (t, sn)" and "t \<noteq> s" and "ft_generation sn = g"
    by (auto simp: lease_issues_def)
  from acq have "last_generation s r < g \<and> last_generation t r = g"
    using \<open>t \<noteq> s\<close> \<open>ft_generation sn = g\<close>
    by (cases rule: lease_acquire_cases) (auto simp: lease_snapshot_of_def last_generation_def)
  with lease_step.acquire [OF acq] show ?thesis by simp
qed

interpretation lease_fence: generation_fence
  "\<lambda>s. s = empty_lease_store" lease_step lease_inv last_generation lease_accepts lease_issues
proof unfold_locales
  show "lease_inv s" if "s = empty_lease_store" for s
    using that by (simp add: lease_inv_def empty_lease_store_def)
qed (auto intro: lease_step_inv lease_step_generation lease_accepts_generation
      dest: lease_issues_generation)

section \<open>Properties\<close>

text \<open>
  C1. Stale writers stay out. Once a lease has been granted anew on a resource (a step
  that issues a generation), no token of an earlier generation is let through by
  \<^verbatim>\<open>assertWriter\<close> again, whoever presents it, whenever, and whatever operations
  happen in between: \<^verbatim>\<open>acquire\<close>, \<^verbatim>\<open>renew\<close> and \<^verbatim>\<open>release\<close> by any client in any order.
\<close>

theorem lease_fencing:
  assumes "lease_step\<^sup>*\<^sup>* empty_lease_store s"
    and "lease_acquire s now r own ttl = Inr (s', sn)" and "s' \<noteq> s"
    and "lease_step\<^sup>*\<^sup>* s' t"
    and "ft_resourceId tok = r" and "ft_generation tok < ft_generation sn"
  shows "assert_writer t now' tok \<noteq> Inr ()"
proof -
  have issue: "lease_issues s s' r (ft_generation sn)"
    using assms(2,3) unfolding lease_issues_def by blast
  have inv: "lease_inv s" using assms(1) by (rule lease_fence.reachable_inv [OF refl])
  have "last_generation s' r = ft_generation sn" "lease_inv s'"
    using issue inv lease_issues_generation lease_step_inv by blast+
  with assms(4,5,6) have "\<not> lease_accepts t r (ft_generation tok)"
    by (intro lease_fence.stale_never_accepted [of s']) simp_all
  then show ?thesis
    using assms(5) unfolding lease_accepts_def by (metis fence_token.surjective old.unit.exhaust)
qed

text \<open>Two clients: \<open>a\<close> acquires at time 0, its lease runs out, \<open>b\<close> acquires at time 200.\<close>

abbreviation lease_ex_a :: lease_record where
  "lease_ex_a \<equiv> \<lparr>lr_ownerId = ''a'', lr_generation = 1, lr_acquiredAt = 0, lr_expiresAt = 100, lr_released = False\<rparr>"

abbreviation lease_ex_b :: lease_record where
  "lease_ex_b \<equiv> \<lparr>lr_ownerId = ''b'', lr_generation = 2, lr_acquiredAt = 200, lr_expiresAt = 300, lr_released = False\<rparr>"

definition lease_ex :: "lease_record \<Rightarrow> lease_store" where
  "lease_ex c = \<lparr>ls_records = [''r'' \<mapsto> c], ls_lastGeneration = [''r'' \<mapsto> lr_generation c]\<rparr>"

lemmas lease_eval = lease_acquire_def empty_lease_store_def lease_ex_def last_generation_def
  valid_ttl_def lease_live_def Let_def js_defs

lemma lease_ex_acquire_a:
  "lease_acquire empty_lease_store 0 ''r'' ''a'' 100 = Inr (lease_ex lease_ex_a, lease_snapshot_of ''r'' lease_ex_a 0)"
  by (simp add: lease_eval)

lemma lease_ex_acquire_b:
  "lease_acquire (lease_ex lease_ex_a) 200 ''r'' ''b'' 100 = Inr (lease_ex lease_ex_b, lease_snapshot_of ''r'' lease_ex_b 200)"
  by (simp add: lease_eval)

theorem lease_fencing_witness:
  "assert_writer (lease_ex lease_ex_b) 250
     \<lparr>ft_resourceId = ''r'', ft_ownerId = ''a'', ft_generation = 1\<rparr> \<noteq> Inr ()"
proof (rule lease_fencing [OF _ lease_ex_acquire_b])
  show "lease_step\<^sup>*\<^sup>* empty_lease_store (lease_ex lease_ex_a)"
    using lease_step.acquire [OF lease_ex_acquire_a] by blast
  show "lease_ex lease_ex_b \<noteq> lease_ex lease_ex_a"
    by (simp add: lease_ex_def fun_eq_iff)
  show "ft_generation \<lparr>ft_resourceId = ''r'', ft_ownerId = ''a'', ft_generation = 1\<rparr>
      < ft_generation (lease_snapshot_of ''r'' lease_ex_b 200)"
    by (simp add: lease_snapshot_of_def)
qed simp_all

text \<open>
  One writer at a time. In every store, all the tokens that \<^verbatim>\<open>assertWriter\<close>
  lets through for one resource at one time are the same token; and while one is let
  through, \<^verbatim>\<open>acquire\<close> by any other owner is refused with a conflict, and by the same
  owner hands back the generation it already has without touching the store.
\<close>

theorem lease_exclusive:
  assumes "assert_writer s now tok = Inr ()"
  shows "(\<forall>tok'. assert_writer s now tok' = Inr () \<and> ft_resourceId tok' = ft_resourceId tok \<longrightarrow>
             ft_ownerId tok' = ft_ownerId tok \<and> ft_generation tok' = ft_generation tok) \<and>
         (\<forall>own ttl. valid_identifier (ft_resourceId tok) \<and> valid_identifier own \<and> valid_ttl ttl \<longrightarrow>
             (if own = ft_ownerId tok
              then \<exists>sn. lease_acquire s now (ft_resourceId tok) own ttl = Inr (s, sn) \<and>
                        ft_generation sn = ft_generation tok
              else lease_acquire s now (ft_resourceId tok) own ttl = Inl Lease_conflict))"
proof -
  from assert_writer_InrD [OF assms] obtain c where
    "ls_records s (ft_resourceId tok) = Some c" "lease_live c now"
    "lr_ownerId c = ft_ownerId tok" "lr_generation c = ft_generation tok" by blast
  then show ?thesis
    by (auto simp: lease_acquire_def lease_snapshot_of_def dest!: assert_writer_InrD)
qed

theorem lease_exclusive_witness:
  "lease_acquire (lease_ex lease_ex_a) 50 ''r'' ''b'' 100 = Inl Lease_conflict"
proof -
  have "assert_writer (lease_ex lease_ex_a) 50 \<lparr>ft_resourceId = ''r'', ft_ownerId = ''a'', ft_generation = 1\<rparr> = Inr ()"
    by (simp add: assert_writer_def assert_current_def lease_ex_def)
  from lease_exclusive [OF this, THEN conjunct2, rule_format, of "''b''" 100]
  show ?thesis by (simp add: valid_ttl_def js_defs)
qed

end
