(* ===== verification/Daemon_Machines.thy ===== *)
theory Daemon_Machines
  imports Prelude
begin

text \<open>
  The three small state holders of the daemon.
  \<^item> \<^verbatim>\<open>src/daemon/lifecycle.ts\<close>: \<^verbatim>\<open>DaemonLifecycle\<close>, a state machine with a revision
    counter;
  \<^item> \<^verbatim>\<open>src/daemon/supervisor.ts\<close>: \<^verbatim>\<open>ProcessSupervisorModel\<close>, one supervised process per
    AgentSession, identified by its epoch;
  \<^item> \<^verbatim>\<open>src/daemon/views.ts\<close>: \<^verbatim>\<open>LocalClientViewRegistry\<close>, the local views and the
    bindings input is routed to.
  An operation that throws leaves its object unchanged, so it returns \<open>Inl\<close> alone.
\<close>

section \<open>Daemon lifecycle\<close>

datatype daemon_state =
  D_absent | D_starting | D_ready | D_quiescing | D_degraded | D_reconciling
  | D_recovery_required | D_stopped

fun daemon_transitions :: "daemon_state \<Rightarrow> daemon_state list" where
  "daemon_transitions D_absent = [D_starting]"
| "daemon_transitions D_starting = [D_ready, D_recovery_required, D_stopped]"
| "daemon_transitions D_ready = [D_quiescing, D_degraded]"
| "daemon_transitions D_quiescing = [D_ready, D_stopped, D_recovery_required]"
| "daemon_transitions D_degraded = [D_reconciling, D_quiescing, D_recovery_required]"
| "daemon_transitions D_reconciling = [D_ready, D_recovery_required, D_quiescing]"
| "daemon_transitions D_recovery_required = [D_ready, D_stopped]"
| "daemon_transitions D_stopped = [D_starting]"

record daemon_lifecycle =
  dl_state :: daemon_state
  dl_revision :: int
  dl_observedAt :: int
  dl_reason :: string

datatype lifecycle_error = Illegal_transition daemon_state daemon_state | Unbounded_reason

definition daemon_init :: "int \<Rightarrow> daemon_lifecycle" where
  "daemon_init now = \<lparr>dl_state = D_absent, dl_revision = 0, dl_observedAt = now, dl_reason = ''not_started''\<rparr>"

definition daemon_transition ::
  "daemon_lifecycle \<Rightarrow> daemon_state \<Rightarrow> string \<Rightarrow> int \<Rightarrow> lifecycle_error + daemon_lifecycle" where
  "daemon_transition d state reason now =
     (if state \<notin> set (daemon_transitions (dl_state d)) then Inl (Illegal_transition (dl_state d) state)
      else if length reason = 0 \<or> length reason > 128 then Inl Unbounded_reason
      else Inr \<lparr>dl_state = state, dl_revision = dl_revision d + 1, dl_observedAt = now, dl_reason = reason\<rparr>)"

inductive daemon_step :: "daemon_lifecycle \<Rightarrow> daemon_lifecycle \<Rightarrow> bool" where
  "daemon_transition d st reason now = Inr d' \<Longrightarrow> daemon_step d d'"

inductive_simps daemon_step_iff: "daemon_step d d'"

lemma daemon_transition_InrD:
  "daemon_transition d st reason now = Inr d' \<Longrightarrow>
     dl_state d' = st \<and> st \<in> set (daemon_transitions (dl_state d)) \<and> dl_revision d' = dl_revision d + 1
     \<and> 0 < length (dl_reason d') \<and> length (dl_reason d') \<le> 128"
  by (auto simp: daemon_transition_def split: if_splits)

definition daemon_inv :: "daemon_lifecycle \<Rightarrow> bool" where
  "daemon_inv d \<longleftrightarrow> 0 \<le> dl_revision d \<and> dl_reason d \<noteq> [] \<and> length (dl_reason d) \<le> 128 \<and>
     (dl_state d = D_absent \<longleftrightarrow> dl_revision d = 0) \<and>
     (dl_state d \<notin> {D_absent, D_starting} \<longrightarrow> 2 \<le> dl_revision d)"

lemma daemon_transitions_ready:
  "st \<in> set (daemon_transitions s) \<Longrightarrow> st \<noteq> D_absent \<and> (s = D_absent \<longrightarrow> st = D_starting)"
  by (cases s) auto

lemma daemon_step_inv: "daemon_inv d \<Longrightarrow> daemon_step d d' \<Longrightarrow> daemon_inv d'"
  by (auto simp: daemon_step_iff daemon_inv_def dest!: daemon_transition_InrD dest: daemon_transitions_ready)

interpretation daemon_sys: invariant_system "\<lambda>d. \<exists>now. d = daemon_init now" daemon_step daemon_inv
proof unfold_locales
  show "daemon_inv d" if "\<exists>now. d = daemon_init now" for d
    using that by (auto simp: daemon_inv_def daemon_init_def)
qed (rule daemon_step_inv)

text \<open>
  Liveness of the table: from every state the daemon can be brought back to ready,
  \<open>daemon_route\<close> naming the states to pass through.
\<close>

fun daemon_route :: "daemon_state \<Rightarrow> daemon_state list" where
  "daemon_route D_ready = []"
| "daemon_route D_absent = [D_starting, D_ready]"
| "daemon_route D_stopped = [D_starting, D_ready]"
| "daemon_route D_degraded = [D_reconciling, D_ready]"
| "daemon_route _ = [D_ready]"

fun daemon_run :: "daemon_lifecycle \<Rightarrow> daemon_state list \<Rightarrow> lifecycle_error + daemon_lifecycle" where
  "daemon_run d [] = Inr d"
| "daemon_run d (st # sts) =
     (case daemon_transition d st ''route'' (dl_observedAt d) of Inl e \<Rightarrow> Inl e | Inr d' \<Rightarrow> daemon_run d' sts)"

section \<open>Process supervisor\<close>

datatype process_state = P_starting | P_ready | P_running | P_terminating | P_exited | P_failed | P_terminated

datatype supervisor_error =
  Duplicate_process | Unknown_process | Invalid_process_transition | Identity_mismatch

record process_identity =
  pi_agentSessionId :: string
  pi_processEpoch :: string

record process_snapshot = process_identity +
  ps_state :: process_state
  ps_operatingSystemPid :: "int option"
  ps_startedAt :: int
  ps_updatedAt :: int
  ps_exitCode :: "int option"
  ps_failureReason :: "string option"

type_synonym process_table = "(string, process_snapshot) js_map"

fun process_transitions :: "process_state \<Rightarrow> process_state list" where
  "process_transitions P_starting = [P_ready, P_failed, P_terminating]"
| "process_transitions P_ready = [P_running, P_terminating, P_exited, P_failed]"
| "process_transitions P_running = [P_terminating, P_exited, P_failed]"
| "process_transitions P_terminating = [P_terminated, P_failed]"
| "process_transitions P_exited = []"
| "process_transitions P_failed = []"
| "process_transitions P_terminated = []"

definition is_terminal :: "process_state \<Rightarrow> bool" where
  "is_terminal st \<longleftrightarrow> st = P_exited \<or> st = P_failed \<or> st = P_terminated"

definition valid_process_identity :: "process_identity \<Rightarrow> bool" where
  "valid_process_identity i \<longleftrightarrow>
     pi_agentSessionId i \<noteq> [] \<and> length (pi_agentSessionId i) \<le> 256 \<and>
     pi_processEpoch i \<noteq> [] \<and> length (pi_processEpoch i) \<le> 256"

definition process_register ::
  "process_table \<Rightarrow> process_identity \<Rightarrow> int \<Rightarrow> int option \<Rightarrow> supervisor_error + (process_table \<times> process_snapshot)" where
  "process_register t identity now pid =
     (if \<not> valid_process_identity identity then Inl Identity_mismatch
      else if (case map_get t (pi_agentSessionId identity) of
                 None \<Rightarrow> False | Some c \<Rightarrow> \<not> is_terminal (ps_state c))
      then Inl Duplicate_process
      else let next = \<lparr>pi_agentSessionId = pi_agentSessionId identity,
                       pi_processEpoch = pi_processEpoch identity,
                       ps_state = P_starting, ps_operatingSystemPid = pid,
                       ps_startedAt = now, ps_updatedAt = now,
                       ps_exitCode = None, ps_failureReason = None\<rparr>
           in Inr (map_set (pi_agentSessionId identity) next t, next))"

definition process_require :: "process_table \<Rightarrow> process_identity \<Rightarrow> supervisor_error + process_snapshot" where
  "process_require t identity =
     (case map_get t (pi_agentSessionId identity) of
        None \<Rightarrow> Inl Unknown_process
      | Some c \<Rightarrow> if pi_processEpoch c \<noteq> pi_processEpoch identity then Inl Identity_mismatch else Inr c)"

definition process_transition ::
  "process_table \<Rightarrow> process_identity \<Rightarrow> process_state \<Rightarrow> int \<Rightarrow> int option \<Rightarrow> string option
   \<Rightarrow> supervisor_error + (process_table \<times> process_snapshot)" where
  "process_transition t identity nextState now exitCode failureReason =
     (case process_require t identity of
        Inl e \<Rightarrow> Inl e
      | Inr current \<Rightarrow>
          if ps_state current = nextState then Inr (t, current)
          else if nextState \<notin> set (process_transitions (ps_state current)) then Inl Invalid_process_transition
          else if (nextState = P_exited \<or> nextState = P_terminated) \<and> failureReason \<noteq> None
          then Inl Invalid_process_transition
          else if nextState = P_failed \<and> (failureReason = None \<or> failureReason = Some [])
          then Inl Invalid_process_transition
          else let next = current\<lparr>ps_state := nextState, ps_updatedAt := now,
                     ps_exitCode := (case exitCode of None \<Rightarrow> ps_exitCode current | c \<Rightarrow> c),
                     ps_failureReason := (case failureReason of None \<Rightarrow> ps_failureReason current | r \<Rightarrow> r)\<rparr>
               in Inr (map_set (pi_agentSessionId identity) next t, next))"

definition process_list :: "process_table \<Rightarrow> process_snapshot list" where
  "process_list t = map_values t"

inductive process_step :: "process_table \<Rightarrow> process_table \<Rightarrow> bool" where
  register: "process_register t i now pid = Inr (t', sn) \<Longrightarrow> process_step t t'"
| transition: "process_transition t i st now ec fr = Inr (t', sn) \<Longrightarrow> process_step t t'"

text \<open>
  What every entry satisfies: it is filed under its own session id with a bounded
  identity, and a failed process carries a non-empty reason.
\<close>

definition process_entry_ok :: "string \<times> process_snapshot \<Rightarrow> bool" where
  "process_entry_ok e \<longleftrightarrow>
     pi_agentSessionId (snd e) = fst e \<and> valid_process_identity (process_identity.truncate (snd e)) \<and>
     (ps_state (snd e) = P_failed \<longrightarrow> (\<exists>r. ps_failureReason (snd e) = Some r \<and> r \<noteq> []))"

definition process_inv :: "process_table \<Rightarrow> bool" where
  "process_inv t \<longleftrightarrow> distinct (map fst t) \<and> (\<forall>e \<in> set t. process_entry_ok e)"

lemma process_inv_set:
  assumes "process_inv t" and "process_entry_ok (k, sn)"
  shows "process_inv (map_set k sn t)"
proof -
  have "set (map_set k sn t) \<subseteq> insert (k, sn) (set t)"
    by (induction t) auto
  with assms show ?thesis by (auto simp: process_inv_def)
qed

lemma process_require_InrD:
  "process_require t i = Inr c \<Longrightarrow> map_get t (pi_agentSessionId i) = Some c \<and> pi_processEpoch c = pi_processEpoch i"
  by (auto simp: process_require_def split: option.splits if_splits)

lemma process_inv_get:
  "process_inv t \<Longrightarrow> map_get t k = Some c \<Longrightarrow> process_entry_ok (k, c)"
  by (auto simp: process_inv_def dest: map_of_SomeD)

lemma process_step_inv:
  assumes "process_inv t" and "process_step t t'"
  shows "process_inv t'"
  using assms(2)
proof cases
  case (register i now pid sn)
  then show ?thesis
    by (auto simp: process_register_def Let_def process_entry_ok_def valid_process_identity_def
        process_identity.defs intro!: process_inv_set [OF assms(1)] split: if_splits)
next
  case (transition i st now ec fr sn)
  then obtain c where c: "process_require t i = Inr c"
    by (auto simp: process_transition_def split: sum.splits)
  have "process_entry_ok (pi_agentSessionId i, c)"
    using process_require_InrD [OF c] process_inv_get [OF assms(1)] by blast
  with transition c assms(1) show ?thesis
    by (auto simp: process_transition_def Let_def process_entry_ok_def process_identity.defs
        valid_process_identity_def intro!: process_inv_set split: if_splits option.splits)
qed

interpretation process_sys: invariant_system "\<lambda>t. t = []" process_step process_inv
proof unfold_locales
  show "process_inv t" if "t = []" for t using that by (simp add: process_inv_def)
qed (rule process_step_inv)

section \<open>Local client views\<close>

record session_binding =
  sb_userId :: string
  sb_machineId :: string
  sb_agentSessionId :: string
  sb_processEpoch :: string
  sb_fencingGeneration :: int

datatype view_state = V_active | V_navigation | V_detached

record client_view =
  cv_viewId :: string
  cv_binding :: session_binding
  cv_state :: view_state
  cv_columns :: int
  cv_rows :: int

datatype view_error = Duplicate_view | Unknown_view | Stale_view_fence | Navigation_active | Invalid_view

type_synonym view_registry = "(string, client_view) js_map"

definition valid_dimensions :: "int \<Rightarrow> int \<Rightarrow> bool" where
  "valid_dimensions columns rows \<longleftrightarrow> is_safe_integer columns \<and> is_safe_integer rows \<and>
     1 \<le> columns \<and> columns \<le> 1000 \<and> 1 \<le> rows \<and> rows \<le> 1000"

definition valid_view :: "client_view \<Rightarrow> bool" where
  "valid_view v \<longleftrightarrow>
     list_all valid_identifier [cv_viewId v, sb_userId (cv_binding v), sb_machineId (cv_binding v),
       sb_agentSessionId (cv_binding v), sb_processEpoch (cv_binding v)] \<and>
     is_safe_integer (sb_fencingGeneration (cv_binding v)) \<and> 1 \<le> sb_fencingGeneration (cv_binding v) \<and>
     valid_dimensions (cv_columns v) (cv_rows v)"

definition view_open :: "view_registry \<Rightarrow> client_view \<Rightarrow> view_error + (view_registry \<times> client_view)" where
  "view_open t input =
     (if \<not> valid_view input then Inl Invalid_view
      else if map_get t (cv_viewId input) \<noteq> None then Inl Duplicate_view
      else Inr (map_set (cv_viewId input) input t, input))"

definition view_require :: "view_registry \<Rightarrow> string \<Rightarrow> view_error + client_view" where
  "view_require t viewId = (case map_get t viewId of None \<Rightarrow> Inl Unknown_view | Some v \<Rightarrow> Inr v)"

definition view_update ::
  "view_registry \<Rightarrow> string \<Rightarrow> (client_view \<Rightarrow> client_view) \<Rightarrow> view_error + (view_registry \<times> client_view)" where
  "view_update t viewId patch =
     (case view_require t viewId of
        Inl e \<Rightarrow> Inl e
      | Inr current \<Rightarrow>
          if cv_state current = V_detached then Inl Stale_view_fence
          else Inr (map_set viewId (patch current) t, patch current))"

definition view_enterNavigation :: "view_registry \<Rightarrow> string \<Rightarrow> view_error + (view_registry \<times> client_view)" where
  "view_enterNavigation t viewId = view_update t viewId (\<lambda>v. v\<lparr>cv_state := V_navigation\<rparr>)"

definition view_leaveNavigation :: "view_registry \<Rightarrow> string \<Rightarrow> view_error + (view_registry \<times> client_view)" where
  "view_leaveNavigation t viewId = view_update t viewId (\<lambda>v. v\<lparr>cv_state := V_active\<rparr>)"

definition view_resize :: "view_registry \<Rightarrow> string \<Rightarrow> int \<Rightarrow> int \<Rightarrow> view_error + (view_registry \<times> client_view)" where
  "view_resize t viewId columns rows =
     (if \<not> valid_dimensions columns rows then Inl Invalid_view
      else view_update t viewId (\<lambda>v. v\<lparr>cv_columns := columns, cv_rows := rows\<rparr>))"

definition view_detach :: "view_registry \<Rightarrow> string \<Rightarrow> view_error + (view_registry \<times> client_view)" where
  "view_detach t viewId = view_update t viewId (\<lambda>v. v\<lparr>cv_state := V_detached\<rparr>)"


definition view_list :: "view_registry \<Rightarrow> client_view list" where
  "view_list t = map_values t"

inductive view_step :: "view_registry \<Rightarrow> view_registry \<Rightarrow> bool" where
  "view_open t v = Inr (t', v') \<Longrightarrow> view_step t t'"
| "view_enterNavigation t i = Inr (t', v') \<Longrightarrow> view_step t t'"
| "view_leaveNavigation t i = Inr (t', v') \<Longrightarrow> view_step t t'"
| "view_resize t i c r = Inr (t', v') \<Longrightarrow> view_step t t'"
| "view_detach t i = Inr (t', v') \<Longrightarrow> view_step t t'"

definition view_inv :: "view_registry \<Rightarrow> bool" where
  "view_inv t \<longleftrightarrow> (\<forall>k v. map_get t k = Some v \<longrightarrow> valid_view v \<and> cv_viewId v = k)"

lemmas view_op_defs = view_open_def view_enterNavigation_def view_leaveNavigation_def view_resize_def
  view_detach_def view_update_def view_require_def

lemma valid_view_patch [simp]:
  "valid_view (v\<lparr>cv_state := st\<rparr>) = valid_view v"
  "valid_view v \<Longrightarrow> valid_dimensions c r \<Longrightarrow> valid_view (v\<lparr>cv_columns := c, cv_rows := r\<rparr>)"
  by (simp_all add: valid_view_def)

lemma view_step_inv: "view_inv t \<Longrightarrow> view_step t t' \<Longrightarrow> view_inv t'"
  by (erule view_step.cases)
     (auto simp: view_inv_def view_op_defs split: if_splits option.splits sum.splits)

interpretation view_sys: invariant_system "\<lambda>t. t = []" view_step view_inv
proof unfold_locales
  show "view_inv t" if "t = []" for t using that by (simp add: view_inv_def)
qed (rule view_step_inv)



section \<open>Properties\<close>

text \<open>
  The daemon can always be brought back into service. From every lifecycle value,
  following \<open>daemon_route\<close> through \<^verbatim>\<open>DaemonLifecycle.transition\<close> succeeds at every
  step and ends in \<^verbatim>\<open>ready\<close>; the revision has grown by exactly the number of
  transitions made.
\<close>

theorem daemon_recoverable:
  "\<exists>d'. daemon_run d (daemon_route (dl_state d)) = Inr d' \<and> dl_state d' = D_ready \<and>
        dl_revision d' = dl_revision d + int (length (daemon_route (dl_state d)))"
  by (cases "dl_state d") (auto simp: daemon_transition_def)

text \<open>
  A process that ended stays ended. Whatever operation of the supervisor runs, the
  entry of a session whose process is exited, failed or terminated either stays exactly
  as it is or has been replaced by a registration in state \<^verbatim>\<open>starting\<close>; and
  a request that names another epoch than the supervised one is refused without
  any effect.
\<close>

theorem process_terminal_final:
  assumes "process_step t t'" and "map_get t k = Some c" and "is_terminal (ps_state c)"
  shows "(map_get t' k = Some c \<or> (\<exists>c'. map_get t' k = Some c' \<and> ps_state c' = P_starting)) \<and>
         (\<forall>i st now ec fr. pi_agentSessionId i = k \<and> pi_processEpoch i \<noteq> pi_processEpoch c \<longrightarrow>
            process_transition t i st now ec fr = Inl Identity_mismatch)"
proof -
  have no_out: "process_transitions (ps_state c) = []"
    using assms(3) by (auto simp: is_terminal_def)
  have "map_get t' k = Some c \<or> (\<exists>c'. map_get t' k = Some c' \<and> ps_state c' = P_starting)"
    using assms(1)
  proof cases
    case (register i now pid sn)
    then show ?thesis using assms(2) by (auto simp: process_register_def Let_def split: if_splits)
  next
    case (transition i st now ec fr sn)
    then show ?thesis
      using assms(2) no_out
      by (auto simp: process_transition_def process_require_def Let_def split: sum.splits option.splits if_splits)
  qed
  moreover have "process_transition t i st now ec fr = Inl Identity_mismatch"
    if "pi_agentSessionId i = k" "pi_processEpoch i \<noteq> pi_processEpoch c" for i st now ec fr
    using that assms(2) by (auto simp: process_transition_def process_require_def)
  ultimately show ?thesis by blast
qed

definition process_ex :: "process_state \<Rightarrow> process_table" where
  "process_ex st = [(''s'', \<lparr>pi_agentSessionId = ''s'', pi_processEpoch = ''e1'', ps_state = st,
     ps_operatingSystemPid = None, ps_startedAt = 0, ps_updatedAt = 0, ps_exitCode = None, ps_failureReason = None\<rparr>)]"

theorem process_terminal_final_witness:
  "process_transition (process_ex P_exited) \<lparr>pi_agentSessionId = ''s'', pi_processEpoch = ''e2''\<rparr> P_running 5 None None
     = Inl Identity_mismatch"
proof -
  let ?i = "\<lparr>pi_agentSessionId = ''t'', pi_processEpoch = ''e''\<rparr>"
  obtain t' sn where reg: "process_register (process_ex P_exited) ?i 1 None = Inr (t', sn)"
    by (simp add: process_register_def process_ex_def valid_process_identity_def Let_def)
  have get: "map_get (process_ex P_exited) ''s'' = Some (snd (hd (process_ex P_exited)))"
    by (simp add: process_ex_def)
  have ended: "is_terminal (ps_state (snd (hd (process_ex P_exited))))"
    by (simp add: process_ex_def is_terminal_def)
  from process_terminal_final [OF process_step.register [OF reg] get ended]
  show ?thesis by (simp add: process_ex_def)
qed




end
