(* ===== verification/Wire.thy ===== *)
theory Wire
  imports Prelude "HOL-Library.Word"
begin

text \<open>
  Byte-level material shared by the two framed protocols of the program, the daemon
  IPC (\<^verbatim>\<open>src/daemon/protocol.ts\<close>) and the terminal wire (\<^verbatim>\<open>src/terminal/codec.ts\<close>):
  big-endian integers as \<^verbatim>\<open>DataView\<close> writes and reads them, and the interface
  \<open>frame_stream\<close> of an incremental frame decoder, in which it is proved once that the
  way a byte stream is cut into chunks does not change the frames that come out.
\<close>

unbundle bit_operations_syntax

type_synonym byte = "8 word"

text \<open>The UTF-8 encoding of a text (code units below 256).\<close>

definition utf8_char :: "char \<Rightarrow> byte list" where
  "utf8_char c = (let n = of_char c :: nat in if n < 128 then [of_nat n] else [of_nat (192 + n div 64), of_nat (128 + n mod 64)])"

definition utf8_bytes :: "string \<Rightarrow> byte list" where
  "utf8_bytes s = concat (map utf8_char s)"

lemma utf8_char_code [code]: "utf8_char (Char b0 b1 b2 b3 b4 b5 b6 b7) =
  (if b7 then (let n = of_char (Char b0 b1 b2 b3 b4 b5 b6 b7) :: int in [word_of_int (192 + n div 64), word_of_int (128 + n mod 64)])
   else [word_of_int (of_char (Char b0 b1 b2 b3 b4 b5 b6 b7))])"
proof -
  define c n where "c = Char b0 b1 b2 b3 b4 b5 b6 b7" and "n = (of_char c :: nat)"
  have "n < 128 \<longleftrightarrow> \<not> b7" by (simp add: c_def n_def of_bool_def)
  moreover have "of_char c = int n" by (simp add: n_def of_nat_of_char)
  moreover have "int n div 64 = int (n div 64)" "int n mod 64 = int (n mod 64)" by (simp_all add: zdiv_int zmod_int)
  ultimately show ?thesis unfolding c_def [symmetric] by (simp add: utf8_char_def Let_def n_def [symmetric])
qed

lemma length_utf8_bytes: "length (utf8_bytes s) = utf8_length s"
  by (induction s) (auto simp: utf8_bytes_def utf8_length_def utf8_char_def Let_def)

section \<open>Big-endian integers\<close>

primrec be_encode :: "nat \<Rightarrow> nat \<Rightarrow> byte list" where
  "be_encode 0 x = []"
| "be_encode (Suc n) x = of_nat (x div 256 ^ n) # be_encode n x"

definition be_decode :: "byte list \<Rightarrow> nat" where
  "be_decode bs = foldl (\<lambda>a b. a * 256 + unat b) 0 bs"

lemma length_be_encode [simp]: "length (be_encode n x) = n"
  by (induction n) auto

lemma foldl_be: "foldl (\<lambda>a b. a * 256 + unat (b::byte)) a bs = a * 256 ^ length bs + be_decode bs"
  unfolding be_decode_def
proof (induction bs arbitrary: a)
  case (Cons b bs)
  have "foldl (\<lambda>a b. a * 256 + unat b) a (b # bs) = (a * 256 + unat b) * 256 ^ length bs
      + foldl (\<lambda>a b. a * 256 + unat b) 0 bs"
    using Cons [of "a * 256 + unat b"] by simp
  moreover have "foldl (\<lambda>a b. a * 256 + unat b) 0 (b # bs) = unat b * 256 ^ length bs
      + foldl (\<lambda>a b. a * 256 + unat b) 0 bs"
    using Cons [of "unat b"] by simp
  ultimately show ?case by (simp add: algebra_simps)
qed simp

lemma be_decode_Cons: "be_decode (b # bs) = unat b * 256 ^ length bs + be_decode bs"
  using foldl_be [of "unat b" bs] by (simp add: be_decode_def)

lemma be_decode_Nil [simp]: "be_decode [] = 0"
  by (simp add: be_decode_def)

lemma unat_of_nat_byte: "unat (of_nat x :: byte) = x mod 256"
  by (simp add: unat_of_nat)

theorem be_decode_encode: "be_decode (be_encode n x) = x mod 256 ^ n"
proof (induction n)
  case (Suc n)
  have "x mod (256 ^ n * 256) = 256 ^ n * (x div 256 ^ n mod 256) + x mod 256 ^ n"
    by (rule mod_mult2_eq)
  with Suc show ?case
    by (simp add: be_decode_Cons unat_of_nat_byte mult.commute)
qed simp

lemma be_decode_less: "be_decode bs < 256 ^ length bs"
proof (induction bs)
  case (Cons b bs)
  have "unat b < 256" using unsigned_less [of b] by simp
  have "unat b * 256 ^ length bs + be_decode bs < (unat b + 1) * 256 ^ length bs" using Cons by simp
  also have "\<dots> \<le> 256 * 256 ^ length bs" using \<open>unat b < 256\<close> by (intro mult_right_mono) simp_all
  finally show ?case by (simp add: be_decode_Cons)
qed simp

lemma flag_bits:
  "(if c then 1 else 0 :: byte) AND NOT 1 = 0"
  "((if c then 1 else 0 :: byte) AND 1 \<noteq> 0) = c"
  by simp_all

section \<open>Incremental frame decoders\<close>

text \<open>Pushing the chunks of a stream one after the other, as the transport delivers them.\<close>

primrec push_all ::
  "('s \<Rightarrow> byte list \<Rightarrow> ('e + 'f list) \<times> 's) \<Rightarrow> 's \<Rightarrow> byte list list \<Rightarrow> 'f list \<Rightarrow> ('e + 'f list) \<times> 's" where
  "push_all push s [] got = (Inr got, s)"
| "push_all push s (c # cs) got =
     (case push s c of (Inl e, s') \<Rightarrow> (Inl e, s') | (Inr fs, s') \<Rightarrow> push_all push s' cs (got @ fs))"

text \<open>
  The interface of a decoder. \<open>enc\<close> is the encoding of a valid frame, \<open>loop\<close> the
  decoding loop over the bytes received and not yet consumed, \<open>push\<close> what the
  decoder object does with a chunk, \<open>buf\<close> the bytes it holds and \<open>inv\<close> its
  representation invariant. The laws: a buffer that is a proper prefix of a valid frame
  is kept; a complete valid frame at the front is delivered (while fewer than \<open>maxq\<close>
  frames are waiting); \<open>push\<close> behaves as the loop on the joined bytes while they fit.
\<close>

locale frame_stream =
  fixes enc :: "'f \<Rightarrow> byte list"
    and valid :: "'f \<Rightarrow> bool"
    and loop :: "byte list \<Rightarrow> 'f list \<Rightarrow> ('e + 'f list) \<times> byte list"
    and push :: "'s \<Rightarrow> byte list \<Rightarrow> ('e + 'f list) \<times> 's"
    and buf :: "'s \<Rightarrow> byte list"
    and inv :: "'s \<Rightarrow> bool"
    and maxq :: nat
    and capacity :: nat
    and maxframe :: nat
  assumes enc_nonempty: "valid f \<Longrightarrow> enc f \<noteq> []"
    and enc_bound: "valid f \<Longrightarrow> length (enc f) \<le> maxframe"
    and loop_Nil: "loop [] fs = (Inr fs, [])"
    and loop_partial: "valid f \<Longrightarrow> m < length (enc f) \<Longrightarrow> loop (take m (enc f)) fs = (Inr fs, take m (enc f))"
    and loop_frame: "valid f \<Longrightarrow> length fs < maxq \<Longrightarrow> loop (enc f @ rest) fs = loop rest (fs @ [f])"
    and push_loop: "inv s \<Longrightarrow> length (buf s) + length chunk \<le> capacity \<Longrightarrow>
        push s chunk = (r, s') \<Longrightarrow> loop (buf s @ chunk) [] = (r, buf s') \<and> inv s'"
begin

abbreviation encs :: "'f list \<Rightarrow> byte list" where
  "encs fs \<equiv> concat (map enc fs)"

lemma split_at_frame:
  assumes "data @ rest = x @ y" and "length x \<le> length data"
  obtains data' where "data = x @ data'" "data' @ rest = y"
  using assms by (metis append_eq_append_conv_if append_take_drop_id)

lemma loop_prefix:
  assumes "\<forall>f \<in> set fs. valid f" and "data @ rest = encs fs" and "length got + length fs \<le> maxq"
  shows "\<exists>k b. loop data got = (Inr (got @ take k fs), b) \<and> k \<le> length fs \<and>
           b @ rest = encs (drop k fs) \<and> (k < length fs \<longrightarrow> length b < length (enc (fs ! k)))"
  using assms
proof (induction fs arbitrary: data got)
  case Nil
  then show ?case by (simp add: loop_Nil)
next
  case (Cons f fs)
  have f: "valid f" and fs: "\<forall>f \<in> set fs. valid f" using Cons.prems(1) by auto
  show ?case
  proof (cases "length (enc f) \<le> length data")
    case True
    with Cons.prems(2) obtain data' where d: "data = enc f @ data'" "data' @ rest = encs fs"
      by (auto elim: split_at_frame)
    have "loop data got = loop data' (got @ [f])"
      using f Cons.prems(3) d(1) by (simp add: loop_frame)
    moreover obtain k b where kb: "loop data' (got @ [f]) = (Inr ((got @ [f]) @ take k fs), b)" "k \<le> length fs"
      "b @ rest = encs (drop k fs)" "k < length fs \<longrightarrow> length b < length (enc (fs ! k))"
      using Cons.IH [OF fs d(2), of "got @ [f]"] Cons.prems(3) by auto
    ultimately show ?thesis by (intro exI [of _ "Suc k"] exI [of _ b]) simp
  next
    case False
    then have "data = take (length data) (enc f)"
      using Cons.prems(2) by (simp add: append_eq_append_conv_if)
    with False have "loop data got = (Inr got, data)"
      using loop_partial [OF f, of "length data" got] by simp
    with False Cons.prems(2) show ?thesis by (intro exI [of _ 0] exI [of _ data]) simp
  qed
qed

lemma pushes_stream:
  assumes "\<forall>f \<in> set fs. valid f" and "inv s" and "buf s @ concat cs = encs fs"
    and "fs = [] \<or> length (buf s) < length (enc (hd fs))"
    and "length fs \<le> maxq" and "\<forall>c \<in> set cs. length c + maxframe \<le> capacity"
  shows "\<exists>s'. push_all push s cs got = (Inr (got @ fs), s') \<and> buf s' = [] \<and> inv s'"
  using assms
proof (induction cs arbitrary: s fs got)
  case Nil
  have "fs = []"
  proof (rule ccontr)
    assume "fs \<noteq> []"
    then obtain f fs' where fs: "fs = f # fs'" by (cases fs) auto
    with Nil have "buf s = enc f @ encs fs'" "length (buf s) < length (enc f)" by auto
    then show False by simp
  qed
  with Nil show ?case by simp
next
  case (Cons c cs)
  have small: "length (buf s) \<le> maxframe"
  proof (cases fs)
    case Nil
    then show ?thesis using Cons.prems(3) by simp
  next
    case (Cons f fs')
    then show ?thesis using Cons.prems(1,4) enc_bound [of f] by simp
  qed
  obtain r s' where p: "push s c = (r, s')" by fastforce
  have fits: "length (buf s) + length c \<le> capacity" using small Cons.prems(6) by simp
  have lp: "loop (buf s @ c) [] = (r, buf s')" and inv': "inv s'"
    using push_loop [OF Cons.prems(2) fits p] by auto
  have data: "(buf s @ c) @ concat cs = encs fs" using Cons.prems(3) by simp
  obtain k b where "loop (buf s @ c) [] = (Inr (take k fs), b)" and kb: "k \<le> length fs"
    "b @ concat cs = encs (drop k fs)" "k < length fs \<longrightarrow> length b < length (enc (fs ! k))"
    using loop_prefix [OF Cons.prems(1) data, of "[]"] Cons.prems(5) by auto
  with lp have r: "r = Inr (take k fs)" and b: "buf s' = b" by auto
  have tail: "drop k fs = [] \<or> length (buf s') < length (enc (hd (drop k fs)))"
    using kb(3) b by (cases "k < length fs") (auto simp: hd_drop_conv_nth)
  have "\<forall>f \<in> set (drop k fs). valid f" using Cons.prems(1) by (meson in_set_dropD)
  from Cons.IH [OF this inv' _ tail, of "got @ take k fs"] kb(2) b Cons.prems(5,6)
  have "\<exists>s''. push_all push s' cs (got @ take k fs) = (Inr ((got @ take k fs) @ drop k fs), s'') \<and> buf s'' = [] \<and> inv s''"
    by simp
  then show ?case using p r by auto
qed

end

end
