(* ===== verification/Json.thy ===== *)
theory Json
  imports Prelude
begin

text \<open>
  The JavaScript values the program receives and hashes: JSON values as
  \<^verbatim>\<open>JSON.parse\<close> returns them, the coercion \<^verbatim>\<open>String(value)\<close> and the printer
  \<^verbatim>\<open>JSON.stringify\<close>. Text is a list of characters; code units above 255 are not
  represented.

  A number is an integer or, for every other double, whether it is integral and the
  text \<^verbatim>\<open>Number.prototype.toString\<close> gives for it (\<^verbatim>\<open>JSON.parse\<close> yields doubles that
  are not safe integers: fractions, large magnitudes and, from an exponent that
  overflows, infinities).
\<close>

datatype js_number = JInt int | JOther bool string

datatype json =
  JNull
| JBool bool
| JNum js_number
| JStr string
| JArr "json list"
| JObj "(string \<times> json) list"

fun number_is_safe_integer :: "js_number \<Rightarrow> bool" where
  "number_is_safe_integer (JInt i) = is_safe_integer i"
| "number_is_safe_integer (JOther _ _) = False"

fun number_is_integer :: "js_number \<Rightarrow> bool" where
  "number_is_integer (JInt i) = True"
| "number_is_integer (JOther integral _) = integral"

text \<open>\<^verbatim>\<open>Number.isSafeInteger(v) && lo <= v && v <= hi\<close> on an optional value.\<close>

fun json_int :: "json option \<Rightarrow> int option" where
  "json_int (Some (JNum (JInt i))) = (if is_safe_integer i then Some i else None)"
| "json_int _ = None"

definition int_between :: "int \<Rightarrow> int \<Rightarrow> json option \<Rightarrow> bool" where
  "int_between lo hi v = (case json_int v of None \<Rightarrow> False | Some i \<Rightarrow> lo \<le> i \<and> i \<le> hi)"

section \<open>Text of numbers and strings\<close>

definition digit_char :: "nat \<Rightarrow> char" where
  "digit_char d = char_of (48 + d)"

fun nat_text :: "nat \<Rightarrow> string" where
  "nat_text n = (if n < 10 then [digit_char n] else nat_text (n div 10) @ [digit_char (n mod 10)])"

declare nat_text.simps [simp del]

definition int_text :: "int \<Rightarrow> string" where
  "int_text i = (if i < 0 then CHR ''-'' # nat_text (nat (- i)) else nat_text (nat i))"

text \<open>The same digits, computed on \<open>int\<close>.\<close>

function int_digits :: "int \<Rightarrow> string" where
  "int_digits i = (if i < 10 then [digit_char (nat i)] else int_digits (i div 10) @ [digit_char (nat (i mod 10))])"
  by pat_completeness auto
termination by (relation "measure nat") auto

declare int_digits.simps [simp del]

lemma nat_text_int_digits: "0 \<le> i \<Longrightarrow> nat_text (nat i) = int_digits i"
proof (induction i rule: int_digits.induct)
  case step: (1 i)
  show ?case
  proof (cases "i < 10")
    case True
    with step.prems have "nat i < 10" by linarith
    with True show ?thesis by (subst nat_text.simps, subst int_digits.simps) simp
  next
    case False
    with step have "nat_text (nat i div 10) = int_digits (i div 10)" by (simp add: nat_div_distrib)
    moreover from False step.prems have "\<not> nat i < 10" by linarith
    ultimately show ?thesis using False step.prems by (subst nat_text.simps, subst int_digits.simps) (simp add: nat_mod_distrib)
  qed
qed

lemma int_text_code [code]: "int_text i = (if i < 0 then CHR ''-'' # int_digits (- i) else int_digits i)"
  by (simp add: int_text_def nat_text_int_digits)

fun number_text :: "js_number \<Rightarrow> string" where
  "number_text (JInt i) = int_text i"
| "number_text (JOther _ t) = t"

definition hex_char :: "nat \<Rightarrow> char" where
  "hex_char d = (if d < 10 then char_of (48 + d) else char_of (87 + d))"

text \<open>\<^verbatim>\<open>JSON.stringify\<close> of a string: the escapes of ECMAScript's \<^verbatim>\<open>QuoteJSONString\<close>.\<close>

definition json_escape :: "char \<Rightarrow> string" where
  "json_escape c =
     (let n = of_char c :: nat in
      if n = 34 then [CHR 0x5C, CHR 0x22]
      else if n = 92 then [CHR 0x5C, CHR 0x5C]
      else if n = 8 then CHR 0x5C # ''b''
      else if n = 9 then CHR 0x5C # ''t''
      else if n = 10 then CHR 0x5C # ''n''
      else if n = 12 then CHR 0x5C # ''f''
      else if n = 13 then CHR 0x5C # ''r''
      else if n < 32 then CHR 0x5C # ''u00'' @ [hex_char (n div 16), hex_char (n mod 16)]
      else [c])"

lemma json_escape_code [code]: "json_escape (Char b0 b1 b2 b3 b4 b5 b6 b7) =
  (let c = Char b0 b1 b2 b3 b4 b5 b6 b7 in
   if b5 \<or> b6 \<or> b7 then (if c = CHR 0x22 then [CHR 0x5C, CHR 0x22] else if c = CHR 0x5C then [CHR 0x5C, CHR 0x5C] else [c])
   else let n = of_char c :: nat in
     if n = 8 then CHR 0x5C # ''b'' else if n = 9 then CHR 0x5C # ''t'' else if n = 10 then CHR 0x5C # ''n''
     else if n = 12 then CHR 0x5C # ''f'' else if n = 13 then CHR 0x5C # ''r''
     else CHR 0x5C # ''u00'' @ [hex_char (n div 16), hex_char (n mod 16)])"
proof -
  define c n where "c = Char b0 b1 b2 b3 b4 b5 b6 b7" and "n = (of_char c :: nat)"
  have lt: "n < 32 \<longleftrightarrow> \<not> (b5 \<or> b6 \<or> b7)" by (simp add: c_def n_def of_bool_def)
  have "of_char (CHR 0x22) = (34::nat)" "of_char (CHR 0x5C) = (92::nat)" by simp_all
  then have eq: "n = 34 \<longleftrightarrow> c = CHR 0x22" "n = 92 \<longleftrightarrow> c = CHR 0x5C" unfolding n_def by (metis of_char_eq_iff)+
  show ?thesis
  proof (cases "n < 32")
    case True
    with lt eq show ?thesis unfolding c_def [symmetric] json_escape_def Let_def n_def [symmetric] by (simp del: char.inject)
  next
    case False
    with lt eq show ?thesis unfolding c_def [symmetric] json_escape_def Let_def n_def [symmetric] by (simp del: char.inject)
  qed
qed

definition json_quote :: "string \<Rightarrow> string" where
  "json_quote s = CHR 0x22 # concat (map json_escape s) @ [CHR 0x22]"

fun join_with :: "string \<Rightarrow> string list \<Rightarrow> string" where
  "join_with sep [] = []"
| "join_with sep [x] = x"
| "join_with sep (x # y # xs) = x @ sep @ join_with sep (y # xs)"

fun json_stringify :: "json \<Rightarrow> string" where
  "json_stringify JNull = ''null''"
| "json_stringify (JBool b) = (if b then ''true'' else ''false'')"
| "json_stringify (JNum n) =
     (if number_text n \<in> {''NaN'', ''Infinity'', ''-Infinity''} then ''null'' else number_text n)"
| "json_stringify (JStr s) = json_quote s"
| "json_stringify (JArr xs) = ''['' @ join_with '','' (map json_stringify xs) @ '']''"
| "json_stringify (JObj props) =
     ''{'' @ join_with '','' (map (\<lambda>(k, v). json_quote k @ '':'' @ json_stringify v) props) @ ''}''"

section \<open>Coercion to a string\<close>

text \<open>
  \<^verbatim>\<open>String(value)\<close>. An array joins its elements, an object gives
  \<^verbatim>\<open>[object Object]\<close>; an object that carries an own property \<^verbatim>\<open>toString\<close> (in JSON
  never callable) makes the coercion throw a \<^verbatim>\<open>TypeError\<close>, the value \<open>None\<close> here.
  The value \<^verbatim>\<open>undefined\<close> (no such property) is the argument \<open>None\<close>.
\<close>

fun js_to_string :: "json \<Rightarrow> string option" where
  "js_to_string JNull = Some ''null''"
| "js_to_string (JBool b) = Some (if b then ''true'' else ''false'')"
| "js_to_string (JNum n) = Some (number_text n)"
| "js_to_string (JStr s) = Some s"
| "js_to_string (JArr xs) =
     map_option (join_with '','')
       (those (map (\<lambda>x. if x = JNull then Some [] else js_to_string x) xs))"
| "js_to_string (JObj props) =
     (if map_of props ''toString'' = None then Some ''[object Object]'' else None)"

fun js_string_of :: "json option \<Rightarrow> string option" where
  "js_string_of None = Some ''undefined''"
| "js_string_of (Some v) = js_to_string v"

section \<open>Facts\<close>

lemma json_int_Some: "json_int v = Some i \<Longrightarrow> v = Some (JNum (JInt i)) \<and> is_safe_integer i"
  by (cases v rule: json_int.cases) (auto split: if_splits)

lemma int_betweenD:
  "int_between lo hi v \<Longrightarrow> \<exists>i. v = Some (JNum (JInt i)) \<and> is_safe_integer i \<and> lo \<le> i \<and> i \<le> hi"
  by (auto simp: int_between_def split: option.splits dest: json_int_Some)

end
