(* ===== verification/Ipc_Protocol.thy ===== *)
theory Ipc_Protocol
  imports Wire Json
begin

text \<open>
  The daemon's IPC protocol, \<^verbatim>\<open>src/daemon/protocol.ts\<close>: frames with a twelve-byte
  header, messages as JSON, version negotiation, and the decoder object
  \<^verbatim>\<open>IpcFrameDecoder\<close>, whose state is the bytes received and not consumed.
\<close>

section \<open>Constants and frame types\<close>

definition max_ipc_frame_bytes :: nat where "max_ipc_frame_bytes = 1024 * 1024"
definition max_ipc_buffer_bytes :: nat where "max_ipc_buffer_bytes = max_ipc_frame_bytes * 2"
definition max_ipc_queued_frames :: nat where "max_ipc_queued_frames = 64"
definition ipc_header_bytes :: nat where "ipc_header_bytes = 12"
definition ipc_magic :: "byte list" where "ipc_magic = [0x52, 0x49, 0x50, 0x43]"
definition daemon_protocol_version :: int where "daemon_protocol_version = 1"

lemmas ipc_consts = max_ipc_frame_bytes_def max_ipc_buffer_bytes_def max_ipc_queued_frames_def
  ipc_header_bytes_def ipc_magic_def daemon_protocol_version_def

datatype ipc_type =
  Ipc_hello | Ipc_welcome | Ipc_request | Ipc_response | Ipc_event | Ipc_cancel | Ipc_heartbeat | Ipc_error

datatype ipc_error_code =
  Ipc_invalid_magic | Ipc_unsupported_version | Ipc_oversize_frame | Ipc_buffer_limit | Ipc_queue_limit
  | Ipc_unknown_critical_frame | Ipc_malformed_frame | Ipc_invalid_message

fun frameTypeCode :: "ipc_type \<Rightarrow> nat" where
  "frameTypeCode Ipc_hello = 1"
| "frameTypeCode Ipc_welcome = 2"
| "frameTypeCode Ipc_request = 3"
| "frameTypeCode Ipc_response = 4"
| "frameTypeCode Ipc_event = 5"
| "frameTypeCode Ipc_cancel = 6"
| "frameTypeCode Ipc_heartbeat = 7"
| "frameTypeCode Ipc_error = 8"

definition all_ipc_types :: "ipc_type list" where
  "all_ipc_types = [Ipc_hello, Ipc_welcome, Ipc_request, Ipc_response, Ipc_event, Ipc_cancel, Ipc_heartbeat, Ipc_error]"

text \<open>\<^verbatim>\<open>TYPE_NAMES\<close>: the inverse table.\<close>

definition ipc_type_names :: "nat \<Rightarrow> ipc_type option" where
  "ipc_type_names = map_of (map (\<lambda>t. (frameTypeCode t, t)) all_ipc_types)"

fun ipc_type_text :: "ipc_type \<Rightarrow> string" where
  "ipc_type_text Ipc_hello = ''hello''"
| "ipc_type_text Ipc_welcome = ''welcome''"
| "ipc_type_text Ipc_request = ''request''"
| "ipc_type_text Ipc_response = ''response''"
| "ipc_type_text Ipc_event = ''event''"
| "ipc_type_text Ipc_cancel = ''cancel''"
| "ipc_type_text Ipc_heartbeat = ''heartbeat''"
| "ipc_type_text Ipc_error = ''error''"

record ipc_frame =
  ipf_type :: ipc_type
  ipf_critical :: bool
  ipf_payload :: "byte list"

record ipc_header =
  iph_typeCode :: nat
  iph_critical :: bool
  iph_length :: nat

section \<open>Frames\<close>

definition ipc_header_list :: "ipc_frame \<Rightarrow> byte list" where
  "ipc_header_list f =
     ipc_magic @ [1, if ipf_critical f then 1 else 0] @ be_encode 2 (frameTypeCode (ipf_type f)) @
     be_encode 4 (length (ipf_payload f))"

definition ipc_frame_bytes :: "ipc_frame \<Rightarrow> byte list" where
  "ipc_frame_bytes f = ipc_header_list f @ ipf_payload f"

definition encodeIpcFrame :: "ipc_frame \<Rightarrow> ipc_error_code + byte list" where
  "encodeIpcFrame f =
     (if length (ipf_payload f) > max_ipc_frame_bytes then Inl Ipc_oversize_frame
      else Inr (ipc_frame_bytes f))"

definition ipc_parseHeader :: "byte list \<Rightarrow> ipc_error_code + ipc_header" where
  "ipc_parseHeader bytes =
     (if length bytes < ipc_header_bytes then Inl Ipc_malformed_frame
      else if take 4 bytes \<noteq> ipc_magic then Inl Ipc_invalid_magic
      else if bytes ! 4 \<noteq> 1 then Inl Ipc_unsupported_version
      else if bytes ! 5 AND NOT 1 \<noteq> 0 then Inl Ipc_malformed_frame
      else let len = be_decode (take 4 (drop 8 bytes)) in
        if len > max_ipc_frame_bytes then Inl Ipc_oversize_frame
        else Inr \<lparr>iph_typeCode = be_decode (take 2 (drop 6 bytes)),
                  iph_critical = (bytes ! 5 AND 1 \<noteq> 0), iph_length = len\<rparr>)"

definition decodeIpcFrame :: "byte list \<Rightarrow> ipc_error_code + ipc_frame option" where
  "decodeIpcFrame bytes =
     (case ipc_parseHeader bytes of
        Inl e \<Rightarrow> Inl e
      | Inr header \<Rightarrow>
          if length bytes \<noteq> ipc_header_bytes + iph_length header then Inl Ipc_malformed_frame
          else case ipc_type_names (iph_typeCode header) of
            None \<Rightarrow> if iph_critical header then Inl Ipc_unknown_critical_frame else Inr None
          | Some t \<Rightarrow> Inr (Some \<lparr>ipf_type = t, ipf_critical = iph_critical header,
                              ipf_payload = drop ipc_header_bytes bytes\<rparr>))"

section \<open>The decoder object\<close>

text \<open>
  The \<^verbatim>\<open>while\<close> loop of \<^verbatim>\<open>IpcFrameDecoder.push\<close> over the buffered bytes. The buffer is
  part of the result: a header or frame that is refused stays at the front of the
  buffer (it is cut off only after it was decoded), so the decoder refuses it again.
\<close>

function ipc_loop :: "byte list \<Rightarrow> ipc_frame list \<Rightarrow> (ipc_error_code + ipc_frame list) \<times> byte list" where
  "ipc_loop buffer frames =
     (if length buffer < ipc_header_bytes then (Inr frames, buffer)
      else case ipc_parseHeader buffer of
        Inl e \<Rightarrow> (Inl e, buffer)
      | Inr header \<Rightarrow>
          let frameLength = ipc_header_bytes + iph_length header in
          if length buffer < frameLength then (Inr frames, buffer)
          else case decodeIpcFrame (take frameLength buffer) of
            Inl e \<Rightarrow> (Inl e, buffer)
          | Inr decoded \<Rightarrow>
              let frames' = (case decoded of None \<Rightarrow> frames | Some f \<Rightarrow> frames @ [f]) in
              if length frames' > max_ipc_queued_frames
              then (Inl Ipc_queue_limit, drop frameLength buffer)
              else ipc_loop (drop frameLength buffer) frames')"
  by pat_completeness auto
termination
  by (relation "measure (\<lambda>(buffer, frames). length buffer)") (auto simp: ipc_consts)

declare ipc_loop.simps [simp del]

definition ipc_push :: "byte list \<Rightarrow> byte list \<Rightarrow> (ipc_error_code + ipc_frame list) \<times> byte list" where
  "ipc_push buffer chunk =
     (if length chunk + length buffer > max_ipc_buffer_bytes then (Inl Ipc_buffer_limit, buffer)
      else ipc_loop (buffer @ chunk) [])"

definition ipc_bufferedBytes :: "byte list \<Rightarrow> nat" where
  "ipc_bufferedBytes buffer = length buffer"

section \<open>Messages\<close>

definition is_safe_ident_char :: "char \<Rightarrow> bool" where
  "is_safe_ident_char c \<longleftrightarrow>
     c \<in> set ''ABCDEFGHIJKLMNOPQRSTUVWXYZabcdefghijklmnopqrstuvwxyz0123456789._:-''"

fun isSafeIdentifier :: "json option \<Rightarrow> bool" where
  "isSafeIdentifier (Some (JStr s)) = (1 \<le> length s \<and> length s \<le> 128 \<and> list_all is_safe_ident_char s)"
| "isSafeIdentifier _ = False"

definition request_operations :: "string list" where
  "request_operations = [''lease.acquire'', ''lease.renew'', ''lease.release'', ''intent.record'',
     ''intent.reconcile'', ''view.open'', ''view.select'', ''view.close'', ''supervisor.inspect'']"

definition response_outcomes :: "string list" where
  "response_outcomes = [''accepted'', ''rejected'', ''unknown'', ''reconciling'']"

text \<open>
  \<^verbatim>\<open>decodeIpcMessage\<close>. \<open>parse\<close> is \<^verbatim>\<open>JSON.parse\<close> after the fatal UTF-8 decoder,
  \<open>None\<close> where either throws. \<^verbatim>\<open>String(value.outcome)\<close> can throw a \<^verbatim>\<open>TypeError\<close>,
  which is not an \<^verbatim>\<open>IpcProtocolError\<close>: the outcome \<open>Msg_type_error\<close>.
\<close>

datatype ipc_decoded = Msg_ok "(string \<times> json) list" | Msg_refused | Msg_type_error

definition decodeIpcMessage :: "(byte list \<Rightarrow> json option) \<Rightarrow> ipc_frame \<Rightarrow> ipc_decoded" where
  "decodeIpcMessage parse frame =
     (case parse (ipf_payload frame) of
        Some (JObj value) \<Rightarrow>
          (let get = map_of value in
           if get ''kind'' \<noteq> Some (JStr (ipc_type_text (ipf_type frame))) then Msg_refused
           else case ipf_type frame of
             Ipc_hello \<Rightarrow>
               if json_int (get ''minimumVersion'') = None \<or> json_int (get ''maximumVersion'') = None
                  \<or> \<not> isSafeIdentifier (get ''clientInstanceId'')
               then Msg_refused else Msg_ok value
           | Ipc_welcome \<Rightarrow>
               if get ''selectedVersion'' \<noteq> Some (JNum (JInt daemon_protocol_version))
                  \<or> \<not> isSafeIdentifier (get ''daemonInstanceId'')
               then Msg_refused else Msg_ok value
           | Ipc_request \<Rightarrow>
               (case (isSafeIdentifier (get ''requestId''), get ''operation'', get ''body'') of
                  (True, Some (JStr operation), Some (JObj body)) \<Rightarrow>
                    if operation \<in> set request_operations then Msg_ok value else Msg_refused
                | _ \<Rightarrow> Msg_refused)
           | Ipc_response \<Rightarrow>
               if \<not> isSafeIdentifier (get ''requestId'') then Msg_refused
               else (case js_string_of (get ''outcome'') of
                       None \<Rightarrow> Msg_type_error
                     | Some t \<Rightarrow> if t \<in> set response_outcomes then Msg_ok value else Msg_refused)
           | _ \<Rightarrow> Msg_refused)
      | _ \<Rightarrow> Msg_refused)"

definition negotiateDaemonProtocol :: "int \<Rightarrow> int \<Rightarrow> ipc_error_code + int" where
  "negotiateDaemonProtocol minimumVersion maximumVersion =
     (if \<not> is_safe_integer minimumVersion \<or> \<not> is_safe_integer maximumVersion
         \<or> minimumVersion > maximumVersion \<or> minimumVersion > daemon_protocol_version
         \<or> maximumVersion < daemon_protocol_version
      then Inl Ipc_unsupported_version else Inr daemon_protocol_version)"

section \<open>Facts about frames\<close>

definition ipc_valid :: "ipc_frame \<Rightarrow> bool" where
  "ipc_valid f \<longleftrightarrow> length (ipf_payload f) \<le> max_ipc_frame_bytes"

lemma ipc_type_names_code [simp]: "ipc_type_names (frameTypeCode t) = Some t"
  by (cases t) (simp_all add: ipc_type_names_def all_ipc_types_def)

lemma frameTypeCode_less: "frameTypeCode t < 65536"
  by (cases t) simp_all

lemma length_ipc_header_list [simp]: "length (ipc_header_list f) = ipc_header_bytes"
  by (simp add: ipc_header_list_def ipc_consts)

lemma length_ipc_frame_bytes [simp]: "length (ipc_frame_bytes f) = ipc_header_bytes + length (ipf_payload f)"
  by (simp add: ipc_frame_bytes_def)

lemma ipc_parseHeader_append:
  "ipc_header_bytes \<le> length b \<Longrightarrow> ipc_parseHeader (b @ c) = ipc_parseHeader b"
  by (simp add: ipc_parseHeader_def ipc_consts nth_append Let_def)

lemma ipc_header_of_frame:
  assumes "ipc_valid f" and "ipc_header_bytes \<le> m"
  shows "ipc_parseHeader (take m (ipc_frame_bytes f @ rest)) =
    Inr \<lparr>iph_typeCode = frameTypeCode (ipf_type f), iph_critical = ipf_critical f,
         iph_length = length (ipf_payload f)\<rparr>"
proof -
  have "be_decode (be_encode 2 (frameTypeCode (ipf_type f))) = frameTypeCode (ipf_type f)"
    and "be_decode (be_encode 4 (length (ipf_payload f))) = length (ipf_payload f)"
    using frameTypeCode_less [of "ipf_type f"] assms(1)
    by (simp_all add: be_decode_encode ipc_valid_def ipc_consts)
  then have "ipc_parseHeader (ipc_header_list f) =
      Inr \<lparr>iph_typeCode = frameTypeCode (ipf_type f), iph_critical = ipf_critical f,
           iph_length = length (ipf_payload f)\<rparr>"
    using assms(1)
    by (simp add: ipc_parseHeader_def ipc_header_list_def ipc_consts Let_def ipc_valid_def nth_append)
  with assms(2) show ?thesis by (simp add: ipc_frame_bytes_def ipc_parseHeader_append)
qed

lemma ipc_decode_frame:
  assumes "ipc_valid f"
  shows "decodeIpcFrame (ipc_frame_bytes f) = Inr (Some f)"
  using ipc_header_of_frame [OF assms, of "length (ipc_frame_bytes f)" "[]"]
  by (simp add: decodeIpcFrame_def) (simp add: ipc_frame_bytes_def)

lemma ipc_loop_partial:
  assumes "ipc_valid f" and "m < length (ipc_frame_bytes f)"
  shows "ipc_loop (take m (ipc_frame_bytes f)) fs = (Inr fs, take m (ipc_frame_bytes f))"
proof (cases "m < ipc_header_bytes")
  case True
  then show ?thesis by (subst ipc_loop.simps) simp
next
  case False
  then show ?thesis
    using ipc_header_of_frame [OF assms(1), of m "[]"] assms(2)
    by (subst ipc_loop.simps) (simp add: Let_def)
qed

lemma ipc_loop_frame:
  assumes "ipc_valid f" and "length fs < max_ipc_queued_frames"
  shows "ipc_loop (ipc_frame_bytes f @ rest) fs = ipc_loop rest (fs @ [f])"
  using ipc_header_of_frame [OF assms(1), of "length (ipc_frame_bytes f @ rest)" rest] assms
  by (subst ipc_loop.simps) (simp add: Let_def ipc_decode_frame)

text \<open>A buffer whose first frame is refused, now and with any bytes after it.\<close>

definition ipc_stuck :: "byte list \<Rightarrow> bool" where
  "ipc_stuck b \<longleftrightarrow> ipc_header_bytes \<le> length b \<and>
     (case ipc_parseHeader b of
        Inl e \<Rightarrow> True
      | Inr h \<Rightarrow> ipc_header_bytes + iph_length h \<le> length b \<and>
           (\<exists>e. decodeIpcFrame (take (ipc_header_bytes + iph_length h) b) = Inl e))"

lemma ipc_stuck_loop: "ipc_stuck b \<Longrightarrow> \<exists>e. ipc_loop (b @ c) fs = (Inl e, b @ c)"
  by (subst ipc_loop.simps) (auto simp: ipc_stuck_def ipc_parseHeader_append Let_def split: sum.splits)

lemma ipc_loop_stuck:
  "ipc_loop b fs = (Inl e, b') \<Longrightarrow> e \<noteq> Ipc_queue_limit \<Longrightarrow> ipc_stuck b'"
proof (induction b fs rule: ipc_loop.induct)
  case (1 b fs)
  note run = "1.prems"(1) [unfolded ipc_loop.simps [of b fs]]
  show ?case
  proof (cases "ipc_stuck b")
    case True
    with run show ?thesis by (auto simp: ipc_stuck_def Let_def split: if_splits sum.splits)
  next
    case False
    with run "1.prems"(2) show ?thesis
      by (auto simp: ipc_stuck_def Let_def split: if_splits sum.splits dest: "1.IH" [rotated -1])
  qed
qed

interpretation ipc_stream: frame_stream
  ipc_frame_bytes ipc_valid ipc_loop ipc_push "\<lambda>b. b" "\<lambda>_. True"
  max_ipc_queued_frames max_ipc_buffer_bytes "ipc_header_bytes + max_ipc_frame_bytes"
proof unfold_locales
  show "ipc_loop [] fs = (Inr fs, [])" for fs
    by (subst ipc_loop.simps) (simp add: ipc_consts)
  show "ipc_frame_bytes f \<noteq> []" for f
    by (simp add: ipc_frame_bytes_def ipc_header_list_def)
qed (auto simp: ipc_loop_partial ipc_loop_frame ipc_push_def ipc_valid_def)

section \<open>Properties\<close>

text \<open>
  Encoding and decoding an IPC frame. A frame whose payload is within the limit is
  encoded, and decoding the bytes gives back the same frame; a larger payload is refused.
\<close>

theorem ipc_roundtrip:
  "if length (ipf_payload f) \<le> max_ipc_frame_bytes
   then \<exists>bytes. encodeIpcFrame f = Inr bytes \<and> decodeIpcFrame bytes = Inr (Some f)
   else encodeIpcFrame f = Inl Ipc_oversize_frame"
  by (simp add: encodeIpcFrame_def ipc_decode_frame ipc_valid_def)

text \<open>
  C12. Chunking does not matter. However the encoding of up to 64 valid frames is cut into
  chunks (each leaving room for one frame in the buffer), pushing the chunks one after
  the other into a fresh \<^verbatim>\<open>IpcFrameDecoder\<close> succeeds, delivers exactly those frames in
  order and leaves the buffer empty.
\<close>

theorem ipc_chunking:
  assumes "concat cs = concat (map ipc_frame_bytes fs)"
    and "\<forall>f \<in> set fs. length (ipf_payload f) \<le> max_ipc_frame_bytes"
    and "length fs \<le> max_ipc_queued_frames"
    and "\<forall>c \<in> set cs. length c \<le> max_ipc_frame_bytes - ipc_header_bytes"
  shows "push_all ipc_push [] cs [] = (Inr fs, [])"
proof -
  have "\<exists>s'. push_all ipc_push [] cs [] = (Inr ([] @ fs), s') \<and> s' = [] \<and> True"
    using assms
    by (intro ipc_stream.pushes_stream) (auto simp: ipc_valid_def ipc_consts hd_in_set)
  then show ?thesis by simp
qed

definition ipc_ex :: ipc_frame where
  "ipc_ex = \<lparr>ipf_type = Ipc_request, ipf_critical = True, ipf_payload = [7, 9]\<rparr>"

theorem ipc_chunking_witness:
  "push_all ipc_push [] [take 5 (ipc_frame_bytes ipc_ex), drop 5 (ipc_frame_bytes ipc_ex), ipc_frame_bytes ipc_ex] []
     = (Inr [ipc_ex, ipc_ex], [])"
  by (rule ipc_chunking) (simp_all add: ipc_ex_def ipc_consts)

text \<open>
  The decoder fails closed. After a push that was refused for the content of a header
  or frame (not for a limit), every later push is refused as well: no frame is delivered
  from bytes that follow a frame the decoder did not understand.
\<close>

theorem ipc_fail_closed:
  assumes "ipc_push b c = (Inl e, b')" and "e \<notin> {Ipc_queue_limit, Ipc_buffer_limit}"
  shows "\<exists>e'. fst (ipc_push b' c') = Inl e'"
proof -
  have "ipc_loop (b @ c) [] = (Inl e, b')"
    using assms by (auto simp: ipc_push_def split: if_splits)
  then have "ipc_stuck b'" using assms(2) by (auto intro: ipc_loop_stuck)
  then show ?thesis using ipc_stuck_loop [of b' c' "[]"] by (auto simp: ipc_push_def)
qed

theorem ipc_fail_closed_witness:
  "\<exists>e'. fst (ipc_push ([0,0,0,0,0,0,0,0,0,0,0,0]) (ipc_frame_bytes ipc_ex)) = Inl e'"
proof (rule ipc_fail_closed)
  have "ipc_loop ([0,0,0,0,0,0,0,0,0,0,0,0]) [] = (Inl Ipc_invalid_magic, [0,0,0,0,0,0,0,0,0,0,0,0])"
    by (subst ipc_loop.simps) (simp add: ipc_parseHeader_def ipc_consts)
  then show "ipc_push [] ([0,0,0,0,0,0,0,0,0,0,0,0]) = (Inl Ipc_invalid_magic, [0,0,0,0,0,0,0,0,0,0,0,0])"
    by (simp add: ipc_push_def ipc_consts)
qed simp

end
