(* ===== verification/Terminal_Codec.thy ===== *)
theory Terminal_Codec
  imports Wire
begin

text \<open>
  The terminal wire protocol, framing part of \<^verbatim>\<open>src/terminal/codec.ts\<close> and the generated
  table \<^verbatim>\<open>src/terminal/generated/terminal-wire-v1.ts\<close>: frames with a twenty-byte header
  and a 64-bit sequence, the decoder object \<^verbatim>\<open>TerminalFrameDecoder\<close> with its queue of
  received chunks, and the table of frames that are legal in a connection state.
  The reference for the decoder is \<open>terminal_loop\<close>, the same loop over one flat list of
  bytes; the queue of chunks is proved to implement it.
\<close>

section \<open>Constants and frame types\<close>

definition max_terminal_frame_bytes :: nat where "max_terminal_frame_bytes = 1024 * 1024"
definition max_terminal_buffer_bytes :: nat where "max_terminal_buffer_bytes = max_terminal_frame_bytes * 2"
definition max_terminal_queued_frames :: nat where "max_terminal_queued_frames = 4096"
definition terminal_header_bytes :: nat where "terminal_header_bytes = 20"
definition terminal_magic :: "byte list" where "terminal_magic = [0x52, 0x54, 0x50, 0x31]"

lemmas terminal_consts = max_terminal_frame_bytes_def max_terminal_buffer_bytes_def
  max_terminal_queued_frames_def terminal_header_bytes_def terminal_magic_def

datatype terminal_type =
  T_ready | T_input | T_output | T_resize | T_signal | T_heartbeat | T_exit | T_error
  | T_acknowledgement | T_resume | T_local_action_request | T_local_action_result
  | T_local_stream_open | T_local_stream_data | T_local_stream_close | T_local_stream_window_update
  | T_writer_epoch | T_control_state | T_view_started | T_view_ready

fun terminal_frame_types :: "terminal_type \<Rightarrow> nat" where
  "terminal_frame_types T_ready = 1"
| "terminal_frame_types T_input = 2"
| "terminal_frame_types T_output = 3"
| "terminal_frame_types T_resize = 4"
| "terminal_frame_types T_signal = 5"
| "terminal_frame_types T_heartbeat = 6"
| "terminal_frame_types T_exit = 7"
| "terminal_frame_types T_error = 8"
| "terminal_frame_types T_acknowledgement = 9"
| "terminal_frame_types T_resume = 10"
| "terminal_frame_types T_local_action_request = 11"
| "terminal_frame_types T_local_action_result = 12"
| "terminal_frame_types T_local_stream_open = 13"
| "terminal_frame_types T_local_stream_data = 14"
| "terminal_frame_types T_local_stream_close = 15"
| "terminal_frame_types T_local_stream_window_update = 16"
| "terminal_frame_types T_writer_epoch = 17"
| "terminal_frame_types T_control_state = 18"
| "terminal_frame_types T_view_started = 19"
| "terminal_frame_types T_view_ready = 20"

definition all_terminal_types :: "terminal_type list" where
  "all_terminal_types = [T_ready, T_input, T_output, T_resize, T_signal, T_heartbeat, T_exit, T_error,
     T_acknowledgement, T_resume, T_local_action_request, T_local_action_result, T_local_stream_open,
     T_local_stream_data, T_local_stream_close, T_local_stream_window_update, T_writer_epoch,
     T_control_state, T_view_started, T_view_ready]"

text \<open>\<^verbatim>\<open>TYPE_NAMES\<close>: the inverse table.\<close>

definition terminal_type_names :: "nat \<Rightarrow> terminal_type option" where
  "terminal_type_names = map_of (map (\<lambda>t. (terminal_frame_types t, t)) all_terminal_types)"

datatype terminal_error_code =
  TE_invalid_magic | TE_unsupported_version | TE_oversize_frame | TE_buffer_limit | TE_queue_limit
  | TE_unknown_critical_frame | TE_malformed_frame | TE_illegal_state | TE_invalid_payload

record terminal_frame =
  tf_type :: terminal_type
  tf_critical :: bool
  tf_sequence :: int
  tf_payload :: "byte list"

record terminal_header =
  th_typeCode :: nat
  th_critical :: bool
  th_sequence :: int
  th_payloadLength :: nat

section \<open>Frames\<close>

definition terminal_header_list :: "terminal_frame \<Rightarrow> byte list" where
  "terminal_header_list f =
     terminal_magic @ [1, if tf_critical f then 1 else 0] @ be_encode 2 (terminal_frame_types (tf_type f)) @
     be_encode 8 (nat (tf_sequence f)) @ be_encode 4 (length (tf_payload f))"

definition terminal_frame_bytes :: "terminal_frame \<Rightarrow> byte list" where
  "terminal_frame_bytes f = terminal_header_list f @ tf_payload f"

definition encodeTerminalFrame :: "terminal_frame \<Rightarrow> terminal_error_code + byte list" where
  "encodeTerminalFrame f =
     (if tf_sequence f < 0 \<or> tf_sequence f > 0xffffffffffffffff then Inl TE_malformed_frame
      else if length (tf_payload f) > max_terminal_frame_bytes then Inl TE_oversize_frame
      else Inr (terminal_frame_bytes f))"

definition terminal_parseHeader :: "byte list \<Rightarrow> terminal_error_code + terminal_header" where
  "terminal_parseHeader bytes =
     (if length bytes < terminal_header_bytes then Inl TE_malformed_frame
      else if take 4 bytes \<noteq> terminal_magic then Inl TE_invalid_magic
      else if bytes ! 4 \<noteq> 1 then Inl TE_unsupported_version
      else if bytes ! 5 AND NOT 1 \<noteq> 0 then Inl TE_malformed_frame
      else let payloadLength = be_decode (take 4 (drop 16 bytes)) in
        if payloadLength > max_terminal_frame_bytes then Inl TE_oversize_frame
        else Inr \<lparr>th_typeCode = be_decode (take 2 (drop 6 bytes)),
                  th_critical = (bytes ! 5 AND 1 \<noteq> 0),
                  th_sequence = int (be_decode (take 8 (drop 8 bytes))),
                  th_payloadLength = payloadLength\<rparr>)"

definition decodeTerminalFrame :: "byte list \<Rightarrow> terminal_error_code + terminal_frame option" where
  "decodeTerminalFrame bytes =
     (case terminal_parseHeader bytes of
        Inl e \<Rightarrow> Inl e
      | Inr header \<Rightarrow>
          if length bytes \<noteq> terminal_header_bytes + th_payloadLength header then Inl TE_malformed_frame
          else case terminal_type_names (th_typeCode header) of
            None \<Rightarrow> if th_critical header then Inl TE_unknown_critical_frame else Inr None
          | Some t \<Rightarrow> Inr (Some \<lparr>tf_type = t, tf_critical = th_critical header,
                              tf_sequence = th_sequence header,
                              tf_payload = drop terminal_header_bytes bytes\<rparr>))"

section \<open>The decoder object\<close>

record terminal_decoder =
  td_chunks :: "byte list list"
  td_headIndex :: nat
  td_headOffset :: nat
  td_bufferedBytes :: nat

definition empty_decoder :: terminal_decoder where
  "empty_decoder = \<lparr>td_chunks = [], td_headIndex = 0, td_headOffset = 0, td_bufferedBytes = 0\<rparr>"

text \<open>
  The \<^verbatim>\<open>while\<close> loop of \<^verbatim>\<open>#copy\<close>: collect \<open>wanted\<close> bytes (the source's \<^verbatim>\<open>size\<close>) from the chunks, starting
  at a chunk index and an offset. \<open>None\<close> is the exception for a buffer that ran out of
  chunks; an offset past the end of its chunk, where the source would compute a negative
  length, is \<open>None\<close> too.
\<close>

function copy_from ::
  "byte list list \<Rightarrow> nat \<Rightarrow> byte list \<Rightarrow> nat \<Rightarrow> nat \<Rightarrow> (byte list \<times> nat \<times> nat) option" where
  "copy_from chunks wanted result chunkIndex chunkOffset =
     (if length result < wanted
      then if chunkIndex < length chunks \<and> chunkOffset \<le> length (chunks ! chunkIndex)
        then let chunk = chunks ! chunkIndex;
                 available = length chunk - chunkOffset;
                 len = min available (wanted - length result);
                 result' = result @ take len (drop chunkOffset chunk)
             in if chunkOffset + len = length chunk
                then copy_from chunks wanted result' (chunkIndex + 1) 0
                else copy_from chunks wanted result' chunkIndex (chunkOffset + len)
        else None
      else Some (result, chunkIndex, chunkOffset))"
  by pat_completeness auto
termination
proof (relation "measure (\<lambda>(chunks, wanted, result, ci, co). (wanted - length result) + (length chunks - ci))",
    goal_cases)
  case (3 chunks wanted result ci co chunk available len result')
  then have "len = wanted - length result" "0 < len" by auto
  with 3 show ?case by auto
qed auto

declare copy_from.simps [simp del]

text \<open>Dropping consumed chunks: all of them when nothing is left, else once enough piled up.\<close>

definition td_trim :: "terminal_decoder \<Rightarrow> terminal_decoder" where
  "td_trim d =
     (if td_bufferedBytes d = 0
      then d\<lparr>td_chunks := [], td_headIndex := 0, td_headOffset := 0\<rparr>
      else if td_headIndex d \<ge> 1024 \<and> td_headIndex d * 2 \<ge> length (td_chunks d)
      then d\<lparr>td_chunks := drop (td_headIndex d) (td_chunks d), td_headIndex := 0\<rparr>
      else d)"

definition td_copy :: "terminal_decoder \<Rightarrow> nat \<Rightarrow> bool \<Rightarrow> terminal_error_code + (byte list \<times> terminal_decoder)" where
  "td_copy d wanted consume =
     (case copy_from (td_chunks d) wanted [] (td_headIndex d) (td_headOffset d) of
        None \<Rightarrow> Inl TE_malformed_frame
      | Some (result, chunkIndex, chunkOffset) \<Rightarrow>
          if \<not> consume then Inr (result, d)
          else Inr (result,
            td_trim (d\<lparr>td_headIndex := chunkIndex, td_headOffset := chunkOffset,
                       td_bufferedBytes := td_bufferedBytes d - wanted\<rparr>)))"

lemma td_bufferedBytes_trim [simp]: "td_bufferedBytes (td_trim d) = td_bufferedBytes d"
  by (simp add: td_trim_def)

text \<open>
  The \<^verbatim>\<open>while\<close> loop of \<^verbatim>\<open>TerminalFrameDecoder.push\<close>. A frame is consumed before it is
  decoded, so one that is refused is gone from the buffer.
\<close>

function td_loop ::
  "terminal_decoder \<Rightarrow> terminal_frame list \<Rightarrow> (terminal_error_code + terminal_frame list) \<times> terminal_decoder" where
  "td_loop d frames =
     (if td_bufferedBytes d < terminal_header_bytes then (Inr frames, d)
      else case td_copy d terminal_header_bytes False of
        Inl e \<Rightarrow> (Inl e, d)
      | Inr (headerBytes, _) \<Rightarrow>
          (case terminal_parseHeader headerBytes of
             Inl e \<Rightarrow> (Inl e, d)
           | Inr header \<Rightarrow>
               let wanted = terminal_header_bytes + th_payloadLength header in
               if td_bufferedBytes d < wanted then (Inr frames, d)
               else case td_copy d wanted True of
                 Inl e \<Rightarrow> (Inl e, d)
               | Inr (bytes, d') \<Rightarrow>
                   (case decodeTerminalFrame bytes of
                      Inl e \<Rightarrow> (Inl e, d')
                    | Inr frame \<Rightarrow>
                        let frames' = (case frame of None \<Rightarrow> frames | Some f \<Rightarrow> frames @ [f]) in
                        if length frames' > max_terminal_queued_frames then (Inl TE_queue_limit, d')
                        else td_loop d' frames')))"
  by pat_completeness auto
termination
  by (relation "measure (\<lambda>(d, frames). td_bufferedBytes d)")
     (auto simp: td_copy_def terminal_consts Let_def split: option.splits if_splits)

declare td_loop.simps [simp del]

definition td_push ::
  "terminal_decoder \<Rightarrow> byte list \<Rightarrow> (terminal_error_code + terminal_frame list) \<times> terminal_decoder" where
  "td_push d chunk =
     (if td_bufferedBytes d + length chunk > max_terminal_buffer_bytes then (Inl TE_buffer_limit, d)
      else td_loop
        (if length chunk > 0
         then d\<lparr>td_chunks := td_chunks d @ [chunk], td_bufferedBytes := td_bufferedBytes d + length chunk\<rparr>
         else d) [])"

section \<open>Legal frames\<close>

datatype connection_state = C_negotiating | C_ready | C_attached | C_draining | C_interrupted | C_closed

datatype frame_direction = Client_to_server | Server_to_client

fun legal_frames :: "connection_state \<Rightarrow> frame_direction \<Rightarrow> terminal_type list" where
  "legal_frames C_negotiating Client_to_server = [T_heartbeat]"
| "legal_frames C_negotiating Server_to_client = [T_ready, T_error]"
| "legal_frames C_ready Client_to_server = [T_resume, T_heartbeat]"
| "legal_frames C_ready Server_to_client = [T_ready, T_error, T_heartbeat, T_writer_epoch, T_control_state]"
| "legal_frames C_attached Client_to_server = [T_input, T_resize, T_signal, T_heartbeat, T_resume]"
| "legal_frames C_attached Server_to_client = [T_output, T_acknowledgement, T_heartbeat, T_exit, T_error,
     T_ready, T_writer_epoch, T_control_state, T_view_started, T_view_ready]"
| "legal_frames C_draining Client_to_server = [T_heartbeat]"
| "legal_frames C_draining Server_to_client = [T_output, T_exit, T_error, T_heartbeat, T_writer_epoch, T_control_state]"
| "legal_frames C_interrupted Client_to_server = [T_resume]"
| "legal_frames C_interrupted Server_to_client = [T_ready, T_error]"
| "legal_frames C_closed Client_to_server = []"
| "legal_frames C_closed Server_to_client = []"

definition local_action_frame_types :: "terminal_type list" where
  "local_action_frame_types = [T_local_action_request, T_local_action_result, T_local_stream_open,
     T_local_stream_data, T_local_stream_close, T_local_stream_window_update]"

definition isLocalActionFrameType :: "terminal_type \<Rightarrow> bool" where
  "isLocalActionFrameType t \<longleftrightarrow> t \<in> set local_action_frame_types"

definition assertTerminalFrameLegal ::
  "connection_state \<Rightarrow> frame_direction \<Rightarrow> terminal_type \<Rightarrow> bool \<Rightarrow> terminal_error_code + unit" where
  "assertTerminalFrameLegal state direction t localActionsNegotiated =
     (let localActionLegal = (localActionsNegotiated \<and> state = C_attached \<and>
            (if t = T_local_action_request then direction = Server_to_client
             else t = T_local_action_result \<or> t = T_local_stream_open \<or> t = T_local_stream_data
                  \<or> t = T_local_stream_close \<or> t = T_local_stream_window_update))
      in if t \<notin> set (legal_frames state direction) \<and> \<not> localActionLegal
         then Inl TE_illegal_state else Inr ())"

section \<open>Facts about frames\<close>

definition terminal_valid :: "terminal_frame \<Rightarrow> bool" where
  "terminal_valid f \<longleftrightarrow> 0 \<le> tf_sequence f \<and> tf_sequence f \<le> 0xffffffffffffffff \<and>
     length (tf_payload f) \<le> max_terminal_frame_bytes"

lemma terminal_type_names_code [simp]: "terminal_type_names (terminal_frame_types t) = Some t"
  by (cases t) (simp_all add: terminal_type_names_def all_terminal_types_def)

lemma terminal_frame_types_less: "terminal_frame_types t < 65536"
  by (cases t) simp_all

lemma length_terminal_header_list [simp]: "length (terminal_header_list f) = terminal_header_bytes"
  by (simp add: terminal_header_list_def terminal_consts)

lemma length_terminal_frame_bytes [simp]:
  "length (terminal_frame_bytes f) = terminal_header_bytes + length (tf_payload f)"
  by (simp add: terminal_frame_bytes_def)

lemma terminal_parseHeader_append:
  "terminal_header_bytes \<le> length b \<Longrightarrow> terminal_parseHeader (b @ c) = terminal_parseHeader b"
  by (simp add: terminal_parseHeader_def terminal_consts nth_append Let_def)

lemma terminal_parseHeader_take:
  "terminal_header_bytes \<le> length b \<Longrightarrow> terminal_parseHeader (take terminal_header_bytes b) = terminal_parseHeader b"
  using terminal_parseHeader_append [of "take terminal_header_bytes b" "drop terminal_header_bytes b"] by simp

lemma terminal_header_of_frame:
  assumes "terminal_valid f" and "terminal_header_bytes \<le> m"
  shows "terminal_parseHeader (take m (terminal_frame_bytes f @ rest)) =
    Inr \<lparr>th_typeCode = terminal_frame_types (tf_type f), th_critical = tf_critical f,
         th_sequence = tf_sequence f, th_payloadLength = length (tf_payload f)\<rparr>"
proof -
  have "nat (tf_sequence f) < 256 ^ 8" using assms(1) by (simp add: terminal_valid_def nat_less_iff)
  then have "be_decode (be_encode 2 (terminal_frame_types (tf_type f))) = terminal_frame_types (tf_type f)"
    and "be_decode (be_encode 4 (length (tf_payload f))) = length (tf_payload f)"
    and "be_decode (be_encode 8 (nat (tf_sequence f))) = nat (tf_sequence f)"
    using terminal_frame_types_less [of "tf_type f"] assms(1)
    by (simp_all add: be_decode_encode terminal_valid_def terminal_consts)
  then have "terminal_parseHeader (terminal_header_list f) =
      Inr \<lparr>th_typeCode = terminal_frame_types (tf_type f), th_critical = tf_critical f,
           th_sequence = tf_sequence f, th_payloadLength = length (tf_payload f)\<rparr>"
    using assms(1)
    by (simp add: terminal_parseHeader_def terminal_header_list_def terminal_consts Let_def
        terminal_valid_def nth_append)
  with assms(2) show ?thesis by (simp add: terminal_frame_bytes_def terminal_parseHeader_append)
qed

lemma terminal_decode_frame:
  assumes "terminal_valid f"
  shows "decodeTerminalFrame (terminal_frame_bytes f) = Inr (Some f)"
  using terminal_header_of_frame [OF assms, of "length (terminal_frame_bytes f)" "[]"]
  by (simp add: decodeTerminalFrame_def) (simp add: terminal_frame_bytes_def)

section \<open>The flat reference loop\<close>

function terminal_loop ::
  "byte list \<Rightarrow> terminal_frame list \<Rightarrow> (terminal_error_code + terminal_frame list) \<times> byte list" where
  "terminal_loop buffer frames =
     (if length buffer < terminal_header_bytes then (Inr frames, buffer)
      else case terminal_parseHeader buffer of
        Inl e \<Rightarrow> (Inl e, buffer)
      | Inr header \<Rightarrow>
          let n = terminal_header_bytes + th_payloadLength header in
          if length buffer < n then (Inr frames, buffer)
          else case decodeTerminalFrame (take n buffer) of
            Inl e \<Rightarrow> (Inl e, drop n buffer)
          | Inr frame \<Rightarrow>
              let frames' = (case frame of None \<Rightarrow> frames | Some f \<Rightarrow> frames @ [f]) in
              if length frames' > max_terminal_queued_frames then (Inl TE_queue_limit, drop n buffer)
              else terminal_loop (drop n buffer) frames')"
  by pat_completeness auto
termination
  by (relation "measure (\<lambda>(buffer, frames). length buffer)") (auto simp: terminal_consts)

declare terminal_loop.simps [simp del]

lemma terminal_loop_partial:
  assumes "terminal_valid f" and "m < length (terminal_frame_bytes f)"
  shows "terminal_loop (take m (terminal_frame_bytes f)) fs = (Inr fs, take m (terminal_frame_bytes f))"
proof (cases "m < terminal_header_bytes")
  case True
  then show ?thesis by (subst terminal_loop.simps) simp
next
  case False
  then show ?thesis
    using terminal_header_of_frame [OF assms(1), of m "[]"] assms(2)
    by (subst terminal_loop.simps) (simp add: Let_def)
qed

lemma terminal_loop_frame:
  assumes "terminal_valid f" and "length fs < max_terminal_queued_frames"
  shows "terminal_loop (terminal_frame_bytes f @ rest) fs = terminal_loop rest (fs @ [f])"
  using terminal_header_of_frame [OF assms(1), of "length (terminal_frame_bytes f @ rest)" rest] assms
  by (subst terminal_loop.simps) (simp add: Let_def terminal_decode_frame)

section \<open>The chunk queue implements the flat buffer\<close>

text \<open>The bytes from a position in the chunks on, and the positions that occur.\<close>

definition bytes_from :: "byte list list \<Rightarrow> nat \<Rightarrow> nat \<Rightarrow> byte list" where
  "bytes_from chunks ci co = drop co (concat (drop ci chunks))"

definition good_position :: "byte list list \<Rightarrow> nat \<Rightarrow> nat \<Rightarrow> bool" where
  "good_position chunks ci co \<longleftrightarrow>
     (ci = length chunks \<and> co = 0) \<or> (ci < length chunks \<and> co < length (chunks ! ci))"

definition td_bytes :: "terminal_decoder \<Rightarrow> byte list" where
  "td_bytes d = bytes_from (td_chunks d) (td_headIndex d) (td_headOffset d)"

definition td_inv :: "terminal_decoder \<Rightarrow> bool" where
  "td_inv d \<longleftrightarrow> (\<forall>c \<in> set (td_chunks d). c \<noteq> []) \<and>
     good_position (td_chunks d) (td_headIndex d) (td_headOffset d) \<and>
     td_bufferedBytes d = length (td_bytes d)"

lemma bytes_from_step:
  "ci < length chunks \<Longrightarrow> co \<le> length (chunks ! ci) \<Longrightarrow>
     bytes_from chunks ci co = drop co (chunks ! ci) @ bytes_from chunks (Suc ci) 0"
  by (simp add: bytes_from_def Cons_nth_drop_Suc [symmetric])

lemma good_position_start:
  "\<forall>c \<in> set chunks. c \<noteq> [] \<Longrightarrow> ci \<le> length chunks \<Longrightarrow> good_position chunks ci 0"
  by (auto simp: good_position_def)

lemma copy_from_correct:
  assumes "\<forall>c \<in> set chunks. c \<noteq> []" and "good_position chunks ci co"
    and "length result \<le> wanted" and "wanted \<le> length result + length (bytes_from chunks ci co)"
  shows "\<exists>ci' co'. copy_from chunks wanted result ci co =
             Some (result @ take (wanted - length result) (bytes_from chunks ci co), ci', co') \<and>
           good_position chunks ci' co' \<and>
           bytes_from chunks ci' co' = drop (wanted - length result) (bytes_from chunks ci co)"
  using assms
proof (induction chunks wanted result ci co rule: copy_from.induct)
  case (1 chunks wanted result ci co)
  show ?case
  proof (cases "length result < wanted")
    case False
    then show ?thesis using "1.prems" by (subst copy_from.simps) simp
  next
    case True
    have pos: "ci < length chunks" "co < length (chunks ! ci)"
      using "1.prems"(2,4) True by (auto simp: good_position_def bytes_from_def)
    let ?c = "chunks ! ci" and ?len = "min (length (chunks ! ci) - co) (wanted - length result)"
    let ?r = "result @ take ?len (drop co ?c)"
    have bytes: "bytes_from chunks ci co = drop co ?c @ bytes_from chunks (Suc ci) 0"
      using pos by (simp add: bytes_from_step)
    show ?thesis
    proof (cases "co + ?len = length ?c")
      case end_of_chunk: True
      then have len: "?len = length ?c - co" using pos by simp
      have good: "good_position chunks (Suc ci) 0"
        using "1.prems"(1) pos by (intro good_position_start) auto
      have "\<exists>ci' co'. copy_from chunks wanted ?r (ci + 1) 0 =
             Some (?r @ take (wanted - length ?r) (bytes_from chunks (ci + 1) 0), ci', co') \<and>
           good_position chunks ci' co' \<and>
           bytes_from chunks ci' co' = drop (wanted - length ?r) (bytes_from chunks (ci + 1) 0)"
        using True pos end_of_chunk "1.prems" good len bytes
        by (intro "1.IH"(1)) auto
      then show ?thesis
        using True pos end_of_chunk len bytes
        by (subst copy_from.simps) (auto simp: Let_def min_def split: if_splits)
    next
      case inside: False
      then have len: "?len = wanted - length result" using pos by (auto simp: min_def split: if_splits)
      then have full: "length ?r = wanted" using True pos inside by simp
      have "copy_from chunks wanted ?r ci (co + ?len) = Some (?r, ci, co + ?len)"
        using full by (subst copy_from.simps) simp
      moreover have "good_position chunks ci (co + ?len)"
        using pos inside by (auto simp: good_position_def)
      moreover have "bytes_from chunks ci (co + ?len) = drop (wanted - length result) (bytes_from chunks ci co)"
        using len by (simp add: bytes_from_def add.commute)
      ultimately show ?thesis
        using True pos inside len bytes full
        by (subst copy_from.simps) (auto simp: Let_def)
    qed
  qed
qed

lemma td_copy_peek:
  assumes "td_inv d" and "n \<le> td_bufferedBytes d"
  shows "td_copy d n False = Inr (take n (td_bytes d), d)"
  using copy_from_correct [of "td_chunks d" "td_headIndex d" "td_headOffset d" "[]" n] assms
  by (auto simp: td_copy_def td_inv_def td_bytes_def)

lemma td_trim_inv: "td_inv d \<Longrightarrow> td_inv (td_trim d)"
  and td_trim_bytes: "td_inv d \<Longrightarrow> td_bytes (td_trim d) = td_bytes d"
  by (auto simp: td_trim_def td_inv_def td_bytes_def bytes_from_def good_position_def dest: in_set_dropD)

lemma td_copy_consume:
  assumes "td_inv d" and "n \<le> td_bufferedBytes d"
  shows "\<exists>d'. td_copy d n True = Inr (take n (td_bytes d), d') \<and> td_inv d' \<and> td_bytes d' = drop n (td_bytes d)"
proof -
  obtain ci co where cf: "copy_from (td_chunks d) n [] (td_headIndex d) (td_headOffset d)
        = Some (take n (td_bytes d), ci, co)"
    and good: "good_position (td_chunks d) ci co"
    and rest: "bytes_from (td_chunks d) ci co = drop n (td_bytes d)"
    using copy_from_correct [of "td_chunks d" "td_headIndex d" "td_headOffset d" "[]" n] assms
    by (auto simp: td_inv_def td_bytes_def)
  let ?d = "d\<lparr>td_headIndex := ci, td_headOffset := co, td_bufferedBytes := td_bufferedBytes d - n\<rparr>"
  have d: "td_inv ?d" "td_bytes ?d = drop n (td_bytes d)"
    using assms good rest by (simp_all add: td_inv_def td_bytes_def)
  have "td_copy d n True = Inr (take n (td_bytes d), td_trim ?d)"
    by (simp add: td_copy_def cf)
  then show ?thesis using d by (simp add: td_trim_inv td_trim_bytes)
qed

lemma td_loop_refines:
  assumes "td_inv d" and "td_loop d frames = (r, d')"
  shows "terminal_loop (td_bytes d) frames = (r, td_bytes d') \<and> td_inv d'"
  using assms
proof (induction d frames rule: td_loop.induct)
  case (1 d frames)
  have len: "td_bufferedBytes d = length (td_bytes d)" using "1.prems"(1) by (simp add: td_inv_def)
  show ?case
  proof (cases "length (td_bytes d) < terminal_header_bytes")
    case True
    then show ?thesis
      using "1.prems" len by (subst (asm) td_loop.simps, subst terminal_loop.simps) auto
  next
    case False
    then have peek: "td_copy d terminal_header_bytes False = Inr (take terminal_header_bytes (td_bytes d), d)"
      using "1.prems"(1) len by (intro td_copy_peek) simp_all
    have hdr: "terminal_parseHeader (take terminal_header_bytes (td_bytes d)) = terminal_parseHeader (td_bytes d)"
      using False by (simp add: terminal_parseHeader_take)
    show ?thesis
    proof (cases "terminal_parseHeader (td_bytes d)")
      case (Inl e)
      then show ?thesis
        using "1.prems" len False peek hdr by (subst (asm) td_loop.simps, subst terminal_loop.simps) auto
    next
      case (Inr header)
      let ?n = "terminal_header_bytes + th_payloadLength header"
      show ?thesis
      proof (cases "length (td_bytes d) < ?n")
        case True
        then show ?thesis
          using "1.prems" len False peek hdr Inr
          by (subst (asm) td_loop.simps, subst terminal_loop.simps) auto
      next
        case enough: False
        then obtain d1 where copy: "td_copy d ?n True = Inr (take ?n (td_bytes d), d1)" "td_inv d1"
          "td_bytes d1 = drop ?n (td_bytes d)"
          using td_copy_consume [OF "1.prems"(1), of ?n] len by auto
        have IH: "terminal_loop (td_bytes d1) fs = (r, td_bytes d') \<and> td_inv d'"
          if "decodeTerminalFrame (take ?n (td_bytes d)) = Inr frame"
            "fs = (case frame of None \<Rightarrow> frames | Some f \<Rightarrow> frames @ [f])"
            "\<not> length fs > max_terminal_queued_frames" "td_loop d1 fs = (r, d')" for frame fs
          using that False enough len peek hdr Inr copy
          by (intro "1.IH" [OF _ peek refl]) auto
        show ?thesis
          using "1.prems"(2) len False peek hdr Inr enough copy IH
          by (subst (asm) td_loop.simps, subst terminal_loop.simps)
             (auto simp: Let_def split: sum.splits if_splits)
      qed
    qed
  qed
qed

lemma td_push_refines:
  assumes "td_inv d" and "length (td_bytes d) + length chunk \<le> max_terminal_buffer_bytes"
    and "td_push d chunk = (r, d')"
  shows "terminal_loop (td_bytes d @ chunk) [] = (r, td_bytes d') \<and> td_inv d'"
proof -
  let ?d = "if length chunk > 0
         then d\<lparr>td_chunks := td_chunks d @ [chunk], td_bufferedBytes := td_bufferedBytes d + length chunk\<rparr>
         else d"
  have "td_inv ?d \<and> td_bytes ?d = td_bytes d @ chunk"
  proof (cases "chunk = []")
    case False
    have "td_bytes ?d = td_bytes d @ chunk"
      using assms(1) False
      by (auto simp: td_bytes_def bytes_from_def td_inv_def good_position_def Cons_nth_drop_Suc [symmetric])
    moreover have "good_position (td_chunks d @ [chunk]) (td_headIndex d) (td_headOffset d)"
      using assms(1) False by (auto simp: td_inv_def good_position_def nth_append)
    ultimately show ?thesis using assms(1) False by (auto simp: td_inv_def)
  qed (use assms(1) in simp)
  moreover have "td_loop ?d [] = (r, d')"
    using assms by (auto simp: td_push_def td_inv_def)
  ultimately show ?thesis using td_loop_refines [of ?d "[]" r d'] by simp
qed

interpretation terminal_stream: frame_stream
  terminal_frame_bytes terminal_valid terminal_loop td_push td_bytes td_inv
  max_terminal_queued_frames max_terminal_buffer_bytes "terminal_header_bytes + max_terminal_frame_bytes"
proof unfold_locales
  show "terminal_loop [] fs = (Inr fs, [])" for fs
    by (subst terminal_loop.simps) (simp add: terminal_consts)
  show "terminal_frame_bytes f \<noteq> []" for f
    by (simp add: terminal_frame_bytes_def terminal_header_list_def)
  show "terminal_loop (td_bytes s @ chunk) [] = (r, td_bytes s') \<and> td_inv s'"
    if "td_inv s" "length (td_bytes s) + length chunk \<le> max_terminal_buffer_bytes" "td_push s chunk = (r, s')"
    for s chunk r s'
    using that by (rule td_push_refines)
qed (auto simp: terminal_loop_partial terminal_loop_frame terminal_valid_def)

section \<open>Properties\<close>

text \<open>The decoder one would write over a single flat buffer: the specification of the object.\<close>

definition flat_push :: "byte list \<Rightarrow> byte list \<Rightarrow> (terminal_error_code + terminal_frame list) \<times> byte list" where
  "flat_push buffer chunk =
     (if length buffer + length chunk > max_terminal_buffer_bytes then (Inl TE_buffer_limit, buffer)
      else terminal_loop (buffer @ chunk) [])"

lemma td_push_flat:
  assumes "td_inv d"
  shows "td_inv (snd (td_push d chunk)) \<and>
         flat_push (td_bytes d) chunk = (fst (td_push d chunk), td_bytes (snd (td_push d chunk)))"
proof (cases "length (td_bytes d) + length chunk > max_terminal_buffer_bytes")
  case True
  then show ?thesis using assms by (simp add: flat_push_def td_push_def td_inv_def)
next
  case False
  then show ?thesis
    using td_push_refines [OF assms, of chunk] by (cases "td_push d chunk") (simp add: flat_push_def)
qed

lemma push_all_flat:
  "td_inv d \<Longrightarrow> push_all flat_push (td_bytes d) cs got = map_prod id td_bytes (push_all td_push d cs got)"
proof (induction cs arbitrary: d got)
  case (Cons c cs)
  obtain r d' where p: "td_push d c = (r, d')" by fastforce
  then have "td_inv d'" "flat_push (td_bytes d) c = (r, td_bytes d')"
    using td_push_flat [OF Cons.prems, of c] by auto
  with p Cons.IH show ?case by (cases r) auto
qed simp

lemma td_inv_empty: "td_inv empty_decoder" "td_bytes empty_decoder = []"
  by (simp_all add: td_inv_def empty_decoder_def td_bytes_def bytes_from_def good_position_def)

text \<open>
  C13. The queue of chunks is invisible. For every sequence of received chunks, of any
  sizes and contents, \<^verbatim>\<open>TerminalFrameDecoder\<close> delivers the frames, refuses with the
  error, and retains the bytes that the flat decoder does. In particular the internal
  error ``the receive buffer became inconsistent'' of \<^verbatim>\<open>#copy\<close> never occurs.
\<close>

theorem terminal_decoder_refines_flat:
  "push_all flat_push [] cs [] = map_prod id td_bytes (push_all td_push empty_decoder cs [])"
  using push_all_flat [OF td_inv_empty(1), of cs "[]"] by (simp add: td_inv_empty(2))

text \<open>
  C14. Encoding and decoding a terminal frame. A frame is encoded exactly when its sequence
  is a 64-bit unsigned integer and its payload is within the limit, and decoding the bytes
  gives back the same frame, sequence included.
\<close>

theorem terminal_roundtrip:
  "case encodeTerminalFrame f of
     Inr bytes \<Rightarrow> decodeTerminalFrame bytes = Inr (Some f) \<and> length bytes \<le> 20 + 1024 * 1024
   | Inl e \<Rightarrow> tf_sequence f < 0 \<or> 2 ^ 64 \<le> tf_sequence f \<or> 1024 * 1024 < length (tf_payload f)"
  by (auto simp: encodeTerminalFrame_def terminal_decode_frame terminal_valid_def terminal_consts)

text \<open>
  Chunking does not matter on the terminal wire either. However the encoding of up to
  4096 valid frames is cut into chunks, each leaving room for one frame in the buffer,
  pushing the chunks into a fresh \<^verbatim>\<open>TerminalFrameDecoder\<close> succeeds and delivers exactly
  those frames in order, with nothing left over.
\<close>

theorem terminal_chunking:
  assumes "concat cs = concat (map terminal_frame_bytes fs)"
    and "\<forall>f \<in> set fs. \<exists>bytes. encodeTerminalFrame f = Inr bytes"
    and "length fs \<le> max_terminal_queued_frames"
    and "\<forall>c \<in> set cs. length c \<le> max_terminal_frame_bytes - terminal_header_bytes"
  shows "\<exists>d. push_all td_push empty_decoder cs [] = (Inr fs, d) \<and> td_bytes d = []"
proof -
  have valid: "\<forall>f \<in> set fs. terminal_valid f"
    using assms(2) by (fastforce simp: encodeTerminalFrame_def terminal_valid_def split: if_splits)
  have "\<exists>d. push_all td_push empty_decoder cs [] = (Inr ([] @ fs), d) \<and> td_bytes d = [] \<and> td_inv d"
    using assms valid
    by (intro terminal_stream.pushes_stream)
       (auto simp: td_inv_empty terminal_consts terminal_frame_bytes_def terminal_header_list_def hd_in_set)
  then show ?thesis by auto
qed

definition terminal_ex :: terminal_frame where
  "terminal_ex = \<lparr>tf_type = T_output, tf_critical = False, tf_sequence = 258, tf_payload = [104, 105]\<rparr>"

theorem terminal_chunking_witness:
  "\<exists>d. push_all td_push empty_decoder
         [take 7 (terminal_frame_bytes terminal_ex), drop 7 (terminal_frame_bytes terminal_ex), terminal_frame_bytes terminal_ex] []
       = (Inr [terminal_ex, terminal_ex], d) \<and> td_bytes d = []"
  by (rule terminal_chunking) (simp_all add: terminal_ex_def encodeTerminalFrame_def terminal_consts)

text \<open>
  What the legality table allows. Keyboard input is legal only from the client while
  attached; a local-action frame only after negotiation, while attached, and a request
  only from the server; a closed connection carries nothing; and no connection state but
  attached lets the client send anything that writes to the session.
\<close>

theorem terminal_legality:
  "(assertTerminalFrameLegal st dir T_input neg = Inr () \<longleftrightarrow> st = C_attached \<and> dir = Client_to_server) \<and>
   (isLocalActionFrameType t \<longrightarrow>
      (assertTerminalFrameLegal st dir t neg = Inr () \<longleftrightarrow>
         neg \<and> st = C_attached \<and> (t = T_local_action_request \<longrightarrow> dir = Server_to_client))) \<and>
   assertTerminalFrameLegal C_closed dir t neg = Inl TE_illegal_state \<and>
   (assertTerminalFrameLegal st Client_to_server t neg = Inr () \<and> st \<noteq> C_attached \<longrightarrow>
      t = T_heartbeat \<or> t = T_resume)"
  by (cases st; cases dir)
     (auto simp: assertTerminalFrameLegal_def isLocalActionFrameType_def local_action_frame_types_def)

theorem terminal_legality_witness:
  "assertTerminalFrameLegal C_attached Server_to_client T_local_action_request True = Inr () \<and>
   assertTerminalFrameLegal C_ready Client_to_server T_input True \<noteq> Inr ()"
  using terminal_legality [of C_attached Server_to_client True T_local_action_request]
    terminal_legality [of C_ready Client_to_server True T_input]
  by (simp add: isLocalActionFrameType_def local_action_frame_types_def)

end
