(* ===== verification/Base64url.thy ===== *)
theory Base64url
  imports Wire
begin

text \<open>
  The base64url coding of Node's \<^verbatim>\<open>Buffer\<close>, without padding: \<^verbatim>\<open>Buffer.from(text, "base64url")\<close>
  and \<^verbatim>\<open>buffer.toString("base64url")\<close>, as the terminal wire and the local actions use them.
\<close>

definition is_base64url_char :: "char \<Rightarrow> bool" where
  "is_base64url_char c \<longleftrightarrow> c \<in> set ''ABCDEFGHIJKLMNOPQRSTUVWXYZabcdefghijklmnopqrstuvwxyz0123456789_-''"

definition base64url_digit :: "char \<Rightarrow> nat" where
  "base64url_digit c =
     (let n = of_char c in
      if 65 \<le> n \<and> n \<le> 90 then n - 65 else if 97 \<le> n \<and> n \<le> 122 then n - 71
      else if 48 \<le> n \<and> n \<le> 57 then n + 4 else if n = 45 then 62 else 63)"

text \<open>\<^verbatim>\<open>Buffer.from(value, "base64url")\<close> on a text of the alphabet; a lone last character adds nothing.\<close>

fun base64url_decode :: "string \<Rightarrow> byte list" where
  "base64url_decode (a # b # c # d # cs) =
     (let a = base64url_digit a; b = base64url_digit b; c = base64url_digit c; d = base64url_digit d
      in of_nat (a * 4 + b div 16) # of_nat (b mod 16 * 16 + c div 4) # of_nat (c mod 4 * 64 + d) # base64url_decode cs)"
| "base64url_decode [a, b, c] =
     (let a = base64url_digit a; b = base64url_digit b; c = base64url_digit c
      in [of_nat (a * 4 + b div 16), of_nat (b mod 16 * 16 + c div 4)])"
| "base64url_decode [a, b] = [of_nat (base64url_digit a * 4 + base64url_digit b div 16)]"
| "base64url_decode _ = []"

definition base64url_char :: "nat \<Rightarrow> char" where
  "base64url_char n =
     char_of (if n < 26 then n + 65 else if n < 52 then n + 71 else if n < 62 then n - 4 else if n = 62 then 45 else 95)"

fun base64url_encode :: "byte list \<Rightarrow> string" where
  "base64url_encode (a # b # c # bs) =
     (let a = unat a; b = unat b; c = unat c
      in base64url_char (a div 4) # base64url_char (a mod 4 * 16 + b div 16) #
         base64url_char (b mod 16 * 4 + c div 64) # base64url_char (c mod 64) # base64url_encode bs)"
| "base64url_encode [a, b] =
     (let a = unat a; b = unat b
      in [base64url_char (a div 4), base64url_char (a mod 4 * 16 + b div 16), base64url_char (b mod 16 * 4)])"
| "base64url_encode [a] = (let a = unat a in [base64url_char (a div 4), base64url_char (a mod 4 * 16)])"
| "base64url_encode [] = []"

lemma length_base64url_decode: "length (base64url_decode s) = length s * 3 div 4"
  by (induction s rule: base64url_decode.induct) (auto simp: Let_def)

lemma base64url_digit_char [simp]: "n < 64 \<Longrightarrow> base64url_digit (base64url_char n) = n"
  by (auto simp: base64url_digit_def base64url_char_def Let_def)

lemma unat_byte_less [simp]: "unat (b :: byte) < 256"
  using unsigned_less [of b] by simp

lemma sextet_bounds: "a < 256 \<Longrightarrow> a div 4 < 64" "b < 256 \<Longrightarrow> a mod 4 * 16 + b div 16 < 64" "c < 256 \<Longrightarrow> b mod 16 * 4 + c div 64 < 64"
  "b mod 16 * 4 < 64" "a mod 4 * 16 < (64 :: nat)" for a b c :: nat
proof -
  show "a < 256 \<Longrightarrow> a div 4 < 64" by (simp add: div_less_iff_less_mult)
  have m: "a mod 4 < 4" "b mod 16 < 16" by simp_all
  show "b < 256 \<Longrightarrow> a mod 4 * 16 + b div 16 < 64" "c < 256 \<Longrightarrow> b mod 16 * 4 + c div 64 < 64"
    "b mod 16 * 4 < 64" "a mod 4 * 16 < 64" using m by linarith+
qed

lemma sextets:
  "b < 256 \<Longrightarrow> a div 4 * 4 + (a mod 4 * 16 + b div 16) div 16 = a"
  "b < 256 \<Longrightarrow> c < 256 \<Longrightarrow> (a mod 4 * 16 + b div 16) mod 16 * 16 + (b mod 16 * 4 + c div 64) div 4 = b"
  "c < 256 \<Longrightarrow> (b mod 16 * 4 + c div 64) mod 4 * 64 + c mod 64 = c" for a b c :: nat
proof -
  have small: "b < 256 \<Longrightarrow> b div 16 < 16" "c < 256 \<Longrightarrow> c div 64 < 4" by (simp_all add: div_less_iff_less_mult)
  then have "b < 256 \<Longrightarrow> (a mod 4 * 16 + b div 16) div 16 = a mod 4" "b < 256 \<Longrightarrow> (a mod 4 * 16 + b div 16) mod 16 = b div 16"
    "c < 256 \<Longrightarrow> (b mod 16 * 4 + c div 64) div 4 = b mod 16" "c < 256 \<Longrightarrow> (b mod 16 * 4 + c div 64) mod 4 = c div 64"
    by simp_all
  then show "b < 256 \<Longrightarrow> a div 4 * 4 + (a mod 4 * 16 + b div 16) div 16 = a"
    "b < 256 \<Longrightarrow> c < 256 \<Longrightarrow> (a mod 4 * 16 + b div 16) mod 16 * 16 + (b mod 16 * 4 + c div 64) div 4 = b"
    "c < 256 \<Longrightarrow> (b mod 16 * 4 + c div 64) mod 4 * 64 + c mod 64 = c"
    by simp_all
qed

lemma byte_of_unat: "of_nat (unat b) = (b :: byte)"
  by simp

lemmas sextets_byte = sextets [OF unat_byte_less] sextets(2) [OF unat_byte_less unat_byte_less] sextet_bounds(1-3) [OF unat_byte_less] sextet_bounds(4,5)

lemma base64url_decode_encode: "base64url_decode (base64url_encode bs) = bs"
proof (induction bs rule: base64url_encode.induct)
  case (1 a b c bs)
  then show ?case by (simp only: base64url_encode.simps base64url_decode.simps Let_def base64url_digit_char sextets_byte
        byte_of_unat mod_less_divisor zero_less_numeral)
next
  case (2 a b)
  have "(unat a mod 4 * 16 + unat b div 16) mod 16 * 16 + (unat b mod 16 * 4) div 4 = unat b"
    using sextets(2) [of "unat b" 0 "unat a"] by simp
  then show ?case
    by (simp only: base64url_encode.simps base64url_decode.simps Let_def base64url_digit_char sextets_byte byte_of_unat)
next
  case (3 a)
  have "unat a div 4 * 4 + (unat a mod 4 * 16) div 16 = unat a" by simp
  then show ?case
    by (simp only: base64url_encode.simps base64url_decode.simps Let_def base64url_digit_char sextets_byte byte_of_unat)
qed simp

end
