(* ===== verification/Terminal_Control.thy ===== *)
theory Terminal_Control
  imports Terminal_Codec Base64url Json
begin

text \<open>
  The control payloads of the terminal wire, the second half of \<^verbatim>\<open>src/terminal/codec.ts\<close>:
  \<^verbatim>\<open>decodeTerminalControl\<close> with the validation of every frame type, and the negotiation of
  local actions. The functions that throw for an invalid payload return a verdict; the
  third verdict is the \<^verbatim>\<open>TypeError\<close> that \<^verbatim>\<open>String(value)\<close> throws for an object with a
  property \<^verbatim>\<open>toString\<close>. Conditions joined by \<^verbatim>\<open>||\<close> are lists of verdicts, of which the first
  that is not \<open>V_ok\<close> decides. \<open>sha\<close> is SHA-256 of bytes in hexadecimal.
\<close>

section \<open>Verdicts\<close>

datatype verdict = V_ok | V_invalid | V_type_error

fun checks :: "verdict list \<Rightarrow> verdict" where
  "checks [] = V_ok"
| "checks (V_ok # vs) = checks vs"
| "checks (v # vs) = v"

definition require :: "bool \<Rightarrow> verdict" where
  "require b = (if b then V_ok else V_invalid)"

definition text_check :: "(string \<Rightarrow> bool) \<Rightarrow> json option \<Rightarrow> verdict" where
  "text_check P v = (case js_string_of v of None \<Rightarrow> V_type_error | Some t \<Rightarrow> require (P t))"

lemma checks_ok: "checks vs = V_ok \<longleftrightarrow> (\<forall>v \<in> set vs. v = V_ok)"
  by (induction vs rule: checks.induct) auto

lemma require_ok [simp]: "require b = V_ok \<longleftrightarrow> b"
  by (simp add: require_def)

section \<open>Constants\<close>

definition terminal_protocol :: string where "terminal_protocol = ''runa.terminal.v1''"
definition local_action_protocol :: string where "local_action_protocol = ''cuna.local-actions.v1''"
definition terminal_view_protocol :: string where "terminal_view_protocol = ''cuna.terminal-view.v1''"
definition max_local_action_control_bytes :: int where "max_local_action_control_bytes = 65536"
definition max_local_stream_window_bytes :: int where "max_local_stream_window_bytes = 1048576"
definition max_uint64 :: int where "max_uint64 = 18446744073709551615"

definition terminal_local_action_kinds :: "string list" where
  "terminal_local_action_kinds = [''browser.open'', ''auth.device.present'', ''auth.callback.relay'', ''auth.result.observe'',
     ''clipboard.write'', ''port.forward'', ''file.select'', ''attachment.import'', ''artifact.save'', ''preview.open'', ''diff.open'',
     ''editor.open'', ''notification.show'', ''git.sign'', ''local_service.request'', ''device.select'']"

definition terminal_signals :: "string list" where
  "terminal_signals = [''interrupt'', ''suspend'', ''terminate'']"

definition exit_reasons :: "string list" where
  "exit_reasons = [''exited'', ''signaled'', ''terminated'', ''failed'']"

section \<open>Checks of single values\<close>

fun isIdentifier :: "json option \<Rightarrow> bool" where
  "isIdentifier (Some (JStr s)) = (1 \<le> length s \<and> length s \<le> 256 \<and> CHR 0x00 \<notin> set s)"
| "isIdentifier _ = False"

fun is_json_text :: "json option \<Rightarrow> bool" where
  "is_json_text (Some (JStr s)) = True"
| "is_json_text _ = False"

fun is_json_bool :: "json option \<Rightarrow> bool" where
  "is_json_bool (Some (JBool b)) = True"
| "is_json_bool _ = False"

definition isDimension :: "json option \<Rightarrow> bool" where
  "isDimension v = int_between 1 1000 v"

definition isBoundedPositiveInteger :: "json option \<Rightarrow> int \<Rightarrow> bool" where
  "isBoundedPositiveInteger v maximum = int_between 1 maximum v"

definition isBoundedNonnegativeInteger :: "json option \<Rightarrow> int \<Rightarrow> bool" where
  "isBoundedNonnegativeInteger v maximum = int_between 0 maximum v"

definition isUint64Number :: "json option \<Rightarrow> bool" where
  "isUint64Number v = int_between 0 max_safe_integer v"

definition isPositiveUint64Number :: "json option \<Rightarrow> bool" where
  "isPositiveUint64Number v = int_between 1 max_safe_integer v"

definition isSafeTimestamp :: "json option \<Rightarrow> bool" where
  "isSafeTimestamp v = int_between 0 max_safe_integer v"

definition is_digit :: "char \<Rightarrow> bool" where
  "is_digit c \<longleftrightarrow> c \<in> set ''0123456789''"

text \<open>\<^verbatim>\<open>/^[0-9]+$/u\<close>, \<^verbatim>\<open>/^[1-9][0-9]*$/u\<close> and the value of such a text, \<^verbatim>\<open>BigInt(text)\<close>.\<close>

definition decimal_text :: "string \<Rightarrow> bool" where
  "decimal_text s \<longleftrightarrow> s \<noteq> [] \<and> list_all is_digit s"

definition positive_text :: "string \<Rightarrow> bool" where
  "positive_text s \<longleftrightarrow> decimal_text s \<and> hd s \<noteq> CHR ''0''"

definition decimal_value :: "string \<Rightarrow> int" where
  "decimal_value s = foldl (\<lambda>n c. n * 10 + (int (of_char c) - 48)) 0 s"

fun isUint64String :: "json option \<Rightarrow> bool" where
  "isUint64String (Some (JStr s)) = (decimal_text s \<and> decimal_value s \<le> max_uint64)"
| "isUint64String _ = False"

text \<open>\<^verbatim>\<open>/^[0-9a-f]{8}-[0-9a-f]{4}-[0-9a-f]{4}-[0-9a-f]{4}-[0-9a-f]{12}$/u\<close>.\<close>

fun isCanonicalUuid :: "json option \<Rightarrow> bool" where
  "isCanonicalUuid (Some (JStr s)) = uuid_text s"
| "isCanonicalUuid _ = False"

definition isCanonicalViewId :: "json option \<Rightarrow> bool" where
  "isCanonicalViewId v = isCanonicalUuid v"

fun isJsonObject :: "json option \<Rightarrow> bool" where
  "isJsonObject (Some (JObj o')) = (int (utf8_length (json_stringify (JObj o'))) \<le> max_local_action_control_bytes)"
| "isJsonObject _ = False"

definition assertKeys :: "(string \<times> json) list \<Rightarrow> string list \<Rightarrow> string list \<Rightarrow> verdict" where
  "assertKeys value required optional =
     require (list_all (\<lambda>k. map_of value k \<noteq> None) required \<and>
       list_all (\<lambda>(k, _). k \<in> set required \<or> k \<in> set optional) value)"

section \<open>Chunks in base64url\<close>

definition decodedBase64urlLength :: "string \<Rightarrow> int" where
  "decodedBase64urlLength value =
     (if length value = 0 then 0 else if length value mod 4 = 1 then -1 else int (length value * 3 div 4))"

definition sha256Base64url :: "(byte list \<Rightarrow> string) \<Rightarrow> string \<Rightarrow> string" where
  "sha256Base64url sha value = sha (base64url_decode value)"


section \<open>Control payloads\<close>

definition json_kind :: "json \<Rightarrow> bool" where
  "json_kind k = (case k of JStr s \<Rightarrow> s \<in> set terminal_local_action_kinds | _ \<Rightarrow> False)"

text \<open>Two equal kinds are the same string; an element that is no string is refused anyway.\<close>

fun validateKinds :: "json option \<Rightarrow> bool \<Rightarrow> verdict" where
  "validateKinds (Some (JArr ks)) requireNonempty =
     checks [require (\<not> (requireNonempty \<and> ks = []) \<and> length ks \<le> length terminal_local_action_kinds),
             require (distinct ks \<and> list_all json_kind ks)]"
| "validateKinds _ requireNonempty = V_invalid"

fun validateLocalActionOffer :: "json option \<Rightarrow> verdict" where
  "validateLocalActionOffer (Some (JObj offer)) =
     checks [assertKeys offer [''name'', ''maxRequestBytes'', ''maxResultBytes'', ''streamWindowBytes'', ''kinds''] [],
       require (map_of offer ''name'' = Some (JStr local_action_protocol)),
       require (isBoundedPositiveInteger (map_of offer ''maxRequestBytes'') max_local_action_control_bytes),
       require (isBoundedPositiveInteger (map_of offer ''maxResultBytes'') max_local_action_control_bytes),
       require (isBoundedPositiveInteger (map_of offer ''streamWindowBytes'') max_local_stream_window_bytes),
       validateKinds (map_of offer ''kinds'') True]"
| "validateLocalActionOffer _ = V_invalid"

fun validateLocalActionAcceptance :: "json option \<Rightarrow> verdict" where
  "validateLocalActionAcceptance (Some (JObj acceptance)) =
     checks [assertKeys acceptance [''name'', ''acceptedKinds''] [],
       require (map_of acceptance ''name'' = Some (JStr local_action_protocol)),
       validateKinds (map_of acceptance ''acceptedKinds'') True]"
| "validateLocalActionAcceptance _ = V_invalid"

text \<open>The pair of binding identifier and generation, both null or both present and well-formed.\<close>

definition binding_pair :: "json option \<Rightarrow> json option \<Rightarrow> bool" where
  "binding_pair i g \<longleftrightarrow> (i = Some JNull \<or> isCanonicalUuid i) \<and> (g = Some JNull \<or> isPositiveUint64Number g) \<and>
     (i = Some JNull) = (g = Some JNull)"

definition validateLocalActionIdentity :: "(string \<times> json) list \<Rightarrow> verdict" where
  "validateLocalActionIdentity identity =
     checks [assertKeys identity [''userId'', ''deviceId'', ''machineId'', ''workspaceBindingId'', ''workspaceBindingGeneration'',
         ''agentSessionId'', ''processEpoch'', ''fencingGeneration''] [],
       require (isIdentifier (map_of identity ''userId'') \<and> isIdentifier (map_of identity ''deviceId'') \<and>
         isIdentifier (map_of identity ''machineId'') \<and>
         binding_pair (map_of identity ''workspaceBindingId'') (map_of identity ''workspaceBindingGeneration'') \<and>
         isIdentifier (map_of identity ''agentSessionId'') \<and> isIdentifier (map_of identity ''processEpoch'') \<and>
         isBoundedPositiveInteger (map_of identity ''fencingGeneration'') max_safe_integer)]"

definition local_action_provider_names :: "string list" where
  "local_action_provider_names = [''claude-code'', ''codex'', ''opencode'']"

definition later_than :: "json option \<Rightarrow> json option \<Rightarrow> bool" where
  "later_than a b = (case (json_int a, json_int b) of (Some x, Some y) \<Rightarrow> x > y | _ \<Rightarrow> False)"

definition validateLocalActionRequestFrame :: "(string \<times> json) list \<Rightarrow> verdict" where
  "validateLocalActionRequestFrame value =
     (case (assertKeys value [''request''] [], map_of value ''request'') of
        (V_ok, Some (JObj request)) \<Rightarrow>
          (case (assertKeys request [''version'', ''id'', ''identity'', ''provider'', ''kind'', ''arguments'', ''argumentsDigest'',
              ''requestedScope'', ''createdAt'', ''expiresAt'', ''nonce''] [], map_of request ''identity'') of
             (V_ok, Some (JObj identity)) \<Rightarrow>
               checks [validateLocalActionIdentity identity,
                 require (map_of request ''version'' = Some (JNum (JInt 1))), require (isIdentifier (map_of request ''id'')),
                 text_check (\<lambda>t. t \<in> set local_action_provider_names) (map_of request ''provider''),
                 text_check (\<lambda>t. t \<in> set terminal_local_action_kinds) (map_of request ''kind''),
                 require (isJsonObject (map_of request ''arguments'')),
                 text_check is_sha256_digest (map_of request ''argumentsDigest''),
                 require (isIdentifier (map_of request ''requestedScope'')),
                 require (isSafeTimestamp (map_of request ''createdAt'')), require (isSafeTimestamp (map_of request ''expiresAt'')),
                 require (later_than (map_of request ''expiresAt'') (map_of request ''createdAt'')),
                 require (isIdentifier (map_of request ''nonce''))]
           | _ \<Rightarrow> V_invalid)
      | _ \<Rightarrow> V_invalid)"

definition local_action_statuses :: "string list" where
  "local_action_statuses = [''succeeded'', ''failed'', ''denied'', ''expired'', ''cancelled'']"

definition validateLocalActionResultFrame :: "(string \<times> json) list \<Rightarrow> verdict" where
  "validateLocalActionResultFrame value =
     (if map_of value ''message'' = Some (JStr ''ack'')
      then checks [assertKeys value [''message'', ''requestId'', ''argumentDigest''] [],
             require (isIdentifier (map_of value ''requestId'')), text_check is_sha256_digest (map_of value ''argumentDigest'')]
      else checks [assertKeys value [''message'', ''requestId'', ''argumentDigest'', ''result''] [],
             require (map_of value ''message'' = Some (JStr ''outcome'')), require (isIdentifier (map_of value ''requestId'')),
             text_check is_sha256_digest (map_of value ''argumentDigest''),
             (case map_of value ''result'' of
                Some (JObj result) \<Rightarrow>
                  checks [assertKeys result [''version'', ''requestId'', ''kind'', ''identity'', ''status'', ''completedAt''] [''safeData'', ''safeReason''],
                    (case map_of result ''identity'' of Some (JObj identity) \<Rightarrow> validateLocalActionIdentity identity | _ \<Rightarrow> V_invalid),
                    require (map_of result ''version'' = Some (JNum (JInt 1))),
                    require (map_of result ''requestId'' = map_of value ''requestId''),
                    text_check (\<lambda>t. t \<in> set terminal_local_action_kinds) (map_of result ''kind''),
                    text_check (\<lambda>t. t \<in> set local_action_statuses) (map_of result ''status''),
                    require (isSafeTimestamp (map_of result ''completedAt'')),
                    require (map_of result ''safeData'' = None \<or> isJsonObject (map_of result ''safeData'')),
                    require (map_of result ''safeReason'' = None \<or> isIdentifier (map_of result ''safeReason''))]
              | _ \<Rightarrow> V_invalid)])"

fun validateTerminalViewProtocol :: "json option \<Rightarrow> bool \<Rightarrow> verdict" where
  "validateTerminalViewProtocol (Some (JObj view)) ready =
     checks [assertKeys view (if ready then [''name'', ''operation'', ''history''] else [''name'', ''operation'']) [],
       require (map_of view ''name'' = Some (JStr terminal_view_protocol)), require (map_of view ''operation'' = Some (JStr ''new'')),
       require (ready \<longrightarrow> map_of view ''history'' = Some (JStr ''current_view''))]"
| "validateTerminalViewProtocol _ ready = V_invalid"

definition validateReadyIdentity :: "(string \<times> json) list \<Rightarrow> verdict" where
  "validateReadyIdentity value =
     (let present = length (filter (\<lambda>k. map_of value k \<noteq> None)
            [''machineId'', ''machineGeneration'', ''workspaceBindingId'', ''workspaceBindingGeneration'']) in
      if present = 0 then require (map_of value ''localActionProtocol'' = None)
      else require (present = 4 \<and> isIdentifier (map_of value ''machineId'') \<and> isIdentifier (map_of value ''machineGeneration'') \<and>
        binding_pair (map_of value ''workspaceBindingId'') (map_of value ''workspaceBindingGeneration'')))"

definition one_of :: "json option \<Rightarrow> string list \<Rightarrow> bool" where
  "one_of v names \<longleftrightarrow> (\<exists>n \<in> set names. v = Some (JStr n))"

definition validate_ready :: "(string \<times> json) list \<Rightarrow> verdict" where
  "validate_ready value =
     checks [require (map_of value ''protocol'' = Some (JStr terminal_protocol) \<and> isIdentifier (map_of value ''agentSessionId'') \<and>
         isIdentifier (map_of value ''processEpoch'') \<and> isPositiveUint64Number (map_of value ''fencingGeneration'') \<and>
         one_of (map_of value ''resizeCapability'') [''live'', ''initial_resize_only''] \<and>
         one_of (map_of value ''accessMode'') [''writer'', ''observer''] \<and>
         isBoundedPositiveInteger (map_of value ''writerEpoch'') max_safe_integer),
       assertKeys value [''protocol'', ''agentSessionId'', ''processEpoch'', ''fencingGeneration'', ''resizeCapability'', ''accessMode'', ''writerEpoch'']
         [''machineId'', ''machineGeneration'', ''workspaceBindingId'', ''workspaceBindingGeneration'', ''localActionProtocol'', ''terminalViewProtocol''],
       validateReadyIdentity value,
       (if map_of value ''terminalViewProtocol'' = None then V_ok else validateTerminalViewProtocol (map_of value ''terminalViewProtocol'') True),
       (if map_of value ''localActionProtocol'' = None then V_ok else validateLocalActionOffer (map_of value ''localActionProtocol''))]"

definition validate_resume :: "(string \<times> json) list \<Rightarrow> verdict" where
  "validate_resume value =
     checks [assertKeys value [''resumeHandle'', ''afterOutputSequence''] [''localActionProtocol'', ''terminalViewProtocol''],
       require (isIdentifier (map_of value ''resumeHandle'') \<and> isUint64String (map_of value ''afterOutputSequence'')),
       (if map_of value ''terminalViewProtocol'' = None then V_ok
        else checks [validateTerminalViewProtocol (map_of value ''terminalViewProtocol'') False,
               require (map_of value ''afterOutputSequence'' = Some (JStr ''0''))]),
       (if map_of value ''localActionProtocol'' = None then V_ok else validateLocalActionAcceptance (map_of value ''localActionProtocol''))]"

definition area_fits :: "json option \<Rightarrow> json option \<Rightarrow> bool" where
  "area_fits c r = (case (json_int c, json_int r) of (Some x, Some y) \<Rightarrow> x * y \<le> 250000 | _ \<Rightarrow> False)"

definition validate_stream_data :: "(byte list \<Rightarrow> string) \<Rightarrow> (string \<times> json) list \<Rightarrow> verdict" where
  "validate_stream_data sha value =
     checks [assertKeys value [''streamId'', ''offset'', ''bytesBase64url'', ''decodedLength'', ''chunkSha256''] [],
       require (isIdentifier (map_of value ''streamId'')), require (isUint64Number (map_of value ''offset'')),
       (case map_of value ''bytesBase64url'' of
          Some (JStr b) \<Rightarrow>
            checks [require (list_all is_base64url_char b),
              require (isBoundedNonnegativeInteger (map_of value ''decodedLength'') max_local_action_control_bytes),
              require (map_of value ''decodedLength'' = Some (JNum (JInt (decodedBase64urlLength b)))),
              text_check is_sha256_hex (map_of value ''chunkSha256''),
              require (map_of value ''chunkSha256'' = Some (JStr (sha256Base64url sha b)))]
        | _ \<Rightarrow> V_invalid)]"


definition validateControlPayload :: "(byte list \<Rightarrow> string) \<Rightarrow> terminal_type \<Rightarrow> (string \<times> json) list \<Rightarrow> verdict" where
  "validateControlPayload sha type value =
     (let get = map_of value in case type of
        T_control_state \<Rightarrow>
          checks [assertKeys value [''columns'', ''rows'', ''writerEpoch''] [],
            require (isDimension (get ''columns'') \<and> isDimension (get ''rows'') \<and>
              isBoundedPositiveInteger (get ''writerEpoch'') max_safe_integer)]
      | T_ready \<Rightarrow> validate_ready value
      | T_writer_epoch \<Rightarrow>
          checks [require (isBoundedPositiveInteger (get ''writerEpoch'') max_safe_integer \<and>
              (get ''writerClientInstanceId'' = Some JNull \<or> is_json_text (get ''writerClientInstanceId'')) \<and>
              one_of (get ''accessMode'') [''writer'', ''observer'']),
            assertKeys value [''writerEpoch'', ''writerClientInstanceId'', ''accessMode''] []]
      | T_resize \<Rightarrow> require (isDimension (get ''columns'') \<and> isDimension (get ''rows''))
      | T_signal \<Rightarrow> text_check (\<lambda>t. t \<in> set terminal_signals) (get ''signal'')
      | T_exit \<Rightarrow>
          checks [require (case get ''exitCode'' of Some JNull \<Rightarrow> True | Some (JNum n) \<Rightarrow> number_is_integer n | _ \<Rightarrow> False),
            text_check (\<lambda>t. t \<in> set exit_reasons) (get ''reason'')]
      | T_error \<Rightarrow>
          require (isIdentifier (get ''code'') \<and> is_json_bool (get ''retryable'') \<and> isIdentifier (get ''safeReason''))
      | T_acknowledgement \<Rightarrow>
          checks [text_check (\<lambda>t. positive_text t \<and> decimal_value t \<le> max_uint64) (get ''clientSequence''),
            require (get ''meaning'' = Some (JStr ''durably_accepted_not_executed''))]
      | T_heartbeat \<Rightarrow> assertKeys value [] []
      | T_resume \<Rightarrow> validate_resume value
      | T_view_started \<Rightarrow>
          checks [assertKeys value [''protocol'', ''operation'', ''viewId'', ''columns'', ''rows''] [],
            require (get ''protocol'' = Some (JStr terminal_view_protocol) \<and> get ''operation'' = Some (JStr ''new'') \<and>
              isCanonicalViewId (get ''viewId'') \<and> isBoundedPositiveInteger (get ''columns'') 4096 \<and>
              isBoundedPositiveInteger (get ''rows'') 4096 \<and> area_fits (get ''columns'') (get ''rows''))]
      | T_view_ready \<Rightarrow>
          checks [assertKeys value [''viewId'', ''afterOutputSequence''] [],
            require (isCanonicalViewId (get ''viewId'') \<and> isUint64String (get ''afterOutputSequence'') \<and>
              (case get ''afterOutputSequence'' of Some (JStr s) \<Rightarrow> positive_text s | _ \<Rightarrow> False))]
      | T_local_action_request \<Rightarrow> validateLocalActionRequestFrame value
      | T_local_action_result \<Rightarrow> validateLocalActionResultFrame value
      | T_local_stream_open \<Rightarrow>
          checks [assertKeys value [''streamId'', ''requestId'', ''direction'', ''initialCreditBytes''] [],
            require (isIdentifier (get ''streamId'') \<and> isIdentifier (get ''requestId'') \<and>
              one_of (get ''direction'') [''local_to_remote'', ''remote_to_local''] \<and>
              isBoundedPositiveInteger (get ''initialCreditBytes'') max_local_stream_window_bytes)]
      | T_local_stream_data \<Rightarrow> validate_stream_data sha value
      | T_local_stream_close \<Rightarrow>
          checks [assertKeys value [''streamId'', ''finalOffset'', ''reason''] [],
            require (isIdentifier (get ''streamId'') \<and> isUint64Number (get ''finalOffset'')),
            text_check (\<lambda>t. t \<in> set [''completed'', ''cancelled'', ''failed'', ''expired'']) (get ''reason'')]
      | T_local_stream_window_update \<Rightarrow>
          checks [assertKeys value [''streamId'', ''acknowledgedOffset'', ''creditBytes''] [],
            require (isIdentifier (get ''streamId'') \<and> isUint64Number (get ''acknowledgedOffset'') \<and>
              isBoundedPositiveInteger (get ''creditBytes'') max_local_stream_window_bytes)]
      | T_input \<Rightarrow> V_invalid
      | T_output \<Rightarrow> V_invalid)"

text \<open>\<open>parse\<close> is \<^verbatim>\<open>JSON.parse\<close> after the fatal UTF-8 decoder, \<open>None\<close> where either throws.\<close>

datatype control_outcome = Control "(string \<times> json) list" | Control_invalid | Control_type_error

definition control_verdict :: "verdict \<Rightarrow> (string \<times> json) list \<Rightarrow> control_outcome" where
  "control_verdict v value = (case v of V_ok \<Rightarrow> Control value | V_invalid \<Rightarrow> Control_invalid | V_type_error \<Rightarrow> Control_type_error)"

definition decodeTerminalControl ::
  "(byte list \<Rightarrow> string) \<Rightarrow> (byte list \<Rightarrow> json option) \<Rightarrow> terminal_frame \<Rightarrow> control_outcome" where
  "decodeTerminalControl sha parse frame =
     (if tf_type frame \<in> {T_input, T_output} then Control_invalid
      else if isLocalActionFrameType (tf_type frame) \<and> \<not> tf_critical frame then Control_invalid
      else if tf_type frame \<in> {T_local_action_request, T_local_action_result} \<and>
              int (length (tf_payload frame)) > max_local_action_control_bytes then Control_invalid
      else case parse (tf_payload frame) of
        Some (JObj value) \<Rightarrow>
          if tf_type frame = T_control_state \<and> tf_critical frame then Control_invalid
          else if tf_type frame \<in> {T_view_started, T_view_ready} \<and> (\<not> tf_critical frame \<or> tf_sequence frame \<noteq> 0) then Control_invalid
          else control_verdict (validateControlPayload sha (tf_type frame) value) value
      | _ \<Rightarrow> Control_invalid)"

definition encodeTerminalControl :: "terminal_type \<Rightarrow> int \<Rightarrow> json \<Rightarrow> terminal_error_code + byte list" where
  "encodeTerminalControl type seq payload =
     encodeTerminalFrame \<lparr>tf_type = type, tf_critical = True, tf_sequence = seq, tf_payload = utf8_bytes (json_stringify payload)\<rparr>"

section \<open>Negotiation of local actions\<close>

fun json_texts :: "json option \<Rightarrow> string list" where
  "json_texts (Some (JArr ks)) = map (\<lambda>k. case k of JStr s \<Rightarrow> s | _ \<Rightarrow> []) ks"
| "json_texts _ = []"

definition negotiateTerminalLocalActions :: "json option \<Rightarrow> string set \<Rightarrow> terminal_error_code + string list option" where
  "negotiateTerminalLocalActions offer implementedKinds =
     (case offer of
        None \<Rightarrow> Inr None
      | Some (JObj o') \<Rightarrow>
          if validateLocalActionOffer offer \<noteq> V_ok then Inl TE_invalid_payload
          else let acceptedKinds = filter (\<lambda>k. k \<in> implementedKinds) (json_texts (map_of o' ''kinds'')) in
            Inr (if acceptedKinds = [] then None else Some acceptedKinds)
      | Some _ \<Rightarrow> Inl TE_invalid_payload)"

definition acceptance_payload :: "string list \<Rightarrow> json" where
  "acceptance_payload ks = JObj [(''name'', JStr local_action_protocol), (''acceptedKinds'', JArr (map JStr ks))]"

section \<open>Facts\<close>

lemma control_roundtrip:
  assumes "encodeTerminalControl type seq (JObj p) = Inr bytes" and "parse (utf8_bytes (json_stringify (JObj p))) = Some (JObj p)"
    and "validateControlPayload sha type p = V_ok" and "type \<noteq> T_control_state" and "type \<in> {T_view_started, T_view_ready} \<longrightarrow> seq = 0"
    and "type \<in> {T_local_action_request, T_local_action_result} \<longrightarrow> int (utf8_length (json_stringify (JObj p))) \<le> max_local_action_control_bytes"
  shows "\<exists>f. decodeTerminalFrame bytes = Inr (Some f) \<and> decodeTerminalControl sha parse f = Control p"
proof -
  let ?f = "\<lparr>tf_type = type, tf_critical = True, tf_sequence = seq, tf_payload = utf8_bytes (json_stringify (JObj p))\<rparr>"
  have "type \<notin> {T_input, T_output}" using assms(3) by (auto simp: validateControlPayload_def)
  then have "decodeTerminalControl sha parse ?f = Control p"
    using assms(2-6) by (auto simp: decodeTerminalControl_def control_verdict_def length_utf8_bytes simp del: json_stringify.simps)
  moreover have "decodeTerminalFrame bytes = Inr (Some ?f)"
    using assms(1) by (auto simp: encodeTerminalControl_def encodeTerminalFrame_def terminal_decode_frame terminal_valid_def terminal_consts
        simp del: json_stringify.simps split: if_splits)
  ultimately show ?thesis by blast
qed

lemma decodedBase64urlLength_correct:
  "0 \<le> decodedBase64urlLength s \<Longrightarrow> decodedBase64urlLength s = int (length (base64url_decode s))"
  by (auto simp: decodedBase64urlLength_def length_base64url_decode split: if_splits)

lemma validateKinds_ok:
  assumes "validateKinds v True = V_ok"
  obtains ks where "v = Some (JArr (map JStr ks))" "ks \<noteq> []" "distinct ks" "set ks \<subseteq> set terminal_local_action_kinds"
proof -
  from assms obtain js where js: "v = Some (JArr js)" "js \<noteq> []" "distinct js" "list_all json_kind js"
    by (cases "(v, True)" rule: validateKinds.cases) (auto simp: checks_ok)
  define ks where "ks = map (\<lambda>k. case k of JStr s \<Rightarrow> s | _ \<Rightarrow> []) js"
  have "js = map JStr ks" using js(4) unfolding ks_def
    by (induction js) (auto simp: json_kind_def split: json.splits)
  moreover from this js(3) have "distinct ks" by (simp add: distinct_map)
  moreover have "set ks \<subseteq> set terminal_local_action_kinds"
    using js(4) unfolding calculation(1) by (auto simp: list_all_iff json_kind_def)
  ultimately show ?thesis using js(1,2) that by auto
qed


lemma assertKeys_ok:
  "assertKeys value required optional = V_ok \<longleftrightarrow> (\<forall>k \<in> set required. map_of value k \<noteq> None) \<and> fst ` set value \<subseteq> set required \<union> set optional"
  by (auto simp: assertKeys_def list_all_iff)

lemma control_accepted:
  assumes "decodeTerminalControl sha parse frame = Control value"
  shows "parse (tf_payload frame) = Some (JObj value) \<and> validateControlPayload sha (tf_type frame) value = V_ok \<and>
     (isLocalActionFrameType (tf_type frame) \<longrightarrow> tf_critical frame)"
  using assms by (auto simp: decodeTerminalControl_def control_verdict_def split: if_splits option.splits json.splits verdict.splits)

section \<open>Properties\<close>

text \<open>
  Chunks of a local stream are intact when they are handed on: whenever
  \<^verbatim>\<open>decodeTerminalControl\<close> accepts a \<^verbatim>\<open>local_stream_data\<close> frame, whatever its sender put in
  it, the declared length is the number of bytes the base64url text really decodes to, at
  most 64 KiB, the digest is the SHA-256 of those bytes, the offset is a non-negative safe
  integer, and the frame was marked critical.
\<close>

theorem stream_data_integrity:
  assumes "decodeTerminalControl sha parse frame = Control value" and "tf_type frame = T_local_stream_data"
  shows "\<exists>b offset. map_of value ''bytesBase64url'' = Some (JStr b) \<and>
     map_of value ''decodedLength'' = Some (JNum (JInt (int (length (base64url_decode b))))) \<and> length (base64url_decode b) \<le> 65536 \<and>
     map_of value ''chunkSha256'' = Some (JStr (sha (base64url_decode b))) \<and>
     map_of value ''offset'' = Some (JNum (JInt offset)) \<and> 0 \<le> offset \<and> is_safe_integer offset \<and> tf_critical frame"
proof -
  from control_accepted [OF assms(1)] assms(2) have v: "validate_stream_data sha value = V_ok" "tf_critical frame"
    by (auto simp: validateControlPayload_def isLocalActionFrameType_def local_action_frame_types_def)
  then obtain b where b: "map_of value ''bytesBase64url'' = Some (JStr b)"
    by (auto simp: validate_stream_data_def checks_ok split: option.splits json.splits)
  with v have len: "map_of value ''decodedLength'' = Some (JNum (JInt (decodedBase64urlLength b)))"
    "isBoundedNonnegativeInteger (map_of value ''decodedLength'') max_local_action_control_bytes"
    and sha: "map_of value ''chunkSha256'' = Some (JStr (sha (base64url_decode b)))" and off: "isUint64Number (map_of value ''offset'')"
    by (auto simp: validate_stream_data_def checks_ok sha256Base64url_def)
  from len have r: "0 \<le> decodedBase64urlLength b" "decodedBase64urlLength b \<le> 65536"
    by (auto simp: isBoundedNonnegativeInteger_def max_local_action_control_bytes_def dest!: int_betweenD)
  from off obtain n where "map_of value ''offset'' = Some (JNum (JInt n))" "0 \<le> n" "is_safe_integer n"
    by (auto simp: isUint64Number_def dest!: int_betweenD)
  with b sha len r decodedBase64urlLength_correct [OF r(1)] v(2) show ?thesis by auto
qed

definition sample_chunk :: "(string \<times> json) list" where
  "sample_chunk = [(''streamId'', JStr ''s''), (''offset'', JNum (JInt 0)), (''bytesBase64url'', JStr ''aGk''),
     (''decodedLength'', JNum (JInt 2)), (''chunkSha256'', JStr (replicate 64 (CHR ''0'')))]"

definition sample_chunk_frame :: terminal_frame where
  "sample_chunk_frame = \<lparr>tf_type = T_local_stream_data, tf_critical = True, tf_sequence = 7, tf_payload = [1]\<rparr>"

lemma sample_chunk_accepted:
  "decodeTerminalControl (\<lambda>_. replicate 64 (CHR ''0'')) (\<lambda>_. Some (JObj sample_chunk)) sample_chunk_frame = Control sample_chunk"
  by code_simp

theorem stream_data_integrity_witness:
  "\<exists>b offset. map_of sample_chunk ''bytesBase64url'' = Some (JStr b) \<and>
     map_of sample_chunk ''decodedLength'' = Some (JNum (JInt (int (length (base64url_decode b))))) \<and> length (base64url_decode b) \<le> 65536 \<and>
     map_of sample_chunk ''chunkSha256'' = Some (JStr (replicate 64 (CHR ''0''))) \<and>
     map_of sample_chunk ''offset'' = Some (JNum (JInt offset)) \<and> 0 \<le> offset \<and> is_safe_integer offset \<and> tf_critical sample_chunk_frame"
  using stream_data_integrity [OF sample_chunk_accepted] by (simp add: sample_chunk_frame_def)

text \<open>
  What the client accepts, the protocol accepts: the kinds a client negotiates from an
  offer are offered and implemented ones, in the order of the offer, and a resume frame
  that carries them passes the same validation on the other side.
\<close>

theorem negotiation_sound:
  assumes "negotiateTerminalLocalActions offer implemented = Inr (Some ks)"
    and "isIdentifier (Some (JStr handle))" and "isUint64String (Some (JStr after))"
  shows "(\<exists>o' offered. offer = Some (JObj o') \<and> map_of o' ''kinds'' = Some (JArr (map JStr offered)) \<and>
       ks = filter (\<lambda>k. k \<in> implemented) offered) \<and>
     validateControlPayload sha T_resume [(''resumeHandle'', JStr handle), (''afterOutputSequence'', JStr after),
       (''localActionProtocol'', acceptance_payload ks)] = V_ok"
proof -
  from assms(1) obtain o' where o': "offer = Some (JObj o')" "validateLocalActionOffer offer = V_ok"
    "ks = filter (\<lambda>k. k \<in> implemented) (json_texts (map_of o' ''kinds''))" "ks \<noteq> []"
    by (auto simp: negotiateTerminalLocalActions_def Let_def split: option.splits json.splits if_splits)
  then have "validateKinds (map_of o' ''kinds'') True = V_ok" by (simp add: checks_ok)
  then obtain ts where ts: "map_of o' ''kinds'' = Some (JArr (map JStr ts))" "distinct ts" "set ts \<subseteq> set terminal_local_action_kinds"
    by (rule validateKinds_ok)
  then have "json_texts (map_of o' ''kinds'') = ts" by (simp add: comp_def)
  with o'(3) have ks: "ks = filter (\<lambda>k. k \<in> implemented) ts" by simp
  then have d: "distinct ks" "set ks \<subseteq> set terminal_local_action_kinds" using ts by auto
  then have "length ks \<le> length terminal_local_action_kinds"
    by (metis card_mono card_length distinct_card le_trans List.finite_set)
  moreover have "list_all json_kind (map JStr ks)" using d(2) by (auto simp: list_all_iff json_kind_def)
  moreover have "distinct (map JStr ks)" using d(1) by (simp add: distinct_map inj_on_def)
  ultimately have "validateLocalActionAcceptance (Some (acceptance_payload ks)) = V_ok"
    using o'(4) by (simp add: acceptance_payload_def checks_ok assertKeys_ok)
  then have "validateControlPayload sha T_resume [(''resumeHandle'', JStr handle), (''afterOutputSequence'', JStr after),
       (''localActionProtocol'', acceptance_payload ks)] = V_ok"
    using assms(2,3) by (simp add: validateControlPayload_def validate_resume_def checks_ok assertKeys_ok)
  with o'(1) ts(1) ks show ?thesis by blast
qed

definition sample_offer :: json where
  "sample_offer = JObj [(''name'', JStr local_action_protocol), (''maxRequestBytes'', JNum (JInt 100)), (''maxResultBytes'', JNum (JInt 100)),
     (''streamWindowBytes'', JNum (JInt 100)), (''kinds'', JArr [JStr ''git.sign'', JStr ''browser.open''])]"

lemma sample_negotiated:
  "negotiateTerminalLocalActions (Some sample_offer) {''browser.open'', ''clipboard.write''} = Inr (Some [''browser.open''])"
  "isIdentifier (Some (JStr ''h''))" "isUint64String (Some (JStr ''0''))"
  by code_simp+

theorem negotiation_sound_witness:
  "validateControlPayload (\<lambda>_. []) T_resume [(''resumeHandle'', JStr ''h''), (''afterOutputSequence'', JStr ''0''),
     (''localActionProtocol'', acceptance_payload [''browser.open''])] = V_ok"
  using negotiation_sound [OF sample_negotiated] by blast

text \<open>
  The coercions of the validator can throw: a signal frame whose \<^verbatim>\<open>signal\<close> is an object with a
  property \<^verbatim>\<open>toString\<close> makes the decoder fail with a \<^verbatim>\<open>TypeError\<close> instead of the protocol error.
\<close>

lemma signal_type_error:
  "parse payload = Some (JObj [(''signal'', JObj [(''toString'', v)])]) \<Longrightarrow>
     decodeTerminalControl sha parse \<lparr>tf_type = T_signal, tf_critical = c, tf_sequence = n, tf_payload = payload\<rparr> = Control_type_error"
  by (simp add: decodeTerminalControl_def isLocalActionFrameType_def local_action_frame_types_def validateControlPayload_def text_check_def
      control_verdict_def)

end
