(* ===== verification/Terminal_Mode.thy ===== *)
theory Terminal_Mode
  imports Prelude
begin

text \<open>
  The presentation mode and the host terminal lease, \<^verbatim>\<open>src/terminal/mode.ts\<close>. The host
  terminal behind \<^verbatim>\<open>HostTerminalAdapter\<close> is a record of the modes it is in. A call of the
  adapter has its effect, or throws with or without it: the outcomes are arguments of the
  operations, one record of them per call of \<^verbatim>\<open>acquire\<close> or \<^verbatim>\<open>restore\<close>. Calls of \<^verbatim>\<open>restore\<close>
  that overlap share one run of \<^verbatim>\<open>#restoreNow\<close>, so a sequence of runs stands for them.
\<close>

section \<open>Presentation mode\<close>

datatype presentation_mode = Rich | Plain | Json_mode
datatype vte_conformance = Verified | Unverified | Unavailable
datatype accessibility = Acc_full | Acc_no_color | Acc_text_only | Acc_structured

record mode_capabilities =
  mc_interactive :: bool
  mc_jsonRequested :: bool
  mc_columns :: int
  mc_rows :: int
  mc_color :: bool
  mc_reducedMotion :: bool
  mc_rawMode :: bool
  mc_alternateScreen :: bool
  mc_vteConformance :: vte_conformance

record mode_decision =
  md_mode :: presentation_mode
  md_appbar :: bool
  md_reasons :: "string list"
  md_accessibility :: accessibility

definition decision :: "presentation_mode \<Rightarrow> bool \<Rightarrow> string list \<Rightarrow> accessibility \<Rightarrow> mode_decision" where
  "decision mode appbar reasons acc = \<lparr>md_mode = mode, md_appbar = appbar, md_reasons = reasons, md_accessibility = acc\<rparr>"

fun vte_reason :: "vte_conformance \<Rightarrow> string list" where
  "vte_reason Verified = []"
| "vte_reason Unverified = [''vte_unverified'']"
| "vte_reason Unavailable = [''vte_unavailable'']"

definition mode_reasons :: "mode_capabilities \<Rightarrow> string list" where
  "mode_reasons c =
     (if mc_columns c < 40 \<or> mc_rows c < 4 then [''terminal_too_small''] else []) @
     (if \<not> mc_color c then [''color_unavailable''] else []) @
     (if mc_reducedMotion c then [''reduced_motion_requested''] else []) @
     (if \<not> mc_rawMode c then [''raw_mode_unavailable''] else []) @
     (if \<not> mc_alternateScreen c then [''alternate_screen_unavailable''] else []) @
     vte_reason (mc_vteConformance c)"

definition selectTerminalMode :: "mode_capabilities \<Rightarrow> mode_decision" where
  "selectTerminalMode c =
     (if mc_jsonRequested c \<or> \<not> mc_interactive c
      then decision Json_mode False [if mc_jsonRequested c then ''json_requested'' else ''noninteractive''] Acc_structured
      else if mode_reasons c \<noteq> [] then decision Plain False (mode_reasons c) (if mc_color c then Acc_text_only else Acc_no_color)
      else decision Rich True [] Acc_full)"

section \<open>The host terminal\<close>

record host_terminal =
  ht_raw :: bool
  ht_alternate :: bool
  ht_remoteModes :: bool

datatype adapter_outcome = Done | Threw_after_effect | Threw_without_effect

record adapter_run =
  ar_enterRawMode :: adapter_outcome
  ar_enterAlternateScreen :: adapter_outcome
  ar_disableRemoteModes :: adapter_outcome
  ar_leaveAlternateScreen :: adapter_outcome
  ar_leaveRawMode :: adapter_outcome

definition adapter_call :: "adapter_outcome \<Rightarrow> (host_terminal \<Rightarrow> host_terminal) \<Rightarrow> host_terminal \<Rightarrow> bool \<times> host_terminal" where
  "adapter_call out effect h =
     (case out of Done \<Rightarrow> (False, effect h) | Threw_after_effect \<Rightarrow> (True, effect h) | Threw_without_effect \<Rightarrow> (True, h))"

section \<open>The lease\<close>

record terminal_lease =
  tl_raw :: bool
  tl_alternate :: bool
  tl_restored :: bool

text \<open>\<^verbatim>\<open>#restoreNow\<close>: the number of failures it collected, the lease and the host afterwards.\<close>

definition restoreNow :: "adapter_run \<Rightarrow> terminal_lease \<Rightarrow> host_terminal \<Rightarrow> nat \<times> terminal_lease \<times> host_terminal" where
  "restoreNow a l h =
     (let (t1, h1) = adapter_call (ar_disableRemoteModes a) (\<lambda>h. h\<lparr>ht_remoteModes := False\<rparr>) h;
          (t2, l2, h2) =
            (if tl_alternate l
             then let (t, h') = adapter_call (ar_leaveAlternateScreen a) (\<lambda>h. h\<lparr>ht_alternate := False\<rparr>) h1
                  in (t, if t then l else l\<lparr>tl_alternate := False\<rparr>, h')
             else (False, l, h1));
          (t3, l3, h3) =
            (if tl_raw l2
             then let (t, h') = adapter_call (ar_leaveRawMode a) (\<lambda>h. h\<lparr>ht_raw := False\<rparr>) h2
                  in (t, if t then l2 else l2\<lparr>tl_raw := False\<rparr>, h')
             else (False, l2, h2));
          failures = of_bool t1 + of_bool t2 + of_bool t3
      in (failures, if failures > 0 then l3 else l3\<lparr>tl_restored := True\<rparr>, h3))"

definition lease_restore :: "adapter_run \<Rightarrow> terminal_lease \<Rightarrow> host_terminal \<Rightarrow> nat \<times> terminal_lease \<times> host_terminal" where
  "lease_restore a l h = (if tl_restored l then (0, l, h) else restoreNow a l h)"

datatype acquire_outcome = Acquired terminal_lease | Acquire_threw | Acquire_and_cleanup_threw nat

definition lease_acquire_terminal :: "adapter_run \<Rightarrow> host_terminal \<Rightarrow> acquire_outcome \<times> host_terminal" where
  "lease_acquire_terminal a h =
     (let cleanup = (\<lambda>l h'. case lease_restore a l h' of
            (0, _, h'') \<Rightarrow> (Acquire_threw, h'') | (Suc n, _, h'') \<Rightarrow> (Acquire_and_cleanup_threw (Suc n), h''));
          l1 = \<lparr>tl_raw = True, tl_alternate = False, tl_restored = False\<rparr>;
          (t1, h1) = adapter_call (ar_enterRawMode a) (\<lambda>h. h\<lparr>ht_raw := True\<rparr>) h
      in if t1 then cleanup l1 h1
         else let l2 = l1\<lparr>tl_alternate := True\<rparr>;
                  (t2, h2) = adapter_call (ar_enterAlternateScreen a) (\<lambda>h. h\<lparr>ht_alternate := True\<rparr>) h1
              in if t2 then cleanup l2 h2 else (Acquired l2, h2))"

text \<open>A lease in use: output of the session may switch remote modes on; \<^verbatim>\<open>restore\<close> runs any number of times.\<close>

inductive lease_use :: "terminal_lease \<times> host_terminal \<Rightarrow> terminal_lease \<times> host_terminal \<Rightarrow> bool" where
  session: "\<not> tl_restored l \<Longrightarrow> lease_use (l, h) (l, h\<lparr>ht_remoteModes := m\<rparr>)"
| restore: "lease_restore a l h = (n, l', h') \<Longrightarrow> lease_use (l, h) (l', h')"

inductive_cases lease_useE: "lease_use (l, h) s"

section \<open>Facts\<close>

text \<open>A flag that is off means that the host has left the mode.\<close>

definition lease_covers :: "terminal_lease \<times> host_terminal \<Rightarrow> bool" where
  "lease_covers s \<longleftrightarrow> (case s of (l, h) \<Rightarrow> (ht_raw h \<longrightarrow> tl_raw l) \<and> (ht_alternate h \<longrightarrow> tl_alternate l) \<and>
     (tl_restored l \<longrightarrow> \<not> ht_raw h \<and> \<not> ht_alternate h \<and> \<not> ht_remoteModes h))"

lemmas mode_defs = adapter_call_def restoreNow_def lease_restore_def Let_def

lemma restoreNow_covers:
  assumes "lease_covers (l, h)" and "\<not> tl_restored l" and "restoreNow a l h = (n, l', h')"
  shows "lease_covers (l', h') \<and> (n = 0 \<longleftrightarrow> tl_restored l')"
  using assms
  by (cases "ar_disableRemoteModes a"; cases "ar_leaveAlternateScreen a"; cases "ar_leaveRawMode a"; cases "tl_alternate l"; cases "tl_raw l")
    (auto simp: lease_covers_def mode_defs)

lemma lease_use_covers:
  assumes "lease_covers s" and "lease_use s t"
  shows "lease_covers t"
  using assms(2,1)
proof cases
  case (session l h m)
  then show ?thesis using assms(1) by (simp add: lease_covers_def)
next
  case (restore a l h n l' h')
  then show ?thesis using assms(1) restoreNow_covers [of l h a n l' h'] by (auto simp: lease_restore_def split: if_splits)
qed

interpretation host_lease: invariant_system lease_covers lease_use lease_covers
  by unfold_locales (auto intro: lease_use_covers)

lemma restore_without_faults:
  assumes "ar_disableRemoteModes a = Done" and "ar_leaveAlternateScreen a = Done" and "ar_leaveRawMode a = Done"
  shows "\<exists>l' h'. lease_restore a l h = (0, l', h') \<and> tl_restored l'"
  using assms by (simp add: mode_defs)

lemma acquire_cleanup:
  assumes "lease_covers (l, h)" and "\<not> tl_restored l" and "lease_restore a l h = (0, l', h')"
  shows "\<not> ht_raw h' \<and> \<not> ht_alternate h' \<and> \<not> ht_remoteModes h'"
  using restoreNow_covers [OF assms(1,2), of a 0 l' h'] assms(2,3) by (simp add: lease_restore_def lease_covers_def)

lemma cleanup_cases:
  assumes "(case lease_restore a l h of (0, _, h'') \<Rightarrow> (Acquire_threw, h'') | (Suc n, _, h'') \<Rightarrow> (Acquire_and_cleanup_threw (Suc n), h'')) = (r, h1)"
  shows "(r = Acquire_threw \<and> (\<exists>l'. lease_restore a l h = (0, l', h1))) \<or> (\<exists>n. r = Acquire_and_cleanup_threw (Suc n))"
  using assms by (auto split: prod.splits nat.splits)

lemma acquire_result:
  assumes "lease_acquire_terminal a h = (r, h1)" and "\<not> ht_alternate h"
  shows "(\<exists>l. r = Acquired l \<and> lease_covers (l, h1)) \<or>
     (r = Acquire_threw \<and> (\<exists>l h' l'. lease_covers (l, h') \<and> \<not> tl_restored l \<and> lease_restore a l h' = (0, l', h1))) \<or>
     (\<exists>n. r = Acquire_and_cleanup_threw (Suc n))"
proof -
  obtain t1 h' where e1: "adapter_call (ar_enterRawMode a) (\<lambda>h. h\<lparr>ht_raw := True\<rparr>) h = (t1, h')" by force
  then have h': "ht_alternate h' = ht_alternate h" by (auto simp: adapter_call_def split: adapter_outcome.splits)
  let ?l1 = "\<lparr>tl_raw = True, tl_alternate = False, tl_restored = False\<rparr>" and ?l2 = "\<lparr>tl_raw = True, tl_alternate = True, tl_restored = False\<rparr>"
  have c1: "lease_covers (?l1, h')" using h' assms(2) by (simp add: lease_covers_def)
  obtain t2 h'' where e2: "adapter_call (ar_enterAlternateScreen a) (\<lambda>h. h\<lparr>ht_alternate := True\<rparr>) h' = (t2, h'')" by force
  have c2: "lease_covers (?l2, h'')" by (simp add: lease_covers_def)
  show ?thesis
  proof (cases t1)
    case True
    with assms(1) e1 have "(case lease_restore a ?l1 h' of (0, _, h'') \<Rightarrow> (Acquire_threw, h'')
        | (Suc n, _, h'') \<Rightarrow> (Acquire_and_cleanup_threw (Suc n), h'')) = (r, h1)"
      by (simp add: lease_acquire_terminal_def)
    from cleanup_cases [OF this] c1 show ?thesis by fastforce
  next
    case False
    show ?thesis
    proof (cases t2)
      case True
      with \<open>\<not> t1\<close> assms(1) e1 e2 have "(case lease_restore a ?l2 h'' of (0, _, h'') \<Rightarrow> (Acquire_threw, h'')
          | (Suc n, _, h'') \<Rightarrow> (Acquire_and_cleanup_threw (Suc n), h'')) = (r, h1)"
        by (simp add: lease_acquire_terminal_def Let_def)
      from cleanup_cases [OF this] c2 show ?thesis by fastforce
    next
      case False
      with \<open>\<not> t1\<close> assms(1) e1 e2 c2 show ?thesis by (auto simp: lease_acquire_terminal_def Let_def)
    qed
  qed
qed

section \<open>Properties\<close>

text \<open>
  C25. The host terminal is given back. When \<^verbatim>\<open>acquire\<close> fails and its own cleanup succeeds,
  the host is back in its normal modes. When it succeeds, then whatever the adapter throws
  in whatever restorations and whatever modes the session switches on in between, as soon as
  one \<^verbatim>\<open>restore\<close> returns without an error the host has left the raw mode, the alternate
  screen and the remote modes; and a restoration in which the adapter does not throw
  always gets there.
\<close>

theorem host_terminal_restored:
  assumes "lease_acquire_terminal a h = (r, h1)" and "\<not> ht_alternate h"
  shows "case r of
     Acquired l \<Rightarrow> \<forall>l2 h2. lease_use\<^sup>*\<^sup>* (l, h1) (l2, h2) \<longrightarrow>
       (\<forall>b l3 h3. lease_restore b l2 h2 = (0, l3, h3) \<longrightarrow> \<not> ht_raw h3 \<and> \<not> ht_alternate h3 \<and> \<not> ht_remoteModes h3) \<and>
       (\<forall>b. ar_disableRemoteModes b = Done \<longrightarrow> ar_leaveAlternateScreen b = Done \<longrightarrow> ar_leaveRawMode b = Done \<longrightarrow>
          fst (lease_restore b l2 h2) = 0)
   | Acquire_threw \<Rightarrow> \<not> ht_raw h1 \<and> \<not> ht_alternate h1 \<and> \<not> ht_remoteModes h1
   | Acquire_and_cleanup_threw n \<Rightarrow> 0 < n"
  using acquire_result [OF assms]
proof (elim disjE exE conjE)
  fix l assume r: "r = Acquired l" and c: "lease_covers (l, h1)"
  have "\<not> ht_raw h3 \<and> \<not> ht_alternate h3 \<and> \<not> ht_remoteModes h3"
    if "lease_use\<^sup>*\<^sup>* (l, h1) (l2, h2)" "lease_restore b l2 h2 = (0, l3, h3)" for l2 h2 b l3 h3
  proof -
    have c2: "lease_covers (l2, h2)" using host_lease.steps_inv [OF that(1) c] .
    show ?thesis
    proof (cases "tl_restored l2")
      case True
      with that(2) c2 show ?thesis by (simp add: lease_restore_def lease_covers_def)
    next
      case False
      from acquire_cleanup [OF c2 this that(2)] show ?thesis .
    qed
  qed
  then show ?thesis using r restore_without_faults by fastforce
next
  fix l h' l' assume "r = Acquire_threw" "lease_covers (l, h')" "\<not> tl_restored l" "lease_restore a l h' = (0, l', h1)"
  with acquire_cleanup [of l h' a l' h1] show ?thesis by simp
qed simp

definition sample_run :: "adapter_outcome \<Rightarrow> adapter_run" where
  "sample_run out = \<lparr>ar_enterRawMode = Done, ar_enterAlternateScreen = out, ar_disableRemoteModes = Done, ar_leaveAlternateScreen = Done,
     ar_leaveRawMode = Done\<rparr>"

definition sample_lease :: terminal_lease where
  "sample_lease = \<lparr>tl_raw = True, tl_alternate = True, tl_restored = False\<rparr>"

definition sample_host :: host_terminal where
  "sample_host = \<lparr>ht_raw = True, ht_alternate = True, ht_remoteModes = True\<rparr>"

definition sample_given_back :: host_terminal where
  "sample_given_back = \<lparr>ht_raw = False, ht_alternate = False, ht_remoteModes = False\<rparr>"

lemma sample_acquire:
  "lease_acquire_terminal (sample_run Done) (sample_given_back\<lparr>ht_remoteModes := True\<rparr>) = (Acquired sample_lease, sample_host)"
  "\<not> ht_alternate (sample_given_back\<lparr>ht_remoteModes := True\<rparr>)"
  "lease_restore (sample_run Done) sample_lease sample_host =
     (0, \<lparr>tl_raw = False, tl_alternate = False, tl_restored = True\<rparr>, sample_given_back)"
  by code_simp+

theorem host_terminal_restored_witness:
  "\<not> ht_raw sample_given_back \<and> \<not> ht_alternate sample_given_back \<and> \<not> ht_remoteModes sample_given_back"
  using host_terminal_restored [OF sample_acquire(1,2)] sample_acquire(3) by fastforce

end
