(* ===== verification/Intent_Journal.thy ===== *)
theory Intent_Journal
  imports Json Lease
begin

text \<open>
  The durable intent journal of the daemon, \<^verbatim>\<open>src/daemon/journal.ts\<close>. A journal object is
  its storage and the document it holds; the storage is an interface of the source
  (\<^verbatim>\<open>JournalStorage\<close>) and so an argument of the operations: \<open>save\<close> gives the error it
  threw, if any, and the storage afterwards. Both implementations of the source are
  modelled, \<^verbatim>\<open>MemoryJournalStorage\<close> and \<^verbatim>\<open>AtomicFileJournalStorage\<close>; in the latter the
  faults of the file system are an argument. \<open>sha\<close> is the SHA-256 of the runtime's
  crypto library, in hexadecimal. The locale \<open>journal_storage\<close> states what the journal
  relies on in a storage.

  A document is typed here as the source types it; \<open>validateDocument\<close> keeps the checks
  that the types do not already give.
\<close>

section \<open>Data\<close>

datatype intent_state = I_recorded | I_dispatched | I_uncertain | I_committed | I_rejected

record intent_record =
  ir_intentId :: string
  ir_operation :: string
  ir_payloadDigest :: string
  ir_resourceId :: string
  ir_fenceGeneration :: int
  ir_state :: intent_state
  ir_recordedAt :: int
  ir_updatedAt :: int
  ir_dispositionReference :: "string option"

record journal_document =
  jd_schemaVersion :: int
  jd_minimumReaderVersion :: int
  jd_journalId :: string
  jd_revision :: int
  jd_entries :: "intent_record list"
  jd_checksum :: string

text \<open>The codes of \<^verbatim>\<open>JournalError\<close>; \<open>Node_error\<close> is an error of the file system that \<^verbatim>\<open>save\<close> lets through.\<close>

datatype journal_error =
  Node_error string
  | Journal_corrupt | Journal_incompatible | Journal_full | Intent_conflict | Invalid_transition | Unsafe_path

definition max_journal_entries :: nat where "max_journal_entries = 4096"
definition max_journal_file_bytes :: nat where "max_journal_file_bytes = 8 * 1024 * 1024"

fun intent_state_text :: "intent_state \<Rightarrow> string" where
  "intent_state_text I_recorded = ''recorded''"
| "intent_state_text I_dispatched = ''dispatched''"
| "intent_state_text I_uncertain = ''uncertain''"
| "intent_state_text I_committed = ''committed''"
| "intent_state_text I_rejected = ''rejected''"

definition intent_json :: "intent_record \<Rightarrow> json" where
  "intent_json e = JObj ([
     (''intentId'', JStr (ir_intentId e)), (''operation'', JStr (ir_operation e)),
     (''payloadDigest'', JStr (ir_payloadDigest e)), (''resourceId'', JStr (ir_resourceId e)),
     (''fenceGeneration'', JNum (JInt (ir_fenceGeneration e))),
     (''state'', JStr (intent_state_text (ir_state e))),
     (''recordedAt'', JNum (JInt (ir_recordedAt e))), (''updatedAt'', JNum (JInt (ir_updatedAt e)))]
     @ (case ir_dispositionReference e of None \<Rightarrow> [] | Some r \<Rightarrow> [(''dispositionReference'', JStr r)]))"

definition journal_content_json :: "string \<Rightarrow> int \<Rightarrow> intent_record list \<Rightarrow> (string \<times> json) list" where
  "journal_content_json journalId revision entries =
     [(''schemaVersion'', JNum (JInt 1)), (''minimumReaderVersion'', JNum (JInt 1)),
      (''journalId'', JStr journalId), (''revision'', JNum (JInt revision)),
      (''entries'', JArr (map intent_json entries))]"

definition journal_checksum :: "(string \<Rightarrow> string) \<Rightarrow> string \<Rightarrow> int \<Rightarrow> intent_record list \<Rightarrow> string" where
  "journal_checksum sha journalId revision entries =
     ''sha256:'' @ sha (json_stringify (JObj (journal_content_json journalId revision entries)))"

definition withChecksum :: "(string \<Rightarrow> string) \<Rightarrow> string \<Rightarrow> int \<Rightarrow> intent_record list \<Rightarrow> journal_document" where
  "withChecksum sha journalId revision entries =
     \<lparr>jd_schemaVersion = 1, jd_minimumReaderVersion = 1, jd_journalId = journalId, jd_revision = revision,
      jd_entries = entries, jd_checksum = journal_checksum sha journalId revision entries\<rparr>"

definition document_text :: "journal_document \<Rightarrow> string" where
  "document_text d = json_stringify (JObj (journal_content_json (jd_journalId d) (jd_revision d) (jd_entries d)
     @ [(''checksum'', JStr (jd_checksum d))]))"

section \<open>Validation\<close>

fun validate_entries :: "string set \<Rightarrow> intent_record list \<Rightarrow> journal_error + unit" where
  "validate_entries identifiers [] = Inr ()"
| "validate_entries identifiers (e # es) =
     (if \<not> is_safe_integer (ir_fenceGeneration e) then Inl Journal_corrupt
      else if ir_intentId e \<in> identifiers then Inl Journal_corrupt
      else validate_entries (insert (ir_intentId e) identifiers) es)"

definition validateDocument :: "(string \<Rightarrow> string) \<Rightarrow> journal_document \<Rightarrow> journal_error + unit" where
  "validateDocument sha d =
     (if jd_schemaVersion d \<noteq> 1 \<or> jd_minimumReaderVersion d \<noteq> 1 then Inl Journal_incompatible
      else if \<not> is_safe_integer (jd_revision d) \<or> jd_revision d < 0
              \<or> length (jd_entries d) > max_journal_entries then Inl Journal_corrupt
      else case validate_entries {} (jd_entries d) of
        Inl e \<Rightarrow> Inl e
      | Inr _ \<Rightarrow>
          if jd_checksum d \<noteq> journal_checksum sha (jd_journalId d) (jd_revision d) (jd_entries d)
          then Inl Journal_corrupt else Inr ())"

section \<open>The journal\<close>

record 'st intent_journal =
  ij_storage :: 'st
  ij_document :: journal_document

type_synonym 'st journal_save = "journal_document \<Rightarrow> 'st \<Rightarrow> journal_error option \<times> 'st"
type_synonym 'st journal_load = "'st \<Rightarrow> journal_error + journal_document option"

definition journal_open ::
  "(string \<Rightarrow> string) \<Rightarrow> 'st journal_load \<Rightarrow> 'st \<Rightarrow> string \<Rightarrow> journal_error + 'st intent_journal" where
  "journal_open sha load st journalId =
     (case load st of
        Inl e \<Rightarrow> Inl e
      | Inr (Some loaded) \<Rightarrow>
          (case validateDocument sha loaded of
             Inl e \<Rightarrow> Inl e | Inr _ \<Rightarrow> Inr \<lparr>ij_storage = st, ij_document = loaded\<rparr>)
      | Inr None \<Rightarrow>
          if \<not> valid_identifier journalId then Inl Intent_conflict
          else Inr \<lparr>ij_storage = st, ij_document = withChecksum sha journalId 0 []\<rparr>)"

definition recoveryQueue :: "'st intent_journal \<Rightarrow> intent_record list" where
  "recoveryQueue j = filter (\<lambda>e. ir_state e = I_recorded \<or> ir_state e = I_dispatched \<or> ir_state e = I_uncertain)
     (jd_entries (ij_document j))"

definition find_intent :: "intent_record list \<Rightarrow> string \<Rightarrow> intent_record option" where
  "find_intent es i = find (\<lambda>e. ir_intentId e = i) es"

definition journal_require :: "'st intent_journal \<Rightarrow> string \<Rightarrow> journal_error + intent_record" where
  "journal_require j intentId =
     (case find_intent (jd_entries (ij_document j)) intentId of
        None \<Rightarrow> Inl Invalid_transition | Some r \<Rightarrow> Inr r)"

definition journal_persist ::
  "(string \<Rightarrow> string) \<Rightarrow> 'st journal_save \<Rightarrow> 'st intent_journal \<Rightarrow> intent_record list
   \<Rightarrow> journal_error option \<times> 'st intent_journal" where
  "journal_persist sha save j entries =
     (let next = withChecksum sha (jd_journalId (ij_document j)) (jd_revision (ij_document j) + 1) entries
      in case save next (ij_storage j) of
           (Some e, st') \<Rightarrow> (Some e, j\<lparr>ij_storage := st'\<rparr>)
         | (None, st') \<Rightarrow> (None, j\<lparr>ij_storage := st', ij_document := next\<rparr>))"

record intent_input =
  in_intentId :: string
  in_operation :: string
  in_payloadDigest :: string
  in_fence :: fence_token
  in_now :: int

definition same_intent :: "intent_record \<Rightarrow> intent_input \<Rightarrow> bool" where
  "same_intent e i \<longleftrightarrow> ir_operation e = in_operation i \<and> ir_payloadDigest e = in_payloadDigest i \<and>
     ir_resourceId e = ft_resourceId (in_fence i) \<and> ir_fenceGeneration e = ft_generation (in_fence i)"

definition new_intent :: "intent_input \<Rightarrow> intent_record" where
  "new_intent i = \<lparr>ir_intentId = in_intentId i, ir_operation = in_operation i,
     ir_payloadDigest = in_payloadDigest i, ir_resourceId = ft_resourceId (in_fence i),
     ir_fenceGeneration = ft_generation (in_fence i), ir_state = I_recorded,
     ir_recordedAt = in_now i, ir_updatedAt = in_now i, ir_dispositionReference = None\<rparr>"

definition recordIntent ::
  "(string \<Rightarrow> string) \<Rightarrow> 'st journal_save \<Rightarrow> 'st intent_journal \<Rightarrow> intent_input
   \<Rightarrow> (journal_error + intent_record) \<times> 'st intent_journal" where
  "recordIntent sha save j i =
     (if \<not> valid_identifier (in_intentId i) \<or> \<not> valid_identifier (in_operation i)
         \<or> \<not> is_sha256_digest (in_payloadDigest i)
      then (Inl Intent_conflict, j)
      else case find_intent (jd_entries (ij_document j)) (in_intentId i) of
        Some existing \<Rightarrow> if \<not> same_intent existing i then (Inl Intent_conflict, j) else (Inr existing, j)
      | None \<Rightarrow>
          if length (jd_entries (ij_document j)) \<ge> max_journal_entries then (Inl Journal_full, j)
          else case journal_persist sha save j (jd_entries (ij_document j) @ [new_intent i]) of
            (Some e, j') \<Rightarrow> (Inl e, j')
          | (None, j') \<Rightarrow> (journal_require j' (in_intentId i), j'))"

definition intent_transition ::
  "(string \<Rightarrow> string) \<Rightarrow> 'st journal_save \<Rightarrow> 'st intent_journal \<Rightarrow> string \<Rightarrow> intent_state list \<Rightarrow> intent_state
   \<Rightarrow> int \<Rightarrow> string option \<Rightarrow> (journal_error + intent_record) \<times> 'st intent_journal" where
  "intent_transition sha save j intentId allowed state now dispositionReference =
     (case journal_require j intentId of
        Inl e \<Rightarrow> (Inl e, j)
      | Inr current \<Rightarrow>
          if ir_state current \<notin> set allowed
          then (if ir_state current = state \<and> ir_dispositionReference current = dispositionReference
                then (Inr current, j) else (Inl Invalid_transition, j))
          else let next = current\<lparr>ir_state := state, ir_updatedAt := now,
                     ir_dispositionReference := (case dispositionReference of
                        None \<Rightarrow> ir_dispositionReference current | r \<Rightarrow> r)\<rparr>
               in case journal_persist sha save j
                       (map (\<lambda>e. if ir_intentId e = intentId then next else e) (jd_entries (ij_document j))) of
                    (Some e, j') \<Rightarrow> (Inl e, j')
                  | (None, j') \<Rightarrow> (journal_require j' intentId, j'))"

definition markDispatched ::
  "(string \<Rightarrow> string) \<Rightarrow> 'st journal_save \<Rightarrow> 'st intent_journal \<Rightarrow> string \<Rightarrow> int
   \<Rightarrow> (journal_error + intent_record) \<times> 'st intent_journal" where
  "markDispatched sha save j intentId now = intent_transition sha save j intentId [I_recorded] I_dispatched now None"

definition markUncertain ::
  "(string \<Rightarrow> string) \<Rightarrow> 'st journal_save \<Rightarrow> 'st intent_journal \<Rightarrow> string \<Rightarrow> int
   \<Rightarrow> (journal_error + intent_record) \<times> 'st intent_journal" where
  "markUncertain sha save j intentId now =
     intent_transition sha save j intentId [I_recorded, I_dispatched] I_uncertain now None"

definition recordDisposition ::
  "(string \<Rightarrow> string) \<Rightarrow> 'st journal_save \<Rightarrow> 'st intent_journal \<Rightarrow> string \<Rightarrow> bool \<Rightarrow> string \<Rightarrow> int
   \<Rightarrow> (journal_error + intent_record) \<times> 'st intent_journal" where
  "recordDisposition sha save j intentId committed reference now =
     (if \<not> valid_identifier reference then (Inl Intent_conflict, j)
      else intent_transition sha save j intentId [I_recorded, I_dispatched, I_uncertain]
             (if committed then I_committed else I_rejected) now (Some reference))"

section \<open>Storages\<close>

type_synonym memory_storage = "journal_document option"

definition memory_load :: "memory_storage journal_load" where
  "memory_load st = Inr st"

definition memory_save :: "memory_storage journal_save" where
  "memory_save d st = (None, Some d)"

text \<open>
  \<^verbatim>\<open>AtomicFileJournalStorage\<close>: the state is the document in the file, \<open>None\<close> for no
  file. A fault of the file system can strike before the size is checked (directory or
  existing file unsafe), before the rename (temporary file), or after it (the fsync of
  the directory, outside Windows).
\<close>

datatype file_fault = No_fault | Path_fault journal_error | Write_fault journal_error | Sync_fault journal_error

definition file_load :: "(string \<Rightarrow> string) \<Rightarrow> memory_storage journal_load" where
  "file_load sha st =
     (case st of
        None \<Rightarrow> Inr None
      | Some d \<Rightarrow>
          if utf8_length (document_text d) > max_journal_file_bytes then Inl Journal_corrupt
          else case validateDocument sha d of Inl e \<Rightarrow> Inl e | Inr _ \<Rightarrow> Inr (Some d))"

definition file_save :: "(string \<Rightarrow> string) \<Rightarrow> file_fault \<Rightarrow> memory_storage journal_save" where
  "file_save sha fault d st =
     (case validateDocument sha d of
        Inl e \<Rightarrow> (Some e, st)
      | Inr _ \<Rightarrow>
          (case fault of
             Path_fault e \<Rightarrow> (Some e, st)
           | _ \<Rightarrow>
             if utf8_length (document_text d) > max_journal_file_bytes then (Some Journal_full, st)
             else (case fault of
                     Write_fault e \<Rightarrow> (Some e, st)
                   | Sync_fault e \<Rightarrow> (Some e, Some d)
                   | _ \<Rightarrow> (None, Some d))))"

section \<open>The storage interface\<close>

locale journal_storage =
  fixes load :: "'st journal_load" and save :: "'st journal_save"
  assumes save_ok: "save d st = (None, st') \<Longrightarrow> load st' = Inr (Some d)"
    and save_failed: "save d st = (Some e, st') \<Longrightarrow> load st' = load st \<or> load st' = Inr (Some d)"
begin

lemma persist_durable:
  "journal_persist sha save j es = (None, j') \<Longrightarrow> load (ij_storage j') = Inr (Some (ij_document j'))"
  by (auto simp: journal_persist_def Let_def save_ok split: prod.splits option.splits)

lemma persist_failure:
  "journal_persist sha save j es = (Some e, j') \<Longrightarrow>
     ij_document j' = ij_document j \<and>
     (load (ij_storage j') = load (ij_storage j) \<or>
      load (ij_storage j') = Inr (Some (withChecksum sha (jd_journalId (ij_document j)) (jd_revision (ij_document j) + 1) es)))"
  by (auto simp: journal_persist_def Let_def split: prod.splits option.splits dest: save_failed)

end

lemma file_load_saved:
  "file_save sha fault d st = (r, st') \<Longrightarrow> st' = st \<or> (st' = Some d \<and> file_load sha (Some d) = Inr (Some d))"
  by (auto simp: file_save_def file_load_def split: sum.splits if_splits file_fault.splits)

lemma file_save_NoneD: "file_save sha fault d st = (None, st') \<Longrightarrow> st' = Some d \<and> file_load sha (Some d) = Inr (Some d)"
  by (auto simp: file_save_def file_load_def split: sum.splits if_splits file_fault.splits)

interpretation memory: journal_storage memory_load memory_save
  by unfold_locales (auto simp: memory_load_def memory_save_def)

interpretation atomic_file: journal_storage "file_load sha" "file_save sha fault" for sha fault
  by unfold_locales (auto dest: file_load_saved file_save_NoneD)

section \<open>What the operations do to the document\<close>

text \<open>
  Every operation that changes the document replaces its entries by an extension with a
  fresh intent or by an update of one intent along the allowed transitions.
\<close>

fun intent_rank :: "intent_state \<Rightarrow> int" where
  "intent_rank I_recorded = 1"
| "intent_rank I_dispatched = 2"
| "intent_rank I_uncertain = 3"
| "intent_rank I_committed = 4"
| "intent_rank I_rejected = 4"

definition intent_final :: "intent_record \<Rightarrow> bool" where
  "intent_final e \<longleftrightarrow> ir_state e = I_committed \<or> ir_state e = I_rejected"

definition same_binding :: "intent_record \<Rightarrow> intent_record \<Rightarrow> bool" where
  "same_binding a b \<longleftrightarrow> ir_intentId a = ir_intentId b \<and> ir_operation a = ir_operation b \<and>
     ir_payloadDigest a = ir_payloadDigest b \<and> ir_resourceId a = ir_resourceId b \<and>
     ir_fenceGeneration a = ir_fenceGeneration b \<and> ir_recordedAt a = ir_recordedAt b"

definition entry_le :: "intent_record \<Rightarrow> intent_record \<Rightarrow> bool" where
  "entry_le a b \<longleftrightarrow> same_binding a b \<and> intent_rank (ir_state a) \<le> intent_rank (ir_state b) \<and>
     (intent_final a \<longrightarrow> b = a)"

inductive entries_step :: "intent_record list \<Rightarrow> intent_record list \<Rightarrow> bool" where
  extend: "ir_intentId e \<notin> ir_intentId ` set es \<Longrightarrow> length es < max_journal_entries \<Longrightarrow>
     is_safe_integer (ir_fenceGeneration e) \<Longrightarrow> ir_state e = I_recorded \<Longrightarrow> entries_step es (es @ [e])"
| change: "c \<in> set es \<Longrightarrow> same_binding c n \<Longrightarrow> intent_rank (ir_state c) < intent_rank (ir_state n) \<Longrightarrow>
     \<not> intent_final c \<Longrightarrow> entries_step es (map (\<lambda>e. if ir_intentId e = ir_intentId c then n else e) es)"

inductive intent_step :: "(string \<Rightarrow> string) \<Rightarrow> 'st journal_save \<Rightarrow> 'st intent_journal \<Rightarrow> 'st intent_journal \<Rightarrow> bool"
  for sha save where
  recorded: "is_safe_integer (ft_generation (in_fence i)) \<Longrightarrow> recordIntent sha save j i = (r, j') \<Longrightarrow> intent_step sha save j j'"
| dispatched: "markDispatched sha save j i now = (r, j') \<Longrightarrow> intent_step sha save j j'"
| uncertain: "markUncertain sha save j i now = (r, j') \<Longrightarrow> intent_step sha save j j'"
| disposition: "recordDisposition sha save j i c ref now = (r, j') \<Longrightarrow> intent_step sha save j j'"

lemma find_intent_Some: "find_intent es i = Some e \<Longrightarrow> e \<in> set es \<and> ir_intentId e = i"
  by (auto simp: find_intent_def find_Some_iff)

lemma find_intent_None: "find_intent es i = None \<longleftrightarrow> i \<notin> ir_intentId ` set es"
  by (auto simp: find_intent_def find_None_iff)

lemma journal_require_Inr:
  "journal_require j i = Inr c \<Longrightarrow> c \<in> set (jd_entries (ij_document j)) \<and> ir_intentId c = i"
  by (auto simp: journal_require_def split: option.splits dest: find_intent_Some)

lemma intent_transition_persists:
  assumes "intent_transition sha save j i allowed st now ref = (r, j')"
    and "\<forall>a \<in> set allowed. intent_rank a < intent_rank st \<and> intent_rank a < 4"
  shows "j' = j \<or> (\<exists>es res. entries_step (jd_entries (ij_document j)) es \<and> journal_persist sha save j es = (res, j'))"
proof (cases "journal_require j i")
  case (Inl e)
  then show ?thesis using assms(1) by (simp add: intent_transition_def)
next
  case (Inr c)
  show ?thesis
  proof (cases "ir_state c \<in> set allowed")
    case False
    with Inr assms(1) show ?thesis by (auto simp: intent_transition_def split: if_splits)
  next
    case True
    let ?n = "c\<lparr>ir_state := st, ir_updatedAt := now,
                ir_dispositionReference := (case ref of None \<Rightarrow> ir_dispositionReference c | r \<Rightarrow> r)\<rparr>"
    let ?es = "map (\<lambda>e. if ir_intentId e = i then ?n else e) (jd_entries (ij_document j))"
    have c: "c \<in> set (jd_entries (ij_document j))" "ir_intentId c = i"
      using journal_require_Inr [OF Inr] by auto
    have "intent_rank (ir_state c) < intent_rank st" "intent_rank (ir_state c) < 4"
      using assms(2) True by auto
    then have "entries_step (jd_entries (ij_document j)) ?es"
      using entries_step.change [OF c(1), of ?n] c(2)
      by (cases "ir_state c") (simp_all add: same_binding_def intent_final_def)
    moreover have "\<exists>res. journal_persist sha save j ?es = (res, j')"
      using assms(1) Inr True
      by (auto simp: intent_transition_def Let_def split: prod.splits option.splits)
    ultimately show ?thesis by blast
  qed
qed

lemma recordIntent_persists:
  assumes "recordIntent sha save j i = (r, j')" and "is_safe_integer (ft_generation (in_fence i))"
  shows "j' = j \<or> (\<exists>es res. entries_step (jd_entries (ij_document j)) es \<and> journal_persist sha save j es = (res, j'))"
proof (cases "\<exists>res. journal_persist sha save j (jd_entries (ij_document j) @ [new_intent i]) = (res, j') \<and>
    find_intent (jd_entries (ij_document j)) (in_intentId i) = None \<and>
    length (jd_entries (ij_document j)) < max_journal_entries")
  case True
  then show ?thesis
    using entries_step.extend [of "new_intent i" "jd_entries (ij_document j)"] assms(2)
    by (auto simp: new_intent_def find_intent_None)
next
  case False
  with assms(1) show ?thesis
    by (auto simp: recordIntent_def split: if_splits option.splits prod.splits)
qed

lemma intent_step_persists:
  assumes "intent_step sha save j j'"
  shows "j' = j \<or> (\<exists>es res. entries_step (jd_entries (ij_document j)) es \<and> journal_persist sha save j es = (res, j'))"
  using assms
proof cases
  case (recorded i r)
  then show ?thesis by (auto dest: recordIntent_persists)
next
  case (dispatched i now r)
  then show ?thesis unfolding markDispatched_def by (rule intent_transition_persists) simp
next
  case (uncertain i now r)
  then show ?thesis unfolding markUncertain_def by (rule intent_transition_persists) simp
next
  case (disposition i c ref now r)
  show ?thesis
  proof (cases "valid_identifier ref")
    case True
    with disposition have "intent_transition sha save j i [I_recorded, I_dispatched, I_uncertain]
        (if c then I_committed else I_rejected) now (Some ref) = (r, j')"
      by (simp add: recordDisposition_def)
    then show ?thesis by (rule intent_transition_persists) simp
  qed (use disposition in \<open>simp add: recordDisposition_def\<close>)
qed

lemma entry_le_refl [simp]: "entry_le e e"
  by (simp add: entry_le_def same_binding_def)

lemma entry_le_trans: "entry_le a b \<Longrightarrow> entry_le b c \<Longrightarrow> entry_le a c"
  by (auto simp: entry_le_def same_binding_def)

definition entries_le :: "intent_record list \<Rightarrow> intent_record list \<Rightarrow> bool" where
  "entries_le es es' \<longleftrightarrow> (\<forall>e \<in> set es. \<exists>e' \<in> set es'. entry_le e e')"

lemma entries_le_subset: "set es \<subseteq> set es' \<Longrightarrow> entries_le es es'"
  unfolding entries_le_def using entry_le_refl by blast

lemma entries_le_refl [simp]: "entries_le es es"
  by (rule entries_le_subset) simp

lemma entries_le_trans: "entries_le a b \<Longrightarrow> entries_le b c \<Longrightarrow> entries_le a c"
  unfolding entries_le_def using entry_le_trans by blast

definition entries_ok :: "intent_record list \<Rightarrow> bool" where
  "entries_ok es \<longleftrightarrow> distinct (map ir_intentId es) \<and> length es \<le> max_journal_entries \<and>
     (\<forall>e \<in> set es. is_safe_integer (ir_fenceGeneration e))"

lemma distinct_ids_eq:
  "distinct (map ir_intentId es) \<Longrightarrow> a \<in> set es \<Longrightarrow> b \<in> set es \<Longrightarrow> ir_intentId a = ir_intentId b \<Longrightarrow> a = b"
  by (simp add: distinct_map inj_on_def)

lemma entries_step_le:
  assumes "entries_step es es'" and "entries_ok es"
  shows "entries_le es es'"
  using assms(1)
proof cases
  case (change c n)
  have "\<exists>e' \<in> set es'. entry_le e e'" if "e \<in> set es" for e
  proof (cases "ir_intentId e = ir_intentId c")
    case True
    then have "e = c" using that change(2) assms(2) by (auto simp: entries_ok_def intro: distinct_ids_eq)
    moreover have "n \<in> set es'" using change by force
    ultimately show ?thesis using change by (auto simp: entry_le_def)
  next
    case False
    then have "e \<in> set es'" using that change by force
    then show ?thesis using entry_le_refl by blast
  qed
  then show ?thesis by (simp add: entries_le_def)
next
  case (extend e)
  then show ?thesis by (auto intro: entries_le_subset)
qed

lemma entries_step_ok:
  assumes "entries_step es es'" and "entries_ok es"
  shows "entries_ok es'"
  using assms
proof (induction rule: entries_step.induct)
  case (change c es n)
  have "map ir_intentId (map (\<lambda>e. if ir_intentId e = ir_intentId c then n else e) es) = map ir_intentId es"
    using change(2) by (auto simp: same_binding_def)
  then have "distinct (map ir_intentId (map (\<lambda>e. if ir_intentId e = ir_intentId c then n else e) es))"
    using change by (simp only: entries_ok_def)
  moreover have "is_safe_integer (ir_fenceGeneration n)"
    using change by (auto simp: same_binding_def entries_ok_def)
  ultimately show ?case using change by (auto simp: entries_ok_def simp del: map_map)
qed (auto simp: entries_ok_def)

text \<open>Each change raises the sum of the ranks, which bounds the revision.\<close>

definition rank_sum :: "intent_record list \<Rightarrow> int" where
  "rank_sum es = sum_list (map (\<lambda>e. intent_rank (ir_state e)) es)"

lemma rank_sum_change:
  assumes "\<forall>e \<in> set es. ir_intentId e = i \<longrightarrow> e = c"
    and "intent_rank (ir_state c) < intent_rank (ir_state n)"
  shows "rank_sum es \<le> rank_sum (map (\<lambda>e. if ir_intentId e = i then n else e) es) \<and>
    (i \<in> ir_intentId ` set es \<longrightarrow> rank_sum es < rank_sum (map (\<lambda>e. if ir_intentId e = i then n else e) es))"
  using assms by (induction es) (auto simp: rank_sum_def)

lemma entries_step_rank:
  assumes "entries_step es es'" and "entries_ok es"
  shows "rank_sum es + 1 \<le> rank_sum es'"
  using assms(1)
proof cases
  case (extend e)
  then show ?thesis by (simp add: rank_sum_def)
next
  case (change c n)
  have "\<forall>e \<in> set es. ir_intentId e = ir_intentId c \<longrightarrow> e = c"
    using change(2) assms(2) by (auto simp: entries_ok_def intro: distinct_ids_eq)
  from rank_sum_change [OF this change(4)] change(1,2) show ?thesis by auto
qed

lemma intent_rank_bounds: "1 \<le> intent_rank s" "intent_rank s \<le> 4"
  by (cases s; simp)+

lemma rank_sum_bound: "rank_sum es \<le> 4 * int (length es)"
proof (induction es)
  case (Cons e es)
  then show ?case using intent_rank_bounds(2) [of "ir_state e"] by (simp add: rank_sum_def)
qed (simp add: rank_sum_def)

definition document_inv :: "(string \<Rightarrow> string) \<Rightarrow> journal_document \<Rightarrow> bool" where
  "document_inv sha d \<longleftrightarrow> entries_ok (jd_entries d) \<and> 0 \<le> jd_revision d \<and> jd_revision d \<le> rank_sum (jd_entries d) \<and>
     d = withChecksum sha (jd_journalId d) (jd_revision d) (jd_entries d)"

lemma document_inv_step:
  "document_inv sha d \<Longrightarrow> entries_step (jd_entries d) es \<Longrightarrow>
     document_inv sha (withChecksum sha (jd_journalId d) (jd_revision d + 1) es)"
  using entries_step_rank [of "jd_entries d" es] entries_step_ok [of "jd_entries d" es]
  by (auto simp: document_inv_def withChecksum_def)

lemma validate_entries_ok:
  "distinct (map ir_intentId es) \<Longrightarrow> (\<forall>e \<in> set es. is_safe_integer (ir_fenceGeneration e)) \<Longrightarrow>
     ids \<inter> ir_intentId ` set es = {} \<Longrightarrow> validate_entries ids es = Inr ()"
  by (induction es arbitrary: ids) auto

lemma document_inv_valid:
  assumes "document_inv sha d"
  shows "validateDocument sha d = Inr ()"
proof -
  have "jd_schemaVersion d = 1" "jd_minimumReaderVersion d = 1"
    "jd_checksum d = journal_checksum sha (jd_journalId d) (jd_revision d) (jd_entries d)"
    using assms by (metis document_inv_def withChecksum_def journal_document.select_convs)+
  moreover have "jd_revision d \<le> 4 * 4096"
    using assms rank_sum_bound [of "jd_entries d"] by (auto simp: document_inv_def entries_ok_def max_journal_entries_def)
  moreover have "validate_entries {} (jd_entries d) = Inr ()"
    using assms by (auto simp: document_inv_def entries_ok_def intro: validate_entries_ok)
  ultimately show ?thesis
    using assms by (auto simp: validateDocument_def document_inv_def entries_ok_def is_safe_integer_def max_safe_integer_def)
qed

section \<open>The daemon's journal across faults and restarts\<close>

text \<open>
  The steps of a journal on an atomic file: an operation under any fault of the file
  system, or a crash followed by a new \<^verbatim>\<open>open\<close> of the same file.
\<close>

inductive file_step ::
  "(string \<Rightarrow> string) \<Rightarrow> memory_storage intent_journal \<Rightarrow> memory_storage intent_journal \<Rightarrow> bool" for sha where
  operation: "intent_step sha (file_save sha fault) j j' \<Longrightarrow> file_step sha j j'"
| restart: "journal_open sha (file_load sha) (ij_storage j) journalId = Inr j' \<Longrightarrow> file_step sha j j'"

definition file_fresh :: "(string \<Rightarrow> string) \<Rightarrow> memory_storage intent_journal \<Rightarrow> bool" where
  "file_fresh sha j \<longleftrightarrow> (\<exists>journalId. journal_open sha (file_load sha) None journalId = Inr j)"

definition stored_ok :: "(string \<Rightarrow> string) \<Rightarrow> journal_document \<Rightarrow> memory_storage \<Rightarrow> bool" where
  "stored_ok sha d st \<longleftrightarrow> (case st of None \<Rightarrow> jd_entries d = []
     | Some f \<Rightarrow> document_inv sha f \<and> file_load sha (Some f) = Inr (Some f) \<and>
                 entries_le (jd_entries d) (jd_entries f))"

definition file_inv :: "(string \<Rightarrow> string) \<Rightarrow> memory_storage intent_journal \<Rightarrow> bool" where
  "file_inv sha j \<longleftrightarrow> document_inv sha (ij_document j) \<and> stored_ok sha (ij_document j) (ij_storage j)"

lemma withChecksum_entries [simp]: "jd_entries (withChecksum sha i r es) = es"
  by (simp add: withChecksum_def)

lemma document_inv_empty: "document_inv sha (withChecksum sha journalId 0 [])"
  by (simp add: document_inv_def withChecksum_def entries_ok_def rank_sum_def)

lemma file_open_inv:
  assumes "journal_open sha (file_load sha) st journalId = Inr j"
  shows "(\<exists>d. st = Some d \<and> j = \<lparr>ij_storage = st, ij_document = d\<rparr>) \<or>
    (st = None \<and> j = \<lparr>ij_storage = None, ij_document = withChecksum sha journalId 0 []\<rparr>)"
  using assms by (auto simp: journal_open_def file_load_def split: option.splits sum.splits if_splits)

lemma file_persist_inv:
  assumes "file_inv sha j" and es: "entries_step (jd_entries (ij_document j)) es"
    and p: "journal_persist sha (file_save sha fault) j es = (res, j')"
  shows "file_inv sha j' \<and> entries_le (jd_entries (ij_document j)) (jd_entries (ij_document j'))"
proof -
  let ?next = "withChecksum sha (jd_journalId (ij_document j)) (jd_revision (ij_document j) + 1) es"
  have next_inv: "document_inv sha ?next" using assms(1) es by (simp add: file_inv_def document_inv_step)
  have le: "entries_le (jd_entries (ij_document j)) (jd_entries ?next)"
    using es assms(1) by (auto simp: file_inv_def document_inv_def withChecksum_def intro: entries_step_le)
  obtain r st' where s: "file_save sha fault ?next (ij_storage j) = (r, st')" by (cases "file_save sha fault ?next (ij_storage j)")
  note saved = file_load_saved [OF s]
  show ?thesis
  proof (cases r)
    case None
    with s p have "j' = j\<lparr>ij_storage := st', ij_document := ?next\<rparr>" by (simp add: journal_persist_def)
    with None file_save_NoneD [of sha fault ?next "ij_storage j" st'] s next_inv le show ?thesis
      by (simp add: file_inv_def stored_ok_def)
  next
    case (Some e)
    with s p have j': "j' = j\<lparr>ij_storage := st'\<rparr>" by (simp add: journal_persist_def)
    from saved have "stored_ok sha (ij_document j) st'"
      using assms(1) next_inv le by (auto simp: file_inv_def stored_ok_def)
    with j' assms(1) show ?thesis by (simp add: file_inv_def)
  qed
qed

lemma file_step_inv:
  assumes "file_inv sha j" and "file_step sha j j'"
  shows "file_inv sha j' \<and> entries_le (jd_entries (ij_document j)) (jd_entries (ij_document j'))"
  using assms(2)
proof cases
  case (operation fault)
  with intent_step_persists [of sha "file_save sha fault" j j'] assms(1) show ?thesis
    by (auto dest: file_persist_inv)
next
  case (restart journalId)
  with file_open_inv [OF restart] assms(1) show ?thesis
    by (auto simp: file_inv_def stored_ok_def document_inv_empty split: option.splits)
qed

interpretation file_journal: invariant_system "file_fresh sha" "file_step sha" "file_inv sha" for sha
proof unfold_locales
  show "file_inv sha j" if "file_fresh sha j" for j
    using that by (auto simp: file_fresh_def file_inv_def stored_ok_def document_inv_empty dest!: file_open_inv)
  show "file_inv sha j'" if "file_inv sha j" "file_step sha j j'" for j j'
    using that file_step_inv by blast
qed

lemma file_steps_le:
  assumes "(file_step sha)\<^sup>*\<^sup>* j j'" and "file_inv sha j"
  shows "entries_le (jd_entries (ij_document j)) (jd_entries (ij_document j'))"
  using assms
proof (induction rule: rtranclp_induct)
  case (step a b)
  then have "file_inv sha a" by (blast intro: file_journal.steps_inv)
  with step show ?case by (blast intro: entries_le_trans dest: file_step_inv)
qed simp

lemma file_reopen:
  assumes "file_inv sha j" and "valid_identifier journalId"
  shows "\<exists>j'. journal_open sha (file_load sha) (ij_storage j) journalId = Inr j' \<and>
     entries_le (jd_entries (ij_document j)) (jd_entries (ij_document j'))"
  using assms by (auto simp: file_inv_def stored_ok_def journal_open_def file_load_def [of sha None]
      document_inv_valid withChecksum_def split: option.splits)

lemma find_intent_unique:
  "entries_ok es \<Longrightarrow> e \<in> set es \<Longrightarrow> find_intent es (ir_intentId e) = Some e"
  by (metis entries_ok_def distinct_ids_eq find_intent_None find_intent_Some image_eqI not_None_eq)

section \<open>Properties\<close>

text \<open>
  C15. Crash safety of the intent journal: a journal opened on an absent file and driven
  through any operations, file-system faults, crashes and restarts can always be opened
  again, and every intent its document held is in the reopened document, with the same
  binding, at the same or a later stage, and unchanged if it was settled.
\<close>

theorem journal_crash_safe:
  assumes "file_fresh sha j0" and "(file_step sha)\<^sup>*\<^sup>* j0 j" and "valid_identifier journalId"
  shows "\<exists>j'. journal_open sha (file_load sha) (ij_storage j) journalId = Inr j' \<and>
     entries_le (jd_entries (ij_document j)) (jd_entries (ij_document j'))"
  using assms by (intro file_reopen file_journal.reachable_inv)

definition sample_sha :: "string \<Rightarrow> string" where "sample_sha s = ''00''"

definition sample_digest :: string where
  "sample_digest = ''sha256:0123456789abcdef0123456789abcdef0123456789abcdef0123456789abcdef''"

definition sample_intent :: intent_input where
  "sample_intent = \<lparr>in_intentId = ''i1'', in_operation = ''push'', in_payloadDigest = sample_digest,
     in_fence = \<lparr>ft_resourceId = ''r'', ft_ownerId = ''o'', ft_generation = 1\<rparr>, in_now = 5\<rparr>"

definition sample_fresh :: "memory_storage intent_journal" where
  "sample_fresh = \<lparr>ij_storage = None, ij_document = withChecksum sample_sha ''j'' 0 []\<rparr>"

definition sample_recorded :: "memory_storage intent_journal" where
  "sample_recorded = snd (recordIntent sample_sha (file_save sample_sha (Sync_fault (Node_error ''EIO''))) sample_fresh sample_intent)"

lemma sample_fresh_ok: "file_fresh sample_sha sample_fresh"
  unfolding file_fresh_def
  by (rule exI [of _ "''j''"]) (simp add: journal_open_def file_load_def sample_fresh_def js_defs)

lemma sample_recorded_step: "file_step sample_sha sample_fresh sample_recorded"
  by (rule file_step.operation [OF intent_step.recorded
        [of sample_intent sample_sha _ _ "fst (recordIntent sample_sha (file_save sample_sha (Sync_fault (Node_error ''EIO''))) sample_fresh sample_intent)"]])
    (simp_all add: sample_recorded_def sample_intent_def js_defs)

theorem journal_crash_safe_witness:
  "\<exists>j'. journal_open sample_sha (file_load sample_sha) (ij_storage sample_recorded) ''j'' = Inr j' \<and>
     entries_le (jd_entries (ij_document sample_recorded)) (jd_entries (ij_document j'))"
  by (rule journal_crash_safe [OF sample_fresh_ok r_into_rtranclp, OF sample_recorded_step]) (simp add: js_defs)

text \<open>
  Intents are never lost or reopened in memory either: from any reachable journal,
  every intent of the document stays in it through any further operations, faults and
  restarts; its binding is fixed, its stage never goes back, and a committed or rejected
  intent does not change any more. The revision stays within four times the number of
  entries and so is always a safe integer.
\<close>

theorem journal_monotone:
  assumes "file_fresh sha j0" and "(file_step sha)\<^sup>*\<^sup>* j0 j" and "(file_step sha)\<^sup>*\<^sup>* j j'"
    and "e \<in> set (jd_entries (ij_document j))"
  shows "(\<exists>e' \<in> set (jd_entries (ij_document j')). same_binding e e' \<and>
       intent_rank (ir_state e) \<le> intent_rank (ir_state e') \<and> (intent_final e \<longrightarrow> e' = e)) \<and>
     jd_revision (ij_document j') \<le> 4 * int (length (jd_entries (ij_document j')))"
proof -
  have inv: "file_inv sha j" "file_inv sha j'"
    using assms by (blast intro: file_journal.reachable_inv file_journal.steps_inv)+
  from file_steps_le [OF assms(3) inv(1)] assms(4)
  have "\<exists>e' \<in> set (jd_entries (ij_document j')). entry_le e e'" by (simp add: entries_le_def)
  moreover have "jd_revision (ij_document j') \<le> 4 * int (length (jd_entries (ij_document j')))"
    using inv(2) rank_sum_bound [of "jd_entries (ij_document j')"] by (simp add: file_inv_def document_inv_def)
  ultimately show ?thesis by (auto simp: entry_le_def)
qed

lemma file_save_fits:
  assumes "document_inv sha d" and "length (document_text d) < 1000"
  shows "file_save sha No_fault d st = (None, Some d)"
  using assms utf8_length_le [of "document_text d"]
  by (simp add: file_save_def document_inv_valid max_journal_file_bytes_def)

lemma persist_fits:
  assumes "document_inv sha (ij_document j)" and "entries_step (jd_entries (ij_document j)) es"
    and "d = withChecksum sha (jd_journalId (ij_document j)) (jd_revision (ij_document j) + 1) es"
    and "length (document_text d) < 1000"
  shows "journal_persist sha (file_save sha No_fault) j es = (None, \<lparr>ij_storage = Some d, ij_document = d\<rparr>)"
  using assms file_save_fits [of sha d "ij_storage j"] document_inv_step [of sha "ij_document j" es]
  by (cases j) (simp add: journal_persist_def Let_def)

definition sample_done :: intent_record where
  "sample_done = (new_intent sample_intent)\<lparr>ir_state := I_committed, ir_updatedAt := 9,
     ir_dispositionReference := Some ''ref''\<rparr>"

definition sample_stored :: "memory_storage intent_journal" where
  "sample_stored = (let d = withChecksum sample_sha ''j'' 1 [new_intent sample_intent]
     in \<lparr>ij_storage = Some d, ij_document = d\<rparr>)"

definition sample_settled :: "memory_storage intent_journal" where
  "sample_settled = (let d = withChecksum sample_sha ''j'' 2 [sample_done]
     in \<lparr>ij_storage = Some d, ij_document = d\<rparr>)"

lemma sample_lengths:
  "length (document_text (ij_document sample_stored)) < 1000"
  "length (document_text (ij_document sample_settled)) < 1000"
  by code_simp+

lemma sample_entries:
  "jd_entries (ij_document sample_stored) = [new_intent sample_intent]"
  "jd_entries (ij_document sample_settled) = [sample_done]"
  by (simp_all add: sample_stored_def sample_settled_def Let_def)

lemma sample_record:
  "recordIntent sample_sha (file_save sample_sha No_fault) sample_fresh sample_intent =
     (Inr (new_intent sample_intent), sample_stored)"
proof -
  have "entries_step [] ([] @ [new_intent sample_intent])"
    by (rule entries_step.extend) (simp_all add: new_intent_def sample_intent_def max_journal_entries_def js_defs)
  then have "journal_persist sample_sha (file_save sample_sha No_fault) sample_fresh [new_intent sample_intent] = (None, sample_stored)"
    using persist_fits [of sample_sha sample_fresh "[new_intent sample_intent]" "ij_document sample_stored"] sample_lengths(1)
    by (simp add: sample_fresh_def document_inv_empty sample_stored_def Let_def) (simp add: withChecksum_def)
  moreover have "journal_require sample_stored (in_intentId sample_intent) = Inr (new_intent sample_intent)"
    by (simp add: journal_require_def sample_entries find_intent_def) (simp add: new_intent_def)
  ultimately show ?thesis
    by (simp add: recordIntent_def)
       (simp add: sample_fresh_def find_intent_def max_journal_entries_def new_intent_def sample_intent_def
          sample_digest_def js_defs)
qed

lemma sample_stored_step: "file_step sample_sha sample_fresh sample_stored"
  by (rule file_step.operation [OF intent_step.recorded [OF _ sample_record]])
    (simp add: sample_intent_def js_defs)

lemma sample_stored_inv: "document_inv sample_sha (ij_document sample_stored)"
  using file_journal.steps_inv [OF r_into_rtranclp [of "file_step sample_sha", OF sample_stored_step]]
    file_journal.init_inv [OF sample_fresh_ok] by (simp add: file_inv_def)

lemma sample_disposition:
  "recordDisposition sample_sha (file_save sample_sha No_fault) sample_stored ''i1'' True ''ref'' 9 =
     (Inr sample_done, sample_settled)"
proof -
  have "entries_step [new_intent sample_intent]
      (map (\<lambda>e. if ir_intentId e = ir_intentId (new_intent sample_intent) then sample_done else e) [new_intent sample_intent])"
    by (rule entries_step.change) (simp_all add: sample_done_def same_binding_def new_intent_def intent_final_def)
  then have "journal_persist sample_sha (file_save sample_sha No_fault) sample_stored [sample_done] = (None, sample_settled)"
    using persist_fits [of sample_sha sample_stored "[sample_done]" "ij_document sample_settled", OF sample_stored_inv] sample_lengths(2)
    by (simp add: sample_entries) (simp add: sample_stored_def sample_settled_def withChecksum_def Let_def)
  moreover have "find_intent [new_intent sample_intent] ''i1'' = Some (new_intent sample_intent)"
    "find_intent [sample_done] ''i1'' = Some sample_done" "ir_intentId (new_intent sample_intent) = ''i1''"
    by (simp_all add: find_intent_def sample_done_def new_intent_def sample_intent_def)
  ultimately show ?thesis
    by (simp add: recordDisposition_def intent_transition_def journal_require_def sample_entries js_defs
        sample_done_def [symmetric]) (simp add: new_intent_def)
qed

lemma sample_settled_step: "file_step sample_sha sample_stored sample_settled"
  by (rule file_step.operation [OF intent_step.disposition [OF sample_disposition]])

lemmas sample_run = sample_fresh_ok
  r_into_rtranclp [of "file_step sample_sha", OF sample_stored_step]
  r_into_rtranclp [of "file_step sample_sha", OF sample_settled_step]

theorem journal_monotone_witness:
  "(\<exists>e' \<in> set (jd_entries (ij_document sample_settled)). same_binding (new_intent sample_intent) e' \<and>
       intent_rank (ir_state (new_intent sample_intent)) \<le> intent_rank (ir_state e') \<and>
       (intent_final (new_intent sample_intent) \<longrightarrow> e' = new_intent sample_intent)) \<and>
     jd_revision (ij_document sample_settled) \<le> 4 * int (length (jd_entries (ij_document sample_settled)))"
  by (rule journal_monotone [OF sample_run]) (simp add: sample_entries)

text \<open>
  Recording is idempotent: once an intent is in the journal, recording the same
  binding again at any later time, across faults and restarts, gives back the journal's
  record of it and changes nothing, and recording another binding under the same intent
  identifier is refused as a conflict.
\<close>

theorem journal_record_idempotent:
  assumes "file_fresh sha j0" and "(file_step sha)\<^sup>*\<^sup>* j0 j" and "(file_step sha)\<^sup>*\<^sup>* j j'"
    and "e \<in> set (jd_entries (ij_document j))" and "ir_intentId e = in_intentId i"
    and "valid_identifier (in_intentId i)" and "valid_identifier (in_operation i)"
    and "is_sha256_digest (in_payloadDigest i)"
  shows "\<exists>e'. same_binding e e' \<and> intent_rank (ir_state e) \<le> intent_rank (ir_state e') \<and>
     recordIntent sha save j' i = (if same_intent e i then Inr e' else Inl Intent_conflict, j')"
proof -
  have inv: "file_inv sha j" "file_inv sha j'"
    using assms by (blast intro: file_journal.reachable_inv file_journal.steps_inv)+
  from file_steps_le [OF assms(3) inv(1)] assms(4)
  obtain e' where e': "e' \<in> set (jd_entries (ij_document j'))" "entry_le e e'" by (auto simp: entries_le_def)
  from e'(2) have b: "same_binding e e'" "intent_rank (ir_state e) \<le> intent_rank (ir_state e')"
    by (auto simp: entry_le_def)
  have "find_intent (jd_entries (ij_document j')) (in_intentId i) = Some e'"
    using find_intent_unique [of "jd_entries (ij_document j')" e'] inv(2) e'(1) b(1) assms(5)
    by (simp add: file_inv_def document_inv_def same_binding_def)
  moreover have "same_intent e' i = same_intent e i" using b(1) by (simp add: same_binding_def same_intent_def)
  ultimately have "recordIntent sha save j' i = (if same_intent e i then Inr e' else Inl Intent_conflict, j')"
    using assms(6-8) by (simp add: recordIntent_def)
  with b show ?thesis by blast
qed

theorem journal_record_idempotent_witness:
  "\<exists>e'. same_binding (new_intent sample_intent) e' \<and>
     intent_rank (ir_state (new_intent sample_intent)) \<le> intent_rank (ir_state e') \<and>
     recordIntent sample_sha (file_save sample_sha No_fault) sample_settled sample_intent =
       (if same_intent (new_intent sample_intent) sample_intent then Inr e' else Inl Intent_conflict, sample_settled)"
  by (rule journal_record_idempotent [OF sample_run])
    (simp_all add: sample_entries new_intent_def sample_intent_def sample_digest_def js_defs)

end
