(* ===== verification/Attachment.thy ===== *)
theory Attachment
  imports Prelude Wire
begin

text \<open>
  The exclusive terminal attachment, \<^verbatim>\<open>src/terminal/resume.ts\<close>: one session of one agent
  process, attached to at most one client at a time, with a fencing generation, the
  record of accepted inputs and the replay window of outputs. \<^verbatim>\<open>bigint\<close> sequences and
  millisecond clock readings are integers; a reading of the clock is an argument;
  \<open>sha\<close> is the hexadecimal SHA-256 of the runtime's crypto library. An operation
  that can change the state before it throws returns the state next to its result.
\<close>

section \<open>Data\<close>

definition output_retention_ms :: int where "output_retention_ms = 30000"
definition max_replay_bytes :: int where "max_replay_bytes = 1024 * 1024"
definition max_replay_frames :: nat where "max_replay_frames = 4096"
definition max_tracked_inputs :: nat where "max_tracked_inputs = 4096"

record attachment_identity =
  ai_userId :: string
  ai_machineId :: string
  ai_agentSessionId :: string
  ai_processEpoch :: string

record attachment_grant =
  ag_identity :: attachment_identity
  ag_ownerClientId :: string
  ag_fencingGeneration :: int

record output_record =
  or_sequence :: int
  or_observedAt :: int
  or_payload :: "byte list"

datatype resume_classification = Resumed | Discontinuous | Resume_terminated

record resume_result =
  rr_attachmentRestored :: bool
  rr_processSurvived :: bool
  rr_outputContinuous :: bool
  rr_earliestSequence :: "int option"
  rr_fencingGeneration :: "int option"
  rr_frames :: "output_record list"
  rr_classification :: resume_classification

record input_acceptance =
  ia_clientSequence :: int
  ia_duplicate :: bool

datatype attachment_error =
  Attachment_conflict | Stale_attachment | Sequence_conflict | Sequence_regression
  | Process_discontinuity | Attachment_terminated | Oversize_output

datatype attachment_state = A_detached | A_attached | A_terminated

record attachment =
  at_identity :: attachment_identity
  at_state :: attachment_state
  at_owner :: "string option"
  at_generation :: int
  at_outputSequence :: int
  at_replayBytes :: int
  at_output :: "output_record list"
  at_inputs :: "(int, string) js_map"

section \<open>Operations\<close>

definition valid_attachment_identity :: "attachment_identity \<Rightarrow> bool" where
  "valid_attachment_identity i \<longleftrightarrow>
     list_all valid_identifier [ai_userId i, ai_machineId i, ai_agentSessionId i, ai_processEpoch i]"

definition attachment_new :: "attachment_identity \<Rightarrow> attachment_error + attachment" where
  "attachment_new identity =
     (if \<not> valid_attachment_identity identity then Inl Process_discontinuity
      else Inr \<lparr>at_identity = identity, at_state = A_detached, at_owner = None, at_generation = 0,
                at_outputSequence = 0, at_replayBytes = 0, at_output = [], at_inputs = []\<rparr>)"

definition attachment_grant_of :: "attachment \<Rightarrow> string \<Rightarrow> attachment_grant" where
  "attachment_grant_of s owner =
     \<lparr>ag_identity = at_identity s, ag_ownerClientId = owner, ag_fencingGeneration = at_generation s\<rparr>"

definition at_granted :: "attachment \<Rightarrow> string \<Rightarrow> attachment_grant \<times> attachment" where
  "at_granted s owner =
     (let s' = s\<lparr>at_generation := at_generation s + 1, at_owner := Some owner, at_state := A_attached\<rparr>
      in (attachment_grant_of s' owner, s'))"

definition attach :: "attachment \<Rightarrow> string \<Rightarrow> attachment_error + attachment_grant \<times> attachment" where
  "attach s owner =
     (if at_state s = A_terminated then Inl Attachment_terminated
      else if \<not> valid_identifier owner then Inl Process_discontinuity
      else if at_state s = A_attached then Inl Attachment_conflict
      else Inr (at_granted s owner))"

definition takeover :: "attachment \<Rightarrow> string \<Rightarrow> bool \<Rightarrow> attachment_error + attachment_grant \<times> attachment" where
  "takeover s owner ownerAuthorized =
     (if at_state s = A_terminated then Inl Attachment_terminated
      else if \<not> ownerAuthorized then Inl Attachment_conflict
      else if \<not> valid_identifier owner then Inl Process_discontinuity
      else Inr (at_granted s owner))"

definition assertFence :: "attachment \<Rightarrow> attachment_grant \<Rightarrow> attachment_error + unit" where
  "assertFence s grant =
     (if at_state s \<noteq> A_attached \<or> ag_fencingGeneration grant \<noteq> at_generation s
         \<or> Some (ag_ownerClientId grant) \<noteq> at_owner s \<or> ag_identity grant \<noteq> at_identity s
      then Inl Stale_attachment else Inr ())"

definition at_detach :: "attachment \<Rightarrow> attachment_grant \<Rightarrow> attachment_error + attachment" where
  "at_detach s grant =
     (case assertFence s grant of
        Inl e \<Rightarrow> Inl e
      | Inr _ \<Rightarrow> Inr (s\<lparr>at_state := A_detached, at_owner := None\<rparr>))"

definition at_terminate :: "attachment \<Rightarrow> attachment" where
  "at_terminate s = s\<lparr>at_state := A_terminated, at_owner := None, at_output := [], at_replayBytes := 0, at_inputs := []\<rparr>"

definition forget_oldest :: "(int, string) js_map \<Rightarrow> (int, string) js_map" where
  "forget_oldest m = (case m of [] \<Rightarrow> [] | (k, _) # _ \<Rightarrow> AList.delete k m)"

definition acceptInput ::
  "(byte list \<Rightarrow> string) \<Rightarrow> attachment \<Rightarrow> attachment_grant \<Rightarrow> int \<Rightarrow> byte list
   \<Rightarrow> attachment_error + input_acceptance \<times> attachment" where
  "acceptInput sha s grant clientSequence payload =
     (case assertFence s grant of
        Inl e \<Rightarrow> Inl e
      | Inr _ \<Rightarrow>
          if clientSequence < 1 then Inl Sequence_regression
          else case map_get (at_inputs s) clientSequence of
            Some previous \<Rightarrow>
              if previous \<noteq> sha payload then Inl Sequence_conflict
              else Inr (\<lparr>ia_clientSequence = clientSequence, ia_duplicate = True\<rparr>, s)
          | None \<Rightarrow>
              if at_inputs s \<noteq> [] \<and> clientSequence \<le> fst (last (at_inputs s)) then Inl Sequence_regression
              else let m = map_set clientSequence (sha payload) (at_inputs s);
                       m' = (if length m > max_tracked_inputs then forget_oldest m else m)
                   in Inr (\<lparr>ia_clientSequence = clientSequence, ia_duplicate = False\<rparr>, s\<lparr>at_inputs := m'\<rparr>))"

fun evict_loop :: "int \<Rightarrow> int \<Rightarrow> output_record list \<Rightarrow> int \<times> output_record list" where
  "evict_loop now bytes [] = (bytes, [])"
| "evict_loop now bytes (oldest # rest) =
     (if bytes \<le> max_replay_bytes \<and> length (oldest # rest) \<le> max_replay_frames
         \<and> now - or_observedAt oldest \<le> output_retention_ms
      then (bytes, oldest # rest)
      else evict_loop now (bytes - int (length (or_payload oldest))) rest)"

definition at_evict :: "int \<Rightarrow> attachment \<Rightarrow> attachment" where
  "at_evict now s = (let (bytes, out) = evict_loop now (at_replayBytes s) (at_output s)
     in s\<lparr>at_replayBytes := bytes, at_output := out\<rparr>)"

definition appendOutput :: "attachment \<Rightarrow> byte list \<Rightarrow> int \<Rightarrow> attachment_error + output_record \<times> attachment" where
  "appendOutput s payload observedAt =
     (if at_state s = A_terminated then Inl Attachment_terminated
      else if int (length payload) > max_replay_bytes then Inl Oversize_output
      else let n = at_outputSequence s + 1;
               r = \<lparr>or_sequence = n, or_observedAt = observedAt, or_payload = payload\<rparr>
           in Inr (r, at_evict observedAt (s\<lparr>at_outputSequence := n, at_output := at_output s @ [r],
                        at_replayBytes := at_replayBytes s + int (length payload)\<rparr>)))"

record resume_input =
  ri_ownerClientId :: string
  ri_processEpoch :: string
  ri_processAlive :: bool
  ri_afterOutputSequence :: int
  ri_ownerAuthorizedTakeover :: bool

definition earliest_sequence :: "attachment \<Rightarrow> int option" where
  "earliest_sequence s = (case at_output s of [] \<Rightarrow> None | r # _ \<Rightarrow> Some (or_sequence r))"

definition at_resume ::
  "attachment \<Rightarrow> int \<Rightarrow> resume_input \<Rightarrow> (attachment_error + resume_result) \<times> attachment" where
  "at_resume s now i =
     (if at_state s = A_terminated
      then (Inr \<lparr>rr_attachmentRestored = False, rr_processSurvived = False, rr_outputContinuous = False,
                 rr_earliestSequence = None, rr_fencingGeneration = None, rr_frames = [],
                 rr_classification = Resume_terminated\<rparr>, s)
      else let e = at_evict now s in
        if \<not> ri_processAlive i \<or> ri_processEpoch i \<noteq> ai_processEpoch (at_identity e)
        then (Inr \<lparr>rr_attachmentRestored = False, rr_processSurvived = False, rr_outputContinuous = False,
                   rr_earliestSequence = earliest_sequence e, rr_fencingGeneration = None, rr_frames = [],
                   rr_classification = Discontinuous\<rparr>, e)
        else case (if at_state e = A_attached then takeover e (ri_ownerClientId i) (ri_ownerAuthorizedTakeover i)
                   else attach e (ri_ownerClientId i)) of
               Inl err \<Rightarrow> (Inl err, e)
             | Inr (grant, s') \<Rightarrow>
                 (Inr \<lparr>rr_attachmentRestored = True, rr_processSurvived = True,
                       rr_outputContinuous = (case earliest_sequence s' of None \<Rightarrow> True
                          | Some q \<Rightarrow> ri_afterOutputSequence i + 1 \<ge> q),
                       rr_earliestSequence = earliest_sequence s',
                       rr_fencingGeneration = Some (ag_fencingGeneration grant),
                       rr_frames = filter (\<lambda>f. or_sequence f > ri_afterOutputSequence i) (at_output s'),
                       rr_classification = Resumed\<rparr>, s'))"

section \<open>The replay window\<close>

lemma filter_upto:
  fixes l a n :: int
  assumes "l \<le> a + 1"
  shows "filter (\<lambda>q. q > a) [l..n] = [a + 1..n]"
  using assms
proof (induction l n rule: upto.induct)
  case (1 l n)
  show ?case
  proof (cases "l \<le> n \<and> l \<le> a")
    case True
    with 1 show ?thesis by (simp add: upto_rec1 [of l n])
  next
    case False
    with 1(2) have "n < l \<or> l = a + 1" by auto
    then show ?thesis using 1(2) by (auto intro!: filter_True)
  qed
qed

definition output_bytes :: "output_record list \<Rightarrow> int" where
  "output_bytes out = sum_list (map (\<lambda>r. int (length (or_payload r))) out)"

definition output_window :: "int \<Rightarrow> output_record list \<Rightarrow> bool" where
  "output_window n out \<longleftrightarrow> map or_sequence out = [n - int (length out) + 1..n]"

lemma output_window_tl: "output_window n (r # out) \<Longrightarrow> output_window n out \<and> or_sequence r = n - int (length out)"
  by (simp add: output_window_def upto_rec1)

lemma output_window_snoc:
  "output_window n out \<Longrightarrow> or_sequence r = n + 1 \<Longrightarrow> output_window (n + 1) (out @ [r])"
  by (simp add: output_window_def upto_rec2)

lemma evict_loop_window:
  assumes "output_window n out" and "bytes = output_bytes out" and "evict_loop now bytes out = (bytes', out')"
  shows "output_window n out' \<and> bytes' = output_bytes out' \<and> bytes' \<le> max_replay_bytes \<and>
     length out' \<le> max_replay_frames \<and> (\<exists>k. out' = drop k out)"
  using assms
proof (induction now bytes out rule: evict_loop.induct)
  case (1 now bytes)
  then show ?case by (simp add: output_bytes_def max_replay_bytes_def)
next
  case (2 now bytes oldest rest)
  show ?case
  proof (cases "bytes \<le> max_replay_bytes \<and> length (oldest # rest) \<le> max_replay_frames
      \<and> now - or_observedAt oldest \<le> output_retention_ms")
    case True
    with 2 have "bytes' = bytes" "out' = oldest # rest" by auto
    with True 2 show ?thesis by (auto intro: exI [of _ 0])
  next
    case False
    with 2 have "output_window n out' \<and> bytes' = output_bytes out' \<and> bytes' \<le> max_replay_bytes \<and>
        length out' \<le> max_replay_frames \<and> (\<exists>k. out' = drop k rest)"
      by (intro 2(1)) (auto simp: output_bytes_def dest: output_window_tl simp del: list.size)
    then show ?thesis by (metis drop_Suc_Cons)
  qed
qed

definition sequences_increase :: "(int, string) js_map \<Rightarrow> bool" where
  "sequences_increase m \<longleftrightarrow> sorted_wrt (<) (map fst m)"

definition attachment_inv :: "attachment \<Rightarrow> bool" where
  "attachment_inv s \<longleftrightarrow> output_window (at_outputSequence s) (at_output s) \<and>
     at_replayBytes s = output_bytes (at_output s) \<and> at_replayBytes s \<le> max_replay_bytes \<and>
     length (at_output s) \<le> max_replay_frames \<and>
     sequences_increase (at_inputs s) \<and> length (at_inputs s) \<le> max_tracked_inputs"

text \<open>What eviction leaves alone, and what the operations do to the rest of the state.\<close>

lemma at_evict_frame [simp]:
  "at_state (at_evict now s) = at_state s" "at_generation (at_evict now s) = at_generation s"
  "at_owner (at_evict now s) = at_owner s" "at_identity (at_evict now s) = at_identity s"
  "at_inputs (at_evict now s) = at_inputs s" "at_outputSequence (at_evict now s) = at_outputSequence s"
  by (simp_all add: at_evict_def split: prod.split)

lemma at_evict_window:
  assumes "output_window (at_outputSequence s) (at_output s)" and "at_replayBytes s = output_bytes (at_output s)"
    and "sequences_increase (at_inputs s)" and "length (at_inputs s) \<le> max_tracked_inputs"
  shows "attachment_inv (at_evict now s)"
proof -
  obtain b out where e: "evict_loop now (at_replayBytes s) (at_output s) = (b, out)" by force
  from evict_loop_window [OF assms(1,2) e] assms(3,4) e show ?thesis
    by (simp add: at_evict_def attachment_inv_def)
qed

lemma at_evict_inv: "attachment_inv s \<Longrightarrow> attachment_inv (at_evict now s)"
  by (rule at_evict_window) (simp_all add: attachment_inv_def)

lemma at_granted_inv: "attachment_inv s \<Longrightarrow> at_granted s owner = (g, t) \<Longrightarrow> attachment_inv t"
  by (auto simp: at_granted_def Let_def attachment_inv_def)

lemma forget_oldest_tl: "sequences_increase m \<Longrightarrow> forget_oldest m = tl m"
proof (cases m)
  case (Cons kv m')
  moreover assume "sequences_increase m"
  moreover have "\<forall>p \<in> set m'. fst p \<noteq> fst kv" using calculation by (auto simp: sequences_increase_def)
  ultimately show ?thesis
    by (cases kv) (force simp: forget_oldest_def AList.delete_eq intro!: filter_True)
qed (simp add: forget_oldest_def)

lemma sequences_increase_snoc:
  assumes "sequences_increase m" and "m \<noteq> [] \<Longrightarrow> fst (last m) < q"
  shows "sequences_increase (m @ [(q, d)])"
proof -
  have "k < q" if "k \<in> fst ` set m" for k
  proof -
    from that have ne: "m \<noteq> []" by auto
    then obtain m' p where m: "m = m' @ [p]" by (metis append_butlast_last_id)
    with assms(1) that have "k \<le> fst p" by (auto simp: sequences_increase_def sorted_wrt_append intro: less_imp_le)
    with assms(2) ne m show ?thesis by simp
  qed
  with assms(1) show ?thesis by (auto simp: sequences_increase_def sorted_wrt_append)
qed

section \<open>Steps and invariant\<close>

inductive attachment_step :: "(byte list \<Rightarrow> string) \<Rightarrow> attachment \<Rightarrow> attachment \<Rightarrow> bool" for sha where
  attached: "attach s owner = Inr (g, t) \<Longrightarrow> attachment_step sha s t"
| taken: "takeover s owner authorized = Inr (g, t) \<Longrightarrow> attachment_step sha s t"
| detached: "at_detach s g = Inr t \<Longrightarrow> attachment_step sha s t"
| terminated: "attachment_step sha s (at_terminate s)"
| input: "acceptInput sha s g q payload = Inr (a, t) \<Longrightarrow> attachment_step sha s t"
| appended: "appendOutput s payload now = Inr (r, t) \<Longrightarrow> attachment_step sha s t"
| resumed: "at_resume s now i = (r, t) \<Longrightarrow> attachment_step sha s t"

lemma attach_InrD: "attach s owner = Inr (g, t) \<Longrightarrow> at_granted s owner = (g, t) \<and> at_state s = A_detached"
  by (cases "at_state s") (auto simp: attach_def split: if_splits)

lemma takeover_InrD: "takeover s owner a = Inr (g, t) \<Longrightarrow> at_granted s owner = (g, t) \<and> at_state s \<noteq> A_terminated \<and> a"
  by (auto simp: takeover_def split: if_splits)

lemma at_detach_InrD:
  "at_detach s g = Inr t \<Longrightarrow> t = s\<lparr>at_state := A_detached, at_owner := None\<rparr> \<and> at_state s = A_attached"
  by (auto simp: at_detach_def assertFence_def split: sum.splits if_splits)

lemma acceptInput_cases:
  assumes "acceptInput sha s g q payload = Inr (a, t)"
  obtains (duplicate) "t = s" "ia_duplicate a" "map_get (at_inputs s) q = Some (sha payload)"
  | (fresh) "\<not> ia_duplicate a" "map_get (at_inputs s) q = None"
      "at_inputs s \<noteq> [] \<Longrightarrow> fst (last (at_inputs s)) < q"
      "t = s\<lparr>at_inputs := (if length (at_inputs s) \<ge> max_tracked_inputs
                            then forget_oldest (at_inputs s @ [(q, sha payload)])
                            else at_inputs s @ [(q, sha payload)])\<rparr>"
proof (cases "map_get (at_inputs s) q")
  case None
  with assms fresh show ?thesis
    by (auto simp: acceptInput_def Let_def map_set_new Suc_le_eq less_Suc_eq_le split: sum.splits if_splits)
next
  case (Some d)
  with assms duplicate show ?thesis by (auto simp: acceptInput_def split: sum.splits if_splits)
qed

lemma acceptInput_attached: "acceptInput sha s g q payload = Inr (a, t) \<Longrightarrow> at_state s = A_attached"
  by (auto simp: acceptInput_def assertFence_def split: sum.splits if_splits)

lemma at_resume_cases:
  assumes "at_resume s now i = (r, t)"
  obtains (same) "t = s" "at_state s = A_terminated"
  | (evicted) "t = at_evict now s" "at_state s \<noteq> A_terminated"
  | (granted) g where "at_granted (at_evict now s) (ri_ownerClientId i) = (g, t)" "at_state s \<noteq> A_terminated"
      "r = Inr \<lparr>rr_attachmentRestored = True, rr_processSurvived = True,
             rr_outputContinuous = (case earliest_sequence t of None \<Rightarrow> True | Some q \<Rightarrow> ri_afterOutputSequence i + 1 \<ge> q),
             rr_earliestSequence = earliest_sequence t, rr_fencingGeneration = Some (ag_fencingGeneration g),
             rr_frames = filter (\<lambda>f. or_sequence f > ri_afterOutputSequence i) (at_output t),
             rr_classification = Resumed\<rparr>"
  using assms
  by (auto simp: at_resume_def Let_def split: if_splits sum.splits prod.splits dest: attach_InrD takeover_InrD)

lemma attachment_step_inv:
  assumes "attachment_inv s" and "attachment_step sha s t"
  shows "attachment_inv t"
  using assms(2)
proof cases
  case (attached owner g)
  with assms(1) show ?thesis by (auto dest: attach_InrD at_granted_inv)
next
  case (taken owner authorized g)
  with assms(1) show ?thesis by (auto dest: takeover_InrD at_granted_inv)
next
  case (detached g)
  with assms(1) show ?thesis by (auto dest!: at_detach_InrD simp: attachment_inv_def)
next
  case terminated
  then show ?thesis
    by (simp add: at_terminate_def attachment_inv_def output_window_def output_bytes_def sequences_increase_def
        max_replay_bytes_def)
next
  case (input g q payload a)
  then show ?thesis
  proof (cases rule: acceptInput_cases)
    case fresh
    have inc: "sequences_increase (at_inputs s @ [(q, sha payload)])"
      using fresh(3) assms(1) by (intro sequences_increase_snoc) (auto simp: attachment_inv_def)
    then have "sequences_increase (tl (at_inputs s @ [(q, sha payload)]))"
      unfolding sequences_increase_def by (cases "at_inputs s") auto
    with fresh inc assms(1) show ?thesis by (auto simp: attachment_inv_def forget_oldest_tl)
  qed (use assms(1) in simp)
next
  case (appended payload now r)
  let ?n = "at_outputSequence s + 1"
  let ?r = "\<lparr>or_sequence = ?n, or_observedAt = now, or_payload = payload\<rparr>"
  have "t = at_evict now (s\<lparr>at_outputSequence := ?n, at_output := at_output s @ [?r],
      at_replayBytes := at_replayBytes s + int (length payload)\<rparr>)"
    using appended by (auto simp: appendOutput_def Let_def split: if_splits)
  moreover have "output_window ?n (at_output s @ [?r])" "output_bytes (at_output s @ [?r]) = output_bytes (at_output s) + int (length payload)"
    using assms(1) by (auto intro!: output_window_snoc simp: attachment_inv_def output_bytes_def)
  ultimately show ?thesis using assms(1) by (auto intro!: at_evict_window) (auto simp: attachment_inv_def)
next
  case (resumed now i r)
  then show ?thesis
    by (cases rule: at_resume_cases) (auto intro: at_evict_inv at_granted_inv assms(1))
qed

lemma at_granted_generation:
  "at_granted s owner = (g, t) \<Longrightarrow> ag_fencingGeneration g = at_generation s + 1 \<and> at_generation t = at_generation s + 1 \<and>
     at_inputs t = at_inputs s \<and> at_state t = A_attached \<and> at_output t = at_output s \<and> at_outputSequence t = at_outputSequence s \<and>
     at_replayBytes t = at_replayBytes s"
  by (auto simp: at_granted_def Let_def attachment_grant_of_def)

lemma attachment_step_generation: "attachment_step sha s t \<Longrightarrow> at_generation s \<le> at_generation t"
  by (auto elim!: attachment_step.cases acceptInput_cases at_resume_cases
      dest!: attach_InrD takeover_InrD at_detach_InrD at_granted_generation
      simp: at_terminate_def appendOutput_def Let_def split: if_splits)

section \<open>Fencing\<close>

definition attachment_accepts :: "attachment \<Rightarrow> unit \<Rightarrow> int \<Rightarrow> bool" where
  "attachment_accepts s k n \<longleftrightarrow> (\<exists>g. ag_fencingGeneration g = n \<and> assertFence s g = Inr ())"

inductive attachment_issues :: "attachment \<Rightarrow> attachment \<Rightarrow> unit \<Rightarrow> int \<Rightarrow> bool" where
  "attach s owner = Inr (g, t) \<Longrightarrow> attachment_issues s t k (ag_fencingGeneration g)"
| "takeover s owner a = Inr (g, t) \<Longrightarrow> attachment_issues s t k (ag_fencingGeneration g)"
| "at_resume s now i = (Inr r, t) \<Longrightarrow> rr_fencingGeneration r = Some n \<Longrightarrow> attachment_issues s t k n"

lemma grant_generation:
  "attach s owner = Inr (g, t) \<Longrightarrow> at_generation s < ag_fencingGeneration g \<and> at_generation t = ag_fencingGeneration g"
  "takeover s owner a = Inr (g, t) \<Longrightarrow> at_generation s < ag_fencingGeneration g \<and> at_generation t = ag_fencingGeneration g"
  by (drule attach_InrD takeover_InrD, auto dest: at_granted_generation)+

lemma attachment_issues_fresh:
  assumes "attachment_issues s t k n"
  shows "attachment_step sha s t \<and> at_generation s < n \<and> at_generation t = n"
  using assms
proof cases
  case (3 now i r)
  from 3(1) show ?thesis
  proof (cases rule: at_resume_cases)
    case (granted g)
    with 3 show ?thesis by (auto dest!: at_granted_generation intro: attachment_step.resumed)
  qed (use 3 in \<open>auto simp: at_resume_def Let_def split: if_splits sum.splits prod.splits
      dest!: attach_InrD takeover_InrD at_granted_generation intro!: attachment_step.resumed [of _ _ i]\<close>)
qed (auto dest: grant_generation intro: attachment_step.intros)

interpretation attachment_fence: generation_fence
  "\<lambda>s. attachment_new identity = Inr s" "attachment_step sha" attachment_inv
  "\<lambda>s k. at_generation s" attachment_accepts attachment_issues for sha identity
proof unfold_locales
  show "attachment_inv s" if "attachment_new identity = Inr s" for s
    using that by (auto simp: attachment_new_def attachment_inv_def output_window_def output_bytes_def
        sequences_increase_def max_replay_bytes_def split: if_splits)
  show "n = at_generation s" if "attachment_accepts s k n" for s k n
    using that by (auto simp: attachment_accepts_def assertFence_def split: if_splits)
qed (auto intro: attachment_step_inv attachment_step_generation dest: attachment_issues_fresh)

section \<open>Inputs\<close>

text \<open>
  A client sequence is spent on a digest when no later acceptance can report it as new
  or answer for other bytes.
\<close>

definition sequence_spent :: "attachment \<Rightarrow> int \<Rightarrow> string \<Rightarrow> bool" where
  "sequence_spent s q d \<longleftrightarrow> at_state s = A_terminated \<or>
     (at_inputs s \<noteq> [] \<and> q \<le> fst (last (at_inputs s)) \<and> map_get (at_inputs s) q \<in> {None, Some d})"

lemma forget_oldest_get: "map_get (forget_oldest m) q \<in> {None, map_get m q}"
  by (cases m) (auto simp: forget_oldest_def delete_conv')

lemma acceptInput_get:
  assumes "acceptInput sha s g q payload = Inr (a, t)" and "q' \<noteq> q"
  shows "map_get (at_inputs t) q' \<in> {None, map_get (at_inputs s) q'}"
  using assms(1)
proof (cases rule: acceptInput_cases)
  case fresh
  then show ?thesis using assms(2) forget_oldest_get [of "at_inputs s @ [(q, sha payload)]" q']
    by (auto simp: map_add_def split: option.splits)
qed simp

lemma forget_oldest_last:
  "sequences_increase (m @ [(q, d)]) \<Longrightarrow> m \<noteq> [] \<Longrightarrow>
     forget_oldest (m @ [(q, d)]) \<noteq> [] \<and> last (forget_oldest (m @ [(q, d)])) = (q, d)"
  by (simp add: forget_oldest_tl)

lemma acceptInput_last:
  assumes "attachment_inv s" and "acceptInput sha s g q payload = Inr (a, t)" and "\<not> ia_duplicate a"
  shows "at_inputs t \<noteq> [] \<and> last (at_inputs t) = (q, sha payload) \<and> at_state t = at_state s \<and>
    (at_inputs s \<noteq> [] \<longrightarrow> fst (last (at_inputs s)) < q)"
  using assms(2)
proof (cases rule: acceptInput_cases)
  case fresh
  have inc: "sequences_increase (at_inputs s @ [(q, sha payload)])"
    using fresh(3) assms(1) by (intro sequences_increase_snoc) (auto simp: attachment_inv_def)
  moreover have "at_inputs s \<noteq> []" if "length (at_inputs s) \<ge> max_tracked_inputs"
    using that by (auto simp: max_tracked_inputs_def)
  ultimately show ?thesis using fresh forget_oldest_last by auto
qed (use assms(3) in simp)

lemma sequence_spent_step:
  assumes "attachment_inv s" and "attachment_step sha s t" and "sequence_spent s q d"
  shows "sequence_spent t q d"
  using assms(2)
proof cases
  case (attached owner g)
  then show ?thesis using assms(3) by (auto simp: sequence_spent_def dest!: attach_InrD at_granted_generation)
next
  case (taken owner authorized g)
  then show ?thesis using assms(3) by (auto simp: sequence_spent_def dest!: takeover_InrD at_granted_generation)
next
  case (detached g)
  then show ?thesis using assms(3) by (auto simp: sequence_spent_def dest!: at_detach_InrD)
next
  case terminated
  then show ?thesis by (simp add: sequence_spent_def at_terminate_def)
next
  case (input g q' payload a)
  then show ?thesis
  proof (cases "ia_duplicate a")
    case True
    with input(1) assms(3) show ?thesis by (auto elim: acceptInput_cases)
  next
    case False
    with acceptInput_last [OF assms(1) input(1)] assms(3) acceptInput_attached [OF input(1)]
    have "at_inputs t \<noteq> []" "q < q'" "q \<le> fst (last (at_inputs t))" "map_get (at_inputs s) q \<in> {None, Some d}"
      by (auto simp: sequence_spent_def)
    with acceptInput_get [OF input(1), of q] show ?thesis by (auto simp: sequence_spent_def)
  qed
next
  case (appended payload now r)
  then show ?thesis using assms(3) by (auto simp: sequence_spent_def appendOutput_def Let_def split: if_splits)
next
  case (resumed now i r)
  then show ?thesis
    using assms(3) by (cases rule: at_resume_cases) (auto simp: sequence_spent_def dest!: at_granted_generation)
qed

lemma sequence_spent_steps:
  assumes "(attachment_step sha)\<^sup>*\<^sup>* s t" and "attachment_inv s" and "sequence_spent s q d"
  shows "sequence_spent t q d"
  using assms
proof (induction rule: rtranclp_induct)
  case (step t u)
  then have "attachment_inv t" by (blast intro: attachment_fence.steps_inv)
  with step show ?case by (blast intro: sequence_spent_step)
qed

lemma sequence_spent_refused:
  assumes "attachment_inv s" and "sequence_spent s q d" and "acceptInput sha s g q payload = Inr (a, t)"
  shows "ia_duplicate a \<and> t = s \<and> sha payload = d"
  using assms(3)
proof (cases rule: acceptInput_cases)
  case fresh
  with acceptInput_last [OF assms(1,3)] acceptInput_attached [OF assms(3)] assms(2) show ?thesis
    by (auto simp: sequence_spent_def)
qed (use assms(2) acceptInput_attached [OF assms(3)] in \<open>auto simp: sequence_spent_def\<close>)

lemma acceptInput_spends:
  assumes "attachment_inv s" and "acceptInput sha s g q payload = Inr (a, t)" and "\<not> ia_duplicate a"
  shows "attachment_inv t \<and> sequence_spent t q (sha payload)"
proof -
  have t: "attachment_inv t" using assms by (blast intro: attachment_step_inv attachment_step.input)
  have l: "at_inputs t \<noteq> []" "last (at_inputs t) = (q, sha payload)"
    using acceptInput_last [OF assms] by simp_all
  then have "(q, sha payload) \<in> set (at_inputs t)" by (metis last_in_set)
  moreover have "distinct (map fst (at_inputs t))"
    using t by (auto simp: attachment_inv_def sequences_increase_def strict_sorted_iff)
  ultimately have "map_get (at_inputs t) q = Some (sha payload)" by simp
  with l t show ?thesis by (simp add: sequence_spent_def)
qed

section \<open>Properties\<close>

text \<open>
  C16. The attachment fence: once a client has been granted a generation (by \<^verbatim>\<open>attach\<close>,
  \<^verbatim>\<open>takeover\<close> or \<^verbatim>\<open>resume\<close>), no grant of an earlier generation passes the fence again, so a
  displaced client can neither enter input nor detach its successor, whatever happens
  in between.
\<close>

theorem attachment_fencing:
  assumes "attachment_new identity = Inr s0" and "(attachment_step sha)\<^sup>*\<^sup>* s0 s"
    and "attachment_issues s s' () n" and "(attachment_step sha)\<^sup>*\<^sup>* s' t" and "ag_fencingGeneration g < n"
  shows "acceptInput sha t g q payload = Inl Stale_attachment \<and> at_detach t g = Inl Stale_attachment"
proof -
  have inv: "attachment_inv s" using assms(1,2) by (rule attachment_fence.reachable_inv)
  have s': "attachment_inv s'" "at_generation s' = n"
    using attachment_issues_fresh [OF assms(3)] attachment_step_inv [OF inv] by blast+
  then have "\<not> attachment_accepts t () (ag_fencingGeneration g)"
    using assms(4,5) by (intro attachment_fence.stale_never_accepted [of s']) simp_all
  then have "assertFence t g = Inl Stale_attachment"
    by (auto simp: attachment_accepts_def assertFence_def split: if_splits)
  then show ?thesis by (simp add: acceptInput_def at_detach_def)
qed

abbreviation ex_identity :: attachment_identity where
  "ex_identity \<equiv> \<lparr>ai_userId = ''u'', ai_machineId = ''m'', ai_agentSessionId = ''a'', ai_processEpoch = ''e''\<rparr>"

abbreviation ex_session :: "attachment_state \<Rightarrow> string option \<Rightarrow> int \<Rightarrow> attachment" where
  "ex_session st own gen \<equiv> \<lparr>at_identity = ex_identity, at_state = st, at_owner = own, at_generation = gen,
     at_outputSequence = 0, at_replayBytes = 0, at_output = [], at_inputs = []\<rparr>"

lemma ex_session_new: "attachment_new ex_identity = Inr (ex_session A_detached None 0)"
  by (simp add: attachment_new_def valid_attachment_identity_def js_defs)

lemma ex_session_attach:
  "attach (ex_session A_detached None 0) ''a'' =
     Inr (\<lparr>ag_identity = ex_identity, ag_ownerClientId = ''a'', ag_fencingGeneration = 1\<rparr>, ex_session A_attached (Some ''a'') 1)"
  by (simp add: attach_def at_granted_def attachment_grant_of_def js_defs)

lemma ex_session_takeover:
  "takeover (ex_session A_attached (Some ''a'') 1) ''b'' True =
     Inr (\<lparr>ag_identity = ex_identity, ag_ownerClientId = ''b'', ag_fencingGeneration = 2\<rparr>, ex_session A_attached (Some ''b'') 2)"
  by (simp add: takeover_def at_granted_def attachment_grant_of_def js_defs)

theorem attachment_fencing_witness:
  "acceptInput (\<lambda>p. ''d'') (ex_session A_attached (Some ''b'') 2)
      \<lparr>ag_identity = ex_identity, ag_ownerClientId = ''a'', ag_fencingGeneration = 1\<rparr> 1 [] = Inl Stale_attachment \<and>
   at_detach (ex_session A_attached (Some ''b'') 2)
      \<lparr>ag_identity = ex_identity, ag_ownerClientId = ''a'', ag_fencingGeneration = 1\<rparr> = Inl Stale_attachment"
  using attachment_fencing [OF ex_session_new
      r_into_rtranclp [of "attachment_step (\<lambda>p. ''d'')", OF attachment_step.attached, OF ex_session_attach]
      attachment_issues.intros(2) [OF ex_session_takeover] rtranclp.rtrancl_refl] by simp

text \<open>
  Input is accepted exactly once: after an input sequence was accepted as new, every
  later acceptance of it, by any grant and across detachments, takeovers and resumptions,
  is reported as a duplicate of the same digest and leaves the session as it is.
\<close>

theorem input_exactly_once:
  assumes "attachment_new identity = Inr s0" and "(attachment_step sha)\<^sup>*\<^sup>* s0 s"
    and "acceptInput sha s g q payload = Inr (a, s')" and "\<not> ia_duplicate a"
    and "(attachment_step sha)\<^sup>*\<^sup>* s' t" and "acceptInput sha t g' q payload' = Inr (b, t')"
  shows "ia_duplicate b \<and> t' = t \<and> sha payload' = sha payload"
proof -
  have "attachment_inv s" using assms(1,2) by (rule attachment_fence.reachable_inv)
  then have s': "attachment_inv s'" "sequence_spent s' q (sha payload)"
    using acceptInput_spends [OF _ assms(3,4)] by auto
  then have "attachment_inv t" "sequence_spent t q (sha payload)"
    using assms(5) by (blast intro: attachment_fence.steps_inv sequence_spent_steps)+
  then show ?thesis using assms(6) by (rule sequence_spent_refused)
qed

abbreviation ex_grant :: attachment_grant where
  "ex_grant \<equiv> \<lparr>ag_identity = ex_identity, ag_ownerClientId = ''a'', ag_fencingGeneration = 1\<rparr>"

lemma ex_session_input:
  "acceptInput (\<lambda>p. ''d'') (ex_session A_attached (Some ''a'') 1) ex_grant 7 [1, 2] =
     Inr (\<lparr>ia_clientSequence = 7, ia_duplicate = False\<rparr>, (ex_session A_attached (Some ''a'') 1)\<lparr>at_inputs := [(7, ''d'')]\<rparr>)"
  "acceptInput (\<lambda>p. ''d'') ((ex_session A_attached (Some ''a'') 1)\<lparr>at_inputs := [(7, ''d'')]\<rparr>) ex_grant 7 [1, 2] =
     Inr (\<lparr>ia_clientSequence = 7, ia_duplicate = True\<rparr>, (ex_session A_attached (Some ''a'') 1)\<lparr>at_inputs := [(7, ''d'')]\<rparr>)"
  by (simp_all add: acceptInput_def assertFence_def max_tracked_inputs_def)

theorem input_exactly_once_witness:
  "ia_duplicate \<lparr>ia_clientSequence = 7, ia_duplicate = True\<rparr> \<and>
   (ex_session A_attached (Some ''a'') 1)\<lparr>at_inputs := [(7, ''d'')]\<rparr> = (ex_session A_attached (Some ''a'') 1)\<lparr>at_inputs := [(7, ''d'')]\<rparr> \<and>
   ''d'' = ''d''"
  by (rule input_exactly_once [OF ex_session_new
      r_into_rtranclp [of "attachment_step (\<lambda>p. ''d'')", OF attachment_step.attached, OF ex_session_attach]
      ex_session_input(1) _ rtranclp.rtrancl_refl ex_session_input(2)]) simp

text \<open>
  C17. The replay window is bounded and gap-free: in every reachable session the retained
  outputs carry consecutive sequence numbers up to the newest one, the byte counter is
  their total size, and at most 1 MiB in at most 4096 frames is kept; at most 4096 input
  digests are tracked.
\<close>

theorem replay_window_bounded:
  assumes "attachment_new identity = Inr s0" and "(attachment_step sha)\<^sup>*\<^sup>* s0 s"
  shows "map or_sequence (at_output s) = [at_outputSequence s - int (length (at_output s)) + 1..at_outputSequence s] \<and>
     at_replayBytes s = output_bytes (at_output s) \<and> at_replayBytes s \<le> 1024 * 1024 \<and>
     length (at_output s) \<le> 4096 \<and> length (at_inputs s) \<le> 4096"
  using attachment_fence.reachable_inv [OF assms]
  by (simp add: attachment_inv_def output_window_def max_replay_bytes_def max_replay_frames_def max_tracked_inputs_def)

theorem replay_window_bounded_witness:
  "map or_sequence (at_output (ex_session A_attached (Some ''a'') 1)) =
     [at_outputSequence (ex_session A_attached (Some ''a'') 1) - int (length (at_output (ex_session A_attached (Some ''a'') 1))) + 1
      ..at_outputSequence (ex_session A_attached (Some ''a'') 1)] \<and>
   at_replayBytes (ex_session A_attached (Some ''a'') 1) = output_bytes (at_output (ex_session A_attached (Some ''a'') 1)) \<and>
   at_replayBytes (ex_session A_attached (Some ''a'') 1) \<le> 1024 * 1024 \<and>
   length (at_output (ex_session A_attached (Some ''a'') 1)) \<le> 4096 \<and>
   length (at_inputs (ex_session A_attached (Some ''a'') 1)) \<le> 4096"
  by (rule replay_window_bounded [OF ex_session_new
      r_into_rtranclp [of "attachment_step (\<lambda>p. ''d'')", OF attachment_step.attached, OF ex_session_attach]])

text \<open>
  A continuous resumption loses no output: when \<^verbatim>\<open>resume\<close> restores the attachment,
  names the earliest retained sequence and reports the output as continuous, the frames
  it hands over are exactly the outputs after the client's last sequence up to the newest
  one, in order.
\<close>

theorem resume_continuous:
  assumes "attachment_new identity = Inr s0" and "(attachment_step sha)\<^sup>*\<^sup>* s0 s"
    and "at_resume s now i = (Inr r, t)" and "rr_attachmentRestored r" and "rr_outputContinuous r"
    and "rr_earliestSequence r \<noteq> None"
  shows "map or_sequence (rr_frames r) = [ri_afterOutputSequence i + 1..at_outputSequence t] \<and>
     at_outputSequence t = at_outputSequence s"
  using assms(3)
proof (cases rule: at_resume_cases)
  case (granted g)
  let ?a = "ri_afterOutputSequence i" and ?n = "at_outputSequence t"
  have "attachment_inv t"
    using attachment_fence.reachable_inv [OF assms(1,2)] assms(3) by (blast intro: attachment_step_inv attachment_step.resumed)
  then have win: "map or_sequence (at_output t) = [?n - int (length (at_output t)) + 1..?n]"
    by (simp add: attachment_inv_def output_window_def)
  from assms(6) granted(3) obtain o1 out where out: "at_output t = o1 # out"
    by (auto simp: earliest_sequence_def split: list.splits)
  with win have "or_sequence o1 = ?n - int (length (at_output t)) + 1" by (simp add: upto_rec1)
  with assms(5) granted(3) out have after: "?n - int (length (at_output t)) + 1 \<le> ?a + 1"
    by (simp add: earliest_sequence_def)
  have "map or_sequence (rr_frames r) = filter (\<lambda>q. q > ?a) (map or_sequence (at_output t))"
    using granted(3) by (simp add: filter_map o_def)
  also have "\<dots> = [?a + 1..?n]" unfolding win using after by (rule filter_upto)
  finally show ?thesis using granted(1) by (auto dest: at_granted_generation)
qed (use assms(3,4) in \<open>auto simp: at_resume_def Let_def split: if_splits sum.splits prod.splits
      dest!: attach_InrD takeover_InrD at_granted_generation\<close>)

abbreviation ex_output :: "output_record" where
  "ex_output \<equiv> \<lparr>or_sequence = 1, or_observedAt = 0, or_payload = [65]\<rparr>"

abbreviation ex_written :: "attachment_state \<Rightarrow> string option \<Rightarrow> int \<Rightarrow> attachment" where
  "ex_written st own gen \<equiv> (ex_session st own gen)\<lparr>at_outputSequence := 1, at_replayBytes := 1, at_output := [ex_output]\<rparr>"

abbreviation ex_resume :: resume_input where
  "ex_resume \<equiv> \<lparr>ri_ownerClientId = ''a'', ri_processEpoch = ''e'', ri_processAlive = True,
     ri_afterOutputSequence = 0, ri_ownerAuthorizedTakeover = False\<rparr>"

lemma ex_session_output:
  "appendOutput (ex_session A_detached None 0) [65] 0 = Inr (ex_output, ex_written A_detached None 0)"
  by (simp add: appendOutput_def at_evict_def Let_def max_replay_bytes_def max_replay_frames_def output_retention_ms_def)

lemma ex_written_reached: "(attachment_step sha)\<^sup>*\<^sup>* (ex_session A_detached None 0) (ex_written A_detached None 0)"
  using attachment_step.appended [OF ex_session_output] by blast

abbreviation ex_resume_result :: "int option \<Rightarrow> output_record list \<Rightarrow> resume_result" where
  "ex_resume_result q fs \<equiv> \<lparr>rr_attachmentRestored = True, rr_processSurvived = True, rr_outputContinuous = True,
     rr_earliestSequence = q, rr_fencingGeneration = Some 1, rr_frames = fs, rr_classification = Resumed\<rparr>"

lemma ex_session_resume:
  "at_resume (ex_written A_detached None 0) 10 ex_resume =
     (Inr (ex_resume_result (Some 1) [ex_output]), ex_written A_attached (Some ''a'') 1)"
  "at_resume (ex_written A_detached None 0) 30001 ex_resume =
     (Inr (ex_resume_result None []), (ex_session A_attached (Some ''a'') 1)\<lparr>at_outputSequence := 1\<rparr>)"
  by (simp_all add: at_resume_def at_evict_def max_replay_bytes_def max_replay_frames_def output_retention_ms_def
      attach_def at_granted_def attachment_grant_of_def earliest_sequence_def js_defs)

theorem resume_continuous_witness:
  "map or_sequence (rr_frames (ex_resume_result (Some 1) [ex_output])) =
     [ri_afterOutputSequence ex_resume + 1..at_outputSequence (ex_written A_attached (Some ''a'') 1)] \<and>
   at_outputSequence (ex_written A_attached (Some ''a'') 1) = at_outputSequence (ex_written A_detached None 0)"
  by (rule resume_continuous [OF ex_session_new ex_written_reached [of "\<lambda>p. ''d''"] ex_session_resume(1)]) simp_all

text \<open>
  C18. The case that a continuous resumption leaves out does lose output: when the whole replay window has
  run out of retention, \<^verbatim>\<open>resume\<close> reports \<^verbatim>\<open>outputContinuous\<close> as true although a client that
  has seen nothing gets no frames and output number one is gone.
\<close>

theorem resume_hides_expired_output:
  "\<exists>s r t. attachment_new ex_identity = Inr (ex_session A_detached None 0) \<and>
     (attachment_step sha)\<^sup>*\<^sup>* (ex_session A_detached None 0) s \<and> at_resume s 30001 ex_resume = (Inr r, t) \<and>
     rr_outputContinuous r \<and> rr_frames r = [] \<and> ri_afterOutputSequence ex_resume < at_outputSequence t"
proof -
  have "rr_outputContinuous (ex_resume_result None []) \<and> rr_frames (ex_resume_result None []) = [] \<and>
      ri_afterOutputSequence ex_resume < at_outputSequence ((ex_session A_attached (Some ''a'') 1)\<lparr>at_outputSequence := 1\<rparr>)"
    by simp
  with ex_session_new ex_written_reached ex_session_resume(2) show ?thesis by blast
qed

end
