(* ===== verification/Workspace_Paths.thy ===== *)
theory Workspace_Paths
  imports Prelude
begin

text \<open>
  Portable workspace paths, \<^verbatim>\<open>src/workspace/paths.ts\<close>. \<open>nfc\<close> is
  \<^verbatim>\<open>String.prototype.normalize("NFC")\<close> and \<open>lower\<close> is \<^verbatim>\<open>toLocaleLowerCase("en-US")\<close>, both
  tables of the Unicode standard and arguments here; \<open>nfc_laws\<close> states what the paths
  need of the first. The check for lone surrogates has no counterpart, since a character
  here is a code unit below 256. \<^verbatim>\<open>assertLexicallyInsideRoot\<close> only calls the host's path
  functions and is not modelled.
\<close>

datatype path_platform = Windows | Macos | Linux
datatype unicode_normalization = Nfc | Nfd | Preserving

record filesystem_capabilities =
  fc_platform :: path_platform
  fc_caseSensitive :: bool
  fc_unicodeNormalization :: unicode_normalization
  fc_symlinks :: bool
  fc_atomicRename :: bool
  fc_maximumComponentBytes :: nat
  fc_maximumPathBytes :: nat

definition ascii_lower :: "char \<Rightarrow> char" where
  "ascii_lower c = (if 65 \<le> (of_char c :: nat) \<and> (of_char c :: nat) \<le> 90 then char_of ((of_char c :: nat) + 32) else c)"

lemma ascii_lower_code [code]: "ascii_lower (Char b0 b1 b2 b3 b4 b5 b6 b7) =
  (if b6 \<and> \<not> b5 \<and> \<not> b7 \<and> (let n = horner_sum of_bool 2 [b0, b1, b2, b3, b4] :: int in 1 \<le> n \<and> n \<le> 26)
   then Char b0 b1 b2 b3 b4 True b6 b7 else Char b0 b1 b2 b3 b4 b5 b6 b7)"
  by (cases b0; cases b1; cases b2; cases b3; cases b4; cases b5; cases b6; cases b7; simp add: ascii_lower_def char_of_def bit_Suc_0_iff)

definition windows_devices :: "string list" where
  "windows_devices = [''con'', ''prn'', ''aux'', ''nul''] @ map (\<lambda>d. ''com'' @ [d]) ''123456789'' @ map (\<lambda>d. ''lpt'' @ [d]) ''123456789''"

text \<open>\<^verbatim>\<open>/^(?:con|prn|aux|nul|com[1-9]|lpt[1-9])(?:\..*)?$/iu\<close>; the dot stops at a line terminator.\<close>

definition is_windows_device :: "string \<Rightarrow> bool" where
  "is_windows_device s \<longleftrightarrow> (let l = map ascii_lower s in
     list_ex (\<lambda>d. take (length d) l = d \<and> (case drop (length d) l of [] \<Rightarrow> True
        | c # rest \<Rightarrow> c = CHR ''.'' \<and> CHR 0x0A \<notin> set rest \<and> CHR 0x0D \<notin> set rest)) windows_devices)"

definition has_drive_prefix :: "string \<Rightarrow> bool" where
  "has_drive_prefix s \<longleftrightarrow> (case s of a # b # _ \<Rightarrow>
     97 \<le> (of_char (ascii_lower a) :: nat) \<and> (of_char (ascii_lower a) :: nat) \<le> 122 \<and> b = CHR '':'' | _ \<Rightarrow> False)"

definition pathFailure :: "string \<Rightarrow> cuna_error" where
  "pathFailure reason = workspaceError ''path_invalid'' Policy reason"

definition ends_with :: "char \<Rightarrow> string \<Rightarrow> bool" where
  "ends_with c s \<longleftrightarrow> s \<noteq> [] \<and> last s = c"

definition normalize_component ::
  "(string \<Rightarrow> string) \<Rightarrow> filesystem_capabilities \<Rightarrow> string \<Rightarrow> cuna_error + string" where
  "normalize_component nfc caps component =
     (if component = [] \<or> component = ''.'' \<or> component = ''..'' then Inl (pathFailure ''unsafe_component'')
      else let n = nfc component in
        if is_windows_device n \<or> ends_with CHR ''.'' n \<or> ends_with CHR '' '' n \<or> CHR '':'' \<in> set n
        then Inl (pathFailure ''unportable_component'')
        else if utf8_length n > fc_maximumComponentBytes caps then Inl (pathFailure ''component_too_long'')
        else Inr n)"

fun normalize_components ::
  "(string \<Rightarrow> string) \<Rightarrow> filesystem_capabilities \<Rightarrow> string list \<Rightarrow> cuna_error + string list" where
  "normalize_components nfc caps [] = Inr []"
| "normalize_components nfc caps (c # cs) =
     (case normalize_component nfc caps c of
        Inl e \<Rightarrow> Inl e
      | Inr n \<Rightarrow> (case normalize_components nfc caps cs of Inl e \<Rightarrow> Inl e | Inr ns \<Rightarrow> Inr (n # ns)))"

definition normalizeWirePath ::
  "(string \<Rightarrow> string) \<Rightarrow> filesystem_capabilities \<Rightarrow> string \<Rightarrow> cuna_error + string" where
  "normalizeWirePath nfc caps input =
     (if input = [] \<or> CHR 0x00 \<in> set input then Inl (pathFailure ''invalid_encoding'')
      else if CHR 0x5C \<in> set input \<or> (case input of c # _ \<Rightarrow> c = CHR ''/'' | [] \<Rightarrow> False) \<or> has_drive_prefix input
      then Inl (pathFailure ''absolute_or_platform_path'')
      else let components = split_on CHR ''/'' input in
        if length components > 256 then Inl (pathFailure ''nesting_limit'')
        else case normalize_components nfc caps components of
          Inl e \<Rightarrow> Inl e
        | Inr normalized \<Rightarrow>
            let wirePath = join_on CHR ''/'' normalized in
            if utf8_length wirePath > fc_maximumPathBytes caps then Inl (pathFailure ''path_too_long'')
            else Inr wirePath)"

definition portabilityCollisionKey ::
  "(string \<Rightarrow> string) \<Rightarrow> (string \<Rightarrow> string) \<Rightarrow> filesystem_capabilities \<Rightarrow> string \<Rightarrow> cuna_error + string" where
  "portabilityCollisionKey nfc lower caps wirePath =
     (case normalizeWirePath nfc caps wirePath of
        Inl e \<Rightarrow> Inl e
      | Inr w \<Rightarrow> let n = nfc w in Inr (if fc_caseSensitive caps then n else lower n))"

fun collisions_loop ::
  "(string \<Rightarrow> string) \<Rightarrow> (string \<Rightarrow> string) \<Rightarrow> filesystem_capabilities \<Rightarrow> (string, string) js_map \<Rightarrow> string list
   \<Rightarrow> cuna_error + unit" where
  "collisions_loop nfc lower caps observed [] = Inr ()"
| "collisions_loop nfc lower caps observed (path # paths) =
     (case normalizeWirePath nfc caps path of
        Inl e \<Rightarrow> Inl e
      | Inr normalized \<Rightarrow>
          (case portabilityCollisionKey nfc lower caps normalized of
             Inl e \<Rightarrow> Inl e
           | Inr key \<Rightarrow>
               if map_get observed key \<noteq> None
               then Inl (workspaceError ''portability_conflict'' Conflict ''case_or_unicode_collision'')
               else collisions_loop nfc lower caps (map_set key normalized observed) paths))"

definition assertNoPortableCollisions ::
  "(string \<Rightarrow> string) \<Rightarrow> (string \<Rightarrow> string) \<Rightarrow> filesystem_capabilities \<Rightarrow> string list \<Rightarrow> cuna_error + unit" where
  "assertNoPortableCollisions nfc lower caps paths = collisions_loop nfc lower caps [] paths"

text \<open>
  What the Unicode standard says of NFC on the characters that structure a path: it is
  idempotent; separators, colons, dots, backslashes and NUL are never composed with a
  neighbour or produced; and the path components that name directories are canonically
  equivalent to nothing else.
\<close>

definition nfc_laws :: "(string \<Rightarrow> string) \<Rightarrow> bool" where
  "nfc_laws nfc \<longleftrightarrow> (\<forall>s. nfc (nfc s) = nfc s) \<and>
     (\<forall>s. \<forall>c \<in> {CHR 0x00, CHR 0x5C, CHR ''/''}. c \<in> set (nfc s) \<longrightarrow> c \<in> set s) \<and>
     (\<forall>s. nfc s \<in> {[], ''.'', ''..''} \<longrightarrow> s = nfc s)"

section \<open>Lemmas\<close>

definition safe_component :: "filesystem_capabilities \<Rightarrow> string \<Rightarrow> bool" where
  "safe_component caps c \<longleftrightarrow> c \<noteq> [] \<and> c \<noteq> ''.'' \<and> c \<noteq> ''..'' \<and> \<not> is_windows_device c \<and>
     last c \<noteq> CHR ''.'' \<and> last c \<noteq> CHR '' '' \<and> CHR '':'' \<notin> set c \<and> CHR ''/'' \<notin> set c \<and> CHR 0x5C \<notin> set c \<and>
     CHR 0x00 \<notin> set c \<and> utf8_length c \<le> fc_maximumComponentBytes caps"

lemma normalize_component_safe:
  assumes "nfc_laws nfc" and "normalize_component nfc caps c = Inr n"
    and "CHR 0x00 \<notin> set c" "CHR 0x5C \<notin> set c" "CHR ''/'' \<notin> set c"
  shows "safe_component caps n \<and> normalize_component nfc caps n = Inr n"
proof -
  have n: "n = nfc c" and raw: "c \<notin> {[], ''.'', ''..''}"
    using assms(2) by (auto simp: normalize_component_def Let_def split: if_splits)
  have "n \<notin> {[], ''.'', ''..''}" using assms(1) n raw unfolding nfc_laws_def by metis
  moreover have "nfc n = n" "CHR 0x00 \<notin> set n" "CHR 0x5C \<notin> set n" "CHR ''/'' \<notin> set n"
    using assms(1,3,4,5) n by (auto simp: nfc_laws_def)
  ultimately show ?thesis
    using assms(2) n raw by (auto simp: normalize_component_def safe_component_def ends_with_def Let_def split: if_splits)
qed

lemma normalize_components_safe:
  assumes "nfc_laws nfc" and "normalize_components nfc caps cs = Inr ns"
    and "\<forall>c \<in> set cs. CHR 0x00 \<notin> set c \<and> CHR 0x5C \<notin> set c \<and> CHR ''/'' \<notin> set c"
  shows "list_all (safe_component caps) ns \<and> normalize_components nfc caps ns = Inr ns \<and> length ns = length cs"
  using assms(2,3)
proof (induction cs arbitrary: ns)
  case (Cons c cs)
  from Cons(2) obtain m ms where "normalize_component nfc caps c = Inr m" "normalize_components nfc caps cs = Inr ms"
    "ns = m # ms" by (auto split: sum.splits)
  with Cons normalize_component_safe [OF assms(1)] show ?case by auto
qed simp

text \<open>
  C19. Wire paths are portable and stable: whatever \<^verbatim>\<open>normalizeWirePath\<close> returns splits into at
  most 256 components, each of them non-empty, not a dot directory, not a Windows device
  name, without separators, colons, NUL or a trailing dot or space, within the byte limits
  of the file system; and normalizing it again gives it back unchanged.
\<close>

theorem wire_path_portable:
  assumes "nfc_laws nfc" and "normalizeWirePath nfc caps input = Inr w"
  shows "list_all (safe_component caps) (split_on CHR ''/'' w) \<and> length (split_on CHR ''/'' w) \<le> 256 \<and>
     utf8_length w \<le> fc_maximumPathBytes caps \<and> normalizeWirePath nfc caps w = Inr w"
proof -
  let ?cs = "split_on CHR ''/'' input"
  from assms(2) obtain ns where ns: "normalize_components nfc caps ?cs = Inr ns" "w = join_on CHR ''/'' ns"
    "length ?cs \<le> 256" "CHR 0x00 \<notin> set input" "CHR 0x5C \<notin> set input" "utf8_length w \<le> fc_maximumPathBytes caps"
    by (auto simp: normalizeWirePath_def Let_def not_less split: if_splits sum.splits)
  have "\<forall>c \<in> set ?cs. CHR 0x00 \<notin> set c \<and> CHR 0x5C \<notin> set c \<and> CHR ''/'' \<notin> set c"
    using ns(4,5) split_on_set by fast
  note safe = normalize_components_safe [OF assms(1) ns(1) this]
  then have comps: "\<forall>n \<in> set ns. safe_component caps n" "ns \<noteq> []" by (auto simp: list_all_iff)
  have split: "split_on CHR ''/'' w = ns"
    unfolding ns(2) using comps by (intro split_join) (auto simp: safe_component_def)
  obtain n rest where Cons: "ns = n # rest" using comps(2) by (cases ns) auto
  have chars: "CHR 0x00 \<notin> set w" "CHR 0x5C \<notin> set w" "CHR '':'' \<notin> set w"
    using join_on_set [of "CHR ''/''" ns] comps(1) ns(2) by (auto simp: safe_component_def)
  obtain a n' where "n = a # n'" using comps(1) Cons by (cases n) (auto simp: safe_component_def)
  then obtain w' where w: "w = a # w'" and "a \<noteq> CHR ''/''"
    using ns(2) Cons comps(1) by (cases rest) (auto simp: safe_component_def)
  moreover have "\<not> has_drive_prefix w" using chars(3) by (auto simp: has_drive_prefix_def split: list.splits)
  ultimately have "normalizeWirePath nfc caps w = Inr w"
    using chars split safe ns(3,6) by (simp add: normalizeWirePath_def ns(2) [symmetric])
  with split safe ns(3,6) show ?thesis by simp
qed

definition ex_caps :: filesystem_capabilities where
  "ex_caps = \<lparr>fc_platform = Linux, fc_caseSensitive = False, fc_unicodeNormalization = Nfc, fc_symlinks = True,
     fc_atomicRename = True, fc_maximumComponentBytes = 255, fc_maximumPathBytes = 4096\<rparr>"

lemma nfc_laws_id: "nfc_laws (\<lambda>s. s)"
  by (simp add: nfc_laws_def)

lemma ex_path: "normalizeWirePath (\<lambda>s. s) ex_caps ''a/b.ts'' = Inr ''a/b.ts''"
  by code_simp

theorem wire_path_portable_witness:
  "list_all (safe_component ex_caps) (split_on CHR ''/'' ''a/b.ts'') \<and> length (split_on CHR ''/'' ''a/b.ts'') \<le> 256 \<and>
     utf8_length ''a/b.ts'' \<le> fc_maximumPathBytes ex_caps \<and> normalizeWirePath (\<lambda>s. s) ex_caps ''a/b.ts'' = Inr ''a/b.ts''"
  by (rule wire_path_portable [OF nfc_laws_id ex_path])

lemma collisions_loop_keys:
  assumes "collisions_loop nfc lower caps observed paths = Inr ()"
  shows "\<exists>ws ks. map (normalizeWirePath nfc caps) paths = map Inr ws \<and>
     map (portabilityCollisionKey nfc lower caps) ws = map Inr ks \<and> distinct ks \<and> (\<forall>k \<in> set ks. map_get observed k = None)"
  using assms
proof (induction nfc lower caps observed paths rule: collisions_loop.induct)
  case (2 nfc lower caps observed path paths)
  then obtain w k where wk: "normalizeWirePath nfc caps path = Inr w" "portabilityCollisionKey nfc lower caps w = Inr k"
    "map_get observed k = None" "collisions_loop nfc lower caps (map_set k w observed) paths = Inr ()"
    by (auto split: sum.splits if_splits)
  with 2 obtain ws ks where "map (normalizeWirePath nfc caps) paths = map Inr ws"
    "map (portabilityCollisionKey nfc lower caps) ws = map Inr ks" "distinct ks"
    "\<forall>k' \<in> set ks. map_get (map_set k w observed) k' = None" by metis
  with wk show ?case by (intro exI [of _ "w # ws"] exI [of _ "k # ks"]) (auto split: if_splits)
qed simp

text \<open>
  Collision freedom: when \<^verbatim>\<open>assertNoPortableCollisions\<close> lets a list of paths through, every
  path normalizes and the collision keys of the normalized paths are pairwise distinct, so
  no two of them share a file on the destination.
\<close>

theorem portable_collisions:
  assumes "assertNoPortableCollisions nfc lower caps paths = Inr ()"
  shows "\<exists>ws ks. map (normalizeWirePath nfc caps) paths = map Inr ws \<and>
     map (portabilityCollisionKey nfc lower caps) ws = map Inr ks \<and> distinct ks"
  using assms collisions_loop_keys unfolding assertNoPortableCollisions_def by blast

lemma ex_no_collision: "assertNoPortableCollisions (\<lambda>s. s) (map ascii_lower) ex_caps [''a/B'', ''a/c''] = Inr ()"
  by code_simp

theorem portable_collisions_witness:
  "\<exists>ws ks. map (normalizeWirePath (\<lambda>s. s) ex_caps) [''a/B'', ''a/c''] = map Inr ws \<and>
     map (portabilityCollisionKey (\<lambda>s. s) (map ascii_lower) ex_caps) ws = map Inr ks \<and> distinct ks"
  by (rule portable_collisions [OF ex_no_collision])

end
