(* ===== verification/Revisions.thy ===== *)
theory Revisions
  imports Json Workspace_Paths "HOL-Library.List_Lexorder" "HOL-Library.Char_ord"
begin

text \<open>
  Vector clocks, conflict records and the revision-and-overlay store,
  \<^verbatim>\<open>src/sync/revisions.ts\<close>. The source keeps clocks, trees and changes in plain objects, so a
  lookup can also find a property of \<^verbatim>\<open>Object.prototype\<close>; lookups here distinguish own,
  inherited and absent properties, and an assignment to \<^verbatim>\<open>__proto__\<close> that is not an own
  property adds none. Own properties are association lists; wherever the source
  enumerates them it sorts them or does not depend on the order. Arguments stand for the
  crypto library (\<open>sha\<close>), for \<^verbatim>\<open>a.localeCompare(b) <= 0\<close> (\<open>le\<close>) and for a fresh identifier
  (\<^verbatim>\<open>idFactory\<close>, \<^verbatim>\<open>randomUUID\<close>). Counters are below \<^verbatim>\<open>2^53\<close>, where the additions of the
  source are exact.
\<close>

section \<open>Plain objects\<close>

type_synonym 'v js_object = "(string \<times> 'v) list"

definition object_prototype_keys :: "string list" where
  "object_prototype_keys = [''constructor'', ''__defineGetter__'', ''__defineSetter__'', ''hasOwnProperty'',
     ''__lookupGetter__'', ''__lookupSetter__'', ''isPrototypeOf'', ''propertyIsEnumerable'', ''toString'',
     ''valueOf'', ''__proto__'', ''toLocaleString'']"

datatype 'v looked = Own 'v | Inherited | Absent

definition js_get :: "'v js_object \<Rightarrow> string \<Rightarrow> 'v looked" where
  "js_get obj key = (case map_of obj key of
     Some v \<Rightarrow> Own v
   | None \<Rightarrow> if key \<in> set object_prototype_keys then Inherited else Absent)"

definition js_assign :: "string \<Rightarrow> 'v \<Rightarrow> 'v js_object \<Rightarrow> 'v js_object" where
  "js_assign key v obj = (if key = ''__proto__'' \<and> map_of obj key = None then obj else AList.update key v obj)"

text \<open>\<^verbatim>\<open>Object.entries(o).sort(([a], [b]) => a.localeCompare(b))\<close>: a stable sort by key.\<close>

fun insort_entry :: "(string \<Rightarrow> string \<Rightarrow> bool) \<Rightarrow> string \<times> 'v \<Rightarrow> (string \<times> 'v) list \<Rightarrow> (string \<times> 'v) list" where
  "insort_entry le e [] = [e]"
| "insort_entry le e (x # xs) = (if le (fst e) (fst x) then e # x # xs else x # insort_entry le e xs)"

definition sort_entries :: "(string \<Rightarrow> string \<Rightarrow> bool) \<Rightarrow> (string \<times> 'v) list \<Rightarrow> (string \<times> 'v) list" where
  "sort_entries le kvs = foldr (insort_entry le) kvs []"

text \<open>\<^verbatim>\<open>[...new Set(xs)]\<close> keeps first occurrences in order.\<close>

definition set_order :: "'a list \<Rightarrow> 'a list" where
  "set_order xs = rev (remdups (rev xs))"

section \<open>Vector clocks\<close>

text \<open>
  A clock value that the typing does not rule out: \<open>Clock_nan\<close> from \<^verbatim>\<open>Math.max\<close> on an
  inherited function, \<open>Clock_text\<close> from adding one to it.
\<close>

datatype clock_value = Ticks int | Clock_nan | Clock_text string
datatype clock_relation = Equal | Before | After | Concurrent

type_synonym vector_clock = "clock_value js_object"

definition clock_invalid :: "string \<Rightarrow> cuna_error" where
  "clock_invalid reason = workspaceError ''clock_invalid'' Integrity reason"

fun assertClockValue :: "clock_value looked \<Rightarrow> bool" where
  "assertClockValue (Own (Ticks n)) \<longleftrightarrow> is_safe_integer n \<and> 0 \<le> n"
| "assertClockValue (Own _) \<longleftrightarrow> False"
| "assertClockValue Inherited \<longleftrightarrow> False"
| "assertClockValue Absent \<longleftrightarrow> True"

fun ticks :: "clock_value looked \<Rightarrow> int" where
  "ticks (Own (Ticks n)) = n"
| "ticks _ = 0"

fun compare_loop ::
  "vector_clock \<Rightarrow> vector_clock \<Rightarrow> bool \<Rightarrow> bool \<Rightarrow> string list \<Rightarrow> cuna_error + clock_relation" where
  "compare_loop l r lt gt [] =
     Inr (if lt \<and> gt then Concurrent else if lt then Before else if gt then After else Equal)"
| "compare_loop l r lt gt (actor # actors) =
     (if \<not> assertClockValue (js_get l actor) \<or> \<not> assertClockValue (js_get r actor)
      then Inl (clock_invalid ''invalid_counter'')
      else compare_loop l r (lt \<or> ticks (js_get l actor) < ticks (js_get r actor))
             (gt \<or> ticks (js_get l actor) > ticks (js_get r actor)) actors)"

definition compareVectorClocks :: "vector_clock \<Rightarrow> vector_clock \<Rightarrow> cuna_error + clock_relation" where
  "compareVectorClocks l r = compare_loop l r False False (set_order (map fst l @ map fst r))"

definition inherited_text :: "string \<Rightarrow> string" where
  "inherited_text key = (if key = ''__proto__'' then ''[object Object]''
     else ''function '' @ (if key = ''constructor'' then ''Object'' else key) @ ''() { [native code] }'')"

definition clock_successor :: "string \<Rightarrow> clock_value looked \<Rightarrow> clock_value" where
  "clock_successor actor v = (case v of
     Own (Ticks n) \<Rightarrow> Ticks (n + 1)
   | Own Clock_nan \<Rightarrow> Clock_nan
   | Own (Clock_text t) \<Rightarrow> Clock_text (t @ ''1'')
   | Inherited \<Rightarrow> Clock_text (inherited_text actor @ ''1'')
   | Absent \<Rightarrow> Ticks 1)"

definition incrementVectorClock :: "vector_clock \<Rightarrow> string \<Rightarrow> cuna_error + vector_clock" where
  "incrementVectorClock clock actorId =
     (if actorId = [] then Inl (clock_invalid ''empty_actor'')
      else Inr (AList.update actorId (clock_successor actorId (js_get clock actorId)) clock))"

fun clock_max :: "clock_value looked \<Rightarrow> int \<Rightarrow> clock_value" where
  "clock_max (Own (Ticks m)) n = Ticks (max m n)"
| "clock_max Absent n = Ticks (max 0 n)"
| "clock_max _ n = Clock_nan"

text \<open>
  The assignment of a number to \<^verbatim>\<open>__proto__\<close> is ignored by the setter of
  \<^verbatim>\<open>Object.prototype\<close>, which \<open>js_assign\<close> covers.
\<close>

fun merge_entries :: "vector_clock \<Rightarrow> (string \<times> clock_value) list \<Rightarrow> cuna_error + vector_clock" where
  "merge_entries merged [] = Inr merged"
| "merge_entries merged ((actor, value) # es) =
     (if \<not> assertClockValue (Own value) then Inl (clock_invalid ''invalid_counter'')
      else merge_entries (js_assign actor (clock_max (js_get merged actor) (ticks (Own value))) merged) es)"

definition mergeVectorClocks :: "(string \<Rightarrow> string \<Rightarrow> bool) \<Rightarrow> vector_clock list \<Rightarrow> cuna_error + vector_clock" where
  "mergeVectorClocks le clocks =
     (case merge_entries [] (concat clocks) of Inl e \<Rightarrow> Inl e | Inr m \<Rightarrow> Inr (sort_entries le m))"

section \<open>Versions and revisions\<close>

datatype version_kind = V_file | V_directory | V_symlink | V_tombstone

record version_reference =
  vr_kind :: version_kind
  vr_digest :: "string option"
  vr_clock :: vector_clock
  vr_operationId :: string

record workspace_revision =
  wr_workspaceId :: string
  wr_revisionId :: string
  wr_parentIds :: "string list"
  wr_manifestRoot :: string
  wr_policyDigest :: string
  wr_tree :: "version_reference js_object"

fun kind_text :: "version_kind \<Rightarrow> string" where
  "kind_text V_file = ''file''"
| "kind_text V_directory = ''directory''"
| "kind_text V_symlink = ''symlink''"
| "kind_text V_tombstone = ''tombstone''"

text \<open>\<^verbatim>\<open>stableJson\<close> of an object whose members are already rendered, of a clock, of a version and of a tree.\<close>

definition stable_object :: "(string \<Rightarrow> string \<Rightarrow> bool) \<Rightarrow> (string \<times> string) list \<Rightarrow> string" where
  "stable_object le members =
     ''{'' @ join_with '','' (map (\<lambda>(k, t). json_quote k @ '':'' @ t) (sort_entries le members)) @ ''}''"

fun clock_value_text :: "clock_value \<Rightarrow> string" where
  "clock_value_text (Ticks n) = int_text n"
| "clock_value_text Clock_nan = ''null''"
| "clock_value_text (Clock_text t) = json_quote t"

definition version_text :: "(string \<Rightarrow> string \<Rightarrow> bool) \<Rightarrow> version_reference \<Rightarrow> string" where
  "version_text le v = stable_object le
     [(''kind'', json_quote (kind_text (vr_kind v))),
      (''digest'', (case vr_digest v of None \<Rightarrow> ''null'' | Some d \<Rightarrow> json_quote d)),
      (''clock'', stable_object le (map (map_prod id clock_value_text) (vr_clock v))),
      (''operationId'', json_quote (vr_operationId v))]"

definition tree_text :: "(string \<Rightarrow> string \<Rightarrow> bool) \<Rightarrow> version_reference js_object \<Rightarrow> string" where
  "tree_text le tree = stable_object le (map (map_prod id (version_text le)) tree)"

definition stableDigest :: "(string \<Rightarrow> string) \<Rightarrow> string \<Rightarrow> string \<Rightarrow> string" where
  "stableDigest sha dom_tag value = sha (dom_tag @ [CHR 0x00] @ value)"

definition createWorkspaceRevision ::
  "(string \<Rightarrow> string) \<Rightarrow> (string \<Rightarrow> string \<Rightarrow> bool) \<Rightarrow> string \<Rightarrow> string list \<Rightarrow> string
   \<Rightarrow> version_reference js_object \<Rightarrow> workspace_revision" where
  "createWorkspaceRevision sha le workspaceId parentIds policyDigest tree =
     (let sorted_tree = sort_entries le tree;
          manifestRoot = stableDigest sha ''cuna-revision-tree-v2'' (tree_text le sorted_tree)
      in \<lparr>wr_workspaceId = workspaceId,
          wr_revisionId = stableDigest sha ''cuna-revision-v2'' (stable_object le
             [(''manifestRoot'', json_quote manifestRoot), (''policyDigest'', json_quote policyDigest),
              (''workspaceId'', json_quote workspaceId)]),
          wr_parentIds = sort (set_order parentIds),
          wr_manifestRoot = manifestRoot,
          wr_policyDigest = policyDigest,
          wr_tree = sorted_tree\<rparr>)"

section \<open>Conflicts\<close>

datatype conflict_class =
  Modify_modify | Modify_delete | Create_create | Rename_modify | Rename_rename | Kind_change
  | Case_collision | Permission_collision

datatype conflict_state = Quarantined | Previewed | Resolved | C_retained
datatype resolution = Res_ours | Res_theirs | Res_delete | Res_merged

record conflict_record =
  cr_conflictId :: string
  cr_workspaceId :: string
  cr_path :: string
  cr_class :: conflict_class
  cr_base :: "version_reference looked"
  cr_ours :: version_reference
  cr_theirs :: version_reference
  cr_generation :: int
  cr_state :: conflict_state
  cr_resolution :: "resolution option"

definition sameVersion :: "version_reference \<Rightarrow> version_reference \<Rightarrow> bool" where
  "sameVersion l r \<longleftrightarrow> vr_kind l = vr_kind r \<and> vr_digest l = vr_digest r"

text \<open>Two inherited properties have neither \<^verbatim>\<open>kind\<close> nor \<^verbatim>\<open>digest\<close> and so count as the same.\<close>

fun sameNullableVersion :: "version_reference looked \<Rightarrow> version_reference looked \<Rightarrow> bool" where
  "sameNullableVersion (Own l) (Own r) = sameVersion l r"
| "sameNullableVersion Inherited Inherited = True"
| "sameNullableVersion Absent Absent = True"
| "sameNullableVersion _ _ = False"

definition inferConflictClass :: "version_reference looked \<Rightarrow> version_reference \<Rightarrow> version_reference \<Rightarrow> conflict_class" where
  "inferConflictClass base ours theirs =
     (if vr_kind ours \<noteq> vr_kind theirs \<and> vr_kind ours \<noteq> V_tombstone \<and> vr_kind theirs \<noteq> V_tombstone then Kind_change
      else if vr_kind ours = V_tombstone \<or> vr_kind theirs = V_tombstone then Modify_delete
      else if base = Absent then Create_create
      else Modify_modify)"

definition base_text :: "(string \<Rightarrow> string \<Rightarrow> bool) \<Rightarrow> string \<Rightarrow> version_reference looked \<Rightarrow> string" where
  "base_text le path base = (case base of
     Own v \<Rightarrow> version_text le v
   | Absent \<Rightarrow> ''null''
   | Inherited \<Rightarrow> if path = ''__proto__'' then ''{}'' else ''undefined'')"

datatype classification = Converged | Ordered | In_conflict conflict_record

definition classifyConflict ::
  "(string \<Rightarrow> string) \<Rightarrow> (string \<Rightarrow> string \<Rightarrow> bool) \<Rightarrow> string \<Rightarrow> string \<Rightarrow> version_reference looked
   \<Rightarrow> version_reference \<Rightarrow> version_reference \<Rightarrow> conflict_class option \<Rightarrow> cuna_error + classification" where
  "classifyConflict sha le workspaceId path base ours theirs classHint =
     (if sameVersion ours theirs then Inr Converged
      else case compareVectorClocks (vr_clock ours) (vr_clock theirs) of
        Inl e \<Rightarrow> Inl e
      | Inr relation \<Rightarrow>
          if relation \<noteq> Concurrent \<and> relation \<noteq> Equal then Inr Ordered
          else Inr (In_conflict
            \<lparr>cr_conflictId = stableDigest sha ''cuna-conflict-v2'' (stable_object le
               [(''base'', base_text le path base), (''ours'', version_text le ours), (''path'', json_quote path),
                (''theirs'', version_text le theirs), (''workspaceId'', json_quote workspaceId)]),
             cr_workspaceId = workspaceId, cr_path = path,
             cr_class = (case classHint of Some c \<Rightarrow> c | None \<Rightarrow> inferConflictClass base ours theirs),
             cr_base = base, cr_ours = ours, cr_theirs = theirs, cr_generation = 1, cr_state = Quarantined,
             cr_resolution = None\<rparr>))"

type_synonym conflict_store = "(string, conflict_record) js_map"

definition conflict_add :: "conflict_store \<Rightarrow> conflict_record \<Rightarrow> conflict_record \<times> conflict_store" where
  "conflict_add s r = (case map_get s (cr_conflictId r) of
     Some existing \<Rightarrow> (existing, s)
   | None \<Rightarrow> (r, map_set (cr_conflictId r) r s))"

definition conflict_required :: "conflict_store \<Rightarrow> string \<Rightarrow> cuna_error + conflict_record" where
  "conflict_required s conflictId = (case map_get s conflictId of
     None \<Rightarrow> Inl (workspaceError ''conflict_unknown'' Conflict ''not_found'') | Some r \<Rightarrow> Inr r)"

definition conflictCasFailure :: cuna_error where
  "conflictCasFailure = workspaceError ''conflict_stale'' Conflict ''generation_cas''"

definition conflict_transition ::
  "conflict_store \<Rightarrow> string \<Rightarrow> int \<Rightarrow> conflict_state \<Rightarrow> cuna_error + conflict_record \<times> conflict_store" where
  "conflict_transition s conflictId expectedGeneration state =
     (case conflict_required s conflictId of
        Inl e \<Rightarrow> Inl e
      | Inr current \<Rightarrow>
          if cr_generation current \<noteq> expectedGeneration then Inl conflictCasFailure
          else let next = current\<lparr>cr_generation := cr_generation current + 1, cr_state := state\<rparr>
               in Inr (next, map_set conflictId next s))"

definition conflict_preview :: "conflict_store \<Rightarrow> string \<Rightarrow> int \<Rightarrow> cuna_error + conflict_record \<times> conflict_store" where
  "conflict_preview s conflictId expectedGeneration = conflict_transition s conflictId expectedGeneration Previewed"

definition conflict_resolve ::
  "conflict_store \<Rightarrow> string \<Rightarrow> int \<Rightarrow> resolution \<Rightarrow> cuna_error + conflict_record \<times> conflict_store" where
  "conflict_resolve s conflictId expectedGeneration r =
     (case conflict_required s conflictId of
        Inl e \<Rightarrow> Inl e
      | Inr current \<Rightarrow>
          if cr_state current \<noteq> Previewed then Inl (workspaceError ''conflict_state'' Conflict ''preview_required'')
          else if cr_generation current \<noteq> expectedGeneration then Inl conflictCasFailure
          else let next = current\<lparr>cr_generation := cr_generation current + 1, cr_state := Resolved, cr_resolution := Some r\<rparr>
               in Inr (next, map_set conflictId next s))"

section \<open>Overlays\<close>

datatype overlay_state = O_writable | O_sealed | O_merge_pending | O_merged | O_conflicted | O_retained

record session_overlay =
  so_overlayId :: string
  so_workspaceId :: string
  so_machineId :: string
  so_userId :: string
  so_agentSessionId :: string
  so_baseRevision :: string
  so_policyDigest :: string
  so_generation :: int
  so_state :: overlay_state
  so_quotaBytes :: int
  so_admittedBytes :: int
  so_changes :: "version_reference js_object"
  so_retentionDeadline :: "string option"

record revision_store =
  rs_revisions :: "(string, workspace_revision) js_map"
  rs_overlays :: "(string, session_overlay) js_map"
  rs_overlayBySession :: "(string, string) js_map"
  rs_overlayPathBytes :: "(string, (string, int) js_map) js_map"
  rs_conflicts :: conflict_store
  rs_head :: string

definition store_new :: "workspace_revision \<Rightarrow> revision_store" where
  "store_new r = \<lparr>rs_revisions = [(wr_revisionId r, r)], rs_overlays = [], rs_overlayBySession = [],
     rs_overlayPathBytes = [], rs_conflicts = [], rs_head = wr_revisionId r\<rparr>"

definition overlayCasFailure :: cuna_error where
  "overlayCasFailure = workspaceError ''overlay_stale'' Conflict ''generation_cas''"

definition nonDisclosingOverlayFailure :: cuna_error where
  "nonDisclosingOverlayFailure = workspaceError ''overlay_unavailable'' Policy ''not_found_or_forbidden''"

definition requiredOverlay :: "revision_store \<Rightarrow> string \<Rightarrow> cuna_error + session_overlay" where
  "requiredOverlay s overlayId = (case map_get (rs_overlays s) overlayId of
     None \<Rightarrow> Inl nonDisclosingOverlayFailure | Some ov \<Rightarrow> Inr ov)"

definition requiredRevision :: "revision_store \<Rightarrow> string \<Rightarrow> cuna_error + workspace_revision" where
  "requiredRevision s revisionId = (case map_get (rs_revisions s) revisionId of
     None \<Rightarrow> Inl (workspaceError ''revision_unknown'' Conflict ''not_found'') | Some r \<Rightarrow> Inr r)"

record overlay_request =
  oq_workspaceId :: string
  oq_machineId :: string
  oq_userId :: string
  oq_agentSessionId :: string
  oq_baseRevision :: string
  oq_policyDigest :: string
  oq_quotaBytes :: int
  oq_confinementAvailable :: bool
  oq_atomicRenameAvailable :: bool

definition allocateOverlay ::
  "revision_store \<Rightarrow> overlay_request \<Rightarrow> string \<Rightarrow> cuna_error + session_overlay \<times> revision_store" where
  "allocateOverlay s i freshId =
     (if \<not> oq_confinementAvailable i \<or> \<not> oq_atomicRenameAvailable i
      then Inl (workspaceError ''overlay_unsupported'' Unsupported ''confinement_or_atomicity_missing'')
      else if map_get (rs_overlayBySession s) (oq_agentSessionId i) \<noteq> None
      then Inl (workspaceError ''overlay_exists'' Conflict ''one_overlay_per_session'')
      else case requiredRevision s (oq_baseRevision i) of
        Inl e \<Rightarrow> Inl e
      | Inr base \<Rightarrow>
          if wr_workspaceId base \<noteq> oq_workspaceId i \<or> wr_policyDigest base \<noteq> oq_policyDigest i
          then Inl (workspaceError ''overlay_identity'' Policy ''base_or_policy_mismatch'')
          else if \<not> is_safe_integer (oq_quotaBytes i) \<or> oq_quotaBytes i < 1
          then Inl (workspaceError ''overlay_quota'' Policy ''invalid_quota'')
          else let ov = \<lparr>so_overlayId = freshId, so_workspaceId = oq_workspaceId i, so_machineId = oq_machineId i,
                         so_userId = oq_userId i, so_agentSessionId = oq_agentSessionId i,
                         so_baseRevision = oq_baseRevision i, so_policyDigest = oq_policyDigest i,
                         so_generation = 1, so_state = O_writable, so_quotaBytes = oq_quotaBytes i,
                         so_admittedBytes = 0, so_changes = [], so_retentionDeadline = None\<rparr>
               in Inr (ov, s\<lparr>rs_overlays := map_set freshId ov (rs_overlays s),
                             rs_overlayBySession := map_set (oq_agentSessionId i) freshId (rs_overlayBySession s),
                             rs_overlayPathBytes := map_set freshId [] (rs_overlayPathBytes s)\<rparr>))"

record change_request =
  cq_overlayId :: string
  cq_agentSessionId :: string
  cq_expectedGeneration :: int
  cq_path :: string
  cq_capabilities :: filesystem_capabilities
  cq_version :: version_reference
  cq_accountedBytes :: int

definition applyChange ::
  "(string \<Rightarrow> string) \<Rightarrow> revision_store \<Rightarrow> change_request \<Rightarrow> cuna_error + session_overlay \<times> revision_store" where
  "applyChange nfc s i =
     (case requiredOverlay s (cq_overlayId i) of
        Inl e \<Rightarrow> Inl e
      | Inr ov \<Rightarrow>
          if so_agentSessionId ov \<noteq> cq_agentSessionId i then Inl nonDisclosingOverlayFailure
          else if so_state ov \<noteq> O_writable \<or> so_generation ov \<noteq> cq_expectedGeneration i then Inl overlayCasFailure
          else case normalizeWirePath nfc (cq_capabilities i) (cq_path i) of
            Inl e \<Rightarrow> Inl e
          | Inr path \<Rightarrow>
              if \<not> is_safe_integer (cq_accountedBytes i) \<or> cq_accountedBytes i < 0
              then Inl (workspaceError ''overlay_quota'' Integrity ''invalid_accounting'')
              else case map_get (rs_overlayPathBytes s) (cq_overlayId i) of
                None \<Rightarrow> Inl nonDisclosingOverlayFailure
              | Some pathBytes \<Rightarrow>
                  let previous = (case map_get pathBytes path of None \<Rightarrow> 0 | Some b \<Rightarrow> b);
                      admitted = so_admittedBytes ov - previous + cq_accountedBytes i
                  in if admitted > so_quotaBytes ov
                     then Inl (workspaceError ''overlay_full'' Policy ''quota_exhausted'')
                     else let next = ov\<lparr>so_generation := so_generation ov + 1, so_admittedBytes := admitted,
                                so_changes := AList.update path (cq_version i) (so_changes ov)\<rparr>
                          in Inr (next, s\<lparr>rs_overlays := map_set (cq_overlayId i) next (rs_overlays s),
                                rs_overlayPathBytes := map_set (cq_overlayId i)
                                  (map_set path (cq_accountedBytes i) pathBytes) (rs_overlayPathBytes s)\<rparr>))"

definition set_overlay :: "string \<Rightarrow> session_overlay \<Rightarrow> revision_store \<Rightarrow> session_overlay \<times> revision_store" where
  "set_overlay overlayId next s = (next, s\<lparr>rs_overlays := map_set overlayId next (rs_overlays s)\<rparr>)"

definition overlay_seal ::
  "revision_store \<Rightarrow> string \<Rightarrow> string \<Rightarrow> int \<Rightarrow> string option \<Rightarrow> cuna_error + session_overlay \<times> revision_store" where
  "overlay_seal s overlayId agentSessionId expectedGeneration retentionDeadline =
     (case requiredOverlay s overlayId of
        Inl e \<Rightarrow> Inl e
      | Inr ov \<Rightarrow>
          if so_agentSessionId ov \<noteq> agentSessionId then Inl nonDisclosingOverlayFailure
          else if so_state ov \<noteq> O_writable \<or> so_generation ov \<noteq> expectedGeneration then Inl overlayCasFailure
          else Inr (set_overlay overlayId (ov\<lparr>so_generation := so_generation ov + 1, so_state := O_sealed,
                 so_retentionDeadline := (case retentionDeadline of None \<Rightarrow> so_retentionDeadline ov | d \<Rightarrow> d)\<rparr>) s))"

definition retainAfterExit ::
  "revision_store \<Rightarrow> string \<Rightarrow> string \<Rightarrow> string \<Rightarrow> cuna_error + session_overlay \<times> revision_store" where
  "retainAfterExit s overlayId agentSessionId retentionDeadline =
     (case requiredOverlay s overlayId of
        Inl e \<Rightarrow> Inl e
      | Inr ov \<Rightarrow>
          if so_agentSessionId ov \<noteq> agentSessionId then Inl nonDisclosingOverlayFailure
          else if so_state ov = O_merged then Inr (ov, s)
          else Inr (set_overlay overlayId (ov\<lparr>so_generation := so_generation ov + 1, so_state := O_retained,
                 so_retentionDeadline := Some retentionDeadline\<rparr>) s))"

section \<open>Merge\<close>

text \<open>A \<^verbatim>\<open>TypeError\<close> is thrown where the clock of an inherited property would be enumerated.\<close>

datatype merge_error = Workspace_error cuna_error | Type_error

definition tombstoneFor :: "string \<Rightarrow> string \<Rightarrow> version_reference" where
  "tombstoneFor path revisionId = \<lparr>vr_kind = V_tombstone, vr_digest = None, vr_clock = [],
     vr_operationId = ''absent:'' @ revisionId @ '':'' @ path\<rparr>"

text \<open>
  Assigning to \<^verbatim>\<open>__proto__\<close> makes the frozen version the prototype of the result; from then on a key
  that only the prototype has cannot be assigned, which is a \<^verbatim>\<open>TypeError\<close> in a module.
\<close>

definition version_keys :: "string list" where
  "version_keys = [''kind'', ''digest'', ''clock'', ''operationId'']"

record merge_state =
  ms_tree :: "version_reference js_object"
  ms_shadowed :: bool
  ms_found :: "conflict_record list"
  ms_store :: conflict_store

definition merge_path ::
  "(string \<Rightarrow> string) \<Rightarrow> (string \<Rightarrow> string \<Rightarrow> bool) \<Rightarrow> string \<Rightarrow> workspace_revision \<Rightarrow> workspace_revision
   \<Rightarrow> string \<Rightarrow> version_reference \<Rightarrow> merge_state \<Rightarrow> merge_error + merge_state" where
  "merge_path sha le workspaceId base head path ours m =
     (let baseVersion = js_get (wr_tree base) path;
          headVersion = js_get (wr_tree head) path;
          absent = (map_of (ms_tree m) path = None);
          take_ours = (if ms_shadowed m \<and> path \<in> set version_keys \<and> absent then Inl Type_error
            else Inr (m\<lparr>ms_tree := js_assign path ours (ms_tree m), ms_shadowed := ms_shadowed m \<or> (path = ''__proto__'' \<and> absent)\<rparr>))
      in if sameNullableVersion baseVersion headVersion then take_ours
         else if headVersion = Inherited then Inl Type_error
         else let theirs = (case headVersion of Own v \<Rightarrow> v | _ \<Rightarrow> tombstoneFor path (wr_revisionId head))
           in if sameVersion ours theirs then take_ours
              else case classifyConflict sha le workspaceId path baseVersion ours theirs None of
                Inl e \<Rightarrow> Inl (Workspace_error e)
              | Inr (In_conflict c) \<Rightarrow>
                  let (r, store) = conflict_add (ms_store m) c
                  in Inr (m\<lparr>ms_found := ms_found m @ [r], ms_store := store\<rparr>)
              | Inr Ordered \<Rightarrow>
                  (case compareVectorClocks (vr_clock ours) (vr_clock theirs) of
                     Inl e \<Rightarrow> Inl (Workspace_error e)
                   | Inr relation \<Rightarrow> if relation = After then take_ours else Inr m)
              | Inr Converged \<Rightarrow> Inr m)"

fun merge_loop ::
  "(string \<Rightarrow> string) \<Rightarrow> (string \<Rightarrow> string \<Rightarrow> bool) \<Rightarrow> string \<Rightarrow> workspace_revision \<Rightarrow> workspace_revision
   \<Rightarrow> (string \<times> version_reference) list \<Rightarrow> merge_state \<Rightarrow> merge_error option \<times> merge_state" where
  "merge_loop sha le workspaceId base head [] m = (None, m)"
| "merge_loop sha le workspaceId base head ((path, ours) # changes) m =
     (case merge_path sha le workspaceId base head path ours m of
        Inl e \<Rightarrow> (Some e, m)
      | Inr m' \<Rightarrow> merge_loop sha le workspaceId base head changes m')"

record merge_request =
  mq_overlayId :: string
  mq_agentSessionId :: string
  mq_expectedOverlayGeneration :: int
  mq_expectedHead :: string
  mq_policyDigest :: string

record merge_result =
  mr_overlay :: session_overlay
  mr_revision :: "workspace_revision option"
  mr_conflicts :: "conflict_record list"

definition setOverlayState :: "session_overlay \<Rightarrow> overlay_state \<Rightarrow> revision_store \<Rightarrow> session_overlay \<times> revision_store" where
  "setOverlayState ov state s = set_overlay (so_overlayId ov) (ov\<lparr>so_generation := so_generation ov + 1, so_state := state\<rparr>) s"

definition merge_overlay ::
  "(string \<Rightarrow> string) \<Rightarrow> (string \<Rightarrow> string \<Rightarrow> bool) \<Rightarrow> revision_store \<Rightarrow> session_overlay \<Rightarrow> workspace_revision
   \<Rightarrow> workspace_revision \<Rightarrow> (merge_error + merge_result) \<times> revision_store" where
  "merge_overlay sha le s ov base head =
     (case merge_loop sha le (so_workspaceId ov) base head (sort_entries le (so_changes ov))
             \<lparr>ms_tree = wr_tree head, ms_shadowed = False, ms_found = [], ms_store = rs_conflicts s\<rparr> of
        (Some e, m) \<Rightarrow> (Inl e, s\<lparr>rs_conflicts := ms_store m\<rparr>)
      | (None, m) \<Rightarrow>
          let s1 = s\<lparr>rs_conflicts := ms_store m\<rparr> in
          if ms_found m \<noteq> []
          then let (ov', s') = setOverlayState ov O_conflicted s1
               in (Inr \<lparr>mr_overlay = ov', mr_revision = None, mr_conflicts = ms_found m\<rparr>, s')
          else let r = createWorkspaceRevision sha le (so_workspaceId ov)
                         (wr_revisionId head # (if wr_revisionId base = wr_revisionId head then [] else [wr_revisionId base]))
                         (so_policyDigest ov) (ms_tree m);
                   s2 = s1\<lparr>rs_revisions := map_set (wr_revisionId r) r (rs_revisions s1), rs_head := wr_revisionId r\<rparr>;
                   (ov', s') = setOverlayState ov O_merged s2
               in (Inr \<lparr>mr_overlay = ov', mr_revision = Some r, mr_conflicts = []\<rparr>, s'))"

definition store_merge ::
  "(string \<Rightarrow> string) \<Rightarrow> (string \<Rightarrow> string \<Rightarrow> bool) \<Rightarrow> revision_store \<Rightarrow> merge_request
   \<Rightarrow> (merge_error + merge_result) \<times> revision_store" where
  "store_merge sha le s i =
     (case requiredOverlay s (mq_overlayId i) of
        Inl e \<Rightarrow> (Inl (Workspace_error e), s)
      | Inr ov \<Rightarrow>
          if so_agentSessionId ov \<noteq> mq_agentSessionId i then (Inl (Workspace_error nonDisclosingOverlayFailure), s)
          else if so_state ov \<noteq> O_sealed \<or> so_generation ov \<noteq> mq_expectedOverlayGeneration i
          then (Inl (Workspace_error overlayCasFailure), s)
          else if mq_expectedHead i \<noteq> rs_head s \<or> mq_policyDigest i \<noteq> so_policyDigest ov
          then (Inl (Workspace_error (workspaceError ''merge_stale'' Conflict ''head_or_policy_cas'')), s)
          else case requiredRevision s (so_baseRevision ov) of
            Inl e \<Rightarrow> (Inl (Workspace_error e), s)
          | Inr base \<Rightarrow>
              (case requiredRevision s (rs_head s) of
                 Inl e \<Rightarrow> (Inl (Workspace_error e), s)
               | Inr head \<Rightarrow> merge_overlay sha le s ov base head))"

end
