(* ===== verification/Revision_Proofs.thy ===== *)
theory Revision_Proofs
  imports Revisions
begin

text \<open>
  The theorems on \<open>Revisions\<close>: the vector-clock comparison decides the causal order
  and the merge of clocks is its least upper bound; the overlay store keeps its accounting
  within quota and gives a session one overlay; a merge either quarantines its conflicts
  and leaves the head alone, or publishes a revision in which no change of the overlay is
  lost unless a causally later version supersedes it.
\<close>

section \<open>Sorted entries\<close>

lemma insort_entry_set [simp]: "set (insort_entry le e xs) = insert e (set xs)"
  by (induction xs) auto

lemma insort_entry_distinct [simp]:
  "distinct (map fst (insort_entry le e xs)) \<longleftrightarrow> fst e \<notin> fst ` set xs \<and> distinct (map fst xs)"
  by (induction xs) auto

lemma sort_entries_set [simp]: "set (sort_entries le xs) = set xs"
  by (induction xs) (simp_all add: sort_entries_def)

lemma sort_entries_distinct [simp]: "distinct (map fst (sort_entries le xs)) = distinct (map fst xs)"
proof (induction xs)
  case (Cons x xs)
  have "set (foldr (insort_entry le) xs []) = set xs" using sort_entries_set [of le xs] by (simp add: sort_entries_def)
  with Cons show ?case by (simp add: sort_entries_def)
qed (simp add: sort_entries_def)

lemma sort_entries_get: "distinct (map fst xs) \<Longrightarrow> map_of (sort_entries le xs) = map_of xs"
  by (simp add: map_of_inject_set)

lemma js_assign_distinct: "distinct (map fst obj) \<Longrightarrow> distinct (map fst (js_assign k v obj))"
  by (simp add: js_assign_def)

lemma js_assign_get:
  "k' \<noteq> k \<Longrightarrow> map_of (js_assign k v obj) k' = map_of obj k'"
  "k \<noteq> ''__proto__'' \<Longrightarrow> map_of (js_assign k v obj) k = Some v"
  by (simp_all add: js_assign_def)

section \<open>Clocks\<close>

definition clock_at :: "vector_clock \<Rightarrow> string \<Rightarrow> int" where
  "clock_at c a = ticks (js_get c a)"

definition valid_clock :: "vector_clock \<Rightarrow> bool" where
  "valid_clock c \<longleftrightarrow> distinct (map fst c) \<and>
     (\<forall>(a, v) \<in> set c. a \<notin> set object_prototype_keys \<and> assertClockValue (Own v))"

definition clock_le :: "vector_clock \<Rightarrow> vector_clock \<Rightarrow> bool" where
  "clock_le c d \<longleftrightarrow> (\<forall>a. clock_at c a \<le> clock_at d a)"

text \<open>The specification of the comparison.\<close>

definition causal_relation :: "vector_clock \<Rightarrow> vector_clock \<Rightarrow> clock_relation" where
  "causal_relation c d = (if clock_le c d then if clock_le d c then Equal else Before
     else if clock_le d c then After else Concurrent)"

lemma valid_clock_get:
  assumes "valid_clock c" and "a \<notin> set object_prototype_keys"
  shows "assertClockValue (js_get c a) \<and> 0 \<le> clock_at c a"
proof (cases "map_of c a")
  case (Some v)
  then have "assertClockValue (Own v)" using assms(1) map_of_SomeD [OF Some] by (auto simp: valid_clock_def)
  with Some show ?thesis by (cases v) (simp_all add: js_get_def clock_at_def)
qed (use assms(2) in \<open>simp add: js_get_def clock_at_def\<close>)

lemma clock_at_absent: "a \<notin> fst ` set c \<Longrightarrow> clock_at c a = 0"
  by (simp add: clock_at_def js_get_def map_of_eq_None_iff [THEN iffD2])

lemma valid_clock_actor: "valid_clock c \<Longrightarrow> a \<in> fst ` set c \<Longrightarrow> a \<notin> set object_prototype_keys"
  by (auto simp: valid_clock_def)

lemma valid_clock_at_nonneg:
  assumes "valid_clock c"
  shows "0 \<le> clock_at c a"
proof (cases "a \<in> fst ` set c")
  case True
  with assms show ?thesis using valid_clock_actor valid_clock_get by blast
qed (simp add: clock_at_absent)

lemma compare_loop_spec:
  assumes "\<forall>a \<in> set actors. assertClockValue (js_get l a) \<and> assertClockValue (js_get r a)"
  shows "compare_loop l r lt gt actors = compare_loop l r
     (lt \<or> (\<exists>a \<in> set actors. clock_at l a < clock_at r a)) (gt \<or> (\<exists>a \<in> set actors. clock_at r a < clock_at l a)) []"
  using assms by (induction actors arbitrary: lt gt) (auto simp: clock_at_def disj_ac)

lemma set_order_set [simp]: "set (set_order xs) = set xs"
  by (simp add: set_order_def)

lemma exists_actor_less:
  "(\<exists>a \<in> set (set_order (map fst l @ map fst r)). clock_at l a < clock_at r a) \<longleftrightarrow> \<not> clock_le r l"
  "(\<exists>a \<in> set (set_order (map fst l @ map fst r)). clock_at r a < clock_at l a) \<longleftrightarrow> \<not> clock_le l r"
proof -
  have "clock_at l a = 0 \<and> clock_at r a = 0" if "a \<notin> set (set_order (map fst l @ map fst r))" for a
    using that clock_at_absent by simp
  then show "(\<exists>a \<in> set (set_order (map fst l @ map fst r)). clock_at l a < clock_at r a) \<longleftrightarrow> \<not> clock_le r l"
    "(\<exists>a \<in> set (set_order (map fst l @ map fst r)). clock_at r a < clock_at l a) \<longleftrightarrow> \<not> clock_le l r"
    unfolding clock_le_def not_all not_le by (metis less_irrefl)+
qed

lemma compare_causal:
  assumes "valid_clock l" and "valid_clock r"
  shows "compareVectorClocks l r = Inr (causal_relation l r)"
proof -
  have "\<forall>a \<in> set (set_order (map fst l @ map fst r)). assertClockValue (js_get l a) \<and> assertClockValue (js_get r a)"
    using assms valid_clock_get valid_clock_actor by (simp only: set_order_set set_append set_map) blast
  note spec = compare_loop_spec [OF this]
  show ?thesis unfolding compareVectorClocks_def spec exists_actor_less by (simp add: causal_relation_def)
qed

lemma js_assign_at: "a \<noteq> ''__proto__'' \<Longrightarrow> clock_at (js_assign a (Ticks n) c) b = (if b = a then n else clock_at c b)"
  by (simp add: clock_at_def js_get_def js_assign_def)

lemma update_entry_cases: "(k, v) \<in> set (AList.update a n c) \<Longrightarrow> (k = a \<and> v = n) \<or> (k, v) \<in> set c"
  by (induction c) (auto split: if_splits)

lemma js_assign_valid:
  assumes "valid_clock c" and "a \<notin> set object_prototype_keys" and "is_safe_integer n" and "0 \<le> n"
  shows "valid_clock (js_assign a (Ticks n) c)"
  using assms by (auto simp: valid_clock_def js_assign_def dest!: update_entry_cases)

lemma clock_max_ticks:
  assumes "valid_clock c" and "a \<notin> set object_prototype_keys" and "0 \<le> n"
  shows "clock_max (js_get c a) n = Ticks (max (clock_at c a) n)"
  using valid_clock_get [OF assms(1,2)] assms by (cases "(js_get c a, n)" rule: clock_max.cases)
    (auto simp: clock_at_def js_get_def split: option.splits)

lemma merge_entries_lub:
  assumes "valid_clock merged" and "\<forall>(a, v) \<in> set es. a \<notin> set object_prototype_keys \<and> assertClockValue (Own v)"
  shows "\<exists>m. merge_entries merged es = Inr m \<and> valid_clock m \<and> clock_le merged m \<and>
     (\<forall>(a, v) \<in> set es. ticks (Own v) \<le> clock_at m a) \<and>
     (\<forall>u. clock_le merged u \<longrightarrow> (\<forall>(a, v) \<in> set es. ticks (Own v) \<le> clock_at u a) \<longrightarrow> clock_le m u)"
  using assms
proof (induction merged es rule: merge_entries.induct)
  case (1 merged)
  then show ?case by (auto simp: clock_le_def)
next
  case (2 merged a v es)
  then obtain n where v: "v = Ticks n" "is_safe_integer n" "0 \<le> n" and a: "a \<notin> set object_prototype_keys"
    by (cases v) auto
  let ?m = "js_assign a (Ticks (max (clock_at merged a) n)) merged"
  have ap: "a \<noteq> ''__proto__''" using a by (auto simp: object_prototype_keys_def)
  have "is_safe_integer (max (clock_at merged a) n)"
    using valid_clock_get [OF 2(2) a] v(2) by (cases "js_get merged a" rule: assertClockValue.cases)
      (auto simp: clock_at_def max_def is_safe_integer_def)
  then have val: "valid_clock ?m" using 2(2) a v(3) by (intro js_assign_valid) auto
  have "clock_max (js_get merged a) (ticks (Own v)) = Ticks (max (clock_at merged a) n)"
    using clock_max_ticks [OF 2(2) a v(3)] v(1) by simp
  then have step: "merge_entries merged ((a, v) # es) = merge_entries ?m es" and assert: "assertClockValue (Own v)"
    using v by simp_all
  have "\<forall>(a, v) \<in> set es. a \<notin> set object_prototype_keys \<and> assertClockValue (Own v)" using 2(3) by simp
  with 2(1) [of] assert val v(1) \<open>clock_max _ _ = _\<close> obtain m where m: "merge_entries ?m es = Inr m" "valid_clock m" "clock_le ?m m"
    "\<forall>(a, v) \<in> set es. ticks (Own v) \<le> clock_at m a"
    "\<forall>u. clock_le ?m u \<longrightarrow> (\<forall>(a, v) \<in> set es. ticks (Own v) \<le> clock_at u a) \<longrightarrow> clock_le m u"
    by auto
  have "clock_le merged m" "n \<le> clock_at m a"
    using m(3) ap by (auto simp: clock_le_def js_assign_at split: if_splits)
  moreover have "clock_le ?m u" if "clock_le merged u" "n \<le> clock_at u a" for u
    using that ap by (auto simp: clock_le_def js_assign_at)
  ultimately show ?case using m step v(1) by auto
qed

lemma clock_le_entries:
  assumes "valid_clock c" and "valid_clock u"
  shows "clock_le c u \<longleftrightarrow> (\<forall>(a, v) \<in> set c. ticks (Own v) \<le> clock_at u a)"
proof -
  have own: "clock_at c a = ticks (Own v)" if "(a, v) \<in> set c" for a v
    using that assms(1) by (simp add: clock_at_def js_get_def valid_clock_def)
  have "clock_at c a \<le> clock_at u a" if "\<forall>(a, v) \<in> set c. ticks (Own v) \<le> clock_at u a" for a
  proof (cases "a \<in> fst ` set c")
    case True
    then obtain v where "(a, v) \<in> set c" by force
    with that own show ?thesis by auto
  next
    case False
    then show ?thesis using valid_clock_at_nonneg [OF assms(2)] by (simp add: clock_at_absent)
  qed
  moreover have "\<forall>(a, v) \<in> set c. ticks (Own v) \<le> clock_at u a" if "\<forall>a. clock_at c a \<le> clock_at u a"
    using that own by (metis (mono_tags, lifting) case_prodI2)
  ultimately show ?thesis unfolding clock_le_def by blast
qed

section \<open>Merging one path\<close>

text \<open>No valid comparison puts a clock before the empty clock of an absent path.\<close>

lemma compare_loop_empty:
  assumes "compare_loop l [] False gt actors = Inr rel"
  shows "rel \<noteq> Before"
  using assms
proof (induction actors arbitrary: gt)
  case (Cons a actors)
  then have "assertClockValue (js_get l a)" "ticks (js_get [] a) = 0"
    by (auto simp: js_get_def split: if_splits)
  then have "0 \<le> ticks (js_get l a)" by (cases "js_get l a" rule: assertClockValue.cases) auto
  with Cons \<open>ticks (js_get [] a) = 0\<close> show ?case by (auto split: if_splits)
qed (auto split: if_splits)

definition superseded :: "workspace_revision \<Rightarrow> string \<Rightarrow> version_reference \<Rightarrow> bool" where
  "superseded head path ours \<longleftrightarrow> (\<exists>theirs. map_of (wr_tree head) path = Some theirs \<and>
     compareVectorClocks (vr_clock ours) (vr_clock theirs) = Inr Before)"

text \<open>
  When the overlay's version may take the place of the head's: nobody changed the path since the
  overlay was based, or both sides hold the same content, or the overlay's version causally follows
  the head's (a path the head does not have counts as deleted there).
\<close>

definition same_content :: "version_reference option \<Rightarrow> version_reference option \<Rightarrow> bool" where
  "same_content l r \<longleftrightarrow> map_option (\<lambda>v. (vr_kind v, vr_digest v)) l = map_option (\<lambda>v. (vr_kind v, vr_digest v)) r"

definition overlay_wins :: "workspace_revision \<Rightarrow> workspace_revision \<Rightarrow> string \<Rightarrow> version_reference \<Rightarrow> bool" where
  "overlay_wins base head path ours \<longleftrightarrow>
     (let theirs = (case map_of (wr_tree head) path of Some v \<Rightarrow> v | None \<Rightarrow> tombstoneFor path (wr_revisionId head)) in
      same_content (map_of (wr_tree base) path) (map_of (wr_tree head) path) \<or> same_content (Some ours) (Some theirs) \<or>
      compareVectorClocks (vr_clock ours) (vr_clock theirs) = Inr After)"

lemma js_get_Own: "js_get obj k = Own v \<longleftrightarrow> map_of obj k = Some v"
  by (simp add: js_get_def split: option.splits)

lemma js_get_same_content: "sameNullableVersion (js_get b k) (js_get h k) \<longleftrightarrow> same_content (map_of b k) (map_of h k)"
  by (auto simp: js_get_def same_content_def sameVersion_def split: option.splits)

lemma js_get_theirs: "(case js_get h k of Own v \<Rightarrow> v | _ \<Rightarrow> d) = (case map_of h k of Some v \<Rightarrow> v | None \<Rightarrow> d)"
  by (simp add: js_get_def split: option.splits)

lemma conflict_add_cases:
  assumes "conflict_add s c = (r, s')"
  shows "map_get s' (cr_conflictId c) = Some r \<and> (\<forall>k v. map_get s k = Some v \<longrightarrow> map_get s' k = Some v)"
  using assms by (auto simp: conflict_add_def split: option.splits)

lemma classify_Ordered:
  assumes "classifyConflict sha le w path base ours theirs hint = Inr Ordered"
  shows "\<exists>rel. compareVectorClocks (vr_clock ours) (vr_clock theirs) = Inr rel \<and> (rel = Before \<or> rel = After)"
proof -
  from assms obtain rel where "compareVectorClocks (vr_clock ours) (vr_clock theirs) = Inr rel" "rel \<noteq> Concurrent" "rel \<noteq> Equal"
    by (auto simp: classifyConflict_def split: if_splits sum.splits)
  then show ?thesis by (cases rel) auto
qed

lemma merge_path_cases:
  assumes "merge_path sha le w base head path ours m = Inr m'"
  obtains (ours) b where "m' = m\<lparr>ms_tree := js_assign path ours (ms_tree m), ms_shadowed := b\<rparr>" "overlay_wins base head path ours"
  | (theirs) "m' = m" "superseded head path ours"
  | (conflict) c r store where "conflict_add (ms_store m) c = (r, store)"
      "m' = m\<lparr>ms_found := ms_found m @ [r], ms_store := store\<rparr>"
proof (cases "sameNullableVersion (js_get (wr_tree base) path) (js_get (wr_tree head) path)")
  case True
  then have "overlay_wins base head path ours" by (simp add: overlay_wins_def Let_def js_get_same_content)
  with True assms ours show ?thesis by (auto simp: merge_path_def Let_def split: if_splits)
next
  case False
  let ?theirs = "case js_get (wr_tree head) path of Own v \<Rightarrow> v | _ \<Rightarrow> tombstoneFor path (wr_revisionId head)"
  have head: "js_get (wr_tree head) path \<noteq> Inherited" using False assms by (auto simp: merge_path_def)
  show ?thesis
  proof (cases "sameVersion ours ?theirs")
    case True
    then have "overlay_wins base head path ours" by (simp add: overlay_wins_def Let_def js_get_theirs same_content_def sameVersion_def)
    with True False head assms ours show ?thesis by (auto simp: merge_path_def Let_def split: if_splits)
  next
    case diff: False
    obtain cl where cl: "classifyConflict sha le w path (js_get (wr_tree base) path) ours ?theirs None = Inr cl"
      using False head diff assms by (auto simp: merge_path_def Let_def split: sum.splits)
    show ?thesis
    proof (cases cl)
      case Converged
      with cl diff show ?thesis by (auto simp: classifyConflict_def split: sum.splits if_splits)
    next
      case (In_conflict c)
      with cl False head diff assms conflict show ?thesis
        by (auto simp: merge_path_def Let_def split: prod.splits)
    next
      case Ordered
      from classify_Ordered [OF cl [unfolded Ordered]] obtain rel where
        rel: "compareVectorClocks (vr_clock ours) (vr_clock ?theirs) = Inr rel" "rel = Before \<or> rel = After" by blast
      show ?thesis
      proof (cases "rel = After")
        case True
        with rel have "overlay_wins base head path ours" by (simp add: overlay_wins_def Let_def js_get_theirs)
        with True rel Ordered cl False head diff assms ours show ?thesis by (auto simp: merge_path_def Let_def split: if_splits)
      next
        case before: False
        with rel Ordered cl False head diff assms have "m' = m" by (simp add: merge_path_def Let_def)
        moreover have "superseded head path ours"
        proof (cases "js_get (wr_tree head) path")
          case (Own v)
          with rel before show ?thesis by (auto simp: superseded_def js_get_Own)
        next
          case Absent
          with rel before show ?thesis
            by (auto simp: tombstoneFor_def compareVectorClocks_def dest: compare_loop_empty)
        qed (use head in simp)
        ultimately show ?thesis by (rule theirs)
      qed
    qed
  qed
qed

section \<open>Merging an overlay\<close>

lemma merge_loop_found:
  assumes "merge_loop sha le w base head changes m = (None, m')"
  shows "length (ms_found m) \<le> length (ms_found m')"
  using assms
proof (induction changes arbitrary: m)
  case (Cons c changes)
  obtain path ours where c: "c = (path, ours)" by force
  with Cons(2) obtain m1 where m1: "merge_path sha le w base head path ours m = Inr m1"
    "merge_loop sha le w base head changes m1 = (None, m')" by (auto split: sum.splits)
  from m1(1) have "length (ms_found m) \<le> length (ms_found m1)" by (cases rule: merge_path_cases) auto
  with Cons(1) [OF m1(2)] show ?case by simp
qed simp

lemma merge_loop_tree:
  assumes "merge_loop sha le w base head changes m = (None, m')" and "ms_found m' = []"
    and "distinct (map fst changes)" and "distinct (map fst (ms_tree m))"
  shows "distinct (map fst (ms_tree m')) \<and> (\<forall>p. p \<notin> fst ` set changes \<longrightarrow> map_of (ms_tree m') p = map_of (ms_tree m) p) \<and>
     (\<forall>(p, ours) \<in> set changes. p \<noteq> ''__proto__'' \<longrightarrow> map_of (ms_tree m') p = Some ours \<and> overlay_wins base head p ours \<or>
        (map_of (ms_tree m') p = map_of (ms_tree m) p \<and> superseded head p ours))"
  using assms
proof (induction changes arbitrary: m)
  case (Cons c changes)
  obtain path ours where c: "c = (path, ours)" by force
  with Cons(2) obtain m1 where m1: "merge_path sha le w base head path ours m = Inr m1"
    "merge_loop sha le w base head changes m1 = (None, m')" by (auto split: sum.splits)
  have "length (ms_found m1) = 0" using merge_loop_found [OF m1(2)] Cons(3) by simp
  then have m1_cases: "(\<exists>b. m1 = m\<lparr>ms_tree := js_assign path ours (ms_tree m), ms_shadowed := b\<rparr>) \<and> overlay_wins base head path ours \<or> (m1 = m \<and> superseded head path ours)"
    using m1(1) by (auto elim: merge_path_cases)
  then have d: "distinct (map fst (ms_tree m1))" using Cons(5) by (auto simp: js_assign_distinct)
  have IH: "distinct (map fst (ms_tree m'))" "\<And>p. p \<notin> fst ` set changes \<Longrightarrow> map_of (ms_tree m') p = map_of (ms_tree m1) p"
    "\<And>p v. (p, v) \<in> set changes \<Longrightarrow> p \<noteq> ''__proto__'' \<Longrightarrow> map_of (ms_tree m') p = Some v \<and> overlay_wins base head p v \<or>
        (map_of (ms_tree m') p = map_of (ms_tree m1) p \<and> superseded head p v)"
    using Cons(1) [OF m1(2) Cons(3) _ d] Cons(4) by auto
  have other: "map_of (ms_tree m1) p = map_of (ms_tree m) p" if "p \<noteq> path" for p
    using m1_cases that by (auto simp: js_assign_get)
  have "path \<notin> fst ` set changes" using Cons(4) c by simp
  then have "path \<noteq> ''__proto__'' \<longrightarrow> map_of (ms_tree m') path = Some ours \<and> overlay_wins base head path ours \<or>
      (map_of (ms_tree m') path = map_of (ms_tree m) path \<and> superseded head path ours)"
    using IH(2) m1_cases by (auto simp: js_assign_get)
  moreover have "map_of (ms_tree m') p = Some v \<and> overlay_wins base head p v \<or> (map_of (ms_tree m') p = map_of (ms_tree m) p \<and> superseded head p v)"
    if "(p, v) \<in> set changes" "p \<noteq> ''__proto__''" for p v
  proof -
    from that(1) \<open>path \<notin> fst ` set changes\<close> have "p \<noteq> path" by force
    with IH(3) [OF that] other show ?thesis by simp
  qed
  moreover have "map_of (ms_tree m') p = map_of (ms_tree m) p" if "p \<notin> fst ` set (c # changes)" for p
    using that IH(2) other c by simp
  ultimately show ?case using IH(1) c by (auto simp del: fst_conv)
qed simp

definition conflicts_kept :: "conflict_store \<Rightarrow> conflict_store \<Rightarrow> bool" where
  "conflicts_kept s t \<longleftrightarrow> (\<forall>k v. map_get s k = Some v \<longrightarrow> map_get t k = Some v)"

definition conflicts_recorded :: "merge_state \<Rightarrow> bool" where
  "conflicts_recorded m \<longleftrightarrow> (\<forall>c \<in> set (ms_found m). map_get (ms_store m) (cr_conflictId c) = Some c) \<and>
     (\<forall>k v. map_get (ms_store m) k = Some v \<longrightarrow> cr_conflictId v = k)"

lemma merge_path_conflicts:
  assumes "merge_path sha le w base head path ours m = Inr m'" and "conflicts_recorded m"
  shows "conflicts_recorded m' \<and> conflicts_kept (ms_store m) (ms_store m')"
  using assms(1)
proof (cases rule: merge_path_cases)
  case (conflict c r store)
  have r: "map_get store (cr_conflictId c) = Some r" "conflicts_kept (ms_store m) store"
    using conflict_add_cases [OF conflict(1)] by (auto simp: conflicts_kept_def)
  have keys: "cr_conflictId v = k" if "map_get store k = Some v" for k v
    using that conflict(1) assms(2) by (auto simp: conflict_add_def conflicts_recorded_def split: option.splits if_splits)
  with r have "map_get store (cr_conflictId r) = Some r" by metis
  with r keys conflict(2) assms(2) show ?thesis by (auto simp: conflicts_recorded_def conflicts_kept_def)
qed (use assms(2) in \<open>auto simp: conflicts_recorded_def conflicts_kept_def\<close>)

lemma merge_loop_conflicts:
  assumes "merge_loop sha le w base head changes m = (r, m')" and "conflicts_recorded m"
  shows "conflicts_recorded m' \<and> conflicts_kept (ms_store m) (ms_store m')"
  using assms
proof (induction changes arbitrary: m)
  case (Cons c changes)
  obtain path ours where c: "c = (path, ours)" by force
  show ?case
  proof (cases "merge_path sha le w base head path ours m")
    case (Inl e)
    with Cons c show ?thesis by (simp add: conflicts_kept_def)
  next
    case (Inr m1)
    with Cons(2) c have rest: "merge_loop sha le w base head changes m1 = (r, m')" by simp
    from merge_path_conflicts [OF Inr Cons(3)] Cons(1) [OF rest] show ?thesis by (simp add: conflicts_kept_def)
  qed
qed (simp add: conflicts_kept_def)

section \<open>The store invariant\<close>

definition path_bytes_ok :: "int \<Rightarrow> (string, int) js_map \<Rightarrow> bool" where
  "path_bytes_ok admitted pb \<longleftrightarrow> distinct (map fst pb) \<and> (\<forall>v \<in> set (map snd pb). 0 \<le> v) \<and> admitted = sum_list (map snd pb)"

definition overlay_ok :: "revision_store \<Rightarrow> string \<Rightarrow> session_overlay \<Rightarrow> bool" where
  "overlay_ok s overlayId ov \<longleftrightarrow> so_overlayId ov = overlayId \<and> distinct (map fst (so_changes ov)) \<and>
     map_get (rs_overlayBySession s) (so_agentSessionId ov) = Some overlayId \<and>
     (\<exists>pb. map_get (rs_overlayPathBytes s) overlayId = Some pb \<and> path_bytes_ok (so_admittedBytes ov) pb) \<and>
     so_admittedBytes ov \<le> so_quotaBytes ov"

definition store_inv :: "revision_store \<Rightarrow> bool" where
  "store_inv s \<longleftrightarrow> (\<forall>i ov. map_get (rs_overlays s) i = Some ov \<longrightarrow> overlay_ok s i ov) \<and>
     (\<forall>i r. map_get (rs_revisions s) i = Some r \<longrightarrow> distinct (map fst (wr_tree r)) \<and> wr_revisionId r = i) \<and>
     map_get (rs_revisions s) (rs_head s) \<noteq> None \<and>
     (\<forall>k c. map_get (rs_conflicts s) k = Some c \<longrightarrow> cr_conflictId c = k)"

inductive store_step ::
  "(string \<Rightarrow> string) \<Rightarrow> (string \<Rightarrow> string) \<Rightarrow> (string \<Rightarrow> string \<Rightarrow> bool) \<Rightarrow> revision_store \<Rightarrow> revision_store \<Rightarrow> bool"
  for nfc sha le where
  allocated: "map_get (rs_overlays s) freshId = None \<Longrightarrow> allocateOverlay s i freshId = Inr (ov, t) \<Longrightarrow> store_step nfc sha le s t"
| changed: "applyChange nfc s q = Inr (ov, t) \<Longrightarrow> store_step nfc sha le s t"
| sealed: "overlay_seal s i a g d = Inr (ov, t) \<Longrightarrow> store_step nfc sha le s t"
| retained: "retainAfterExit s i a d = Inr (ov, t) \<Longrightarrow> store_step nfc sha le s t"
| merged: "store_merge sha le s q = (r, t) \<Longrightarrow> store_step nfc sha le s t"
| previewed: "conflict_preview (rs_conflicts s) c g = Inr (cr, cs) \<Longrightarrow> store_step nfc sha le s (s\<lparr>rs_conflicts := cs\<rparr>)"
| resolved: "conflict_resolve (rs_conflicts s) c g r = Inr (cr, cs) \<Longrightarrow> store_step nfc sha le s (s\<lparr>rs_conflicts := cs\<rparr>)"

lemma sum_map_set:
  "distinct (map fst pb) \<Longrightarrow>
     sum_list (map snd (map_set k v pb)) = sum_list (map snd pb) - (case map_get pb k of None \<Rightarrow> 0 | Some b \<Rightarrow> b) + (v :: int)"
proof (induction pb)
  case (Cons kb pb)
  then show ?case by (cases kb) (auto split: option.splits dest: weak_map_of_SomeI map_of_SomeD)
qed simp

lemma path_bytes_set:
  assumes "path_bytes_ok admitted pb" and "0 \<le> v"
  shows "path_bytes_ok (admitted - (case map_get pb k of None \<Rightarrow> 0 | Some b \<Rightarrow> b) + v) (map_set k v pb)"
  using assms by (auto simp: path_bytes_ok_def sum_map_set simp del: set_map dest!: update_entry_cases)
    (auto dest!: update_entry_cases)

lemma overlay_replace_inv:
  assumes "store_inv s" and "map_get (rs_overlays s) i = Some ov" and "so_overlayId ov' = so_overlayId ov"
    and "so_agentSessionId ov' = so_agentSessionId ov" and "so_changes ov' = so_changes ov"
    and "so_admittedBytes ov' = so_admittedBytes ov" and "so_quotaBytes ov' = so_quotaBytes ov"
  shows "store_inv (snd (set_overlay i ov' s))"
proof -
  have "overlay_ok s i ov" using assms(1,2) by (simp add: store_inv_def)
  with assms(1,3-) show ?thesis by (auto simp: store_inv_def overlay_ok_def set_overlay_def)
qed

lemma requiredOverlay_Inr: "requiredOverlay s i = Inr ov \<longleftrightarrow> map_get (rs_overlays s) i = Some ov"
  by (simp add: requiredOverlay_def split: option.splits)

lemma allocate_inv:
  assumes "store_inv s" and "map_get (rs_overlays s) freshId = None" and "allocateOverlay s i freshId = Inr (ov, t)"
  shows "store_inv t"
proof -
  have new: "map_get (rs_overlayBySession s) (oq_agentSessionId i) = None" "1 \<le> oq_quotaBytes i"
    "so_overlayId ov = freshId" "so_changes ov = []" "so_agentSessionId ov = oq_agentSessionId i"
    "so_admittedBytes ov = 0" "so_quotaBytes ov = oq_quotaBytes i" and
    t: "t = s\<lparr>rs_overlays := map_set freshId ov (rs_overlays s),
              rs_overlayBySession := map_set (oq_agentSessionId i) freshId (rs_overlayBySession s),
              rs_overlayPathBytes := map_set freshId [] (rs_overlayPathBytes s)\<rparr>"
    using assms(3) by (auto simp: allocateOverlay_def Let_def split: if_splits sum.splits)
  have "overlay_ok t freshId ov" using new t by (simp add: overlay_ok_def path_bytes_ok_def)
  moreover have "overlay_ok t k v" if "map_get (rs_overlays s) k = Some v" for k v
  proof -
    have "overlay_ok s k v" "k \<noteq> freshId" using that assms(1,2) by (auto simp: store_inv_def)
    with new(1) t show ?thesis by (auto simp: overlay_ok_def)
  qed
  ultimately show ?thesis using assms(1) t by (auto simp: store_inv_def)
qed

lemma applyChange_inv:
  assumes "store_inv s" and "applyChange nfc s q = Inr (ov', t)"
  shows "store_inv t"
proof -
  let ?i = "cq_overlayId q"
  obtain ov where req: "requiredOverlay s ?i = Inr ov" using assms(2) by (cases "requiredOverlay s ?i") (simp_all add: applyChange_def)
  obtain path where path: "normalizeWirePath nfc (cq_capabilities q) (cq_path q) = Inr path"
    using assms(2) req by (auto simp: applyChange_def split: if_splits sum.splits)
  obtain pb where pb: "map_get (rs_overlayPathBytes s) ?i = Some pb"
    using assms(2) req path by (cases "map_get (rs_overlayPathBytes s) ?i") (auto simp: applyChange_def split: if_splits)
  let ?admitted = "so_admittedBytes ov - (case map_get pb path of None \<Rightarrow> 0 | Some b \<Rightarrow> b) + cq_accountedBytes q"
  have ov: "map_get (rs_overlays s) ?i = Some ov" "0 \<le> cq_accountedBytes q" and adm: "?admitted \<le> so_quotaBytes ov" and
    ov': "ov' = ov\<lparr>so_generation := so_generation ov + 1, so_admittedBytes := ?admitted,
       so_changes := AList.update path (cq_version q) (so_changes ov)\<rparr>" and
    t: "t = s\<lparr>rs_overlays := map_set ?i ov' (rs_overlays s),
       rs_overlayPathBytes := map_set ?i (map_set path (cq_accountedBytes q) pb) (rs_overlayPathBytes s)\<rparr>"
    using assms(2) req path pb by (auto simp: applyChange_def requiredOverlay_Inr Let_def not_less split: if_splits)
  have ok: "overlay_ok s ?i ov" using assms(1) ov(1) by (simp add: store_inv_def)
  then have "path_bytes_ok (so_admittedBytes ov) pb" using pb by (simp add: overlay_ok_def)
  from path_bytes_set [OF this ov(2)] ok adm ov' t have "overlay_ok t ?i ov'"
    by (simp add: overlay_ok_def distinct_update)
  moreover have "overlay_ok t k v" if "map_get (rs_overlays s) k = Some v" "k \<noteq> ?i" for k v
    using that assms(1) t by (auto simp: store_inv_def overlay_ok_def)
  ultimately show ?thesis using assms(1) t by (auto simp: store_inv_def)
qed

lemma store_merge_cases:
  assumes "store_merge sha le s q = (r, t)"
  obtains (refused) e where "r = Inl e" "t = s"
  | (run) ov base head where "map_get (rs_overlays s) (mq_overlayId q) = Some ov" "so_state ov = O_sealed"
      "map_get (rs_revisions s) (so_baseRevision ov) = Some base" "map_get (rs_revisions s) (rs_head s) = Some head"
      "merge_overlay sha le s ov base head = (r, t)"
  using assms by (auto simp: store_merge_def requiredOverlay_def requiredRevision_def split: if_splits option.splits)

text \<open>The three outcomes of a merge that passes its guards.\<close>

lemma merge_overlay_cases:
  assumes "merge_overlay sha le s ov base head = (r, t)"
  obtains (failed) e m where "merge_loop sha le (so_workspaceId ov) base head (sort_entries le (so_changes ov))
        \<lparr>ms_tree = wr_tree head, ms_shadowed = False, ms_found = [], ms_store = rs_conflicts s\<rparr> = (Some e, m)"
      "r = Inl e" "t = s\<lparr>rs_conflicts := ms_store m\<rparr>"
  | (conflicted) m ov' where "merge_loop sha le (so_workspaceId ov) base head (sort_entries le (so_changes ov))
        \<lparr>ms_tree = wr_tree head, ms_shadowed = False, ms_found = [], ms_store = rs_conflicts s\<rparr> = (None, m)" "ms_found m \<noteq> []"
      "ov' = ov\<lparr>so_generation := so_generation ov + 1, so_state := O_conflicted\<rparr>"
      "r = Inr \<lparr>mr_overlay = ov', mr_revision = None, mr_conflicts = ms_found m\<rparr>"
      "t = snd (set_overlay (so_overlayId ov) ov' (s\<lparr>rs_conflicts := ms_store m\<rparr>))"
  | (published) m ov' v where "merge_loop sha le (so_workspaceId ov) base head (sort_entries le (so_changes ov))
        \<lparr>ms_tree = wr_tree head, ms_shadowed = False, ms_found = [], ms_store = rs_conflicts s\<rparr> = (None, m)" "ms_found m = []"
      "ov' = ov\<lparr>so_generation := so_generation ov + 1, so_state := O_merged\<rparr>"
      "r = Inr \<lparr>mr_overlay = ov', mr_revision = Some v, mr_conflicts = []\<rparr>" "wr_tree v = sort_entries le (ms_tree m)"
      "t = snd (set_overlay (so_overlayId ov) ov' (s\<lparr>rs_conflicts := ms_store m,
             rs_revisions := map_set (wr_revisionId v) v (rs_revisions s), rs_head := wr_revisionId v\<rparr>))"
  using assms
  by (auto simp: merge_overlay_def setOverlayState_def set_overlay_def createWorkspaceRevision_def Let_def
      split: prod.splits option.splits if_splits)

lemma store_inv_conflicts:
  "store_inv s \<Longrightarrow> (\<forall>k c. map_get cs k = Some c \<longrightarrow> cr_conflictId c = k) \<Longrightarrow> store_inv (s\<lparr>rs_conflicts := cs\<rparr>)"
  by (simp add: store_inv_def overlay_ok_def)

lemma store_merge_inv:
  assumes "store_inv s" and "store_merge sha le s q = (r, t)"
  shows "store_inv t"
  using assms(2)
proof (cases rule: store_merge_cases)
  case (run ov base head)
  let ?m0 = "\<lparr>ms_tree = wr_tree head, ms_shadowed = False, ms_found = [], ms_store = rs_conflicts s\<rparr>"
  have m0: "conflicts_recorded ?m0" using assms(1) by (simp add: conflicts_recorded_def store_inv_def)
  have ov: "so_overlayId ov = mq_overlayId q" "distinct (map fst (so_changes ov))" and head: "distinct (map fst (wr_tree head))"
    using assms(1) run by (auto simp: store_inv_def overlay_ok_def)
  have kept: "store_inv (s\<lparr>rs_conflicts := ms_store m\<rparr>)" if "merge_loop sha le w base head ch ?m0 = (e, m)" for w ch e m
    using assms(1) merge_loop_conflicts [OF that m0] by (intro store_inv_conflicts) (auto simp: conflicts_recorded_def)
  from run(5) show ?thesis
  proof (cases rule: merge_overlay_cases)
    case (failed e m)
    with kept show ?thesis by blast
  next
    case (conflicted m ov')
    with kept run ov show ?thesis by (auto intro!: overlay_replace_inv [of _ _ ov])
  next
    case (published m ov' v)
    have "distinct (map fst (ms_tree m))" using merge_loop_tree [OF published(1,2)] ov(2) head by simp
    then have "store_inv (s\<lparr>rs_conflicts := ms_store m, rs_revisions := map_set (wr_revisionId v) v (rs_revisions s),
        rs_head := wr_revisionId v\<rparr>)"
      using kept [OF published(1)] published(5) by (auto simp: store_inv_def overlay_ok_def)
    with published run ov show ?thesis by (auto intro!: overlay_replace_inv [of _ _ ov])
  qed
qed (use assms(1) in simp)

lemma overlay_seal_inv:
  assumes "store_inv s" and "overlay_seal s i a g d = Inr (ov, t)"
  shows "store_inv t"
proof -
  obtain ov0 where req: "requiredOverlay s i = Inr ov0"
    using assms(2) by (cases "requiredOverlay s i") (simp_all add: overlay_seal_def)
  let ?next = "ov0\<lparr>so_generation := so_generation ov0 + 1, so_state := O_sealed,
       so_retentionDeadline := (case d of None \<Rightarrow> so_retentionDeadline ov0 | d \<Rightarrow> d)\<rparr>"
  have "t = snd (set_overlay i ?next s)"
    using assms(2) req unfolding overlay_seal_def set_overlay_def by (auto split: if_splits)
  with assms(1) req overlay_replace_inv [of s i ov0 ?next] show ?thesis by (simp add: requiredOverlay_Inr)
qed

lemma retainAfterExit_inv:
  assumes "store_inv s" and "retainAfterExit s i a d = Inr (ov, t)"
  shows "store_inv t"
proof -
  obtain ov0 where req: "requiredOverlay s i = Inr ov0"
    using assms(2) by (cases "requiredOverlay s i") (simp_all add: retainAfterExit_def)
  let ?next = "ov0\<lparr>so_generation := so_generation ov0 + 1, so_state := O_retained, so_retentionDeadline := Some d\<rparr>"
  have "t = s \<or> t = snd (set_overlay i ?next s)"
    using assms(2) req unfolding retainAfterExit_def set_overlay_def by (auto split: if_splits)
  with assms(1) req overlay_replace_inv [of s i ov0 ?next] show ?thesis by (auto simp: requiredOverlay_Inr)
qed

lemma conflict_step_ids:
  assumes "conflict_preview cs c g = Inr (cr, cs') \<or> conflict_resolve cs c g r = Inr (cr, cs')"
    and "\<forall>k v. map_get cs k = Some v \<longrightarrow> cr_conflictId v = k"
  shows "\<forall>k v. map_get cs' k = Some v \<longrightarrow> cr_conflictId v = k"
  using assms by (auto simp: conflict_preview_def conflict_transition_def conflict_resolve_def conflict_required_def Let_def
      split: option.splits if_splits)

lemma store_step_inv:
  assumes "store_inv s" and "store_step nfc sha le s t"
  shows "store_inv t"
proof -
  have ids: "\<forall>k c. map_get (rs_conflicts s) k = Some c \<longrightarrow> cr_conflictId c = k"
    using assms(1) by (simp add: store_inv_def)
  from assms(2) show ?thesis
  proof cases
    case (previewed c g cr cs)
    with conflict_step_ids [OF disjI1 ids] assms(1) show ?thesis by (auto intro: store_inv_conflicts)
  next
    case (resolved c g r cr cs)
    with conflict_step_ids [OF disjI2 ids] assms(1) show ?thesis by (auto intro: store_inv_conflicts)
  qed (use assms(1) in \<open>blast intro: allocate_inv applyChange_inv overlay_seal_inv retainAfterExit_inv store_merge_inv\<close>)+
qed

interpretation store_sys: invariant_system
  "\<lambda>s. \<exists>r. distinct (map fst (wr_tree r)) \<and> s = store_new r" "store_step nfc sha le" store_inv for nfc sha le
proof unfold_locales
  show "store_inv s" if "\<exists>r. distinct (map fst (wr_tree r)) \<and> s = store_new r" for s
    using that by (auto simp: store_new_def store_inv_def split: if_splits)
qed (rule store_step_inv)

section \<open>Conflict generations\<close>

definition conflict_generation :: "revision_store \<Rightarrow> string \<Rightarrow> int" where
  "conflict_generation s k = (case map_get (rs_conflicts s) k of None \<Rightarrow> 0 | Some c \<Rightarrow> cr_generation c)"

text \<open>Every recorded conflict has a positive generation; merges only add records.\<close>

definition generations_positive :: "revision_store \<Rightarrow> bool" where
  "generations_positive s \<longleftrightarrow> (\<forall>k c. map_get (rs_conflicts s) k = Some c \<longrightarrow> 0 < cr_generation c)"

lemma classify_generation:
  "classifyConflict sha le w path base ours theirs hint = Inr (In_conflict c) \<Longrightarrow> cr_generation c = 1"
  by (auto simp: classifyConflict_def split: if_splits sum.splits)

lemma merge_path_generations:
  assumes "merge_path sha le w base head path ours m = Inr m'"
    and "\<forall>k c. map_get (ms_store m) k = Some c \<longrightarrow> 0 < cr_generation c"
  shows "\<forall>k c. map_get (ms_store m') k = Some c \<longrightarrow> 0 < cr_generation c"
  using assms
  by (auto simp: merge_path_def Let_def conflict_add_def dest: classify_generation
      split: if_splits sum.splits classification.splits prod.splits option.splits looked.splits)

lemma merge_loop_generations:
  assumes "merge_loop sha le w base head changes m = (r, m')"
    and "\<forall>k c. map_get (ms_store m) k = Some c \<longrightarrow> 0 < cr_generation c"
  shows "\<forall>k c. map_get (ms_store m') k = Some c \<longrightarrow> 0 < cr_generation c"
  using assms
proof (induction changes arbitrary: m)
  case (Cons c changes)
  then show ?case by (cases c) (auto split: sum.splits dest: merge_path_generations)
qed simp

lemma store_merge_conflicts:
  assumes "store_inv s" and "generations_positive s" and "store_merge sha le s q = (r, t)"
  shows "conflicts_kept (rs_conflicts s) (rs_conflicts t) \<and> generations_positive t"
  using assms(3)
proof (cases rule: store_merge_cases)
  case (run ov base head)
  let ?m0 = "\<lparr>ms_tree = wr_tree head, ms_shadowed = False, ms_found = [], ms_store = rs_conflicts s\<rparr>"
  have "conflicts_recorded ?m0" using assms(1) by (simp add: conflicts_recorded_def store_inv_def)
  then have loop: "conflicts_kept (rs_conflicts s) (ms_store m) \<and> (\<forall>k c. map_get (ms_store m) k = Some c \<longrightarrow> 0 < cr_generation c)"
    if "merge_loop sha le w base head ch ?m0 = (e, m)" for w ch e m
    using merge_loop_conflicts [OF that] merge_loop_generations [OF that] assms(2) by (simp add: generations_positive_def)
  from run(5) show ?thesis
    by (cases rule: merge_overlay_cases) (auto simp: generations_positive_def set_overlay_def dest: loop)
qed (use assms(2) in \<open>simp add: conflicts_kept_def\<close>)

lemma conflict_op_generation:
  assumes "conflict_preview cs k g = Inr (c, cs') \<or> conflict_resolve cs k g r = Inr (c, cs')"
  shows "\<exists>c0. map_get cs k = Some c0 \<and> cr_generation c0 = g \<and> cr_generation c = g + 1 \<and> cs' = map_set k c cs"
  using assms by (auto simp: conflict_preview_def conflict_transition_def conflict_resolve_def conflict_required_def Let_def
      split: option.splits if_splits)

lemma conflict_op_store:
  assumes "conflict_preview (rs_conflicts s) k g = Inr (c, cs) \<or> conflict_resolve (rs_conflicts s) k g r = Inr (c, cs)"
    and "generations_positive s"
  shows "generations_positive (s\<lparr>rs_conflicts := cs\<rparr>) \<and> conflict_generation s k' \<le> conflict_generation (s\<lparr>rs_conflicts := cs\<rparr>) k'"
proof -
  from conflict_op_generation [OF assms(1)] obtain c0 where c0: "map_get (rs_conflicts s) k = Some c0" "cr_generation c0 = g"
    "cr_generation c = g + 1" "cs = map_set k c (rs_conflicts s)" by blast
  with assms(2) have "0 < cr_generation c" by (fastforce simp: generations_positive_def)
  with c0 assms(2) show ?thesis by (simp add: generations_positive_def conflict_generation_def)
qed

lemma other_step_conflicts:
  "allocateOverlay s i freshId = Inr (ov, t) \<Longrightarrow> rs_conflicts t = rs_conflicts s"
  "applyChange nfc s q = Inr (ov, t) \<Longrightarrow> rs_conflicts t = rs_conflicts s"
  "overlay_seal s j a g d = Inr (ov, t) \<Longrightarrow> rs_conflicts t = rs_conflicts s"
  "retainAfterExit s j a d' = Inr (ov, t) \<Longrightarrow> rs_conflicts t = rs_conflicts s"
  by (auto simp: allocateOverlay_def applyChange_def overlay_seal_def retainAfterExit_def set_overlay_def Let_def
      split: if_splits sum.splits option.splits)

lemma store_step_generation:
  assumes "store_inv s" and "generations_positive s" and "store_step nfc sha le s t"
  shows "generations_positive t \<and> conflict_generation s k \<le> conflict_generation t k"
  using assms(3)
proof cases
  case (merged q r)
  with store_merge_conflicts [OF assms(1,2)] have "conflicts_kept (rs_conflicts s) (rs_conflicts t)" "generations_positive t" by auto
  then show ?thesis
    by (cases "map_get (rs_conflicts s) k"; cases "map_get (rs_conflicts t) k")
      (auto simp: conflicts_kept_def conflict_generation_def generations_positive_def intro: less_imp_le)
next
  case (previewed c g cr cs)
  with conflict_op_store [OF disjI1 assms(2)] show ?thesis by blast
next
  case (resolved c g r cr cs)
  with conflict_op_store [OF disjI2 assms(2)] show ?thesis by blast
qed (use assms(2) in \<open>auto simp: conflict_generation_def generations_positive_def dest!: other_step_conflicts\<close>)

definition conflict_accepts :: "revision_store \<Rightarrow> string \<Rightarrow> int \<Rightarrow> bool" where
  "conflict_accepts s k g \<longleftrightarrow> (\<exists>r p. conflict_preview (rs_conflicts s) k g = Inr p \<or> conflict_resolve (rs_conflicts s) k g r = Inr p)"

definition conflict_issues :: "revision_store \<Rightarrow> revision_store \<Rightarrow> string \<Rightarrow> int \<Rightarrow> bool" where
  "conflict_issues s t k g \<longleftrightarrow> (\<exists>g0 r c cs. (conflict_preview (rs_conflicts s) k g0 = Inr (c, cs) \<or>
     conflict_resolve (rs_conflicts s) k g0 r = Inr (c, cs)) \<and> t = s\<lparr>rs_conflicts := cs\<rparr> \<and> g = cr_generation c)"

interpretation conflict_fence: generation_fence
  "\<lambda>s. \<exists>r. distinct (map fst (wr_tree r)) \<and> s = store_new r" "store_step nfc sha le"
  "\<lambda>s. store_inv s \<and> generations_positive s" conflict_generation conflict_accepts conflict_issues for nfc sha le
proof unfold_locales
  show "store_inv s \<and> generations_positive s" if "\<exists>r. distinct (map fst (wr_tree r)) \<and> s = store_new r" for s
    using that store_sys.init_inv [OF that] by (auto simp: generations_positive_def store_new_def)
  show "store_inv t \<and> generations_positive t" if "store_inv s \<and> generations_positive s" "store_step nfc sha le s t" for s t
    using that store_step_inv store_step_generation by blast
  show "conflict_generation s k \<le> conflict_generation t k"
    if "store_inv s \<and> generations_positive s" "store_step nfc sha le s t" for s t k
    using that store_step_generation by blast
  show "g = conflict_generation s k" if "conflict_accepts s k g" for s k g
    using that conflict_op_generation unfolding conflict_accepts_def conflict_generation_def by fastforce
  show "store_step nfc sha le s t \<and> conflict_generation s k < g \<and> conflict_generation t k = g"
    if "conflict_issues s t k g" for s t k g
  proof -
    from that obtain g0 r c cs where op: "conflict_preview (rs_conflicts s) k g0 = Inr (c, cs) \<or>
      conflict_resolve (rs_conflicts s) k g0 r = Inr (c, cs)" and t: "t = s\<lparr>rs_conflicts := cs\<rparr>" "g = cr_generation c"
      unfolding conflict_issues_def by blast
    then have "store_step nfc sha le s t" by (auto intro: store_step.previewed store_step.resolved)
    with conflict_op_generation [OF op] t show ?thesis by (auto simp: conflict_generation_def)
  qed
qed

section \<open>Properties\<close>

text \<open>
  C20. \<^verbatim>\<open>compareVectorClocks\<close> decides the causal order: on well-formed clocks it never fails and
  answers \<^verbatim>\<open>before\<close>, \<^verbatim>\<open>after\<close>, \<^verbatim>\<open>equal\<close> or \<^verbatim>\<open>concurrent\<close> exactly as the pointwise order of the two
  clocks says, absent actors counting as zero.
\<close>

theorem clock_compare_causal:
  assumes "valid_clock l" and "valid_clock r"
  shows "compareVectorClocks l r = Inr (causal_relation l r)"
  using assms by (rule compare_causal)

theorem clock_compare_causal_witness:
  "compareVectorClocks [(''a'', Ticks 2)] [(''a'', Ticks 1), (''b'', Ticks 1)] =
     Inr (causal_relation [(''a'', Ticks 2)] [(''a'', Ticks 1), (''b'', Ticks 1)])"
  by (rule clock_compare_causal) (simp_all add: valid_clock_def object_prototype_keys_def js_defs)

text \<open>
  \<^verbatim>\<open>mergeVectorClocks\<close> computes the least upper bound: on well-formed clocks it succeeds with
  a well-formed clock that every argument is at or before, and that is at or before every
  well-formed clock with this property.
\<close>

theorem clock_merge_lub:
  assumes "\<forall>c \<in> set clocks. valid_clock c"
  shows "\<exists>m. mergeVectorClocks le clocks = Inr m \<and> valid_clock m \<and> (\<forall>c \<in> set clocks. clock_le c m) \<and>
     (\<forall>u. valid_clock u \<longrightarrow> (\<forall>c \<in> set clocks. clock_le c u) \<longrightarrow> clock_le m u)"
proof -
  have entries: "\<forall>(a, v) \<in> set (concat clocks). a \<notin> set object_prototype_keys \<and> assertClockValue (Own v)"
    using assms by (auto simp: valid_clock_def)
  have bound: "(\<forall>(a, v) \<in> set (concat clocks). ticks (Own v) \<le> clock_at u a) \<longleftrightarrow> (\<forall>c \<in> set clocks. clock_le c u)"
    if "valid_clock u" for u
    using clock_le_entries [OF _ that] assms by auto
  have "valid_clock []" by (simp add: valid_clock_def)
  from merge_entries_lub [OF this entries] obtain m where m: "merge_entries [] (concat clocks) = Inr m" "valid_clock m"
    "\<forall>(a, v) \<in> set (concat clocks). ticks (Own v) \<le> clock_at m a"
    "\<forall>u. clock_le [] u \<longrightarrow> (\<forall>(a, v) \<in> set (concat clocks). ticks (Own v) \<le> clock_at u a) \<longrightarrow> clock_le m u" by blast
  have at: "clock_at (sort_entries le m) = clock_at m"
    using m(2) by (simp add: clock_at_def js_get_def sort_entries_get valid_clock_def fun_eq_iff)
  have "clock_le [] u" if "valid_clock u" for u
    using valid_clock_at_nonneg [OF that] by (simp add: clock_le_def clock_at_absent)
  then show ?thesis
    using m at bound by (intro exI [of _ "sort_entries le m"])
      (auto simp: mergeVectorClocks_def clock_le_def valid_clock_def simp del: set_concat)
qed

theorem clock_merge_lub_witness:
  "\<exists>m. mergeVectorClocks (\<le>) [[(''a'', Ticks 2)], [(''b'', Ticks 1)]] = Inr m \<and> valid_clock m \<and>
     (\<forall>c \<in> set [[(''a'', Ticks 2)], [(''b'', Ticks 1)]]. clock_le c m) \<and>
     (\<forall>u. valid_clock u \<longrightarrow> (\<forall>c \<in> set [[(''a'', Ticks 2)], [(''b'', Ticks 1)]]. clock_le c u) \<longrightarrow> clock_le m u)"
  by (rule clock_merge_lub) (simp add: valid_clock_def object_prototype_keys_def js_defs)

text \<open>
  C21. Overlay accounting: in every store reached from a fresh one, the admitted bytes of every
  overlay are the sum of its per-path accounts, not negative and within its quota, and no
  session owns two overlays.
\<close>

theorem overlay_accounting:
  assumes "distinct (map fst (wr_tree r))" and "(store_step nfc sha le)\<^sup>*\<^sup>* (store_new r) s"
    and "map_get (rs_overlays s) i = Some ov"
  shows "(\<exists>pb. map_get (rs_overlayPathBytes s) i = Some pb \<and> so_admittedBytes ov = sum_list (map snd pb)) \<and>
     0 \<le> so_admittedBytes ov \<and> so_admittedBytes ov \<le> so_quotaBytes ov \<and>
     (\<forall>j ov'. map_get (rs_overlays s) j = Some ov' \<longrightarrow> so_agentSessionId ov' = so_agentSessionId ov \<longrightarrow> j = i)"
proof -
  have inv: "store_inv s" using assms(1,2) by (intro store_sys.reachable_inv) auto
  then have ok: "overlay_ok s i ov" using assms(3) by (simp add: store_inv_def)
  then obtain pb where pb: "map_get (rs_overlayPathBytes s) i = Some pb" "path_bytes_ok (so_admittedBytes ov) pb"
    by (auto simp: overlay_ok_def)
  have "0 \<le> so_admittedBytes ov" using pb(2) unfolding path_bytes_ok_def by (metis sum_list_nonneg)
  moreover have "j = i" if "map_get (rs_overlays s) j = Some ov'" "so_agentSessionId ov' = so_agentSessionId ov" for j ov'
  proof -
    from inv that(1) have "overlay_ok s j ov'" by (simp add: store_inv_def)
    with ok that(2) show ?thesis by (simp add: overlay_ok_def)
  qed
  ultimately show ?thesis using pb ok by (auto simp: path_bytes_ok_def overlay_ok_def)
qed

text \<open>
  A worked example: session \<open>s\<close> edits \<open>f\<close> in an overlay on the empty revision \<open>r0\<close> and seals it.
\<close>

abbreviation ex_version :: "string \<Rightarrow> vector_clock \<Rightarrow> version_reference" where
  "ex_version d c \<equiv> \<lparr>vr_kind = V_file, vr_digest = Some d, vr_clock = c, vr_operationId = ''op''\<rparr>"

definition ex_revision :: "version_reference js_object \<Rightarrow> workspace_revision" where
  "ex_revision tree = \<lparr>wr_workspaceId = ''w'', wr_revisionId = ''r0'', wr_parentIds = [], wr_manifestRoot = ''m'',
     wr_policyDigest = ''p'', wr_tree = tree\<rparr>"

definition ex_overlay_request :: overlay_request where
  "ex_overlay_request = \<lparr>oq_workspaceId = ''w'', oq_machineId = ''m'', oq_userId = ''u'', oq_agentSessionId = ''s'',
     oq_baseRevision = ''r0'', oq_policyDigest = ''p'', oq_quotaBytes = 100, oq_confinementAvailable = True,
     oq_atomicRenameAvailable = True\<rparr>"

definition ex_overlay :: "int \<Rightarrow> overlay_state \<Rightarrow> int \<Rightarrow> version_reference js_object \<Rightarrow> session_overlay" where
  "ex_overlay g st adm ch = \<lparr>so_overlayId = ''o'', so_workspaceId = ''w'', so_machineId = ''m'', so_userId = ''u'',
     so_agentSessionId = ''s'', so_baseRevision = ''r0'', so_policyDigest = ''p'', so_generation = g, so_state = st,
     so_quotaBytes = 100, so_admittedBytes = adm, so_changes = ch, so_retentionDeadline = None\<rparr>"

definition ex_store :: "session_overlay \<Rightarrow> (string, int) js_map \<Rightarrow> revision_store" where
  "ex_store ov pb = (store_new (ex_revision []))\<lparr>rs_overlays := [(''o'', ov)], rs_overlayBySession := [(''s'', ''o'')],
     rs_overlayPathBytes := [(''o'', pb)]\<rparr>"

definition ex_change :: "string \<Rightarrow> change_request" where
  "ex_change path = \<lparr>cq_overlayId = ''o'', cq_agentSessionId = ''s'', cq_expectedGeneration = 1, cq_path = path,
     cq_capabilities = ex_caps, cq_version = ex_version ''d'' [(''s'', Ticks 1)], cq_accountedBytes = 7\<rparr>"

definition ex_merge :: merge_request where
  "ex_merge = \<lparr>mq_overlayId = ''o'', mq_agentSessionId = ''s'', mq_expectedOverlayGeneration = 3,
     mq_expectedHead = ''r0'', mq_policyDigest = ''p''\<rparr>"

definition ex_sealed :: "string \<Rightarrow> revision_store" where
  "ex_sealed path = ex_store (ex_overlay 3 O_sealed 7 [(path, ex_version ''d'' [(''s'', Ticks 1)])]) [(path, 7)]"

lemmas ex_store_defs = ex_store_def ex_overlay_def ex_overlay_request_def ex_revision_def ex_change_def store_new_def

lemma ex_allocated: "allocateOverlay (store_new (ex_revision [])) ex_overlay_request ''o'' =
    Inr (ex_overlay 1 O_writable 0 [], ex_store (ex_overlay 1 O_writable 0 []) [])"
  by (simp add: ex_store_defs allocateOverlay_def requiredRevision_def Let_def js_defs)

lemma ex_changed:
  assumes "normalizeWirePath nfc ex_caps path = Inr path"
  shows "applyChange nfc (ex_store (ex_overlay 1 O_writable 0 []) []) (ex_change path) =
    Inr (ex_overlay 2 O_writable 7 [(path, ex_version ''d'' [(''s'', Ticks 1)])],
      ex_store (ex_overlay 2 O_writable 7 [(path, ex_version ''d'' [(''s'', Ticks 1)])]) [(path, 7)])"
  using assms by (simp add: ex_store_defs applyChange_def requiredOverlay_def Let_def js_defs)

lemma ex_sealing:
  "overlay_seal (ex_store (ex_overlay 2 O_writable 7 ch) pb) ''o'' ''s'' 2 None =
    Inr (ex_overlay 3 O_sealed 7 ch, ex_store (ex_overlay 3 O_sealed 7 ch) pb)"
  by (simp add: ex_store_defs overlay_seal_def requiredOverlay_def set_overlay_def)

lemma ex_sealed_reached:
  assumes "normalizeWirePath nfc ex_caps path = Inr path"
  shows "(store_step nfc sha le)\<^sup>*\<^sup>* (store_new (ex_revision [])) (ex_sealed path)"
proof -
  let ?s1 = "ex_store (ex_overlay 1 O_writable 0 []) []"
  let ?s2 = "ex_store (ex_overlay 2 O_writable 7 [(path, ex_version ''d'' [(''s'', Ticks 1)])]) [(path, 7)]"
  have "store_step nfc sha le (store_new (ex_revision [])) ?s1"
    by (rule store_step.allocated [OF _ ex_allocated]) (simp add: store_new_def)
  moreover have "store_step nfc sha le ?s1 ?s2" by (rule store_step.changed [OF ex_changed [OF assms]])
  moreover have "store_step nfc sha le ?s2 (ex_sealed path)"
    unfolding ex_sealed_def by (rule store_step.sealed [OF ex_sealing])
  ultimately show ?thesis by (meson converse_rtranclp_into_rtranclp rtranclp.rtrancl_refl)
qed

lemma ex_tree: "distinct (map fst (wr_tree (ex_revision [])))"
  by (simp add: ex_revision_def)

lemma ex_file: "normalizeWirePath (\<lambda>s. s) ex_caps ''f'' = Inr ''f''"
  by code_simp

lemma ex_sealed_overlay:
  "map_get (rs_overlays (ex_sealed path)) ''o'' = Some (ex_overlay 3 O_sealed 7 [(path, ex_version ''d'' [(''s'', Ticks 1)])])"
  by (simp add: ex_sealed_def ex_store_def)

theorem overlay_accounting_witness:
  "(\<exists>pb. map_get (rs_overlayPathBytes (ex_sealed ''f'')) ''o'' = Some pb \<and>
       so_admittedBytes (ex_overlay 3 O_sealed 7 [(''f'', ex_version ''d'' [(''s'', Ticks 1)])]) = sum_list (map snd pb)) \<and>
     0 \<le> so_admittedBytes (ex_overlay 3 O_sealed 7 [(''f'', ex_version ''d'' [(''s'', Ticks 1)])]) \<and>
     so_admittedBytes (ex_overlay 3 O_sealed 7 [(''f'', ex_version ''d'' [(''s'', Ticks 1)])])
       \<le> so_quotaBytes (ex_overlay 3 O_sealed 7 [(''f'', ex_version ''d'' [(''s'', Ticks 1)])])"
  using overlay_accounting [OF ex_tree ex_sealed_reached [OF ex_file] ex_sealed_overlay] by blast

text \<open>
  C22. A merge loses nothing silently. Either it reports conflicts: then the canonical head and
  the revisions are untouched, and every reported conflict is on record in the conflict
  store. Or it publishes a revision as the new head: then the new tree holds, for every
  path the overlay changed (other than \<^verbatim>\<open>__proto__\<close>), the overlay's version, and then the head
  had not changed the path since the overlay's base, or held the same content, or a version that the
  overlay's causally follows; or it holds the old head's version, and that one causally follows the
  overlay's. So a concurrent change of both sides is never decided silently. Every path the
  overlay did not touch keeps the old head's version.
\<close>

theorem merge_loses_nothing:
  assumes "distinct (map fst (wr_tree r0))" and "(store_step nfc sha le)\<^sup>*\<^sup>* (store_new r0) s"
    and "store_merge sha le s q = (Inr res, t)"
    and "map_get (rs_overlays s) (mq_overlayId q) = Some ov" and "map_get (rs_revisions s) (rs_head s) = Some head"
    and "map_get (rs_revisions s) (so_baseRevision ov) = Some base"
  shows "case mr_revision res of
     None \<Rightarrow> mr_conflicts res \<noteq> [] \<and> rs_head t = rs_head s \<and> rs_revisions t = rs_revisions s \<and>
       (\<forall>c \<in> set (mr_conflicts res). map_get (rs_conflicts t) (cr_conflictId c) = Some c)
   | Some v \<Rightarrow> rs_head t = wr_revisionId v \<and> map_get (rs_revisions t) (rs_head t) = Some v \<and>
     (\<forall>p ours. map_of (so_changes ov) p = Some ours \<longrightarrow> p \<noteq> ''__proto__'' \<longrightarrow>
        (map_of (wr_tree v) p = Some ours \<and> overlay_wins base head p ours) \<or>
        (\<exists>theirs. map_of (wr_tree head) p = Some theirs \<and> map_of (wr_tree v) p = Some theirs \<and>
           compareVectorClocks (vr_clock ours) (vr_clock theirs) = Inr Before)) \<and>
     (\<forall>p. map_of (so_changes ov) p = None \<longrightarrow> map_of (wr_tree v) p = map_of (wr_tree head) p)"
proof -
  have inv: "store_inv s" using assms(1,2) by (intro store_sys.reachable_inv) auto
  then have dis: "distinct (map fst (so_changes ov))" "distinct (map fst (wr_tree head))"
    using assms(4,5) by (auto simp: store_inv_def overlay_ok_def)
  from assms(3) have "merge_overlay sha le s ov base head = (Inr res, t)"
    using assms(4-6) by (cases rule: store_merge_cases) auto
  then show ?thesis
  proof (cases rule: merge_overlay_cases)
    case (conflicted m ov')
    have "conflicts_recorded \<lparr>ms_tree = wr_tree head, ms_shadowed = False, ms_found = [], ms_store = rs_conflicts s\<rparr>"
      using inv by (simp add: conflicts_recorded_def store_inv_def)
    from merge_loop_conflicts [OF conflicted(1) this] conflicted show ?thesis
      by (simp add: conflicts_recorded_def set_overlay_def)
  next
    case (published m ov' v)
    have changes: "(p, ours) \<in> set (sort_entries le (so_changes ov)) \<longleftrightarrow> map_of (so_changes ov) p = Some ours" for p ours
      using dis(1) by simp
    have absent: "p \<notin> fst ` set (sort_entries le (so_changes ov)) \<longleftrightarrow> map_of (so_changes ov) p = None" for p
      by (simp add: map_of_eq_None_iff)
    note tree = merge_loop_tree [OF published(1,2)]
    have eq: "map_of (wr_tree v) = map_of (ms_tree m)"
      using tree dis published(5) by (simp add: sort_entries_get)
    have ours: "(map_of (wr_tree v) p = Some ours \<and> overlay_wins base head p ours) \<or> (map_of (wr_tree v) p = map_of (wr_tree head) p \<and> superseded head p ours)"
      if "map_of (so_changes ov) p = Some ours" "p \<noteq> ''__proto__''" for p ours
      using tree dis that changes [of p ours] unfolding eq by fastforce
    have "map_of (wr_tree v) p = map_of (wr_tree head) p" if "map_of (so_changes ov) p = None" for p
      using tree dis that absent [of p] unfolding eq by simp
    with ours published(4,6) show ?thesis by (force simp: set_overlay_def superseded_def)
  qed simp
qed

definition ex_merged_revision :: "version_reference js_object \<Rightarrow> workspace_revision" where
  "ex_merged_revision tree = createWorkspaceRevision (\<lambda>x. ''x'') (\<le>) ''w'' [''r0''] ''p'' tree"

definition ex_merge_result :: "string \<Rightarrow> version_reference js_object \<Rightarrow> merge_result" where
  "ex_merge_result path tree = \<lparr>mr_overlay = ex_overlay 4 O_merged 7 [(path, ex_version ''d'' [(''s'', Ticks 1)])],
     mr_revision = Some (ex_merged_revision tree), mr_conflicts = []\<rparr>"

definition ex_merged_store :: "string \<Rightarrow> version_reference js_object \<Rightarrow> revision_store" where
  "ex_merged_store path tree = (ex_sealed path)\<lparr>
     rs_overlays := [(''o'', ex_overlay 4 O_merged 7 [(path, ex_version ''d'' [(''s'', Ticks 1)])])],
     rs_revisions := map_set (wr_revisionId (ex_merged_revision tree)) (ex_merged_revision tree) [(''r0'', ex_revision [])],
     rs_head := wr_revisionId (ex_merged_revision tree)\<rparr>"

lemma ex_merging:
  "store_merge (\<lambda>x. ''x'') (\<le>) (ex_sealed path) ex_merge =
     (Inr (ex_merge_result path (js_assign path (ex_version ''d'' [(''s'', Ticks 1)]) [])),
      ex_merged_store path (js_assign path (ex_version ''d'' [(''s'', Ticks 1)]) []))"
proof -
  have "sameNullableVersion (js_get [] path) (js_get [] path)" by (simp add: js_get_def)
  then show ?thesis
    by (simp add: store_merge_def ex_merge_def requiredOverlay_def requiredRevision_def ex_sealed_def ex_store_def
        ex_overlay_def store_new_def ex_revision_def merge_overlay_def sort_entries_def merge_path_def Let_def
        setOverlayState_def set_overlay_def ex_merge_result_def ex_merged_store_def ex_merged_revision_def)
qed

lemma ex_sealed_head: "map_get (rs_revisions (ex_sealed path)) (rs_head (ex_sealed path)) = Some (ex_revision [])"
  by (simp add: ex_sealed_def ex_store_def store_new_def ex_revision_def)

lemma ex_sealed_base: "map_get (rs_revisions (ex_sealed path)) (so_baseRevision (ex_overlay g st n cs)) = Some (ex_revision [])"
  by (simp add: ex_sealed_def ex_store_def store_new_def ex_revision_def ex_overlay_def)

theorem merge_loses_nothing_witness:
  "let res = ex_merge_result ''f'' (js_assign ''f'' (ex_version ''d'' [(''s'', Ticks 1)]) []);
       t = ex_merged_store ''f'' (js_assign ''f'' (ex_version ''d'' [(''s'', Ticks 1)]) []);
       s = ex_sealed ''f''; head = ex_revision [];
       base = ex_revision []; ov = ex_overlay 3 O_sealed 7 [(''f'', ex_version ''d'' [(''s'', Ticks 1)])]
   in case mr_revision res of
     None \<Rightarrow> mr_conflicts res \<noteq> [] \<and> rs_head t = rs_head s \<and> rs_revisions t = rs_revisions s \<and>
       (\<forall>c \<in> set (mr_conflicts res). map_get (rs_conflicts t) (cr_conflictId c) = Some c)
   | Some v \<Rightarrow> rs_head t = wr_revisionId v \<and> map_get (rs_revisions t) (rs_head t) = Some v \<and>
     (\<forall>p ours. map_of (so_changes ov) p = Some ours \<longrightarrow> p \<noteq> ''__proto__'' \<longrightarrow>
        (map_of (wr_tree v) p = Some ours \<and> overlay_wins base head p ours) \<or>
        (\<exists>theirs. map_of (wr_tree head) p = Some theirs \<and> map_of (wr_tree v) p = Some theirs \<and>
           compareVectorClocks (vr_clock ours) (vr_clock theirs) = Inr Before)) \<and>
     (\<forall>p. map_of (so_changes ov) p = None \<longrightarrow> map_of (wr_tree v) p = map_of (wr_tree head) p)"
  unfolding Let_def
  by (rule merge_loses_nothing [OF ex_tree ex_sealed_reached [OF ex_file] ex_merging])
    (simp_all add: ex_merge_def ex_sealed_overlay ex_sealed_head ex_sealed_base)

text \<open>
  C23. The path that the merge property leaves out is lost: \<^verbatim>\<open>__proto__\<close> is a valid wire path and a session can write
  it into its overlay, but the merge assigns it to the prototype of the result object. The
  overlay is reported as merged and the published tree is empty.
\<close>

theorem merge_loses_proto_path:
  "normalizeWirePath (\<lambda>s. s) ex_caps ''__proto__'' = Inr ''__proto__'' \<and>
   (store_step (\<lambda>s. s) (\<lambda>x. ''x'') (\<le>))\<^sup>*\<^sup>* (store_new (ex_revision [])) (ex_sealed ''__proto__'') \<and>
   (\<exists>res t v. store_merge (\<lambda>x. ''x'') (\<le>) (ex_sealed ''__proto__'') ex_merge = (Inr res, t) \<and>
      so_state (mr_overlay res) = O_merged \<and> mr_revision res = Some v \<and>
      map fst (so_changes (mr_overlay res)) = [''__proto__''] \<and> wr_tree v = [])"
proof -
  have path: "normalizeWirePath (\<lambda>s. s) ex_caps ''__proto__'' = Inr ''__proto__''" by code_simp
  have "js_assign ''__proto__'' (ex_version ''d'' [(''s'', Ticks 1)]) [] = []" by (simp add: js_assign_def)
  then have "store_merge (\<lambda>x. ''x'') (\<le>) (ex_sealed ''__proto__'') ex_merge =
      (Inr (ex_merge_result ''__proto__'' []), ex_merged_store ''__proto__'' [])"
    using ex_merging [of "''__proto__''"] by simp
  moreover have "so_state (mr_overlay (ex_merge_result ''__proto__'' [])) = O_merged \<and>
      mr_revision (ex_merge_result ''__proto__'' []) = Some (ex_merged_revision []) \<and>
      map fst (so_changes (mr_overlay (ex_merge_result ''__proto__'' []))) = [''__proto__''] \<and>
      wr_tree (ex_merged_revision []) = []"
    by (simp add: ex_merge_result_def ex_overlay_def ex_merged_revision_def createWorkspaceRevision_def Let_def sort_entries_def)
  ultimately have "\<exists>res t v. store_merge (\<lambda>x. ''x'') (\<le>) (ex_sealed ''__proto__'') ex_merge = (Inr res, t) \<and>
      so_state (mr_overlay res) = O_merged \<and> mr_revision res = Some v \<and>
      map fst (so_changes (mr_overlay res)) = [''__proto__''] \<and> wr_tree v = []"
    by (intro exI [of _ "ex_merge_result ''__proto__'' []"] exI [of _ "ex_merged_store ''__proto__'' []"]
        exI [of _ "ex_merged_revision []"]) (elim conjE, intro conjI)
  with path ex_sealed_reached [OF path] show ?thesis by simp
qed

text \<open>
  Conflicts are resolved by compare-and-swap: once a preview or resolution of a conflict
  has succeeded at some generation, that generation is spent. No later preview or
  resolution that expects it or an older one succeeds, whatever the store did in between.
  The two hypotheses on the store are its invariant, which every reachable store has.
\<close>

theorem conflict_generation_spent:
  assumes "store_inv s" and "generations_positive s"
    and "conflict_preview (rs_conflicts s) k g = Inr (c, cs) \<or> conflict_resolve (rs_conflicts s) k g r = Inr (c, cs)"
    and "(store_step nfc sha le)\<^sup>*\<^sup>* (s\<lparr>rs_conflicts := cs\<rparr>) t" and "g' \<le> g"
  shows "isl (conflict_preview (rs_conflicts t) k g') \<and> isl (conflict_resolve (rs_conflicts t) k g' r')"
proof -
  have inv: "store_inv s \<and> generations_positive s" using assms(1,2) by simp
  have "conflict_issues s (s\<lparr>rs_conflicts := cs\<rparr>) k (cr_generation c)"
    using assms(3) unfolding conflict_issues_def by blast
  moreover have "g' \<le> conflict_generation s k"
    using conflict_op_generation [OF assms(3)] assms(5) by (auto simp: conflict_generation_def)
  ultimately have "\<not> conflict_accepts t k g'"
    using conflict_fence.issue_fences_older [OF inv _ assms(4)] by blast
  then show ?thesis unfolding conflict_accepts_def by (metis sum.collapse(2))
qed

definition ex_conflict :: "int \<Rightarrow> conflict_state \<Rightarrow> conflict_record" where
  "ex_conflict g st = \<lparr>cr_conflictId = ''c'', cr_workspaceId = ''w'', cr_path = ''f'', cr_class = Create_create, cr_base = Absent,
     cr_ours = ex_version ''d'' [(''s'', Ticks 1)], cr_theirs = ex_version ''e'' [(''t'', Ticks 1)], cr_generation = g,
     cr_state = st, cr_resolution = None\<rparr>"

definition ex_conflicted :: "conflict_record \<Rightarrow> revision_store" where
  "ex_conflicted c = (store_new (ex_revision []))\<lparr>rs_conflicts := [(''c'', c)]\<rparr>"

lemma ex_conflict_preview:
  "conflict_preview (rs_conflicts (ex_conflicted (ex_conflict 1 Quarantined))) ''c'' 1 =
     Inr (ex_conflict 2 Previewed, [(''c'', ex_conflict 2 Previewed)])"
  by (simp add: ex_conflicted_def ex_conflict_def conflict_preview_def conflict_transition_def conflict_required_def Let_def)

theorem conflict_generation_spent_witness:
  "isl (conflict_preview (rs_conflicts ((ex_conflicted (ex_conflict 1 Quarantined))\<lparr>rs_conflicts := [(''c'', ex_conflict 2 Previewed)]\<rparr>)) ''c'' 1) \<and>
   isl (conflict_resolve (rs_conflicts ((ex_conflicted (ex_conflict 1 Quarantined))\<lparr>rs_conflicts := [(''c'', ex_conflict 2 Previewed)]\<rparr>)) ''c'' 1 Res_ours)"
  by (rule conflict_generation_spent [of "ex_conflicted (ex_conflict 1 Quarantined)", OF _ _ disjI1 [OF ex_conflict_preview] rtranclp.rtrancl_refl])
    (simp_all add: ex_conflicted_def ex_conflict_def store_inv_def generations_positive_def store_new_def ex_revision_def split: if_splits)

end
