(* ===== verification/Sync_Supervisor.thy ===== *)
theory Sync_Supervisor
  imports Complex_Main Prelude
begin

text \<open>
  The local synchronization supervisor, \<^verbatim>\<open>src/sync/supervisor.ts\<close>: the bounded queue of
  operations with its coalescing, the supervisor's published state and its convergence
  evidence, the registry of supervisors and the truthful progress projection.
  \<open>parse\<close> is \<^verbatim>\<open>Date.parse\<close> (\<open>None\<close> for \<^verbatim>\<open>NaN\<close>), a reading of the clock is an argument, and
  \<open>rnd\<close> rounds a rational to a double. The listeners of a supervisor, which are only told
  what is published, are left out.
\<close>

section \<open>The bounded operation queue\<close>

datatype sync_kind = K_create | K_update | K_delete | K_rename

record sync_operation =
  op_operationId :: string
  op_path :: string
  op_kind :: sync_kind
  op_byteLength :: int
  op_baseGeneration :: int
  op_acknowledged :: bool

datatype admission_reason = Operation_limit | Byte_limit

record queue_admission =
  qa_admitted :: bool
  qa_coalesced :: "string option"
  qa_dirty :: bool
  qa_reason :: "admission_reason option"

record operation_queue =
  oq_maximumOperations :: int
  oq_maximumBytes :: int
  oq_items :: "sync_operation list"
  oq_bytes :: int
  oq_dirty :: bool

definition queueFailure :: "string \<Rightarrow> cuna_error" where
  "queueFailure reason = workspaceError ''queue_invalid'' Policy reason"

definition queue_new :: "int \<Rightarrow> int \<Rightarrow> cuna_error + operation_queue" where
  "queue_new maximumOperations maximumBytes =
     (if \<not> is_safe_integer maximumOperations \<or> maximumOperations < 1 then Inl (queueFailure ''invalid_operation_limit'')
      else if \<not> is_safe_integer maximumBytes \<or> maximumBytes < 1 then Inl (queueFailure ''invalid_byte_limit'')
      else Inr \<lparr>oq_maximumOperations = maximumOperations, oq_maximumBytes = maximumBytes, oq_items = [],
                oq_bytes = 0, oq_dirty = False\<rparr>)"

definition validateOperation :: "sync_operation \<Rightarrow> bool" where
  "validateOperation p \<longleftrightarrow> op_operationId p \<noteq> [] \<and> op_path p \<noteq> [] \<and> is_safe_integer (op_byteLength p) \<and>
     0 \<le> op_byteLength p \<and> is_safe_integer (op_baseGeneration p) \<and> 0 \<le> op_baseGeneration p"

text \<open>The search from the newest item: \<open>scan_back\<close> looks at the first \<open>n\<close> items.\<close>

fun scan_back :: "sync_operation list \<Rightarrow> sync_operation \<Rightarrow> nat \<Rightarrow> (nat \<times> sync_operation) option" where
  "scan_back items p 0 = None"
| "scan_back items p (Suc n) =
     (let item = items ! n in
      if op_path item \<noteq> op_path p then scan_back items p n
      else if op_kind item = K_delete \<or> op_kind item = K_rename \<or> op_acknowledged item then None
      else if op_baseGeneration item \<noteq> op_baseGeneration p then None
      else Some (n, item))"

definition coalescingCandidate :: "operation_queue \<Rightarrow> sync_operation \<Rightarrow> (nat \<times> sync_operation) option" where
  "coalescingCandidate q p =
     (if op_kind p \<noteq> K_create \<and> op_kind p \<noteq> K_update then None
      else scan_back (oq_items q) p (length (oq_items q)))"

definition enqueue :: "operation_queue \<Rightarrow> sync_operation \<Rightarrow> cuna_error + queue_admission \<times> operation_queue" where
  "enqueue q p =
     (if \<not> validateOperation p then Inl (queueFailure ''invalid_operation'')
      else let candidate = coalescingCandidate q p;
               replacedBytes = (case candidate of None \<Rightarrow> 0 | Some (_, item) \<Rightarrow> op_byteLength item);
               nextSize = int (length (oq_items q)) + (if candidate = None then 1 else 0);
               nextBytes = oq_bytes q - replacedBytes + op_byteLength p
           in if nextSize > oq_maximumOperations q \<or> nextBytes > oq_maximumBytes q
              then Inr (\<lparr>qa_admitted = False, qa_coalesced = None, qa_dirty = True,
                          qa_reason = Some (if nextSize > oq_maximumOperations q then Operation_limit else Byte_limit)\<rparr>,
                        q\<lparr>oq_dirty := True\<rparr>)
              else Inr (\<lparr>qa_admitted = True,
                          qa_coalesced = (case candidate of None \<Rightarrow> None | Some (_, item) \<Rightarrow> Some (op_operationId item)),
                          qa_dirty = oq_dirty q, qa_reason = None\<rparr>,
                        q\<lparr>oq_items := (case candidate of None \<Rightarrow> oq_items q @ [p] | Some (i, _) \<Rightarrow> (oq_items q)[i := p]),
                          oq_bytes := nextBytes\<rparr>))"

definition queue_shift :: "operation_queue \<Rightarrow> sync_operation option \<times> operation_queue" where
  "queue_shift q = (case oq_items q of
     [] \<Rightarrow> (None, q)
   | item # rest \<Rightarrow> (Some item, q\<lparr>oq_items := rest, oq_bytes := oq_bytes q - op_byteLength item\<rparr>))"

definition markReconciled :: "operation_queue \<Rightarrow> cuna_error + operation_queue" where
  "markReconciled q = (if oq_items q \<noteq> [] then Inl (queueFailure ''queue_not_drained'') else Inr (q\<lparr>oq_dirty := False\<rparr>))"

section \<open>The supervisor\<close>

datatype supervisor_state =
  S_recovering | S_reconciling | S_catching_up | S_live_unverified | S_converged | S_conflicted
  | S_paused | S_recovery_required | S_unknown

record supervisor_configuration =
  sc_bindingId :: string
  sc_bindingGeneration :: int
  sc_canonicalRoot :: string
  sc_policyDigest :: string
  sc_epoch :: string

record convergence_receipt =
  cv_authority :: string
  cv_bindingId :: string
  cv_bindingGeneration :: int
  cv_epoch :: string
  cv_policyDigest :: string
  cv_localManifestRoot :: string
  cv_canonicalManifestRoot :: string
  cv_canonicalRevision :: string
  cv_observedAt :: string
  cv_expiresAt :: string

record supervisor_snapshot =
  sn_state :: supervisor_state
  sn_dirty :: bool
  sn_incrementalApplyPaused :: bool
  sn_reason :: "string option"
  sn_canonicalRevision :: "string option"
  sn_evidenceExpiresAt :: "string option"

record sync_supervisor =
  sv_configuration :: supervisor_configuration
  sv_operationQueue :: operation_queue
  sv_terminalQueue :: operation_queue
  sv_snapshot :: supervisor_snapshot

definition supervisor_new :: "supervisor_configuration \<Rightarrow> operation_queue \<Rightarrow> operation_queue \<Rightarrow> sync_supervisor" where
  "supervisor_new conf ops term_q = \<lparr>sv_configuration = conf, sv_operationQueue = ops, sv_terminalQueue = term_q,
     sv_snapshot = \<lparr>sn_state = S_recovering, sn_dirty = False, sn_incrementalApplyPaused = True, sn_reason = None,
       sn_canonicalRevision = None, sn_evidenceExpiresAt = None\<rparr>\<rparr>"

definition supervisor_snapshot_at :: "(string \<Rightarrow> int option) \<Rightarrow> sync_supervisor \<Rightarrow> int \<Rightarrow> supervisor_snapshot" where
  "supervisor_snapshot_at parse s clock =
     (let sn = sv_snapshot s in
      case sn_evidenceExpiresAt sn of
        None \<Rightarrow> sn
      | Some expiry \<Rightarrow>
          if sn_state sn = S_converged \<and> (case parse expiry of None \<Rightarrow> False | Some e \<Rightarrow> e \<le> clock)
          then \<lparr>sn_state = S_unknown, sn_dirty = True, sn_incrementalApplyPaused = True,
                sn_reason = Some ''convergence_evidence_expired'', sn_canonicalRevision = None,
                sn_evidenceExpiresAt = Some expiry\<rparr>
          else sn)"

definition publish :: "supervisor_state \<Rightarrow> bool \<Rightarrow> bool \<Rightarrow> string option \<Rightarrow> sync_supervisor \<Rightarrow> sync_supervisor" where
  "publish state dirty paused reason s = s\<lparr>sv_snapshot := \<lparr>sn_state = state, sn_dirty = dirty,
     sn_incrementalApplyPaused = paused, sn_reason = reason, sn_canonicalRevision = None, sn_evidenceExpiresAt = None\<rparr>\<rparr>"

definition beginReconciliation :: "sync_supervisor \<Rightarrow> string \<Rightarrow> sync_supervisor" where
  "beginReconciliation s reason = publish S_reconciling True True (Some reason) s"

definition watcherOverflow :: "sync_supervisor \<Rightarrow> sync_supervisor" where
  "watcherOverflow s = beginReconciliation s ''watcher_overflow''"

definition sequenceGap :: "sync_supervisor \<Rightarrow> sync_supervisor" where
  "sequenceGap s = beginReconciliation s ''sequence_gap''"

definition budgetExhausted :: "sync_supervisor \<Rightarrow> string \<Rightarrow> sync_supervisor" where
  "budgetExhausted s reason = publish S_paused True True (Some (reason @ ''_budget_exhausted'')) s"

definition conflictObserved :: "(string \<Rightarrow> int option) \<Rightarrow> sync_supervisor \<Rightarrow> int \<Rightarrow> sync_supervisor" where
  "conflictObserved parse s clock =
     publish S_conflicted (sn_dirty (supervisor_snapshot_at parse s clock)) False (Some ''path_conflict'') s"

definition markLiveUnverified :: "(string \<Rightarrow> int option) \<Rightarrow> sync_supervisor \<Rightarrow> int \<Rightarrow> sync_supervisor" where
  "markLiveUnverified parse s clock =
     publish S_live_unverified (sn_dirty (supervisor_snapshot_at parse s clock)) False None s"

text \<open>\<^verbatim>\<open>/^[A-Za-z0-9._:-]{1,256}$/u\<close>.\<close>

definition is_revision_char :: "char \<Rightarrow> bool" where
  "is_revision_char c \<longleftrightarrow> c \<in> set ''ABCDEFGHIJKLMNOPQRSTUVWXYZabcdefghijklmnopqrstuvwxyz0123456789._:-''"

definition is_revision_text :: "string \<Rightarrow> bool" where
  "is_revision_text s \<longleftrightarrow> s \<noteq> [] \<and> length s \<le> 256 \<and> list_all is_revision_char s"

definition receipt_valid ::
  "(string \<Rightarrow> int option) \<Rightarrow> supervisor_configuration \<Rightarrow> convergence_receipt \<Rightarrow> int \<Rightarrow> bool" where
  "receipt_valid parse conf r now \<longleftrightarrow>
     cv_authority r = ''cuna_workspace_service'' \<and> cv_bindingId r = sc_bindingId conf \<and>
     cv_bindingGeneration r = sc_bindingGeneration conf \<and> cv_epoch r = sc_epoch conf \<and>
     cv_policyDigest r = sc_policyDigest conf \<and> cv_localManifestRoot r = cv_canonicalManifestRoot r \<and>
     (case (parse (cv_observedAt r), parse (cv_expiresAt r)) of
        (Some observedAt, Some expiresAt) \<Rightarrow> observedAt \<le> now \<and> observedAt < expiresAt \<and> now < expiresAt
      | _ \<Rightarrow> False) \<and>
     is_revision_text (cv_canonicalRevision r)"

definition confirmConvergence ::
  "(string \<Rightarrow> int option) \<Rightarrow> sync_supervisor \<Rightarrow> convergence_receipt \<Rightarrow> int \<Rightarrow> sync_supervisor" where
  "confirmConvergence parse s r now =
     (if \<not> receipt_valid parse (sv_configuration s) r now
      then publish S_unknown True True (Some ''convergence_evidence_invalid'') s
      else s\<lparr>sv_snapshot := \<lparr>sn_state = S_converged, sn_dirty = False, sn_incrementalApplyPaused = False, sn_reason = None,
               sn_canonicalRevision = Some (cv_canonicalRevision r), sn_evidenceExpiresAt = Some (cv_expiresAt r)\<rparr>\<rparr>)"

section \<open>The registry of supervisors\<close>

text \<open>A supervisor object is compared by identity in the source: \<open>nat\<close> is the object.\<close>

type_synonym supervisor_registry = "(string, nat \<times> sync_supervisor) js_map"

definition sameConfiguration :: "supervisor_configuration \<Rightarrow> supervisor_configuration \<Rightarrow> bool" where
  "sameConfiguration l r \<longleftrightarrow> sc_bindingGeneration l = sc_bindingGeneration r \<and> sc_canonicalRoot l = sc_canonicalRoot r \<and>
     sc_policyDigest l = sc_policyDigest r \<and> sc_epoch l = sc_epoch r"

definition registry_queue :: "int \<Rightarrow> int \<Rightarrow> operation_queue" where
  "registry_queue ops bytes = \<lparr>oq_maximumOperations = ops, oq_maximumBytes = bytes, oq_items = [], oq_bytes = 0, oq_dirty = False\<rparr>"

definition registry_connect ::
  "supervisor_registry \<Rightarrow> supervisor_configuration \<Rightarrow> nat \<Rightarrow> cuna_error + (nat \<times> sync_supervisor) \<times> bool \<times> supervisor_registry" where
  "registry_connect reg conf new_object =
     (case map_get reg (sc_bindingId conf) of
        Some existing \<Rightarrow>
          if \<not> sameConfiguration (sv_configuration (snd existing)) conf
          then Inl (workspaceError ''supervisor_conflict'' Conflict ''configuration_mismatch'')
          else Inr (existing, False, reg)
      | None \<Rightarrow>
          let supervisor = (new_object, supervisor_new conf (registry_queue 10000 (256 * 1024 * 1024))
                                          (registry_queue 1024 (8 * 1024 * 1024)))
          in Inr (supervisor, True, map_set (sc_bindingId conf) supervisor reg))"

definition registry_release :: "supervisor_registry \<Rightarrow> string \<Rightarrow> nat \<Rightarrow> bool \<times> supervisor_registry" where
  "registry_release reg bindingId supervisor =
     (if map_option fst (map_get reg bindingId) \<noteq> Some supervisor then (False, reg)
      else (True, AList.delete bindingId reg))"

section \<open>Progress\<close>

datatype progress_stage = P_enumerating | P_hashing | P_negotiating | P_uploading | P_verifying | P_committed
datatype progress_authority = Local_manifest | Cuna_workspace_service

record progress_receipt =
  pr_authority :: progress_authority
  pr_stage :: progress_stage
  pr_observedEntries :: int
  pr_observedBytes :: int
  pr_totalEntries :: "int option"
  pr_totalBytes :: "int option"
  pr_canonicalRevision :: "string option"
  pr_observedAt :: string

record truthful_progress =
  tp_stage :: progress_stage
  tp_observedEntries :: int
  tp_observedBytes :: int
  tp_totalEntries :: "int option"
  tp_totalBytes :: "int option"
  tp_percent :: "int option"
  tp_ready :: bool
  tp_canonicalRevision :: "string option"

definition validateCount :: "int \<Rightarrow> bool" where
  "validateCount v \<longleftrightarrow> is_safe_integer v \<and> 0 \<le> v"

fun within_total :: "int \<Rightarrow> int option \<Rightarrow> bool" where
  "within_total observed None = True"
| "within_total observed (Some limit) = (observed \<le> limit)"

fun complete_total :: "int \<Rightarrow> int option \<Rightarrow> bool" where
  "complete_total observed None = True"
| "complete_total observed (Some limit) = (observed = limit)"

definition percent_of :: "(rat \<Rightarrow> rat) \<Rightarrow> int \<Rightarrow> int \<Rightarrow> int" where
  "percent_of rnd observed limit = min 100 (floor (rnd (rnd (of_int observed / of_int limit) * 100)))"

definition progressFromReceipt ::
  "(rat \<Rightarrow> rat) \<Rightarrow> (string \<Rightarrow> int option) \<Rightarrow> progress_receipt \<Rightarrow> cuna_error + truthful_progress" where
  "progressFromReceipt rnd parse r =
     (if \<not> validateCount (pr_observedEntries r) \<or> \<not> validateCount (pr_observedBytes r)
         \<or> \<not> pred_option validateCount (pr_totalEntries r) \<or> \<not> pred_option validateCount (pr_totalBytes r)
      then Inl (workspaceError ''progress_invalid'' Integrity ''invalid_count'')
      else if \<not> within_total (pr_observedEntries r) (pr_totalEntries r) \<or> \<not> within_total (pr_observedBytes r) (pr_totalBytes r)
              \<or> parse (pr_observedAt r) = None
      then Inl (workspaceError ''progress_invalid'' Integrity ''invalid_measurement'')
      else if pr_stage r = P_committed \<and>
              (pr_authority r \<noteq> Cuna_workspace_service
               \<or> (case pr_canonicalRevision r of None \<Rightarrow> True | Some v \<Rightarrow> \<not> is_revision_text v)
               \<or> \<not> complete_total (pr_observedEntries r) (pr_totalEntries r)
               \<or> \<not> complete_total (pr_observedBytes r) (pr_totalBytes r))
      then Inl (workspaceError ''progress_unproven'' Integrity ''authority_missing'')
      else Inr \<lparr>tp_stage = pr_stage r, tp_observedEntries = pr_observedEntries r, tp_observedBytes = pr_observedBytes r,
                tp_totalEntries = pr_totalEntries r, tp_totalBytes = pr_totalBytes r,
                tp_percent = (case pr_totalBytes r of None \<Rightarrow> None
                   | Some limit \<Rightarrow> if limit > 0 then Some (percent_of rnd (pr_observedBytes r) limit) else None),
                tp_ready = (pr_stage r = P_committed), tp_canonicalRevision = pr_canonicalRevision r\<rparr>)"

section \<open>Queue invariant\<close>

definition operations_bytes :: "sync_operation list \<Rightarrow> int" where
  "operations_bytes items = sum_list (map op_byteLength items)"

definition queue_inv :: "operation_queue \<Rightarrow> bool" where
  "queue_inv q \<longleftrightarrow> oq_bytes q = operations_bytes (oq_items q) \<and> list_all validateOperation (oq_items q) \<and>
     int (length (oq_items q)) \<le> oq_maximumOperations q \<and> oq_bytes q \<le> oq_maximumBytes q"

text \<open>Work on a queue is enqueueing and shifting; a step is work or a reconciliation.\<close>

inductive queue_work :: "operation_queue \<Rightarrow> operation_queue \<Rightarrow> bool" where
  enqueued: "enqueue q p = Inr (a, t) \<Longrightarrow> queue_work q t"
| shifted: "queue_shift q = (r, t) \<Longrightarrow> queue_work q t"

inductive queue_step :: "operation_queue \<Rightarrow> operation_queue \<Rightarrow> bool" where
  work: "queue_work q t \<Longrightarrow> queue_step q t"
| reconciled: "markReconciled q = Inr t \<Longrightarrow> queue_step q t"

lemma scan_back_Some:
  assumes "scan_back items p n = Some (i, item)" and "n \<le> length items"
  shows "i < n \<and> item = items ! i \<and> op_path item = op_path p \<and> op_kind item \<in> {K_create, K_update} \<and>
     \<not> op_acknowledged item \<and> op_baseGeneration item = op_baseGeneration p \<and>
     (\<forall>j. i < j \<longrightarrow> j < n \<longrightarrow> op_path (items ! j) \<noteq> op_path p)"
  using assms
proof (induction n)
  case (Suc n)
  show ?case
  proof (cases "op_path (items ! n) = op_path p")
    case True
    with Suc(2) have "i = n" "item = items ! n" "op_kind item \<notin> {K_delete, K_rename}" "\<not> op_acknowledged item"
      "op_baseGeneration item = op_baseGeneration p" by (auto simp: Let_def split: if_splits)
    with True show ?thesis by (cases "op_kind item") auto
  next
    case False
    with Suc have "i < n \<and> item = items ! i \<and> op_path item = op_path p \<and> op_kind item \<in> {K_create, K_update} \<and>
        \<not> op_acknowledged item \<and> op_baseGeneration item = op_baseGeneration p \<and>
        (\<forall>j. i < j \<longrightarrow> j < n \<longrightarrow> op_path (items ! j) \<noteq> op_path p)" by (auto simp: Let_def)
    with False show ?thesis by (auto simp: less_Suc_eq)
  qed
qed simp

lemma candidate_split:
  assumes "coalescingCandidate q p = Some (i, item)"
  obtains pre post where "oq_items q = pre @ item # post" "i = length pre" "op_path item = op_path p"
    "op_kind item \<in> {K_create, K_update}" "\<not> op_acknowledged item" "op_baseGeneration item = op_baseGeneration p"
    "\<forall>x \<in> set post. op_path x \<noteq> op_path p"
proof -
  let ?items = "oq_items q"
  have s: "i < length ?items" "item = ?items ! i" "op_path item = op_path p" "op_kind item \<in> {K_create, K_update}"
    "\<not> op_acknowledged item" "op_baseGeneration item = op_baseGeneration p"
    "\<And>j. i < j \<Longrightarrow> j < length ?items \<Longrightarrow> op_path (?items ! j) \<noteq> op_path p"
    using assms scan_back_Some [of ?items p "length ?items" i item] by (auto simp: coalescingCandidate_def split: if_splits)
  have "?items = take i ?items @ item # drop (Suc i) ?items" using s(1,2) by (simp add: id_take_nth_drop)
  moreover have "\<forall>x \<in> set (drop (Suc i) ?items). op_path x \<noteq> op_path p"
    using s(7) by (auto simp: in_set_conv_nth)
  ultimately show ?thesis using that [of "take i ?items" "drop (Suc i) ?items"] s by simp
qed

lemma enqueue_cases:
  assumes "enqueue q p = Inr (a, q')"
  obtains (refused) "\<not> qa_admitted a" "q' = q\<lparr>oq_dirty := True\<rparr>" "qa_dirty a" "qa_reason a \<noteq> None"
  | (appended) "qa_admitted a" "qa_coalesced a = None" "q' = q\<lparr>oq_items := oq_items q @ [p], oq_bytes := oq_bytes q + op_byteLength p\<rparr>"
      "validateOperation p" "int (length (oq_items q)) + 1 \<le> oq_maximumOperations q" "oq_bytes q + op_byteLength p \<le> oq_maximumBytes q"
  | (replaced) pre item post where "qa_admitted a" "qa_coalesced a = Some (op_operationId item)" "validateOperation p"
      "oq_items q = pre @ item # post" "op_path item = op_path p" "op_kind item \<in> {K_create, K_update}" "\<not> op_acknowledged item"
      "op_baseGeneration item = op_baseGeneration p" "\<forall>x \<in> set post. op_path x \<noteq> op_path p"
      "q' = q\<lparr>oq_items := pre @ p # post, oq_bytes := oq_bytes q - op_byteLength item + op_byteLength p\<rparr>"
      "oq_bytes q - op_byteLength item + op_byteLength p \<le> oq_maximumBytes q"
proof (cases "coalescingCandidate q p")
  case None
  with assms refused appended show ?thesis by (auto simp: enqueue_def Let_def not_less split: if_splits)
next
  case (Some c)
  then obtain i item where c: "coalescingCandidate q p = Some (i, item)" by (cases c) auto
  then show ?thesis
  proof (cases rule: candidate_split)
    case (1 pre post)
    then have upd: "(oq_items q)[i := p] = pre @ p # post" by simp
    show ?thesis using assms c upd 1 refused replaced [OF _ _ _ 1(1,3-7)]
      by (auto simp: enqueue_def Let_def not_less split: if_splits)
  qed
qed

lemma queue_work_inv: "queue_inv q \<Longrightarrow> queue_work q t \<Longrightarrow> queue_inv t"
  by (auto elim!: queue_work.cases enqueue_cases simp: queue_inv_def operations_bytes_def queue_shift_def validateOperation_def
      split: list.splits)

lemma queue_step_inv:
  assumes "queue_inv q" and "queue_step q t"
  shows "queue_inv t"
  using assms(2)
proof cases
  case work
  with assms(1) show ?thesis by (rule queue_work_inv)
next
  case reconciled
  with assms(1) show ?thesis by (auto simp: markReconciled_def queue_inv_def split: if_splits)
qed

lemma queue_new_inv: "queue_new m b = Inr q \<Longrightarrow> queue_inv q"
  by (auto simp: queue_new_def queue_inv_def operations_bytes_def split: if_splits)

interpretation queue_sys: invariant_system "\<lambda>q. \<exists>m b. queue_new m b = Inr q" queue_step queue_inv
  by unfold_locales (blast intro: queue_new_inv queue_step_inv)+


section \<open>Convergence\<close>

inductive supervisor_step :: "(string \<Rightarrow> int option) \<Rightarrow> sync_supervisor \<Rightarrow> sync_supervisor \<Rightarrow> bool" for parse where
  "supervisor_step parse s (beginReconciliation s reason)"
| "supervisor_step parse s (watcherOverflow s)"
| "supervisor_step parse s (sequenceGap s)"
| "supervisor_step parse s (budgetExhausted s reason)"
| "supervisor_step parse s (conflictObserved parse s clock)"
| "supervisor_step parse s (markLiveUnverified parse s clock)"
| confirmed: "supervisor_step parse s (confirmConvergence parse s r now)"
| "queue_step (sv_operationQueue s) q \<Longrightarrow> supervisor_step parse s (s\<lparr>sv_operationQueue := q\<rparr>)"
| "queue_step (sv_terminalQueue s) q \<Longrightarrow> supervisor_step parse s (s\<lparr>sv_terminalQueue := q\<rparr>)"

definition evidence :: "(string \<Rightarrow> int option) \<Rightarrow> supervisor_configuration \<Rightarrow> supervisor_snapshot \<Rightarrow> bool" where
  "evidence parse conf sn \<longleftrightarrow> (sn_state sn = S_converged \<longrightarrow> (\<exists>r now. receipt_valid parse conf r now \<and> \<not> sn_dirty sn \<and>
     sn_canonicalRevision sn = Some (cv_canonicalRevision r) \<and> sn_evidenceExpiresAt sn = Some (cv_expiresAt r)))"

definition supervisor_inv :: "(string \<Rightarrow> int option) \<Rightarrow> supervisor_configuration \<Rightarrow> sync_supervisor \<Rightarrow> bool" where
  "supervisor_inv parse conf s \<longleftrightarrow> sv_configuration s = conf \<and> evidence parse conf (sv_snapshot s)"

lemma supervisor_step_inv: "supervisor_inv parse conf s \<Longrightarrow> supervisor_step parse s t \<Longrightarrow> supervisor_inv parse conf t"
  by (erule supervisor_step.cases)
    (auto simp: supervisor_inv_def evidence_def beginReconciliation_def watcherOverflow_def sequenceGap_def budgetExhausted_def
      conflictObserved_def markLiveUnverified_def publish_def confirmConvergence_def)

interpretation supervisor_sys: invariant_system
  "\<lambda>s. \<exists>a b. s = supervisor_new conf a b" "supervisor_step parse" "supervisor_inv parse conf" for parse conf
proof unfold_locales
  show "supervisor_inv parse conf s" if "\<exists>a b. s = supervisor_new conf a b" for s
    using that by (auto simp: supervisor_new_def supervisor_inv_def evidence_def)
qed (rule supervisor_step_inv)

section \<open>Properties\<close>

text \<open>
  The operation queue is bounded and its accounting exact: in every reachable queue the
  byte counter is the total size of the queued operations, and neither the number of
  operations nor their bytes exceed the configured limits.
\<close>

theorem queue_bounded:
  assumes "queue_new m b = Inr q0" and "queue_step\<^sup>*\<^sup>* q0 q"
  shows "oq_bytes q = operations_bytes (oq_items q) \<and> 0 \<le> oq_bytes q \<and>
     int (length (oq_items q)) \<le> oq_maximumOperations q \<and> oq_bytes q \<le> oq_maximumBytes q"
proof -
  have inv: "queue_inv q" using assms by (intro queue_sys.reachable_inv) auto
  then have "0 \<le> operations_bytes (oq_items q)"
    unfolding operations_bytes_def by (intro sum_list_nonneg) (auto simp: queue_inv_def list_all_iff validateOperation_def)
  with inv show ?thesis by (simp add: queue_inv_def)
qed

definition ex_operation :: "sync_kind \<Rightarrow> int \<Rightarrow> sync_operation" where
  "ex_operation k n = \<lparr>op_operationId = ''o'', op_path = ''f'', op_kind = k, op_byteLength = n, op_baseGeneration = 1,
     op_acknowledged = False\<rparr>"

definition ex_queue :: "sync_operation list \<Rightarrow> int \<Rightarrow> bool \<Rightarrow> operation_queue" where
  "ex_queue items bytes dirty = \<lparr>oq_maximumOperations = 1, oq_maximumBytes = 10, oq_items = items, oq_bytes = bytes, oq_dirty = dirty\<rparr>"

lemma ex_queue_new: "queue_new 1 10 = Inr (ex_queue [] 0 False)"
  by (simp add: queue_new_def ex_queue_def js_defs)

lemma ex_enqueued:
  "enqueue (ex_queue [] 0 False) (ex_operation K_create 4) =
     Inr (\<lparr>qa_admitted = True, qa_coalesced = None, qa_dirty = False, qa_reason = None\<rparr>, ex_queue [ex_operation K_create 4] 4 False)"
  by (simp add: enqueue_def validateOperation_def ex_operation_def ex_queue_def coalescingCandidate_def js_defs)

theorem queue_bounded_witness:
  "oq_bytes (ex_queue [ex_operation K_create 4] 4 False) = operations_bytes (oq_items (ex_queue [ex_operation K_create 4] 4 False)) \<and>
     0 \<le> oq_bytes (ex_queue [ex_operation K_create 4] 4 False) \<and>
     int (length (oq_items (ex_queue [ex_operation K_create 4] 4 False))) \<le> oq_maximumOperations (ex_queue [ex_operation K_create 4] 4 False) \<and>
     oq_bytes (ex_queue [ex_operation K_create 4] 4 False) \<le> oq_maximumBytes (ex_queue [ex_operation K_create 4] 4 False)"
  by (rule queue_bounded [OF ex_queue_new r_into_rtranclp [of queue_step, OF queue_step.work, OF queue_work.enqueued, OF ex_enqueued]])




text \<open>
  Convergence is never claimed without current evidence: whenever a supervisor, after any
  sequence of events, shows the state \<^verbatim>\<open>converged\<close>, it holds a receipt of the workspace service
  for its own binding, generation, epoch and policy in which the local and the canonical
  manifest agree, it shows that receipt's revision, and the receipt has not expired yet.
\<close>

theorem convergence_has_evidence:
  assumes "(supervisor_step parse)\<^sup>*\<^sup>* (supervisor_new conf ops term_q) s"
    and "sn_state (supervisor_snapshot_at parse s clock) = S_converged"
  shows "\<exists>r now expiry. receipt_valid parse conf r now \<and> parse (cv_expiresAt r) = Some expiry \<and> clock < expiry \<and>
     sn_canonicalRevision (supervisor_snapshot_at parse s clock) = Some (cv_canonicalRevision r) \<and>
     \<not> sn_dirty (supervisor_snapshot_at parse s clock)"
proof -
  have "supervisor_inv parse conf s" using assms(1) by (intro supervisor_sys.reachable_inv) auto
  then have ev: "evidence parse conf (sv_snapshot s)" by (simp add: supervisor_inv_def)
  have visible: "supervisor_snapshot_at parse s clock = sv_snapshot s"
    using assms(2) by (auto simp: supervisor_snapshot_at_def Let_def split: option.splits if_splits)
  with assms(2) ev obtain r now where r: "receipt_valid parse conf r now" "\<not> sn_dirty (sv_snapshot s)"
    "sn_canonicalRevision (sv_snapshot s) = Some (cv_canonicalRevision r)"
    "sn_evidenceExpiresAt (sv_snapshot s) = Some (cv_expiresAt r)" by (auto simp: evidence_def)
  from r(1) obtain e where e: "parse (cv_expiresAt r) = Some e"
    by (auto simp: receipt_valid_def split: option.splits)
  moreover have "clock < e"
  proof (rule ccontr)
    assume "\<not> clock < e"
    moreover have "sn_state (sv_snapshot s) = S_converged" using assms(2) visible by simp
    ultimately have "sn_state (supervisor_snapshot_at parse s clock) = S_unknown"
      using r(4) e by (simp add: supervisor_snapshot_at_def)
    with assms(2) show False by simp
  qed
  ultimately show ?thesis using r visible by auto
qed

definition ex_configuration :: supervisor_configuration where
  "ex_configuration = \<lparr>sc_bindingId = ''b'', sc_bindingGeneration = 1, sc_canonicalRoot = ''/w'', sc_policyDigest = ''p'', sc_epoch = ''e''\<rparr>"

definition ex_receipt :: convergence_receipt where
  "ex_receipt = \<lparr>cv_authority = ''cuna_workspace_service'', cv_bindingId = ''b'', cv_bindingGeneration = 1, cv_epoch = ''e'',
     cv_policyDigest = ''p'', cv_localManifestRoot = ''m'', cv_canonicalManifestRoot = ''m'', cv_canonicalRevision = ''r'',
     cv_observedAt = ''1'', cv_expiresAt = ''123''\<rparr>"

definition ex_parse :: "string \<Rightarrow> int option" where
  "ex_parse t = (if t = [] then None else Some (int (length t)))"

definition ex_supervisor :: sync_supervisor where
  "ex_supervisor = supervisor_new ex_configuration (ex_queue [] 0 False) (ex_queue [] 0 False)"

lemma ex_receipt_valid: "receipt_valid ex_parse ex_configuration ex_receipt 1"
  by (simp add: receipt_valid_def ex_receipt_def ex_configuration_def ex_parse_def is_revision_text_def is_revision_char_def)

theorem convergence_has_evidence_witness:
  "\<exists>r now expiry. receipt_valid ex_parse ex_configuration r now \<and> ex_parse (cv_expiresAt r) = Some expiry \<and> 2 < expiry \<and>
     sn_canonicalRevision (supervisor_snapshot_at ex_parse (confirmConvergence ex_parse ex_supervisor ex_receipt 1) 2) = Some (cv_canonicalRevision r) \<and>
     \<not> sn_dirty (supervisor_snapshot_at ex_parse (confirmConvergence ex_parse ex_supervisor ex_receipt 1) 2)"
proof (rule convergence_has_evidence)
  show "(supervisor_step ex_parse)\<^sup>*\<^sup>* (supervisor_new ex_configuration (ex_queue [] 0 False) (ex_queue [] 0 False))
      (confirmConvergence ex_parse ex_supervisor ex_receipt 1)"
    using supervisor_step.confirmed [of ex_parse ex_supervisor ex_receipt 1] unfolding ex_supervisor_def by (rule r_into_rtranclp)
  show "sn_state (supervisor_snapshot_at ex_parse (confirmConvergence ex_parse ex_supervisor ex_receipt 1) 2) = S_converged"
    using ex_receipt_valid by (simp add: confirmConvergence_def supervisor_snapshot_at_def ex_supervisor_def supervisor_new_def)
      (simp add: ex_receipt_def ex_parse_def)
qed

text \<open>
  Progress is truthful: a projected progress is ready exactly in the committed stage, and then
  it rests on a receipt of the workspace service with a well-formed canonical revision and
  complete counts; the counts never exceed the totals; and the percentage lies between 0
  and 100 and is 100 when all bytes are observed, for any monotone rounding that is exact
  on 0, 1 and 100.
\<close>

theorem progress_truthful:
  assumes "progressFromReceipt rnd parse r = Inr p"
    and "\<forall>x y. x \<le> y \<longrightarrow> rnd x \<le> rnd y" and "rnd 0 = 0" and "rnd 1 = 1" and "rnd 100 = 100"
  shows "(tp_ready p \<longleftrightarrow> tp_stage p = P_committed) \<and>
     (tp_ready p \<longrightarrow> pr_authority r = Cuna_workspace_service \<and> (\<exists>v. tp_canonicalRevision p = Some v \<and> is_revision_text v) \<and>
        complete_total (tp_observedEntries p) (tp_totalEntries p) \<and> complete_total (tp_observedBytes p) (tp_totalBytes p)) \<and>
     within_total (tp_observedEntries p) (tp_totalEntries p) \<and> within_total (tp_observedBytes p) (tp_totalBytes p) \<and>
     (\<forall>n. tp_percent p = Some n \<longrightarrow> 0 \<le> n \<and> n \<le> 100 \<and> (tp_totalBytes p = Some (tp_observedBytes p) \<longrightarrow> n = 100))"
proof -
  have p: "p = \<lparr>tp_stage = pr_stage r, tp_observedEntries = pr_observedEntries r, tp_observedBytes = pr_observedBytes r,
      tp_totalEntries = pr_totalEntries r, tp_totalBytes = pr_totalBytes r,
      tp_percent = (case pr_totalBytes r of None \<Rightarrow> None
         | Some limit \<Rightarrow> if limit > 0 then Some (percent_of rnd (pr_observedBytes r) limit) else None),
      tp_ready = (pr_stage r = P_committed), tp_canonicalRevision = pr_canonicalRevision r\<rparr>"
    and counts: "0 \<le> pr_observedBytes r" "within_total (pr_observedEntries r) (pr_totalEntries r)" "within_total (pr_observedBytes r) (pr_totalBytes r)"
    and ready: "pr_stage r = P_committed \<Longrightarrow> pr_authority r = Cuna_workspace_service \<and>
      (\<exists>v. pr_canonicalRevision r = Some v \<and> is_revision_text v) \<and>
      complete_total (pr_observedEntries r) (pr_totalEntries r) \<and> complete_total (pr_observedBytes r) (pr_totalBytes r)"
    using assms(1) by (auto simp: progressFromReceipt_def validateCount_def split: if_splits option.splits)
  have "0 \<le> percent_of rnd (pr_observedBytes r) limit \<and> percent_of rnd (pr_observedBytes r) limit \<le> 100 \<and>
      (limit = pr_observedBytes r \<longrightarrow> percent_of rnd (pr_observedBytes r) limit = 100)" if "0 < limit" for limit
  proof -
    have "(0::rat) \<le> of_int (pr_observedBytes r) / of_int limit" using counts(1) that by simp
    then have "0 \<le> rnd (of_int (pr_observedBytes r) / of_int limit)" using assms(2,3) by metis
    then have "0 \<le> rnd (rnd (of_int (pr_observedBytes r) / of_int limit) * 100)" using assms(2,3) by (metis mult_nonneg_nonneg zero_le_numeral)
    with that assms(4,5) show ?thesis by (auto simp: percent_of_def)
  qed
  with p counts ready show ?thesis by (auto split: option.splits if_splits)
qed

definition ex_progress :: progress_receipt where
  "ex_progress = \<lparr>pr_authority = Cuna_workspace_service, pr_stage = P_committed, pr_observedEntries = 2, pr_observedBytes = 9,
     pr_totalEntries = Some 2, pr_totalBytes = Some 9, pr_canonicalRevision = Some ''r'', pr_observedAt = ''1''\<rparr>"

definition ex_truthful :: truthful_progress where
  "ex_truthful = \<lparr>tp_stage = P_committed, tp_observedEntries = 2, tp_observedBytes = 9, tp_totalEntries = Some 2,
     tp_totalBytes = Some 9, tp_percent = Some 100, tp_ready = True, tp_canonicalRevision = Some ''r''\<rparr>"

lemma ex_progress_result: "progressFromReceipt (\<lambda>x. x) ex_parse ex_progress = Inr ex_truthful"
  by (simp add: progressFromReceipt_def ex_progress_def ex_truthful_def validateCount_def ex_parse_def is_revision_text_def
      is_revision_char_def percent_of_def js_defs)

theorem progress_truthful_witness:
  "pr_authority ex_progress = Cuna_workspace_service \<and>
     complete_total (tp_observedEntries ex_truthful) (tp_totalEntries ex_truthful) \<and>
     complete_total (tp_observedBytes ex_truthful) (tp_totalBytes ex_truthful) \<and>
     within_total (tp_observedEntries ex_truthful) (tp_totalEntries ex_truthful) \<and>
     within_total (tp_observedBytes ex_truthful) (tp_totalBytes ex_truthful)"
  using progress_truthful [OF ex_progress_result] by (simp add: ex_truthful_def)

end
