(* ===== verification/Wait_Policy.thy ===== *)
theory Wait_Policy
  imports Complex_Main Prelude Json
begin

text \<open>
  How long the client waits: the readiness backoff, the deadline of a journey phase and the
  re-issue of idempotent reads (\<^verbatim>\<open>src/journey/wait-policy.ts\<close>), and the reconnect delays of
  the terminal (\<^verbatim>\<open>src/runtime/backoff.ts\<close>). Milliseconds are integers, readings of the clock
  are arguments. The reads of one phase are given as functions of the attempt: what the
  read did, whether the signal was aborted by then, the clock when the deadline is
  checked and when the wait is reported, and what broke off the report or the pause after
  it, if anything did (the pause rejects with the reason of the abort). Attempts are counted from zero. Where the
  source computes with doubles, \<open>rnd\<close> rounds a rational to a double.
\<close>

section \<open>Backoff and deadlines\<close>

definition readinessBackoffMs :: "int \<Rightarrow> int" where
  "readinessBackoffMs attempt = min 2000 (100 * 2 ^ nat (min attempt 4))"

fun backoff_loop :: "nat \<Rightarrow> int \<Rightarrow> int \<Rightarrow> int" where
  "backoff_loop 0 attempt acc = acc"
| "backoff_loop (Suc n) attempt acc = backoff_loop n (attempt + 1) (acc + readinessBackoffMs attempt)"

definition readinessBackoffTotalMs :: "nat \<Rightarrow> int" where
  "readinessBackoffTotalMs attempts = backoff_loop attempts 0 0"

definition default_request_budget_ms :: int where "default_request_budget_ms = 15000"
definition agent_session_ready_deadline_ms :: int where "agent_session_ready_deadline_ms = 180000"
definition agent_session_ready_poll_max_ms :: int where "agent_session_ready_poll_max_ms = 500"
definition agent_session_ready_fast_poll_window_ms :: int where "agent_session_ready_fast_poll_window_ms = 30000"
definition machine_ready_deadline_ms :: int where "machine_ready_deadline_ms = 120000"
definition account_identity_deadline_ms :: int where "account_identity_deadline_ms = 3 * default_request_budget_ms"
definition reissue_pause_ms :: int where "reissue_pause_ms = 250"

record journey_deadline =
  jdl_deadlineMs :: int
  jdl_startedAt :: int

text \<open>\<open>None\<close> is the \<^verbatim>\<open>TypeError\<close> of a negative bound.\<close>

definition startJourneyDeadline :: "int \<Rightarrow> int \<Rightarrow> journey_deadline option" where
  "startJourneyDeadline deadlineMs now =
     (if deadlineMs < 0 then None else Some \<lparr>jdl_deadlineMs = deadlineMs, jdl_startedAt = now\<rparr>)"

definition elapsedMs :: "journey_deadline \<Rightarrow> int \<Rightarrow> int" where
  "elapsedMs d now = max 0 (now - jdl_startedAt d)"

definition remainingMs :: "journey_deadline \<Rightarrow> int \<Rightarrow> int" where
  "remainingMs d now = max 0 (jdl_deadlineMs d - elapsedMs d now)"

definition deadline_elapsed :: "journey_deadline \<Rightarrow> int \<Rightarrow> bool" where
  "deadline_elapsed d now \<longleftrightarrow> elapsedMs d now \<ge> jdl_deadlineMs d"

record journey_wait =
  jw_waitingFor :: string
  jw_cause :: "string option"
  jw_elapsedMs :: int
  jw_deadlineMs :: int

text \<open>Whole seconds of times below \<^verbatim>\<open>2^40\<close> milliseconds, where the division of the source cannot reach the next integer.\<close>

definition wholeSeconds :: "int \<Rightarrow> int" where
  "wholeSeconds milliseconds = max 0 (milliseconds div 1000)"

definition middle_dot :: string where "middle_dot = [CHR '' '', CHR 0xB7, CHR '' '']"

definition journeyWaitLine :: "journey_wait \<Rightarrow> string" where
  "journeyWaitLine w = ''Still waiting for '' @ jw_waitingFor w @
     (case jw_cause w of None \<Rightarrow> [] | Some c \<Rightarrow> middle_dot @ c) @ middle_dot @
     int_text (wholeSeconds (jw_elapsedMs w)) @ ''s of '' @ int_text (wholeSeconds (jw_deadlineMs w)) @ ''s''"

section \<open>Re-issuing an idempotent read\<close>

datatype ('v, 'e) read_outcome = Read_value 'v | Budget_elapsed 'e | Read_failed 'e

record ('v, 'e) read_attempt =
  ra_outcome :: "('v, 'e) read_outcome"
  ra_aborted :: bool
  ra_now :: int
  ra_report :: int
  ra_interrupt :: "'e option"

record 'e deadline_failure =
  df_waitingFor :: string
  df_elapsedMs :: int
  df_deadlineMs :: int
  df_readReissues :: int
  df_cause :: 'e

datatype ('v, 'e) read_result = Returned 'v | Threw 'e | Deadline_failed "'e deadline_failure"

text \<open>
  The loop, with the number of iterations it may take; \<open>None\<close> when they run out. It also
  returns the waits it reported, in order.
\<close>

fun reissue_loop ::
  "nat \<Rightarrow> string \<Rightarrow> journey_deadline \<Rightarrow> (nat \<Rightarrow> ('v, 'e) read_attempt) \<Rightarrow> nat
   \<Rightarrow> (('v, 'e) read_result \<times> journey_wait list) option" where
  "reissue_loop 0 waitingFor d attempts k = None"
| "reissue_loop (Suc fuel) waitingFor d attempts k =
     (let a = attempts k in
      case ra_outcome a of
        Read_value v \<Rightarrow> Some (Returned v, [])
      | Read_failed e \<Rightarrow> Some (Threw e, [])
      | Budget_elapsed e \<Rightarrow>
          if ra_aborted a then Some (Threw e, [])
          else if deadline_elapsed d (ra_now a)
          then Some (Deadline_failed \<lparr>df_waitingFor = waitingFor, df_elapsedMs = elapsedMs d (ra_report a),
                       df_deadlineMs = jdl_deadlineMs d, df_readReissues = int k, df_cause = e\<rparr>, [])
          else let wait = \<lparr>jw_waitingFor = waitingFor, jw_cause = None,
                   jw_elapsedMs = elapsedMs d (ra_report a), jw_deadlineMs = jdl_deadlineMs d\<rparr>
               in case ra_interrupt a of
                    Some reason \<Rightarrow> Some (Threw reason, [wait])
                  | None \<Rightarrow> map_option (map_prod id (Cons wait)) (reissue_loop fuel waitingFor d attempts (Suc k)))"

text \<open>Between two attempts lies the pause of \<^verbatim>\<open>REISSUE_PAUSE_MS\<close>, so the clock advances by at least that.\<close>

definition clock_advances :: "(nat \<Rightarrow> ('v, 'e) read_attempt) \<Rightarrow> bool" where
  "clock_advances attempts \<longleftrightarrow> (\<forall>k. ra_now (attempts k) + reissue_pause_ms \<le> ra_now (attempts (Suc k)))"

definition reissue_fuel :: "journey_deadline \<Rightarrow> nat" where
  "reissue_fuel d = nat (jdl_deadlineMs d) div 250 + 2"

definition reissueIdempotentRead ::
  "string \<Rightarrow> journey_deadline \<Rightarrow> (nat \<Rightarrow> ('v, 'e) read_attempt) \<Rightarrow> (('v, 'e) read_result \<times> journey_wait list) option" where
  "reissueIdempotentRead waitingFor d attempts = reissue_loop (reissue_fuel d) waitingFor d attempts 0"

section \<open>Reconnect delays\<close>

record reconnect_policy =
  rp_maximumAttempts :: int
  rp_maximumElapsedMs :: int
  rp_initialDelayMs :: int
  rp_maximumDelayMs :: int
  rp_jitterRatio :: rat

datatype reconnect_error = Terminal_disconnected | Terminal_protocol_error

text \<open>The jitter ratio is the double next to 0.2.\<close>

definition default_reconnect_policy :: reconnect_policy where
  "default_reconnect_policy = \<lparr>rp_maximumAttempts = 5, rp_maximumElapsedMs = 120000, rp_initialDelayMs = 250,
     rp_maximumDelayMs = 30000, rp_jitterRatio = 3602879701896397 / 18014398509481984\<rparr>"

definition validatePolicy :: "reconnect_policy \<Rightarrow> bool" where
  "validatePolicy p \<longleftrightarrow> 1 \<le> rp_maximumAttempts p \<and> rp_maximumAttempts p \<le> 5 \<and>
     1 \<le> rp_maximumElapsedMs p \<and> rp_maximumElapsedMs p \<le> 120000 \<and>
     is_safe_integer (rp_initialDelayMs p) \<and> 1 \<le> rp_initialDelayMs p \<and>
     is_safe_integer (rp_maximumDelayMs p) \<and> rp_initialDelayMs p \<le> rp_maximumDelayMs p \<and>
     rp_maximumDelayMs p \<le> rp_maximumElapsedMs p \<and> 0 \<le> rp_jitterRatio p \<and> rp_jitterRatio p \<le> 1 / 2"

definition reconnect_base :: "reconnect_policy \<Rightarrow> int \<Rightarrow> int" where
  "reconnect_base p attempt = min (rp_maximumDelayMs p) (rp_initialDelayMs p * 2 ^ nat (attempt - 1))"

text \<open>\<^verbatim>\<open>Math.round\<close> rounds halves up.\<close>

definition math_round :: "rat \<Rightarrow> int" where
  "math_round x = floor (x + 1 / 2)"

definition reconnectDelay :: "(rat \<Rightarrow> rat) \<Rightarrow> int \<Rightarrow> reconnect_policy \<Rightarrow> rat \<Rightarrow> reconnect_error + int" where
  "reconnectDelay rnd attempt p sample =
     (if \<not> validatePolicy p then Inl Terminal_protocol_error
      else if \<not> is_safe_integer attempt \<or> attempt < 1 \<or> attempt > rp_maximumAttempts p then Inl Terminal_disconnected
      else if sample < 0 \<or> sample \<ge> 1 then Inl Terminal_protocol_error
      else let jitter = rnd (rnd (rnd (sample * 2) - 1) * rp_jitterRatio p)
           in Inr (max 0 (math_round (rnd (of_int (reconnect_base p attempt) * rnd (1 + jitter))))))"

definition waitForReconnectDelay ::
  "(rat \<Rightarrow> rat) \<Rightarrow> int \<Rightarrow> int \<Rightarrow> reconnect_policy \<Rightarrow> rat \<Rightarrow> bool \<Rightarrow> reconnect_error + int" where
  "waitForReconnectDelay rnd attempt elapsed p sample aborted =
     (case reconnectDelay rnd attempt p sample of
        Inl e \<Rightarrow> Inl e
      | Inr delay \<Rightarrow>
          if elapsed + delay > rp_maximumElapsedMs p then Inl Terminal_disconnected
          else if aborted then Inl Terminal_disconnected
          else Inr delay)"

section \<open>Lemmas\<close>

lemma readinessBackoff_values:
  "readinessBackoffMs 0 = 100" "readinessBackoffMs 1 = 200" "readinessBackoffMs 2 = 400" "readinessBackoffMs 3 = 800"
  "4 \<le> k \<Longrightarrow> readinessBackoffMs k = 1600"
  by (simp_all add: readinessBackoffMs_def min_def)

lemma backoff_loop_settled: "4 \<le> k \<Longrightarrow> backoff_loop n k acc = acc + 1600 * int n"
  by (induction n k acc rule: backoff_loop.induct) (simp_all add: readinessBackoff_values)

lemma reissue_step:
  assumes "ra_outcome (attempts k) = Budget_elapsed e" and "\<not> ra_aborted (attempts k)" and "\<not> deadline_elapsed d (ra_now (attempts k))"
    and "ra_interrupt (attempts k) = None"
  shows "reissue_loop (Suc fuel) w d attempts k = map_option (map_prod id (Cons \<lparr>jw_waitingFor = w, jw_cause = None,
     jw_elapsedMs = elapsedMs d (ra_report (attempts k)), jw_deadlineMs = jdl_deadlineMs d\<rparr>)) (reissue_loop fuel w d attempts (Suc k))"
  using assms by (simp add: Let_def)

lemma clock_advances_by:
  assumes "clock_advances attempts"
  shows "ra_now (attempts k) + 250 * int n \<le> ra_now (attempts (k + n))"
proof (induction n)
  case (Suc n)
  have "ra_now (attempts (k + n)) + 250 \<le> ra_now (attempts (Suc (k + n)))"
    using assms by (simp add: clock_advances_def reissue_pause_ms_def)
  with Suc show ?case by simp
qed simp

text \<open>The loop ends within its fuel when that outlasts the deadline at the pace of the pauses.\<close>

lemma reissue_loop_ends:
  assumes "clock_advances attempts" and "jdl_startedAt d \<le> ra_now (attempts k)"
    and "jdl_deadlineMs d - elapsedMs d (ra_now (attempts k)) \<le> 250 * int fuel"
  shows "\<exists>r ws. reissue_loop (Suc fuel) w d attempts k = Some (r, ws) \<and> length ws \<le> fuel"
  using assms
proof (induction fuel arbitrary: k)
  case 0
  then show ?case by (cases "ra_outcome (attempts k)") (auto simp: deadline_elapsed_def Let_def)
next
  case (Suc fuel)
  have adv: "ra_now (attempts k) + 250 \<le> ra_now (attempts (Suc k))"
    using clock_advances_by [OF assms(1), of k 1] by simp
  show ?case
  proof (cases "\<exists>e. ra_outcome (attempts k) = Budget_elapsed e \<and> \<not> ra_aborted (attempts k) \<and> \<not> deadline_elapsed d (ra_now (attempts k)) \<and>
      ra_interrupt (attempts k) = None")
    case True
    then obtain e where e: "ra_outcome (attempts k) = Budget_elapsed e" "\<not> ra_aborted (attempts k)"
      "\<not> deadline_elapsed d (ra_now (attempts k))" "ra_interrupt (attempts k) = None" by blast
    have "\<exists>r ws. reissue_loop (Suc fuel) w d attempts (Suc k) = Some (r, ws) \<and> length ws \<le> fuel"
      using Suc(3,4) adv by (intro Suc(1) [OF assms(1)]) (auto simp: elapsedMs_def)
    then show ?thesis unfolding reissue_step [of attempts k e d, OF e] by auto
  next
    case False
    then show ?thesis by (cases "ra_outcome (attempts k)"; cases "ra_interrupt (attempts k)") (auto simp: Let_def)
  qed
qed

text \<open>What the result says about the attempts made.\<close>

lemma reissue_loop_result:
  assumes "reissue_loop fuel w d attempts k = Some (r, ws)"
  shows "(\<forall>j < length ws. (\<exists>e. ra_outcome (attempts (k + j)) = Budget_elapsed e) \<and> \<not> ra_aborted (attempts (k + j)) \<and>
       \<not> deadline_elapsed d (ra_now (attempts (k + j)))) \<and>
     (\<forall>j. Suc j < length ws \<longrightarrow> ra_interrupt (attempts (k + j)) = None) \<and>
     ((\<exists>n reason. length ws = Suc n \<and> ra_interrupt (attempts (k + n)) = Some reason \<and> r = Threw reason) \<or>
      ((\<forall>j < length ws. ra_interrupt (attempts (k + j)) = None) \<and> (let a = attempts (k + length ws) in case r of
        Returned v \<Rightarrow> ra_outcome a = Read_value v
      | Threw e \<Rightarrow> ra_outcome a = Read_failed e \<or> (ra_outcome a = Budget_elapsed e \<and> ra_aborted a)
      | Deadline_failed f \<Rightarrow> ra_outcome a = Budget_elapsed (df_cause f) \<and> \<not> ra_aborted a \<and> deadline_elapsed d (ra_now a) \<and>
          df_readReissues f = int (k + length ws))))"
    (is "?waits k ws \<and> ?paused k ws \<and> (?broken k ws \<or> ?whole k ws \<and> ?ended k ws)")
  using assms
proof (induction fuel arbitrary: k ws)
  case (Suc fuel)
  show ?case
  proof (cases "\<exists>e. ra_outcome (attempts k) = Budget_elapsed e \<and> \<not> ra_aborted (attempts k) \<and> \<not> deadline_elapsed d (ra_now (attempts k)) \<and>
      ra_interrupt (attempts k) = None")
    case True
    then obtain e where e: "ra_outcome (attempts k) = Budget_elapsed e" "\<not> ra_aborted (attempts k)"
      "\<not> deadline_elapsed d (ra_now (attempts k))" "ra_interrupt (attempts k) = None" by blast
    from Suc(2) obtain ws' where ws': "reissue_loop fuel w d attempts (Suc k) = Some (r, ws')" "length ws = Suc (length ws')"
      unfolding reissue_step [of attempts k e d, OF e] by auto
    note IH = Suc(1) [OF ws'(1)]
    have "?waits k ws" using IH e ws'(2) by (auto simp: less_Suc_eq_0_disj)
    moreover have "?paused k ws"
    proof (intro allI impI)
      fix j assume "Suc j < length ws"
      with IH e ws'(2) show "ra_interrupt (attempts (k + j)) = None" by (cases j) auto
    qed
    moreover have "?broken k ws" if "?broken (Suc k) ws'" using that ws'(2) by auto
    moreover have "?whole k ws \<and> ?ended k ws" if "?whole (Suc k) ws' \<and> ?ended (Suc k) ws'"
    proof
      show "?whole k ws"
      proof (intro allI impI)
        fix j assume "j < length ws"
        with that e ws'(2) show "ra_interrupt (attempts (k + j)) = None" by (cases j) auto
      qed
      show "?ended k ws" using that ws'(2) by (cases r) (simp_all add: Let_def)
    qed
    ultimately show ?thesis using IH by blast
  next
    case False
    with Suc(2) show ?thesis
      by (cases "ra_outcome (attempts k)"; cases "ra_interrupt (attempts k)") (auto simp: Let_def split: if_splits)
  qed
qed simp

section \<open>Properties\<close>

text \<open>
  The readiness curve: the backoff never reaches its apparent ceiling of two seconds but
  settles at 1600 ms, and the totals from which the phase deadlines are derived are the
  documented 139100 ms for 90 attempts and 91100 ms for 60; both lie within the deadlines.
\<close>

theorem readiness_backoff_curve:
  "(\<forall>k. readinessBackoffMs k \<le> 1600) \<and> readinessBackoffTotalMs 90 = 139100 \<and> readinessBackoffTotalMs 60 = 91100 \<and>
   readinessBackoffTotalMs 90 \<le> agent_session_ready_deadline_ms \<and> readinessBackoffTotalMs 60 \<le> machine_ready_deadline_ms"
proof -
  have four: "readinessBackoffTotalMs (4 + n) = 1500 + 1600 * int n" for n
    by (simp add: readinessBackoffTotalMs_def add.commute [of 4] eval_nat_numeral readinessBackoff_values backoff_loop_settled)
  have "(2::int) ^ nat (min k 4) \<le> 2 ^ 4" for k by (rule power_increasing) auto
  then have "readinessBackoffMs k \<le> 1600" for k by (simp add: readinessBackoffMs_def min.coboundedI2)
  moreover have "readinessBackoffTotalMs 90 = 139100" "readinessBackoffTotalMs 60 = 91100"
    using four [of 86] four [of 56] by simp_all
  ultimately show ?thesis by (simp add: agent_session_ready_deadline_ms_def machine_ready_deadline_ms_def)
qed

text \<open>
  C26. An idempotent read is re-issued within bounds: when the pause between attempts makes the
  clock advance, the loop ends after at most one attempt per 250 ms of the deadline plus
  two. It waits only after response-budget refusals that came before the deadline and
  without an abort, and re-issues only when the pause was not broken off. It ends by
  rejecting with what broke off the pause after its last attempt, returns the value of the last attempt, rethrows
  the refusal of the remote or the abort of the person as it is, or reports that the
  deadline has elapsed, with the number of re-issues.
\<close>

theorem reissue_bounded:
  assumes "startJourneyDeadline deadline start = Some d" and "clock_advances attempts" and "start \<le> ra_now (attempts 0)"
  shows "\<exists>r ws. reissueIdempotentRead w d attempts = Some (r, ws) \<and> int (length ws) \<le> deadline div 250 + 1 \<and>
     (\<forall>j < length ws. (\<exists>e. ra_outcome (attempts j) = Budget_elapsed e) \<and> \<not> ra_aborted (attempts j) \<and>
       \<not> deadline_elapsed d (ra_now (attempts j))) \<and>
     (\<forall>j. Suc j < length ws \<longrightarrow> ra_interrupt (attempts j) = None) \<and>
     ((\<exists>n reason. length ws = Suc n \<and> ra_interrupt (attempts n) = Some reason \<and> r = Threw reason) \<or>
      ((\<forall>j < length ws. ra_interrupt (attempts j) = None) \<and> (let a = attempts (length ws) in case r of
        Returned v \<Rightarrow> ra_outcome a = Read_value v
      | Threw e \<Rightarrow> ra_outcome a = Read_failed e \<or> (ra_outcome a = Budget_elapsed e \<and> ra_aborted a)
      | Deadline_failed f \<Rightarrow> ra_outcome a = Budget_elapsed (df_cause f) \<and> \<not> ra_aborted a \<and> deadline_elapsed d (ra_now a) \<and>
          df_readReissues f = int (length ws))))"
proof -
  have d: "d = \<lparr>jdl_deadlineMs = deadline, jdl_startedAt = start\<rparr>" "0 \<le> deadline"
    using assms(1) by (auto simp: startJourneyDeadline_def split: if_splits)
  let ?n = "nat deadline div 250 + 1"
  have n: "int ?n = deadline div 250 + 1" using d(2) by (simp add: zdiv_int)
  have "deadline \<le> 250 * (deadline div 250 + 1)" using d(2) by presburger
  then have "jdl_deadlineMs d - elapsedMs d (ra_now (attempts 0)) \<le> 250 * int ?n"
    unfolding n using d by (simp add: elapsedMs_def)
  with reissue_loop_ends [OF assms(2), of d 0 ?n w] assms(3) d obtain r ws where
    r: "reissue_loop (Suc ?n) w d attempts 0 = Some (r, ws)" "length ws \<le> ?n" by auto
  moreover have "reissue_fuel d = Suc ?n" using d by (simp add: reissue_fuel_def)
  moreover have "int (length ws) \<le> deadline div 250 + 1" using r(2) n by linarith
  moreover note reissue_loop_result [OF r(1), unfolded add_0]
  ultimately show ?thesis unfolding reissueIdempotentRead_def by (intro exI [of _ r] exI [of _ ws]) (elim conjE, intro conjI, simp_all only:)
qed

text \<open>Two slow answers, and then a person who aborts the pause.\<close>

definition ex_attempts :: "nat \<Rightarrow> (nat, string) read_attempt" where
  "ex_attempts k = \<lparr>ra_outcome = (if k < 2 then Budget_elapsed ''slow'' else Read_value 7), ra_aborted = False,
     ra_now = 1000 * int k, ra_report = 1000 * int k, ra_interrupt = (if k = 1 then Some ''abort'' else None)\<rparr>"

theorem reissue_bounded_witness:
  "\<exists>r ws. reissueIdempotentRead ''x'' \<lparr>jdl_deadlineMs = 45000, jdl_startedAt = 0\<rparr> ex_attempts = Some (r, ws) \<and>
     int (length ws) \<le> 45000 div 250 + 1 \<and>
     (\<forall>j < length ws. (\<exists>e. ra_outcome (ex_attempts j) = Budget_elapsed e) \<and> \<not> ra_aborted (ex_attempts j) \<and>
       \<not> deadline_elapsed \<lparr>jdl_deadlineMs = 45000, jdl_startedAt = 0\<rparr> (ra_now (ex_attempts j))) \<and>
     (\<forall>j. Suc j < length ws \<longrightarrow> ra_interrupt (ex_attempts j) = None) \<and>
     ((\<exists>n reason. length ws = Suc n \<and> ra_interrupt (ex_attempts n) = Some reason \<and> r = Threw reason) \<or>
      ((\<forall>j < length ws. ra_interrupt (ex_attempts j) = None) \<and> (let a = ex_attempts (length ws) in case r of
        Returned v \<Rightarrow> ra_outcome a = Read_value v
      | Threw e \<Rightarrow> ra_outcome a = Read_failed e \<or> (ra_outcome a = Budget_elapsed e \<and> ra_aborted a)
      | Deadline_failed f \<Rightarrow> ra_outcome a = Budget_elapsed (df_cause f) \<and> \<not> ra_aborted a \<and>
          deadline_elapsed \<lparr>jdl_deadlineMs = 45000, jdl_startedAt = 0\<rparr> (ra_now a) \<and>
          df_readReissues f = int (length ws))))"
  by (rule reissue_bounded [of 45000 0])
    (simp_all add: startJourneyDeadline_def clock_advances_def ex_attempts_def reissue_pause_ms_def)

text \<open>
  Reconnecting is bounded: a delay is granted only for one of the at most five attempts of a
  valid policy, lies between half and one and a half of the capped exponential base (up to
  the rounding to whole milliseconds), and never takes the wait past the policy's window
  of at most 120 s. The rounding to doubles may be any monotone one that is exact on halves
  of integers up to \<^verbatim>\<open>2^53\<close>.
\<close>

theorem reconnect_bounded:
  assumes "waitForReconnectDelay rnd attempt elapsed p sample aborted = Inr delay"
    and "\<forall>x y. x \<le> y \<longrightarrow> rnd x \<le> rnd y" and "\<forall>n. \<bar>n\<bar> \<le> 2 ^ 53 \<longrightarrow> rnd (of_int n / 2) = of_int n / 2"
  shows "1 \<le> attempt \<and> attempt \<le> rp_maximumAttempts p \<and> rp_maximumAttempts p \<le> 5 \<and>
     elapsed + delay \<le> rp_maximumElapsedMs p \<and> rp_maximumElapsedMs p \<le> 120000 \<and>
     reconnect_base p attempt \<le> 2 * delay \<and> 2 * delay \<le> 3 * reconnect_base p attempt + 1"
proof -
  let ?b = "reconnect_base p attempt"
  let ?j = "rnd (rnd (rnd (sample * 2) - 1) * rp_jitterRatio p)"
  have v: "validatePolicy p" "1 \<le> attempt" "attempt \<le> rp_maximumAttempts p" "0 \<le> sample" "sample < 1"
    "delay = max 0 (math_round (rnd (of_int ?b * rnd (1 + ?j))))" "elapsed + delay \<le> rp_maximumElapsedMs p"
    using assms(1) by (auto simp: waitForReconnectDelay_def reconnectDelay_def Let_def not_less split: if_splits sum.splits)
  have b: "1 \<le> ?b" "?b \<le> 120000"
    using v(1) one_le_power [of "2::int" "nat (attempt - 1)"] mult_mono [of 1 "rp_initialDelayMs p" 1 "2 ^ nat (attempt - 1)"]
    by (auto simp: validatePolicy_def reconnect_base_def)
  have half: "of_int m / 2 \<le> rnd x \<and> rnd x \<le> of_int n / 2"
    if "of_int m / 2 \<le> x" "x \<le> of_int n / 2" "\<bar>m\<bar> \<le> 2 ^ 53" "\<bar>n\<bar> \<le> 2 ^ 53" for m n x
    using assms(2,3) that by metis
  have "0 \<le> rnd (sample * 2) \<and> rnd (sample * 2) \<le> 2" using half [of 0 "sample * 2" 4] v(4,5) by simp
  then have "-1 \<le> rnd (rnd (sample * 2) - 1) \<and> rnd (rnd (sample * 2) - 1) \<le> 1"
    using half [of "-2" "rnd (sample * 2) - 1" 2] by simp
  then have "\<bar>rnd (rnd (sample * 2) - 1) * rp_jitterRatio p\<bar> \<le> 1 * (1 / 2)"
    unfolding abs_mult using v(1) by (intro mult_mono) (auto simp: validatePolicy_def)
  then have "-1 / 2 \<le> ?j \<and> ?j \<le> 1 / 2"
    using half [of "-1" "rnd (rnd (sample * 2) - 1) * rp_jitterRatio p" 1] by (auto simp: abs_le_iff)
  then have f: "1 / 2 \<le> rnd (1 + ?j)" "rnd (1 + ?j) \<le> 3 / 2" using half [of 1 "1 + ?j" 3] by auto
  have "of_int ?b * (1 / 2) \<le> of_int ?b * rnd (1 + ?j)" "of_int ?b * rnd (1 + ?j) \<le> of_int ?b * (3 / 2)"
    using f b(1) by (auto intro!: mult_left_mono)
  then have x: "of_int ?b / 2 \<le> rnd (of_int ?b * rnd (1 + ?j)) \<and> rnd (of_int ?b * rnd (1 + ?j)) \<le> of_int (3 * ?b) / 2"
    using b by (intro half) auto
  let ?d = "math_round (rnd (of_int ?b * rnd (1 + ?j)))"
  have "of_int ?d \<le> rnd (of_int ?b * rnd (1 + ?j)) + 1 / 2" "rnd (of_int ?b * rnd (1 + ?j)) + 1 / 2 < of_int ?d + 1"
    unfolding math_round_def by linarith+
  then have "of_int (2 * ?d) \<le> (of_int (3 * ?b + 1) :: rat)" "(of_int ?b :: rat) < of_int (2 * ?d + 1)" using x by auto
  then have "2 * ?d \<le> 3 * ?b + 1" "?b < 2 * ?d + 1" unfolding of_int_le_iff of_int_less_iff by simp_all
  with v b show ?thesis by (auto simp: validatePolicy_def)
qed

lemma ex_reconnect: "waitForReconnectDelay (\<lambda>x. x) 3 0 (default_reconnect_policy\<lparr>rp_jitterRatio := 1 / 5\<rparr>) (1 / 2) False = Inr 1000"
  by (simp add: waitForReconnectDelay_def reconnectDelay_def default_reconnect_policy_def validatePolicy_def reconnect_base_def
      math_round_def floor_eq_iff js_defs)

theorem reconnect_bounded_witness:
  "1 \<le> (3::int) \<and> 3 \<le> rp_maximumAttempts (default_reconnect_policy\<lparr>rp_jitterRatio := 1 / 5\<rparr>) \<and>
     rp_maximumAttempts (default_reconnect_policy\<lparr>rp_jitterRatio := 1 / 5\<rparr>) \<le> 5 \<and>
     0 + 1000 \<le> rp_maximumElapsedMs (default_reconnect_policy\<lparr>rp_jitterRatio := 1 / 5\<rparr>) \<and>
     rp_maximumElapsedMs (default_reconnect_policy\<lparr>rp_jitterRatio := 1 / 5\<rparr>) \<le> 120000 \<and>
     reconnect_base (default_reconnect_policy\<lparr>rp_jitterRatio := 1 / 5\<rparr>) 3 \<le> 2 * 1000 \<and>
     2 * 1000 \<le> 3 * reconnect_base (default_reconnect_policy\<lparr>rp_jitterRatio := 1 / 5\<rparr>) 3 + 1"
  by (rule reconnect_bounded [OF ex_reconnect]) simp_all

end
