(* ===== verification/Sync_Journal.thy ===== *)
theory Sync_Journal
  imports Json
begin

text \<open>
  The durable journal of synchronization operations, \<^verbatim>\<open>src/sync/journal.ts\<close>, and the schema
  envelope it checks, \<^verbatim>\<open>src/workspace/schema.ts\<close>. The journal directory is the metadata
  file, the writer lease file and the file of records, one JSON line each; a write of a
  record can fail before, within or after its line. A line that holds a record reads back
  as that record (\<^verbatim>\<open>JSON.parse\<close> after \<^verbatim>\<open>JSON.stringify\<close>); any other line is garbage. The
  kernel lock that gives a process the authority to write, the check of the directory and
  the readings of the clock are arguments of the operations (\<open>journal_env\<close>). \<open>sha\<close> is
  SHA-256 in hexadecimal. The queue that serializes the operations of a writer is the
  order in which they are applied.
\<close>

section \<open>Schema envelopes\<close>

record schema_envelope =
  se_schemaVersion :: int
  se_minimumReaderVersion :: int
  se_minimumWriterVersion :: int

record schema_support =
  ss_readerVersion :: int
  ss_writerVersion :: int
  ss_readableSchemaVersions :: "int list"
  ss_writableSchemaVersions :: "int list"

definition local_schema_support :: schema_support where
  "local_schema_support = \<lparr>ss_readerVersion = 2, ss_writerVersion = 2, ss_readableSchemaVersions = [1, 2],
     ss_writableSchemaVersions = [2]\<rparr>"

definition assertSchemaNumbers :: "'a schema_envelope_scheme \<Rightarrow> cuna_error + unit" where
  "assertSchemaNumbers e =
     (if list_ex (\<lambda>v. \<not> is_safe_integer v \<or> v < 1) [se_schemaVersion e, se_minimumReaderVersion e, se_minimumWriterVersion e]
      then Inl (workspaceError ''schema_malformed'' Integrity ''invalid_schema_version'') else Inr ())"

definition assertReadableSchema :: "'a schema_envelope_scheme \<Rightarrow> schema_support \<Rightarrow> cuna_error + unit" where
  "assertReadableSchema e s =
     (case assertSchemaNumbers e of
        Inl err \<Rightarrow> Inl err
      | Inr _ \<Rightarrow>
          if se_schemaVersion e \<notin> set (ss_readableSchemaVersions s) \<or> se_minimumReaderVersion e > ss_readerVersion s
          then Inl (workspaceError ''schema_incompatible'' Unsupported ''reader_version_incompatible'') else Inr ())"

definition assertWritableSchema :: "'a schema_envelope_scheme \<Rightarrow> schema_support \<Rightarrow> cuna_error + unit" where
  "assertWritableSchema e s =
     (case assertReadableSchema e s of
        Inl err \<Rightarrow> Inl err
      | Inr _ \<Rightarrow>
          if se_schemaVersion e \<notin> set (ss_writableSchemaVersions s) \<or> se_minimumWriterVersion e > ss_writerVersion s
          then Inl (workspaceError ''schema_incompatible'' Unsupported ''writer_version_incompatible'') else Inr ())"

section \<open>Data\<close>

datatype sync_state = Queued | Sending | Uncertain | Acknowledged | Applied | Conflicted

record sync_intent =
  si_operationId :: string
  si_baseGeneration :: int
  si_digest :: string
  si_byteLength :: int

record sync_record =
  sr_intent :: sync_intent
  sr_recordSequence :: int
  sr_fence :: int
  sr_state :: sync_state
  sr_intentHash :: string
  sr_previousChecksum :: string
  sr_checksum :: string

record journal_metadata = schema_envelope +
  jm_bindingId :: string
  jm_bindingGeneration :: int
  jm_lastFence :: int

record writer_lease =
  wl_ownerId :: string
  wl_fence :: int
  wl_expiresAt :: int

datatype journal_line = Line sync_record | Garbage

record journal_dir =
  jf_meta :: "journal_metadata option"
  jf_lease :: "writer_lease option"
  jf_lines :: "journal_line list"
  jf_unterminated :: "journal_line option"

datatype sync_error = Journal_refused cuna_error | Host_failure string

definition journalFailure :: "string \<Rightarrow> sync_error" where
  "journalFailure reason = Journal_refused (workspaceError ''journal_invalid'' Integrity reason)"

fun sync_state_text :: "sync_state \<Rightarrow> string" where
  "sync_state_text Queued = ''queued''"
| "sync_state_text Sending = ''sending''"
| "sync_state_text Uncertain = ''uncertain''"
| "sync_state_text Acknowledged = ''acknowledged''"
| "sync_state_text Applied = ''applied''"
| "sync_state_text Conflicted = ''conflicted''"

fun allowedTransition :: "sync_state \<Rightarrow> sync_state \<Rightarrow> bool" where
  "allowedTransition Queued t = (t \<in> {Sending, Conflicted})"
| "allowedTransition Sending t = (t \<in> {Uncertain, Acknowledged, Conflicted})"
| "allowedTransition Uncertain t = (t \<in> {Acknowledged, Conflicted})"
| "allowedTransition Acknowledged t = (t \<in> {Applied, Conflicted})"
| "allowedTransition Applied t = False"
| "allowedTransition Conflicted t = False"

datatype recovery_action = Act_send | Act_query_outcome | Act_apply_receipt | Act_none

fun recoveryAction :: "sync_state \<Rightarrow> recovery_action" where
  "recoveryAction Queued = Act_send"
| "recoveryAction Sending = Act_query_outcome"
| "recoveryAction Uncertain = Act_query_outcome"
| "recoveryAction Acknowledged = Act_apply_receipt"
| "recoveryAction _ = Act_none"

definition validateIntent :: "sync_intent \<Rightarrow> bool" where
  "validateIntent i \<longleftrightarrow> si_operationId i \<noteq> [] \<and> is_safe_integer (si_baseGeneration i) \<and> 0 \<le> si_baseGeneration i \<and>
     is_safe_integer (si_byteLength i) \<and> 0 \<le> si_byteLength i \<and> is_sha256_hex (si_digest i)"

definition hashIntent :: "(string \<Rightarrow> string) \<Rightarrow> sync_intent \<Rightarrow> string" where
  "hashIntent sha i = sha (''cuna-journal-intent-v2'' @ [CHR 0x00] @ json_stringify (JObj
     [(''baseGeneration'', JNum (JInt (si_baseGeneration i))), (''byteLength'', JNum (JInt (si_byteLength i))),
      (''digest'', JStr (si_digest i)), (''operationId'', JStr (si_operationId i))]))"

text \<open>The hash of a record without its checksum, in the order in which the record is written.\<close>

definition hashRecord :: "(string \<Rightarrow> string) \<Rightarrow> sync_record \<Rightarrow> string" where
  "hashRecord sha r = sha (''cuna-journal-record-v2'' @ [CHR 0x00] @ json_stringify (JObj
     [(''operationId'', JStr (si_operationId (sr_intent r))),
      (''baseGeneration'', JNum (JInt (si_baseGeneration (sr_intent r)))),
      (''digest'', JStr (si_digest (sr_intent r))), (''byteLength'', JNum (JInt (si_byteLength (sr_intent r)))),
      (''recordSequence'', JNum (JInt (sr_recordSequence r))), (''fence'', JNum (JInt (sr_fence r))),
      (''state'', JStr (sync_state_text (sr_state r))), (''intentHash'', JStr (sr_intentHash r)),
      (''previousChecksum'', JStr (sr_previousChecksum r))]))"

definition zero_checksum :: string where
  "zero_checksum = replicate 64 CHR ''0''"

definition validRecordShape :: "sync_record \<Rightarrow> bool" where
  "validRecordShape r \<longleftrightarrow> is_safe_integer (sr_recordSequence r) \<and> 1 \<le> sr_recordSequence r \<and> is_safe_integer (sr_fence r) \<and>
     1 \<le> sr_fence r \<and> is_sha256_hex (sr_intentHash r) \<and> is_sha256_hex (sr_previousChecksum r) \<and> is_sha256_hex (sr_checksum r)"

definition validLeaseRecord :: "writer_lease \<Rightarrow> bool" where
  "validLeaseRecord l \<longleftrightarrow> wl_ownerId l \<noteq> [] \<and> length (wl_ownerId l) \<le> 256 \<and> is_safe_integer (wl_fence l) \<and> 1 \<le> wl_fence l \<and>
     is_safe_integer (wl_expiresAt l) \<and> 0 \<le> wl_expiresAt l"

definition safeAdd :: "int \<Rightarrow> int \<Rightarrow> string \<Rightarrow> sync_error + int" where
  "safeAdd l r reason =
     (if \<not> is_safe_integer l \<or> \<not> is_safe_integer r \<or> l < 0 \<or> r < 0 \<or> l > max_safe_integer - r
      then Inl (journalFailure reason) else Inr (l + r))"

definition trustedNow :: "int \<Rightarrow> sync_error + int" where
  "trustedNow now = (if \<not> is_safe_integer now \<or> now < 0 then Inl (journalFailure ''clock_untrusted'') else Inr now)"

section \<open>Inspection\<close>

record journal_inspection =
  in_records :: "sync_record list"
  in_requiresReconciliation :: bool
  in_reason :: "string option"
  in_recoveryActions :: "(string \<times> recovery_action) list"

definition chain_record_ok ::
  "(string \<Rightarrow> string) \<Rightarrow> int \<Rightarrow> nat \<Rightarrow> (string, sync_record) js_map \<Rightarrow> string \<Rightarrow> int \<Rightarrow> sync_record \<Rightarrow> bool" where
  "chain_record_ok sha lastFence index latest previousChecksum previousFence r \<longleftrightarrow>
     validRecordShape r \<and> sr_recordSequence r = int index + 1 \<and> sr_previousChecksum r = previousChecksum \<and>
     hashRecord sha r = sr_checksum r \<and> sr_intentHash r = hashIntent sha (sr_intent r) \<and>
     previousFence \<le> sr_fence r \<and> sr_fence r \<le> lastFence \<and>
     (case map_get latest (si_operationId (sr_intent r)) of
        None \<Rightarrow> sr_state r = Queued
      | Some p \<Rightarrow> sr_intentHash p = sr_intentHash r \<and> allowedTransition (sr_state p) (sr_state r)) \<and>
     validateIntent (sr_intent r)"

text \<open>The loop over the lines: the records read so far and whether every line was accepted.\<close>

fun inspect_loop ::
  "(string \<Rightarrow> string) \<Rightarrow> int \<Rightarrow> journal_line list \<Rightarrow> sync_record list \<Rightarrow> (string, sync_record) js_map \<Rightarrow> string \<Rightarrow> int
   \<Rightarrow> sync_record list \<times> bool" where
  "inspect_loop sha lastFence [] records latest previousChecksum previousFence = (records, True)"
| "inspect_loop sha lastFence (Garbage # ls) records latest previousChecksum previousFence = (records, False)"
| "inspect_loop sha lastFence (Line r # ls) records latest previousChecksum previousFence =
     (if chain_record_ok sha lastFence (length records) latest previousChecksum previousFence r
      then inspect_loop sha lastFence ls (records @ [r]) (map_set (si_operationId (sr_intent r)) r latest)
             (sr_checksum r) (sr_fence r)
      else (records, False))"

definition journal_text :: "journal_dir \<Rightarrow> journal_line list" where
  "journal_text d = jf_lines d @ (case jf_unterminated d of None \<Rightarrow> [] | Some l \<Rightarrow> [l])"

definition latest_by_operation :: "sync_record list \<Rightarrow> (string, sync_record) js_map" where
  "latest_by_operation records = foldl (\<lambda>m r. map_set (si_operationId (sr_intent r)) r m) [] records"

definition recovery_actions :: "sync_record list \<Rightarrow> (string \<times> recovery_action) list" where
  "recovery_actions records = map (\<lambda>r. (si_operationId (sr_intent r), recoveryAction (sr_state r)))
     (sort_key sr_recordSequence (map_values (latest_by_operation records)))"

definition inspectSyncJournal :: "(string \<Rightarrow> string) \<Rightarrow> journal_dir \<Rightarrow> sync_error + journal_inspection" where
  "inspectSyncJournal sha d =
     (case jf_meta d of
        None \<Rightarrow> Inl (Host_failure ''ENOENT'')
      | Some meta \<Rightarrow>
          if isl (assertReadableSchema meta local_schema_support)
          then Inr \<lparr>in_records = [], in_requiresReconciliation = True, in_reason = Some ''schema_incompatible'',
                    in_recoveryActions = []\<rparr>
          else case inspect_loop sha (jm_lastFence meta) (journal_text d) [] [] zero_checksum 0 of
            (records, False) \<Rightarrow> Inr \<lparr>in_records = records, in_requiresReconciliation = True,
                in_reason = Some ''checksum_or_sequence_gap'', in_recoveryActions = []\<rparr>
          | (records, True) \<Rightarrow> Inr \<lparr>in_records = records, in_requiresReconciliation = False, in_reason = None,
                in_recoveryActions = recovery_actions records\<rparr>)"

section \<open>The writer\<close>

record sync_writer =
  sw_ownerId :: string
  sw_fence :: int
  sw_leaseMs :: int
  sw_records :: "sync_record list"
  sw_closed :: bool
  sw_lastObservedNow :: int

datatype append_fault =
  Append_ok | Append_refused sync_error | Append_torn string | Append_unterminated string | Append_unsynced string

record journal_env =
  je_authorityHeld :: bool
  je_authorityAfterLease :: bool
  je_authorityAtReady :: bool
  je_directoryTrusted :: bool
  je_now :: int
  je_later :: int
  je_append :: append_fault

record open_request =
  or_bindingId :: string
  or_bindingGeneration :: int
  or_ownerId :: string
  or_leaseMs :: int

definition authority_ok :: "journal_env \<Rightarrow> sync_error + unit" where
  "authority_ok env =
     (if \<not> je_authorityHeld env then Inl (journalFailure ''writer_lock_lost'')
      else if \<not> je_directoryTrusted env then Inl (journalFailure ''directory_untrusted'')
      else Inr ())"

definition readMetadata :: "journal_dir \<Rightarrow> string \<Rightarrow> int \<Rightarrow> sync_error + journal_metadata \<times> journal_dir" where
  "readMetadata d bindingId bindingGeneration =
     (case jf_meta d of
        Some m \<Rightarrow>
          if jm_bindingId m \<noteq> bindingId \<or> jm_bindingGeneration m \<noteq> bindingGeneration
          then Inl (Journal_refused (workspaceError ''journal_identity'' Policy ''identity_mismatch''))
          else Inr (m, d)
      | None \<Rightarrow>
          let m = \<lparr>se_schemaVersion = 2, se_minimumReaderVersion = 1, se_minimumWriterVersion = 2, jm_bindingId = bindingId,
                   jm_bindingGeneration = bindingGeneration, jm_lastFence = 0\<rparr>
          in Inr (m, d\<lparr>jf_meta := Some m\<rparr>))"

definition releaseLeaseFile :: "journal_dir \<Rightarrow> string \<Rightarrow> int \<Rightarrow> sync_error option \<times> journal_dir" where
  "releaseLeaseFile d ownerId fence =
     (case jf_lease d of
        None \<Rightarrow> (None, d)
      | Some l \<Rightarrow>
          if \<not> validLeaseRecord l then (Some (journalFailure ''file_shape_untrusted''), d)
          else if wl_ownerId l \<noteq> ownerId \<or> wl_fence l \<noteq> fence then (None, d)
          else (None, d\<lparr>jf_lease := None\<rparr>))"

text \<open>The fence the next writer gets, from the metadata and the lease an earlier writer left.\<close>

definition next_fence :: "journal_metadata \<Rightarrow> writer_lease option \<Rightarrow> sync_error + int" where
  "next_fence m lease =
     (case lease of
        None \<Rightarrow> safeAdd (max (jm_lastFence m) 0) 1 ''fence_overflow''
      | Some l \<Rightarrow>
          if \<not> validLeaseRecord l then Inl (journalFailure ''file_shape_untrusted'')
          else safeAdd (max (jm_lastFence m) (wl_fence l)) 1 ''fence_overflow'')"

text \<open>
  The first part of \<^verbatim>\<open>open\<close>, up to the lease of the new writer: the metadata, the fence and
  the two times it has computed by then.
\<close>

definition open_lease ::
  "journal_env \<Rightarrow> open_request \<Rightarrow> journal_dir \<Rightarrow> (sync_error + journal_metadata \<times> int \<times> int \<times> int) \<times> journal_dir" where
  "open_lease env i d =
     (if \<not> is_safe_integer (or_leaseMs i) \<or> or_leaseMs i < 1 then (Inl (journalFailure ''invalid_lease''), d)
      else case authority_ok env of
        Inl e \<Rightarrow> (Inl e, d)
      | Inr _ \<Rightarrow>
          (case readMetadata d (or_bindingId i) (or_bindingGeneration i) of
             Inl e \<Rightarrow> (Inl e, d)
           | Inr (m, d0) \<Rightarrow>
               (case assertWritableSchema m local_schema_support of
                  Inl e \<Rightarrow> (Inl (Journal_refused e), d0)
                | Inr _ \<Rightarrow>
                    (case next_fence m (jf_lease d0) of
                       Inl e \<Rightarrow> (Inl e, d0)
                     | Inr fence \<Rightarrow>
                         (case trustedNow (je_now env) of
                            Inl e \<Rightarrow> (Inl e, d0)
                          | Inr observedAt \<Rightarrow>
                              (case safeAdd observedAt (or_leaseMs i) ''lease_overflow'' of
                                 Inl e \<Rightarrow> (Inl e, d0)
                               | Inr expiresAt \<Rightarrow>
                                   (Inr (m, fence, observedAt, expiresAt),
                                    d0\<lparr>jf_lease := Some \<lparr>wl_ownerId = or_ownerId i, wl_fence = fence,
                                                           wl_expiresAt = expiresAt\<rparr>\<rparr>)))))))"

definition publish_fence :: "journal_metadata \<Rightarrow> int \<Rightarrow> journal_dir \<Rightarrow> journal_dir" where
  "publish_fence m fence d = d\<lparr>jf_meta := Some (m\<lparr>jm_lastFence := fence\<rparr>)\<rparr>"

text \<open>The last part of \<^verbatim>\<open>open\<close>, with the lease in place: any failure releases it again.\<close>

definition journal_start ::
  "(string \<Rightarrow> string) \<Rightarrow> journal_env \<Rightarrow> open_request \<Rightarrow> journal_metadata \<Rightarrow> int \<Rightarrow> int \<Rightarrow> int \<Rightarrow> journal_dir
   \<Rightarrow> (sync_error + sync_writer) \<times> journal_dir" where
  "journal_start sha env i m fence observedAt expiresAt d =
     (let failed = (\<lambda>e d'. (Inl e, snd (releaseLeaseFile d' (or_ownerId i) fence)));
          d1 = publish_fence m fence d
      in if \<not> je_authorityAfterLease env then failed (journalFailure ''writer_lock_lost'') d
         else case inspectSyncJournal sha d1 of
           Inl e \<Rightarrow> failed e d1
         | Inr ins \<Rightarrow>
             if in_requiresReconciliation ins
             then failed (journalFailure (case in_reason ins of None \<Rightarrow> ''journal_untrusted'' | Some r \<Rightarrow> r)) d1
             else case trustedNow (je_later env) of
               Inl e \<Rightarrow> failed e d1
             | Inr readyAt \<Rightarrow>
                 if \<not> je_authorityAtReady env then failed (journalFailure ''writer_lock_lost'') d1
                 else if readyAt < observedAt then failed (journalFailure ''clock_rollback'') d1
                 else if readyAt \<ge> expiresAt then failed (journalFailure ''lease_expired_during_open'') d1
                 else (Inr \<lparr>sw_ownerId = or_ownerId i, sw_fence = fence, sw_leaseMs = or_leaseMs i,
                            sw_records = in_records ins, sw_closed = False, sw_lastObservedNow = readyAt\<rparr>, d1))"

definition sync_journal_open ::
  "(string \<Rightarrow> string) \<Rightarrow> journal_env \<Rightarrow> open_request \<Rightarrow> journal_dir \<Rightarrow> (sync_error + sync_writer) \<times> journal_dir" where
  "sync_journal_open sha env i d =
     (case open_lease env i d of
        (Inl e, d') \<Rightarrow> (Inl e, d')
      | (Inr (m, fence, observedAt, expiresAt), d') \<Rightarrow> journal_start sha env i m fence observedAt expiresAt d')"

definition writer_now :: "sync_writer \<Rightarrow> int \<Rightarrow> (sync_error + int) \<times> sync_writer" where
  "writer_now w now =
     (case trustedNow now of
        Inl e \<Rightarrow> (Inl e, w)
      | Inr n \<Rightarrow> if n < sw_lastObservedNow w then (Inl (journalFailure ''clock_rollback''), w)
                 else (Inr n, w\<lparr>sw_lastObservedNow := n\<rparr>))"

definition writer_fenced :: sync_error where
  "writer_fenced = Journal_refused (workspaceError ''writer_fenced'' Conflict ''stale_fence'')"

definition assertLease :: "journal_env \<Rightarrow> journal_dir \<Rightarrow> sync_writer \<Rightarrow> sync_error option \<times> sync_writer" where
  "assertLease env d w =
     (if sw_closed w then (Some (journalFailure ''writer_closed''), w)
      else case authority_ok env of
        Inl e \<Rightarrow> (Some e, w)
      | Inr _ \<Rightarrow>
          (case jf_lease d of
             None \<Rightarrow> (Some (Host_failure ''ENOENT''), w)
           | Some l \<Rightarrow>
               if \<not> validLeaseRecord l then (Some (journalFailure ''file_shape_untrusted''), w)
               else if wl_ownerId l \<noteq> sw_ownerId w \<or> wl_fence l \<noteq> sw_fence w then (Some writer_fenced, w)
               else case writer_now w (je_now env) of
                 (Inl e, w') \<Rightarrow> (Some e, w')
               | (Inr now, w') \<Rightarrow> (if wl_expiresAt l \<le> now then Some writer_fenced else None, w')))"

definition journal_renew :: "journal_env \<Rightarrow> journal_dir \<Rightarrow> sync_writer \<Rightarrow> sync_error option \<times> journal_dir \<times> sync_writer" where
  "journal_renew env d w =
     (if sw_closed w then (Some (journalFailure ''writer_closed''), d, w)
      else case assertLease env d w of
        (Some e, w1) \<Rightarrow> (Some e, d, w1)
      | (None, w1) \<Rightarrow>
          (case writer_now w1 (je_later env) of
             (Inl e, w2) \<Rightarrow> (Some e, d, w2)
           | (Inr now, w2) \<Rightarrow>
               (case safeAdd now (sw_leaseMs w2) ''lease_overflow'' of
                  Inl e \<Rightarrow> (Some e, d, w2)
                | Inr expiresAt \<Rightarrow>
                    (None, d\<lparr>jf_lease := Some \<lparr>wl_ownerId = sw_ownerId w2, wl_fence = sw_fence w2, wl_expiresAt = expiresAt\<rparr>\<rparr>, w2))))"

definition next_record :: "(string \<Rightarrow> string) \<Rightarrow> sync_writer \<Rightarrow> sync_intent \<Rightarrow> sync_state \<Rightarrow> string \<Rightarrow> sync_record" where
  "next_record sha w intent state intentHash =
     (let body = \<lparr>sr_intent = intent, sr_recordSequence = int (length (sw_records w)) + 1, sr_fence = sw_fence w,
                  sr_state = state, sr_intentHash = intentHash,
                  sr_previousChecksum = (if sw_records w = [] then zero_checksum else sr_checksum (last (sw_records w))),
                  sr_checksum = []\<rparr>
      in body\<lparr>sr_checksum := hashRecord sha body\<rparr>)"

text \<open>A line goes onto the end of the file: after an unterminated line it completes a garbage one.\<close>

definition write_line :: "journal_line \<Rightarrow> journal_dir \<Rightarrow> journal_dir" where
  "write_line l d = (case jf_unterminated d of
     None \<Rightarrow> d\<lparr>jf_lines := jf_lines d @ [l]\<rparr>
   | Some _ \<Rightarrow> d\<lparr>jf_lines := jf_lines d @ [Garbage], jf_unterminated := None\<rparr>)"

definition write_unterminated :: "journal_line \<Rightarrow> journal_dir \<Rightarrow> journal_dir" where
  "write_unterminated l d = d\<lparr>jf_unterminated := Some (case jf_unterminated d of None \<Rightarrow> l | Some _ \<Rightarrow> Garbage)\<rparr>"

definition appendRecord ::
  "(string \<Rightarrow> string) \<Rightarrow> journal_env \<Rightarrow> journal_dir \<Rightarrow> sync_writer \<Rightarrow> sync_intent \<Rightarrow> sync_state \<Rightarrow> string
   \<Rightarrow> (sync_error + sync_record) \<times> journal_dir \<times> sync_writer" where
  "appendRecord sha env d w intent state intentHash =
     (case assertLease env d w of
        (Some e, w1) \<Rightarrow> (Inl e, d, w1)
      | (None, w1) \<Rightarrow>
          let r = next_record sha w1 intent state intentHash in
          case je_append env of
            Append_ok \<Rightarrow> (Inr r, write_line (Line r) d, w1\<lparr>sw_records := sw_records w1 @ [r]\<rparr>)
          | Append_refused e \<Rightarrow> (Inl e, d, w1)
          | Append_torn e \<Rightarrow> (Inl (Host_failure e), write_unterminated Garbage d, w1)
          | Append_unterminated e \<Rightarrow> (Inl (Host_failure e), write_unterminated (Line r) d, w1)
          | Append_unsynced e \<Rightarrow> (Inl (Host_failure e), write_line (Line r) d, w1))"

definition operation_records :: "sync_writer \<Rightarrow> string \<Rightarrow> sync_record list" where
  "operation_records w operationId = filter (\<lambda>r. si_operationId (sr_intent r) = operationId) (sw_records w)"

definition journal_append ::
  "(string \<Rightarrow> string) \<Rightarrow> journal_env \<Rightarrow> journal_dir \<Rightarrow> sync_writer \<Rightarrow> sync_intent
   \<Rightarrow> (sync_error + sync_record) \<times> journal_dir \<times> sync_writer" where
  "journal_append sha env d w intent =
     (if sw_closed w then (Inl (journalFailure ''writer_closed''), d, w)
      else if \<not> validateIntent intent then (Inl (journalFailure ''invalid_intent''), d, w)
      else let same = operation_records w (si_operationId intent);
               intentHash = hashIntent sha intent
           in if list_ex (\<lambda>r. sr_intentHash r \<noteq> intentHash) same
              then (Inl (Journal_refused (workspaceError ''idempotency_conflict'' Conflict ''operation_id_reuse'')), d, w)
              else if same \<noteq> [] then (Inr (last same), d, w)
              else appendRecord sha env d w intent Queued intentHash)"

definition journal_transition ::
  "(string \<Rightarrow> string) \<Rightarrow> journal_env \<Rightarrow> journal_dir \<Rightarrow> sync_writer \<Rightarrow> string \<Rightarrow> sync_state
   \<Rightarrow> (sync_error + sync_record) \<times> journal_dir \<times> sync_writer" where
  "journal_transition sha env d w operationId state =
     (if sw_closed w then (Inl (journalFailure ''writer_closed''), d, w)
      else case operation_records w operationId of
        [] \<Rightarrow> (Inl (journalFailure ''operation_unknown''), d, w)
      | rs \<Rightarrow>
          let latest = last rs in
          if sr_state latest = state then (Inr latest, d, w)
          else if \<not> allowedTransition (sr_state latest) state then (Inl (journalFailure ''invalid_transition''), d, w)
          else appendRecord sha env d w (sr_intent latest) state (sr_intentHash latest))"

definition journal_close :: "journal_dir \<Rightarrow> sync_writer \<Rightarrow> sync_error option \<times> journal_dir \<times> sync_writer" where
  "journal_close d w =
     (let (e, d') = releaseLeaseFile d (sw_ownerId w) (sw_fence w) in (e, d', w\<lparr>sw_closed := True\<rparr>))"

section \<open>Chains\<close>

definition tail_checksum :: "sync_record list \<Rightarrow> string" where
  "tail_checksum rs = (if rs = [] then zero_checksum else sr_checksum (last rs))"

definition tail_fence :: "sync_record list \<Rightarrow> int" where
  "tail_fence rs = (if rs = [] then 0 else sr_fence (last rs))"

abbreviation inspect_from :: "(string \<Rightarrow> string) \<Rightarrow> int \<Rightarrow> journal_line list \<Rightarrow> sync_record list \<Rightarrow> sync_record list \<times> bool" where
  "inspect_from sha F ls rs \<equiv> inspect_loop sha F ls rs (latest_by_operation rs) (tail_checksum rs) (tail_fence rs)"

definition follows :: "(string \<Rightarrow> string) \<Rightarrow> int \<Rightarrow> sync_record list \<Rightarrow> sync_record \<Rightarrow> bool" where
  "follows sha F rs r \<longleftrightarrow> chain_record_ok sha F (length rs) (latest_by_operation rs) (tail_checksum rs) (tail_fence rs) r"

lemma inspect_from_Line:
  "inspect_from sha F (Line r # ls) rs = (if follows sha F rs r then inspect_from sha F ls (rs @ [r]) else (rs, False))"
  by (simp add: follows_def latest_by_operation_def tail_checksum_def tail_fence_def)

lemma inspect_from_append:
  assumes "inspect_from sha F (map Line xs) rs = (rs @ xs, True)"
  shows "inspect_from sha F (map Line xs @ ls) rs = inspect_from sha F ls (rs @ xs)"
  using assms
proof (induction xs arbitrary: rs)
  case (Cons x xs)
  from Cons(2) have "follows sha F rs x" "inspect_from sha F (map Line xs) (rs @ [x]) = ((rs @ [x]) @ xs, True)"
    unfolding list.map inspect_from_Line by (auto split: if_splits)
  with Cons(1) [of "rs @ [x]"] show ?case unfolding list.map append_Cons inspect_from_Line by simp
qed simp

lemma latest_get:
  "map_get (latest_by_operation rs) k = (case filter (\<lambda>r. si_operationId (sr_intent r) = k) rs of [] \<Rightarrow> None | ys \<Rightarrow> Some (last ys))"
proof (induction rs rule: rev_induct)
  case (snoc r rs)
  have "latest_by_operation (rs @ [r]) = map_set (si_operationId (sr_intent r)) r (latest_by_operation rs)"
    by (simp add: latest_by_operation_def)
  with snoc show ?case by (auto split: list.splits)
qed (simp add: latest_by_operation_def)

text \<open>A chain is a list of records that inspection accepts from the start.\<close>

definition chain :: "(string \<Rightarrow> string) \<Rightarrow> int \<Rightarrow> sync_record list \<Rightarrow> bool" where
  "chain sha F rs \<longleftrightarrow> inspect_from sha F (map Line rs) [] = (rs, True)"

lemma chain_Nil [simp]: "chain sha F []"
  by (simp add: chain_def)

lemma inspect_from_extends: "\<exists>ys b. inspect_from sha F ls ps = (ps @ ys, b)"
proof (induction ls arbitrary: ps)
  case (Cons l ls)
  show ?case
  proof (cases l)
    case (Line r)
    then show ?thesis using Cons [of "ps @ [r]"] unfolding Line inspect_from_Line by (cases "follows sha F ps r") auto
  qed auto
qed auto

lemma inspect_from_prefix:
  "\<exists>ys b. inspect_from sha F (map Line xs @ ls) ps = (ps @ ys, b) \<and>
     (inspect_from sha F (map Line xs) ps = (ps @ xs, True) \<or> (\<not> b \<and> length ys < length xs))"
proof (induction xs arbitrary: ps)
  case Nil
  then show ?case using inspect_from_extends by simp
next
  case (Cons x xs)
  show ?case
  proof (cases "follows sha F ps x")
    case True
    from Cons [of "ps @ [x]"] obtain ys b where "inspect_from sha F (map Line xs @ ls) (ps @ [x]) = ((ps @ [x]) @ ys, b)"
      "inspect_from sha F (map Line xs) (ps @ [x]) = ((ps @ [x]) @ xs, True) \<or> (\<not> b \<and> length ys < length xs)" by blast
    with True show ?thesis unfolding list.map append_Cons inspect_from_Line by (intro exI [of _ "x # ys"] exI [of _ b]) auto
  next
    case False
    then show ?thesis unfolding list.map append_Cons inspect_from_Line by auto
  qed
qed

lemma chain_snoc: "chain sha F (rs @ [r]) \<longleftrightarrow> chain sha F rs \<and> follows sha F rs r"
proof
  assume "chain sha F rs \<and> follows sha F rs r"
  then show "chain sha F (rs @ [r])"
    using inspect_from_append [of sha F rs "[]" "[Line r]"] inspect_from_Line [of sha F r "[]" rs] by (simp add: chain_def)
next
  assume c: "chain sha F (rs @ [r])"
  obtain ys b where p: "inspect_from sha F (map Line rs @ [Line r]) [] = (ys, b)"
    "inspect_from sha F (map Line rs) [] = (rs, True) \<or> (\<not> b \<and> length ys < length rs)"
    using inspect_from_prefix [of sha F rs "[Line r]" "[]"] unfolding append_Nil by blast
  have all: "inspect_from sha F (map Line rs @ [Line r]) [] = (rs @ [r], True)"
    using c by (simp only: chain_def map_append list.map)
  with p(1) have "b" by simp
  with p(2) have rs: "inspect_from sha F (map Line rs) [] = (rs, True)" by blast
  have "inspect_from sha F [Line r] rs = (rs @ [r], True)"
    using inspect_from_append [of sha F rs "[]" "[Line r]"] rs all by (simp only: append_Nil)
  then have "follows sha F rs r" unfolding inspect_from_Line by (simp split: if_splits)
  with rs show "chain sha F rs \<and> follows sha F rs r" by (simp only: chain_def)
qed

lemma follows_mono: "follows sha F rs r \<Longrightarrow> F \<le> F' \<Longrightarrow> follows sha F' rs r"
  by (auto simp: follows_def chain_record_ok_def)

lemma chain_mono: "chain sha F rs \<Longrightarrow> F \<le> F' \<Longrightarrow> chain sha F' rs"
  by (induction rs rule: rev_induct) (auto simp: chain_snoc follows_mono)

lemma chain_member:
  "chain sha F rs \<Longrightarrow> r \<in> set rs \<Longrightarrow> sr_intentHash r = hashIntent sha (sr_intent r) \<and> validateIntent (sr_intent r) \<and>
     1 \<le> sr_fence r \<and> sr_fence r \<le> F \<and> is_sha256_hex (sr_checksum r) \<and> is_sha256_hex (sr_intentHash r)"
  by (induction rs rule: rev_induct) (auto simp: chain_snoc follows_def chain_record_ok_def validRecordShape_def)

lemma zero_checksum_hex: "is_sha256_hex zero_checksum"
  by (simp add: zero_checksum_def is_sha256_hex_def list_all_iff is_lower_hex_def)

lemma next_record_follows:
  assumes sha: "\<forall>x. is_sha256_hex (sha x)" and c: "chain sha F (sw_records w)" and "sw_fence w = F" "1 \<le> F" "is_safe_integer F"
    and "int (length (sw_records w)) < max_safe_integer" and "validateIntent i" and h: "h = hashIntent sha i"
    and st: "case operation_records w (si_operationId i) of [] \<Rightarrow> st = Queued
       | rs \<Rightarrow> sr_intentHash (last rs) = h \<and> allowedTransition (sr_state (last rs)) st"
  shows "follows sha F (sw_records w) (next_record sha w i st h)"
proof -
  let ?r = "next_record sha w i st h"
  have fields: "sr_intent ?r = i" "sr_recordSequence ?r = int (length (sw_records w)) + 1" "sr_fence ?r = F" "sr_state ?r = st"
    "sr_intentHash ?r = h" "sr_previousChecksum ?r = tail_checksum (sw_records w)" "hashRecord sha ?r = sr_checksum ?r"
    using assms(3) by (simp_all add: next_record_def Let_def tail_checksum_def hashRecord_def)
  have "is_sha256_hex (sr_checksum ?r)" using sha fields(7) by (metis hashRecord_def)
  moreover have "is_sha256_hex (tail_checksum (sw_records w))"
    using chain_member [OF c last_in_set] zero_checksum_hex by (auto simp: tail_checksum_def)
  moreover have "tail_fence (sw_records w) \<le> F" using chain_member [OF c last_in_set] assms(4) by (auto simp: tail_fence_def)
  moreover have "is_sha256_hex h" using sha h by (simp add: hashIntent_def)
  ultimately show ?thesis
    unfolding follows_def chain_record_ok_def validRecordShape_def latest_get
    using fields assms(4-8) st by (auto simp: operation_records_def is_safe_integer_def split: list.splits)
qed

section \<open>The journal and its writers\<close>

record journal_world =
  wd_dir :: journal_dir
  wd_writer :: "sync_writer option"

definition empty_world :: journal_world where
  "empty_world = \<lparr>wd_dir = \<lparr>jf_meta = None, jf_lease = None, jf_lines = [], jf_unterminated = None\<rparr>, wd_writer = None\<rparr>"

text \<open>
  One process at a time holds the authority to write; it opens the journal, works on it and
  closes it, or crashes, also within \<^verbatim>\<open>open\<close>, between the lease and the metadata or after
  both. Fewer than \<^verbatim>\<open>2^53\<close> records are ever written.
\<close>

inductive world_step :: "(string \<Rightarrow> string) \<Rightarrow> journal_world \<Rightarrow> journal_env \<Rightarrow> journal_world \<Rightarrow> bool" for sha where
  opened: "wd_writer s = None \<Longrightarrow> sync_journal_open sha env i (wd_dir s) = (r, d) \<Longrightarrow>
     world_step sha s env \<lparr>wd_dir = d, wd_writer = (case r of Inr w \<Rightarrow> Some w | Inl _ \<Rightarrow> None)\<rparr>"
| crashed: "world_step sha s env (s\<lparr>wd_writer := None\<rparr>)"
| crashed_leased: "wd_writer s = None \<Longrightarrow> open_lease env i (wd_dir s) = (r, d) \<Longrightarrow> world_step sha s env \<lparr>wd_dir = d, wd_writer = None\<rparr>"
| crashed_published: "wd_writer s = None \<Longrightarrow> open_lease env i (wd_dir s) = (Inr (m, fence, observedAt, expiresAt), d) \<Longrightarrow>
     world_step sha s env \<lparr>wd_dir = publish_fence m fence d, wd_writer = None\<rparr>"
| renewed: "wd_writer s = Some w \<Longrightarrow> journal_renew env (wd_dir s) w = (e, d, w') \<Longrightarrow>
     world_step sha s env \<lparr>wd_dir = d, wd_writer = Some w'\<rparr>"
| appended: "wd_writer s = Some w \<Longrightarrow> int (length (sw_records w)) < max_safe_integer \<Longrightarrow>
     journal_append sha env (wd_dir s) w i = (r, d, w') \<Longrightarrow> world_step sha s env \<lparr>wd_dir = d, wd_writer = Some w'\<rparr>"
| transitioned: "wd_writer s = Some w \<Longrightarrow> int (length (sw_records w)) < max_safe_integer \<Longrightarrow>
     journal_transition sha env (wd_dir s) w k st = (r, d, w') \<Longrightarrow> world_step sha s env \<lparr>wd_dir = d, wd_writer = Some w'\<rparr>"
| closed: "wd_writer s = Some w \<Longrightarrow> journal_close (wd_dir s) w = (e, d, w') \<Longrightarrow>
     world_step sha s env \<lparr>wd_dir = d, wd_writer = None\<rparr>"

definition clean_step :: "(string \<Rightarrow> string) \<Rightarrow> journal_world \<Rightarrow> journal_world \<Rightarrow> bool" where
  "clean_step sha s t \<longleftrightarrow> (\<exists>env. (je_append env = Append_ok \<or> (\<exists>e. je_append env = Append_refused e)) \<and> world_step sha s env t)"

lemma clean_stepI: "world_step sha s env t \<Longrightarrow> je_append env = Append_ok \<Longrightarrow> clean_step sha s t"
  by (auto simp: clean_step_def)

definition any_step :: "(string \<Rightarrow> string) \<Rightarrow> journal_world \<Rightarrow> journal_world \<Rightarrow> bool" where
  "any_step sha s t \<longleftrightarrow> (\<exists>env. world_step sha s env t)"

definition meta_ok :: "journal_dir \<Rightarrow> bool" where
  "meta_ok d \<longleftrightarrow> (case jf_meta d of None \<Rightarrow> jf_lease d = None \<and> jf_lines d = [] \<and> jf_unterminated d = None
     | Some m \<Rightarrow> se_schemaVersion m = 2 \<and> se_minimumReaderVersion m = 1 \<and> se_minimumWriterVersion m = 2 \<and> 0 \<le> jm_lastFence m \<and>
         is_safe_integer (jm_lastFence m) \<and> (\<forall>l. jf_lease d = Some l \<longrightarrow> jm_lastFence m \<le> wl_fence l))"

text \<open>The fences: the writer carries the newest fence of the metadata, and the lease none that is older.\<close>

definition fences_ok :: "journal_world \<Rightarrow> bool" where
  "fences_ok s \<longleftrightarrow> meta_ok (wd_dir s) \<and>
     (\<forall>w. wd_writer s = Some w \<longrightarrow> (\<exists>m. jf_meta (wd_dir s) = Some m \<and> sw_fence w = jm_lastFence m \<and> 1 \<le> sw_fence w))"

definition last_fence :: "journal_world \<Rightarrow> int" where
  "last_fence s = (case jf_meta (wd_dir s) of None \<Rightarrow> 0 | Some m \<Rightarrow> jm_lastFence m)"

lemma meta_readable:
  "se_schemaVersion m = 2 \<Longrightarrow> se_minimumReaderVersion m = 1 \<Longrightarrow> se_minimumWriterVersion m = 2 \<Longrightarrow>
     assertReadableSchema m local_schema_support = Inr () \<and> assertWritableSchema m local_schema_support = Inr ()"
  by (simp add: assertWritableSchema_def assertReadableSchema_def assertSchemaNumbers_def local_schema_support_def js_defs)

lemma safeAdd_Inr: "safeAdd l r reason = Inr n \<Longrightarrow> n = l + r \<and> 0 \<le> l \<and> 0 \<le> r \<and> is_safe_integer n"
  by (auto simp: safeAdd_def is_safe_integer_def max_safe_integer_def split: if_splits)

lemma next_fence_Inr: "next_fence m l = Inr f \<Longrightarrow> jm_lastFence m < f \<and> 1 \<le> f \<and> is_safe_integer f"
  by (auto simp: next_fence_def split: option.splits if_splits dest!: safeAdd_Inr)

text \<open>What \<^verbatim>\<open>open\<close> does: nothing beyond creating the metadata, or a new fence and then success or failure.\<close>

lemma release_frame:
  "snd (releaseLeaseFile d owner fence) = d \<or> snd (releaseLeaseFile d owner fence) = d\<lparr>jf_lease := None\<rparr>"
  by (auto simp: releaseLeaseFile_def split: option.splits)

lemma release_keeps [simp]:
  "jf_meta (snd (releaseLeaseFile d owner fence)) = jf_meta d"
  using release_frame [of d owner fence] by auto

lemma journal_start_outcome:
  assumes "journal_start sha env i m fence observedAt expiresAt d = (r, t)"
  shows "(\<exists>e d'. r = Inl e \<and> t = snd (releaseLeaseFile d' (or_ownerId i) fence) \<and> d' \<in> {d, publish_fence m fence d}) \<or>
     (\<exists>w ins. r = Inr w \<and> t = publish_fence m fence d \<and> sw_fence w = fence \<and> \<not> sw_closed w \<and> inspectSyncJournal sha t = Inr ins \<and>
        \<not> in_requiresReconciliation ins \<and> sw_records w = in_records ins)"
proof (cases "\<not> je_authorityAfterLease env \<or> isl (inspectSyncJournal sha (publish_fence m fence d))")
  case True
  with assms show ?thesis by (auto simp: journal_start_def Let_def isl_def split: if_splits)
next
  case False
  then obtain ins where "inspectSyncJournal sha (publish_fence m fence d) = Inr ins" by (auto simp: isl_def split: sum.splits) (metis sum.exhaust)
  with False assms show ?thesis by (auto simp: journal_start_def Let_def split: if_splits sum.splits)
qed

lemma journal_start_cases:
  assumes "journal_start sha env i m fence observedAt expiresAt d = (r, t)"
    and "jf_meta d = Some m" and "jf_lease d = Some \<lparr>wl_ownerId = or_ownerId i, wl_fence = fence, wl_expiresAt = expiresAt\<rparr>"
  shows "(jf_meta t = Some (m\<lparr>jm_lastFence := fence\<rparr>) \<or> (jf_meta t = Some m \<and> isl r)) \<and> jf_lines t = jf_lines d \<and>
     jf_unterminated t = jf_unterminated d \<and> (\<forall>l. jf_lease t = Some l \<longrightarrow> wl_fence l = fence) \<and>
     (\<forall>w. r = Inr w \<longrightarrow> jf_meta t = Some (m\<lparr>jm_lastFence := fence\<rparr>) \<and> sw_fence w = fence \<and> (\<exists>ins. inspectSyncJournal sha t = Inr ins \<and>
        \<not> in_requiresReconciliation ins \<and> sw_records w = in_records ins))"
  using journal_start_outcome [OF assms(1)]
proof (elim disjE exE conjE)
  fix e d'
  assume r: "r = Inl e" and t: "t = snd (releaseLeaseFile d' (or_ownerId i) fence)" and d': "d' \<in> {d, publish_fence m fence d}"
  from d' assms(2,3) have "(jf_meta d' = Some (m\<lparr>jm_lastFence := fence\<rparr>) \<or> jf_meta d' = Some m) \<and> jf_lines d' = jf_lines d \<and>
     jf_unterminated d' = jf_unterminated d \<and> (\<forall>l. jf_lease d' = Some l \<longrightarrow> wl_fence l = fence)" by (auto simp: publish_fence_def)
  with release_frame [of d' "or_ownerId i" fence] r t show ?thesis by auto
qed (use assms(2,3) in \<open>simp add: publish_fence_def\<close>)

lemma open_lease_Inl:
  assumes "open_lease env i d = (Inl e, t)"
  shows "t = d \<or> (\<exists>m. readMetadata d (or_bindingId i) (or_bindingGeneration i) = Inr (m, t))"
  using assms by (auto simp: open_lease_def split: sum.splits if_splits)

lemma open_lease_Inr:
  assumes "open_lease env i d = (Inr (m, fence, observedAt, expiresAt), t)"
  shows "\<exists>d0. readMetadata d (or_bindingId i) (or_bindingGeneration i) = Inr (m, d0) \<and> next_fence m (jf_lease d0) = Inr fence \<and>
     t = d0\<lparr>jf_lease := Some \<lparr>wl_ownerId = or_ownerId i, wl_fence = fence, wl_expiresAt = expiresAt\<rparr>\<rparr>"
  using assms by (auto simp: open_lease_def split: sum.splits if_splits)

lemma readMetadata_cases:
  "readMetadata d b g = Inr (m, t) \<Longrightarrow> meta_ok d \<Longrightarrow> meta_ok t \<and> jf_meta t = Some m \<and> jf_lines t = jf_lines d \<and>
     jf_unterminated t = jf_unterminated d \<and> jf_lease t = jf_lease d \<and>
     (jf_meta d = Some m \<or> (jf_meta d = None \<and> jm_lastFence m = 0))"
  by (auto simp: readMetadata_def meta_ok_def Let_def js_defs split: option.splits if_splits)

lemma assertLease_writer: "assertLease env d w = (e, w') \<Longrightarrow> \<exists>n. w' = w\<lparr>sw_lastObservedNow := n\<rparr>"
  by (cases w) (auto simp: assertLease_def writer_now_def split: if_splits sum.splits option.splits)

lemma assertLease_None:
  "fst (assertLease env d w) = None \<Longrightarrow> \<exists>l. jf_lease d = Some l \<and> wl_fence l = sw_fence w \<and> wl_ownerId l = sw_ownerId w"
  by (auto simp: assertLease_def split: if_splits sum.splits option.splits prod.splits)

lemma write_frame [simp]:
  "jf_meta (write_line l d) = jf_meta d" "jf_lease (write_line l d) = jf_lease d"
  "jf_meta (write_unterminated l d) = jf_meta d" "jf_lease (write_unterminated l d) = jf_lease d"
  by (auto simp: write_line_def write_unterminated_def split: option.splits)

lemma appendRecord_frame:
  assumes "appendRecord sha env d w i st h = (r, d', w')"
  shows "jf_meta d' = jf_meta d \<and> jf_lease d' = jf_lease d \<and> sw_fence w' = sw_fence w"
  using assms assertLease_writer [of env d w]
  by (auto simp: appendRecord_def Let_def split: prod.splits option.splits append_fault.splits)

lemma journal_append_cases:
  assumes "journal_append sha env d w i = (r, d', w')"
  obtains "d' = d" "w' = w"
  | "validateIntent i" "operation_records w (si_operationId i) = []"
    "appendRecord sha env d w i Queued (hashIntent sha i) = (r, d', w')"
  using assms by (auto simp: journal_append_def Let_def split: if_splits)

lemma journal_transition_cases:
  assumes "journal_transition sha env d w k st = (r, d', w')"
  obtains "d' = d" "w' = w"
  | latest where "operation_records w k \<noteq> []" "latest = last (operation_records w k)" "allowedTransition (sr_state latest) st"
    "appendRecord sha env d w (sr_intent latest) st (sr_intentHash latest) = (r, d', w')"
  using assms by (cases "operation_records w k") (auto simp: journal_transition_def Let_def split: if_splits)

lemma journal_renew_cases:
  assumes "journal_renew env d w = (e, d', w')"
  shows "sw_fence w' = sw_fence w \<and> sw_records w' = sw_records w \<and>
     (d' = d \<or> (\<exists>x. d' = d\<lparr>jf_lease := Some \<lparr>wl_ownerId = sw_ownerId w', wl_fence = sw_fence w, wl_expiresAt = x\<rparr>\<rparr>))"
proof -
  obtain e1 w1 where a: "assertLease env d w = (e1, w1)" by force
  from assertLease_writer [OF a] obtain n where "w1 = w\<lparr>sw_lastObservedNow := n\<rparr>" by blast
  with assms a show ?thesis
    by (cases e1) (auto simp: journal_renew_def writer_now_def split: if_splits sum.splits)
qed

lemma lease_fences:
  assumes "open_lease env i d = (r, t)" and "meta_ok d"
  shows "meta_ok t \<and> last_fence \<lparr>wd_dir = d, wd_writer = None\<rparr> = last_fence \<lparr>wd_dir = t, wd_writer = None\<rparr> \<and>
     jf_lines t = jf_lines d \<and> jf_unterminated t = jf_unterminated d \<and>
     (\<forall>m fence observedAt expiresAt. r = Inr (m, fence, observedAt, expiresAt) \<longrightarrow> jf_meta t = Some m \<and> jm_lastFence m < fence \<and>
        1 \<le> fence \<and> is_safe_integer fence \<and>
        jf_lease t = Some \<lparr>wl_ownerId = or_ownerId i, wl_fence = fence, wl_expiresAt = expiresAt\<rparr>)"
proof (cases r)
  case (Inl e)
  from open_lease_Inl [OF assms(1) [unfolded Inl]] show ?thesis
  proof
    assume "t = d"
    then show ?thesis using Inl assms(2) by simp
  next
    assume "\<exists>m. readMetadata d (or_bindingId i) (or_bindingGeneration i) = Inr (m, t)"
    then obtain m where "readMetadata d (or_bindingId i) (or_bindingGeneration i) = Inr (m, t)" ..
    from readMetadata_cases [OF this assms(2)] show ?thesis using Inl by (auto simp: last_fence_def)
  qed
next
  case (Inr q)
  obtain m fence observedAt expiresAt where q: "r = Inr (m, fence, observedAt, expiresAt)" using Inr by (cases q) auto
  from open_lease_Inr [OF assms(1) [unfolded q]] obtain d0 where
    d0: "readMetadata d (or_bindingId i) (or_bindingGeneration i) = Inr (m, d0)" "next_fence m (jf_lease d0) = Inr fence"
    "t = d0\<lparr>jf_lease := Some \<lparr>wl_ownerId = or_ownerId i, wl_fence = fence, wl_expiresAt = expiresAt\<rparr>\<rparr>" by blast
  from readMetadata_cases [OF d0(1) assms(2)] next_fence_Inr [OF d0(2)] d0(3) q show ?thesis
    by (auto simp: meta_ok_def last_fence_def)
qed

lemma publish_fences:
  assumes "open_lease env i d = (Inr (m, fence, observedAt, expiresAt), t)" and "meta_ok d"
  shows "meta_ok (publish_fence m fence t) \<and>
     last_fence \<lparr>wd_dir = d, wd_writer = None\<rparr> \<le> last_fence \<lparr>wd_dir = publish_fence m fence t, wd_writer = None\<rparr>"
  using lease_fences [OF assms] by (auto simp: meta_ok_def last_fence_def publish_fence_def)

lemma open_fences:
  assumes "sync_journal_open sha env i d = (r, t)" and "meta_ok d"
  shows "meta_ok t \<and> last_fence \<lparr>wd_dir = d, wd_writer = None\<rparr> \<le> last_fence \<lparr>wd_dir = t, wd_writer = None\<rparr> \<and>
     jf_lines t = jf_lines d \<and> jf_unterminated t = jf_unterminated d \<and>
     (\<forall>w. r = Inr w \<longrightarrow> (\<exists>m. jf_meta t = Some m \<and> sw_fence w = jm_lastFence m \<and> 1 \<le> sw_fence w) \<and>
        last_fence \<lparr>wd_dir = d, wd_writer = None\<rparr> < sw_fence w \<and>
        (\<exists>ins. inspectSyncJournal sha t = Inr ins \<and> \<not> in_requiresReconciliation ins \<and> sw_records w = in_records ins))"
proof -
  obtain r0 t0 where l: "open_lease env i d = (r0, t0)" by force
  note f = lease_fences [OF l assms(2)]
  show ?thesis
  proof (cases r0)
    case (Inl e)
    with assms(1) l f show ?thesis by (auto simp: sync_journal_open_def)
  next
    case (Inr q)
    obtain m fence observedAt expiresAt where q: "q = (m, fence, observedAt, expiresAt)" by (cases q)
    with Inr f have m: "jf_meta t0 = Some m" "jm_lastFence m < fence" "1 \<le> fence" "is_safe_integer fence"
      "jf_lease t0 = Some \<lparr>wl_ownerId = or_ownerId i, wl_fence = fence, wl_expiresAt = expiresAt\<rparr>" by auto
    from assms(1) l Inr q have "journal_start sha env i m fence observedAt expiresAt t0 = (r, t)" by (simp add: sync_journal_open_def)
    from journal_start_cases [OF this m(1,5)] m f show ?thesis
      by (auto simp: meta_ok_def last_fence_def)
  qed
qed

lemma any_step_fences:
  assumes "fences_ok s" and "world_step sha s env t"
  shows "fences_ok t \<and> last_fence s \<le> last_fence t"
  using assms(2)
proof cases
  case (opened i r d)
  with open_fences [OF opened(3)] assms(1) show ?thesis
    by (cases r) (auto simp: fences_ok_def last_fence_def)
next
  case crashed
  with assms(1) show ?thesis by (simp add: fences_ok_def last_fence_def)
next
  case (crashed_leased i r d)
  with lease_fences [OF crashed_leased(3)] assms(1) show ?thesis by (auto simp: fences_ok_def last_fence_def)
next
  case (crashed_published i m fence observedAt expiresAt d)
  with publish_fences [OF crashed_published(3)] assms(1) show ?thesis by (auto simp: fences_ok_def last_fence_def)
next
  case (renewed w e d w')
  with journal_renew_cases [OF renewed(3)] assms(1) show ?thesis
    by (auto simp: fences_ok_def last_fence_def meta_ok_def split: option.splits)
next
  case (appended w i r d w')
  from appended(4) have "jf_meta d = jf_meta (wd_dir s) \<and> jf_lease d = jf_lease (wd_dir s) \<and> sw_fence w' = sw_fence w"
    by (cases rule: journal_append_cases) (auto dest: appendRecord_frame)
  with appended(1,2) assms(1) show ?thesis
    by (auto simp: fences_ok_def last_fence_def meta_ok_def split: option.splits)
next
  case (transitioned w k st r d w')
  from transitioned(4) have "jf_meta d = jf_meta (wd_dir s) \<and> jf_lease d = jf_lease (wd_dir s) \<and> sw_fence w' = sw_fence w"
    by (cases rule: journal_transition_cases) (auto dest: appendRecord_frame)
  with transitioned(1,2) assms(1) show ?thesis
    by (auto simp: fences_ok_def last_fence_def meta_ok_def split: option.splits)
next
  case (closed w e d w')
  then have "d = wd_dir s \<or> d = (wd_dir s)\<lparr>jf_lease := None\<rparr>"
    by (auto simp: journal_close_def releaseLeaseFile_def split: option.splits if_splits)
  with closed(1) assms(1) show ?thesis
    by (auto simp: fences_ok_def last_fence_def meta_ok_def split: option.splits)
qed

definition writer_accepted :: "journal_world \<Rightarrow> unit \<Rightarrow> int \<Rightarrow> bool" where
  "writer_accepted s k g \<longleftrightarrow> g \<le> last_fence s \<and> (\<exists>env w. sw_fence w = g \<and> fst (assertLease env (wd_dir s) w) = None)"

definition writer_opened :: "(string \<Rightarrow> string) \<Rightarrow> journal_world \<Rightarrow> journal_world \<Rightarrow> unit \<Rightarrow> int \<Rightarrow> bool" where
  "writer_opened sha s t k g \<longleftrightarrow> (\<exists>env i w d. wd_writer s = None \<and> sync_journal_open sha env i (wd_dir s) = (Inr w, d) \<and>
     t = \<lparr>wd_dir = d, wd_writer = Some w\<rparr> \<and> g = sw_fence w)"

interpretation journal_fence: generation_fence
  "\<lambda>s. s = empty_world" "any_step sha" fences_ok "\<lambda>s k. last_fence s" writer_accepted "writer_opened sha" for sha
proof unfold_locales
  show "fences_ok s" if "s = empty_world" for s using that by (simp add: empty_world_def fences_ok_def meta_ok_def)
  show "fences_ok t" if "fences_ok s" "any_step sha s t" for s t
    using that any_step_fences by (auto simp: any_step_def)
  show "last_fence s \<le> last_fence t" if "fences_ok s" "any_step sha s t" for s t
    using that any_step_fences by (auto simp: any_step_def)
  show "g = last_fence s" if "fences_ok s" "writer_accepted s k g" for s k g
    using that by (auto simp: writer_accepted_def fences_ok_def meta_ok_def last_fence_def dest!: assertLease_None split: option.splits)
  show "any_step sha s t \<and> last_fence s < g \<and> last_fence t = g" if "fences_ok s" "writer_opened sha s t k g" for s t k g
  proof -
    from that(2) obtain env i w d where o: "wd_writer s = None" "sync_journal_open sha env i (wd_dir s) = (Inr w, d)"
      "t = \<lparr>wd_dir = d, wd_writer = Some w\<rparr>" "g = sw_fence w" by (auto simp: writer_opened_def)
    have "any_step sha s t" using world_step.opened [OF o(1,2)] o(3) by (auto simp: any_step_def)
    with open_fences [OF o(2)] that(1) o(3,4) show ?thesis by (auto simp: fences_ok_def last_fence_def)
  qed
qed

section \<open>Clean histories\<close>

definition clean_inv :: "(string \<Rightarrow> string) \<Rightarrow> journal_world \<Rightarrow> bool" where
  "clean_inv sha s \<longleftrightarrow> fences_ok s \<and> jf_unterminated (wd_dir s) = None \<and>
     (\<exists>rs. jf_lines (wd_dir s) = map Line rs \<and> chain sha (last_fence s) rs \<and> (\<forall>w. wd_writer s = Some w \<longrightarrow> sw_records w = rs))"

lemma inspect_chain:
  assumes "meta_ok d" and "jf_meta d = Some m" and "jf_lines d = map Line rs" and "jf_unterminated d = None"
    and "chain sha (jm_lastFence m) rs"
  shows "\<exists>ins. inspectSyncJournal sha d = Inr ins \<and> \<not> in_requiresReconciliation ins \<and> in_records ins = rs"
proof -
  have "assertReadableSchema m local_schema_support = Inr ()"
    using assms(1,2) meta_readable [of m] by (simp add: meta_ok_def)
  with assms show ?thesis
    by (simp add: inspectSyncJournal_def journal_text_def chain_def latest_by_operation_def tail_checksum_def tail_fence_def)
qed

lemma appendRecord_clean:
  assumes "appendRecord sha env d w i st h = (r, d', w')" and "je_append env = Append_ok \<or> (\<exists>e. je_append env = Append_refused e)"
    and "jf_unterminated d = None"
  shows "jf_unterminated d' = None \<and> ((jf_lines d' = jf_lines d \<and> sw_records w' = sw_records w) \<or>
     (jf_lines d' = jf_lines d @ [Line (next_record sha w i st h)] \<and> sw_records w' = sw_records w @ [next_record sha w i st h]))"
proof -
  obtain e1 w1 where a: "assertLease env d w = (e1, w1)" by force
  from assertLease_writer [OF a] obtain n where w1: "w1 = w\<lparr>sw_lastObservedNow := n\<rparr>" by blast
  then have "next_record sha w1 i st h = next_record sha w i st h" by (simp add: next_record_def)
  with assms a w1 show ?thesis
    by (cases e1) (auto simp: appendRecord_def Let_def write_line_def)
qed

lemma clean_append:
  assumes sha: "\<forall>x. is_sha256_hex (sha x)" and inv: "clean_inv sha s" and w: "wd_writer s = Some w"
    and len: "int (length (sw_records w)) < max_safe_integer"
    and env: "je_append env = Append_ok \<or> (\<exists>e. je_append env = Append_refused e)"
    and app: "appendRecord sha env (wd_dir s) w i st (hashIntent sha i) = (r, d', w')" and vi: "validateIntent i"
    and st: "case operation_records w (si_operationId i) of [] \<Rightarrow> st = Queued
       | rs \<Rightarrow> sr_intentHash (last rs) = hashIntent sha i \<and> allowedTransition (sr_state (last rs)) st"
    and t: "t = \<lparr>wd_dir = d', wd_writer = Some w'\<rparr>" and ft: "fences_ok t"
  shows "clean_inv sha t \<and> (\<exists>more. jf_lines d' = jf_lines (wd_dir s) @ more)"
proof -
  from inv w obtain m where m: "jf_meta (wd_dir s) = Some m" "sw_fence w = jm_lastFence m" "1 \<le> sw_fence w"
    "is_safe_integer (jm_lastFence m)" and lines: "jf_unterminated (wd_dir s) = None" "jf_lines (wd_dir s) = map Line (sw_records w)"
    and c: "chain sha (jm_lastFence m) (sw_records w)"
    by (auto simp: clean_inv_def fences_ok_def meta_ok_def last_fence_def)
  have next_ok: "chain sha (jm_lastFence m) (sw_records w @ [next_record sha w i st (hashIntent sha i)])"
    using next_record_follows [OF sha c m(2) _ m(4) len vi refl st] c m by (simp add: chain_snoc)
  have "last_fence t = jm_lastFence m" using appendRecord_frame [OF app] m(1) t by (simp add: last_fence_def)
  with appendRecord_clean [OF app env lines(1)] c next_ok lines(2) t ft show ?thesis
    unfolding clean_inv_def by (auto intro: exI [of _ "sw_records w"] exI [of _ "sw_records w @ [next_record sha w i st (hashIntent sha i)]"])
qed


lemma clean_opened:
  assumes "clean_inv sha s" and "wd_writer s = None" and "sync_journal_open sha env i (wd_dir s) = (r, d)"
    and t: "t = \<lparr>wd_dir = d, wd_writer = (case r of Inr w \<Rightarrow> Some w | Inl _ \<Rightarrow> None)\<rparr>" and "fences_ok t"
  shows "clean_inv sha t \<and> jf_lines d = jf_lines (wd_dir s)"
proof -
  from assms(1) obtain rs where rs: "jf_lines (wd_dir s) = map Line rs" "chain sha (last_fence s) rs"
    "jf_unterminated (wd_dir s) = None" "meta_ok (wd_dir s)" by (auto simp: clean_inv_def fences_ok_def)
  note o = open_fences [OF assms(3) rs(4)]
  have "last_fence s \<le> last_fence t" using o t by (simp add: last_fence_def)
  then have c: "chain sha (last_fence t) rs" by (rule chain_mono [OF rs(2)])
  have "sw_records w = rs" if "wd_writer t = Some w" for w
  proof -
    from that t have r: "r = Inr w" by (cases r) auto
    with o obtain m ins where m: "jf_meta d = Some m" "inspectSyncJournal sha d = Inr ins" "sw_records w = in_records ins" by blast
    with inspect_chain [of d m rs sha] o rs c t show ?thesis by (auto simp: last_fence_def)
  qed
  with o rs c t assms(5) show ?thesis by (auto simp: clean_inv_def)
qed

lemma clean_unchanged:
  assumes "clean_inv sha s" and "fences_ok t" and "last_fence s \<le> last_fence t"
    and "jf_lines (wd_dir t) = jf_lines (wd_dir s)" and "jf_unterminated (wd_dir t) = jf_unterminated (wd_dir s)"
    and "\<And>w'. wd_writer t = Some w' \<Longrightarrow> \<exists>w. wd_writer s = Some w \<and> sw_records w' = sw_records w"
  shows "clean_inv sha t"
  using assms chain_mono [OF _ assms(3)] by (fastforce simp: clean_inv_def)

lemma transition_precondition:
  assumes "chain sha F (sw_records w)" and "operation_records w k \<noteq> []" and "allowedTransition (sr_state (last (operation_records w k))) st"
  shows "sr_intentHash (last (operation_records w k)) = hashIntent sha (sr_intent (last (operation_records w k)))"
    and "validateIntent (sr_intent (last (operation_records w k)))"
    and "case operation_records w (si_operationId (sr_intent (last (operation_records w k)))) of [] \<Rightarrow> st = Queued
       | rs \<Rightarrow> sr_intentHash (last rs) = hashIntent sha (sr_intent (last (operation_records w k))) \<and> allowedTransition (sr_state (last rs)) st"
proof -
  let ?l = "last (operation_records w k)"
  have "?l \<in> set (operation_records w k)" using assms(2) by (rule last_in_set)
  then have l: "?l \<in> set (sw_records w)" "si_operationId (sr_intent ?l) = k" by (auto simp: operation_records_def)
  from chain_member [OF assms(1) l(1)] show h: "sr_intentHash ?l = hashIntent sha (sr_intent ?l)" and "validateIntent (sr_intent ?l)"
    by auto
  show "case operation_records w (si_operationId (sr_intent ?l)) of [] \<Rightarrow> st = Queued
       | rs \<Rightarrow> sr_intentHash (last rs) = hashIntent sha (sr_intent ?l) \<and> allowedTransition (sr_state (last rs)) st"
    unfolding l(2) using h assms(2,3) by (cases "operation_records w k") auto
qed

lemma clean_world_step:
  assumes sha: "\<forall>x. is_sha256_hex (sha x)" and inv: "clean_inv sha s" and step: "world_step sha s env t"
    and env: "je_append env = Append_ok \<or> (\<exists>e. je_append env = Append_refused e)"
  shows "clean_inv sha t \<and> (\<exists>more. jf_lines (wd_dir t) = jf_lines (wd_dir s) @ more)"
proof -
  from inv have "fences_ok s" by (simp add: clean_inv_def)
  from any_step_fences [OF this step] have ft: "fences_ok t" and mono: "last_fence s \<le> last_fence t" by simp_all
  from step show ?thesis
  proof cases
    case (opened i r d)
    with clean_opened [OF inv opened(2,3,1)] ft show ?thesis by simp
  next
    case crashed
    with clean_unchanged [OF inv ft] show ?thesis by (simp add: last_fence_def)
  next
    case (crashed_leased i r d)
    with lease_fences [OF crashed_leased(3)] clean_unchanged [OF inv ft] mono inv show ?thesis by (auto simp: clean_inv_def fences_ok_def)
  next
    case (crashed_published i m fence observedAt expiresAt d)
    with lease_fences [OF crashed_published(3)] clean_unchanged [OF inv ft] mono inv show ?thesis
      by (auto simp: clean_inv_def fences_ok_def publish_fence_def)
  next
    case (renewed w e d w')
    with journal_renew_cases [OF renewed(3)] clean_unchanged [OF inv ft] show ?thesis by (auto simp: last_fence_def)
  next
    case (appended w i r d w')
    from appended(4) show ?thesis
    proof (cases rule: journal_append_cases)
      case 1
      with appended clean_unchanged [OF inv ft] show ?thesis by (simp add: last_fence_def)
    next
      case 2
      then show ?thesis using clean_append [OF sha inv appended(2,3) env 2(3,1) _ appended(1) ft] appended(1) by simp
    qed
  next
    case (transitioned w k st r d w')
    from transitioned(4) show ?thesis
    proof (cases rule: journal_transition_cases)
      case 1
      with transitioned clean_unchanged [OF inv ft] show ?thesis by (simp add: last_fence_def)
    next
      case (2 latest)
      from inv transitioned(2) have c: "chain sha (last_fence s) (sw_records w)" by (auto simp: clean_inv_def)
      note p = transition_precondition [OF c 2(1) 2(3) [unfolded 2(2)]]
      from clean_append [OF sha inv transitioned(2,3) env 2(4) [unfolded 2(2) p(1)] p(2,3) transitioned(1) ft]
      show ?thesis using transitioned(1) by simp
    qed
  next
    case (closed w e d w')
    then have "d = wd_dir s \<or> d = (wd_dir s)\<lparr>jf_lease := None\<rparr>"
      by (auto simp: journal_close_def releaseLeaseFile_def split: option.splits if_splits)
    with closed(1) clean_unchanged [OF inv ft] show ?thesis by (auto simp: last_fence_def)
  qed
qed


interpretation clean_journal: invariant_system
  "\<lambda>s. s = empty_world" "clean_step sha" "\<lambda>s. (\<forall>x. is_sha256_hex (sha x)) \<longrightarrow> clean_inv sha s" for sha
proof unfold_locales
  show "(\<forall>x. is_sha256_hex (sha x)) \<longrightarrow> clean_inv sha s" if "s = empty_world" for s
    using that by (simp add: clean_inv_def empty_world_def fences_ok_def meta_ok_def)
  show "(\<forall>x. is_sha256_hex (sha x)) \<longrightarrow> clean_inv sha t"
    if "(\<forall>x. is_sha256_hex (sha x)) \<longrightarrow> clean_inv sha s" "clean_step sha s t" for s t
    using that clean_world_step by (auto simp: clean_step_def)
qed

lemma clean_steps_extend:
  assumes "(clean_step sha)\<^sup>*\<^sup>* s t" and "\<forall>x. is_sha256_hex (sha x)" and "clean_inv sha s"
  shows "clean_inv sha t \<and> (\<exists>more. jf_lines (wd_dir t) = jf_lines (wd_dir s) @ more)"
  using assms(1)
proof (induction rule: rtranclp_induct)
  case (step t u)
  then show ?case using clean_world_step [OF assms(2), of t _ u] by (force simp: clean_step_def)
qed (simp add: assms(3))

lemma clean_inspection:
  assumes "clean_inv sha s" and "jf_meta (wd_dir s) = Some m"
  obtains rs ins where "jf_lines (wd_dir s) = map Line rs" "inspectSyncJournal sha (wd_dir s) = Inr ins" "in_records ins = rs"
    "\<not> in_requiresReconciliation ins" "\<And>w. wd_writer s = Some w \<Longrightarrow> sw_records w = rs"
proof -
  from assms obtain rs where "jf_lines (wd_dir s) = map Line rs" "chain sha (jm_lastFence m) rs" "meta_ok (wd_dir s)"
    "jf_unterminated (wd_dir s) = None" "\<And>w. wd_writer s = Some w \<Longrightarrow> sw_records w = rs"
    by (auto simp: clean_inv_def fences_ok_def last_fence_def)
  with inspect_chain [of "wd_dir s" m rs sha] assms(2) show ?thesis by (blast intro: that)
qed

lemma lease_meta:
  assumes "open_lease env i d = (r, t)" and "jf_meta d \<noteq> None"
  shows "jf_meta t \<noteq> None"
proof (cases r)
  case (Inl e)
  from open_lease_Inl [OF assms(1) [unfolded Inl]] assms(2) show ?thesis by (auto simp: readMetadata_def split: if_splits)
next
  case (Inr q)
  with open_lease_Inr [of env i d _ _ _ _ t] assms show ?thesis
    by (cases q) (fastforce simp: readMetadata_def split: if_splits)
qed

lemma open_meta:
  assumes "sync_journal_open sha env i d = (r, t)" and "jf_meta d \<noteq> None"
  shows "jf_meta t \<noteq> None"
proof -
  obtain r0 t0 where l: "open_lease env i d = (r0, t0)" by force
  note m = lease_meta [OF l assms(2)]
  show ?thesis
  proof (cases r0)
    case (Inl e)
    with assms(1) l m show ?thesis by (simp add: sync_journal_open_def)
  next
    case (Inr q)
    with assms(1) l obtain n fence x y where "journal_start sha env i n fence x y t0 = (r, t)"
      by (cases q) (auto simp: sync_journal_open_def)
    from journal_start_outcome [OF this] m show ?thesis by (auto simp: publish_fence_def)
  qed
qed

lemma append_frames:
  "journal_append sha env d w i = (r, d', w') \<Longrightarrow> jf_meta d' = jf_meta d"
  "journal_transition sha env d w k st = (r', d'', w'') \<Longrightarrow> jf_meta d'' = jf_meta d"
  by (auto elim!: journal_append_cases journal_transition_cases dest: appendRecord_frame)

lemma world_step_meta:
  assumes "world_step sha s env t" and "jf_meta (wd_dir s) \<noteq> None"
  shows "jf_meta (wd_dir t) \<noteq> None"
  using assms(1)
proof cases
  case (opened i r d)
  then show ?thesis using open_meta [OF opened(3) assms(2)] by simp
next
  case (crashed_leased i r d)
  then show ?thesis using lease_meta [OF crashed_leased(3) assms(2)] by simp
next
  case (crashed_published i m fence observedAt expiresAt d)
  then show ?thesis by (simp add: publish_fence_def)
next
  case (renewed w e d w')
  then show ?thesis using journal_renew_cases [OF renewed(3)] assms(2) by auto
next
  case (closed w e d w')
  then show ?thesis using assms(2) by (auto simp: journal_close_def releaseLeaseFile_def split: option.splits if_splits)
qed (use assms(2) append_frames in auto)

lemma clean_steps_meta: "(clean_step sha)\<^sup>*\<^sup>* s t \<Longrightarrow> jf_meta (wd_dir s) \<noteq> None \<Longrightarrow> jf_meta (wd_dir t) \<noteq> None"
  by (induction rule: rtranclp_induct) (auto simp: clean_step_def dest: world_step_meta)

lemma inspect_accepts_all:
  assumes "inspect_from sha F (map Line xs) [] = (ys, True)"
  shows "chain sha F xs"
  using inspect_from_prefix [of sha F xs "[]" "[]"] assms by (auto simp: chain_def)

lemma inspect_trusted:
  assumes "inspectSyncJournal sha d = Inr ins" and "\<not> in_requiresReconciliation ins"
    and "jf_lines d = map Line xs" and "jf_unterminated d = None"
  shows "\<exists>F. chain sha F xs"
proof -
  from assms obtain F ys where "inspect_from sha F (map Line xs) [] = (ys, True)"
    by (auto simp: inspectSyncJournal_def journal_text_def latest_by_operation_def tail_checksum_def tail_fence_def
        split: option.splits if_splits prod.splits bool.splits)
  then show ?thesis by (blast intro: inspect_accepts_all)
qed

lemma inspect_answers: "jf_meta d = Some m \<Longrightarrow> \<exists>ins. inspectSyncJournal sha d = Inr ins"
  by (cases "inspect_loop sha (jm_lastFence m) (journal_text d) [] [] zero_checksum 0"; cases "snd (inspect_loop sha (jm_lastFence m) (journal_text d) [] [] zero_checksum 0)")
    (simp_all add: inspectSyncJournal_def)

lemma appendRecord_unsynced:
  assumes "appendRecord sha env d w i st h = (r, d', w')" and "je_append env = Append_unsynced why"
    and "jf_unterminated d = None" and "d' \<noteq> d"
  shows "\<exists>q. d' = d\<lparr>jf_lines := jf_lines d @ [Line q]\<rparr> \<and> sw_records w' = sw_records w"
  using assms assertLease_writer [of env d w]
  by (auto simp: appendRecord_def Let_def write_line_def split: prod.splits option.splits)

lemma appendRecord_acknowledged:
  assumes "appendRecord sha env d w i st h = (Inr r, d', w')" and "jf_unterminated d = None"
  shows "d' = d\<lparr>jf_lines := jf_lines d @ [Line r]\<rparr> \<and> sr_recordSequence r = int (length (sw_records w)) + 1"
  using assms assertLease_writer [of env d w]
  by (auto simp: appendRecord_def Let_def write_line_def next_record_def split: prod.splits option.splits append_fault.splits)

lemma no_chain_repeats: "sr_recordSequence r = int (length rs) + 1 \<Longrightarrow> \<not> chain sha F ((rs @ [q]) @ [r])"
  by (simp only: chain_snoc follows_def chain_record_ok_def) simp

section \<open>Properties\<close>

text \<open>A hash function with the shape of SHA-256 and an environment for the concrete runs.\<close>

definition sample_hash :: "string \<Rightarrow> string" where
  "sample_hash x = zero_checksum"

definition sample_env :: "int \<Rightarrow> append_fault \<Rightarrow> journal_env" where
  "sample_env n f = \<lparr>je_authorityHeld = True, je_authorityAfterLease = True, je_authorityAtReady = True, je_directoryTrusted = True, je_now = n, je_later = n + 1, je_append = f\<rparr>"

definition sample_request :: open_request where
  "sample_request = \<lparr>or_bindingId = ''b'', or_bindingGeneration = 1, or_ownerId = ''o'', or_leaseMs = 30000\<rparr>"

definition sample_operation :: sync_intent where
  "sample_operation = \<lparr>si_operationId = ''op'', si_baseGeneration = 1, si_digest = zero_checksum, si_byteLength = 3\<rparr>"

definition sample_opened :: journal_dir where
  "sample_opened = snd (sync_journal_open sample_hash (sample_env 1000 Append_ok) sample_request (wd_dir empty_world))"

definition sample_writer :: sync_writer where
  "sample_writer = \<lparr>sw_ownerId = ''o'', sw_fence = 1, sw_leaseMs = 30000, sw_records = [], sw_closed = False, sw_lastObservedNow = 1001\<rparr>"

lemma sample_hash_hex: "\<forall>x. is_sha256_hex (sample_hash x)"
  by (simp add: sample_hash_def zero_checksum_hex)

lemma sample_open: "sync_journal_open sample_hash (sample_env 1000 Append_ok) sample_request (wd_dir empty_world) = (Inr sample_writer, sample_opened)"
  unfolding sample_opened_def by code_simp


text \<open>
  C31. The journal recovers every acknowledged record. As long as a write of a record
  either completes or leaves the file alone, whatever the processes do (open, append,
  move an operation on, renew, close, crash, in any order), inspecting the journal never
  asks for reconciliation, reads exactly the records the current writer has acknowledged,
  and keeps every record that was in the journal at any earlier time, in order.
\<close>

theorem sync_journal_recoverable:
  assumes "\<forall>x. is_sha256_hex (sha x)"
    and "(clean_step sha)\<^sup>*\<^sup>* empty_world s" and "jf_meta (wd_dir s) \<noteq> None" and "(clean_step sha)\<^sup>*\<^sup>* s t"
  shows "\<exists>a b more. inspectSyncJournal sha (wd_dir s) = Inr a \<and> inspectSyncJournal sha (wd_dir t) = Inr b \<and>
     \<not> in_requiresReconciliation b \<and> in_records b = in_records a @ more \<and>
     (\<forall>w. wd_writer t = Some w \<longrightarrow> sw_records w = in_records b)"
proof -
  have s: "clean_inv sha s" using clean_journal.reachable_inv [OF refl assms(2)] assms(1) by simp
  with clean_steps_extend [OF assms(4,1)] obtain more where
    t: "clean_inv sha t" "jf_lines (wd_dir t) = jf_lines (wd_dir s) @ more" by blast
  from assms(3) clean_steps_meta [OF assms(4)] obtain m m' where
    m: "jf_meta (wd_dir s) = Some m" "jf_meta (wd_dir t) = Some m'" by auto
  obtain rs a where a: "jf_lines (wd_dir s) = map Line rs" "inspectSyncJournal sha (wd_dir s) = Inr a" "in_records a = rs"
    by (rule clean_inspection [OF s m(1)])
  obtain rs' b where b: "jf_lines (wd_dir t) = map Line rs'" "inspectSyncJournal sha (wd_dir t) = Inr b" "in_records b = rs'"
    "\<not> in_requiresReconciliation b" "\<forall>w. wd_writer t = Some w \<longrightarrow> sw_records w = rs'"
    by (rule clean_inspection [OF t(1) m(2)]) blast
  from a(1) b(1) t(2) have "map Line rs' = map Line rs @ more" by simp
  then obtain more' where "rs' = rs @ more'" by (auto simp: map_eq_append_conv inj_map_eq_map inj_def)
  with a b show ?thesis by auto
qed

definition sample_world :: journal_world where
  "sample_world = \<lparr>wd_dir = sample_opened, wd_writer = Some sample_writer\<rparr>"

definition sample_record :: sync_record where
  "sample_record = \<lparr>sr_intent = sample_operation, sr_recordSequence = 1, sr_fence = 1, sr_state = Queued, sr_intentHash = zero_checksum,
     sr_previousChecksum = zero_checksum, sr_checksum = zero_checksum\<rparr>"

definition sample_appended :: journal_world where
  "sample_appended = \<lparr>wd_dir = sample_opened\<lparr>jf_lines := [Line sample_record]\<rparr>,
     wd_writer = Some (sample_writer\<lparr>sw_records := [sample_record], sw_lastObservedNow := 2000\<rparr>)\<rparr>"

lemma sample_append:
  "journal_append sample_hash (sample_env 2000 Append_ok) sample_opened sample_writer sample_operation =
     (Inr sample_record, wd_dir sample_appended, sample_writer\<lparr>sw_records := [sample_record], sw_lastObservedNow := 2000\<rparr>)"
  by code_simp

lemma sample_steps:
  "(clean_step sample_hash)\<^sup>*\<^sup>* empty_world sample_world" "(clean_step sample_hash)\<^sup>*\<^sup>* sample_world sample_appended"
proof -
  have "world_step sample_hash empty_world (sample_env 1000 Append_ok) sample_world"
    using world_step.opened [OF _ sample_open] by (simp add: empty_world_def sample_world_def)
  then have "clean_step sample_hash empty_world sample_world" by (rule clean_stepI) (simp add: sample_env_def)
  then show "(clean_step sample_hash)\<^sup>*\<^sup>* empty_world sample_world" by (rule r_into_rtranclp [of "clean_step sample_hash"])
  have "world_step sample_hash sample_world (sample_env 2000 Append_ok) sample_appended"
    using world_step.appended [of sample_world sample_writer sample_hash "sample_env 2000 Append_ok" sample_operation] sample_append
    by (simp add: sample_world_def sample_appended_def sample_writer_def max_safe_integer_def)
  then have "clean_step sample_hash sample_world sample_appended" by (rule clean_stepI) (simp add: sample_env_def)
  then show "(clean_step sample_hash)\<^sup>*\<^sup>* sample_world sample_appended" by (rule r_into_rtranclp [of "clean_step sample_hash"])
qed

lemma sample_meta: "jf_meta (wd_dir sample_world) \<noteq> None"
  unfolding sample_world_def sample_opened_def by code_simp

theorem sync_journal_recoverable_witness:
  "\<exists>a b more. inspectSyncJournal sample_hash (wd_dir sample_world) = Inr a \<and> inspectSyncJournal sample_hash (wd_dir sample_appended) = Inr b \<and>
     \<not> in_requiresReconciliation b \<and> in_records b = in_records a @ more \<and>
     (\<forall>w. wd_writer sample_appended = Some w \<longrightarrow> sw_records w = in_records b)"
  by (rule sync_journal_recoverable [OF sample_hash_hex sample_steps(1) sample_meta sample_steps(2)])


text \<open>
  C32. A superseded writer can do nothing to the journal. Whatever histories (faults
  included) lead to the opening of the journal by one process and to anything after it, a
  writer that holds an older fence has its appends and transitions refused before they
  reach the file, cannot renew, and when it closes it leaves the lease of its successor
  in place: none of its operations changes the directory.
\<close>

theorem sync_writer_fencing:
  assumes "(any_step sha)\<^sup>*\<^sup>* empty_world s" and "wd_writer s = None"
    and "sync_journal_open sha env i (wd_dir s) = (Inr w, d)"
    and "(any_step sha)\<^sup>*\<^sup>* \<lparr>wd_dir = d, wd_writer = Some w\<rparr> u" and "sw_fence old < sw_fence w"
  shows "(\<exists>e. fst (appendRecord sha env' (wd_dir u) old intent state h) = Inl e) \<and>
     fst (snd (journal_append sha env' (wd_dir u) old intent)) = wd_dir u \<and>
     fst (snd (journal_transition sha env' (wd_dir u) old k state)) = wd_dir u \<and>
     fst (journal_renew env' (wd_dir u) old) \<noteq> None \<and> fst (snd (journal_renew env' (wd_dir u) old)) = wd_dir u \<and>
     fst (snd (journal_close (wd_dir u) old)) = wd_dir u"
proof -
  have inv: "fences_ok s" using journal_fence.reachable_inv [OF refl assms(1)] .
  let ?t = "\<lparr>wd_dir = d, wd_writer = Some w\<rparr>"
  have o: "writer_opened sha s ?t () (sw_fence w)" using assms(2,3) by (auto simp: writer_opened_def)
  from journal_fence.issues_fresh [OF inv o] have t: "any_step sha s ?t" "last_fence ?t = sw_fence w" by auto
  from journal_fence.step_inv [OF inv t(1)] have "fences_ok ?t" .
  have u: "fences_ok u" "last_fence ?t \<le> last_fence u"
    using journal_fence.steps_inv [OF assms(4)] journal_fence.gen_steps_mono [OF assms(4)] \<open>fences_ok ?t\<close> by auto
  from journal_fence.stale_never_accepted [OF \<open>fences_ok ?t\<close> assms(4)] t(2) assms(5)
  have "\<not> writer_accepted u () (sw_fence old)" by simp
  then have "fst (assertLease env' (wd_dir u) old) \<noteq> None" using u(2) t(2) assms(5) by (auto simp: writer_accepted_def)
  then obtain e w1 where a: "assertLease env' (wd_dir u) old = (Some e, w1)" by (cases "assertLease env' (wd_dir u) old") auto
  have app: "appendRecord sha env' (wd_dir u) old x y z = (Inl e, wd_dir u, w1)" for x y z
    using a by (simp add: appendRecord_def)
  from u have "wl_fence l \<noteq> sw_fence old" if "jf_lease (wd_dir u) = Some l" for l
    using that t(2) assms(5) by (auto simp: fences_ok_def meta_ok_def last_fence_def split: option.splits)
  then have "snd (releaseLeaseFile (wd_dir u) (sw_ownerId old) (sw_fence old)) = wd_dir u"
    by (auto simp: releaseLeaseFile_def split: option.splits)
  with a app show ?thesis
    by (auto simp: journal_append_def journal_transition_def journal_renew_def journal_close_def Let_def split: list.splits prod.splits)
qed

definition sample_second :: sync_writer where
  "sample_second = sample_writer\<lparr>sw_fence := 2, sw_lastObservedNow := 3001\<rparr>"

lemma sample_reopen:
  "sync_journal_open sample_hash (sample_env 3000 Append_ok) sample_request sample_opened =
     (Inr sample_second, snd (sync_journal_open sample_hash (sample_env 3000 Append_ok) sample_request sample_opened))"
  by code_simp

lemma sample_crashed: "(any_step sample_hash)\<^sup>*\<^sup>* empty_world (sample_world\<lparr>wd_writer := None\<rparr>)"
proof -
  have "world_step sample_hash empty_world (sample_env 1000 Append_ok) sample_world"
    using world_step.opened [OF _ sample_open] by (simp add: empty_world_def sample_world_def)
  moreover have "world_step sample_hash sample_world (sample_env 1000 Append_ok) (sample_world\<lparr>wd_writer := None\<rparr>)"
    by (rule world_step.crashed)
  ultimately show ?thesis
    by (meson any_step_def converse_rtranclp_into_rtranclp r_into_rtranclp)
qed

theorem sync_writer_fencing_witness:
  "fst (snd (journal_append sample_hash (sample_env 4000 Append_ok)
     (snd (sync_journal_open sample_hash (sample_env 3000 Append_ok) sample_request sample_opened)) sample_writer sample_operation)) =
     snd (sync_journal_open sample_hash (sample_env 3000 Append_ok) sample_request sample_opened)"
  using sync_writer_fencing [OF sample_crashed _ _ rtranclp.rtrancl_refl, of "sample_env 3000 Append_ok" sample_request sample_second _ sample_writer]
    sample_reopen by (simp add: sample_world_def sample_second_def sample_writer_def)

text \<open>
  C33. A write that fails after its line reached the file poisons the journal. When an
  append is refused by a failing \<^verbatim>\<open>sync\<close> although the line is in the file, the writer goes
  on with its old sequence number; the next append it acknowledges makes the journal
  unreadable: inspection asks for reconciliation and no process can open it again, whoever
  asks and whenever.
\<close>

theorem unsynced_append_poisons:
  assumes "\<forall>x. is_sha256_hex (sha x)" and "(clean_step sha)\<^sup>*\<^sup>* empty_world s" and "wd_writer s = Some w"
    and "journal_append sha env (wd_dir s) w x = (Inl e, d1, w1)" and "je_append env = Append_unsynced why" and "d1 \<noteq> wd_dir s"
    and "journal_append sha env' d1 w1 y = (Inr r, d2, w2)" and "d2 \<noteq> d1"
  shows "isl (fst (sync_journal_open sha env'' i d2)) \<and>
     (\<exists>a. inspectSyncJournal sha d2 = Inr a \<and> in_requiresReconciliation a)"
proof -
  have inv: "clean_inv sha s" using clean_journal.reachable_inv [OF refl assms(2)] assms(1) by simp
  with assms(3) obtain m where m: "jf_meta (wd_dir s) = Some m" and lines: "jf_lines (wd_dir s) = map Line (sw_records w)"
    "jf_unterminated (wd_dir s) = None" by (auto simp: clean_inv_def fences_ok_def)
  from assms(4,6) obtain q where q: "d1 = (wd_dir s)\<lparr>jf_lines := jf_lines (wd_dir s) @ [Line q]\<rparr>" "sw_records w1 = sw_records w"
    by (cases rule: journal_append_cases) (use appendRecord_unsynced assms(5) lines(2) in blast)+
  from assms(7,8) have r: "d2 = d1\<lparr>jf_lines := jf_lines d1 @ [Line r]\<rparr>" "sr_recordSequence r = int (length (sw_records w)) + 1"
    by (cases rule: journal_append_cases; use appendRecord_acknowledged [of sha env' d1 w1] q lines(2) in auto)+
  have d2: "jf_lines d2 = map Line ((sw_records w @ [q]) @ [r])" "jf_unterminated d2 = None" "meta_ok d2" "jf_meta d2 = Some m"
    using q r lines m inv by (auto simp: clean_inv_def fences_ok_def meta_ok_def)
  have bad: False if "inspectSyncJournal sha t = Inr ins" "\<not> in_requiresReconciliation ins"
    "jf_lines t = jf_lines d2" "jf_unterminated t = None" for t ins
    using inspect_trusted [OF that(1,2) _ that(4), of "(sw_records w @ [q]) @ [r]"] no_chain_repeats [OF r(2)] that(3) d2(1) by metis
  obtain res d3 where o: "sync_journal_open sha env'' i d2 = (res, d3)" by force
  with open_fences [OF o d2(3)] bad d2(2) have "isl res" by (cases res) auto
  with inspect_answers [OF d2(4), of sha] show ?thesis using bad [of d2] o d2(2) by auto
qed

definition sample_half :: journal_dir where
  "sample_half = sample_opened\<lparr>jf_lines := [Line sample_record]\<rparr>"

definition sample_poisoned :: journal_dir where
  "sample_poisoned = sample_opened\<lparr>jf_lines := [Line sample_record, Line sample_record]\<rparr>"

lemma sample_unsynced:
  "journal_append sample_hash (sample_env 2000 (Append_unsynced ''EIO'')) (wd_dir sample_world) sample_writer sample_operation =
     (Inl (Host_failure ''EIO''), sample_half, sample_writer\<lparr>sw_lastObservedNow := 2000\<rparr>)"
  "journal_append sample_hash (sample_env 2001 Append_ok) sample_half (sample_writer\<lparr>sw_lastObservedNow := 2000\<rparr>) sample_operation =
     (Inr sample_record, sample_poisoned, sample_writer\<lparr>sw_records := [sample_record], sw_lastObservedNow := 2001\<rparr>)"
  by code_simp+

lemma sample_changed: "sample_half \<noteq> wd_dir sample_world" "sample_poisoned \<noteq> sample_half"
  by code_simp+

theorem unsynced_append_poisons_witness:
  "isl (fst (sync_journal_open sample_hash (sample_env 9000 Append_ok) sample_request sample_poisoned)) \<and>
     (\<exists>a. inspectSyncJournal sample_hash sample_poisoned = Inr a \<and> in_requiresReconciliation a)"
  by (rule unsynced_append_poisons [OF sample_hash_hex sample_steps(1) _ sample_unsynced(1) _ sample_changed(1) sample_unsynced(2) sample_changed(2)])
    (simp_all add: sample_world_def sample_env_def)

end
