(* ===== verification/Local_Actions.thy ===== *)
theory Local_Actions
  imports Base64url Json "HOL-Library.List_Lexorder" "HOL-Library.Char_ord"
begin

text \<open>
  Local actions: their contracts (\<^verbatim>\<open>src/local-actions/contracts.ts\<close>), the table of providers
  (\<^verbatim>\<open>providers.ts\<close>), the policy and its file (\<^verbatim>\<open>policy.ts\<close>, \<^verbatim>\<open>policy-store.ts\<close>) and the closed
  schemas of arguments and results (\<^verbatim>\<open>schemas.ts\<close>). A validator that throws is a predicate
  here: it holds when the validator returns; every caller treats all its errors alike.
  \<open>sha\<close> is SHA-256 of bytes in hexadecimal and \<open>admit\<close> is \<^verbatim>\<open>admitProviderAuthUrl\<close> of
  \<^verbatim>\<open>browser-action.ts\<close>, which rests on the URL parser of the host.
\<close>

section \<open>Contracts\<close>

definition local_action_protocol_version :: int where "local_action_protocol_version = 1"
definition max_local_action_queue :: int where "max_local_action_queue = 16"
definition max_local_action_argument_bytes :: nat where "max_local_action_argument_bytes = 65536"
definition max_local_action_ttl_ms :: int where "max_local_action_ttl_ms = 300000"
definition max_local_action_future_skew_ms :: int where "max_local_action_future_skew_ms = 30000"
definition max_local_action_history :: nat where "max_local_action_history = 128"
definition max_local_action_replay_entries :: nat where "max_local_action_replay_entries = 4096"

datatype la_provider = Claude_code | Codex | Opencode

datatype la_kind =
  Browser_open | Auth_device_present | Auth_callback_relay | Auth_result_observe | Clipboard_write | Port_forward | File_select
  | Attachment_import | Artifact_save | Preview_open | Diff_open | Editor_open | Notification_show | Git_sign
  | Local_service_request | Device_select

datatype la_state =
  Detected | Validated | Pending_user | Executing | Awaiting_remote_completion | Succeeded | Failed | Denied | Expired | Cancelled

datatype la_safe_reason =
  R_unsupported | R_denied_by_policy | R_denied_by_user | R_stale_identity | R_cancelled_by_foreground | R_foreground_stopped
  | R_terminal_detached | R_terminal_binding_changed | R_user_interrupt | R_execution_timeout | R_request_expired | R_adapter_failed
  | R_browser_open_failed | R_rate_limited | R_local_client_unavailable | R_outcome_unknown_nonretryable

fun provider_text :: "la_provider \<Rightarrow> string" where
  "provider_text Claude_code = ''claude-code''"
| "provider_text Codex = ''codex''"
| "provider_text Opencode = ''opencode''"

fun kind_text :: "la_kind \<Rightarrow> string" where
  "kind_text Browser_open = ''browser.open''"
| "kind_text Auth_device_present = ''auth.device.present''"
| "kind_text Auth_callback_relay = ''auth.callback.relay''"
| "kind_text Auth_result_observe = ''auth.result.observe''"
| "kind_text Clipboard_write = ''clipboard.write''"
| "kind_text Port_forward = ''port.forward''"
| "kind_text File_select = ''file.select''"
| "kind_text Attachment_import = ''attachment.import''"
| "kind_text Artifact_save = ''artifact.save''"
| "kind_text Preview_open = ''preview.open''"
| "kind_text Diff_open = ''diff.open''"
| "kind_text Editor_open = ''editor.open''"
| "kind_text Notification_show = ''notification.show''"
| "kind_text Git_sign = ''git.sign''"
| "kind_text Local_service_request = ''local_service.request''"
| "kind_text Device_select = ''device.select''"

definition all_kinds :: "la_kind list" where
  "all_kinds = [Browser_open, Auth_device_present, Auth_callback_relay, Auth_result_observe, Clipboard_write, Port_forward, File_select,
     Attachment_import, Artifact_save, Preview_open, Diff_open, Editor_open, Notification_show, Git_sign, Local_service_request, Device_select]"

record la_identity =
  id_userId :: string
  id_deviceId :: string
  id_machineId :: string
  id_workspaceBindingId :: "string option"
  id_workspaceBindingGeneration :: "int option"
  id_agentSessionId :: string
  id_processEpoch :: string
  id_fencingGeneration :: int

record la_request =
  rq_version :: int
  rq_id :: string
  rq_identity :: la_identity
  rq_provider :: la_provider
  rq_kind :: la_kind
  rq_arguments :: "(string \<times> json) list"
  rq_argumentsDigest :: string
  rq_requestedScope :: string
  rq_createdAt :: int
  rq_expiresAt :: int
  rq_nonce :: string

datatype la_decision = Deny | Ask | Allow_once | Allow_scoped
datatype la_policy_source = Project_request_ceiling | Local_device_policy | Interactive_user | Default_deny

record la_policy_decision =
  pd_requestId :: string
  pd_decision :: la_decision
  pd_grantedScope :: "string option"
  pd_policySource :: la_policy_source
  pd_decidedAt :: int

record la_result =
  lr_version :: int
  lr_requestId :: string
  lr_kind :: la_kind
  lr_identity :: la_identity
  lr_status :: la_state
  lr_safeData :: "(string \<times> json) list option"
  lr_safeReason :: "la_safe_reason option"
  lr_completedAt :: int

record la_snapshot =
  sn_request :: la_request
  sn_state :: la_state
  sn_decision :: "la_policy_decision option"
  sn_result :: "la_result option"

definition sameLocalActionIdentity :: "la_identity \<Rightarrow> la_identity \<Rightarrow> bool" where
  "sameLocalActionIdentity l r \<longleftrightarrow> id_userId l = id_userId r \<and> id_deviceId l = id_deviceId r \<and> id_machineId l = id_machineId r \<and>
     id_workspaceBindingId l = id_workspaceBindingId r \<and> id_workspaceBindingGeneration l = id_workspaceBindingGeneration r \<and>
     id_agentSessionId l = id_agentSessionId r \<and> id_processEpoch l = id_processEpoch r \<and> id_fencingGeneration l = id_fencingGeneration r"

lemma sameLocalActionIdentity_eq [simp]: "sameLocalActionIdentity l r \<longleftrightarrow> l = r"
  by (auto simp: sameLocalActionIdentity_def)

section \<open>Providers\<close>

definition common_actions :: "la_kind list" where
  "common_actions = [Browser_open, Clipboard_write, File_select, Attachment_import, Artifact_save, Port_forward, Preview_open, Diff_open,
     Editor_open, Notification_show, Git_sign, Local_service_request, Device_select]"

record la_provider_descriptor =
  pv_enabled :: bool
  pv_allowedActions :: "la_kind list"

fun local_action_providers :: "la_provider \<Rightarrow> la_provider_descriptor" where
  "local_action_providers Claude_code = \<lparr>pv_enabled = True, pv_allowedActions = common_actions @ [Auth_result_observe]\<rparr>"
| "local_action_providers Codex =
     \<lparr>pv_enabled = True, pv_allowedActions = common_actions @ [Auth_device_present, Auth_callback_relay, Auth_result_observe]\<rparr>"
| "local_action_providers Opencode = \<lparr>pv_enabled = True, pv_allowedActions = []\<rparr>"

definition providerAllowsLocalAction :: "la_provider \<Rightarrow> la_kind \<Rightarrow> bool" where
  "providerAllowsLocalAction p k \<longleftrightarrow> pv_enabled (local_action_providers p) \<and> k \<in> set (pv_allowedActions (local_action_providers p))"

section \<open>Policy\<close>

record la_policy_rule =
  pr_kind :: la_kind
  pr_providers :: "string list option"
  pr_scopes :: "string list option"
  pr_decision :: la_decision
  pr_userApproved :: "bool option"

record la_policy =
  po_project :: "la_policy_rule list"
  po_device :: "la_policy_rule list"

fun decision_priority :: "la_decision \<Rightarrow> nat" where
  "decision_priority Deny = 0"
| "decision_priority Ask = 1"
| "decision_priority Allow_once = 2"
| "decision_priority Allow_scoped = 3"

definition rule_matches :: "la_request \<Rightarrow> la_policy_rule \<Rightarrow> bool" where
  "rule_matches q r \<longleftrightarrow> pr_kind r = rq_kind q \<and>
     (case pr_providers r of None \<Rightarrow> True | Some ps \<Rightarrow> provider_text (rq_provider q) \<in> set ps) \<and>
     (case pr_scopes r of None \<Rightarrow> True | Some ss \<Rightarrow> rq_requestedScope q \<in> set ss)"

definition strongestMatchingRule :: "la_policy_rule list \<Rightarrow> la_request \<Rightarrow> la_policy_rule option" where
  "strongestMatchingRule rules q =
     (case sort_key (\<lambda>r. decision_priority (pr_decision r)) (filter (rule_matches q) rules) of [] \<Rightarrow> None | r # _ \<Rightarrow> Some r)"

definition policy_decision :: "string \<Rightarrow> la_decision \<Rightarrow> string option \<Rightarrow> la_policy_source \<Rightarrow> int \<Rightarrow> la_policy_decision" where
  "policy_decision i d scope source t =
     \<lparr>pd_requestId = i, pd_decision = d, pd_grantedScope = scope, pd_policySource = source, pd_decidedAt = t\<rparr>"

definition rule_denies :: "la_policy_rule option \<Rightarrow> bool" where
  "rule_denies r = (case r of None \<Rightarrow> False | Some r \<Rightarrow> pr_decision r = Deny)"

definition policy_evaluate :: "la_policy \<Rightarrow> la_request \<Rightarrow> int \<Rightarrow> la_policy_decision" where
  "policy_evaluate p q now =
     (if rule_denies (strongestMatchingRule (po_project p) q) then policy_decision (rq_id q) Deny None Project_request_ceiling now
      else if rule_denies (strongestMatchingRule (po_device p) q) then policy_decision (rq_id q) Deny None Local_device_policy now
      else policy_decision (rq_id q) Ask None Interactive_user now)"


section \<open>Single values\<close>

definition is_alnum :: "char \<Rightarrow> bool" where
  "is_alnum c \<longleftrightarrow> c \<in> set ''ABCDEFGHIJKLMNOPQRSTUVWXYZabcdefghijklmnopqrstuvwxyz0123456789''"

text \<open>\<^verbatim>\<open>/^[A-Za-z0-9._:@/-]{1,256}$/u\<close>.\<close>

definition identifier_text :: "string \<Rightarrow> bool" where
  "identifier_text s \<longleftrightarrow> 1 \<le> length s \<and> length s \<le> 256 \<and> list_all (\<lambda>c. is_alnum c \<or> c \<in> set ''._:@/-'') s"

text \<open>A string, \<^verbatim>\<open>typeof value === "string"\<close>, that satisfies a predicate.\<close>

fun json_text_ok :: "(string \<Rightarrow> bool) \<Rightarrow> json option \<Rightarrow> bool" where
  "json_text_ok P (Some (JStr s)) = P s"
| "json_text_ok P _ = False"

definition coerced_in :: "string list \<Rightarrow> json option \<Rightarrow> bool" where
  "coerced_in names v = (case js_string_of v of None \<Rightarrow> False | Some t \<Rightarrow> t \<in> set names)"

definition exactKeys :: "(string \<times> json) list \<Rightarrow> string list \<Rightarrow> string list \<Rightarrow> bool" where
  "exactKeys value required optional \<longleftrightarrow> list_all (\<lambda>k. map_of value k \<noteq> None) required \<and>
     list_all (\<lambda>(k, _). k \<in> set required \<or> k \<in> set optional) value"

definition bounded_text :: "nat \<Rightarrow> string \<Rightarrow> bool" where
  "bounded_text maximum s \<longleftrightarrow> 1 \<le> length s \<and> utf8_length s \<le> maximum \<and> CHR 0x00 \<notin> set s"

definition boundedString :: "json option \<Rightarrow> nat \<Rightarrow> bool" where
  "boundedString v maximum = json_text_ok (bounded_text maximum) v"

definition la_identifier :: "json option \<Rightarrow> bool" where
  "la_identifier v = json_text_ok identifier_text v"

definition la_digest :: "json option \<Rightarrow> bool" where
  "la_digest v = json_text_ok is_sha256_digest v"

definition boundedInteger :: "json option \<Rightarrow> int \<Rightarrow> int \<Rightarrow> bool" where
  "boundedInteger v minimum maximum = int_between minimum maximum v"

definition la_port :: "json option \<Rightarrow> bool \<Rightarrow> bool" where
  "la_port v allowZero = int_between (if allowZero then 0 else 1) 65535 v"

definition la_deadline :: "json option \<Rightarrow> la_request \<Rightarrow> bool" where
  "la_deadline v q = int_between (rq_createdAt q + 1) (rq_expiresAt q) v"

fun stringArray :: "json option \<Rightarrow> nat \<Rightarrow> nat \<Rightarrow> bool" where
  "stringArray (Some (JArr xs)) maximumItems maximumItemBytes =
     (length xs \<le> maximumItems \<and> list_all (\<lambda>x. boundedString (Some x) maximumItemBytes) xs)"
| "stringArray _ maximumItems maximumItemBytes = False"

definition fileName :: "json option \<Rightarrow> bool" where
  "fileName v = json_text_ok (\<lambda>s. bounded_text 255 s \<and> list_all (\<lambda>c. c \<notin> set ''/:*?<>|'' \<and> c \<noteq> CHR 0x5C \<and> c \<noteq> CHR 0x22) s \<and>
     s \<noteq> ''.'' \<and> s \<noteq> ''..'') v"

definition exactPath :: "json option \<Rightarrow> bool" where
  "exactPath v = json_text_ok (\<lambda>s. take 1 s = ''/'' \<and> length s \<le> 2048 \<and>
     list_all (\<lambda>c. c \<noteq> CHR 0x00 \<and> c \<noteq> CHR ''?'' \<and> c \<noteq> CHR ''#'' \<and> c \<noteq> CHR 0x5C) s \<and>
     list_all (\<lambda>p. p \<noteq> [] \<and> p \<noteq> ''.'' \<and> p \<noteq> ''..'') (tl (split_on (CHR ''/'') s))) v"

definition media_part :: "nat \<Rightarrow> string \<Rightarrow> bool" where
  "media_part maximum s \<longleftrightarrow> 1 \<le> length s \<and> length s \<le> maximum \<and>
     list_all (\<lambda>c. c \<in> set ''abcdefghijklmnopqrstuvwxyz0123456789'') (take 1 s) \<and>
     list_all (\<lambda>c. c \<in> set ''abcdefghijklmnopqrstuvwxyz0123456789!#$&^_.+-'') s"

text \<open>The type has at most 64 characters, the subtype at most 128.\<close>

definition mediaType :: "json option \<Rightarrow> bool" where
  "mediaType v = json_text_ok (\<lambda>s. case split_on (CHR ''/'') s of [p, q] \<Rightarrow> media_part 64 p \<and> media_part 128 q | _ \<Rightarrow> False) v"

fun extension_text :: "string \<Rightarrow> bool" where
  "extension_text (c # cs) = (c = CHR ''.'' \<and> cs \<noteq> [] \<and> list_all is_alnum cs)"
| "extension_text [] = False"

fun accept_filter :: "json \<Rightarrow> bool" where
  "accept_filter (JObj item) =
     (exactKeys item [] [''extension'', ''mediaType''] \<and>
      (map_of item ''extension'' = None \<or> json_text_ok (\<lambda>s. bounded_text 32 s \<and> extension_text s) (map_of item ''extension'')) \<and>
      (map_of item ''mediaType'' = None \<or> mediaType (map_of item ''mediaType'')) \<and>
      (map_of item ''extension'' \<noteq> None \<or> map_of item ''mediaType'' \<noteq> None))"
| "accept_filter _ = False"

fun acceptFilters :: "json option \<Rightarrow> bool" where
  "acceptFilters (Some (JArr xs)) = (length xs \<le> 32 \<and> list_all accept_filter xs)"
| "acceptFilters _ = False"

fun previewSource :: "json option \<Rightarrow> bool" where
  "previewSource (Some (JObj v)) =
     (if map_of v ''kind'' = Some (JStr ''artifact'')
      then exactKeys v [''kind'', ''opaqueId'', ''sha256''] [] \<and> la_identifier (map_of v ''opaqueId'') \<and> la_digest (map_of v ''sha256'')
      else if map_of v ''kind'' = Some (JStr ''private_forward'')
      then exactKeys v [''kind'', ''streamId''] [] \<and> la_identifier (map_of v ''streamId'')
      else False)"
| "previewSource _ = False"

fun digestPair :: "json option \<Rightarrow> bool" where
  "digestPair (Some (JArr [a, b])) = (la_digest (Some a) \<and> la_digest (Some b))"
| "digestPair _ = False"

fun enumArray :: "json option \<Rightarrow> string list \<Rightarrow> nat \<Rightarrow> bool" where
  "enumArray (Some (JArr xs)) allowed maximum = (length xs \<le> maximum \<and> distinct xs \<and> list_all (\<lambda>x. json_text_ok (\<lambda>s. s \<in> set allowed) (Some x)) xs)"
| "enumArray _ allowed maximum = False"

definition base64urlDigest :: "(byte list \<Rightarrow> string) \<Rightarrow> json option \<Rightarrow> json option \<Rightarrow> json option \<Rightarrow> int \<Rightarrow> bool" where
  "base64urlDigest sha encoded decodedLength expectedDigest maximumBytes =
     json_text_ok (\<lambda>e. list_all is_base64url_char e \<and> boundedInteger decodedLength 0 maximumBytes \<and> la_digest expectedDigest \<and>
       (let bytes = base64url_decode e in
        decodedLength = Some (JNum (JInt (int (length bytes)))) \<and> base64url_encode bytes = e \<and>
        expectedDigest = Some (JStr (''sha256:'' @ sha bytes)))) encoded"

text \<open>
  \<^verbatim>\<open>canonicalJson\<close> of the schemas: the properties of an object in the order of their code
  units, everything else as \<^verbatim>\<open>JSON.stringify\<close> prints it.
\<close>

fun canonical_json :: "json \<Rightarrow> string" where
  "canonical_json (JArr xs) = ''['' @ join_with '','' (map canonical_json xs) @ '']''"
| "canonical_json (JObj props) =
     ''{'' @ join_with '','' (map (\<lambda>(k, t). json_quote k @ '':'' @ t) (sort_key fst (map (\<lambda>(k, v). (k, canonical_json v)) props))) @ ''}''"
| "canonical_json v = json_stringify v"

definition encodedBody :: "(byte list \<Rightarrow> string) \<Rightarrow> json option \<Rightarrow> json option \<Rightarrow> json option \<Rightarrow> json option \<Rightarrow> int \<Rightarrow> bool" where
  "encodedBody sha encoding body decodedLength expectedDigest maximumBytes =
     (if encoding = Some (JStr ''base64url'') then base64urlDigest sha body decodedLength expectedDigest maximumBytes
      else case body of
        None \<Rightarrow> False
      | Some b \<Rightarrow> encoding = Some (JStr ''canonical_json'') \<and> boundedInteger decodedLength 0 maximumBytes \<and> la_digest expectedDigest \<and>
          (let bytes = utf8_bytes (canonical_json b) in
           decodedLength = Some (JNum (JInt (int (length bytes)))) \<and> expectedDigest = Some (JStr (''sha256:'' @ sha bytes))))"

section \<open>Schemas\<close>

definition workspaceScoped :: "la_kind \<Rightarrow> bool" where
  "workspaceScoped k \<longleftrightarrow> k \<in> {Attachment_import, Artifact_save, Preview_open, Diff_open, Editor_open, Git_sign}"

definition is_true :: "json option \<Rightarrow> bool" where
  "is_true v \<longleftrightarrow> v = Some (JBool True)"

fun is_boolean :: "json option \<Rightarrow> bool" where
  "is_boolean (Some (JBool b)) = True"
| "is_boolean _ = False"

definition one_of_texts :: "string list \<Rightarrow> json option \<Rightarrow> bool" where
  "one_of_texts names v = json_text_ok (\<lambda>s. s \<in> set names) v"

definition option_json :: "string option \<Rightarrow> json" where
  "option_json v = (case v of None \<Rightarrow> JNull | Some s \<Rightarrow> JStr s)"

definition option_number :: "int option \<Rightarrow> json" where
  "option_number v = (case v of None \<Rightarrow> JNull | Some i \<Rightarrow> JNum (JInt i))"

definition device_classes :: "string list" where
  "device_classes = [''serial'', ''usb'', ''camera'', ''microphone'']"

definition validateLocalActionArguments ::
  "(byte list \<Rightarrow> string) \<Rightarrow> (la_provider \<Rightarrow> string \<Rightarrow> bool) \<Rightarrow> la_request \<Rightarrow> bool" where
  "validateLocalActionArguments sha admit q \<longleftrightarrow>
     (workspaceScoped (rq_kind q) \<longrightarrow> id_workspaceBindingId (rq_identity q) \<noteq> None \<and> id_workspaceBindingGeneration (rq_identity q) \<noteq> None) \<and>
     (let args = rq_arguments q; get = map_of args in case rq_kind q of
        Browser_open \<Rightarrow> exactKeys args [''url''] [] \<and> rq_provider q \<noteq> Opencode \<and> json_text_ok (admit (rq_provider q)) (get ''url'')
      | Auth_device_present \<Rightarrow>
          rq_provider q = Codex \<and> exactKeys args [''verificationUri'', ''userCode''] [] \<and>
          json_text_ok (admit Codex) (get ''verificationUri'') \<and> boundedString (get ''userCode'') 256
      | Auth_callback_relay \<Rightarrow>
          exactKeys args [''provider'', ''localPath'', ''expectedStateDigest'', ''expectedNonceDigest'', ''exactLocalPort'', ''remoteLoopbackPort'', ''deadlineMs''] [] \<and>
          get ''provider'' = Some (JStr ''codex'') \<and> rq_provider q = Codex \<and> exactPath (get ''localPath'') \<and>
          la_digest (get ''expectedStateDigest'') \<and> la_digest (get ''expectedNonceDigest'') \<and> la_port (get ''exactLocalPort'') False \<and>
          la_port (get ''remoteLoopbackPort'') False \<and> la_deadline (get ''deadlineMs'') q
      | Auth_result_observe \<Rightarrow> exactKeys args [] []
      | Clipboard_write \<Rightarrow> exactKeys args [''text''] [] \<and> boundedString (get ''text'') 65536
      | Port_forward \<Rightarrow>
          exactKeys args [''remoteHost'', ''remotePort'', ''requestedLocalPort'', ''purpose'', ''deadlineMs''] [] \<and>
          one_of_texts [''127.0.0.1'', ''::1''] (get ''remoteHost'') \<and> la_port (get ''remotePort'') False \<and>
          la_port (get ''requestedLocalPort'') True \<and> coerced_in [''preview'', ''provider_callback'', ''registered_service''] (get ''purpose'') \<and>
          la_deadline (get ''deadlineMs'') q
      | File_select \<Rightarrow>
          exactKeys args [''purpose'', ''accept'', ''multiple'', ''maximumFiles'', ''maximumTotalBytes''] [] \<and>
          one_of_texts [''attachment'', ''workspace_import''] (get ''purpose'') \<and> is_boolean (get ''multiple'') \<and>
          acceptFilters (get ''accept'') \<and> boundedInteger (get ''maximumFiles'') 1 1000 \<and> boundedInteger (get ''maximumTotalBytes'') 1 1073741824
      | Attachment_import \<Rightarrow> exactKeys args [''opaqueId'', ''expectedSha256''] [] \<and> la_identifier (get ''opaqueId'') \<and> la_digest (get ''expectedSha256'')
      | Artifact_save \<Rightarrow>
          exactKeys args [''remoteArtifactId'', ''expectedSha256'', ''suggestedName'', ''maximumBytes''] [] \<and>
          la_identifier (get ''remoteArtifactId'') \<and> la_digest (get ''expectedSha256'') \<and> fileName (get ''suggestedName'') \<and>
          boundedInteger (get ''maximumBytes'') 1 1073741824
      | Preview_open \<Rightarrow> exactKeys args [''source'', ''mediaType''] [] \<and> previewSource (get ''source'') \<and> mediaType (get ''mediaType'')
      | Diff_open \<Rightarrow>
          exactKeys args [''leftArtifactId'', ''rightArtifactId'', ''expectedDigests''] [] \<and> la_identifier (get ''leftArtifactId'') \<and>
          la_identifier (get ''rightArtifactId'') \<and> digestPair (get ''expectedDigests'')
      | Editor_open \<Rightarrow>
          exactKeys args [''editor'', ''connectionDescriptorId'', ''workspaceBindingId'', ''workspaceBindingGeneration''] [] \<and>
          one_of_texts [''vscode'', ''cursor'', ''windsurf'', ''zed'', ''jetbrains-gateway''] (get ''editor'') \<and>
          la_identifier (get ''connectionDescriptorId'') \<and>
          get ''workspaceBindingId'' = Some (option_json (id_workspaceBindingId (rq_identity q))) \<and>
          get ''workspaceBindingGeneration'' = Some (option_number (id_workspaceBindingGeneration (rq_identity q)))
      | Notification_show \<Rightarrow>
          exactKeys args [''category'', ''title'', ''body'', ''focusRequestId''] [] \<and>
          coerced_in [''action_required'', ''task_complete'', ''task_failed''] (get ''category'') \<and> boundedString (get ''title'') 80 \<and>
          boundedString (get ''body'') 240 \<and> la_identifier (get ''focusRequestId'')
      | Git_sign \<Rightarrow>
          exactKeys args [''objectType'', ''canonicalPayloadBase64url'', ''decodedLength'', ''payloadSha256'', ''keySelectorId''] [] \<and>
          one_of_texts [''commit'', ''tag''] (get ''objectType'') \<and> la_identifier (get ''keySelectorId'') \<and>
          base64urlDigest sha (get ''canonicalPayloadBase64url'') (get ''decodedLength'') (get ''payloadSha256'') 65536
      | Local_service_request \<Rightarrow>
          exactKeys args [''registrationId'', ''operationId'', ''bodyEncoding'', ''body'', ''decodedLength'', ''bodySha256''] [] \<and>
          la_identifier (get ''registrationId'') \<and> la_identifier (get ''operationId'') \<and>
          one_of_texts [''canonical_json'', ''base64url''] (get ''bodyEncoding'') \<and>
          encodedBody sha (get ''bodyEncoding'') (get ''body'') (get ''decodedLength'') (get ''bodySha256'') 65536
      | Device_select \<Rightarrow>
          exactKeys args [''deviceClass'', ''purpose'', ''requestedMetadata''] [] \<and> coerced_in device_classes (get ''deviceClass'') \<and>
          boundedString (get ''purpose'') 160 \<and> enumArray (get ''requestedMetadata'') [''display_name'', ''class'', ''capabilities''] 3)"


text \<open>The safe reason is one of the datatype's, so the check against the set of reasons always passes.\<close>

definition result_data_ok :: "(byte list \<Rightarrow> string) \<Rightarrow> la_kind \<Rightarrow> (string \<times> json) list \<Rightarrow> bool" where
  "result_data_ok sha k data \<longleftrightarrow>
     (let get = map_of data in case k of
        Browser_open \<Rightarrow> exactKeys data [''awaitingProvider''] [] \<and> is_true (get ''awaitingProvider'')
      | Auth_device_present \<Rightarrow> exactKeys data [''awaitingProvider''] [] \<and> is_true (get ''awaitingProvider'')
      | Auth_callback_relay \<Rightarrow> exactKeys data [''awaitingProvider''] [] \<and> is_true (get ''awaitingProvider'')
      | Auth_result_observe \<Rightarrow> exactKeys data [''authenticated''] [] \<and> is_boolean (get ''authenticated'')
      | Clipboard_write \<Rightarrow> exactKeys data [''written''] [] \<and> is_true (get ''written'')
      | Port_forward \<Rightarrow>
          exactKeys data [''localHost'', ''localPort'', ''expiresAt'', ''streamId''] [] \<and> one_of_texts [''127.0.0.1'', ''::1''] (get ''localHost'') \<and>
          la_port (get ''localPort'') False \<and> json_int (get ''expiresAt'') \<noteq> None \<and> la_identifier (get ''streamId'')
      | File_select \<Rightarrow> exactKeys data [''selectionId'', ''count''] [] \<and> la_identifier (get ''selectionId'') \<and> boundedInteger (get ''count'') 1 1000
      | Attachment_import \<Rightarrow> exactKeys data [''opaqueArtifactId'', ''digest''] [] \<and> la_identifier (get ''opaqueArtifactId'') \<and> la_digest (get ''digest'')
      | Git_sign \<Rightarrow>
          exactKeys data [''signatureBase64url'', ''decodedLength'', ''signatureSha256'', ''algorithm'', ''publicKeyFingerprint''] [] \<and>
          base64urlDigest sha (get ''signatureBase64url'') (get ''decodedLength'') (get ''signatureSha256'') 65536 \<and>
          boundedString (get ''algorithm'') 64 \<and> boundedString (get ''publicKeyFingerprint'') 256
      | Local_service_request \<Rightarrow>
          exactKeys data [''outcome'', ''bodyEncoding'', ''body'', ''decodedLength'', ''bodySha256''] [] \<and>
          coerced_in [''ok'', ''service_error'', ''timeout''] (get ''outcome'') \<and> one_of_texts [''canonical_json'', ''base64url''] (get ''bodyEncoding'') \<and>
          encodedBody sha (get ''bodyEncoding'') (get ''body'') (get ''decodedLength'') (get ''bodySha256'') 65536
      | Device_select \<Rightarrow>
          exactKeys data [''opaqueDeviceId'', ''displayName'', ''deviceClass'', ''capabilities''] [] \<and> la_identifier (get ''opaqueDeviceId'') \<and>
          boundedString (get ''displayName'') 160 \<and> coerced_in device_classes (get ''deviceClass'') \<and> stringArray (get ''capabilities'') 32 128
      | _ \<Rightarrow> exactKeys data [''completed''] [] \<and> is_true (get ''completed''))"

definition validateLocalActionResult ::
  "(byte list \<Rightarrow> string) \<Rightarrow> la_request \<Rightarrow> la_state \<Rightarrow> (string \<times> json) list option \<Rightarrow> la_safe_reason option \<Rightarrow> bool" where
  "validateLocalActionResult sha q status safeData safeReason \<longleftrightarrow>
     (if status \<noteq> Succeeded then safeData = None
      else case safeData of None \<Rightarrow> False | Some data \<Rightarrow> result_data_ok sha (rq_kind q) data)"

section \<open>The policy file\<close>

text \<open>The names that \<^verbatim>\<open>in\<close> finds on every object besides its own properties.\<close>

definition object_prototype_names :: "string list" where
  "object_prototype_names = [''constructor'', ''__defineGetter__'', ''__defineSetter__'', ''hasOwnProperty'', ''__lookupGetter__'',
     ''__lookupSetter__'', ''isPrototypeOf'', ''propertyIsEnumerable'', ''toString'', ''valueOf'', ''__proto__'', ''toLocaleString'']"

text \<open>\<^verbatim>\<open>[...new Set(values)]\<close>: the first occurrence of each value.\<close>

definition js_unique :: "'a list \<Rightarrow> 'a list" where
  "js_unique xs = rev (remdups (rev xs))"

fun text_list :: "json \<Rightarrow> string list option" where
  "text_list (JArr xs) = those (map (\<lambda>x. case x of JStr s \<Rightarrow> Some s | _ \<Rightarrow> None) xs)"
| "text_list _ = None"

definition parseProviders :: "json \<Rightarrow> string list option" where
  "parseProviders v =
     (case text_list v of
        None \<Rightarrow> None
      | Some ts \<Rightarrow>
          if length ts < 1 \<or> length ts > 3 \<or>
             \<not> list_all (\<lambda>t. t \<in> set (map provider_text [Claude_code, Codex, Opencode]) \<or> t \<in> set object_prototype_names) ts
          then None else Some (js_unique ts))"

definition parseScopes :: "json \<Rightarrow> string list option" where
  "parseScopes v =
     (case text_list v of
        None \<Rightarrow> None
      | Some ts \<Rightarrow> if length ts < 1 \<or> length ts > 32 \<or> \<not> list_all identifier_text ts then None else Some (js_unique ts))"

definition kind_of_text :: "string \<Rightarrow> la_kind option" where
  "kind_of_text t = map_of (map (\<lambda>k. (kind_text k, k)) all_kinds) t"

definition optional_list :: "json option \<Rightarrow> (json \<Rightarrow> string list option) \<Rightarrow> string list option option" where
  "optional_list v parse = (case v of None \<Rightarrow> Some None | Some j \<Rightarrow> map_option Some (parse j))"

fun parseRule :: "json \<Rightarrow> la_policy_rule option" where
  "parseRule (JObj v) =
     (case (map_of v ''kind'', map_of v ''decision'') of
        (Some (JStr kt), Some (JStr dt)) \<Rightarrow>
          (case (kind_of_text kt, map_of [(''deny'', Deny), (''ask'', Ask)] dt,
                 optional_list (map_of v ''providers'') parseProviders, optional_list (map_of v ''scopes'') parseScopes) of
             (Some k, Some d, Some ps, Some ss) \<Rightarrow>
               if list_all (\<lambda>(key, _). key \<in> set [''kind'', ''providers'', ''scopes'', ''decision'', ''userApproved'']) v \<and>
                  map_of v ''userApproved'' = None
               then Some \<lparr>pr_kind = k, pr_providers = ps, pr_scopes = ss, pr_decision = d, pr_userApproved = None\<rparr> else None
           | _ \<Rightarrow> None)
      | _ \<Rightarrow> None)"
| "parseRule _ = None"

text \<open>\<open>parse\<close> is \<^verbatim>\<open>JSON.parse\<close>; the result is the policy the broker starts with.\<close>

definition parseLocalActionDevicePolicy :: "(string \<Rightarrow> json option) \<Rightarrow> string \<Rightarrow> la_policy option" where
  "parseLocalActionDevicePolicy parse txt =
     (case parse txt of
        Some (JObj v) \<Rightarrow>
          (case map_of v ''rules'' of
             Some (JArr rules) \<Rightarrow>
               if map_of v ''version'' \<noteq> Some (JNum (JInt 1)) \<or> \<not> list_all (\<lambda>(k, _). k = ''version'' \<or> k = ''rules'') v \<or> length rules > 128
               then None
               else map_option (\<lambda>rs. \<lparr>po_project = [], po_device = rs\<rparr>) (those (map parseRule rules))
           | _ \<Rightarrow> None)
      | _ \<Rightarrow> None)"

definition loadLocalActionDevicePolicy :: "(string \<Rightarrow> json option) \<Rightarrow> string option \<Rightarrow> la_policy option" where
  "loadLocalActionDevicePolicy parse file_text =
     (case file_text of None \<Rightarrow> Some \<lparr>po_project = [], po_device = []\<rparr> | Some t \<Rightarrow> parseLocalActionDevicePolicy parse t)"

section \<open>Facts\<close>

lemma strongest_denies:
  "rule_denies (strongestMatchingRule rules q) \<longleftrightarrow> (\<exists>r \<in> set rules. rule_matches q r \<and> pr_decision r = Deny)"
proof -
  let ?key = "\<lambda>r. decision_priority (pr_decision r)" and ?ms = "filter (rule_matches q) rules"
  have zero: "decision_priority d = 0 \<longleftrightarrow> d = Deny" for d by (cases d) simp_all
  show ?thesis
  proof (cases "sort_key ?key ?ms")
    case Nil
    then have "?ms = []" by (metis length_0_conv length_sort)
    with Nil show ?thesis by (auto simp: strongestMatchingRule_def rule_denies_def filter_empty_conv)
  next
    case (Cons r rs)
    then have set: "set ?ms = insert r (set rs)" by (metis list.simps(15) set_sort)
    have "\<forall>x \<in> set rs. ?key r \<le> ?key x" using sorted_sort_key [of ?key ?ms] Cons by simp
    then have "pr_decision r = Deny \<longleftrightarrow> (\<exists>x \<in> set ?ms. pr_decision x = Deny)" unfolding set using zero by force
    then show ?thesis using Cons by (auto simp: strongestMatchingRule_def rule_denies_def)
  qed
qed

lemma policy_never_allows: "pd_decision (policy_evaluate p q now) \<in> {Deny, Ask}"
  by (simp add: policy_evaluate_def policy_decision_def)

section \<open>Properties\<close>

text \<open>
  Policy can only restrict. The policy denies a request exactly when some rule of the
  project or of the device that matches its kind, provider and scope denies it, wherever
  the rule stands and whatever other rules say; in every other case the user is asked. No
  policy, also none that a policy file can contain, ever allows a request by itself.
\<close>

theorem policy_only_restricts:
  "pd_decision (policy_evaluate p q now) =
     (if \<exists>r \<in> set (po_project p @ po_device p). rule_matches q r \<and> pr_decision r = Deny then Deny else Ask)"
  by (auto simp: policy_evaluate_def policy_decision_def strongest_denies)

end
