(* ===== verification/Local_Action_Broker.thy ===== *)
theory Local_Action_Broker
  imports Local_Actions
begin

text \<open>
  The broker of local actions, \<^verbatim>\<open>src/local-actions/broker.ts\<close>: admission of requests with
  their replay registry, the queue of which only the head is presented to the user, the
  user's decision, completion, expiry and cancellation. The clock and the liveness of an
  identity are read from the outside: the \<open>n\<close>-th reading of either is an argument of the
  configuration and the broker counts its readings. Observers (\<^verbatim>\<open>onChange\<close>) are not modelled.
  A request is a well-typed value, so the checks of its shape pass.
\<close>

section \<open>State\<close>

datatype broker_error_code =
  BE_duplicate_request | BE_replayed_nonce | BE_replay_registry_full | BE_queue_full | BE_unknown_request | BE_identity_mismatch
  | BE_stale_identity | BE_scope_widening | BE_illegal_transition | BE_invalid_request | BE_invalid_result | BE_provider_action_unavailable
  | BE_type_error

type_synonym broker_error = "broker_error_code \<times> string"

record broker_config =
  bc_policy :: la_policy
  bc_maximum :: int
  bc_clock :: "nat \<Rightarrow> int"
  bc_live :: "nat \<Rightarrow> la_identity \<Rightarrow> bool"
  bc_sha :: "byte list \<Rightarrow> string"
  bc_admit :: "la_provider \<Rightarrow> string \<Rightarrow> bool"

record la_broker =
  lb_requests :: "(string, la_snapshot) js_map"
  lb_queue :: "string list"
  lb_nonces :: "(string, string) js_map"
  lb_nonceExpiry :: "(string, int) js_map"
  lb_terminalOrder :: "string list"
  lb_reads :: nat

definition broker_config_ok :: "broker_config \<Rightarrow> bool" where
  "broker_config_ok c \<longleftrightarrow> is_safe_integer (bc_maximum c) \<and> 1 \<le> bc_maximum c \<and> bc_maximum c \<le> max_local_action_queue"

definition broker_new :: la_broker where
  "broker_new = \<lparr>lb_requests = [], lb_queue = [], lb_nonces = [], lb_nonceExpiry = [], lb_terminalOrder = [], lb_reads = 0\<rparr>"

definition read_clock :: "broker_config \<Rightarrow> la_broker \<Rightarrow> int \<times> la_broker" where
  "read_clock c b = (bc_clock c (lb_reads b), b\<lparr>lb_reads := Suc (lb_reads b)\<rparr>)"

definition read_live :: "broker_config \<Rightarrow> la_identity \<Rightarrow> la_broker \<Rightarrow> bool \<times> la_broker" where
  "read_live c i b = (bc_live c (lb_reads b) i, b\<lparr>lb_reads := Suc (lb_reads b)\<rparr>)"

fun terminal_state :: "la_state \<Rightarrow> bool" where
  "terminal_state s = (s \<in> {Succeeded, Failed, Denied, Expired, Cancelled})"

declare terminal_state.simps [simp del]

definition freezeSnapshot :: "la_request \<Rightarrow> la_state \<Rightarrow> la_policy_decision option \<Rightarrow> la_result option \<Rightarrow> la_snapshot" where
  "freezeSnapshot q s d r = \<lparr>sn_request = q, sn_state = s, sn_decision = d, sn_result = r\<rparr>"

section \<open>Validation of requests\<close>

text \<open>\<^verbatim>\<open>canonicalJson\<close> of the broker; \<open>None\<close> is the \<^verbatim>\<open>TypeError\<close> for a number that is not finite.\<close>

fun canonicalJson :: "json \<Rightarrow> string option" where
  "canonicalJson (JNum n) = (if number_text n \<in> {''NaN'', ''Infinity'', ''-Infinity''} then None else Some (json_stringify (JNum n)))"
| "canonicalJson (JArr xs) = map_option (\<lambda>ts. ''['' @ join_with '','' ts @ '']'') (those (map canonicalJson xs))"
| "canonicalJson (JObj props) =
     map_option (\<lambda>ts. ''{'' @ join_with '','' (map (\<lambda>(k, t). json_quote k @ '':'' @ t) (sort_key fst ts)) @ ''}'')
       (those (map (\<lambda>(k, v). map_option (Pair k) (canonicalJson v)) props))"
| "canonicalJson v = Some (json_stringify v)"

definition digestLocalActionArguments :: "(byte list \<Rightarrow> string) \<Rightarrow> (string \<times> json) list \<Rightarrow> string option" where
  "digestLocalActionArguments sha args = map_option (\<lambda>t. ''sha256:'' @ sha (utf8_bytes t)) (canonicalJson (JObj args))"

definition identity_json :: "la_identity \<Rightarrow> json" where
  "identity_json i = JObj [(''userId'', JStr (id_userId i)), (''deviceId'', JStr (id_deviceId i)), (''machineId'', JStr (id_machineId i)),
     (''workspaceBindingId'', option_json (id_workspaceBindingId i)),
     (''workspaceBindingGeneration'', option_number (id_workspaceBindingGeneration i)),
     (''agentSessionId'', JStr (id_agentSessionId i)), (''processEpoch'', JStr (id_processEpoch i)),
     (''fencingGeneration'', JNum (JInt (id_fencingGeneration i)))]"

definition identityKey :: "(byte list \<Rightarrow> string) \<Rightarrow> la_identity \<Rightarrow> string" where
  "identityKey sha i = sha (utf8_bytes (the (canonicalJson (identity_json i))))"

definition request_identity_ok :: "la_identity \<Rightarrow> bool" where
  "request_identity_ok i \<longleftrightarrow> identifier_text (id_userId i) \<and> identifier_text (id_deviceId i) \<and> identifier_text (id_machineId i) \<and>
     (case id_workspaceBindingId i of None \<Rightarrow> True | Some w \<Rightarrow> identifier_text w) \<and>
     identifier_text (id_agentSessionId i) \<and> identifier_text (id_processEpoch i) \<and>
     is_safe_integer (id_fencingGeneration i) \<and> 1 \<le> id_fencingGeneration i \<and>
     (id_workspaceBindingId i = None) = (id_workspaceBindingGeneration i = None) \<and>
     (case id_workspaceBindingGeneration i of None \<Rightarrow> True | Some g \<Rightarrow> is_safe_integer g \<and> 1 \<le> g)"

definition validateRequest :: "(byte list \<Rightarrow> string) \<Rightarrow> la_request \<Rightarrow> int \<Rightarrow> broker_error + unit" where
  "validateRequest sha q now =
     (case canonicalJson (JObj (rq_arguments q)) of
        None \<Rightarrow> Inl (BE_type_error, rq_id q)
      | Some encoded \<Rightarrow>
          if rq_version q = local_action_protocol_version \<and> identifier_text (rq_id q) \<and> request_identity_ok (rq_identity q) \<and>
             identifier_text (rq_requestedScope q) \<and> identifier_text (rq_nonce q) \<and>
             is_safe_integer (rq_createdAt q) \<and> is_safe_integer (rq_expiresAt q) \<and> rq_createdAt q < rq_expiresAt q \<and> now < rq_expiresAt q \<and>
             rq_createdAt q \<le> now + max_local_action_future_skew_ms \<and>
             rq_expiresAt q - rq_createdAt q \<le> max_local_action_ttl_ms \<and> utf8_length encoded \<le> max_local_action_argument_bytes \<and>
             is_sha256_digest (rq_argumentsDigest q) \<and> digestLocalActionArguments sha (rq_arguments q) = Some (rq_argumentsDigest q)
          then Inr () else Inl (BE_invalid_request, rq_id q))"

definition sameRequest :: "la_request \<Rightarrow> la_request \<Rightarrow> bool" where
  "sameRequest l r \<longleftrightarrow> rq_id l = rq_id r \<and> rq_kind l = rq_kind r \<and> rq_provider l = rq_provider r \<and>
     rq_argumentsDigest l = rq_argumentsDigest r \<and> rq_nonce l = rq_nonce r \<and> rq_requestedScope l = rq_requestedScope r \<and>
     rq_createdAt l = rq_createdAt r \<and> rq_expiresAt l = rq_expiresAt r \<and> sameLocalActionIdentity (rq_identity l) (rq_identity r)"

section \<open>Queue and history\<close>

definition broker_dequeue :: "string \<Rightarrow> la_broker \<Rightarrow> la_broker" where
  "broker_dequeue i b = b\<lparr>lb_queue := remove1 i (lb_queue b)\<rparr>"

text \<open>Every call adds one entry to a history of at most 128, so the loop evicts at most one.\<close>

fun evict_history :: "string list \<Rightarrow> (string, la_snapshot) js_map \<Rightarrow> string list \<times> (string, la_snapshot) js_map" where
  "evict_history ids m =
     (if length ids > max_local_action_history then evict_history (tl ids) (AList.delete (hd ids) m) else (ids, m))"

declare evict_history.simps [simp del]

definition recordTerminal :: "string \<Rightarrow> la_broker \<Rightarrow> la_broker" where
  "recordTerminal i b =
     (let (ids, m) = evict_history (lb_terminalOrder b @ [i]) (lb_requests b) in b\<lparr>lb_terminalOrder := ids, lb_requests := m\<rparr>)"

definition broker_prune :: "int \<Rightarrow> la_broker \<Rightarrow> la_broker" where
  "broker_prune now b =
     (let gone = map fst (filter (\<lambda>(_, e). e \<le> now) (lb_nonceExpiry b)) in
      b\<lparr>lb_nonceExpiry := filter (\<lambda>(k, _). k \<notin> set gone) (lb_nonceExpiry b),
        lb_nonces := filter (\<lambda>(k, _). k \<notin> set gone) (lb_nonces b)\<rparr>)"

section \<open>Finishing and presenting\<close>

text \<open>
  The part of \<^verbatim>\<open>#finish\<close> (and of \<^verbatim>\<open>complete\<close>) that settles an open request: its result, the
  new snapshot, the queue and the history.
\<close>

definition settle ::
  "broker_config \<Rightarrow> string \<Rightarrow> la_snapshot \<Rightarrow> la_state \<Rightarrow> la_policy_decision option \<Rightarrow> (string \<times> json) list option \<Rightarrow> la_safe_reason option
   \<Rightarrow> la_broker \<Rightarrow> la_snapshot \<times> la_broker" where
  "settle c i s status dec data reason b =
     (let (t, b1) = read_clock c b;
          res = \<lparr>lr_version = local_action_protocol_version, lr_requestId = i, lr_kind = rq_kind (sn_request s),
                 lr_identity = rq_identity (sn_request s), lr_status = status, lr_safeData = data, lr_safeReason = reason, lr_completedAt = t\<rparr>;
          next = freezeSnapshot (sn_request s) status dec (Some res)
      in (next, recordTerminal i (broker_dequeue i (b1\<lparr>lb_requests := map_set i next (lb_requests b1)\<rparr>))))"

text \<open>
  \<^verbatim>\<open>#activateHead\<close>. It calls itself, through \<^verbatim>\<open>#finish\<close> too, only after the head has left the
  queue, so fuel for one more call than the queue is long is enough.
\<close>

fun activate :: "broker_config \<Rightarrow> nat \<Rightarrow> la_broker \<Rightarrow> (broker_error + la_snapshot option) \<times> la_broker" where
  "activate c 0 b = (Inr None, b)"
| "activate c (Suc n) b =
     (case lb_queue b of
        [] \<Rightarrow> (Inr None, b)
      | i # _ \<Rightarrow>
          (case map_get (lb_requests b) i of
             None \<Rightarrow> (Inl (BE_unknown_request, i), b)
           | Some s \<Rightarrow>
               if sn_state s \<noteq> Validated then (Inr (Some s), b)
               else let (live, b1) = read_live c (rq_identity (sn_request s)) b in
                 if \<not> live then
                   (let (_, b2) = settle c i s Cancelled (sn_decision s) None (Some R_stale_identity) b1 in
                    case activate c n b2 of
                      (Inl e, b3) \<Rightarrow> (Inl e, b3)
                    | (Inr _, b3) \<Rightarrow> (Inr (case lb_queue b3 of [] \<Rightarrow> None | j # _ \<Rightarrow> map_get (lb_requests b3) j), b3))
                 else
                   let (t, b2) = read_clock c b1; policy = policy_evaluate (bc_policy c) (sn_request s) t in
                   if pd_decision policy = Deny then
                     (let (_, b3) = settle c i s Denied (Some policy) None (Some R_denied_by_policy) b2 in
                      case activate c n b3 of
                        (Inl e, b4) \<Rightarrow> (Inl e, b4)
                      | (Inr _, b4) \<Rightarrow> activate c n b4)
                   else
                     let next = freezeSnapshot (sn_request s) (if pd_decision policy = Ask then Pending_user else Executing) (Some policy) None
                     in (Inr (Some next), b2\<lparr>lb_requests := map_set i next (lb_requests b2)\<rparr>)))"

definition activateHead :: "broker_config \<Rightarrow> la_broker \<Rightarrow> (broker_error + la_snapshot option) \<times> la_broker" where
  "activateHead c b = activate c (Suc (length (lb_queue b))) b"

definition then_activate :: "broker_config \<Rightarrow> la_snapshot \<times> la_broker \<Rightarrow> (broker_error + la_snapshot) \<times> la_broker" where
  "then_activate c r = (case activateHead c (snd r) of (Inl e, b) \<Rightarrow> (Inl e, b) | (Inr _, b) \<Rightarrow> (Inr (fst r), b))"

definition broker_finish ::
  "broker_config \<Rightarrow> string \<Rightarrow> la_state \<Rightarrow> la_policy_decision option \<Rightarrow> la_safe_reason option \<Rightarrow> la_broker
   \<Rightarrow> (broker_error + la_snapshot) \<times> la_broker" where
  "broker_finish c i status dec reason b =
     (case map_get (lb_requests b) i of
        None \<Rightarrow> (Inl (BE_unknown_request, i), b)
      | Some s \<Rightarrow>
          if terminal_state (sn_state s) then (Inr s, b)
          else then_activate c (settle c i s status (case dec of None \<Rightarrow> sn_decision s | Some d \<Rightarrow> Some d) None reason b))"


section \<open>Operations\<close>

definition admit_request :: "broker_config \<Rightarrow> la_request \<Rightarrow> la_broker \<Rightarrow> (broker_error + la_snapshot) \<times> la_broker" where
  "admit_request c q b =
     (let key = identityKey (bc_sha c) (rq_identity q) @ '':'' @ rq_nonce q in
      if \<not> providerAllowsLocalAction (rq_provider q) (rq_kind q) then (Inl (BE_provider_action_unavailable, rq_id q), b)
      else if \<not> validateLocalActionArguments (bc_sha c) (bc_admit c) q then (Inl (BE_invalid_request, rq_id q), b)
      else if map_get (lb_nonces b) key \<noteq> None then (Inl (BE_replayed_nonce, rq_id q), b)
      else if length (lb_nonces b) \<ge> max_local_action_replay_entries then (Inl (BE_replay_registry_full, rq_id q), b)
      else if int (length (lb_queue b)) \<ge> bc_maximum c then (Inl (BE_queue_full, rq_id q), b)
      else
        let snapshot = freezeSnapshot q Validated None None;
            b1 = b\<lparr>lb_nonces := map_set key (rq_id q) (lb_nonces b), lb_nonceExpiry := map_set key (rq_expiresAt q) (lb_nonceExpiry b),
                   lb_requests := map_set (rq_id q) snapshot (lb_requests b)\<rparr>;
            (t, b2) = read_clock c b1;
            initialPolicy = policy_evaluate (bc_policy c) q t
        in if pd_decision initialPolicy = Deny then broker_finish c (rq_id q) Denied (Some initialPolicy) (Some R_denied_by_policy) b2
           else let b3 = b2\<lparr>lb_queue := lb_queue b2 @ [rq_id q]\<rparr> in
             if hd (lb_queue b3) = rq_id q
             then (case activateHead c b3 of
                     (Inl e, b4) \<Rightarrow> (Inl e, b4)
                   | (Inr a, b4) \<Rightarrow> (Inr (case a of None \<Rightarrow> snapshot | Some s \<Rightarrow> s), b4))
             else (Inr snapshot, b3))"

definition broker_submit :: "broker_config \<Rightarrow> la_request \<Rightarrow> la_broker \<Rightarrow> (broker_error + la_snapshot) \<times> la_broker" where
  "broker_submit c q b =
     (let (now, b1) = read_clock c b; b2 = broker_prune now b1 in
      case validateRequest (bc_sha c) q now of
        Inl e \<Rightarrow> (Inl e, b2)
      | Inr _ \<Rightarrow>
          let (live, b3) = read_live c (rq_identity q) b2 in
          if \<not> live then (Inl (BE_stale_identity, rq_id q), b3)
          else case map_get (lb_requests b3) (rq_id q) of
            Some existing \<Rightarrow>
              if sameRequest (sn_request existing) q then (Inr existing, b3) else (Inl (BE_duplicate_request, rq_id q), b3)
          | None \<Rightarrow> admit_request c q b3)"

definition broker_transition ::
  "string \<Rightarrow> la_state \<Rightarrow> la_policy_decision option \<Rightarrow> la_broker \<Rightarrow> (broker_error + la_snapshot) \<times> la_broker" where
  "broker_transition i state dec b =
     (case map_get (lb_requests b) i of
        None \<Rightarrow> (Inl (BE_unknown_request, i), b)
      | Some s \<Rightarrow>
          if sn_state s \<notin> (if state = Executing then {Pending_user, Validated} else {Executing})
          then (Inl (BE_illegal_transition, i), b)
          else let next = freezeSnapshot (sn_request s) state (case dec of None \<Rightarrow> sn_decision s | Some d \<Rightarrow> Some d) None
               in (Inr next, b\<lparr>lb_requests := map_set i next (lb_requests b)\<rparr>))"

definition broker_decide :: "broker_config \<Rightarrow> string \<Rightarrow> bool \<Rightarrow> string option \<Rightarrow> la_broker \<Rightarrow> (broker_error + la_snapshot) \<times> la_broker" where
  "broker_decide c i allow grantedScope b =
     (case map_get (lb_requests b) i of
        None \<Rightarrow> (Inl (BE_unknown_request, i), b)
      | Some s \<Rightarrow>
          if sn_state s \<noteq> Pending_user then (Inl (BE_illegal_transition, i), b)
          else if lb_queue b = [] \<or> hd (lb_queue b) \<noteq> i then (Inl (BE_illegal_transition, i), b)
          else let (live, b1) = read_live c (rq_identity (sn_request s)) b in
            if \<not> live then (Inl (BE_stale_identity, i), b1)
            else let (now, b2) = read_clock c b1 in
              if now \<ge> rq_expiresAt (sn_request s) then broker_finish c i Expired None (Some R_request_expired) b2
              else if allow \<and> grantedScope \<noteq> None \<and> grantedScope \<noteq> Some (rq_requestedScope (sn_request s))
              then (Inl (BE_scope_widening, i), b2)
              else let policy = policy_decision i (if allow then Allow_once else Deny)
                         (if allow then Some (rq_requestedScope (sn_request s)) else None) Interactive_user now
                   in if \<not> allow then broker_finish c i Denied (Some policy) (Some R_denied_by_user) b2
                      else broker_transition i Executing (Some policy) b2)"

definition awaitingRemoteCompletion :: "broker_config \<Rightarrow> string \<Rightarrow> la_broker \<Rightarrow> (broker_error + la_snapshot) \<times> la_broker" where
  "awaitingRemoteCompletion c i b =
     (case map_get (lb_requests b) i of
        None \<Rightarrow> (Inl (BE_unknown_request, i), b)
      | Some s \<Rightarrow>
          let (now, b1) = read_clock c b in
          if now \<ge> rq_expiresAt (sn_request s) then broker_finish c i Expired None (Some R_request_expired) b1
          else let (live, b2) = read_live c (rq_identity (sn_request s)) b1 in
            if \<not> live then (Inl (BE_stale_identity, i), b2)
            else broker_transition i Awaiting_remote_completion None b2)"

definition broker_complete ::
  "broker_config \<Rightarrow> string \<Rightarrow> la_identity \<Rightarrow> la_state \<Rightarrow> (string \<times> json) list option \<Rightarrow> la_safe_reason option \<Rightarrow> la_broker
   \<Rightarrow> (broker_error + la_snapshot) \<times> la_broker" where
  "broker_complete c i identity status safeData safeReason b =
     (case map_get (lb_requests b) i of
        None \<Rightarrow> (Inl (BE_unknown_request, i), b)
      | Some s \<Rightarrow>
          if \<not> sameLocalActionIdentity (rq_identity (sn_request s)) identity then (Inl (BE_identity_mismatch, i), b)
          else if terminal_state (sn_state s) then (Inr s, b)
          else let (now, b1) = read_clock c b in
            if now \<ge> rq_expiresAt (sn_request s) then broker_finish c i Expired None (Some R_request_expired) b1
            else let (live, b2) = read_live c identity b1 in
              if \<not> live then (Inl (BE_stale_identity, i), b2)
              else if status \<notin> {Succeeded, Failed, Cancelled} \<or>
                (status \<noteq> Cancelled \<and> sn_state s \<noteq> Executing \<and> sn_state s \<noteq> Awaiting_remote_completion)
              then (Inl (BE_illegal_transition, i), b2)
              else case map_option (\<lambda>d. canonicalJson (JObj d)) safeData of
                Some None \<Rightarrow> (Inl (BE_type_error, i), b2)
              | encoded \<Rightarrow>
                  if (case encoded of Some (Some t) \<Rightarrow> utf8_length t > max_local_action_argument_bytes | _ \<Rightarrow> False) \<or>
                     \<not> validateLocalActionResult (bc_sha c) (sn_request s) status safeData safeReason
                  then (Inl (BE_invalid_result, i), b2)
                  else then_activate c (settle c i s status (sn_decision s) safeData safeReason b2))"

text \<open>
  A loop over the requests that finishes some of them: it visits the keys in their order
  and reads the snapshot of each when it gets there; an evicted one is passed over.
\<close>

fun finish_each ::
  "broker_config \<Rightarrow> (la_snapshot \<Rightarrow> bool) \<Rightarrow> la_state \<Rightarrow> la_safe_reason \<Rightarrow> string list \<Rightarrow> la_broker
   \<Rightarrow> (broker_error + la_snapshot list) \<times> la_broker" where
  "finish_each c P status reason [] b = (Inr [], b)"
| "finish_each c P status reason (i # is) b =
     (case map_get (lb_requests b) i of
        None \<Rightarrow> finish_each c P status reason is b
      | Some s \<Rightarrow>
          if terminal_state (sn_state s) \<or> \<not> P s then finish_each c P status reason is b
          else case broker_finish c i status None (Some reason) b of
            (Inl e, b1) \<Rightarrow> (Inl e, b1)
          | (Inr r, b1) \<Rightarrow>
              (case finish_each c P status reason is b1 of
                 (Inl e, b2) \<Rightarrow> (Inl e, b2)
               | (Inr rs, b2) \<Rightarrow> (Inr (r # rs), b2)))"

definition cancelBinding :: "broker_config \<Rightarrow> la_identity \<Rightarrow> la_safe_reason \<Rightarrow> la_broker \<Rightarrow> (broker_error + la_snapshot list) \<times> la_broker" where
  "cancelBinding c identity reason b =
     finish_each c (\<lambda>s. sameLocalActionIdentity (rq_identity (sn_request s)) identity) Cancelled reason (map fst (lb_requests b)) b"

definition cancelStaleForIdentity ::
  "broker_config \<Rightarrow> la_identity \<Rightarrow> la_safe_reason \<Rightarrow> la_broker \<Rightarrow> (broker_error + la_snapshot list) \<times> la_broker" where
  "cancelStaleForIdentity c identity reason b =
     finish_each c (\<lambda>s. id_agentSessionId (rq_identity (sn_request s)) = id_agentSessionId identity \<and>
       \<not> sameLocalActionIdentity (rq_identity (sn_request s)) identity) Cancelled reason (map fst (lb_requests b)) b"

definition broker_expire :: "broker_config \<Rightarrow> la_broker \<Rightarrow> (broker_error + la_snapshot list) \<times> la_broker" where
  "broker_expire c b =
     (let (now, b1) = read_clock c b
      in finish_each c (\<lambda>s. now \<ge> rq_expiresAt (sn_request s)) Expired R_request_expired (map fst (lb_requests b1)) b1)"

definition broker_current :: "broker_config \<Rightarrow> la_broker \<Rightarrow> (broker_error + la_snapshot option) \<times> la_broker" where
  "broker_current c b = (case broker_expire c b of (Inl e, b1) \<Rightarrow> (Inl e, b1) | (Inr _, b1) \<Rightarrow> activateHead c b1)"

inductive broker_step :: "broker_config \<Rightarrow> la_broker \<Rightarrow> la_broker \<Rightarrow> bool" for c where
  submitted: "broker_submit c q b = (r, t) \<Longrightarrow> broker_step c b t"
| decided: "broker_decide c i allow scope b = (r, t) \<Longrightarrow> broker_step c b t"
| awaited: "awaitingRemoteCompletion c i b = (r, t) \<Longrightarrow> broker_step c b t"
| completed: "broker_complete c i identity status safeData reason b = (r, t) \<Longrightarrow> broker_step c b t"
| cancelled: "cancelBinding c identity reason b = (r, t) \<Longrightarrow> broker_step c b t"
| stale_cancelled: "cancelStaleForIdentity c identity reason b = (r, t) \<Longrightarrow> broker_step c b t"
| expired: "broker_expire c b = (r, t) \<Longrightarrow> broker_step c b t"
| current: "broker_current c b = (r', t) \<Longrightarrow> broker_step c b t"


section \<open>What settling does\<close>

lemma settle_fields:
  assumes "settle c i s status dec data reason b = (next, t)"
  shows "sn_request next = sn_request s \<and> sn_state next = status \<and> sn_decision next = dec \<and> lb_queue t = remove1 i (lb_queue b) \<and>
     lb_nonces t = lb_nonces b \<and> lb_nonceExpiry t = lb_nonceExpiry b \<and> lb_reads t = Suc (lb_reads b) \<and>
     (lb_terminalOrder t, lb_requests t) = evict_history (lb_terminalOrder b @ [i]) (map_set i next (lb_requests b))"
  using assms
  by (auto simp: settle_def read_clock_def freezeSnapshot_def recordTerminal_def broker_dequeue_def Let_def split: prod.splits)

lemma evict_history_one:
  assumes "length ids \<le> max_local_action_history"
  shows "evict_history (ids @ [i]) m =
     (if length ids < max_local_action_history then (ids @ [i], m) else (tl ids @ [i], AList.delete (hd ids) m))"
  using assms evict_history.simps [of "ids @ [i]" m] evict_history.simps [of "tl ids @ [i]" "AList.delete (hd ids) m"]
  by (cases ids) (auto simp: max_local_action_history_def)

text \<open>A request that is executed, or has been, was allowed by the user for exactly the scope it asked for.\<close>

definition consent_ok :: "la_snapshot \<Rightarrow> bool" where
  "consent_ok s \<longleftrightarrow> (sn_state s \<in> {Executing, Awaiting_remote_completion, Succeeded, Failed} \<longrightarrow>
     (\<exists>t. sn_decision s = Some \<lparr>pd_requestId = rq_id (sn_request s), pd_decision = Allow_once,
        pd_grantedScope = Some (rq_requestedScope (sn_request s)), pd_policySource = Interactive_user, pd_decidedAt = t\<rparr>))"

text \<open>
  The invariant of the broker, with exceptions \<open>X\<close> from the rule that the open requests are
  those in the queue: a request is on file before it is queued.
\<close>

definition snapshot_ok :: "la_broker \<Rightarrow> string set \<Rightarrow> string \<Rightarrow> la_snapshot \<Rightarrow> bool" where
  "snapshot_ok b X i s \<longleftrightarrow> rq_id (sn_request s) = i \<and> consent_ok s \<and> terminal_state (sn_state s) = (i \<in> set (lb_terminalOrder b)) \<and>
     (i \<notin> X \<longrightarrow> terminal_state (sn_state s) \<noteq> (i \<in> set (lb_queue b)))"

definition queue_ok :: "broker_config \<Rightarrow> la_broker \<Rightarrow> bool" where
  "queue_ok c b \<longleftrightarrow> distinct (lb_queue b) \<and> int (length (lb_queue b)) \<le> bc_maximum c \<and>
     (\<forall>i \<in> set (lb_queue b). \<exists>s. map_get (lb_requests b) i = Some s \<and> \<not> terminal_state (sn_state s)) \<and>
     (\<forall>i \<in> set (tl (lb_queue b)). \<exists>s. map_get (lb_requests b) i = Some s \<and> sn_state s = Validated)"

definition history_ok :: "la_broker \<Rightarrow> bool" where
  "history_ok b \<longleftrightarrow> distinct (lb_terminalOrder b) \<and> length (lb_terminalOrder b) \<le> max_local_action_history \<and>
     set (lb_terminalOrder b) \<subseteq> fst ` set (lb_requests b) \<and> distinct (map fst (lb_requests b))"

definition broker_inv :: "broker_config \<Rightarrow> string set \<Rightarrow> la_broker \<Rightarrow> bool" where
  "broker_inv c X b \<longleftrightarrow> (\<forall>i s. map_get (lb_requests b) i = Some s \<longrightarrow> snapshot_ok b X i s) \<and> queue_ok c b \<and> history_ok b"

text \<open>Between two operations the head of the queue has been presented.\<close>

definition head_ok :: "la_broker \<Rightarrow> bool" where
  "head_ok b \<longleftrightarrow> (case lb_queue b of [] \<Rightarrow> True | i # _ \<Rightarrow> \<exists>s. map_get (lb_requests b) i = Some s \<and> sn_state s \<noteq> Validated)"

lemma set_tl: "set (tl xs) \<subseteq> set xs"
  by (cases xs) auto

lemma tl_remove1: "distinct q \<Longrightarrow> set (tl (remove1 i q)) \<subseteq> set (tl q) - {i}"
  by (cases q) (auto simp: set_remove1_eq dest: set_tl [THEN subsetD])

lemma settle_requests:
  assumes "settle c i s status dec data reason b = (next, t)" and "length (lb_terminalOrder b) \<le> max_local_action_history"
    and "i \<notin> set (lb_terminalOrder b)" and "distinct (lb_terminalOrder b)"
  shows "\<exists>gone. gone \<subseteq> set (lb_terminalOrder b) \<and> distinct (lb_terminalOrder t) \<and> length (lb_terminalOrder t) \<le> max_local_action_history \<and>
     set (lb_terminalOrder t) = insert i (set (lb_terminalOrder b) - gone) \<and>
     (\<forall>j. map_get (lb_requests t) j = (if j \<in> gone then None else if j = i then Some next else map_get (lb_requests b) j)) \<and>
     (distinct (map fst (lb_requests b)) \<longrightarrow> distinct (map fst (lb_requests t)))"
proof -
  let ?ids = "lb_terminalOrder b"
  have e: "(lb_terminalOrder t, lb_requests t) = evict_history (?ids @ [i]) (map_set i next (lb_requests b))"
    using settle_fields [OF assms(1)] by simp
  show ?thesis
  proof (cases "length ?ids < max_local_action_history")
    case True
    with e assms(2-4) show ?thesis by (intro exI [of _ "{}"]) (simp add: evict_history_one)
  next
    case False
    then have ne: "?ids \<noteq> []" by (auto simp: max_local_action_history_def)
    then obtain g gs where g: "?ids = g # gs" by (cases ?ids) auto
    with e evict_history_one [OF assms(2), of i "map_set i next (lb_requests b)"] False
    have "lb_terminalOrder t = gs @ [i]" "lb_requests t = AList.delete g (map_set i next (lb_requests b))" by simp_all
    with g assms(2-4) show ?thesis
      by (intro exI [of _ "{g}"]) (auto simp: map_get_delete distinct_delete)
  qed
qed

lemma settle_inv:
  assumes "broker_inv c X b" and "X \<subseteq> {i}" and "map_get (lb_requests b) i = Some s" and "\<not> terminal_state (sn_state s)"
    and "settle c i s status dec data reason b = (next, t)" and "terminal_state status" and "consent_ok next"
  shows "broker_inv c {} t"
proof -
  have si: "snapshot_ok b X i s" using assms(1,3) by (simp add: broker_inv_def)
  then have i: "i \<notin> set (lb_terminalOrder b)" "rq_id (sn_request s) = i" using assms(4) by (auto simp: snapshot_ok_def)
  have h: "distinct (lb_terminalOrder b)" "length (lb_terminalOrder b) \<le> max_local_action_history"
    "set (lb_terminalOrder b) \<subseteq> fst ` set (lb_requests b)" "distinct (map fst (lb_requests b))"
    using assms(1) by (auto simp: broker_inv_def history_ok_def)
  obtain gone where gone: "gone \<subseteq> set (lb_terminalOrder b)" "distinct (lb_terminalOrder t)"
    "length (lb_terminalOrder t) \<le> max_local_action_history" "set (lb_terminalOrder t) = insert i (set (lb_terminalOrder b) - gone)"
    "\<And>j. map_get (lb_requests t) j = (if j \<in> gone then None else if j = i then Some next else map_get (lb_requests b) j)"
    "distinct (map fst (lb_requests t))" using settle_requests [OF assms(5) h(2) i(1) h(1)] h(4) by blast
  note f = settle_fields [OF assms(5)]
  have q: "distinct (lb_queue b)" using assms(1) by (simp add: broker_inv_def queue_ok_def)
  have open_kept: "j \<notin> gone" if "j \<in> set (lb_queue b)" for j
    using that gone(1) assms(1) by (force simp: broker_inv_def queue_ok_def snapshot_ok_def)
  have "snapshot_ok t {} j u" if "map_get (lb_requests t) j = Some u" for j u
    using that gone(4,5) f i(2) assms(1,2,6,7) q
    by (auto simp: snapshot_ok_def broker_inv_def set_remove1_eq split: if_splits)
  moreover have "j \<notin> gone" if "j \<in> set (tl (remove1 i (lb_queue b)))" for j
    using that open_kept tl_remove1 [OF q, of i] set_tl [of "lb_queue b"] by blast
  then have "queue_ok c t"
    using assms(1) gone(5) f open_kept tl_remove1 [OF q, of i] i(1) q
    unfolding broker_inv_def queue_ok_def
    by (auto simp: set_remove1_eq length_remove1)
  moreover have "history_ok t"
  proof -
    have "set (lb_terminalOrder t) \<subseteq> dom (map_get (lb_requests t))"
      using gone(1,4,5) h(3) i(1) by (auto simp: dom_map_of_conv_image_fst [symmetric])
    then show ?thesis using gone(2,3,6) by (simp add: history_ok_def dom_map_of_conv_image_fst)
  qed
  ultimately show ?thesis by (simp add: broker_inv_def)
qed


text \<open>Settling leaves the registry of nonces alone and shortens the queue if the request is in it.\<close>

definition registry_frame :: "la_broker \<Rightarrow> la_broker \<Rightarrow> bool" where
  "registry_frame b t \<longleftrightarrow> lb_nonces t = lb_nonces b \<and> lb_nonceExpiry t = lb_nonceExpiry b \<and> lb_reads b \<le> lb_reads t"

lemma registry_frame_refl [simp]: "registry_frame b b"
  by (simp add: registry_frame_def)

lemma registry_frame_trans: "registry_frame a b \<Longrightarrow> registry_frame b d \<Longrightarrow> registry_frame a d"
  by (simp add: registry_frame_def)

lemma settle_registry:
  assumes "settle c i s status dec data reason b = (nx, t)"
  shows "registry_frame b t"
  using settle_fields [OF assms] by (simp add: registry_frame_def)

lemma reads_registry [simp]:
  "registry_frame b (b\<lparr>lb_reads := Suc (lb_reads b)\<rparr>)" "registry_frame b (b\<lparr>lb_requests := m\<rparr>)" "registry_frame b (b\<lparr>lb_queue := q\<rparr>)"
  by (simp_all add: registry_frame_def)

lemma broker_inv_reads [simp]: "broker_inv c X (b\<lparr>lb_reads := n\<rparr>) = broker_inv c X b"
  by (simp add: broker_inv_def snapshot_ok_def queue_ok_def history_ok_def)

lemma present_inv:
  assumes "broker_inv c {} b" and "map_get (lb_requests b) i = Some s" and "lb_queue b = i # q" and "\<not> terminal_state (sn_state n)"
    and "sn_request n = sn_request s" and "consent_ok n"
  shows "broker_inv c {} (b\<lparr>lb_requests := map_set i n (lb_requests b)\<rparr>)"
proof -
  from assms(1-3) have s: "snapshot_ok b {} i s" "\<not> terminal_state (sn_state s)" "i \<notin> set q"
    by (auto simp: broker_inv_def queue_ok_def)
  have "snapshot_ok (b\<lparr>lb_requests := map_set i n (lb_requests b)\<rparr>) {} j u" if "map_get (map_set i n (lb_requests b)) j = Some u" for j u
    using that assms s by (auto simp: snapshot_ok_def broker_inv_def split: if_splits)
  moreover have "queue_ok c (b\<lparr>lb_requests := map_set i n (lb_requests b)\<rparr>)"
    using assms(1,3,4) s(3) by (auto simp: broker_inv_def queue_ok_def)
  moreover have "history_ok (b\<lparr>lb_requests := map_set i n (lb_requests b)\<rparr>)"
    using assms(1) unfolding broker_inv_def history_ok_def
    by (auto simp: dom_map_of_conv_image_fst [symmetric])
  ultimately show ?thesis by (simp add: broker_inv_def)
qed

lemma settle_head:
  assumes "broker_inv c {} b" and "map_get (lb_requests b) i = Some s" and "lb_queue b = i # q" and "status \<in> {Cancelled, Denied, Expired}"
    and "settle c i s status dec data reason b = (next, t)"
  shows "broker_inv c {} t \<and> registry_frame b t \<and> length (lb_queue t) = length q"
proof -
  note f = settle_fields [OF assms(5)]
  have "\<not> terminal_state (sn_state s)" using assms(1-3) by (auto simp: broker_inv_def queue_ok_def)
  moreover have "consent_ok next" "terminal_state status" using f assms(4) by (auto simp: consent_ok_def terminal_state.simps)
  ultimately have "broker_inv c {} t" using settle_inv [OF assms(1) _ assms(2) _ assms(5)] by simp
  with f assms(3) settle_registry [OF assms(5)] show ?thesis by simp
qed

text \<open>What \<^verbatim>\<open>#activateHead\<close> promises with fuel \<open>n\<close>.\<close>

definition activated :: "broker_config \<Rightarrow> nat \<Rightarrow> la_broker \<Rightarrow> broker_error + la_snapshot option \<Rightarrow> la_broker \<Rightarrow> bool" where
  "activated c n b r t \<longleftrightarrow> broker_inv c {} t \<and> registry_frame b t \<and> length (lb_queue t) \<le> length (lb_queue b) \<and>
     (length (lb_queue b) < n \<longrightarrow> \<not> isl r \<and> head_ok t)"

lemma activate_stale:
  assumes IH: "\<And>b r t. broker_inv c {} b \<Longrightarrow> activate c n b = (r, t) \<Longrightarrow> activated c n b r t"
    and "broker_inv c {} b" and "lb_queue b = i # q" and "map_get (lb_requests b) i = Some s" and "sn_state s = Validated"
    and "\<not> bc_live c (lb_reads b) (rq_identity (sn_request s))" and "activate c (Suc n) b = (r, t)"
  shows "activated c (Suc n) b r t"
proof -
  define b1 where "b1 = b\<lparr>lb_reads := Suc (lb_reads b)\<rparr>"
  have inv1: "broker_inv c {} b1" "map_get (lb_requests b1) i = Some s" "lb_queue b1 = i # q" "registry_frame b b1"
    using assms(2-4) by (simp_all add: b1_def)
  obtain nx b2 where e: "settle c i s Cancelled (sn_decision s) None (Some R_stale_identity) b1 = (nx, b2)" by force
  obtain r3 b3 where a: "activate c n b2 = (r3, b3)" by force
  from settle_head [OF inv1(1-3) _ e] have b2: "broker_inv c {} b2" "registry_frame b1 b2" "length (lb_queue b2) = length q" by auto
  from assms(3-7) e a have "t = b3 \<and> isl r = isl r3" by (auto simp: read_live_def b1_def split: sum.splits)
  with IH [OF b2(1) a] b2 inv1(4) assms(3) show ?thesis by (auto simp: activated_def intro: registry_frame_trans)
qed

lemma activate_live:
  assumes IH: "\<And>b r t. broker_inv c {} b \<Longrightarrow> activate c n b = (r, t) \<Longrightarrow> activated c n b r t"
    and "broker_inv c {} b" and "lb_queue b = i # q" and "map_get (lb_requests b) i = Some s" and "sn_state s = Validated"
    and "bc_live c (lb_reads b) (rq_identity (sn_request s))" and "activate c (Suc n) b = (r, t)"
  shows "activated c (Suc n) b r t"
proof -
  define b2 where "b2 = b\<lparr>lb_reads := Suc (Suc (lb_reads b))\<rparr>"
  define policy where "policy = policy_evaluate (bc_policy c) (sn_request s) (bc_clock c (Suc (lb_reads b)))"
  have inv2: "broker_inv c {} b2" "map_get (lb_requests b2) i = Some s" "lb_queue b2 = i # q" "registry_frame b b2"
    using assms(2-4) by (simp_all add: b2_def registry_frame_def)
  note run = assms(3-7) and names = read_live_def read_clock_def b2_def [symmetric] policy_def [symmetric] Let_def
  show ?thesis
  proof (cases "pd_decision policy = Deny")
    case True
    obtain nx b3 where e: "settle c i s Denied (Some policy) None (Some R_denied_by_policy) b2 = (nx, b3)" by force
    obtain r4 b4 where a: "activate c n b3 = (r4, b4)" by force
    from settle_head [OF inv2(1-3) _ e] have b3: "broker_inv c {} b3" "registry_frame b2 b3" "length (lb_queue b3) = length q" by auto
    note ih = IH [OF b3(1) a]
    then have b4: "broker_inv c {} b4" "registry_frame b b4"
      using inv2(4) b3(2) by (auto simp: activated_def intro: registry_frame_trans)
    obtain r5 b5 where a2: "activate c n b4 = (r5, b5)" by force
    note ih2 = IH [OF b4(1) a2]
    from run True e a a2 have t: "if isl r4 then t = b4 \<and> isl r else t = b5 \<and> r = r5" by (auto simp: names split: sum.splits)
    with ih ih2 b4(2) b3(3) assms(3) show ?thesis by (cases "isl r4") (auto simp: activated_def intro: registry_frame_trans)
  next
    case False
    define nx where "nx = freezeSnapshot (sn_request s) (if pd_decision policy = Ask then Pending_user else Executing) (Some policy) None"
    have "pd_decision policy = Ask" using False policy_never_allows [of "bc_policy c"] by (auto simp: policy_def)
    then have n: "\<not> terminal_state (sn_state nx)" "sn_request nx = sn_request s" "consent_ok nx" "sn_state nx \<noteq> Validated"
      by (auto simp: nx_def freezeSnapshot_def terminal_state.simps consent_ok_def)
    from run False have "t = b2\<lparr>lb_requests := map_set i nx (lb_requests b2)\<rparr> \<and> r = Inr (Some nx)"
      by (auto simp: names nx_def [symmetric])
    with present_inv [OF inv2(1-3) n(1-3)] n(4) inv2(3,4) assms(3) show ?thesis
      by (auto simp: activated_def head_ok_def registry_frame_def)
  qed
qed

lemma activate_inv: "broker_inv c {} b \<Longrightarrow> activate c n b = (r, t) \<Longrightarrow> activated c n b r t"
proof (induction n arbitrary: b r t)
  case 0
  then show ?case by (simp add: activated_def)
next
  case (Suc n)
  show ?case
  proof (cases "lb_queue b")
    case Nil
    with Suc.prems show ?thesis by (auto simp: activated_def head_ok_def)
  next
    case (Cons i q)
    with Suc.prems(1) obtain s where s: "map_get (lb_requests b) i = Some s" "\<not> terminal_state (sn_state s)"
      by (auto simp: broker_inv_def queue_ok_def)
    show ?thesis
    proof (cases "sn_state s = Validated")
      case False
      with Suc.prems Cons s show ?thesis by (auto simp: activated_def head_ok_def)
    next
      case True
      then show ?thesis
        using activate_stale [OF Suc.IH Suc.prems(1) Cons s(1) True _ Suc.prems(2)] activate_live [OF Suc.IH Suc.prems(1) Cons s(1) True _ Suc.prems(2)]
        by blast
    qed
  qed
qed

definition settled_inv :: "broker_config \<Rightarrow> la_broker \<Rightarrow> bool" where
  "settled_inv c b \<longleftrightarrow> broker_inv c {} b \<and> head_ok b"

lemma head_ok_reads [simp]: "head_ok (b\<lparr>lb_reads := n\<rparr>) = head_ok b"
  by (cases "lb_queue b") (simp_all add: head_ok_def)

lemma settled_inv_reads [simp]: "settled_inv c (b\<lparr>lb_reads := n\<rparr>) = settled_inv c b"
  by (simp add: settled_inv_def)

lemma activateHead_inv:
  assumes "broker_inv c {} b" and "activateHead c b = (r, t)"
  shows "settled_inv c t \<and> registry_frame b t \<and> \<not> isl r"
  using activate_inv [OF assms(1) assms(2) [unfolded activateHead_def]] by (simp add: settled_inv_def activated_def)

lemma settle_activate_inv:
  assumes "broker_inv c X b" and "X \<subseteq> {i}" and "map_get (lb_requests b) i = Some s" and "\<not> terminal_state (sn_state s)"
    and "terminal_state status"
    and "status \<in> {Succeeded, Failed} \<longrightarrow> dec = sn_decision s \<and> sn_state s \<in> {Executing, Awaiting_remote_completion}"
    and "then_activate c (settle c i s status dec data reason b) = (r, t)"
  shows "settled_inv c t \<and> registry_frame b t \<and> \<not> isl r"
proof -
  obtain nx b1 where e: "settle c i s status dec data reason b = (nx, b1)" by force
  obtain r2 b2 where a: "activateHead c b1 = (r2, b2)" by force
  note f = settle_fields [OF e]
  have "consent_ok s" using assms(1,3) by (auto simp: broker_inv_def snapshot_ok_def)
  moreover have n: "sn_request nx = sn_request s" "sn_state nx = status" "sn_decision nx = dec" using f by auto
  ultimately have "consent_ok nx" using assms(6) assms(5) [unfolded terminal_state.simps] unfolding consent_ok_def n by auto
  from settle_inv [OF assms(1-4) e assms(5) this] have "broker_inv c {} b1" .
  from activateHead_inv [OF this a] settle_registry [OF e] assms(7) e a show ?thesis
    by (auto simp: then_activate_def intro: registry_frame_trans split: sum.splits)
qed

lemma broker_finish_open:
  assumes "broker_inv c X b" and "X \<subseteq> {i}" and "map_get (lb_requests b) i = Some s" and "\<not> terminal_state (sn_state s)"
    and "status \<in> {Denied, Expired, Cancelled}" and "broker_finish c i status dec reason b = (r, t)"
  shows "settled_inv c t \<and> registry_frame b t \<and> \<not> isl r"
proof -
  have "terminal_state status" "status \<notin> {Succeeded, Failed}" using assms(5) by (auto simp: terminal_state.simps)
  with settle_activate_inv [OF assms(1-4), of status _ None reason r t] assms(3,4,6) show ?thesis by (auto simp: broker_finish_def)
qed

lemma broker_finish_inv:
  assumes "settled_inv c b" and "status \<in> {Denied, Expired, Cancelled}" and "broker_finish c i status dec reason b = (r, t)"
  shows "settled_inv c t \<and> registry_frame b t"
proof (cases "map_get (lb_requests b) i")
  case None
  with assms show ?thesis by (auto simp: broker_finish_def)
next
  case (Some s)
  show ?thesis
  proof (cases "terminal_state (sn_state s)")
    case True
    with assms Some show ?thesis by (auto simp: broker_finish_def)
  next
    case False
    from assms(1) have "broker_inv c {} b" by (simp add: settled_inv_def)
    from broker_finish_open [OF this _ Some False assms(2,3)] show ?thesis by simp
  qed
qed

lemma finish_each_inv:
  assumes "settled_inv c b" and "status \<in> {Denied, Expired, Cancelled}" and "finish_each c P status reason ids b = (r, t)"
  shows "settled_inv c t \<and> registry_frame b t"
  using assms(1,3)
proof (induction ids arbitrary: b r t)
  case (Cons i ids)
  obtain r1 b1 where f: "broker_finish c i status None (Some reason) b = (r1, b1)" by force
  obtain r2 b2 where e: "finish_each c P status reason ids b1 = (r2, b2)" by force
  note f1 = broker_finish_inv [OF Cons.prems(1) assms(2) f]
  note e1 = Cons.IH [OF conjunct1 [OF f1] e]
  have "registry_frame b b2" using f1 e1 by (blast intro: registry_frame_trans)
  with Cons.prems Cons.IH [OF Cons.prems(1)] f e f1 e1 show ?case
    by (auto split: option.splits if_splits sum.splits)
qed auto

lemma active_is_head:
  assumes "broker_inv c {} b" and "map_get (lb_requests b) i = Some s" and "\<not> terminal_state (sn_state s)" and "sn_state s \<noteq> Validated"
  shows "\<exists>q. lb_queue b = i # q"
proof -
  have "i \<in> set (lb_queue b)" using assms(1-3) by (auto simp: broker_inv_def snapshot_ok_def)
  moreover have "i \<notin> set (tl (lb_queue b))" using assms(1,2,4) by (auto simp: broker_inv_def queue_ok_def)
  ultimately show ?thesis by (cases "lb_queue b") auto
qed

lemma broker_transition_inv:
  assumes "settled_inv c b" and "broker_transition i state dec b = (r, t)" and "state \<in> {Executing, Awaiting_remote_completion}"
    and "state = Executing \<longrightarrow> (\<exists>s d. map_get (lb_requests b) i = Some s \<and> sn_state s = Pending_user \<and>
       dec = Some (policy_decision i Allow_once (Some (rq_requestedScope (sn_request s))) Interactive_user d))"
    and "state = Awaiting_remote_completion \<longrightarrow> dec = None"
  shows "settled_inv c t \<and> registry_frame b t"
proof (cases "t = b")
  case True
  with assms(1) show ?thesis by simp
next
  case False
  with assms(2) obtain s where s: "map_get (lb_requests b) i = Some s" "sn_state s \<in> (if state = Executing then {Pending_user, Validated} else {Executing})"
    by (auto simp: broker_transition_def Let_def split: option.splits if_splits)
  define nx where "nx = freezeSnapshot (sn_request s) state (case dec of None \<Rightarrow> sn_decision s | Some d \<Rightarrow> Some d) None"
  have t: "t = b\<lparr>lb_requests := map_set i nx (lb_requests b)\<rparr>" using assms(2) s by (auto simp: broker_transition_def nx_def Let_def split: if_splits)
  have inv: "broker_inv c {} b" using assms(1) by (simp add: settled_inv_def)
  then have sn: "snapshot_ok b {} i s" using s(1) by (simp add: broker_inv_def)
  have st: "sn_state s \<in> {Pending_user, Executing}" using s assms(3,4) by (auto split: if_splits)
  then obtain q where q: "lb_queue b = i # q" using active_is_head [OF inv s(1)] by (auto simp: terminal_state.simps)
  have "\<not> terminal_state (sn_state nx)" "sn_request nx = sn_request s" "sn_state nx \<noteq> Validated"
    using assms(3) by (auto simp: nx_def freezeSnapshot_def terminal_state.simps)
  moreover have "consent_ok nx"
    using sn s assms(3-5) by (auto simp: nx_def freezeSnapshot_def consent_ok_def snapshot_ok_def policy_decision_def split: if_splits)
  ultimately show ?thesis using present_inv [OF inv s(1) q] q t by (simp add: settled_inv_def head_ok_def)
qed


lemma registry_reads: "registry_frame (b\<lparr>lb_reads := n\<rparr>) t \<Longrightarrow> lb_reads b \<le> n \<Longrightarrow> registry_frame b t"
  by (simp add: registry_frame_def)

lemmas read_defs = read_clock_def read_live_def Let_def

lemma broker_decide_inv:
  assumes "settled_inv c b" and "broker_decide c i allow scope b = (r, t)"
  shows "settled_inv c t \<and> registry_frame b t"
proof -
  define b2 where "b2 = b\<lparr>lb_reads := Suc (Suc (lb_reads b))\<rparr>"
  have b2: "settled_inv c b2" using assms(1) by (simp add: b2_def)
  consider "t = b \<or> t = b\<lparr>lb_reads := Suc (lb_reads b)\<rparr> \<or> t = b2"
    | dec status reason where "status \<in> {Denied, Expired, Cancelled}" "broker_finish c i status dec reason b2 = (r, t)"
    | s d where "map_get (lb_requests b) i = Some s" "sn_state s = Pending_user"
        "broker_transition i Executing (Some (policy_decision i Allow_once (Some (rq_requestedScope (sn_request s))) Interactive_user d)) b2 = (r, t)"
    using assms(2) by (auto simp: broker_decide_def read_defs b2_def [symmetric] split: option.splits if_splits)
  then show ?thesis
  proof cases
    case 1
    then show ?thesis using assms(1) by (auto simp: b2_def registry_frame_def)
  next
    case 2
    from broker_finish_inv [OF b2 this] show ?thesis unfolding b2_def by (auto intro: registry_reads)
  next
    case 3
    then have "settled_inv c t \<and> registry_frame b2 t"
      by (intro broker_transition_inv [OF b2]) (auto simp: b2_def)
    then show ?thesis unfolding b2_def by (auto intro: registry_reads)
  qed
qed

lemma awaiting_inv:
  assumes "settled_inv c b" and "awaitingRemoteCompletion c i b = (r, t)"
  shows "settled_inv c t \<and> registry_frame b t"
proof -
  define b1 where "b1 = b\<lparr>lb_reads := Suc (lb_reads b)\<rparr>"
  define b2 where "b2 = b\<lparr>lb_reads := Suc (Suc (lb_reads b))\<rparr>"
  have b: "settled_inv c b1" "settled_inv c b2" using assms(1) by (simp_all add: b1_def b2_def)
  consider "t = b \<or> t = b2" | "broker_finish c i Expired None (Some R_request_expired) b1 = (r, t)"
    | "broker_transition i Awaiting_remote_completion None b2 = (r, t)"
    using assms(2) by (auto simp: awaitingRemoteCompletion_def read_defs b1_def b2_def split: option.splits if_splits)
  then show ?thesis
  proof cases
    case 1
    then show ?thesis using assms(1) by (auto simp: b2_def registry_frame_def)
  next
    case 2
    from broker_finish_inv [OF b(1) _ this] show ?thesis unfolding b1_def by (auto intro: registry_reads)
  next
    case 3
    from broker_transition_inv [OF b(2) this] show ?thesis unfolding b2_def by (auto intro: registry_reads)
  qed
qed

lemma broker_complete_inv:
  assumes "settled_inv c b" and "broker_complete c i identity status data reason b = (r, t)"
  shows "settled_inv c t \<and> registry_frame b t"
proof -
  define b1 where "b1 = b\<lparr>lb_reads := Suc (lb_reads b)\<rparr>"
  define b2 where "b2 = b\<lparr>lb_reads := Suc (Suc (lb_reads b))\<rparr>"
  have b: "settled_inv c b1" "broker_inv c {} b2" using assms(1) by (simp_all add: b1_def b2_def settled_inv_def)
  consider "t = b \<or> t = b2" | "broker_finish c i Expired None (Some R_request_expired) b1 = (r, t)"
    | s where "map_get (lb_requests b) i = Some s" "\<not> terminal_state (sn_state s)" "status \<in> {Succeeded, Failed, Cancelled}"
        "status \<noteq> Cancelled \<longrightarrow> sn_state s \<in> {Executing, Awaiting_remote_completion}"
        "then_activate c (settle c i s status (sn_decision s) data reason b2) = (r, t)"
    using assms(2) by (auto simp: broker_complete_def read_defs b1_def b2_def split: option.splits if_splits)
  then show ?thesis
  proof cases
    case 1
    then show ?thesis using assms(1) by (auto simp: b2_def registry_frame_def)
  next
    case 2
    from broker_finish_inv [OF b(1) _ this] show ?thesis unfolding b1_def by (auto intro: registry_reads)
  next
    case 3
    then have "settled_inv c t \<and> registry_frame b2 t \<and> \<not> isl r"
      by (intro settle_activate_inv [OF b(2), where i = i and s = s and status = status]) (auto simp: b2_def terminal_state.simps)
    then show ?thesis unfolding b2_def by (auto intro: registry_reads)
  qed
qed

lemma broker_expire_inv:
  assumes "settled_inv c b" and "broker_expire c b = (r, t)"
  shows "settled_inv c t \<and> registry_frame b t"
proof -
  have "settled_inv c (b\<lparr>lb_reads := Suc (lb_reads b)\<rparr>)" using assms(1) by simp
  from finish_each_inv [OF this _ assms(2) [unfolded broker_expire_def read_clock_def Let_def prod.case]]
  have "settled_inv c t \<and> registry_frame (b\<lparr>lb_reads := Suc (lb_reads b)\<rparr>) t" by simp
  then show ?thesis by (auto intro: registry_reads)
qed

lemma broker_current_inv:
  assumes "settled_inv c b" and "broker_current c b = (r, t)"
  shows "settled_inv c t \<and> registry_frame b t"
proof -
  obtain r1 b1 where e: "broker_expire c b = (r1, b1)" by force
  note e1 = broker_expire_inv [OF assms(1) e]
  then have "broker_inv c {} b1" by (simp add: settled_inv_def)
  obtain r2 b2 where a: "activateHead c b1 = (r2, b2)" by force
  from activateHead_inv [OF \<open>broker_inv c {} b1\<close> a] e1 e a assms(2) show ?thesis
    by (auto simp: broker_current_def intro: registry_frame_trans split: sum.splits)
qed


section \<open>Admission\<close>

lemma broker_inv_registry [simp]:
  "broker_inv c X (b\<lparr>lb_nonces := m\<rparr>) = broker_inv c X b" "broker_inv c X (b\<lparr>lb_nonceExpiry := e\<rparr>) = broker_inv c X b"
  "head_ok (b\<lparr>lb_nonces := m\<rparr>) = head_ok b" "head_ok (b\<lparr>lb_nonceExpiry := e\<rparr>) = head_ok b"
  by (cases "lb_queue b"; simp add: broker_inv_def snapshot_ok_def queue_ok_def history_ok_def head_ok_def)+

lemma broker_inv_filed [simp]:
  "broker_inv c X (b\<lparr>lb_nonces := m, lb_nonceExpiry := e, lb_requests := rs\<rparr>) = broker_inv c X (b\<lparr>lb_requests := rs\<rparr>)"
  by (simp add: broker_inv_def snapshot_ok_def queue_ok_def history_ok_def)

lemma settled_inv_prune [simp]: "settled_inv c (broker_prune now b) = settled_inv c b"
  by (simp add: settled_inv_def broker_prune_def Let_def)

lemma file_request_inv:
  assumes "broker_inv c {} b" and "map_get (lb_requests b) (rq_id q) = None"
  shows "broker_inv c {rq_id q} (b\<lparr>lb_requests := map_set (rq_id q) (freezeSnapshot q Validated None None) (lb_requests b)\<rparr>)"
    and "rq_id q \<notin> set (lb_queue b)"
proof -
  let ?m = "map_set (rq_id q) (freezeSnapshot q Validated None None) (lb_requests b)"
  have h: "set (lb_terminalOrder b) \<subseteq> dom (map_get (lb_requests b))" using assms(1) by (simp add: broker_inv_def history_ok_def dom_map_of_conv_image_fst)
  then have o: "rq_id q \<notin> set (lb_terminalOrder b)" using assms(2) by (auto simp: domIff)
  show nq: "rq_id q \<notin> set (lb_queue b)" using assms by (auto simp: broker_inv_def queue_ok_def)
  have "snapshot_ok (b\<lparr>lb_requests := ?m\<rparr>) {rq_id q} i s" if "map_get ?m i = Some s" for i s
    using that assms(1) o by (auto simp: snapshot_ok_def broker_inv_def freezeSnapshot_def consent_ok_def terminal_state.simps split: if_splits)
  moreover have "queue_ok c (b\<lparr>lb_requests := ?m\<rparr>)"
    using assms(1) nq set_tl [of "lb_queue b"] by (auto simp: broker_inv_def queue_ok_def)
  moreover have "history_ok (b\<lparr>lb_requests := ?m\<rparr>)"
    using assms(1) h unfolding broker_inv_def history_ok_def by (auto simp: dom_map_of_conv_image_fst [symmetric])
  ultimately show "broker_inv c {rq_id q} (b\<lparr>lb_requests := ?m\<rparr>)" by (simp add: broker_inv_def)
qed

lemma push_inv:
  assumes "broker_inv c {i} b" and "map_get (lb_requests b) i = Some s" and "sn_state s = Validated" and "i \<notin> set (lb_queue b)"
    and "int (length (lb_queue b)) < bc_maximum c"
  shows "broker_inv c {} (b\<lparr>lb_queue := lb_queue b @ [i]\<rparr>)"
proof -
  have open_i: "\<not> terminal_state (sn_state s)" using assms(3) by (simp add: terminal_state.simps)
  have old: "snapshot_ok b {i} j u" if "map_get (lb_requests b) j = Some u" for j u using that assms(1) by (simp add: broker_inv_def)
  have "snapshot_ok (b\<lparr>lb_queue := lb_queue b @ [i]\<rparr>) {} j u" if "map_get (lb_requests b) j = Some u" for j u
    using old [OF that] that assms(2) open_i by (cases "j = i") (auto simp: snapshot_ok_def)
  moreover have "queue_ok c (b\<lparr>lb_queue := lb_queue b @ [i]\<rparr>)"
    using assms by (cases "lb_queue b") (auto simp: broker_inv_def queue_ok_def terminal_state.simps)
  moreover have "history_ok (b\<lparr>lb_queue := lb_queue b @ [i]\<rparr>)" using assms(1) by (simp add: broker_inv_def history_ok_def)
  ultimately show ?thesis by (simp add: broker_inv_def)
qed

text \<open>Admission either leaves the broker alone or files the request under a new key of the registry.\<close>

definition nonce_key :: "broker_config \<Rightarrow> la_request \<Rightarrow> string" where
  "nonce_key c q = identityKey (bc_sha c) (rq_identity q) @ '':'' @ rq_nonce q"

lemma admit_request_inv:
  assumes "settled_inv c b" and "map_get (lb_requests b) (rq_id q) = None" and "admit_request c q b = (r, t)"
  shows "settled_inv c t \<and> (t = b \<and> isl r \<or>
     (\<not> isl r \<and> map_get (lb_nonces b) (nonce_key c q) = None \<and> length (lb_nonces b) < max_local_action_replay_entries \<and>
      lb_nonces t = map_set (nonce_key c q) (rq_id q) (lb_nonces b) \<and>
      lb_nonceExpiry t = map_set (nonce_key c q) (rq_expiresAt q) (lb_nonceExpiry b) \<and> lb_reads b \<le> lb_reads t))"
proof (cases "t = b \<and> isl r")
  case True
  then show ?thesis using assms(1) by simp
next
  case False
  let ?s = "freezeSnapshot q Validated None None"
  define b2 where "b2 = b\<lparr>lb_nonces := map_set (nonce_key c q) (rq_id q) (lb_nonces b),
     lb_nonceExpiry := map_set (nonce_key c q) (rq_expiresAt q) (lb_nonceExpiry b),
     lb_requests := map_set (rq_id q) ?s (lb_requests b), lb_reads := Suc (lb_reads b)\<rparr>"
  define policy where "policy = policy_evaluate (bc_policy c) q (bc_clock c (lb_reads b))"
  have inv: "broker_inv c {} b" "head_ok b" using assms(1) by (simp_all add: settled_inv_def)
  have filed: "broker_inv c {rq_id q} b2" "rq_id q \<notin> set (lb_queue b)" "lb_queue b2 = lb_queue b" "map_get (lb_requests b2) (rq_id q) = Some ?s"
    using file_request_inv [OF inv(1) assms(2)] by (simp_all add: b2_def)
  have fresh: "map_get (lb_nonces b) (nonce_key c q) = None" "length (lb_nonces b) < max_local_action_replay_entries"
    "int (length (lb_queue b)) < bc_maximum c" and rest:
    "(if pd_decision policy = Deny then broker_finish c (rq_id q) Denied (Some policy) (Some R_denied_by_policy) b2
      else let b3 = b2\<lparr>lb_queue := lb_queue b2 @ [rq_id q]\<rparr> in
        if hd (lb_queue b3) = rq_id q
        then (case activateHead c b3 of (Inl e, b4) \<Rightarrow> (Inl e, b4) | (Inr a, b4) \<Rightarrow> (Inr (case a of None \<Rightarrow> ?s | Some s \<Rightarrow> s), b4))
        else (Inr ?s, b3)) = (r, t)"
    using assms(3) False
    by (auto simp: admit_request_def nonce_key_def read_clock_def b2_def policy_def Let_def split: if_splits)
  have reg: "registry_frame b2 t \<Longrightarrow> lb_nonces t = map_set (nonce_key c q) (rq_id q) (lb_nonces b) \<and>
      lb_nonceExpiry t = map_set (nonce_key c q) (rq_expiresAt q) (lb_nonceExpiry b) \<and> lb_reads b \<le> lb_reads t"
    by (auto simp: registry_frame_def b2_def)
  show ?thesis
  proof (cases "pd_decision policy = Deny")
    case True
    have "settled_inv c t \<and> registry_frame b2 t \<and> \<not> isl r"
      using rest True by (intro broker_finish_open [OF filed(1) _ filed(4)]) (auto simp: freezeSnapshot_def terminal_state.simps)
    with reg fresh show ?thesis by auto
  next
    case False
    let ?b3 = "b2\<lparr>lb_queue := lb_queue b2 @ [rq_id q]\<rparr>"
    have b3: "broker_inv c {} ?b3" using filed fresh(3) by (intro push_inv [OF filed(1,4)]) (auto simp: freezeSnapshot_def)
    have "settled_inv c t \<and> registry_frame ?b3 t \<and> \<not> isl r"
    proof (cases "lb_queue b")
      case Nil
      obtain r4 b4 where a: "activateHead c ?b3 = (r4, b4)" by force
      from activateHead_inv [OF b3 a] rest False a Nil filed(3) show ?thesis by (auto simp: Let_def split: sum.splits)
    next
      case (Cons i rest_q)
      with filed(2) have "i \<noteq> rq_id q" by auto
      with rest False Cons filed(3) have t: "t = ?b3" "r = Inr ?s" by auto
      have "head_ok ?b3" using inv(2) Cons assms(2) by (auto simp: head_ok_def b2_def)
      with t b3 show ?thesis by (simp add: settled_inv_def)
    qed
    with reg fresh show ?thesis by (auto simp: registry_frame_def)
  qed
qed


definition pruned :: "broker_config \<Rightarrow> la_broker \<Rightarrow> la_broker" where
  "pruned c b = broker_prune (bc_clock c (lb_reads b)) (b\<lparr>lb_reads := Suc (lb_reads b)\<rparr>)"

lemma pruned_fields [simp]:
  "lb_requests (pruned c b) = lb_requests b" "lb_queue (pruned c b) = lb_queue b" "lb_reads (pruned c b) = Suc (lb_reads b)"
  by (simp_all add: pruned_def broker_prune_def Let_def)

text \<open>A submission answers from what is on file and changes no request, or it admits a new one.\<close>

definition submit_answered :: "broker_config \<Rightarrow> la_request \<Rightarrow> la_broker \<Rightarrow> broker_error + la_snapshot \<Rightarrow> la_broker \<Rightarrow> bool" where
  "submit_answered c q b r t \<longleftrightarrow> registry_frame (pruned c b) t \<and> lb_requests t = lb_requests b \<and> lb_queue t = lb_queue b \<and>
     (case r of Inl e \<Rightarrow> True | Inr s \<Rightarrow> map_get (lb_requests b) (rq_id q) = Some s \<and> sameRequest (sn_request s) q)"

definition submit_admitted :: "broker_config \<Rightarrow> la_request \<Rightarrow> la_broker \<Rightarrow> la_broker \<Rightarrow> bool" where
  "submit_admitted c q b t \<longleftrightarrow> bc_clock c (lb_reads b) < rq_expiresAt q \<and> map_get (lb_requests b) (rq_id q) = None \<and>
     map_get (lb_nonces (pruned c b)) (nonce_key c q) = None \<and> length (lb_nonces (pruned c b)) < max_local_action_replay_entries \<and>
     lb_nonces t = map_set (nonce_key c q) (rq_id q) (lb_nonces (pruned c b)) \<and>
     lb_nonceExpiry t = map_set (nonce_key c q) (rq_expiresAt q) (lb_nonceExpiry (pruned c b)) \<and> lb_reads b < lb_reads t"

lemma broker_submit_outcome:
  assumes "settled_inv c b" and "broker_submit c q b = (r, t)"
  shows "settled_inv c t \<and> (submit_answered c q b r t \<or> submit_admitted c q b t \<and> \<not> isl r)"
proof -
  define p where "p = pruned c b"
  define p1 where "p1 = p\<lparr>lb_reads := Suc (lb_reads p)\<rparr>"
  have inv: "settled_inv c p" "settled_inv c p1" using assms(1) by (simp_all add: p_def p1_def pruned_def)
  consider e where "t = p \<and> r = Inl e" | e where "t = p1 \<and> r = Inl e"
    | s where "t = p1" "r = Inr s" "map_get (lb_requests b) (rq_id q) = Some s" "sameRequest (sn_request s) q"
    | "validateRequest (bc_sha c) q (bc_clock c (lb_reads b)) = Inr ()" "map_get (lb_requests b) (rq_id q) = None" "admit_request c q p1 = (r, t)"
    using assms(2) by (auto simp: broker_submit_def read_defs pruned_def [symmetric] p_def [symmetric] p1_def [symmetric]
        split: sum.splits if_splits option.splits) (auto simp: p1_def p_def)
  then show ?thesis
  proof cases
    case 4
    then have "map_get (lb_requests p1) (rq_id q) = None" and live: "bc_clock c (lb_reads b) < rq_expiresAt q"
      by (auto simp: p1_def p_def validateRequest_def split: option.splits if_splits)
    note a = admit_request_inv [OF inv(2) this(1) 4(3)]
    then show ?thesis using live 4(2)
      by (cases "isl r") (auto simp: submit_answered_def submit_admitted_def p1_def p_def registry_frame_def split: sum.splits)
  qed (use inv in \<open>auto simp: submit_answered_def p_def p1_def registry_frame_def\<close>)
qed


section \<open>The registry of nonces\<close>

definition registry_ok :: "la_broker \<Rightarrow> bool" where
  "registry_ok b \<longleftrightarrow> map fst (lb_nonceExpiry b) = map fst (lb_nonces b) \<and> distinct (map fst (lb_nonces b)) \<and>
     length (lb_nonces b) \<le> max_local_action_replay_entries"

lemma filter_keys: "map fst (filter (\<lambda>(k, _). P k) m) = filter P (map fst m)"
  by (induction m) auto

lemma registry_ok_frame: "registry_frame b t \<Longrightarrow> registry_ok b \<Longrightarrow> registry_ok t"
  by (simp add: registry_frame_def registry_ok_def)

lemma registry_ok_prune:
  assumes "registry_ok b"
  shows "registry_ok (broker_prune now b)"
proof -
  have "length (filter P (lb_nonces b)) \<le> max_local_action_replay_entries" for P
    using assms le_trans [OF length_filter_le [of P "lb_nonces b"]] by (simp add: registry_ok_def)
  with assms show ?thesis unfolding registry_ok_def broker_prune_def Let_def by (simp add: filter_keys)
qed

lemma registry_ok_pruned: "registry_ok b \<Longrightarrow> registry_ok (pruned c b)"
  unfolding pruned_def by (rule registry_ok_prune) (simp add: registry_ok_def)

lemma map_get_None_keys: "map_get m k = None \<longleftrightarrow> k \<notin> set (map fst m)"
  by (simp add: map_of_eq_None_iff)

lemma submit_registry:
  assumes "registry_ok b" and "submit_answered c q b r t \<or> submit_admitted c q b t"
  shows "registry_ok t"
  using assms(2)
proof
  assume "submit_answered c q b r t"
  then show ?thesis using registry_ok_frame registry_ok_pruned [OF assms(1)] by (auto simp: submit_answered_def)
next
  let ?p = "pruned c b" and ?k = "nonce_key c q"
  assume a: "submit_admitted c q b t"
  have p: "registry_ok ?p" by (rule registry_ok_pruned [OF assms(1)])
  with a have "map_get (lb_nonceExpiry ?p) ?k = None" unfolding submit_admitted_def registry_ok_def map_get_None_keys by argo
  with a p show ?thesis by (auto simp: submit_admitted_def registry_ok_def map_set_new map_get_None_keys)
qed

section \<open>Runs of the broker\<close>

definition broker_ok :: "broker_config \<Rightarrow> la_broker \<Rightarrow> bool" where
  "broker_ok c b \<longleftrightarrow> settled_inv c b \<and> registry_ok b"

text \<open>Every operation but a submission leaves the registry alone.\<close>

lemma broker_step_outcome:
  assumes "broker_step c b t" and "settled_inv c b"
  shows "settled_inv c t \<and> (registry_frame b t \<or> (\<exists>q r. submit_answered c q b r t \<or> submit_admitted c q b t))"
  using assms
proof cases
  case (submitted q r)
  from broker_submit_outcome [OF assms(2) this] show ?thesis by blast
next
  case (cancelled identity reason r)
  from finish_each_inv [OF assms(2) _ this [unfolded cancelBinding_def]] show ?thesis by simp
next
  case (stale_cancelled identity reason r)
  from finish_each_inv [OF assms(2) _ this [unfolded cancelStaleForIdentity_def]] show ?thesis by simp
next
  case (decided i allow scope r)
  from broker_decide_inv [OF assms(2) this] show ?thesis by simp
next
  case (awaited i r)
  from awaiting_inv [OF assms(2) this] show ?thesis by simp
next
  case (completed i identity status safeData reason r)
  from broker_complete_inv [OF assms(2) this] show ?thesis by simp
next
  case (expired r)
  from broker_expire_inv [OF assms(2) this] show ?thesis by simp
next
  case (current r)
  from broker_current_inv [OF assms(2) this] show ?thesis by simp
qed

lemma broker_step_ok: "broker_ok c b \<Longrightarrow> broker_step c b t \<Longrightarrow> broker_ok c t"
  using broker_step_outcome [of c b t] registry_ok_frame [of b t] submit_registry [of b c _ _ t] by (auto simp: broker_ok_def)

lemma broker_new_ok: "broker_config_ok c \<Longrightarrow> broker_ok c broker_new"
  by (simp add: broker_ok_def settled_inv_def broker_inv_def queue_ok_def history_ok_def head_ok_def registry_ok_def broker_new_def
      broker_config_ok_def)

interpretation broker: invariant_system "\<lambda>b. broker_config_ok c \<and> b = broker_new" "broker_step c" "broker_ok c" for c
  by unfold_locales (auto intro: broker_new_ok broker_step_ok)

section \<open>Spent nonces\<close>

text \<open>
  A nonce admitted with expiry \<open>e\<close> is spent: it is in the registry until the broker has read a
  clock at or past \<open>e\<close>.
\<close>

definition spent :: "broker_config \<Rightarrow> string \<Rightarrow> int \<Rightarrow> la_broker \<Rightarrow> bool" where
  "spent c k e b \<longleftrightarrow> map_get (lb_nonceExpiry b) k = Some e \<and> map_get (lb_nonces b) k \<noteq> None \<or>
     (\<exists>n < lb_reads b. e \<le> bc_clock c n)"

lemma map_get_filter_keys: "map_get (filter (\<lambda>(k, _). P k) m) j = (if P j then map_get m j else None)"
  by (induction m) auto

lemma spent_prune:
  assumes "spent c k e b" and "registry_ok b"
  shows "spent c k e (pruned c b)"
proof (cases "\<exists>n < lb_reads b. e \<le> bc_clock c n")
  case True
  then show ?thesis by (auto simp: spent_def intro: less_SucI)
next
  case False
  with assms(1) have k: "map_get (lb_nonceExpiry b) k = Some e" "map_get (lb_nonces b) k \<noteq> None" by (auto simp: spent_def)
  show ?thesis
  proof (cases "e \<le> bc_clock c (lb_reads b)")
    case True
    then show ?thesis by (auto simp: spent_def)
  next
    case False
    have "distinct (map fst (lb_nonceExpiry b))" using assms(2) by (simp add: registry_ok_def)
    then have "k \<notin> set (map fst (filter (\<lambda>(_, e). e \<le> bc_clock c (lb_reads b)) (lb_nonceExpiry b)))"
      using k(1) False by (auto dest: map_of_is_SomeI [rotated])
    with k show ?thesis by (simp add: spent_def pruned_def broker_prune_def Let_def map_get_filter_keys)
  qed
qed

lemma spent_frame: "registry_frame b t \<Longrightarrow> spent c k e b \<Longrightarrow> spent c k e t"
  by (auto simp: registry_frame_def spent_def)

lemma spent_step:
  assumes "broker_ok c b" and "broker_step c b t" and "spent c k e b"
  shows "spent c k e t"
proof -
  from assms(1) have inv: "settled_inv c b" "registry_ok b" by (simp_all add: broker_ok_def)
  have p: "spent c k e (pruned c b)" by (rule spent_prune [OF assms(3) inv(2)])
  have "spent c k e t" if "submit_admitted c q b t" for q
    using that p by (auto simp: submit_admitted_def spent_def)
  moreover have "spent c k e t" if "submit_answered c q b r t" for q r
    using that p spent_frame by (auto simp: submit_answered_def)
  ultimately show ?thesis using broker_step_outcome [OF assms(2) inv(1)] spent_frame [OF _ assms(3)] by blast
qed

interpretation spent: invariant_system "\<lambda>b. broker_ok c b \<and> spent c k e b" "broker_step c" "\<lambda>b. broker_ok c b \<and> spent c k e b" for c k e
  by unfold_locales (auto intro: broker_step_ok spent_step)

lemma submit_spends: "submit_admitted c q b t \<Longrightarrow> spent c (nonce_key c q) (rq_expiresAt q) t"
  by (auto simp: submit_admitted_def spent_def)

lemma spent_not_admitted:
  assumes "spent c (nonce_key c q) e b" and "registry_ok b" and "mono (bc_clock c)" and "rq_expiresAt q \<le> e"
  shows "\<not> submit_admitted c q b t"
proof
  assume a: "submit_admitted c q b t"
  have "spent c (nonce_key c q) e (pruned c b)" by (rule spent_prune [OF assms(1,2)])
  with a obtain n where "n \<le> lb_reads b" "e \<le> bc_clock c n" by (auto simp: submit_admitted_def spent_def less_Suc_eq_le)
  moreover have "bc_clock c n \<le> bc_clock c (lb_reads b)" using assms(3) \<open>n \<le> lb_reads b\<close> by (rule monoD)
  ultimately show False using a assms(4) by (simp add: submit_admitted_def)
qed


section \<open>A broker at work\<close>

text \<open>One request is submitted and allowed by the user.\<close>

definition sample_config :: broker_config where
  "sample_config = \<lparr>bc_policy = \<lparr>po_project = [], po_device = []\<rparr>, bc_maximum = 16, bc_clock = int, bc_live = \<lambda>_ _. True,
     bc_sha = \<lambda>_. replicate 64 (CHR ''0''), bc_admit = \<lambda>_ _. False\<rparr>"

definition sample_request :: la_request where
  "sample_request = \<lparr>rq_version = 1, rq_id = ''r1'',
     rq_identity = \<lparr>id_userId = ''u'', id_deviceId = ''d'', id_machineId = ''m'', id_workspaceBindingId = None,
       id_workspaceBindingGeneration = None, id_agentSessionId = ''s'', id_processEpoch = ''e'', id_fencingGeneration = 1\<rparr>,
     rq_provider = Claude_code, rq_kind = Clipboard_write, rq_arguments = [(''text'', JStr ''hi'')],
     rq_argumentsDigest = ''sha256:'' @ replicate 64 (CHR ''0''), rq_requestedScope = ''clipboard'', rq_createdAt = 0,
     rq_expiresAt = 1000, rq_nonce = ''n1''\<rparr>"


definition sample_snapshot :: "la_state \<Rightarrow> la_policy_decision option \<Rightarrow> la_snapshot" where
  "sample_snapshot state dec = \<lparr>sn_request = sample_request, sn_state = state, sn_decision = dec, sn_result = None\<rparr>"

definition sample_broker :: "la_snapshot \<Rightarrow> nat \<Rightarrow> la_broker" where
  "sample_broker s n = \<lparr>lb_requests = [(''r1'', s)], lb_queue = [''r1''], lb_nonces = [(nonce_key sample_config sample_request, ''r1'')],
     lb_nonceExpiry = [(nonce_key sample_config sample_request, 1000)], lb_terminalOrder = [], lb_reads = n\<rparr>"

definition sample_pending :: la_snapshot where
  "sample_pending = sample_snapshot Pending_user (Some (policy_decision ''r1'' Ask None Interactive_user 4))"

definition sample_running :: la_snapshot where
  "sample_running = sample_snapshot Executing (Some (policy_decision ''r1'' Allow_once (Some ''clipboard'') Interactive_user 6))"

lemma sample_request_fields [simp]:
  "rq_id sample_request = ''r1''" "rq_requestedScope sample_request = ''clipboard''" "rq_expiresAt sample_request = 1000"
  "rq_provider sample_request = Claude_code" "rq_kind sample_request = Clipboard_write"
  by (simp_all add: sample_request_def)

lemma sample_config_fields [simp]:
  "bc_clock sample_config = int" "bc_live sample_config n i" "bc_maximum sample_config = 16"
  by (simp_all add: sample_config_def)

lemma sample_policy [simp]: "policy_evaluate (bc_policy sample_config) sample_request now = policy_decision ''r1'' Ask None Interactive_user now"
  by (simp add: sample_config_def policy_evaluate_def strongestMatchingRule_def rule_denies_def)

lemma sample_arguments [simp]: "validateLocalActionArguments (bc_sha sample_config) (bc_admit sample_config) sample_request"
  by (simp add: validateLocalActionArguments_def sample_config_def sample_request_def workspaceScoped_def exactKeys_def boundedString_def
      bounded_text_def utf8_length_def)

lemma sample_canonical: "canonicalJson (JObj (rq_arguments sample_request)) = Some ''{\"text\":\"hi\"}''"
  by code_simp

lemma sample_digest: "is_sha256_digest (rq_argumentsDigest sample_request)" "request_identity_ok (rq_identity sample_request)"
  "identifier_text ''r1''" "identifier_text ''clipboard''" "identifier_text (rq_nonce sample_request)"
  by code_simp+

lemma sample_rest:
  "rq_version sample_request = local_action_protocol_version" "is_safe_integer (rq_createdAt sample_request)" "is_safe_integer 1000"
  "rq_createdAt sample_request < 1000" "0 \<le> n \<Longrightarrow> rq_createdAt sample_request \<le> n + max_local_action_future_skew_ms"
  "1000 - rq_createdAt sample_request \<le> max_local_action_ttl_ms" "utf8_length ''{\"text\":\"hi\"}'' \<le> max_local_action_argument_bytes"
  "CHR ''s'' # CHR ''h'' # CHR ''a'' # CHR ''2'' # CHR ''5'' # CHR ''6'' # CHR '':'' # bc_sha sample_config bs = rq_argumentsDigest sample_request"
  by (simp_all add: sample_config_def sample_request_def is_safe_integer_def max_safe_integer_def local_action_protocol_version_def
      max_local_action_future_skew_ms_def max_local_action_ttl_ms_def utf8_length_def max_local_action_argument_bytes_def)

lemma sample_valid [simp]: "0 \<le> n \<Longrightarrow> n < 1000 \<Longrightarrow> validateRequest (bc_sha sample_config) sample_request n = Inr ()"
  unfolding validateRequest_def digestLocalActionArguments_def sample_canonical option.case option.map
  by (simp add: sample_digest sample_rest)

lemma sample_provider [simp]: "providerAllowsLocalAction Claude_code Clipboard_write"
  by code_simp

lemma sample_submits: "broker_submit sample_config sample_request broker_new = (Inr sample_pending, sample_broker sample_pending 5)"
  by (simp add: broker_submit_def broker_new_def read_defs broker_prune_def admit_request_def 
      max_local_action_replay_entries_def freezeSnapshot_def activateHead_def sample_broker_def sample_pending_def nonce_key_def
      sample_snapshot_def policy_decision_def)

lemma sample_decides:
  "broker_decide sample_config ''r1'' True None (sample_broker sample_pending 5) = (Inr sample_running, sample_broker sample_running 7)"
  by (simp add: broker_decide_def read_defs broker_transition_def sample_broker_def sample_pending_def sample_running_def sample_snapshot_def
      freezeSnapshot_def policy_decision_def)

lemma sample_runs: "(broker_step sample_config)\<^sup>*\<^sup>* broker_new (sample_broker sample_running 7)"
  using broker_step.submitted [OF sample_submits] broker_step.decided [OF sample_decides]
  by (meson r_into_rtranclp rtranclp.rtrancl_into_rtrancl)


lemma sample_config_ok: "broker_config_ok sample_config"
  by (simp add: broker_config_ok_def is_safe_integer_def max_safe_integer_def max_local_action_queue_def)

lemma sample_filed: "map_get (lb_requests (sample_broker s n)) ''r1'' = Some s"
  by (simp add: sample_broker_def)

section \<open>Properties\<close>

lemma open_requests:
  assumes "broker_inv c {} b"
  shows "length (lb_requests b) \<le> length (lb_terminalOrder b) + length (lb_queue b)"
proof -
  have d: "distinct (map fst (lb_requests b))" using assms by (simp add: broker_inv_def history_ok_def)
  have "set (map fst (lb_requests b)) \<subseteq> set (lb_terminalOrder b @ lb_queue b)"
  proof
    fix i assume "i \<in> set (map fst (lb_requests b))"
    then obtain s where "map_get (lb_requests b) i = Some s" using map_get_None_keys [of "lb_requests b" i] by auto
    then have "snapshot_ok b {} i s" using assms by (simp add: broker_inv_def)
    then show "i \<in> set (lb_terminalOrder b @ lb_queue b)" by (auto simp: snapshot_ok_def)
  qed
  then have "card (set (map fst (lb_requests b))) \<le> length (lb_terminalOrder b @ lb_queue b)"
    by (rule le_trans [OF card_mono card_length, rotated]) simp
  then show ?thesis using distinct_card [OF d] by simp
qed

text \<open>
  C2. Consent. In every reachable state of the broker, whatever the policies, the clock and the
  order of submissions, decisions, completions, expiries and cancellations, a request that is
  being executed, awaits its remote completion, or has succeeded or failed, carries a decision
  of the interactive user that allows this one request, by its id, for exactly the scope it
  asked for. No policy, replay or widened scope gets a local action executed.
\<close>

theorem broker_consent:
  assumes "broker_config_ok c" and "(broker_step c)\<^sup>*\<^sup>* broker_new b" and "map_get (lb_requests b) i = Some s"
    and "sn_state s \<in> {Executing, Awaiting_remote_completion, Succeeded, Failed}"
  shows "\<exists>t. sn_decision s = Some \<lparr>pd_requestId = i, pd_decision = Allow_once, pd_grantedScope = Some (rq_requestedScope (sn_request s)),
     pd_policySource = Interactive_user, pd_decidedAt = t\<rparr>"
proof -
  have "broker_ok c b" using broker.reachable_inv assms(1,2) by blast
  then have "snapshot_ok b {} i s" using assms(3) by (simp add: broker_ok_def settled_inv_def broker_inv_def)
  then have "consent_ok s" "rq_id (sn_request s) = i" by (simp_all add: snapshot_ok_def)
  then show ?thesis using assms(4) unfolding consent_ok_def by blast
qed

theorem broker_consent_witness:
  "\<exists>t. sn_decision sample_running = Some \<lparr>pd_requestId = ''r1'', pd_decision = Allow_once, pd_grantedScope = Some ''clipboard'',
     pd_policySource = Interactive_user, pd_decidedAt = t\<rparr>"
  using broker_consent [OF sample_config_ok sample_runs sample_filed]
  by (simp add: sample_running_def sample_snapshot_def)

text \<open>
  One request at a time, in bounded memory. In every reachable state, a request on file is
  either settled or queued; it has been presented (it waits for the user, is executed or awaits
  its remote completion) exactly if it is the head of the queue; and the queue holds at most 16
  requests, the history at most 128, the registry of nonces at most 4096 entries and the file of
  requests at most 144.
\<close>

theorem broker_one_at_a_time:
  assumes "broker_config_ok c" and "(broker_step c)\<^sup>*\<^sup>* broker_new b" and "map_get (lb_requests b) i = Some s"
  shows "(terminal_state (sn_state s) \<noteq> (i \<in> set (lb_queue b))) \<and>
     ((\<not> terminal_state (sn_state s) \<and> sn_state s \<noteq> Validated) = (lb_queue b \<noteq> [] \<and> hd (lb_queue b) = i)) \<and>
     length (lb_queue b) \<le> 16 \<and> length (lb_terminalOrder b) \<le> 128 \<and> length (lb_nonces b) \<le> 4096 \<and> length (lb_requests b) \<le> 144"
proof -
  have ok: "broker_ok c b" using broker.reachable_inv assms(1,2) by blast
  then have inv: "broker_inv c {} b" "head_ok b" "registry_ok b" by (simp_all add: broker_ok_def settled_inv_def)
  then have "snapshot_ok b {} i s" using assms(3) by (simp add: broker_inv_def)
  then have sn: "terminal_state (sn_state s) \<noteq> (i \<in> set (lb_queue b))" unfolding snapshot_ok_def by blast
  have "length (lb_queue b) \<le> 16" "length (lb_terminalOrder b) \<le> 128" "length (lb_nonces b) \<le> 4096"
    using inv assms(1) by (auto simp: broker_inv_def queue_ok_def history_ok_def registry_ok_def broker_config_ok_def
        max_local_action_queue_def max_local_action_history_def max_local_action_replay_entries_def)
  moreover have "\<not> terminal_state (sn_state s) \<and> sn_state s \<noteq> Validated \<longleftrightarrow> lb_queue b \<noteq> [] \<and> hd (lb_queue b) = i"
    using active_is_head [OF inv(1) assms(3)] sn inv(2) assms(3) by (cases "lb_queue b") (auto simp: head_ok_def)
  ultimately show ?thesis using sn open_requests [OF inv(1)] by linarith
qed

theorem broker_one_at_a_time_witness:
  "length (lb_requests (sample_broker sample_running 7)) \<le> 144 \<and> lb_queue (sample_broker sample_running 7) \<noteq> [] \<and>
   hd (lb_queue (sample_broker sample_running 7)) = ''r1''"
  using broker_one_at_a_time [OF sample_config_ok sample_runs sample_filed]
  by (simp add: sample_running_def sample_snapshot_def terminal_state.simps)

text \<open>
  C34. No replay. Once the broker has admitted a request, then as long as its clock does not go
  back, no later submission under the same session identity and nonce that claims to live no
  longer than the first is admitted: whatever happened in between (the request was settled,
  evicted from the history, its nonce pruned), the submission leaves the requests and the queue
  as they are, and it is refused or answered with the same request still on file.
\<close>

theorem broker_no_replay:
  assumes "broker_config_ok c" and "mono (bc_clock c)" and "(broker_step c)\<^sup>*\<^sup>* broker_new b0"
    and "map_get (lb_requests b0) (rq_id q) = None" and "broker_submit c q b0 = (Inr s, b1)" and "(broker_step c)\<^sup>*\<^sup>* b1 b2"
    and "rq_identity q' = rq_identity q" and "rq_nonce q' = rq_nonce q" and "rq_expiresAt q' \<le> rq_expiresAt q"
    and "broker_submit c q' b2 = (r, b3)"
  shows "lb_requests b3 = lb_requests b2 \<and> lb_queue b3 = lb_queue b2 \<and>
     (isl r \<or> (\<exists>u. r = Inr u \<and> map_get (lb_requests b2) (rq_id q') = Some u \<and> sameRequest (sn_request u) q'))"
proof -
  have ok0: "broker_ok c b0" using broker.reachable_inv assms(1,3) by blast
  then have "submit_admitted c q b0 b1"
    using broker_submit_outcome [OF _ assms(5)] assms(4) by (auto simp: broker_ok_def submit_answered_def)
  then have "spent c (nonce_key c q) (rq_expiresAt q) b1" by (rule submit_spends)
  moreover have "broker_ok c b1" using broker_step_ok [OF ok0] assms(5) by (blast intro: broker_step.submitted)
  ultimately have s2: "broker_ok c b2" "spent c (nonce_key c q) (rq_expiresAt q) b2" using spent.steps_inv [OF assms(6)] by blast+
  have k: "nonce_key c q' = nonce_key c q" using assms(7,8) by (simp add: nonce_key_def)
  have "\<not> submit_admitted c q' b2 b3" using spent_not_admitted [OF _ _ assms(2,9)] s2 k by (simp add: broker_ok_def)
  then have "submit_answered c q' b2 r b3" using broker_submit_outcome [OF _ assms(10)] s2(1) by (auto simp: broker_ok_def)
  then show ?thesis by (cases r) (auto simp: submit_answered_def)
qed

theorem broker_no_replay_witness:
  "\<exists>r t. broker_submit sample_config (sample_request\<lparr>rq_id := ''r2''\<rparr>) (sample_broker sample_running 7) = (r, t) \<and>
     lb_queue t = lb_queue (sample_broker sample_running 7)"
proof -
  obtain r t where s: "broker_submit sample_config (sample_request\<lparr>rq_id := ''r2''\<rparr>) (sample_broker sample_running 7) = (r, t)" by force
  have "mono (bc_clock sample_config)" "map_get (lb_requests broker_new) (rq_id sample_request) = None"
    by (simp_all add: mono_def broker_new_def)
  from broker_no_replay [OF sample_config_ok this(1) rtranclp.rtrancl_refl this(2) sample_submits
      r_into_rtranclp [of "broker_step sample_config", OF broker_step.decided [OF sample_decides]] _ _ _ s]
  show ?thesis using s by auto
qed

end
