(* ===== verification/Host_Mouse.thy ===== *)
theory Host_Mouse
  imports Wire Json "HOL-Library.Sublist"
begin

text \<open>
  Mouse reports of the host terminal and the reports forwarded to the remote program,
  \<^verbatim>\<open>src/terminal/host-mouse.ts\<close>. \<^verbatim>\<open>HostMouseDecoder\<close> splits a stream of input bytes into text and
  SGR mouse reports; its state is the carried prefix and the state of bracketed paste. The loop
  of \<^verbatim>\<open>push\<close> is \<open>mouse_loop\<close>, over the bytes that are left; its reference is \<open>mouse_run\<close>, which
  knows neither chunks nor segments.
\<close>

section \<open>Data\<close>

record host_mouse_event =
  me_button :: nat
  me_column :: nat
  me_row :: nat
  me_release :: bool

datatype host_input_segment = Seg_bytes "byte list" | Seg_mouse host_mouse_event

definition ESC :: byte where "ESC = 0x1b"
definition paste_start :: "byte list" where "paste_start = [ESC, 0x5b, 0x32, 0x30, 0x30, 0x7e]"
definition paste_end :: "byte list" where "paste_end = [ESC, 0x5b, 0x32, 0x30, 0x31, 0x7e]"
definition report_start :: "byte list" where "report_start = [ESC, 0x5b, 0x3c]"
definition max_report_bytes :: nat where "max_report_bytes = 24"
definition modifier_bits :: int where "modifier_bits = 28"
definition motion_bit :: int where "motion_bit = 32"

record host_mouse_decoder =
  md_carry :: "byte list"
  md_pasting :: bool
  md_pasteMatch :: nat

definition mouse_decoder_new :: host_mouse_decoder where
  "mouse_decoder_new = \<lparr>md_carry = [], md_pasting = False, md_pasteMatch = 0\<rparr>"

definition hasPending :: "host_mouse_decoder \<Rightarrow> bool" where
  "hasPending d \<longleftrightarrow> md_carry d \<noteq> []"

definition needsIdleRelease :: "host_mouse_decoder \<Rightarrow> bool" where
  "needsIdleRelease d \<longleftrightarrow> md_carry d = [ESC] \<or> md_carry d = [ESC, 0x5b]"

definition flushPending :: "host_mouse_decoder \<Rightarrow> byte list \<times> host_mouse_decoder" where
  "flushPending d = (md_carry d, d\<lparr>md_carry := []\<rparr>)"

section \<open>Decoding\<close>

text \<open>The input from an index on is the list of the bytes that are left.\<close>

definition startsWith :: "byte list \<Rightarrow> byte list \<Rightarrow> bool" where
  "startsWith input p \<longleftrightarrow> length p \<le> length input \<and> take (length p) input = p"

definition incompletePrefix :: "byte list \<Rightarrow> byte list \<Rightarrow> bool" where
  "incompletePrefix input p \<longleftrightarrow> length input < length p \<and> take (length input) p = input"

datatype sgr_parse = Report host_mouse_event nat | Incomplete | Not_a_report

text \<open>\<open>i\<close> is \<^verbatim>\<open>index - start\<close>; a report gives the event and the number of its bytes.\<close>

fun sgr_scan :: "nat \<Rightarrow> nat list \<Rightarrow> nat \<Rightarrow> byte list \<Rightarrow> sgr_parse" where
  "sgr_scan i fs digits [] = (if i \<ge> max_report_bytes then Not_a_report else Incomplete)"
| "sgr_scan i fs digits (b # bs) =
     (if i \<ge> max_report_bytes then Not_a_report
      else if 0x30 \<le> b \<and> b \<le> 0x39 then
        (if digits \<ge> 5 then Not_a_report
         else sgr_scan (Suc i) (butlast fs @ [last fs * 10 + (unat b - 48)]) (Suc digits) bs)
      else if b = 0x3b then
        (if digits = 0 \<or> length fs = 3 then Not_a_report else sgr_scan (Suc i) (fs @ [0]) 0 bs)
      else if b = 0x4d \<or> b = 0x6d then
        (if digits = 0 \<or> length fs \<noteq> 3 then Not_a_report
         else if fs ! 1 < 1 \<or> fs ! 2 < 1 then Not_a_report
         else Report \<lparr>me_button = fs ! 0, me_column = fs ! 1, me_row = fs ! 2, me_release = (b = 0x6d)\<rparr> (Suc i))
      else Not_a_report)"

definition parseSgrReport :: "byte list \<Rightarrow> sgr_parse" where
  "parseSgrReport input = sgr_scan 3 [0] 0 (drop 3 input)"

lemma sgr_scan_next: "sgr_scan i fs digits bs = Report e n \<Longrightarrow> i < n \<and> n \<le> i + length bs"
  by (induction i fs digits bs rule: sgr_scan.induct) (fastforce split: if_splits)+

lemma parse_next: "parseSgrReport input = Report e n \<Longrightarrow> 3 < n"
  using sgr_scan_next by (auto simp: parseSgrReport_def)

definition flushPlain :: "byte list \<Rightarrow> host_input_segment list \<Rightarrow> host_input_segment list" where
  "flushPlain plain segments = (if plain = [] then segments else segments @ [Seg_bytes plain])"

definition paste_step :: "byte \<Rightarrow> nat \<Rightarrow> nat" where
  "paste_step b m = (if m < length paste_end \<and> b = paste_end ! m then Suc m else if b = hd paste_end then 1 else 0)"

text \<open>
  The loop of \<^verbatim>\<open>push\<close>. \<open>fresh\<close> is \<^verbatim>\<open>hadCarry && index === 0\<close>; the results are the segments and the decoder.
\<close>

function mouse_loop ::
  "bool \<Rightarrow> bool \<Rightarrow> nat \<Rightarrow> byte list \<Rightarrow> byte list \<Rightarrow> host_input_segment list \<Rightarrow> host_input_segment list \<times> host_mouse_decoder" where
  "mouse_loop fresh pasting m [] plain segments =
     (flushPlain plain segments, \<lparr>md_carry = [], md_pasting = pasting, md_pasteMatch = m\<rparr>)"
| "mouse_loop fresh pasting m (b # bs) plain segments =
     (if pasting then
        (let m' = paste_step b m in
         if m' = length paste_end then mouse_loop False False 0 bs (plain @ [b]) segments
         else mouse_loop False True m' bs (plain @ [b]) segments)
      else if fresh \<and> b = ESC \<and> bs \<noteq> [] \<and> hd bs \<noteq> 0x5b then
        mouse_loop False False m bs [] (flushPlain (plain @ [ESC]) segments)
      else if b = ESC \<and> (incompletePrefix (b # bs) paste_start \<or> incompletePrefix (b # bs) report_start) then
        (flushPlain plain segments, \<lparr>md_carry = b # bs, md_pasting = False, md_pasteMatch = m\<rparr>)
      else if b = ESC \<and> startsWith (b # bs) paste_start then
        mouse_loop False True 0 (drop (length paste_start) (b # bs)) (plain @ paste_start) segments
      else if startsWith (b # bs) report_start then
        (case parseSgrReport (b # bs) of
           Incomplete \<Rightarrow> (flushPlain plain segments, \<lparr>md_carry = b # bs, md_pasting = False, md_pasteMatch = m\<rparr>)
         | Report e n \<Rightarrow> mouse_loop False False m (drop n (b # bs)) [] (flushPlain plain segments @ [Seg_mouse e])
         | Not_a_report \<Rightarrow> mouse_loop False False m bs (plain @ [b]) segments)
      else mouse_loop False False m bs (plain @ [b]) segments)"
  by pat_completeness auto

termination
  by (relation "measure (\<lambda>(_, _, _, input, _, _). length input)") (auto simp: paste_start_def dest: parse_next)

declare mouse_loop.simps(2) [simp del]

definition mouse_push :: "host_mouse_decoder \<Rightarrow> byte list \<Rightarrow> host_input_segment list \<times> host_mouse_decoder" where
  "mouse_push d chunk = mouse_loop (md_carry d \<noteq> []) (md_pasting d) (md_pasteMatch d) (md_carry d @ chunk) [] []"

fun mouse_push_all :: "host_mouse_decoder \<Rightarrow> byte list list \<Rightarrow> host_input_segment list \<times> host_mouse_decoder" where
  "mouse_push_all d [] = ([], d)"
| "mouse_push_all d (c # cs) =
     (let (segments, d1) = mouse_push d c; (rest, d2) = mouse_push_all d1 cs in (segments @ rest, d2))"

section \<open>Forwarding\<close>

definition button_base :: "nat \<Rightarrow> int" where
  "button_base button = int button AND NOT (modifier_bits OR motion_bit)"

definition wheelDirection :: "host_mouse_event \<Rightarrow> int" where
  "wheelDirection e =
     (if me_release e then 0
      else if button_base (me_button e) = 64 then -1 else if button_base (me_button e) = 65 then 1 else 0)"

datatype remote_tracking = Tracking_none | X10 | Vt200 | Drag | Any

record remote_mouse_reporting =
  rm_tracking :: remote_tracking
  rm_sgr :: bool

definition encodeRemoteMouse :: "host_mouse_event \<Rightarrow> remote_mouse_reporting \<Rightarrow> nat \<Rightarrow> nat \<Rightarrow> byte list option" where
  "encodeRemoteMouse e r column row =
     (let wheel = wheelDirection e \<noteq> 0 \<or> button_base (me_button e) \<ge> 64;
          button = (if rm_tracking r = X10 then button_base (me_button e) else int (me_button e))
      in if rm_tracking r = Tracking_none then None
         else if int (me_button e) AND motion_bit \<noteq> 0 \<and> rm_tracking r \<notin> {Drag, Any} then None
         else if rm_tracking r = X10 \<and> (me_release e \<or> wheel) then None
         else if rm_sgr r then
           Some (utf8_bytes (CHR 0x1B # ''[<'' @ int_text button @ '';'' @ nat_text column @ '';'' @ nat_text row @
             (if me_release e then ''m'' else ''M'')))
         else if column > 223 \<or> row > 223 then None
         else let legacyButton = (if me_release e \<and> \<not> wheel then 3 OR (button AND modifier_bits) else button)
              in Some [ESC, 0x5b, 0x4d, of_int (32 + legacyButton), of_nat (32 + column), of_nat (32 + row)])"

section \<open>The decoder without chunks\<close>

text \<open>An item of the input: a byte of text, or a mouse event.\<close>

fun segment_items :: "host_input_segment \<Rightarrow> (byte + host_mouse_event) list" where
  "segment_items (Seg_bytes bs) = map Inl bs"
| "segment_items (Seg_mouse e) = [Inr e]"

definition items_of :: "host_input_segment list \<Rightarrow> (byte + host_mouse_event) list" where
  "items_of segments = concat (map segment_items segments)"

text \<open>The reference: the items of an input, and the decoder it leaves.\<close>

function mouse_run :: "bool \<Rightarrow> nat \<Rightarrow> byte list \<Rightarrow> (byte + host_mouse_event) list \<times> host_mouse_decoder" where
  "mouse_run pasting m [] = ([], \<lparr>md_carry = [], md_pasting = pasting, md_pasteMatch = m\<rparr>)"
| "mouse_run pasting m (b # bs) =
     (if pasting then
        (let m' = paste_step b m in
         map_prod (Cons (Inl b)) id (if m' = length paste_end then mouse_run False 0 bs else mouse_run True m' bs))
      else if incompletePrefix (b # bs) paste_start \<or> incompletePrefix (b # bs) report_start then
        ([], \<lparr>md_carry = b # bs, md_pasting = False, md_pasteMatch = m\<rparr>)
      else if startsWith (b # bs) paste_start then
        map_prod (append (map Inl paste_start)) id (mouse_run True 0 (drop (length paste_start) (b # bs)))
      else if startsWith (b # bs) report_start then
        (case parseSgrReport (b # bs) of
           Incomplete \<Rightarrow> ([], \<lparr>md_carry = b # bs, md_pasting = False, md_pasteMatch = m\<rparr>)
         | Report e n \<Rightarrow> map_prod (Cons (Inr e)) id (mouse_run False m (drop n (b # bs)))
         | Not_a_report \<Rightarrow> map_prod (Cons (Inl b)) id (mouse_run False m bs))
      else map_prod (Cons (Inl b)) id (mouse_run False m bs))"
  by pat_completeness auto

termination
  by (relation "measure (\<lambda>(_, _, input). length input)") (auto simp: paste_start_def dest: parse_next)

declare mouse_run.simps(2) [simp del]

lemma items_of_simps [simp]:
  "items_of [] = []" "items_of (xs @ ys) = items_of xs @ items_of ys" "items_of (s # xs) = segment_items s @ items_of xs"
  "items_of (flushPlain plain segments) = items_of segments @ map Inl plain"
  by (auto simp: items_of_def flushPlain_def)

lemma startsWith_prefix: "startsWith input p = prefix p input"
  by (auto simp: startsWith_def prefix_def) (metis append_take_drop_id)

lemma incompletePrefix_prefix: "incompletePrefix input p = strict_prefix input p"
proof
  assume "incompletePrefix input p"
  then have "p = input @ drop (length input) p" "length input < length p" unfolding incompletePrefix_def by (metis append_take_drop_id, simp)
  then show "strict_prefix input p" by (metis prefixI strict_prefix_def less_irrefl)
next
  assume "strict_prefix input p"
  then show "incompletePrefix input p" using prefix_length_less [of input p] by (auto simp: incompletePrefix_def strict_prefix_def prefix_def)
qed

lemmas prefix_defs = startsWith_prefix incompletePrefix_prefix paste_start_def report_start_def

lemma prefix_ESC:
  "incompletePrefix (b # bs) paste_start \<Longrightarrow> b = ESC" "incompletePrefix (b # bs) report_start \<Longrightarrow> b = ESC"
  "startsWith (b # bs) paste_start \<Longrightarrow> b = ESC" "startsWith (b # bs) report_start \<Longrightarrow> b = ESC"
  by (simp_all add: prefix_defs)

text \<open>An escape before another key than \<^verbatim>\<open>[\<close> starts neither a paste nor a report.\<close>

lemma lone_ESC:
  assumes "bs \<noteq> []" and "hd bs \<noteq> 0x5b"
  shows "\<not> incompletePrefix (b # bs) paste_start" "\<not> incompletePrefix (b # bs) report_start"
    "\<not> startsWith (b # bs) paste_start" "\<not> startsWith (b # bs) report_start"
  using assms by (cases bs; simp add: prefix_defs)+

text \<open>The branches of the loop, one equation each.\<close>

definition held :: "byte list \<Rightarrow> bool" where
  "held input \<longleftrightarrow> incompletePrefix input paste_start \<or> incompletePrefix input report_start"

lemma held_ESC: "held (b # bs) \<Longrightarrow> b = ESC"
  by (auto simp: held_def dest: prefix_ESC)

lemma mouse_run_paste: "mouse_run True m (b # bs) =
    map_prod (Cons (Inl b)) id (if paste_step b m = length paste_end then mouse_run False 0 bs else mouse_run True (paste_step b m) bs)"
  by (simp add: mouse_run.simps(2) Let_def)

lemma mouse_run_held: "held (b # bs) \<Longrightarrow> mouse_run False m (b # bs) = ([], \<lparr>md_carry = b # bs, md_pasting = False, md_pasteMatch = m\<rparr>)"
  by (simp add: mouse_run.simps(2) held_def)

lemma mouse_run_start: "\<not> held (b # bs) \<Longrightarrow> startsWith (b # bs) paste_start \<Longrightarrow> mouse_run False m (b # bs) =
    map_prod (append (map Inl paste_start)) id (mouse_run True 0 (drop (length paste_start) (b # bs)))"
  by (simp add: mouse_run.simps(2) held_def)

lemma mouse_run_report: "\<not> held (b # bs) \<Longrightarrow> \<not> startsWith (b # bs) paste_start \<Longrightarrow> startsWith (b # bs) report_start \<Longrightarrow> mouse_run False m (b # bs) =
    (case parseSgrReport (b # bs) of
       Incomplete \<Rightarrow> ([], \<lparr>md_carry = b # bs, md_pasting = False, md_pasteMatch = m\<rparr>)
     | Report e n \<Rightarrow> map_prod (Cons (Inr e)) id (mouse_run False m (drop n (b # bs)))
     | Not_a_report \<Rightarrow> map_prod (Cons (Inl b)) id (mouse_run False m bs))"
  by (simp add: mouse_run.simps(2) held_def)

lemma mouse_run_text: "\<not> held (b # bs) \<Longrightarrow> \<not> startsWith (b # bs) paste_start \<Longrightarrow> \<not> startsWith (b # bs) report_start \<Longrightarrow>
    mouse_run False m (b # bs) = map_prod (Cons (Inl b)) id (mouse_run False m bs)"
  by (simp add: mouse_run.simps(2) held_def)

lemmas mouse_run_branches = mouse_run_paste mouse_run_held mouse_run_start mouse_run_report mouse_run_text

lemma mouse_loop_run:
  "items_of (fst (mouse_loop fresh pasting m input plain segments)) = items_of segments @ map Inl plain @ fst (mouse_run pasting m input) \<and>
   snd (mouse_loop fresh pasting m input plain segments) = snd (mouse_run pasting m input)"
proof (induction fresh pasting m input plain segments rule: mouse_loop.induct)
  case (2 fresh pasting m b bs plain segments)
  consider (paste) "pasting = True" | (key) "pasting = False" "fresh \<and> b = ESC \<and> bs \<noteq> [] \<and> hd bs \<noteq> 0x5b"
    | (normal) "pasting = False" "\<not> (fresh \<and> b = ESC \<and> bs \<noteq> [] \<and> hd bs \<noteq> 0x5b)" by blast
  then show ?case
  proof cases
    case paste
    then show ?thesis using 2(1,2)
      by (cases "paste_step b m = length paste_end") (simp_all add: mouse_loop.simps(2) mouse_run_paste Let_def)
  next
    case key
    then show ?thesis using 2(3) lone_ESC [of bs b] by (simp add: mouse_loop.simps(2) mouse_run_text held_def)
  next
    case normal
    have IH: "b = ESC \<Longrightarrow> \<not> held (b # bs) \<Longrightarrow> startsWith (b # bs) paste_start \<Longrightarrow> ?thesis"
      using 2(4) normal by (auto simp: mouse_loop.simps(2) mouse_run_start held_def)
    consider (held) "held (b # bs)" | (start) "\<not> held (b # bs)" "startsWith (b # bs) paste_start"
      | (report) "\<not> held (b # bs)" "\<not> startsWith (b # bs) paste_start" "startsWith (b # bs) report_start"
      | (byte) "\<not> held (b # bs)" "\<not> startsWith (b # bs) paste_start" "\<not> startsWith (b # bs) report_start" by blast
    then show ?thesis
    proof cases
      case held
      then show ?thesis using normal held_ESC [OF held] mouse_run_held [OF held, of m] unfolding held_def by (auto simp: mouse_loop.simps(2))
    next
      case start
      then show ?thesis using IH prefix_ESC(3) by blast
    next
      case report
      then show ?thesis using normal 2(5,6)
        by (cases "parseSgrReport (b # bs)") (auto simp: mouse_loop.simps(2) mouse_run_report held_def)
    next
      case byte
      then show ?thesis using normal 2(7) by (auto simp: mouse_loop.simps(2) mouse_run_text held_def)
    qed
  qed
qed simp

section \<open>Extending the input\<close>

lemma sgr_scan_append:
  "sgr_scan i fs digits bs \<noteq> Incomplete \<Longrightarrow> sgr_scan i fs digits (bs @ cs) = sgr_scan i fs digits bs"
proof (induction i fs digits bs rule: sgr_scan.induct)
  case (1 i fs digits)
  then show ?case by (cases cs) (auto split: if_splits)
next
  case (2 i fs digits b bs)
  then show ?case by (cases "0x30 \<le> b \<and> b \<le> 0x39"; cases "b = 0x3b"; cases "i \<ge> max_report_bytes") (auto split: if_splits)
qed

lemma parse_append:
  assumes "startsWith bs report_start" and "parseSgrReport bs \<noteq> Incomplete"
  shows "parseSgrReport (bs @ cs) = parseSgrReport bs"
proof -
  from assms(1) obtain rest where "bs = report_start @ rest" by (auto simp: startsWith_prefix prefix_def)
  then show ?thesis using assms(2) sgr_scan_append [of 3 "[0]" 0 rest cs] by (simp add: parseSgrReport_def report_start_def)
qed

lemma parse_length: "startsWith bs report_start \<Longrightarrow> parseSgrReport bs = Report e n \<Longrightarrow> n \<le> length bs"
  using sgr_scan_next [of 3 "[0]" 0 "drop 3 bs" e n] by (auto simp: parseSgrReport_def startsWith_def report_start_def)

lemma not_held_append: "\<not> held bs \<Longrightarrow> \<not> held (bs @ cs)"
  by (auto simp: held_def incompletePrefix_prefix strict_prefix_def dest: append_prefixD)

lemma startsWith_append:
  assumes "\<not> incompletePrefix bs p"
  shows "startsWith (bs @ cs) p = startsWith bs p"
proof -
  have "prefix bs p \<or> prefix p bs" if "prefix p (bs @ cs)" using that prefix_same_cases [of p "bs @ cs" bs] by auto
  with assms show ?thesis by (auto simp: startsWith_prefix incompletePrefix_prefix strict_prefix_def)
qed

definition resume :: "(byte + host_mouse_event) list \<times> host_mouse_decoder \<Rightarrow> byte list \<Rightarrow> (byte + host_mouse_event) list \<times> host_mouse_decoder" where
  "resume r ys = map_prod (append (fst r)) id (mouse_run (md_pasting (snd r)) (md_pasteMatch (snd r)) (md_carry (snd r) @ ys))"

lemma resume_Cons: "resume (map_prod (Cons x) id r) ys = map_prod (Cons x) id (resume r ys)"
  by (simp add: resume_def map_prod_def split_beta)

lemma resume_append: "resume (map_prod (append xs) id r) ys = map_prod (append xs) id (resume r ys)"
  by (simp add: resume_def map_prod_def split_beta)

text \<open>Decoding an input and then, from the decoder it leaves, the next one is decoding both at once.\<close>

lemma mouse_run_append: "mouse_run pasting m (xs @ ys) = resume (mouse_run pasting m xs) ys"
proof (induction pasting m xs rule: mouse_run.induct)
  case (1 pasting m)
  then show ?case by (simp add: resume_def map_prod_def split_beta)
next
  case (2 pasting m b bs)
  consider (paste) "pasting = True" | (held) "pasting = False" "held (b # bs)" | (normal) "pasting = False" "\<not> held (b # bs)" by blast
  then show ?case
  proof cases
    case paste
    then show ?thesis using 2(1,2)
      by (cases "paste_step b m = length paste_end") (simp_all add: mouse_run_paste resume_Cons Let_def)
  next
    case held
    then show ?thesis by (simp add: mouse_run_held resume_def map_prod_def split_beta)
  next
    case normal
    then have long: "\<not> held (b # bs @ ys)" using not_held_append [of "b # bs" ys] by simp
    have starts: "startsWith (b # bs @ ys) paste_start = startsWith (b # bs) paste_start"
      "startsWith (b # bs @ ys) report_start = startsWith (b # bs) report_start"
      using startsWith_append [of "b # bs" _ ys] normal(2) by (simp_all add: held_def)
    consider (start) "startsWith (b # bs) paste_start"
      | (report) "\<not> startsWith (b # bs) paste_start" "startsWith (b # bs) report_start"
      | (byte) "\<not> startsWith (b # bs) paste_start" "\<not> startsWith (b # bs) report_start" by blast
    then show ?thesis
    proof cases
      case start
      then have "drop (length paste_start) (b # bs @ ys) = drop (length paste_start) (b # bs) @ ys"
        using drop_append [of "length paste_start" "b # bs" ys] by (simp add: startsWith_def)
      then show ?thesis using normal start long starts 2(3) by (simp add: mouse_run_start resume_append held_def)
    next
      case report
      show ?thesis
      proof (cases "parseSgrReport (b # bs)")
        case (Report e n)
        then have "drop n (b # bs @ ys) = drop n (b # bs) @ ys" "parseSgrReport (b # bs @ ys) = Report e n"
          using parse_length [OF report(2)] drop_append [of n "b # bs" ys] parse_append [OF report(2), of ys] by auto
        then show ?thesis using normal report long starts 2(4) Report by (simp add: mouse_run_report resume_Cons held_def)
      next
        case Incomplete
        then show ?thesis using normal report by (simp add: mouse_run_report [of b bs] resume_def map_prod_def split_beta)
      next
        case Not_a_report
        then have "parseSgrReport (b # bs @ ys) = Not_a_report" using parse_append [OF report(2), of ys] by auto
        then show ?thesis using normal report long starts 2(5) Not_a_report by (simp add: mouse_run_report resume_Cons held_def)
      qed
    next
      case byte
      then show ?thesis using normal long starts 2(6) by (simp add: mouse_run_text resume_Cons held_def)
    qed
  qed
qed


section \<open>Bracketed paste\<close>

lemma paste_step_ESC: "m < length paste_end \<Longrightarrow> paste_step ESC m = 1"
proof -
  assume "m < length paste_end"
  then have "m = 0 \<or> m = 1 \<or> m = 2 \<or> m = 3 \<or> m = 4 \<or> m = 5" by (auto simp: paste_end_def)
  then show ?thesis by (elim disjE) (simp_all add: paste_step_def paste_end_def ESC_def)
qed

lemma paste_end_run: "mouse_run True m (paste_end @ rest) = map_prod (append (map Inl paste_end)) id (mouse_run False 0 rest)"
  if "m < length paste_end"
proof -
  note first = paste_step_ESC [OF that]
  show ?thesis
    by (simp add: paste_end_def mouse_run_paste first) (simp add: paste_step_def paste_end_def map_prod_def split_beta ESC_def)
qed

lemma take_paste_end: "take (Suc 0) paste_end = [hd paste_end]"
  by (simp add: paste_end_def)

lemma paste_run:
  assumes "m < length paste_end" and "\<not> sublist paste_end (take m paste_end @ body)"
  shows "mouse_run True m (body @ paste_end @ rest) = map_prod (append (map Inl (body @ paste_end))) id (mouse_run False 0 rest)"
  using assms
proof (induction body arbitrary: m)
  case Nil
  then show ?case by (simp add: paste_end_run id_def)
next
  case (Cons b body)
  let ?m = "paste_step b m"
  have "?m \<noteq> length paste_end"
  proof
    assume "?m = length paste_end"
    then have "b = paste_end ! m" "Suc m = length paste_end" by (auto simp: paste_step_def paste_end_def split: if_splits)
    then have "paste_end = take m paste_end @ [b]" by (metis Cons.prems(1) take_Suc_conv_app_nth take_all order_refl)
    then have "prefix paste_end (take m paste_end @ b # body)" by (metis append_Cons append_Nil append_assoc prefixI)
    then show False using Cons.prems(2) prefix_imp_sublist by blast
  qed
  then have m: "?m < length paste_end" using Cons.prems(1) by (auto simp: paste_step_def paste_end_def split: if_splits)
  have "suffix (take ?m paste_end @ body) (take m paste_end @ b # body)"
    using Cons.prems(1) by (auto simp: paste_step_def take_Suc_conv_app_nth take_paste_end suffix_def)
  then have "\<not> sublist paste_end (take ?m paste_end @ body)"
    using Cons.prems(2) by (meson suffix_imp_sublist sublist_order.order_trans)
  from Cons.IH [OF m this] \<open>?m \<noteq> length paste_end\<close> show ?case by (simp add: mouse_run_paste map_prod_def split_beta)
qed

section \<open>Decimal fields\<close>

lemma utf8_digit: "d < 10 \<Longrightarrow> utf8_char (digit_char d) = [of_nat (48 + d)]"
  by (simp add: utf8_char_def digit_char_def Let_def)

lemma utf8_digits: "length (utf8_bytes (nat_text n)) = length (nat_text n)"
proof (induction n rule: nat_text.induct)
  case (1 n)
  then show ?case by (cases "n < 10") (simp_all add: nat_text.simps [of n] utf8_bytes_def utf8_digit)
qed

lemma sgr_scan_digit:
  assumes "d < 10" and "i < max_report_bytes" and "digits < 5"
  shows "sgr_scan i (fs @ [a]) digits (of_nat (48 + d) # rest) = sgr_scan (Suc i) (fs @ [a * 10 + d]) (Suc digits) rest"
proof -
  have "unat (of_nat (48 + d) :: byte) = 48 + d" using assms(1) by (simp add: unat_of_nat del: of_nat_add)
  then have "0x30 \<le> (of_nat (48 + d) :: byte)" "(of_nat (48 + d) :: byte) \<le> 0x39" and u: "unat (of_nat (48 + d) :: byte) - 48 = d"
    using assms(1) by (simp_all add: word_le_nat_alt del: of_nat_add)
  then show ?thesis using assms(2,3) by (simp del: of_nat_add)
qed

lemma sgr_scan_number:
  assumes "i + length (nat_text n) \<le> max_report_bytes" and "digits + length (nat_text n) \<le> 5"
  shows "sgr_scan i (fs @ [0]) digits (utf8_bytes (nat_text n) @ rest) =
     sgr_scan (i + length (nat_text n)) (fs @ [n]) (digits + length (nat_text n)) rest"
  using assms
proof (induction n arbitrary: rest rule: nat_text.induct)
  case (1 n)
  show ?case
  proof (cases "n < 10")
    case True
    then have t: "nat_text n = [digit_char n]" by (simp add: nat_text.simps)
    show ?thesis using "1.prems" sgr_scan_digit [OF True, of i digits fs 0 rest] by (simp add: t utf8_bytes_def utf8_digit [OF True])
  next
    case False
    then have t: "nat_text n = nat_text (n div 10) @ [digit_char (n mod 10)]" by (simp add: nat_text.simps [of n])
    have d: "utf8_char (digit_char (n mod 10)) = [of_nat (48 + n mod 10)]" by (rule utf8_digit) simp
    have "sgr_scan i (fs @ [0]) digits (utf8_bytes (nat_text (n div 10)) @ of_nat (48 + n mod 10) # rest) =
      sgr_scan (i + length (nat_text (n div 10))) (fs @ [n div 10]) (digits + length (nat_text (n div 10))) (of_nat (48 + n mod 10) # rest)"
      using "1.IH" [OF False] "1.prems" by (simp add: t)
    also have "\<dots> = sgr_scan (Suc (i + length (nat_text (n div 10)))) (fs @ [n]) (Suc (digits + length (nat_text (n div 10)))) rest"
      using "1.prems" by (subst sgr_scan_digit) (auto simp: t)
    finally show ?thesis by (simp add: t utf8_bytes_def d)
  qed
qed

lemma sgr_scan_semicolon:
  "i < max_report_bytes \<Longrightarrow> 0 < digits \<Longrightarrow> length fs < 3 \<Longrightarrow> sgr_scan i fs digits (0x3b # rest) = sgr_scan (Suc i) (fs @ [0]) 0 rest"
  by simp

lemma length_nat_text: "n < 10 ^ Suc k \<Longrightarrow> 1 \<le> length (nat_text n) \<and> length (nat_text n) \<le> Suc k"
proof (induction k arbitrary: n)
  case (Suc k)
  show ?case
  proof (cases "n < 10")
    case False
    with Suc.prems have "n div 10 < 10 ^ Suc k" by (simp add: less_mult_imp_div_less)
    from Suc.IH [OF this] show ?thesis using False by (simp add: nat_text.simps [of n])
  qed (simp add: nat_text.simps)
qed (simp add: nat_text.simps)

section \<open>Properties\<close>

lemma mouse_push_run: "items_of (fst (mouse_push d c)) = fst (mouse_run (md_pasting d) (md_pasteMatch d) (md_carry d @ c)) \<and>
   snd (mouse_push d c) = snd (mouse_run (md_pasting d) (md_pasteMatch d) (md_carry d @ c))"
  using mouse_loop_run [of "md_carry d \<noteq> []" "md_pasting d" "md_pasteMatch d" "md_carry d @ c" "[]" "[]"] by (simp add: mouse_push_def)

lemma mouse_push_all_run:
  "items_of (fst (mouse_push_all d (c # cs))) = fst (mouse_run (md_pasting d) (md_pasteMatch d) (md_carry d @ concat (c # cs))) \<and>
   snd (mouse_push_all d (c # cs)) = snd (mouse_run (md_pasting d) (md_pasteMatch d) (md_carry d @ concat (c # cs)))"
proof (induction cs arbitrary: d c)
  case Nil
  then show ?case using mouse_push_run [of d c] by (simp add: split_beta)
next
  case (Cons c' cs)
  have "mouse_run (md_pasting d) (md_pasteMatch d) (md_carry d @ concat (c # c' # cs)) =
    resume (mouse_run (md_pasting d) (md_pasteMatch d) (md_carry d @ c)) (concat (c' # cs))"
    using mouse_run_append [of "md_pasting d" "md_pasteMatch d" "md_carry d @ c" "concat (c' # cs)"] by simp
  with Cons.IH [of "snd (mouse_push d c)" c'] mouse_push_run [of d c] show ?case
    by (simp only: mouse_push_all.simps(2) [of d c]) (simp add: resume_def split_beta)
qed

text \<open>
  Chunks do not matter. However the host's input is cut into chunks, the decoder gives the
  same bytes of text and the same mouse events in the same order, and ends in the same state,
  as for the whole input at once; nothing is lost, repeated or reordered.
\<close>

theorem mouse_chunking:
  "items_of (fst (mouse_push_all mouse_decoder_new cs)) = items_of (fst (mouse_push mouse_decoder_new (concat cs))) \<and>
   snd (mouse_push_all mouse_decoder_new cs) = snd (mouse_push mouse_decoder_new (concat cs))"
proof (cases cs)
  case Nil
  then show ?thesis by (simp add: mouse_push_def mouse_decoder_new_def flushPlain_def)
next
  case (Cons c cs')
  then show ?thesis using mouse_push_all_run [of mouse_decoder_new c cs'] mouse_push_run [of mouse_decoder_new "concat cs"] by simp
qed

text \<open>
  Pasted text is text. Whatever a bracketed paste contains short of the end marker, mouse
  reports included, and however it is cut into chunks, the decoder passes every byte on as text,
  reports no mouse event and is back in its initial state after the end marker.
\<close>

theorem paste_is_text:
  assumes "\<not> sublist paste_end body" and "concat cs = paste_start @ body @ paste_end"
  shows "items_of (fst (mouse_push_all mouse_decoder_new cs)) = map Inl (paste_start @ body @ paste_end) \<and>
     snd (mouse_push_all mouse_decoder_new cs) = mouse_decoder_new"
proof -
  obtain c cs' where cs: "cs = c # cs'" using assms(2) by (cases cs) (auto simp: paste_start_def)
  have nh: "\<not> held (paste_start @ x)" for x by (auto simp: held_def incompletePrefix_prefix strict_prefix_def paste_start_def report_start_def)
  have st: "startsWith (paste_start @ x) paste_start" for x by (simp add: startsWith_prefix)
  have "mouse_run False 0 (paste_start @ x) = map_prod (append (map Inl paste_start)) id (mouse_run True 0 x)" for x
    using mouse_run_start [of ESC "tl (paste_start @ x)" 0] nh [of x] st [of x] by (simp add: paste_start_def)
  moreover have "mouse_run True 0 (body @ paste_end) = map_prod (append (map Inl (body @ paste_end))) id (mouse_run False 0 [])"
    using paste_run [of 0 body "[]"] assms(1) by (simp add: paste_end_def)
  ultimately have "mouse_run False 0 (paste_start @ body @ paste_end) = (map Inl (paste_start @ body @ paste_end), mouse_decoder_new)"
    by (simp add: mouse_decoder_new_def)
  then show ?thesis using mouse_push_all_run [of mouse_decoder_new c cs'] cs assms(2) by (simp add: mouse_decoder_new_def)
qed

definition sample_pasted :: "byte list" where
  "sample_pasted = [ESC, 0x5b, 0x3c, 0x30, 0x3b, 0x31, 0x3b, 0x31, 0x4d]"

theorem paste_is_text_witness:
  "items_of (fst (mouse_push_all mouse_decoder_new [paste_start @ take 4 sample_pasted, drop 4 sample_pasted @ paste_end])) =
     map Inl (paste_start @ sample_pasted @ paste_end)"
proof -
  have "\<not> sublist paste_end sample_pasted" by (simp add: paste_end_def sample_pasted_def sublist_Cons_right)
  moreover have "concat [paste_start @ take 4 sample_pasted, drop 4 sample_pasted @ paste_end] = paste_start @ sample_pasted @ paste_end" by simp
  ultimately show ?thesis by (rule conjunct1 [OF paste_is_text])
qed

text \<open>
  A forwarded report says what was meant. For a program that asked for all motion in SGR
  form, an event whose button and coordinates have at most five digits is forwarded, and reading
  the forwarded bytes back gives that event at the new position and nothing else.
\<close>

theorem mouse_report_roundtrip:
  assumes "rm_tracking r = Any" and "rm_sgr r" and "me_button e < 100000" and "1 \<le> column" and "column < 100000" and "1 \<le> row" and "row < 100000"
  shows "\<exists>bytes. encodeRemoteMouse e r column row = Some bytes \<and>
     mouse_push mouse_decoder_new bytes = ([Seg_mouse (e\<lparr>me_column := column, me_row := row\<rparr>)], mouse_decoder_new)"
proof -
  let ?b = "nat_text (me_button e)" and ?c = "nat_text column" and ?r = "nat_text row"
  define final where "final = (if me_release e then 0x6d else 0x4d :: byte)"
  define rest where "rest = utf8_bytes ?b @ 0x3b # utf8_bytes ?c @ 0x3b # utf8_bytes ?r @ [final]"
  have ne: "?b \<noteq> []" "?c \<noteq> []" "?r \<noteq> []" using length_nat_text [of _ 4] assms(3,5,7) by fastforce+
  have len: "1 \<le> length ?b" "length ?b \<le> 5" "1 \<le> length ?c" "length ?c \<le> 5" "1 \<le> length ?r" "length ?r \<le> 5"
    using length_nat_text [of _ 4] assms(3,5,7) by simp_all
  have enc: "encodeRemoteMouse e r column row = Some (report_start @ rest)"
    using assms(1,2) by (simp add: encodeRemoteMouse_def Let_def int_text_def report_start_def rest_def final_def utf8_bytes_def utf8_char_def ESC_def)
  have "parseSgrReport (report_start @ rest) = sgr_scan 3 ([] @ [0]) 0 rest" by (simp add: parseSgrReport_def report_start_def)
  also have "\<dots> = sgr_scan (Suc (3 + length ?b)) ([me_button e] @ [0]) 0 (utf8_bytes ?c @ 0x3b # utf8_bytes ?r @ [final])"
    unfolding rest_def using len ne by (subst sgr_scan_number) (simp_all add: max_report_bytes_def)
  also have "\<dots> = sgr_scan (Suc (Suc (3 + length ?b) + length ?c)) ([me_button e, column] @ [0]) 0 (utf8_bytes ?r @ [final])"
    using len ne by (subst sgr_scan_number) (simp_all add: max_report_bytes_def)
  also have "\<dots> = sgr_scan (Suc (Suc (3 + length ?b) + length ?c) + length ?r) [me_button e, column, row] (length ?r) [final]"
    using len ne by (subst sgr_scan_number) (simp_all add: max_report_bytes_def)
  also have "\<dots> = Report (e\<lparr>me_column := column, me_row := row\<rparr>) (Suc (Suc (Suc (3 + length ?b) + length ?c) + length ?r))"
    using len ne assms(4,6) by (cases e) (auto simp: max_report_bytes_def final_def)
  also have "Suc (Suc (Suc (3 + length ?b) + length ?c) + length ?r) = length (report_start @ rest)"
    by (simp add: rest_def report_start_def utf8_digits)
  finally have p: "parseSgrReport (report_start @ rest) = Report (e\<lparr>me_column := column, me_row := row\<rparr>) (length (report_start @ rest))" .
  have "\<not> held (report_start @ rest)" "\<not> startsWith (report_start @ rest) paste_start" "startsWith (report_start @ rest) report_start"
    by (auto simp: held_def startsWith_prefix incompletePrefix_prefix strict_prefix_def report_start_def paste_start_def)
  then have "mouse_loop False False 0 (report_start @ rest) [] [] = ([Seg_mouse (e\<lparr>me_column := column, me_row := row\<rparr>)], mouse_decoder_new)"
    using p by (simp add: report_start_def mouse_loop.simps(2) held_def flushPlain_def mouse_decoder_new_def)
  then show ?thesis using enc by (simp add: mouse_push_def mouse_decoder_new_def)
qed

theorem mouse_report_roundtrip_witness:
  "\<exists>bytes. encodeRemoteMouse \<lparr>me_button = 64, me_column = 9, me_row = 9, me_release = False\<rparr> \<lparr>rm_tracking = Any, rm_sgr = True\<rparr> 12 7 = Some bytes \<and>
     mouse_push mouse_decoder_new bytes = ([Seg_mouse \<lparr>me_button = 64, me_column = 12, me_row = 7, me_release = False\<rparr>], mouse_decoder_new)"
  using mouse_report_roundtrip [of "\<lparr>rm_tracking = Any, rm_sgr = True\<rparr>" "\<lparr>me_button = 64, me_column = 9, me_row = 9, me_release = False\<rparr>" 12 7]
  by simp

end
