(* ===== verification/Viewport.thy ===== *)
theory Viewport
  imports Attachment
begin

text \<open>
  The isolated viewports of the rich terminal, \<^verbatim>\<open>src/terminal/viewport.ts\<close>: one snapshot of cells per
  tab, bound to one terminal process and attachment fence. The registry is its map of tabs and
  the active tab. A text is a list of code points. Freezing copies is the identity here.
\<close>

section \<open>Data\<close>

type_synonym utext = "int list"

definition max_viewport_cells :: int where "max_viewport_cells = 250000"
definition max_viewport_tabs :: nat where "max_viewport_tabs = 32"

record viewport_binding =
  vb_identity :: attachment_identity
  vb_fencingGeneration :: int

record viewport_modes =
  vm_bracketedPaste :: bool
  vm_mouse :: bool
  vm_alternateScreen :: bool
  vm_cursorVisible :: bool

datatype color_mode = Palette | Rgb

record cell_color =
  cc_mode :: color_mode
  cc_value :: int

record cell_style =
  st_bold :: bool
  st_dim :: bool
  st_italic :: bool
  st_underline :: bool
  st_blink :: bool
  st_inverse :: bool
  st_invisible :: bool
  st_strikethrough :: bool
  st_overline :: bool
  st_foreground :: "cell_color option"
  st_background :: "cell_color option"

record render_run =
  rr_text :: utext
  rr_width :: int
  rr_style :: cell_style

record viewport_snapshot =
  vs_tabId :: string
  vs_binding :: viewport_binding
  vs_columns :: int
  vs_rows :: int
  vs_outputSequence :: int
  vs_replayCursor :: int
  vs_cells :: "utext list"
  vs_renderRows :: "render_run list list option"
  vs_displayWidths :: "int list"
  vs_cursorX :: int
  vs_cursorY :: int
  vs_modes :: viewport_modes

datatype viewport_error = Tab_limit | Duplicate_tab | Unknown_tab | Binding_mismatch | Frame_regression | Viewport_limit

record viewport_registry =
  vr_tabs :: "(string, viewport_snapshot) js_map"
  vr_active :: "string option"

definition viewport_registry_new :: viewport_registry where
  "viewport_registry_new = \<lparr>vr_tabs = [], vr_active = None\<rparr>"

section \<open>Validation\<close>

definition containsHostControl :: "utext \<Rightarrow> bool" where
  "containsHostControl t = list_ex (\<lambda>c. c \<le> 0x1f \<or> (c \<ge> 0x7f \<and> c \<le> 0x9f)) t"

definition validateDimensions :: "int \<Rightarrow> int \<Rightarrow> bool" where
  "validateDimensions columns rows \<longleftrightarrow> is_safe_integer columns \<and> is_safe_integer rows \<and> 1 \<le> columns \<and> 1 \<le> rows \<and>
     columns * rows \<le> max_viewport_cells"

definition validateBinding :: "viewport_binding \<Rightarrow> bool" where
  "validateBinding b \<longleftrightarrow>
     list_all (\<lambda>v. 1 \<le> length v \<and> length v \<le> 256)
       [ai_userId (vb_identity b), ai_machineId (vb_identity b), ai_agentSessionId (vb_identity b), ai_processEpoch (vb_identity b)] \<and>
     is_safe_integer (vb_fencingGeneration b) \<and> 1 \<le> vb_fencingGeneration b"

definition assertViewportRebind :: "viewport_binding \<Rightarrow> viewport_binding \<Rightarrow> bool" where
  "assertViewportRebind current nxt \<longleftrightarrow> validateBinding nxt \<and>
     ai_userId (vb_identity current) = ai_userId (vb_identity nxt) \<and> ai_machineId (vb_identity current) = ai_machineId (vb_identity nxt) \<and>
     ai_agentSessionId (vb_identity current) = ai_agentSessionId (vb_identity nxt) \<and>
     ai_processEpoch (vb_identity current) = ai_processEpoch (vb_identity nxt) \<and>
     vb_fencingGeneration current < vb_fencingGeneration nxt"

definition sameBinding :: "viewport_binding \<Rightarrow> viewport_binding \<Rightarrow> bool" where
  "sameBinding l r \<longleftrightarrow> ai_userId (vb_identity l) = ai_userId (vb_identity r) \<and> ai_machineId (vb_identity l) = ai_machineId (vb_identity r) \<and>
     ai_agentSessionId (vb_identity l) = ai_agentSessionId (vb_identity r) \<and> ai_processEpoch (vb_identity l) = ai_processEpoch (vb_identity r) \<and>
     vb_fencingGeneration l = vb_fencingGeneration r"

definition color_ok :: "cell_color option \<Rightarrow> bool" where
  "color_ok c = (case c of None \<Rightarrow> True
     | Some c \<Rightarrow> is_safe_integer (cc_value c) \<and> 0 \<le> cc_value c \<and> cc_value c \<le> (case cc_mode c of Palette \<Rightarrow> 0xff | Rgb \<Rightarrow> 0xffffff))"

definition validateStyle :: "cell_style \<Rightarrow> bool" where
  "validateStyle s \<longleftrightarrow> color_ok (st_foreground s) \<and> color_ok (st_background s)"

definition run_ok :: "render_run \<Rightarrow> bool" where
  "run_ok r \<longleftrightarrow> is_safe_integer (rr_width r) \<and> 1 \<le> rr_width r \<and> \<not> containsHostControl (rr_text r) \<and> validateStyle (rr_style r)"

text \<open>One row of \<^verbatim>\<open>validateRenderRows\<close> against its cells and its width.\<close>

definition render_row_ok :: "int \<Rightarrow> utext \<Rightarrow> int \<Rightarrow> render_run list \<Rightarrow> bool" where
  "render_row_ok columns cells width row \<longleftrightarrow> list_all run_ok row \<and> concat (map rr_text row) = cells \<and>
     sum_list (map rr_width row) = width \<and> sum_list (map rr_width row) \<le> columns"

definition validateRenderRows :: "render_run list list \<Rightarrow> utext list \<Rightarrow> int list \<Rightarrow> int \<Rightarrow> bool" where
  "validateRenderRows rows cells widths columns \<longleftrightarrow> length rows = length cells \<and>
     list_all (\<lambda>i. render_row_ok columns (cells ! i) (if i < length widths then widths ! i else -1) (rows ! i)) [0..<length rows]"

text \<open>The condition that \<^verbatim>\<open>applyRenderedFrame\<close> and \<^verbatim>\<open>#replaceCells\<close> share.\<close>

definition cells_fit :: "int \<Rightarrow> int \<Rightarrow> utext list \<Rightarrow> int list \<Rightarrow> int \<Rightarrow> int \<Rightarrow> bool" where
  "cells_fit columns rows cells widths cursorX cursorY \<longleftrightarrow>
     int (length cells) \<le> rows \<and> length widths = length cells \<and> \<not> list_ex containsHostControl cells \<and>
     list_all (\<lambda>w. is_safe_integer w \<and> 0 \<le> w \<and> w \<le> columns) widths \<and>
     is_safe_integer cursorX \<and> 0 \<le> cursorX \<and> cursorX \<le> columns \<and> is_safe_integer cursorY \<and> 0 \<le> cursorY \<and> cursorY < rows"

section \<open>Operations\<close>

definition fresh_modes :: viewport_modes where
  "fresh_modes = \<lparr>vm_bracketedPaste = False, vm_mouse = False, vm_alternateScreen = False, vm_cursorVisible = True\<rparr>"

definition blank_snapshot :: "string \<Rightarrow> viewport_binding \<Rightarrow> int \<Rightarrow> int \<Rightarrow> viewport_snapshot" where
  "blank_snapshot tabId binding columns rows =
     \<lparr>vs_tabId = tabId, vs_binding = binding, vs_columns = columns, vs_rows = rows, vs_outputSequence = 0, vs_replayCursor = 0,
      vs_cells = replicate (nat rows) [], vs_renderRows = None, vs_displayWidths = replicate (nat rows) 0,
      vs_cursorX = 0, vs_cursorY = 0, vs_modes = fresh_modes\<rparr>"

definition put_tab :: "string \<Rightarrow> viewport_snapshot \<Rightarrow> viewport_registry \<Rightarrow> viewport_registry" where
  "put_tab tabId v r = r\<lparr>vr_tabs := map_set tabId v (vr_tabs r)\<rparr>"

definition viewport_require :: "viewport_registry \<Rightarrow> string \<Rightarrow> viewport_error + viewport_snapshot" where
  "viewport_require r tabId = (case map_get (vr_tabs r) tabId of None \<Rightarrow> Inl Unknown_tab | Some v \<Rightarrow> Inr v)"

definition viewport_open ::
  "string \<Rightarrow> viewport_binding \<Rightarrow> int \<Rightarrow> int \<Rightarrow> viewport_registry \<Rightarrow> viewport_error + viewport_snapshot \<times> viewport_registry" where
  "viewport_open tabId binding columns rows r =
     (if length (vr_tabs r) \<ge> max_viewport_tabs then Inl Tab_limit
      else if map_get (vr_tabs r) tabId \<noteq> None then Inl Duplicate_tab
      else if \<not> validateDimensions columns rows then Inl Viewport_limit
      else if \<not> validateBinding binding then Inl Binding_mismatch
      else let v = blank_snapshot tabId binding columns rows
           in Inr (v, (put_tab tabId v r)\<lparr>vr_active := (case vr_active r of None \<Rightarrow> Some tabId | Some t \<Rightarrow> Some t)\<rparr>))"

definition viewport_select :: "string \<Rightarrow> viewport_registry \<Rightarrow> viewport_error + viewport_snapshot \<times> viewport_registry" where
  "viewport_select tabId r = (case viewport_require r tabId of Inl e \<Rightarrow> Inl e | Inr v \<Rightarrow> Inr (v, r\<lparr>vr_active := Some tabId\<rparr>))"

definition viewport_rebind ::
  "string \<Rightarrow> viewport_binding \<Rightarrow> viewport_registry \<Rightarrow> viewport_error + viewport_snapshot \<times> viewport_registry" where
  "viewport_rebind tabId binding r =
     (case viewport_require r tabId of
        Inl e \<Rightarrow> Inl e
      | Inr current \<Rightarrow>
          if \<not> assertViewportRebind (vs_binding current) binding then Inl Binding_mismatch
          else let v = current\<lparr>vs_binding := binding\<rparr> in Inr (v, put_tab tabId v r))"

definition resetForCurrentView ::
  "string \<Rightarrow> viewport_binding \<Rightarrow> int \<Rightarrow> int \<Rightarrow> viewport_registry \<Rightarrow> viewport_error + viewport_snapshot \<times> viewport_registry" where
  "resetForCurrentView tabId binding columns rows r =
     (case viewport_require r tabId of
        Inl e \<Rightarrow> Inl e
      | Inr current \<Rightarrow>
          if \<not> assertViewportRebind (vs_binding current) binding then Inl Binding_mismatch
          else if \<not> validateDimensions columns rows then Inl Viewport_limit
          else let v = blank_snapshot tabId binding columns rows in Inr (v, put_tab tabId v r))"

definition viewport_close :: "string \<Rightarrow> viewport_registry \<Rightarrow> viewport_error + viewport_registry" where
  "viewport_close tabId r =
     (case viewport_require r tabId of
        Inl e \<Rightarrow> Inl e
      | Inr _ \<Rightarrow>
          let tabs = AList.delete tabId (vr_tabs r)
          in Inr (r\<lparr>vr_tabs := tabs, vr_active := (if vr_active r = Some tabId then map_option fst (List.find (\<lambda>_. True) tabs) else vr_active r)\<rparr>))"

record rendered_frame =
  rf_tabId :: string
  rf_binding :: viewport_binding
  rf_outputSequence :: int
  rf_replayCursor :: int
  rf_cells :: "utext list"
  rf_renderRows :: "render_run list list option"
  rf_displayWidths :: "int list option"
  rf_cursorX :: "int option"
  rf_cursorY :: "int option"
  rf_modes :: viewport_modes

definition rows_admitted :: "render_run list list option \<Rightarrow> utext list \<Rightarrow> int list \<Rightarrow> int \<Rightarrow> bool" where
  "rows_admitted rows cells widths columns = (case rows of None \<Rightarrow> True | Some rs \<Rightarrow> validateRenderRows rs cells widths columns)"

definition with_cells ::
  "utext list \<Rightarrow> render_run list list option \<Rightarrow> int list \<Rightarrow> int \<Rightarrow> int \<Rightarrow> viewport_modes \<Rightarrow> viewport_snapshot \<Rightarrow> viewport_snapshot" where
  "with_cells cells rows widths cursorX cursorY modes v =
     v\<lparr>vs_cells := cells, vs_renderRows := (case rows of None \<Rightarrow> vs_renderRows v | Some rs \<Rightarrow> Some rs), vs_displayWidths := widths,
       vs_cursorX := cursorX, vs_cursorY := cursorY, vs_modes := modes\<rparr>"

definition applyRenderedFrame :: "rendered_frame \<Rightarrow> viewport_registry \<Rightarrow> viewport_error + viewport_snapshot \<times> viewport_registry" where
  "applyRenderedFrame f r =
     (case viewport_require r (rf_tabId f) of
        Inl e \<Rightarrow> Inl e
      | Inr current \<Rightarrow>
          if \<not> sameBinding (vs_binding current) (rf_binding f) then Inl Binding_mismatch
          else if rf_outputSequence f \<le> vs_outputSequence current \<or> rf_replayCursor f < vs_replayCursor current then Inl Frame_regression
          else let widths = (case rf_displayWidths f of Some ws \<Rightarrow> ws | None \<Rightarrow> map (\<lambda>row. int (length row)) (rf_cells f));
                   cursorX = (case rf_cursorX f of Some x \<Rightarrow> x | None \<Rightarrow> vs_cursorX current);
                   cursorY = (case rf_cursorY f of Some y \<Rightarrow> y | None \<Rightarrow> vs_cursorY current)
               in if \<not> cells_fit (vs_columns current) (vs_rows current) (rf_cells f) widths cursorX cursorY then Inl Viewport_limit
                  else if \<not> rows_admitted (rf_renderRows f) (rf_cells f) widths (vs_columns current) then Inl Viewport_limit
                  else let v = (with_cells (rf_cells f) (rf_renderRows f) widths cursorX cursorY (rf_modes f) current)
                             \<lparr>vs_outputSequence := rf_outputSequence f, vs_replayCursor := rf_replayCursor f\<rparr>
                       in Inr (v, put_tab (rf_tabId f) v r))"

definition viewport_resize :: "string \<Rightarrow> int \<Rightarrow> int \<Rightarrow> viewport_registry \<Rightarrow> viewport_error + viewport_snapshot \<times> viewport_registry" where
  "viewport_resize tabId columns rows r =
     (if \<not> validateDimensions columns rows then Inl Viewport_limit
      else case viewport_require r tabId of
        Inl e \<Rightarrow> Inl e
      | Inr current \<Rightarrow>
          let v = current\<lparr>vs_columns := columns, vs_rows := rows,
                vs_cells := map (take (nat columns)) (take (nat rows) (vs_cells current)), vs_renderRows := None,
                vs_displayWidths := map (\<lambda>w. min w columns) (take (nat rows) (vs_displayWidths current)),
                vs_cursorX := min (vs_cursorX current) columns, vs_cursorY := min (vs_cursorY current) (rows - 1)\<rparr>
          in Inr (v, put_tab tabId v r))"

record local_reflow =
  lf_tabId :: string
  lf_binding :: viewport_binding
  lf_outputSequence :: int
  lf_replayCursor :: int
  lf_cells :: "utext list"
  lf_renderRows :: "render_run list list option"
  lf_displayWidths :: "int list"
  lf_cursorX :: int
  lf_cursorY :: int
  lf_modes :: viewport_modes

definition replaceCells :: "viewport_snapshot \<Rightarrow> local_reflow \<Rightarrow> viewport_registry \<Rightarrow> viewport_error + viewport_snapshot \<times> viewport_registry" where
  "replaceCells current f r =
     (if \<not> cells_fit (vs_columns current) (vs_rows current) (lf_cells f) (lf_displayWidths f) (lf_cursorX f) (lf_cursorY f) then Inl Viewport_limit
      else if \<not> rows_admitted (lf_renderRows f) (lf_cells f) (lf_displayWidths f) (vs_columns current) then Inl Viewport_limit
      else let v = with_cells (lf_cells f) (lf_renderRows f) (lf_displayWidths f) (lf_cursorX f) (lf_cursorY f) (lf_modes f) current
           in Inr (v, put_tab (vs_tabId current) v r))"

definition applyLocalReflow :: "local_reflow \<Rightarrow> viewport_registry \<Rightarrow> viewport_error + viewport_snapshot \<times> viewport_registry" where
  "applyLocalReflow f r =
     (case viewport_require r (lf_tabId f) of
        Inl e \<Rightarrow> Inl e
      | Inr current \<Rightarrow>
          if \<not> sameBinding (vs_binding current) (lf_binding f) then Inl Binding_mismatch
          else if lf_outputSequence f \<noteq> vs_outputSequence current \<or> lf_replayCursor f \<noteq> vs_replayCursor current then Inl Frame_regression
          else replaceCells current f r)"

definition viewport_active :: "viewport_registry \<Rightarrow> viewport_error + viewport_snapshot option" where
  "viewport_active r = (case vr_active r of None \<Rightarrow> Inr None | Some t \<Rightarrow> map_sum id Some (viewport_require r t))"

definition viewport_list :: "viewport_registry \<Rightarrow> viewport_snapshot list" where
  "viewport_list r = map snd (vr_tabs r)"

inductive viewport_step :: "viewport_registry \<Rightarrow> viewport_registry \<Rightarrow> bool" where
  opened: "viewport_open tabId binding columns rows r = Inr (v, t) \<Longrightarrow> viewport_step r t"
| selected: "viewport_select tabId r = Inr (v, t) \<Longrightarrow> viewport_step r t"
| rebound: "viewport_rebind tabId binding r = Inr (v, t) \<Longrightarrow> viewport_step r t"
| reset: "resetForCurrentView tabId binding columns rows r = Inr (v, t) \<Longrightarrow> viewport_step r t"
| closed: "viewport_close tabId r = Inr t \<Longrightarrow> viewport_step r t"
| framed: "applyRenderedFrame f r = Inr (v, t) \<Longrightarrow> viewport_step r t"
| resized: "viewport_resize tabId columns rows r = Inr (v, t) \<Longrightarrow> viewport_step r t"
| reflowed: "applyLocalReflow l r = Inr (v, t) \<Longrightarrow> viewport_step r t"

section \<open>Invariant\<close>

text \<open>
  What a snapshot may hold: dimensions within the budget, cells within the dimensions, no control
  character anywhere, styled runs included, which are within the dimensions as well, and the
  cursor on the screen.
\<close>

definition styled_ok :: "int \<Rightarrow> int \<Rightarrow> render_run list list option \<Rightarrow> bool" where
  "styled_ok columns rows runs = (case runs of None \<Rightarrow> True
     | Some rs \<Rightarrow> int (length rs) \<le> rows \<and> list_all (\<lambda>row. list_all run_ok row \<and> sum_list (map rr_width row) \<le> columns) rs)"

definition viewport_ok :: "viewport_snapshot \<Rightarrow> bool" where
  "viewport_ok v \<longleftrightarrow> validateDimensions (vs_columns v) (vs_rows v) \<and> validateBinding (vs_binding v) \<and>
     cells_fit (vs_columns v) (vs_rows v) (vs_cells v) (vs_displayWidths v) (vs_cursorX v) (vs_cursorY v) \<and>
     styled_ok (vs_columns v) (vs_rows v) (vs_renderRows v) \<and> 0 \<le> vs_outputSequence v \<and> 0 \<le> vs_replayCursor v"

definition registry_inv :: "viewport_registry \<Rightarrow> bool" where
  "registry_inv r \<longleftrightarrow> length (vr_tabs r) \<le> max_viewport_tabs \<and> distinct (map fst (vr_tabs r)) \<and>
     (\<forall>t v. map_get (vr_tabs r) t = Some v \<longrightarrow> vs_tabId v = t \<and> viewport_ok v) \<and>
     (case vr_active r of None \<Rightarrow> vr_tabs r = [] | Some t \<Rightarrow> map_get (vr_tabs r) t \<noteq> None)"

lemma viewport_require_Inr: "viewport_require r t = Inr v \<longleftrightarrow> map_get (vr_tabs r) t = Some v"
  by (auto simp: viewport_require_def split: option.splits)

lemma blank_ok: "validateDimensions columns rows \<Longrightarrow> validateBinding b \<Longrightarrow> viewport_ok (blank_snapshot t b columns rows)"
  by (auto simp: viewport_ok_def blank_snapshot_def cells_fit_def validateDimensions_def containsHostControl_def styled_ok_def
      list_all_iff list_ex_iff is_safe_integer_def max_safe_integer_def)

lemma render_rows_styled:
  assumes "validateRenderRows rs cells widths columns" and "int (length cells) \<le> rows"
  shows "styled_ok columns rows (Some rs)"
proof -
  have "list_all run_ok row \<and> sum_list (map rr_width row) \<le> columns" if "row \<in> set rs" for row
  proof -
    from that obtain i where "i \<in> set [0..<length rs]" "row = rs ! i" by (auto simp: in_set_conv_nth)
    with assms(1) show ?thesis unfolding validateRenderRows_def render_row_ok_def list_all_iff [of _ "[0..<length rs]"] by blast
  qed
  with assms show ?thesis by (auto simp: styled_ok_def validateRenderRows_def list_all_iff)
qed

lemma with_cells_ok:
  assumes "viewport_ok v" and "cells_fit (vs_columns v) (vs_rows v) cells widths x y" and "rows_admitted rows cells widths (vs_columns v)"
  shows "viewport_ok (with_cells cells rows widths x y m v)"
  using assms render_rows_styled
  by (cases rows) (auto simp: viewport_ok_def with_cells_def rows_admitted_def cells_fit_def)

lemma put_tab_inv:
  assumes "registry_inv r" and "viewport_ok v" and "vs_tabId v = t" and "map_get (vr_tabs r) t \<noteq> None"
  shows "registry_inv (put_tab t v r)"
  using assms by (auto simp: registry_inv_def put_tab_def length_map_set split: option.splits)

text \<open>Every operation but \<^verbatim>\<open>open\<close>, \<^verbatim>\<open>select\<close> and \<^verbatim>\<open>close\<close> replaces the snapshot of one tab.\<close>

definition replaces :: "viewport_registry \<Rightarrow> string \<Rightarrow> viewport_snapshot \<Rightarrow> viewport_snapshot \<Rightarrow> viewport_registry \<Rightarrow> bool" where
  "replaces r tabId current v t \<longleftrightarrow> map_get (vr_tabs r) tabId = Some current \<and> t = put_tab tabId v r \<and> vs_tabId v = tabId \<and> viewport_ok v"

lemma replaces_inv: "registry_inv r \<Longrightarrow> replaces r tabId current v t \<Longrightarrow> registry_inv t"
  by (auto simp: replaces_def intro: put_tab_inv)

lemma current_ok: "registry_inv r \<Longrightarrow> map_get (vr_tabs r) tabId = Some v \<Longrightarrow> vs_tabId v = tabId \<and> viewport_ok v"
  by (auto simp: registry_inv_def)

lemma rebind_replaces:
  assumes "registry_inv r" and "viewport_rebind tabId binding r = Inr (v, t)"
  obtains current where "replaces r tabId current v t" "vb_fencingGeneration (vs_binding current) < vb_fencingGeneration (vs_binding v)"
    "vs_outputSequence v = vs_outputSequence current" "vs_binding v = binding"
proof -
  obtain current where c: "map_get (vr_tabs r) tabId = Some current" "assertViewportRebind (vs_binding current) binding"
    "v = current\<lparr>vs_binding := binding\<rparr>" "t = put_tab tabId v r"
    using assms(2) by (auto simp: viewport_rebind_def Let_def viewport_require_Inr split: sum.splits if_splits)
  then show ?thesis using that [of current] current_ok [OF assms(1) c(1)]
    by (auto simp: replaces_def viewport_ok_def assertViewportRebind_def)
qed

lemma reset_replaces:
  assumes "registry_inv r" and "resetForCurrentView tabId binding columns rows r = Inr (v, t)"
  obtains current where "replaces r tabId current v t" "vb_fencingGeneration (vs_binding current) < vb_fencingGeneration (vs_binding v)"
    "vs_binding v = binding"
proof -
  obtain current where c: "map_get (vr_tabs r) tabId = Some current" "assertViewportRebind (vs_binding current) binding"
    "v = blank_snapshot tabId binding columns rows" "t = put_tab tabId v r" "validateDimensions columns rows"
    using assms(2) by (auto simp: resetForCurrentView_def Let_def viewport_require_Inr split: sum.splits if_splits)
  then show ?thesis using that [of current] blank_ok [of columns rows binding tabId]
    by (auto simp: replaces_def assertViewportRebind_def) (auto simp: blank_snapshot_def)
qed

lemma frame_replaces:
  assumes "registry_inv r" and "applyRenderedFrame f r = Inr (v, t)"
  obtains current where "replaces r (rf_tabId f) current v t" "sameBinding (vs_binding current) (rf_binding f)" "vs_binding v = vs_binding current"
    "vs_outputSequence current < vs_outputSequence v"
proof -
  obtain current widths x y where c: "map_get (vr_tabs r) (rf_tabId f) = Some current" "sameBinding (vs_binding current) (rf_binding f)"
    "vs_outputSequence current < rf_outputSequence f" "vs_replayCursor current \<le> rf_replayCursor f"
    "cells_fit (vs_columns current) (vs_rows current) (rf_cells f) widths x y" "rows_admitted (rf_renderRows f) (rf_cells f) widths (vs_columns current)"
    "v = (with_cells (rf_cells f) (rf_renderRows f) widths x y (rf_modes f) current)\<lparr>vs_outputSequence := rf_outputSequence f, vs_replayCursor := rf_replayCursor f\<rparr>"
    "t = put_tab (rf_tabId f) v r"
    using assms(2) by (auto simp: applyRenderedFrame_def Let_def viewport_require_Inr split: sum.splits if_splits)
  have ok: "vs_tabId current = rf_tabId f" "viewport_ok current" using current_ok [OF assms(1) c(1)] by auto
  from with_cells_ok [OF ok(2) c(5,6)] have "viewport_ok v" using c(3,4,7) ok(2) by (auto simp: viewport_ok_def)
  then show ?thesis using that [of current] c ok by (auto simp: replaces_def with_cells_def)
qed

lemma reflow_replaces:
  assumes "registry_inv r" and "applyLocalReflow f r = Inr (v, t)"
  obtains current where "replaces r (lf_tabId f) current v t" "vs_binding v = vs_binding current" "vs_outputSequence v = vs_outputSequence current"
proof -
  obtain current where c: "map_get (vr_tabs r) (lf_tabId f) = Some current"
    "cells_fit (vs_columns current) (vs_rows current) (lf_cells f) (lf_displayWidths f) (lf_cursorX f) (lf_cursorY f)"
    "rows_admitted (lf_renderRows f) (lf_cells f) (lf_displayWidths f) (vs_columns current)"
    "v = with_cells (lf_cells f) (lf_renderRows f) (lf_displayWidths f) (lf_cursorX f) (lf_cursorY f) (lf_modes f) current"
    "t = put_tab (vs_tabId current) v r"
    using assms(2) by (auto simp: applyLocalReflow_def replaceCells_def Let_def viewport_require_Inr split: sum.splits if_splits)
  have ok: "vs_tabId current = lf_tabId f" "viewport_ok current" using current_ok [OF assms(1) c(1)] by auto
  from with_cells_ok [OF ok(2) c(2,3)] show ?thesis using that [of current] c ok by (auto simp: replaces_def with_cells_def)
qed

lemma resized_ok:
  assumes "viewport_ok v" and "validateDimensions columns rows"
  shows "viewport_ok (v\<lparr>vs_columns := columns, vs_rows := rows, vs_cells := map (take (nat columns)) (take (nat rows) (vs_cells v)),
     vs_renderRows := None, vs_displayWidths := map (\<lambda>w. min w columns) (take (nat rows) (vs_displayWidths v)),
     vs_cursorX := min (vs_cursorX v) columns, vs_cursorY := min (vs_cursorY v) (rows - 1)\<rparr>)"
proof -
  have "\<not> list_ex containsHostControl (map (take (nat columns)) (take (nat rows) (vs_cells v)))"
    using assms(1) by (auto simp: viewport_ok_def cells_fit_def list_ex_iff containsHostControl_def dest!: in_set_takeD)
  moreover have "list_all (\<lambda>w. is_safe_integer w \<and> 0 \<le> w \<and> w \<le> columns) (map (\<lambda>w. min w columns) (take (nat rows) (vs_displayWidths v)))"
    using assms by (auto simp: viewport_ok_def cells_fit_def validateDimensions_def list_all_iff is_safe_integer_def min_def dest!: in_set_takeD)
  ultimately show ?thesis using assms
    by (auto simp: viewport_ok_def cells_fit_def validateDimensions_def styled_ok_def is_safe_integer_def min_def)
qed

lemma resize_replaces:
  assumes "registry_inv r" and "viewport_resize tabId columns rows r = Inr (v, t)"
  obtains current where "replaces r tabId current v t" "vs_binding v = vs_binding current" "vs_outputSequence v = vs_outputSequence current"
proof -
  obtain current where c: "map_get (vr_tabs r) tabId = Some current" "validateDimensions columns rows"
    "v = current\<lparr>vs_columns := columns, vs_rows := rows, vs_cells := map (take (nat columns)) (take (nat rows) (vs_cells current)),
     vs_renderRows := None, vs_displayWidths := map (\<lambda>w. min w columns) (take (nat rows) (vs_displayWidths current)),
     vs_cursorX := min (vs_cursorX current) columns, vs_cursorY := min (vs_cursorY current) (rows - 1)\<rparr>"
    "t = put_tab tabId v r"
    using assms(2) by (auto simp: viewport_resize_def Let_def viewport_require_Inr split: sum.splits if_splits)
  have ok: "vs_tabId current = tabId" "viewport_ok current" using current_ok [OF assms(1) c(1)] by auto
  from resized_ok [OF ok(2) c(2)] show ?thesis using that [of current] c ok by (auto simp: replaces_def)
qed


section \<open>Steps\<close>

text \<open>The attachment fence, and within one fence the output sequence, only grow.\<close>

definition viewport_progress :: "viewport_snapshot \<Rightarrow> viewport_snapshot \<Rightarrow> bool" where
  "viewport_progress v w \<longleftrightarrow> vb_fencingGeneration (vs_binding v) < vb_fencingGeneration (vs_binding w) \<or>
     vs_binding w = vs_binding v \<and> vs_outputSequence v \<le> vs_outputSequence w"

lemma viewport_progress_refl [simp]: "viewport_progress v v"
  by (simp add: viewport_progress_def)

lemma viewport_progress_trans: "viewport_progress u v \<Longrightarrow> viewport_progress v w \<Longrightarrow> viewport_progress u w"
  by (auto simp: viewport_progress_def)

lemma viewport_step_outcome:
  assumes "viewport_step r t" and "registry_inv r"
  obtains (opened) tabId v where "length (vr_tabs r) < max_viewport_tabs" "map_get (vr_tabs r) tabId = None" "viewport_ok v" "vs_tabId v = tabId"
      "t = (put_tab tabId v r)\<lparr>vr_active := (case vr_active r of None \<Rightarrow> Some tabId | Some a \<Rightarrow> Some a)\<rparr>"
    | (selected) tabId where "map_get (vr_tabs r) tabId \<noteq> None" "t = r\<lparr>vr_active := Some tabId\<rparr>"
    | (replaced) tabId current v where "replaces r tabId current v t" "viewport_progress current v"
    | (closed) tabId where "viewport_close tabId r = Inr t"
  using assms(1)
proof cases
  case (opened tabId binding columns rows v)
  then have "length (vr_tabs r) < max_viewport_tabs" "map_get (vr_tabs r) tabId = None" "viewport_ok v" "vs_tabId v = tabId"
    "t = (put_tab tabId v r)\<lparr>vr_active := (case vr_active r of None \<Rightarrow> Some tabId | Some a \<Rightarrow> Some a)\<rparr>"
    by (auto simp: viewport_open_def Let_def split: if_splits intro: blank_ok) (simp add: blank_snapshot_def)
  then show ?thesis by (rule that(1))
next
  case (selected tabId v)
  then show ?thesis using that(2) [of tabId] by (auto simp: viewport_select_def viewport_require_def split: option.splits)
next
  case (rebound tabId binding v)
  from rebind_replaces [OF assms(2) this] show ?thesis using that(3) by (auto simp: viewport_progress_def)
next
  case (reset tabId binding columns rows v)
  from reset_replaces [OF assms(2) this] show ?thesis using that(3) by (auto simp: viewport_progress_def)
next
  case (closed tabId)
  then show ?thesis by (rule that(4))
next
  case (framed f v)
  from frame_replaces [OF assms(2) this] show ?thesis using that(3) [of "rf_tabId f" _ v] by (metis less_imp_le viewport_progress_def)
next
  case (resized tabId columns rows v)
  from resize_replaces [OF assms(2) this] show ?thesis using that(3) [of tabId _ v] by (metis order_refl viewport_progress_def)
next
  case (reflowed l v)
  from reflow_replaces [OF assms(2) this] show ?thesis using that(3) [of "lf_tabId l" _ v] by (metis order_refl viewport_progress_def)
qed

lemma close_inv:
  assumes "registry_inv r" and "viewport_close tabId r = Inr t"
  shows "registry_inv t"
proof -
  let ?tabs = "AList.delete tabId (vr_tabs r)"
  have t: "vr_tabs t = ?tabs" "vr_active t = (if vr_active r = Some tabId then map_option fst (List.find (\<lambda>_. True) ?tabs) else vr_active r)"
    and k: "map_get (vr_tabs r) tabId \<noteq> None"
    using assms(2) by (auto simp: viewport_close_def viewport_require_def Let_def split: option.splits)
  have "length ?tabs \<le> max_viewport_tabs" using assms(1) le_trans [OF length_delete_le] by (auto simp: registry_inv_def)
  moreover have "distinct (map fst ?tabs)" using assms(1) by (simp add: registry_inv_def distinct_delete)
  moreover have "case vr_active t of None \<Rightarrow> vr_tabs t = [] | Some a \<Rightarrow> map_get (vr_tabs t) a \<noteq> None"
  proof (cases "vr_active r = Some tabId")
    case True
    then show ?thesis using t by (cases ?tabs) auto
  next
    case False
    moreover have "vr_active r \<noteq> None" using assms(1) k by (auto simp: registry_inv_def split: option.splits)
    ultimately show ?thesis using assms(1) t by (auto simp: registry_inv_def map_get_delete split: option.splits)
  qed
  ultimately show ?thesis using assms(1) t(1) by (auto simp: registry_inv_def map_get_delete)
qed

lemma viewport_step_inv: "registry_inv r \<Longrightarrow> viewport_step r t \<Longrightarrow> registry_inv t"
proof -
  assume inv: "registry_inv r" and step: "viewport_step r t"
  from step inv show ?thesis
  proof (cases rule: viewport_step_outcome)
    case (opened tabId v)
    then show ?thesis using inv by (auto simp: registry_inv_def put_tab_def length_map_set split: option.splits)
  next
    case (selected tabId)
    then show ?thesis using inv by (auto simp: registry_inv_def)
  next
    case (replaced tabId current v)
    then show ?thesis using replaces_inv [OF inv] by blast
  next
    case (closed tabId)
    then show ?thesis by (rule close_inv [OF inv])
  qed
qed

text \<open>The steps that close no tab.\<close>

definition open_step :: "viewport_registry \<Rightarrow> viewport_registry \<Rightarrow> bool" where
  "open_step r t \<longleftrightarrow> viewport_step r t \<and> (\<forall>k. map_get (vr_tabs r) k \<noteq> None \<longrightarrow> map_get (vr_tabs t) k \<noteq> None)"

definition tab_generation :: "viewport_registry \<Rightarrow> string \<Rightarrow> int" where
  "tab_generation r k = (case map_get (vr_tabs r) k of None \<Rightarrow> 0 | Some v \<Rightarrow> vb_fencingGeneration (vs_binding v))"

definition frame_accepted :: "viewport_registry \<Rightarrow> string \<Rightarrow> int \<Rightarrow> bool" where
  "frame_accepted r k g \<longleftrightarrow> (\<exists>f v t. rf_tabId f = k \<and> vb_fencingGeneration (rf_binding f) = g \<and> applyRenderedFrame f r = Inr (v, t))"

definition generation_issued :: "viewport_registry \<Rightarrow> viewport_registry \<Rightarrow> string \<Rightarrow> int \<Rightarrow> bool" where
  "generation_issued r t k g \<longleftrightarrow> open_step r t \<and> tab_generation r k < g \<and> tab_generation t k = g"

lemma tab_progress:
  assumes "registry_inv r" and "viewport_step r t" and "map_get (vr_tabs r) k = Some v" and "map_get (vr_tabs t) k = Some w"
  shows "viewport_progress v w"
  using assms(2,1)
proof (cases rule: viewport_step_outcome)
  case (closed tabId)
  then show ?thesis using assms(3,4)
    by (auto simp: viewport_close_def viewport_require_def Let_def map_get_delete split: option.splits if_splits)
qed (use assms(3,4) in \<open>auto simp: put_tab_def replaces_def split: if_splits\<close>)

lemma tab_generation_mono: "registry_inv r \<Longrightarrow> open_step r t \<Longrightarrow> tab_generation r k \<le> tab_generation t k"
proof -
  assume inv: "registry_inv r" and step: "open_step r t"
  show ?thesis
  proof (cases "map_get (vr_tabs r) k")
    case None
    have "registry_inv t" using viewport_step_inv [OF inv] step by (simp add: open_step_def)
    then have "0 \<le> tab_generation t k"
      using current_ok [of t k] by (cases "map_get (vr_tabs t) k") (auto simp: tab_generation_def viewport_ok_def validateBinding_def)
    then show ?thesis using None by (simp add: tab_generation_def)
  next
    case (Some v)
    then obtain w where w: "map_get (vr_tabs t) k = Some w" using step by (fastforce simp: open_step_def)
    have "viewport_progress v w" using tab_progress [OF inv _ Some w] step by (simp add: open_step_def)
    then show ?thesis using Some w by (auto simp: tab_generation_def viewport_progress_def)
  qed
qed

lemma registry_new_inv: "registry_inv viewport_registry_new"
  by (simp add: registry_inv_def viewport_registry_new_def)

lemma frame_accepted_generation: "registry_inv r \<Longrightarrow> frame_accepted r k g \<Longrightarrow> g = tab_generation r k"
  by (auto simp: frame_accepted_def tab_generation_def sameBinding_def replaces_def elim!: frame_replaces)

interpretation viewports: invariant_system "\<lambda>r. r = viewport_registry_new" viewport_step registry_inv
  by unfold_locales (blast intro: viewport_step_inv registry_new_inv)+

interpretation viewport_fence: generation_fence "\<lambda>r. r = viewport_registry_new" open_step registry_inv tab_generation frame_accepted generation_issued
  by unfold_locales (auto simp: generation_issued_def open_step_def intro: viewport_step_inv registry_new_inv tab_generation_mono frame_accepted_generation)


section \<open>Properties\<close>

text \<open>
  C37. Nothing of a remote program reaches the host as a control character. In every registry
  reached by opening, selecting, rebinding, resetting, closing and resizing tabs and by applying
  frames and reflows in any order, no character of a cell row or of a styled run of a tab is a C0
  control, DEL or a C1 control; there are at most as many rows of cells as the tab has, one
  display width for each, and at most as many rows of styled runs; the display widths the emulator
  reported and the widths of the runs of a row together are within the tab's columns (the number
  of characters is not bounded: combining characters have no width); the
  cursor is on the screen, the tab has at most 250000 cells, and there are at most 32 tabs.
\<close>

theorem viewport_isolated:
  assumes "viewport_step\<^sup>*\<^sup>* viewport_registry_new r" and "map_get (vr_tabs r) k = Some v"
  shows "list_all (list_all (\<lambda>c. 32 \<le> c \<and> c \<noteq> 127 \<and> \<not> (128 \<le> c \<and> c \<le> 159))) (vs_cells v) \<and>
     int (length (vs_cells v)) \<le> vs_rows v \<and> length (vs_displayWidths v) = length (vs_cells v) \<and>
     list_all (\<lambda>w. 0 \<le> w \<and> w \<le> vs_columns v) (vs_displayWidths v) \<and>
     (case vs_renderRows v of None \<Rightarrow> True
      | Some rows \<Rightarrow> int (length rows) \<le> vs_rows v \<and>
          list_all (\<lambda>row. list_all (\<lambda>run. 1 \<le> rr_width run \<and>
              list_all (\<lambda>c. 32 \<le> c \<and> c \<noteq> 127 \<and> \<not> (128 \<le> c \<and> c \<le> 159)) (rr_text run)) row \<and>
            sum_list (map rr_width row) \<le> vs_columns v) rows) \<and>
     0 \<le> vs_cursorX v \<and> vs_cursorX v \<le> vs_columns v \<and> 0 \<le> vs_cursorY v \<and> vs_cursorY v < vs_rows v \<and>
     1 \<le> vs_columns v \<and> 1 \<le> vs_rows v \<and> vs_columns v * vs_rows v \<le> 250000 \<and> length (vr_tabs r) \<le> 32"
proof -
  have inv: "registry_inv r" using viewports.reachable_inv [OF refl assms(1)] .
  have ok: "viewport_ok v" using current_ok [OF inv assms(2)] by simp
  have plain: "\<not> containsHostControl t \<Longrightarrow> list_all (\<lambda>c. 32 \<le> c \<and> c \<noteq> 127 \<and> \<not> (128 \<le> c \<and> c \<le> 159)) t" for t
    by (auto simp: containsHostControl_def list_all_iff list_ex_iff)
  have "list_all (list_all (\<lambda>c. 32 \<le> c \<and> c \<noteq> 127 \<and> \<not> (128 \<le> c \<and> c \<le> 159))) (vs_cells v)"
    using ok plain unfolding viewport_ok_def cells_fit_def list_all_iff [of _ "vs_cells v"] list_ex_iff [of _ "vs_cells v"] by blast
  moreover have "int (length rows) \<le> vs_rows v \<and> list_all (\<lambda>row. list_all (\<lambda>run. 1 \<le> rr_width run \<and>
      list_all (\<lambda>c. 32 \<le> c \<and> c \<noteq> 127 \<and> \<not> (128 \<le> c \<and> c \<le> 159)) (rr_text run)) row \<and> sum_list (map rr_width row) \<le> vs_columns v) rows"
    if "vs_renderRows v = Some rows" for rows
  proof -
    have runs: "int (length rows) \<le> vs_rows v" "list_all (\<lambda>row. list_all run_ok row \<and> sum_list (map rr_width row) \<le> vs_columns v) rows"
      using ok that by (simp_all add: viewport_ok_def styled_ok_def)
    have "run_ok run \<Longrightarrow> 1 \<le> rr_width run \<and> list_all (\<lambda>c. 32 \<le> c \<and> c \<noteq> 127 \<and> \<not> (128 \<le> c \<and> c \<le> 159)) (rr_text run)" for run
      using plain by (simp add: run_ok_def)
    with runs show ?thesis by (simp add: list_all_iff [of _ rows]) (blast intro: list.pred_mono_strong)
  qed
  moreover have "length (vr_tabs r) \<le> 32" using inv by (simp add: registry_inv_def max_viewport_tabs_def)
  ultimately show ?thesis using ok
    by (auto simp: viewport_ok_def cells_fit_def validateDimensions_def max_viewport_cells_def list_all_iff split: option.splits)
qed

definition sample_binding :: "int \<Rightarrow> viewport_binding" where
  "sample_binding g = \<lparr>vb_identity = \<lparr>ai_userId = ''u'', ai_machineId = ''m'', ai_agentSessionId = ''s'', ai_processEpoch = ''e''\<rparr>, vb_fencingGeneration = g\<rparr>"

definition sample_registry :: "int \<Rightarrow> viewport_registry" where
  "sample_registry g = \<lparr>vr_tabs = [(''t'', blank_snapshot ''t'' (sample_binding g) 80 24)], vr_active = Some ''t''\<rparr>"

lemma sample_binding_ok: "validateBinding (sample_binding 1)" "validateBinding (sample_binding 2)" "validateDimensions 80 24"
  by code_simp+

lemma sample_opened: "viewport_open ''t'' (sample_binding 1) 80 24 viewport_registry_new = Inr (blank_snapshot ''t'' (sample_binding 1) 80 24, sample_registry 1)"
  by (simp add: viewport_open_def viewport_registry_new_def max_viewport_tabs_def sample_binding_ok put_tab_def sample_registry_def Let_def)

lemma sample_rebound: "resetForCurrentView ''t'' (sample_binding 2) 80 24 (sample_registry 1) = Inr (blank_snapshot ''t'' (sample_binding 2) 80 24, sample_registry 2)"
proof -
  have "assertViewportRebind (sample_binding 1) (sample_binding 2)"
    using sample_binding_ok(2) by (simp add: assertViewportRebind_def) (simp add: sample_binding_def)
  then show ?thesis using sample_binding_ok(3)
    by (simp add: resetForCurrentView_def viewport_require_def sample_registry_def put_tab_def Let_def) (simp add: blank_snapshot_def)
qed

lemma sample_registry_tab: "map_get (vr_tabs (sample_registry g)) ''t'' = Some (blank_snapshot ''t'' (sample_binding g) 80 24)"
  by (simp add: sample_registry_def)

lemma sample_reached: "open_step\<^sup>*\<^sup>* viewport_registry_new (sample_registry 1)" "viewport_step\<^sup>*\<^sup>* viewport_registry_new (sample_registry 1)"
  using viewport_step.opened [OF sample_opened] by (auto simp: open_step_def viewport_registry_new_def intro!: r_into_rtranclp)

theorem viewport_isolated_witness:
  "length (vr_tabs (sample_registry 1)) \<le> 32 \<and>
     length (vs_displayWidths (blank_snapshot ''t'' (sample_binding 1) 80 24)) = length (vs_cells (blank_snapshot ''t'' (sample_binding 1) 80 24))"
  using viewport_isolated [OF sample_reached(2) sample_registry_tab] by blast

text \<open>
  Output of a superseded attachment never appears. Once a tab has been rebound or reset to a
  newer attachment fence, then as long as the tab stays open, whatever else happens to it and to
  other tabs, a frame with an older fence is refused; and the fence, and within one fence the
  output sequence, never go back.
\<close>

theorem viewport_fencing:
  assumes "open_step\<^sup>*\<^sup>* viewport_registry_new r" and "viewport_rebind k b r = Inr (v, s) \<or> resetForCurrentView k b columns rows r = Inr (v, s)"
    and "open_step\<^sup>*\<^sup>* s t" and "rf_tabId f = k" and "vb_fencingGeneration (rf_binding f) < vb_fencingGeneration b"
    and "map_get (vr_tabs t) k = Some w"
  shows "isl (applyRenderedFrame f t) \<and> vb_fencingGeneration b \<le> vb_fencingGeneration (vs_binding w)"
proof -
  have inv: "registry_inv r" by (rule viewport_fence.reachable_inv [OF refl assms(1)])
  obtain current where c: "replaces r k current v s" "vs_binding v = b"
    using assms(2) rebind_replaces [OF inv, of k b v s] reset_replaces [OF inv, of k b columns rows v s] by metis
  then have s: "registry_inv s" "tab_generation s k = vb_fencingGeneration b"
    using replaces_inv [OF inv] by (auto simp: replaces_def put_tab_def tab_generation_def)
  have "\<not> frame_accepted t k (vb_fencingGeneration (rf_binding f))"
    using viewport_fence.stale_never_accepted [OF s(1) assms(3)] assms(5) s(2) by simp
  then have "isl (applyRenderedFrame f t)" using assms(4) by (cases "applyRenderedFrame f t") (auto simp: frame_accepted_def)
  moreover have "vb_fencingGeneration b \<le> vb_fencingGeneration (vs_binding w)"
    using viewport_fence.gen_steps_mono [OF assms(3) s(1), of k] s(2) assms(6) by (simp add: tab_generation_def)
  ultimately show ?thesis by simp
qed

definition sample_frame :: "int \<Rightarrow> rendered_frame" where
  "sample_frame g = \<lparr>rf_tabId = ''t'', rf_binding = sample_binding g, rf_outputSequence = 5, rf_replayCursor = 0, rf_cells = [[104, 105]],
     rf_renderRows = None, rf_displayWidths = None, rf_cursorX = None, rf_cursorY = None, rf_modes = fresh_modes\<rparr>"

theorem viewport_fencing_witness: "isl (applyRenderedFrame (sample_frame 1) (sample_registry 2))"
proof -
  have "rf_tabId (sample_frame 1) = ''t''" "vb_fencingGeneration (rf_binding (sample_frame 1)) < vb_fencingGeneration (sample_binding 2)"
    by (simp_all add: sample_frame_def sample_binding_def)
  from viewport_fencing [OF sample_reached(1) disjI2 [OF sample_rebound] rtranclp.rtrancl_refl this sample_registry_tab] show ?thesis by blast
qed

text \<open>
  A frame without styled rows keeps those of the frame before it, although the cells are new: the
  styled rows of the snapshot then say something else than its cells.
\<close>

lemma styled_rows_stale:
  assumes "applyRenderedFrame f r = Inr (v, t)" and "rf_renderRows f = None" and "map_get (vr_tabs r) (rf_tabId f) = Some current"
  shows "vs_renderRows v = vs_renderRows current \<and> vs_cells v = rf_cells f"
  using assms by (auto simp: applyRenderedFrame_def viewport_require_def with_cells_def Let_def split: if_splits)

end
