(* ===== verification/Predictive_Echo.thy ===== *)
theory Predictive_Echo
  imports Complex_Main Viewport
begin

text \<open>
  Predictive local echo, \<^verbatim>\<open>src/terminal/predictive-echo.ts\<close>, and the cell widths it measures with,
  \<^verbatim>\<open>src/terminal/cell-width.ts\<close>. The screen is a snapshot of the theory \<open>Viewport\<close>. The grapheme segmenter and the
  Unicode properties behind \<^verbatim>\<open>\p{Mark}\<close>, \<^verbatim>\<open>\p{Cf}\<close> and the emoji classes are arguments (\<open>text_env\<close>).
  Readings of the clock are arguments; \<open>rnd\<close> rounds to a double. A timer is the guess it was armed
  for; it may fire at any moment after that, so its delay is not modelled.
\<close>

section \<open>Cell widths\<close>

record text_env =
  te_segment :: "utext \<Rightarrow> utext list"
  te_mark :: "int \<Rightarrow> bool"
  te_emoji :: "int \<Rightarrow> bool"

definition isWideCodePoint :: "int \<Rightarrow> bool" where
  "isWideCodePoint c \<longleftrightarrow> c \<ge> 0x1100 \<and>
     (c \<le> 0x115f \<or> c = 0x2329 \<or> c = 0x232a \<or> (c \<ge> 0x2e80 \<and> c \<le> 0xa4cf \<and> c \<noteq> 0x303f) \<or> (c \<ge> 0xac00 \<and> c \<le> 0xd7a3) \<or>
      (c \<ge> 0xf900 \<and> c \<le> 0xfaff) \<or> (c \<ge> 0xfe10 \<and> c \<le> 0xfe19) \<or> (c \<ge> 0xfe30 \<and> c \<le> 0xfe6f) \<or> (c \<ge> 0xff00 \<and> c \<le> 0xff60) \<or>
      (c \<ge> 0xffe0 \<and> c \<le> 0xffe6) \<or> (c \<ge> 0x20000 \<and> c \<le> 0x3fffd))"

definition graphemeCellWidth :: "text_env \<Rightarrow> utext \<Rightarrow> int" where
  "graphemeCellWidth env g =
     (if g = [] \<or> list_all (te_mark env) g then 0
      else if list_ex (\<lambda>c. te_emoji env c \<or> c = 0x20e3) g then 2
      else if list_ex isWideCodePoint g then 2 else 1)"

definition terminalCellWidth :: "text_env \<Rightarrow> utext \<Rightarrow> int" where
  "terminalCellWidth env v = sum_list (map (graphemeCellWidth env) (te_segment env v))"

section \<open>The screen\<close>

datatype point_kind = Cursor | Inverse

record insertion_point =
  ip_row :: int
  ip_column :: int
  ip_kind :: point_kind

record screen_cell =
  sc_text :: utext
  sc_inverse :: bool

text \<open>\<^verbatim>\<open>xs[i]\<close>, undefined out of range.\<close>

definition at_index :: "'a list \<Rightarrow> int \<Rightarrow> 'a option" where
  "at_index xs i = (if 0 \<le> i \<and> i < int (length xs) then Some (xs ! nat i) else None)"

text \<open>The inverse cells of a row; the outer \<open>None\<close> is the early return of undefined.\<close>

fun scan_runs :: "int \<Rightarrow> int \<Rightarrow> render_run list \<Rightarrow> insertion_point option \<Rightarrow> insertion_point option option" where
  "scan_runs row column [] found = Some found"
| "scan_runs row column (run # runs) found =
     (if st_inverse (rr_style run) then
        (if rr_width run \<noteq> 1 \<or> found \<noteq> None then None
         else scan_runs row (column + rr_width run) runs (Some \<lparr>ip_row = row, ip_column = column, ip_kind = Inverse\<rparr>))
      else scan_runs row (column + rr_width run) runs found)"

fun scan_rows :: "int \<Rightarrow> int \<Rightarrow> render_run list list \<Rightarrow> insertion_point option \<Rightarrow> insertion_point option" where
  "scan_rows limit row [] found = found"
| "scan_rows limit row (runs # rows) found =
     (if row < limit then
        (case scan_runs row 0 runs found of None \<Rightarrow> None | Some found' \<Rightarrow> scan_rows limit (row + 1) rows found')
      else found)"

definition insertionPoint :: "viewport_snapshot \<Rightarrow> insertion_point option" where
  "insertionPoint view =
     (if vm_cursorVisible (vs_modes view) then
        (if vs_cursorY view < 0 \<or> vs_cursorY view \<ge> vs_rows view \<or> vs_cursorX view < 0 \<or> vs_cursorX view \<ge> vs_columns view then None
         else Some \<lparr>ip_row = vs_cursorY view, ip_column = vs_cursorX view, ip_kind = Cursor\<rparr>)
      else case vs_renderRows view of
        None \<Rightarrow> None
      | Some rows \<Rightarrow> scan_rows (vs_rows view) 0 rows None)"

fun cell_in_run :: "text_env \<Rightarrow> int \<Rightarrow> int \<Rightarrow> bool \<Rightarrow> utext list \<Rightarrow> screen_cell option" where
  "cell_in_run env column offset style [] = None"
| "cell_in_run env column offset style (g # gs) =
     (let width = terminalCellWidth env g in
      if column < offset + width then
        (if width = 1 \<and> offset = column then Some \<lparr>sc_text = g, sc_inverse = style\<rparr> else None)
      else cell_in_run env column (offset + width) style gs)"

fun cell_in_row :: "text_env \<Rightarrow> int \<Rightarrow> int \<Rightarrow> render_run list \<Rightarrow> screen_cell option" where
  "cell_in_row env column offset [] = Some \<lparr>sc_text = [], sc_inverse = False\<rparr>"
| "cell_in_row env column offset (run # runs) =
     (let graphemes = te_segment env (rr_text run) in
      if sum_list (map (terminalCellWidth env) graphemes) \<noteq> rr_width run then None
      else if column \<ge> offset + rr_width run then cell_in_row env column (offset + rr_width run) runs
      else cell_in_run env column offset (st_inverse (rr_style run)) graphemes)"

definition plain_style :: cell_style where
  "plain_style = \<lparr>st_bold = False, st_dim = False, st_italic = False, st_underline = False, st_blink = False, st_inverse = False,
     st_invisible = False, st_strikethrough = False, st_overline = False, st_foreground = None, st_background = None\<rparr>"

definition row_runs :: "viewport_snapshot \<Rightarrow> int \<Rightarrow> render_run list" where
  "row_runs view row =
     (case Option.bind (vs_renderRows view) (\<lambda>rows. at_index rows row) of
        Some runs \<Rightarrow> runs
      | None \<Rightarrow> [\<lparr>rr_text = (case at_index (vs_cells view) row of Some t \<Rightarrow> t | None \<Rightarrow> []),
                  rr_width = (case at_index (vs_displayWidths view) row of Some w \<Rightarrow> w | None \<Rightarrow> 0), rr_style = plain_style\<rparr>])"

definition cellAt :: "text_env \<Rightarrow> viewport_snapshot \<Rightarrow> int \<Rightarrow> int \<Rightarrow> screen_cell option" where
  "cellAt env view row column =
     (if row < 0 \<or> row \<ge> vs_rows view \<or> column < 0 \<or> column \<ge> vs_columns view then None
      else cell_in_row env column 0 (row_runs view row))"

definition isBlank :: "utext \<Rightarrow> bool" where
  "isBlank t \<longleftrightarrow> t = [] \<or> t = [0x20]"

definition isPrintableAscii :: "byte \<Rightarrow> bool" where
  "isPrintableAscii b \<longleftrightarrow> 0x20 \<le> b \<and> b \<le> 0x7e"

section \<open>Prompts for secrets\<close>

text \<open>
  \<^verbatim>\<open>SECRET_PROMPT\<close>. Under the flags \<^verbatim>\<open>iu\<close> two letters outside ASCII fold into it, the long s and the
  Kelvin sign; \<^verbatim>\<open>\b\<close> is a change between word characters and others.
\<close>

definition fold_case :: "int \<Rightarrow> int" where
  "fold_case c = (if 65 \<le> c \<and> c \<le> 90 then c + 32 else if c = 0x17f then 115 else if c = 0x212a then 107 else c)"

definition codes :: "string \<Rightarrow> utext" where
  "codes s = map of_char s"

definition word_char :: "int \<Rightarrow> bool" where
  "word_char c \<longleftrightarrow> (97 \<le> c \<and> c \<le> 122) \<or> (48 \<le> c \<and> c \<le> 57) \<or> c = 95"

definition starts :: "string \<Rightarrow> utext \<Rightarrow> bool" where
  "starts w t \<longleftrightarrow> take (length w) t = codes w"

text \<open>\<open>before\<close> is the text before the position, backwards.\<close>

definition whole_word :: "utext \<Rightarrow> string \<Rightarrow> utext \<Rightarrow> bool" where
  "whole_word before w t \<longleftrightarrow> starts w t \<and> (before = [] \<or> \<not> word_char (hd before)) \<and>
     (drop (length w) t = [] \<or> \<not> word_char (hd (drop (length w) t)))"

definition secret_here :: "utext \<Rightarrow> utext \<Rightarrow> bool" where
  "secret_here before t \<longleftrightarrow>
     list_ex (\<lambda>w. starts w t)
       [''password'', ''passphrase'', ''passcode'', ''secret'', ''token'', ''apikey'', ''api key'', ''api_key'', ''api-key'',
        ''one-time'', ''one time'', ''verification code''] \<or>
     whole_word before ''pin'' t \<or> whole_word before ''otp'' t"

fun secret_from :: "utext \<Rightarrow> utext \<Rightarrow> bool" where
  "secret_from before [] = secret_here before []"
| "secret_from before (c # cs) = (secret_here before (c # cs) \<or> secret_from (c # before) cs)"

definition secret_prompt :: "utext \<Rightarrow> bool" where
  "secret_prompt line = secret_from [] (map fold_case line)"

definition asksForSecret :: "viewport_snapshot \<Rightarrow> insertion_point \<Rightarrow> bool" where
  "asksForSecret view point = secret_prompt (case at_index (vs_cells view) (ip_row point) of Some t \<Rightarrow> t | None \<Rightarrow> [])"

section \<open>State\<close>

datatype echo_mode = Off | On | Auto

definition predictive_echo_enable_rtt_ms :: rat where "predictive_echo_enable_rtt_ms = 60"
definition predictive_echo_disable_rtt_ms :: rat where "predictive_echo_disable_rtt_ms = 50"
definition prediction_confirm_timeout_ms :: int where "prediction_confirm_timeout_ms = 1000"
definition prediction_trust_confirmations :: nat where "prediction_trust_confirmations = 3"
definition default_barrier_ms :: int where "default_barrier_ms = 250"
definition max_pending_predictions :: nat where "max_pending_predictions = 64"

text \<open>\<^verbatim>\<open>trim().toLowerCase()\<close> of the environment variable; only ASCII letters can give one of the three words.\<close>

definition is_space :: "int \<Rightarrow> bool" where
  "is_space c \<longleftrightarrow> (9 \<le> c \<and> c \<le> 13) \<or> c \<in> {0x20, 0xa0, 0x1680, 0x2028, 0x2029, 0x202f, 0x205f, 0x3000, 0xfeff} \<or> (0x2000 \<le> c \<and> c \<le> 0x200a)"

definition trimmed :: "utext \<Rightarrow> utext" where
  "trimmed t = rev (dropWhile is_space (rev (dropWhile is_space t)))"

definition predictiveEchoModeFromEnvironment :: "utext option \<Rightarrow> echo_mode option" where
  "predictiveEchoModeFromEnvironment v =
     (case v of
        None \<Rightarrow> Some Off
      | Some t \<Rightarrow>
          let requested = map (\<lambda>c. if 65 \<le> c \<and> c \<le> 90 then c + 32 else c) (trimmed t) in
          if requested = [] then Some Off
          else if requested = codes ''auto'' then Some Auto
          else if requested = codes ''on'' then Some On
          else if requested = codes ''off'' then Some Off
          else None)"

record prediction =
  pr_row :: int
  pr_column :: int
  pr_glyph :: int
  pr_kind :: point_kind
  pr_sentAt :: int

record predictive_echo =
  pe_mode :: echo_mode
  pe_key :: "string option"
  pe_pending :: "prediction list"
  pe_srtt :: "rat option"
  pe_slowEcho :: bool
  pe_recent :: "bool list"
  pe_barrierUntil :: "int option"
  pe_timer :: "prediction option"
  pe_predicted :: nat
  pe_confirmed :: nat
  pe_mispredicted :: nat
  pe_expired :: nat

definition echo_new :: "echo_mode \<Rightarrow> predictive_echo" where
  "echo_new mode = \<lparr>pe_mode = mode, pe_key = None, pe_pending = [], pe_srtt = None, pe_slowEcho = False, pe_recent = [],
     pe_barrierUntil = None, pe_timer = None, pe_predicted = 0, pe_confirmed = 0, pe_mispredicted = 0, pe_expired = 0\<rparr>"

record prediction_overlay =
  po_row :: int
  po_column :: int
  po_text :: utext
  po_cursorColumn :: int
  po_cursor :: point_kind

text \<open>\<^verbatim>\<open>xs.slice(-n)\<close> for positive \<open>n\<close>.\<close>

definition last_n :: "nat \<Rightarrow> 'a list \<Rightarrow> 'a list" where
  "last_n n xs = drop (length xs - n) xs"

definition displayAllowed :: "predictive_echo \<Rightarrow> bool" where
  "displayAllowed s \<longleftrightarrow> pe_mode s \<noteq> Off \<and>
     length (pe_recent s) \<ge> prediction_trust_confirmations \<and> list_all id (last_n prediction_trust_confirmations (pe_recent s)) \<and>
     (pe_mode s = On \<or> pe_slowEcho s)"

definition echo_showing :: "predictive_echo \<Rightarrow> bool" where
  "echo_showing s \<longleftrightarrow> pe_pending s \<noteq> [] \<and> displayAllowed s"

definition armTimer :: "predictive_echo \<Rightarrow> predictive_echo" where
  "armTimer s = s\<lparr>pe_timer := (case pe_pending s of [] \<Rightarrow> None | first # _ \<Rightarrow> Some first)\<rparr>"

definition echo_clear :: "predictive_echo \<Rightarrow> bool \<times> predictive_echo" where
  "echo_clear s = (echo_showing s, s\<lparr>pe_pending := [], pe_timer := None\<rparr>)"

definition echo_adopt :: "string \<Rightarrow> predictive_echo \<Rightarrow> bool \<times> predictive_echo" where
  "echo_adopt key s =
     (if pe_key s = Some key then (False, s)
      else let (shown, s1) = echo_clear s
           in (shown, s1\<lparr>pe_key := Some key, pe_barrierUntil := None, pe_recent := [], pe_srtt := None, pe_slowEcho := False\<rparr>))"

definition echo_sample :: "(rat \<Rightarrow> rat) \<Rightarrow> int \<Rightarrow> predictive_echo \<Rightarrow> predictive_echo" where
  "echo_sample rnd elapsed s =
     (let smp = of_int (max 0 elapsed);
          srtt = (case pe_srtt s of None \<Rightarrow> smp | Some v \<Rightarrow> rnd (v + rnd (1 / 8 * rnd (smp - v))))
      in s\<lparr>pe_srtt := Some srtt,
           pe_slowEcho := (if srtt > predictive_echo_enable_rtt_ms then True
                           else if srtt < predictive_echo_disable_rtt_ms then False else pe_slowEcho s)\<rparr>)"

definition echo_settle :: "bool \<Rightarrow> predictive_echo \<Rightarrow> predictive_echo" where
  "echo_settle confirmed s =
     (let recent = pe_recent s @ [confirmed]
      in s\<lparr>pe_recent := (if length recent > 8 then drop (length recent - 8) recent else recent)\<rparr>)"

definition rollBack :: "bool \<Rightarrow> predictive_echo \<Rightarrow> predictive_echo" where
  "rollBack timed_out s =
     (let s1 = echo_settle False (s\<lparr>pe_pending := [], pe_timer := None\<rparr>)
      in if timed_out then s1\<lparr>pe_expired := pe_expired s1 + 1\<rparr> else s1\<lparr>pe_mispredicted := pe_mispredicted s1 + 1\<rparr>)"

section \<open>Operations\<close>

definition echo_barrier :: "int \<Rightarrow> predictive_echo \<Rightarrow> bool \<times> predictive_echo" where
  "echo_barrier now s =
     (if pe_mode s = Off then (False, s)
      else (echo_showing s,
            s\<lparr>pe_pending := [], pe_timer := None,
              pe_barrierUntil := Some (now + max default_barrier_ms \<lfloor>(case pe_srtt s of None \<Rightarrow> 0 | Some v \<Rightarrow> v) + 1 / 2\<rfloor>)\<rparr>))"

definition lapse_barrier :: "int \<Rightarrow> predictive_echo \<Rightarrow> predictive_echo" where
  "lapse_barrier now s =
     (case pe_barrierUntil s of Some u \<Rightarrow> if now \<ge> u then s\<lparr>pe_barrierUntil := None\<rparr> else s | None \<Rightarrow> s)"

text \<open>The loop of \<^verbatim>\<open>predict\<close> over the bytes of the chunk; \<open>added\<close> counts the guesses it made.\<close>

fun predict_loop :: "text_env \<Rightarrow> viewport_snapshot \<Rightarrow> insertion_point \<Rightarrow> int \<Rightarrow> byte list \<Rightarrow> nat \<Rightarrow> predictive_echo \<Rightarrow> nat \<times> predictive_echo" where
  "predict_loop env view anchor now [] added s = (added, s)"
| "predict_loop env view anchor now (b # bs) added s =
     (let column = ip_column anchor + int added in
      if length (pe_pending s) \<ge> max_pending_predictions then (added, s)
      else if column \<ge> vs_columns view - (if ip_kind anchor = Inverse then 1 else 0) then (added, s)
      else case cellAt env view (ip_row anchor) column of
        None \<Rightarrow> (added, s)
      | Some cell \<Rightarrow>
          if \<not> isBlank (sc_text cell) then (added, s)
          else if sc_inverse cell \<and> \<not> (ip_kind anchor = Inverse \<and> pe_pending s = [] \<and> added = 0) then (added, s)
          else if ip_kind anchor = Inverse \<and>
            (case cellAt env view (ip_row anchor) (column + 1) of
               None \<Rightarrow> True | Some block \<Rightarrow> \<not> isBlank (sc_text block) \<or> sc_inverse block) then (added, s)
          else predict_loop env view anchor now bs (Suc added)
            (s\<lparr>pe_pending := pe_pending s @ [\<lparr>pr_row = ip_row anchor, pr_column = column, pr_glyph = uint b, pr_kind = ip_kind anchor, pr_sentAt = now\<rparr>],
               pe_predicted := pe_predicted s + 1\<rparr>))"

definition predict_anchor :: "viewport_snapshot \<Rightarrow> predictive_echo \<Rightarrow> insertion_point option" where
  "predict_anchor view s =
     (if pe_pending s = [] then
        (case insertionPoint view of None \<Rightarrow> None | Some p \<Rightarrow> if asksForSecret view p then None else Some p)
      else let guess = last (pe_pending s) in Some \<lparr>ip_row = pr_row guess, ip_column = pr_column guess + 1, ip_kind = pr_kind guess\<rparr>)"

text \<open>\<open>now\<close> is the reading of \<^verbatim>\<open>predict\<close>, \<open>later\<close> the one of \<^verbatim>\<open>barrier\<close>.\<close>

definition echo_predict ::
  "text_env \<Rightarrow> byte list \<Rightarrow> viewport_snapshot \<Rightarrow> string \<Rightarrow> int \<Rightarrow> int \<Rightarrow> predictive_echo \<Rightarrow> bool \<times> predictive_echo" where
  "echo_predict env bytes view key now later s =
     (if pe_mode s = Off then (False, s)
      else let (changed, s1) = echo_adopt key s in
        if \<not> list_all isPrintableAscii bytes then (let (shown, s2) = echo_barrier later s1 in (shown \<or> changed, s2))
        else let s2 = lapse_barrier now s1 in
          if pe_barrierUntil s2 \<noteq> None then (changed, s2)
          else case predict_anchor view s2 of
            None \<Rightarrow> (changed, s2)
          | Some anchor \<Rightarrow>
              let (added, s3) = predict_loop env view anchor now bytes 0 s2;
                  s4 = armTimer (if added < length bytes then s3\<lparr>pe_barrierUntil := Some now\<rparr> else s3)
              in ((added > 0 \<and> displayAllowed s4) \<or> changed, s4))"

datatype evidence = Mismatch | Evidenced int

text \<open>The newest guess the screen proves, by its index; \<open>-1\<close> if there is none.\<close>

definition passed_point :: "insertion_point option \<Rightarrow> prediction \<Rightarrow> bool" where
  "passed_point point g = (case point of None \<Rightarrow> False | Some p \<Rightarrow> ip_row p = pr_row g \<and> ip_column p > pr_column g)"

fun scan_evidence :: "text_env \<Rightarrow> viewport_snapshot \<Rightarrow> insertion_point option \<Rightarrow> int \<Rightarrow> int \<Rightarrow> prediction list \<Rightarrow> evidence" where
  "scan_evidence env view point index evidenced [] = Evidenced evidenced"
| "scan_evidence env view point index evidenced (g # gs) =
     (case cellAt env view (pr_row g) (pr_column g) of
        None \<Rightarrow> Evidenced evidenced
      | Some cell \<Rightarrow>
          if \<not> isBlank (sc_text cell) \<and> sc_text cell \<noteq> [pr_glyph g] then Mismatch
          else scan_evidence env view point (index + 1)
            (if sc_text cell = [pr_glyph g] \<and> (pr_glyph g \<noteq> 0x20 \<or> passed_point point g) then index
             else if passed_point point g \<and> isBlank (sc_text cell) \<and> pr_glyph g = 0x20 then index else evidenced) gs)"

definition guess_matches :: "text_env \<Rightarrow> viewport_snapshot \<Rightarrow> prediction \<Rightarrow> bool" where
  "guess_matches env view g =
     (case cellAt env view (pr_row g) (pr_column g) of
        None \<Rightarrow> False
      | Some cell \<Rightarrow> sc_text cell = [pr_glyph g] \<or> (pr_glyph g = 0x20 \<and> isBlank (sc_text cell)))"

fun confirm_all :: "(rat \<Rightarrow> rat) \<Rightarrow> int \<Rightarrow> prediction list \<Rightarrow> predictive_echo \<Rightarrow> predictive_echo" where
  "confirm_all rnd now [] s = s"
| "confirm_all rnd now (g # gs) s =
     (let s1 = echo_settle True (echo_sample rnd (now - pr_sentAt g) s)
      in confirm_all rnd now gs (s1\<lparr>pe_confirmed := pe_confirmed s1 + 1\<rparr>))"

definition echo_reconcile ::
  "(rat \<Rightarrow> rat) \<Rightarrow> text_env \<Rightarrow> viewport_snapshot \<Rightarrow> string \<Rightarrow> int \<Rightarrow> predictive_echo \<Rightarrow> bool \<times> predictive_echo" where
  "echo_reconcile rnd env view key now s =
     (if pe_mode s = Off then (False, s)
      else let (changed, s1) = echo_adopt key s; s2 = lapse_barrier now s1 in
        if pe_pending s2 = [] then (changed, s2)
        else let shownBefore = echo_showing s2; point = insertionPoint view in
          case scan_evidence env view point 0 (-1) (pe_pending s2) of
            Mismatch \<Rightarrow> (True, rollBack False s2)
          | Evidenced e \<Rightarrow>
              if e < 0 then (changed, s2)
              else let n = nat (e + 1) in
                if \<not> list_all (guess_matches env view) (take n (pe_pending s2)) then (True, rollBack False s2)
                else let s3 = armTimer (confirm_all rnd now (take n (pe_pending s2)) (s2\<lparr>pe_pending := drop n (pe_pending s2)\<rparr>))
                     in (changed \<or> shownBefore \<or> echo_showing s3, s3))"

definition echo_overlay :: "text_env \<Rightarrow> viewport_snapshot \<Rightarrow> string \<Rightarrow> int \<Rightarrow> predictive_echo \<Rightarrow> prediction_overlay option" where
  "echo_overlay env view key now s =
     (if pe_mode s = Off \<or> pe_key s \<noteq> Some key \<or> \<not> displayAllowed s then None
      else case pe_pending s of
        [] \<Rightarrow> None
      | first # _ \<Rightarrow>
          if now - pr_sentAt first \<ge> prediction_confirm_timeout_ms then None
          else case insertionPoint view of
            None \<Rightarrow> None
          | Some p \<Rightarrow>
              if ip_row p \<noteq> pr_row first \<or> ip_column p \<noteq> pr_column first \<or> ip_kind p \<noteq> pr_kind first then None
              else if asksForSecret view p then None
              else if list_ex (\<lambda>g. case cellAt env view (pr_row g) (pr_column g) of None \<Rightarrow> True | Some cell \<Rightarrow> \<not> isBlank (sc_text cell)) (pe_pending s)
              then None
              else Some \<lparr>po_row = pr_row first, po_column = pr_column first, po_text = map pr_glyph (pe_pending s),
                po_cursorColumn = pr_column (last (pe_pending s)) + 1, po_cursor = pr_kind first\<rparr>)"

text \<open>The timer's callback; the flag tells whether \<^verbatim>\<open>onExpire\<close> is called.\<close>

definition timer_fires :: "predictive_echo \<Rightarrow> bool \<times> predictive_echo" where
  "timer_fires s =
     (case pe_timer s of
        None \<Rightarrow> (False, s)
      | Some first \<Rightarrow>
          let s1 = s\<lparr>pe_timer := None\<rparr> in
          if pe_pending s1 = [] \<or> hd (pe_pending s1) \<noteq> first then (False, s1)
          else (echo_showing s1, rollBack True s1))"

inductive echo_step :: "(rat \<Rightarrow> rat) \<Rightarrow> text_env \<Rightarrow> predictive_echo \<Rightarrow> predictive_echo \<Rightarrow> bool" for rnd env where
  predicted: "echo_predict env bytes view key now later s = (r, t) \<Longrightarrow> echo_step rnd env s t"
| reconciled: "echo_reconcile rnd env view key now s = (r, t) \<Longrightarrow> echo_step rnd env s t"
| barred: "echo_barrier now s = (r, t) \<Longrightarrow> echo_step rnd env s t"
| cleared: "echo_clear s = (r, t) \<Longrightarrow> echo_step rnd env s t"
| timed_out: "timer_fires s = (r, t) \<Longrightarrow> echo_step rnd env s t"


section \<open>Invariant\<close>

text \<open>The guesses lie side by side in one row, are printable and carry one kind of cursor.\<close>

definition guess_run :: "prediction list \<Rightarrow> bool" where
  "guess_run gs \<longleftrightarrow> (\<forall>i < length gs. pr_row (gs ! i) = pr_row (gs ! 0) \<and> pr_column (gs ! i) = pr_column (gs ! 0) + int i \<and>
     pr_kind (gs ! i) = pr_kind (gs ! 0) \<and> 0x20 \<le> pr_glyph (gs ! i) \<and> pr_glyph (gs ! i) \<le> 0x7e)"

definition timer_ok :: "predictive_echo \<Rightarrow> bool" where
  "timer_ok s \<longleftrightarrow> pe_timer s = (case pe_pending s of [] \<Rightarrow> None | first # _ \<Rightarrow> Some first)"

definition guesses_ok :: "predictive_echo \<Rightarrow> bool" where
  "guesses_ok s \<longleftrightarrow> guess_run (pe_pending s) \<and> length (pe_pending s) \<le> max_pending_predictions \<and>
     pe_confirmed s + length (pe_pending s) \<le> pe_predicted s \<and> length (pe_recent s) \<le> 8"

definition echo_inv :: "predictive_echo \<Rightarrow> bool" where
  "echo_inv s \<longleftrightarrow> guesses_ok s \<and> timer_ok s"

lemma guess_run_Nil [simp]: "guess_run []"
  by (simp add: guess_run_def)

lemma guess_run_drop: "guess_run gs \<Longrightarrow> guess_run (drop n gs)"
  by (auto simp: guess_run_def)

text \<open>One guess and the one that the first guess of the run fixes at its place.\<close>

definition in_run :: "prediction \<Rightarrow> prediction \<Rightarrow> nat \<Rightarrow> bool" where
  "in_run f g i \<longleftrightarrow> pr_row g = pr_row f \<and> pr_column g = pr_column f + int i \<and> pr_kind g = pr_kind f \<and> 0x20 \<le> pr_glyph g \<and> pr_glyph g \<le> 0x7e"

lemma guess_run_alt: "guess_run gs \<longleftrightarrow> (\<forall>i < length gs. in_run (gs ! 0) (gs ! i) i)"
  by (simp add: guess_run_def in_run_def)

lemma guess_run_snoc:
  assumes "guess_run gs" and "gs \<noteq> [] \<Longrightarrow> pr_row g = pr_row (last gs) \<and> pr_column g = pr_column (last gs) + 1 \<and> pr_kind g = pr_kind (last gs)"
    and "0x20 \<le> pr_glyph g" and "pr_glyph g \<le> 0x7e"
  shows "guess_run (gs @ [g])"
proof (cases gs)
  case Nil
  then show ?thesis using assms(3,4) by (simp add: guess_run_def)
next
  case (Cons f fs)
  have "in_run (gs ! 0) (last gs) (length fs)"
    using assms(1) Cons unfolding guess_run_alt by (metis diff_Suc_1 last_conv_nth length_Cons lessI list.distinct(1))
  then have "in_run (gs ! 0) g (length gs)" using assms Cons by (simp add: in_run_def)
  moreover have "(gs @ [g]) ! 0 = gs ! 0" using Cons by simp
  ultimately have "in_run ((gs @ [g]) ! 0) ((gs @ [g]) ! i) i" if "i < length (gs @ [g])" for i
    using assms(1) that by (cases "i = length gs") (auto simp: guess_run_alt nth_append)
  then show ?thesis by (simp add: guess_run_alt)
qed

lemma printable_glyph: "isPrintableAscii b \<Longrightarrow> 0x20 \<le> uint b \<and> uint b \<le> 0x7e"
  by (simp add: isPrintableAscii_def word_le_def)

definition anchored :: "insertion_point \<Rightarrow> nat \<Rightarrow> prediction list \<Rightarrow> bool" where
  "anchored anchor added gs \<longleftrightarrow> gs = [] \<or> ip_row anchor = pr_row (last gs) \<and> ip_column anchor + int added = pr_column (last gs) + 1 \<and>
     ip_kind anchor = pr_kind (last gs)"

lemma predict_loop_ok:
  assumes "guesses_ok s" and "anchored anchor added (pe_pending s)" and "list_all isPrintableAscii bs"
    and "predict_loop env view anchor now bs added s = (n, t)"
  shows "guesses_ok t"
  using assms
proof (induction env view anchor now bs added s rule: predict_loop.induct)
  case (2 env view anchor now b bs added s)
  let ?g = "\<lparr>pr_row = ip_row anchor, pr_column = ip_column anchor + int added, pr_glyph = uint b, pr_kind = ip_kind anchor, pr_sentAt = now\<rparr>"
  let ?s = "s\<lparr>pe_pending := pe_pending s @ [?g], pe_predicted := pe_predicted s + 1\<rparr>"
  show ?case
  proof (cases "t = s")
    case True
    with 2(2) show ?thesis by simp
  next
    case False
    with 2(5) obtain cell where run: "length (pe_pending s) < max_pending_predictions" "predict_loop env view anchor now bs (Suc added) ?s = (n, t)"
      and c: "\<not> vs_columns view - (if ip_kind anchor = Inverse then 1 else 0) \<le> ip_column anchor + int added"
        "cellAt env view (ip_row anchor) (ip_column anchor + int added) = Some cell" "isBlank (sc_text cell)"
        "\<not> (sc_inverse cell \<and> \<not> (ip_kind anchor = Inverse \<and> pe_pending s = [] \<and> added = 0))"
        "\<not> (ip_kind anchor = Inverse \<and> (case cellAt env view (ip_row anchor) (ip_column anchor + int added + 1) of
               None \<Rightarrow> True | Some block \<Rightarrow> \<not> isBlank (sc_text block) \<or> sc_inverse block))"
      by (simp add: Let_def not_le split: if_split_asm option.split_asm)
    have "guess_run (pe_pending s @ [?g])"
      using 2(2,3,4) printable_glyph [of b] by (intro guess_run_snoc) (auto simp: guesses_ok_def anchored_def)
    then have "guesses_ok ?s" using 2(2) run(1) by (auto simp: guesses_ok_def)
    moreover have "anchored anchor (Suc added) (pe_pending ?s)" by (simp add: anchored_def)
    ultimately show ?thesis using 2(1) [OF refl _ c(1,2) _ c(4,5)] 2(4) run c(3) by simp
  qed
qed simp


lemma timer_ok_arm [simp]: "timer_ok (armTimer s)"
  by (simp add: timer_ok_def armTimer_def)

lemma guesses_ok_frame [simp]:
  "guesses_ok (armTimer s) = guesses_ok s" "guesses_ok (s\<lparr>pe_barrierUntil := u\<rparr>) = guesses_ok s" "guesses_ok (s\<lparr>pe_timer := f\<rparr>) = guesses_ok s"
  by (simp_all add: guesses_ok_def armTimer_def)

lemma echo_inv_barrier [simp]: "echo_inv (s\<lparr>pe_barrierUntil := u\<rparr>) = echo_inv s"
  by (simp add: echo_inv_def timer_ok_def)

lemma echo_inv_withdraw: "guesses_ok s \<Longrightarrow> echo_inv (s\<lparr>pe_pending := [], pe_timer := None\<rparr>)"
  by (simp add: echo_inv_def guesses_ok_def timer_ok_def)

lemma echo_clear_inv: "echo_inv s \<Longrightarrow> echo_clear s = (r, t) \<Longrightarrow> echo_inv t"
  using echo_inv_withdraw [of s] by (auto simp: echo_clear_def echo_inv_def)

lemma echo_adopt_inv: "echo_inv s \<Longrightarrow> echo_adopt key s = (r, t) \<Longrightarrow> echo_inv t \<and> pe_mode t = pe_mode s"
  by (auto simp: echo_adopt_def echo_clear_def echo_inv_def guesses_ok_def timer_ok_def split: if_splits)

lemma lapse_barrier_cases: "lapse_barrier now s = s \<or> lapse_barrier now s = s\<lparr>pe_barrierUntil := None\<rparr>"
  by (simp add: lapse_barrier_def split: option.splits)

lemma lapse_barrier_frame [simp]:
  "echo_inv (lapse_barrier now s) = echo_inv s" "pe_mode (lapse_barrier now s) = pe_mode s" "pe_recent (lapse_barrier now s) = pe_recent s"
  "pe_confirmed (lapse_barrier now s) = pe_confirmed s" "pe_pending (lapse_barrier now s) = pe_pending s" "pe_key (lapse_barrier now s) = pe_key s"
  "pe_mispredicted (lapse_barrier now s) = pe_mispredicted s" "pe_expired (lapse_barrier now s) = pe_expired s"
  using lapse_barrier_cases [of now s] by auto

lemma echo_barrier_inv: "echo_inv s \<Longrightarrow> echo_barrier now s = (r, t) \<Longrightarrow> echo_inv t"
  using echo_inv_withdraw [of s] by (auto simp: echo_barrier_def echo_inv_def timer_ok_def guesses_ok_def split: if_splits)

lemma length_settled: "length rs \<le> 8 \<Longrightarrow> length (if length (rs @ [x]) > 8 then drop (length (rs @ [x]) - 8) (rs @ [x]) else rs @ [x]) \<le> 8"
  by auto

lemma rollBack_inv: "echo_inv s \<Longrightarrow> echo_inv (rollBack timed_out s)"
  using length_settled [of "pe_recent s" False]
  by (auto simp: rollBack_def echo_settle_def echo_inv_def guesses_ok_def timer_ok_def Let_def)

lemma predict_anchored: "predict_anchor view s = Some anchor \<Longrightarrow> anchored anchor 0 (pe_pending s)"
  by (auto simp: predict_anchor_def anchored_def Let_def split: if_splits option.splits)

lemma echo_predict_inv:
  assumes "echo_inv s" and "echo_predict env bytes view key now later s = (r, t)"
  shows "echo_inv t"
proof (cases "pe_mode s = Off")
  case True
  then show ?thesis using assms by (simp add: echo_predict_def)
next
  case False
  obtain changed s1 where a: "echo_adopt key s = (changed, s1)" by force
  then have s1: "echo_inv s1" using echo_adopt_inv [OF assms(1)] by blast
  let ?s2 = "lapse_barrier now s1"
  consider shown where "echo_barrier later s1 = (shown, t)" | "t = ?s2"
    | anchor added s3 where "list_all isPrintableAscii bytes" "predict_anchor view ?s2 = Some anchor"
        "predict_loop env view anchor now bytes 0 ?s2 = (added, s3)" "t = armTimer (if added < length bytes then s3\<lparr>pe_barrierUntil := Some now\<rparr> else s3)"
    using assms(2) False a by (auto simp: echo_predict_def Let_def split: if_splits option.splits prod.splits)
  then show ?thesis
  proof cases
    case 1
    then show ?thesis using echo_barrier_inv [OF s1] by blast
  next
    case 2
    then show ?thesis using s1 by simp
  next
    case 3
    have "guesses_ok ?s2" using s1 lapse_barrier_frame(1) [of now s1] by (simp add: echo_inv_def)
    from predict_loop_ok [OF this predict_anchored [OF 3(2)] 3(1,3)] 3(4) show ?thesis by (simp add: echo_inv_def)
  qed
qed

lemma confirm_all_frame:
  "pe_pending (confirm_all rnd now gs s) = pe_pending s \<and> pe_predicted (confirm_all rnd now gs s) = pe_predicted s \<and>
   pe_confirmed (confirm_all rnd now gs s) = pe_confirmed s + length gs \<and> pe_mode (confirm_all rnd now gs s) = pe_mode s \<and>
   pe_mispredicted (confirm_all rnd now gs s) = pe_mispredicted s \<and> pe_expired (confirm_all rnd now gs s) = pe_expired s \<and>
   (length (pe_recent s) \<le> 8 \<longrightarrow> length (pe_recent (confirm_all rnd now gs s)) \<le> 8)"
  by (induction gs arbitrary: s) (auto simp: echo_settle_def echo_sample_def Let_def)

lemma confirm_prefix_ok:
  assumes "guesses_ok s" and "n \<le> length (pe_pending s)"
  shows "guesses_ok (confirm_all rnd now (take n (pe_pending s)) (s\<lparr>pe_pending := drop n (pe_pending s)\<rparr>))"
  using assms confirm_all_frame [of rnd now "take n (pe_pending s)" "s\<lparr>pe_pending := drop n (pe_pending s)\<rparr>"]
  by (auto simp: guesses_ok_def guess_run_drop)

lemma scan_evidence_bound:
  "scan_evidence env view point index evidenced gs = Evidenced e \<Longrightarrow> e = evidenced \<or> index \<le> e \<and> e < index + int (length gs)"
  by (induction gs arbitrary: index evidenced) (fastforce split: option.splits if_splits)+

text \<open>What \<^verbatim>\<open>reconcile\<close> can do, in its three cases.\<close>

lemma echo_reconcile_cases:
  assumes "echo_reconcile rnd env view key now s = (r, t)" and "pe_mode s \<noteq> Off" and "echo_adopt key s = (changed, s1)"
  obtains "t = lapse_barrier now s1" | "t = rollBack False (lapse_barrier now s1)"
  | n where "n \<le> length (pe_pending s1)" "t = armTimer (confirm_all rnd now (take n (pe_pending s1)) ((lapse_barrier now s1)\<lparr>pe_pending := drop n (pe_pending s1)\<rparr>))"
proof -
  let ?s2 = "lapse_barrier now s1"
  have bound: "nat (e + 1) \<le> length (pe_pending s1)" if "scan_evidence env view (insertionPoint view) 0 (-1) (pe_pending s1) = Evidenced e" "\<not> e < 0" for e
    using scan_evidence_bound [OF that(1)] that(2) by auto
  show ?thesis using assms that bound
    by (auto simp: echo_reconcile_def Let_def split: if_splits evidence.splits)
qed

lemma echo_reconcile_inv:
  assumes "echo_inv s" and "echo_reconcile rnd env view key now s = (r, t)"
  shows "echo_inv t"
proof (cases "pe_mode s = Off")
  case True
  then show ?thesis using assms by (simp add: echo_reconcile_def)
next
  case False
  obtain changed s1 where a: "echo_adopt key s = (changed, s1)" by force
  then have s1: "echo_inv s1" using echo_adopt_inv [OF assms(1)] by blast
  then have s2: "echo_inv (lapse_barrier now s1)" by simp
  show ?thesis
  proof (cases rule: echo_reconcile_cases [OF assms(2) False a])
    case (3 n)
    have "guesses_ok (lapse_barrier now s1)" using s2 by (simp add: echo_inv_def)
    from confirm_prefix_ok [OF this, of n rnd now] 3 show ?thesis by (simp add: echo_inv_def)
  qed (use s2 rollBack_inv in auto)
qed

lemma timer_fires_inv: "echo_inv s \<Longrightarrow> timer_fires s = (r, t) \<Longrightarrow> echo_inv t"
proof -
  assume inv: "echo_inv s" and f: "timer_fires s = (r, t)"
  have "t = s \<or> t = rollBack True (s\<lparr>pe_timer := None\<rparr>)"
    using inv f by (auto simp: timer_fires_def echo_inv_def timer_ok_def Let_def split: option.splits if_splits list.splits)
  moreover have "echo_inv (rollBack True (s\<lparr>pe_timer := None\<rparr>))"
  proof -
    have "rollBack True (s\<lparr>pe_timer := None\<rparr>) = rollBack True s" by (simp add: rollBack_def)
    then show ?thesis using rollBack_inv [OF inv] by simp
  qed
  ultimately show ?thesis using inv by auto
qed

interpretation echo: invariant_system "\<lambda>s. \<exists>mode. s = echo_new mode" "echo_step rnd env" echo_inv for rnd env
proof
  show "\<exists>mode. s = echo_new mode \<Longrightarrow> echo_inv s" for s
    by (auto simp: echo_new_def echo_inv_def guesses_ok_def timer_ok_def)
  show "echo_inv s \<Longrightarrow> echo_step rnd env s t \<Longrightarrow> echo_inv t" for s t
    by (auto elim!: echo_step.cases intro: echo_predict_inv echo_reconcile_inv echo_barrier_inv echo_clear_inv timer_fires_inv)
qed


section \<open>Trust\<close>

text \<open>The confirmations since the last refuted or withdrawn trust.\<close>

definition trailing :: "bool list \<Rightarrow> nat" where
  "trailing bs = length (takeWhile id (rev bs))"

lemma trailing_simps [simp]: "trailing [] = 0" "trailing (bs @ [True]) = Suc (trailing bs)" "trailing (bs @ [False]) = 0"
  by (simp_all add: trailing_def)

lemma takeWhile_prefix_le: "length (takeWhile P xs) \<le> length (takeWhile P (xs @ ys))"
  by (induction xs) auto

lemma takeWhile_all_le: "list_all P xs \<Longrightarrow> length xs \<le> length (takeWhile P (xs @ ys))"
  by (induction xs) auto

lemma trailing_drop: "trailing (drop n bs) \<le> trailing bs"
  unfolding trailing_def using takeWhile_prefix_le [of id "rev (drop n bs)" "rev (take n bs)"]
  by (metis append_take_drop_id rev_append)

lemma trailing_all:
  assumes "n \<le> length bs" and "list_all id (last_n n bs)"
  shows "n \<le> trailing bs"
proof -
  have "list_all id (rev (last_n n bs))" using assms(2) by (simp add: list_all_iff)
  from takeWhile_all_le [OF this, of "rev (take (length bs - n) bs)"]
  have "length (last_n n bs) \<le> trailing bs"
    unfolding trailing_def last_n_def by (metis append_take_drop_id rev_append length_rev)
  then show ?thesis using assms(1) by (simp add: last_n_def)
qed

definition distrusted :: "nat \<Rightarrow> predictive_echo \<Rightarrow> bool" where
  "distrusted k s \<longleftrightarrow> k + trailing (pe_recent s) \<le> pe_confirmed s"

lemma distrusted_settle_False: "k \<le> pe_confirmed s \<Longrightarrow> distrusted k (rollBack timed_out s)"
proof -
  have "trailing (drop n (pe_recent s @ [False])) = 0" for n using trailing_drop [of n "pe_recent s @ [False]"] by simp
  then show "k \<le> pe_confirmed s \<Longrightarrow> distrusted k (rollBack timed_out s)"
    by (auto simp: distrusted_def rollBack_def echo_settle_def Let_def simp del: drop_append)
qed

lemma distrusted_confirm: "distrusted k s \<Longrightarrow> distrusted k (confirm_all rnd now gs s)"
proof (induction gs arbitrary: s)
  case (Cons g gs)
  let ?rs = "pe_recent s @ [True]"
  have "trailing (if length ?rs > 8 then drop (length ?rs - 8) ?rs else ?rs) \<le> Suc (trailing (pe_recent s))"
    using trailing_drop [of "length ?rs - 8" ?rs] by simp
  then have "distrusted k ((echo_settle True (echo_sample rnd (now - pr_sentAt g) s))\<lparr>pe_confirmed := pe_confirmed s + 1\<rparr>)"
    using Cons.prems by (simp add: distrusted_def echo_settle_def echo_sample_def Let_def del: drop_append split del: if_split)
  from Cons.IH [OF this] show ?case by (simp add: echo_settle_def echo_sample_def Let_def)
qed simp

lemma predict_loop_frame:
  "predict_loop env view anchor now bs added s = (n, t) \<Longrightarrow> pe_recent t = pe_recent s \<and> pe_confirmed t = pe_confirmed s \<and>
     pe_mispredicted t = pe_mispredicted s \<and> pe_expired t = pe_expired s \<and> pe_mode t = pe_mode s"
  by (induction env view anchor now bs added s rule: predict_loop.induct) (auto simp: Let_def split: if_splits option.splits)

lemma echo_adopt_frame: "echo_adopt key s = (r, t) \<Longrightarrow> pe_confirmed t = pe_confirmed s \<and> pe_mispredicted t = pe_mispredicted s \<and>
   pe_expired t = pe_expired s \<and> (pe_recent t = pe_recent s \<or> pe_recent t = [])"
  by (auto simp: echo_adopt_def echo_clear_def split: if_splits)

text \<open>Every step but a settlement keeps the record of outcomes, or forgets it.\<close>

definition trust_frame :: "predictive_echo \<Rightarrow> predictive_echo \<Rightarrow> bool" where
  "trust_frame s t \<longleftrightarrow> pe_confirmed t = pe_confirmed s \<and> pe_mispredicted t = pe_mispredicted s \<and> pe_expired t = pe_expired s \<and>
     (pe_recent t = pe_recent s \<or> pe_recent t = [])"

lemma distrusted_frame: "trust_frame s t \<Longrightarrow> distrusted k s \<Longrightarrow> distrusted k t"
  by (auto simp: trust_frame_def distrusted_def)

lemma echo_predict_frame: "echo_predict env bytes view key now later s = (r, t) \<Longrightarrow> trust_frame s t"
proof -
  obtain changed s1 where a: "echo_adopt key s = (changed, s1)" by force
  then have f: "trust_frame s s1" using echo_adopt_frame by (simp add: trust_frame_def)
  show "echo_predict env bytes view key now later s = (r, t) \<Longrightarrow> trust_frame s t"
    using a f by (auto simp: echo_predict_def echo_barrier_def armTimer_def trust_frame_def Let_def
        split: if_splits option.splits prod.splits dest: predict_loop_frame)
qed

text \<open>A step keeps the frame, rolls back, or confirms some guesses.\<close>

definition echo_outcome :: "(rat \<Rightarrow> rat) \<Rightarrow> predictive_echo \<Rightarrow> predictive_echo \<Rightarrow> bool" where
  "echo_outcome rnd s t \<longleftrightarrow> trust_frame s t \<or> (\<exists>u timed_out. trust_frame s u \<and> t = rollBack timed_out u) \<or>
     (\<exists>u now gs. trust_frame s u \<and> t = armTimer (confirm_all rnd now gs u))"

lemma echo_reconcile_outcome:
  assumes "echo_reconcile rnd env view key now s = (r, t)"
  shows "echo_outcome rnd s t"
proof (cases "pe_mode s = Off")
  case True
  then show ?thesis using assms by (auto simp: echo_reconcile_def echo_outcome_def trust_frame_def)
next
  case False
  obtain changed s1 where a: "echo_adopt key s = (changed, s1)" by force
  then have f: "trust_frame s (lapse_barrier now s1)" using echo_adopt_frame by (simp add: trust_frame_def)
  show ?thesis
  proof (cases rule: echo_reconcile_cases [OF assms False a])
    case (3 n)
    have "trust_frame s ((lapse_barrier now s1)\<lparr>pe_pending := drop n (pe_pending s1)\<rparr>)" using f by (simp add: trust_frame_def)
    then show ?thesis using 3(2) unfolding echo_outcome_def by blast
  qed (use f in \<open>auto simp: echo_outcome_def\<close>)
qed

lemma echo_step_outcome:
  assumes "echo_step rnd env s t"
  shows "echo_outcome rnd s t"
  using assms
proof cases
  case (predicted bytes view key now later r)
  then show ?thesis using echo_predict_frame by (auto simp: echo_outcome_def)
next
  case (reconciled view key now r)
  then show ?thesis by (rule echo_reconcile_outcome)
next
  case (barred now r)
  then show ?thesis by (auto simp: echo_barrier_def echo_outcome_def trust_frame_def split: if_splits)
next
  case (cleared r)
  then show ?thesis by (auto simp: echo_clear_def echo_outcome_def trust_frame_def)
next
  case (timed_out r)
  let ?u = "s\<lparr>pe_timer := None\<rparr>"
  have "t \<in> {s, ?u, rollBack True ?u}" using timed_out by (auto simp: timer_fires_def Let_def split: option.splits if_splits)
  moreover have "trust_frame s s" "trust_frame s ?u" by (simp_all add: trust_frame_def)
  ultimately show ?thesis unfolding echo_outcome_def by blast
qed

lemma distrusted_step:
  assumes "echo_step rnd env s t" and "distrusted k s"
  shows "distrusted k t"
proof -
  have "distrusted k (armTimer u) = distrusted k u" for u by (simp add: distrusted_def armTimer_def)
  moreover have "k \<le> pe_confirmed u" if "trust_frame s u" for u using that assms(2) by (simp add: trust_frame_def distrusted_def)
  ultimately show ?thesis
    using echo_step_outcome [OF assms(1)] assms(2) distrusted_frame distrusted_settle_False distrusted_confirm
    unfolding echo_outcome_def by metis
qed

interpretation distrust: invariant_system "distrusted k" "echo_step rnd env" "distrusted k" for k rnd env
  by unfold_locales (auto intro: distrusted_step)

lemma distrusted_hides: "distrusted k s \<Longrightarrow> pe_confirmed s < k + 3 \<Longrightarrow> echo_overlay env view key now s = None"
  using trailing_all [of 3 "pe_recent s"] by (auto simp: distrusted_def echo_overlay_def displayAllowed_def prediction_trust_confirmations_def)


section \<open>A session at work\<close>

text \<open>Three characters are typed and echoed, then a fourth is typed.\<close>

definition sample_env :: text_env where
  "sample_env = \<lparr>te_segment = map (\<lambda>c. [c]), te_mark = \<lambda>_. False, te_emoji = \<lambda>_. False\<rparr>"

definition sample_view :: "utext \<Rightarrow> int \<Rightarrow> viewport_snapshot" where
  "sample_view line x = (blank_snapshot ''t'' (sample_binding 1) 10 1)
     \<lparr>vs_cells := [line], vs_displayWidths := [int (length line)], vs_cursorX := x\<rparr>"

definition sample_typed :: predictive_echo where
  "sample_typed = snd (echo_predict sample_env [0x61, 0x62, 0x63] (sample_view [] 0) ''k'' 0 0 (echo_new On))"

definition sample_echoed :: predictive_echo where
  "sample_echoed = snd (echo_reconcile id sample_env (sample_view [97, 98, 99] 3) ''k'' 80 sample_typed)"

definition sample_guessing :: predictive_echo where
  "sample_guessing = snd (echo_predict sample_env [0x64] (sample_view [97, 98, 99] 3) ''k'' 90 90 sample_echoed)"

lemma sample_echo_steps: "(echo_step id sample_env)\<^sup>*\<^sup>* (echo_new On) sample_typed" "(echo_step id sample_env)\<^sup>*\<^sup>* (echo_new On) sample_guessing"
proof -
  have 1: "echo_step id sample_env (echo_new On) sample_typed"
    unfolding sample_typed_def by (rule echo_step.predicted [OF prod.collapse [symmetric]])
  have 2: "echo_step id sample_env sample_typed sample_echoed"
    unfolding sample_echoed_def by (rule echo_step.reconciled [OF prod.collapse [symmetric]])
  have 3: "echo_step id sample_env sample_echoed sample_guessing"
    unfolding sample_guessing_def by (rule echo_step.predicted [OF prod.collapse [symmetric]])
  show "(echo_step id sample_env)\<^sup>*\<^sup>* (echo_new On) sample_typed" using 1 by blast
  show "(echo_step id sample_env)\<^sup>*\<^sup>* (echo_new On) sample_guessing" using 1 2 3 by (meson rtranclp.rtrancl_into_rtrancl r_into_rtranclp)
qed

definition sample_state :: "prediction list \<Rightarrow> rat option \<Rightarrow> bool list \<Rightarrow> nat \<Rightarrow> predictive_echo" where
  "sample_state gs srtt recent n = armTimer \<lparr>pe_mode = On, pe_key = Some ''k'', pe_pending = gs, pe_srtt = srtt, pe_slowEcho = (srtt \<noteq> None),
     pe_recent = recent, pe_barrierUntil = None, pe_timer = None, pe_predicted = n, pe_confirmed = length recent, pe_mispredicted = 0, pe_expired = 0\<rparr>"

definition sample_guess :: "int \<Rightarrow> int \<Rightarrow> int \<Rightarrow> prediction" where
  "sample_guess column glyph sent = \<lparr>pr_row = 0, pr_column = column, pr_glyph = glyph, pr_kind = Cursor, pr_sentAt = sent\<rparr>"

lemma sample_cells:
  "cellAt sample_env (sample_view [] 0) 0 0 = Some \<lparr>sc_text = [], sc_inverse = False\<rparr>"
  "cellAt sample_env (sample_view [] 0) 0 1 = Some \<lparr>sc_text = [], sc_inverse = False\<rparr>"
  "cellAt sample_env (sample_view [] 0) 0 2 = Some \<lparr>sc_text = [], sc_inverse = False\<rparr>"
  "cellAt sample_env (sample_view [97, 98, 99] 3) 0 3 = Some \<lparr>sc_text = [], sc_inverse = False\<rparr>"
  "insertionPoint (sample_view [] 0) = Some \<lparr>ip_row = 0, ip_column = 0, ip_kind = Cursor\<rparr>"
  "insertionPoint (sample_view [97, 98, 99] 3) = Some \<lparr>ip_row = 0, ip_column = 3, ip_kind = Cursor\<rparr>"
  "\<not> asksForSecret (sample_view [] 0) \<lparr>ip_row = 0, ip_column = 0, ip_kind = Cursor\<rparr>"
  "\<not> asksForSecret (sample_view [97, 98, 99] 3) \<lparr>ip_row = 0, ip_column = 3, ip_kind = Cursor\<rparr>"
  "vs_columns (sample_view line x) = 10" "isBlank []"
  "list_all isPrintableAscii [0x61, 0x62, 0x63]" "isPrintableAscii 0x64"
  by code_simp+

lemmas sample_eval = sample_cells predict_anchor_def sample_state_def armTimer_def echo_adopt_def lapse_barrier_def echo_settle_def echo_sample_def
  sample_guess_def predictive_echo_enable_rtt_ms_def predictive_echo_disable_rtt_ms_def max_pending_predictions_def Let_def

lemma sample_typed_eq: "sample_typed = sample_state [sample_guess 0 97 0, sample_guess 1 98 0, sample_guess 2 99 0] None [] 3"
  unfolding sample_typed_def echo_predict_def using sample_cells(11)
  by (simp add: echo_new_def echo_clear_def sample_eval)

lemma sample_evidence:
  "scan_evidence sample_env (sample_view [97, 98, 99] 3) (insertionPoint (sample_view [97, 98, 99] 3)) 0 (-1)
     [sample_guess 0 97 0, sample_guess 1 98 0, sample_guess 2 99 0] = Evidenced 2"
  "list_all (guess_matches sample_env (sample_view [97, 98, 99] 3)) [sample_guess 0 97 0, sample_guess 1 98 0, sample_guess 2 99 0]"
  by code_simp+

lemma sample_echoed_eq: "sample_echoed = sample_state [] (Some 80) [True, True, True] 3"
  using sample_evidence unfolding sample_echoed_def sample_typed_eq
  by (simp add: echo_reconcile_def sample_eval)

lemma sample_guessing_eq: "sample_guessing = sample_state [sample_guess 3 100 90] (Some 80) [True, True, True] 4"
  unfolding sample_guessing_def sample_echoed_eq
  by (simp add: echo_predict_def sample_eval)

lemma sample_overlay: "echo_overlay sample_env (sample_view [97, 98, 99] 3) ''k'' 91 sample_guessing =
   Some \<lparr>po_row = 0, po_column = 3, po_text = [100], po_cursorColumn = 4, po_cursor = Cursor\<rparr>"
  unfolding sample_guessing_eq
  by (simp add: echo_overlay_def displayAllowed_def prediction_trust_confirmations_def last_n_def prediction_confirm_timeout_ms_def sample_eval)

lemma sample_refuted: "pe_pending sample_typed \<noteq> [] \<and> pe_mode sample_typed \<noteq> Off \<and> pe_key sample_typed = Some ''k'' \<and>
   cellAt sample_env (sample_view [120] 1) (pr_row (pe_pending sample_typed ! 0)) (pr_column (pe_pending sample_typed ! 0)) =
     Some \<lparr>sc_text = [120], sc_inverse = False\<rparr> \<and> pr_glyph (pe_pending sample_typed ! 0) = 97"
  by code_simp


section \<open>Properties\<close>

lemma scan_evidence_mismatch:
  assumes "i < length gs" and "\<forall>j \<le> i. cellAt env view (pr_row (gs ! j)) (pr_column (gs ! j)) \<noteq> None"
    and "cellAt env view (pr_row (gs ! i)) (pr_column (gs ! i)) = Some cell" and "\<not> isBlank (sc_text cell)" and "sc_text cell \<noteq> [pr_glyph (gs ! i)]"
  shows "scan_evidence env view point index evidenced gs = Mismatch"
  using assms
proof (induction gs arbitrary: i index evidenced)
  case (Cons g gs)
  show ?case
  proof (cases i)
    case 0
    then show ?thesis using Cons.prems by auto
  next
    case (Suc j)
    have "cellAt env view (pr_row g) (pr_column g) \<noteq> None" using Cons.prems(2) Suc by (auto dest: spec [of _ 0])
    moreover have "\<forall>l \<le> j. cellAt env view (pr_row (gs ! l)) (pr_column (gs ! l)) \<noteq> None" using Cons.prems(2) Suc by (auto dest: spec [of _ "Suc l" for l])
    ultimately show ?thesis using Cons.IH [of j] Cons.prems Suc by auto
  qed
qed simp

text \<open>
  What is painted. Whatever was typed and echoed before, guesses are painted over the remote
  screen only while the feature is on and the three guesses settled last were all right, and in
  the automatic mode only if the echo is slow; the painted text is one to 64 printable characters
  that start exactly at the screen's insertion point, fill blank cells of that row inside the
  screen and no others, and the row does not ask for a secret.
\<close>

theorem overlay_safe:
  assumes "(echo_step rnd env)\<^sup>*\<^sup>* (echo_new mode) s" and "echo_overlay env view key now s = Some ov"
  shows "pe_mode s \<noteq> Off \<and> (pe_mode s = Auto \<longrightarrow> pe_slowEcho s) \<and> 3 \<le> length (pe_recent s) \<and> list_all id (last_n 3 (pe_recent s)) \<and>
     insertionPoint view = Some \<lparr>ip_row = po_row ov, ip_column = po_column ov, ip_kind = po_cursor ov\<rparr> \<and>
     \<not> asksForSecret view \<lparr>ip_row = po_row ov, ip_column = po_column ov, ip_kind = po_cursor ov\<rparr> \<and>
     1 \<le> length (po_text ov) \<and> length (po_text ov) \<le> 64 \<and> list_all (\<lambda>c. 0x20 \<le> c \<and> c \<le> 0x7e) (po_text ov) \<and>
     po_cursorColumn ov = po_column ov + int (length (po_text ov)) \<and> po_cursorColumn ov \<le> vs_columns view \<and>
     (\<forall>i < length (po_text ov). \<exists>cell. cellAt env view (po_row ov) (po_column ov + int i) = Some cell \<and> isBlank (sc_text cell))"
proof -
  have "echo_inv s" using echo.reachable_inv assms(1) by blast
  then have run: "guess_run (pe_pending s)" "length (pe_pending s) \<le> 64"
    by (simp_all add: echo_inv_def guesses_ok_def max_pending_predictions_def)
  obtain first rest where p: "pe_pending s = first # rest"
    using assms(2) by (cases "pe_pending s") (auto simp: echo_overlay_def split: if_splits)
  define gs where "gs = pe_pending s"
  obtain point where point: "insertionPoint view = Some point" "\<not> asksForSecret view point"
    "ip_row point = pr_row first" "ip_column point = pr_column first" "ip_kind point = pr_kind first"
    and shown: "pe_mode s \<noteq> Off" "displayAllowed s"
      "\<not> list_ex (\<lambda>g. case cellAt env view (pr_row g) (pr_column g) of None \<Rightarrow> True | Some cell \<Rightarrow> \<not> isBlank (sc_text cell)) gs"
    and ov: "ov = \<lparr>po_row = pr_row first, po_column = pr_column first, po_text = map pr_glyph gs,
                po_cursorColumn = pr_column (last gs) + 1, po_cursor = pr_kind first\<rparr>"
    using assms(2) p unfolding gs_def by (auto simp: echo_overlay_def split: if_splits option.splits)
  have first: "gs ! 0 = first" "gs \<noteq> []" using p by (simp_all add: gs_def)
  have at: "in_run first (gs ! i) i" if "i < length gs" for i using run(1) that first unfolding gs_def guess_run_alt by simp
  have cells: "\<exists>cell. cellAt env view (pr_row first) (pr_column first + int i) = Some cell \<and> isBlank (sc_text cell)" if "i < length gs" for i
    using shown(3) at [OF that] that by (fastforce simp: list_ex_length in_run_def split: option.splits)
  have last: "pr_column (last gs) + 1 = pr_column first + int (length gs)"
    using at [of "length gs - 1"] first(2) by (simp add: last_conv_nth in_run_def of_nat_diff Suc_leI)
  have "pr_column first + int (length gs) \<le> vs_columns view"
    using cells [of "length gs - 1"] first(2) by (auto simp: cellAt_def of_nat_diff Suc_leI split: if_splits)
  moreover have "point = \<lparr>ip_row = pr_row first, ip_column = pr_column first, ip_kind = pr_kind first\<rparr>" using point by (cases point) simp
  moreover have "list_all (\<lambda>c. 0x20 \<le> c \<and> c \<le> 0x7e) (map pr_glyph gs)" using at by (auto simp: list_all_length in_run_def)
  ultimately show ?thesis using point(1,2) shown(1,2) cells last first(2) run(2)
    by (auto simp: ov displayAllowed_def prediction_trust_confirmations_def gs_def Suc_leI)
qed

theorem overlay_safe_witness:
  "\<exists>cell. cellAt sample_env (sample_view [97, 98, 99] 3) 0 3 = Some cell \<and> isBlank (sc_text cell) \<and> 3 \<le> length (pe_recent sample_guessing) \<and>
     list_all id (last_n 3 (pe_recent sample_guessing))"
  using overlay_safe [OF sample_echo_steps(2) sample_overlay] by auto

text \<open>
  A refuted guess silences the feature. When the screen shows something else than the guess
  in a cell, before any cell that cannot be told, all guesses are withdrawn at once and the
  refutation is counted; from then on nothing is painted, on any screen and for any attachment,
  until three further guesses were confirmed.
\<close>

theorem refuted_guess_silences:
  assumes "pe_mode s \<noteq> Off" and "pe_key s = Some key" and "i < length (pe_pending s)"
    and "\<forall>j \<le> i. cellAt env view (pr_row (pe_pending s ! j)) (pr_column (pe_pending s ! j)) \<noteq> None"
    and "cellAt env view (pr_row (pe_pending s ! i)) (pr_column (pe_pending s ! i)) = Some cell"
    and "\<not> isBlank (sc_text cell)" and "sc_text cell \<noteq> [pr_glyph (pe_pending s ! i)]"
    and "echo_reconcile rnd env view key now s = (changed, t)" and "(echo_step rnd env)\<^sup>*\<^sup>* t u" and "pe_confirmed u < pe_confirmed t + 3"
  shows "pe_pending t = [] \<and> pe_mispredicted t = pe_mispredicted s + 1 \<and> echo_overlay env view' key' now' u = None"
proof -
  let ?s = "lapse_barrier now s"
  have "pe_pending s \<noteq> []" using assms(3) by auto
  then have t: "t = rollBack False ?s"
    using assms(1,2,8) scan_evidence_mismatch [OF assms(3-7), of "insertionPoint view" 0 "-1"] by (simp add: echo_reconcile_def echo_adopt_def Let_def)
  then have c: "pe_confirmed t = pe_confirmed ?s" by (simp add: rollBack_def echo_settle_def Let_def)
  then have "distrusted (pe_confirmed t) t" using t distrusted_settle_False [of "pe_confirmed t" ?s False] by simp
  then have "distrusted (pe_confirmed t) u" by (rule distrust.steps_inv [OF assms(9)])
  then show ?thesis using distrusted_hides [OF _ assms(10)] t by (simp add: rollBack_def echo_settle_def Let_def)
qed

theorem refuted_guess_silences_witness:
  "\<exists>changed t. echo_reconcile id sample_env (sample_view [120] 1) ''k'' 80 sample_typed = (changed, t) \<and> pe_pending t = [] \<and>
     echo_overlay sample_env (sample_view [] 0) ''k'' 90 t = None"
proof -
  obtain changed t where r: "echo_reconcile id sample_env (sample_view [120] 1) ''k'' 80 sample_typed = (changed, t)" by force
  have "\<forall>j \<le> 0. cellAt sample_env (sample_view [120] 1) (pr_row (pe_pending sample_typed ! j)) (pr_column (pe_pending sample_typed ! j)) \<noteq> None"
    using sample_refuted by simp
  moreover have "0 < length (pe_pending sample_typed)" using sample_refuted by simp
  ultimately have "pe_pending t = [] \<and> pe_mispredicted t = pe_mispredicted sample_typed + 1 \<and> echo_overlay sample_env (sample_view [] 0) ''k'' 90 t = None"
    using sample_refuted
    by (intro refuted_guess_silences [where i = 0 and view = "sample_view [120] 1", OF _ _ _ _ _ _ _ r rtranclp.rtrancl_refl]) (auto simp: isBlank_def)
  then show ?thesis using r by blast
qed

end
