(* ===== verification/Namespace.thy ===== *)
theory Namespace
  imports Prelude
begin

text \<open>
  The accepted names of credentials, environment variables and origins,
  \<^verbatim>\<open>src/core/namespace.ts\<close> with \<^verbatim>\<open>src/core/deployed-wire-compatibility.ts\<close>. The regular
  expressions of the source are concatenations of fixed alternatives and one bounded run of
  token characters, so a match is a list of possible openings followed by a check of the run.
\<close>

definition compat_credential_brand :: string where "compat_credential_brand = ''runa''"
definition compat_api_origin :: string where "compat_api_origin = ''https://api.runacode.io''"
definition compat_api_key_environment :: string where "compat_api_key_environment = ''RUNA_API_KEY''"

definition credential_brands :: "string list" where
  "credential_brands = [''cuna'', compat_credential_brand]"

definition brandedEnvironmentNames :: "string \<Rightarrow> string list" where
  "brandedEnvironmentNames suffix =
     (if suffix = ''API_KEY'' then [''CUNA_API_KEY'', compat_api_key_environment] else [''CUNA_'' @ suffix])"

record branded_environment_value =
  be_name :: string
  be_value :: string

fun first_set :: "(string \<Rightarrow> string option) \<Rightarrow> string list \<Rightarrow> branded_environment_value option" where
  "first_set environment [] = None"
| "first_set environment (name # names) =
     (case environment name of None \<Rightarrow> first_set environment names | Some v \<Rightarrow> Some \<lparr>be_name = name, be_value = v\<rparr>)"

definition readBrandedEnvironment :: "(string \<Rightarrow> string option) \<Rightarrow> string \<Rightarrow> branded_environment_value option" where
  "readBrandedEnvironment environment suffix = first_set environment (brandedEnvironmentNames suffix)"

definition credential_family_infixes :: "string list" where
  "credential_family_infixes = [''sk'', ''at'', ''rt'', ''ct'', ''tc'', ''se'', ''sc'', ''cb'', ''cr'', ''login'']"

definition api_origins :: "string list" where
  "api_origins = [''https://api.getcuna.com'', compat_api_origin]"

text \<open>The host of the two origins is what follows \<^verbatim>\<open>https://\<close>.\<close>

definition api_websocket_origins :: "string list" where
  "api_websocket_origins = map (\<lambda>origin. ''wss://'' @ drop 8 origin) api_origins"

definition alnum :: "char \<Rightarrow> bool" where
  "alnum c \<longleftrightarrow> (let n = of_char c :: nat in 48 \<le> n \<and> n \<le> 57 \<or> 65 \<le> n \<and> n \<le> 90 \<or> 97 \<le> n \<and> n \<le> 122)"

definition token_char :: "char \<Rightarrow> bool" where
  "token_char c \<longleftrightarrow> alnum c \<or> c = CHR ''_'' \<or> c = CHR ''-''"

text \<open>\<open>CREDENTIAL_GRAMMAR\<close>: the infix of a family and the bounds of its suffix of token characters.\<close>

datatype credential_family =
  SecretKey | AccessToken | LoginCode | TerminalConnect | BrowserCallbackNonce | BrowserResumeHandle | SupervisorControl

fun credential_grammar :: "credential_family \<Rightarrow> string \<times> nat \<times> nat" where
  "credential_grammar SecretKey = (''sk'', 16, 256)"
| "credential_grammar AccessToken = (''at'', 43, 43)"
| "credential_grammar LoginCode = (''login'', 43, 43)"
| "credential_grammar TerminalConnect = (''tc'', 43, 43)"
| "credential_grammar BrowserCallbackNonce = (''cb'', 43, 43)"
| "credential_grammar BrowserResumeHandle = (''cr'', 43, 43)"
| "credential_grammar SupervisorControl = (''sc'', 43, 43)"

definition all_families :: "credential_family list" where
  "all_families = [SecretKey, AccessToken, LoginCode, TerminalConnect, BrowserCallbackNonce, BrowserResumeHandle, SupervisorControl]"

definition families_without_grammar :: "string list" where
  "families_without_grammar = [''rt'', ''ct'', ''se'']"

text \<open>\<open>after p s\<close> is what follows the prefix \<open>p\<close> of \<open>s\<close>.\<close>

definition after :: "string \<Rightarrow> string \<Rightarrow> string option" where
  "after p s = (if take (length p) s = p then Some (drop (length p) s) else None)"

definition opening_of :: "string \<Rightarrow> string \<Rightarrow> string" where
  "opening_of brand infx = brand @ ''_'' @ infx"

definition credential_openings :: "string list" where
  "credential_openings = concat (map (\<lambda>b. map (opening_of b) credential_family_infixes) credential_brands)"

definition credentialPattern :: "credential_family list \<Rightarrow> string \<Rightarrow> bool" where
  "credentialPattern families v = list_ex (\<lambda>b. list_ex (\<lambda>f. case credential_grammar f of (infx, lo, hi) \<Rightarrow>
     (case after (opening_of b infx @ ''_'') v of None \<Rightarrow> False
      | Some suffix \<Rightarrow> lo \<le> length suffix \<and> length suffix \<le> hi \<and> list_all token_char suffix)) families) credential_brands"

definition isSecretApiKey :: "string \<Rightarrow> bool" where
  "isSecretApiKey v = credentialPattern [SecretKey] v"

definition isApiKeyDisplayPrefix :: "string \<Rightarrow> bool" where
  "isApiKeyDisplayPrefix v = list_ex (\<lambda>b. case after (opening_of b ''sk'' @ ''_'') v of None \<Rightarrow> False
     | Some suffix \<Rightarrow> length suffix \<le> 12 \<and> list_all token_char suffix) credential_brands"

definition isTransportCredential :: "string \<Rightarrow> bool" where
  "isTransportCredential v = credentialPattern [SecretKey, AccessToken] v"

definition isAccessToken :: "string \<Rightarrow> bool" where
  "isAccessToken v = credentialPattern [AccessToken] v"

definition isLoginCode :: "string \<Rightarrow> bool" where
  "isLoginCode v \<longleftrightarrow> credentialPattern [LoginCode] v \<and> after ''cuna_login_'' v \<noteq> None"

text \<open>\<^verbatim>\<open>toUpperCase\<close> is a table of the Unicode standard and an argument.\<close>

definition isReservedSecretName :: "(string \<Rightarrow> string) \<Rightarrow> string \<Rightarrow> bool" where
  "isReservedSecretName upper v \<longleftrightarrow>
     list_ex (\<lambda>b. after (upper b @ ''_'') (upper v) \<noteq> None) credential_brands \<or> after ''RUNTA_'' (upper v) \<noteq> None"

definition isTerminalConnectToken :: "string \<Rightarrow> bool" where
  "isTerminalConnectToken v = credentialPattern [TerminalConnect] v"

definition isBrowserCallbackNonce :: "string \<Rightarrow> bool" where
  "isBrowserCallbackNonce v \<longleftrightarrow> credentialPattern [BrowserCallbackNonce] v \<and> after ''cuna_cb_'' v \<noteq> None"

definition credentialFamilyValidator :: "string \<Rightarrow> (string \<Rightarrow> bool) option" where
  "credentialFamilyValidator infx =
     map_option (\<lambda>f. credentialPattern [f]) (find (\<lambda>f. fst (credential_grammar f) = infx) all_families)"

text \<open>
  \<open>opening_run n s\<close>: one of the openings stands at the front of \<open>s\<close> and is followed by an
  underscore and at least \<open>n\<close> token characters.
\<close>

definition opening_run :: "string list \<Rightarrow> nat \<Rightarrow> string \<Rightarrow> bool" where
  "opening_run openings n s = list_ex (\<lambda>p. case after (p @ ''_'') s of None \<Rightarrow> False
     | Some rest \<Rightarrow> n \<le> length (takeWhile token_char rest)) openings"

fun somewhere :: "('a list \<Rightarrow> bool) \<Rightarrow> 'a list \<Rightarrow> bool" where
  "somewhere P [] = P []"
| "somewhere P (x # xs) = (P (x # xs) \<or> somewhere P xs)"

definition containsCredentialValue :: "string \<Rightarrow> bool" where
  "containsCredentialValue v = somewhere (opening_run credential_openings 8) v"

definition problem_code :: "string \<Rightarrow> bool" where
  "problem_code s \<longleftrightarrow> (case s of [] \<Rightarrow> False | c # cs \<Rightarrow>
     (let n = of_char c :: nat in 97 \<le> n \<and> n \<le> 122) \<and> 2 \<le> length cs \<and> length cs \<le> 63 \<and>
     list_all (\<lambda>d. let n = of_char d :: nat in 97 \<le> n \<and> n \<le> 122 \<or> 48 \<le> n \<and> n \<le> 57 \<or> d = CHR ''_'') cs)"

definition isProblemType :: "string \<Rightarrow> bool" where
  "isProblemType v = list_ex (\<lambda>origin. case after (origin @ ''/problems/'') v of None \<Rightarrow> False
     | Some code \<Rightarrow> problem_code code) api_origins"

definition isProblemTypeForCode :: "string \<Rightarrow> string \<Rightarrow> bool" where
  "isProblemTypeForCode v code = list_ex (\<lambda>origin. v = origin @ ''/problems/'' @ code) api_origins"

definition isTerminalStreamUrl :: "string \<Rightarrow> string \<Rightarrow> bool" where
  "isTerminalStreamUrl v sessionId =
     list_ex (\<lambda>origin. v = origin @ ''/v1/terminal-connections/'' @ sessionId @ ''/stream'') api_websocket_origins"

section \<open>Lemmas\<close>

lemma after_Some: "after p s = Some t \<longleftrightarrow> s = p @ t"
  by (auto simp: after_def) (metis append_take_drop_id)

lemma after_append [simp]: "after p (p @ t) = Some t"
  by (simp add: after_Some)

lemma somewhere_append: "P (s @ t) \<Longrightarrow> somewhere P (r @ s @ t)"
  by (induction r) (cases "s @ t"; auto)+

lemma somewhere_iff: "somewhere P s \<longleftrightarrow> (\<exists>r t. s = r @ t \<and> P t)"
proof (induction s)
  case (Cons x xs)
  have "(\<exists>r t. x # xs = r @ t \<and> P t) \<longleftrightarrow> P (x # xs) \<or> (\<exists>r t. xs = r @ t \<and> P t)"
    by (metis append_Cons append_Nil append_eq_Cons_conv)
  with Cons show ?case by simp
qed simp

lemma takeWhile_run: "list_all P s \<Longrightarrow> length s \<le> length (takeWhile P (s @ t))"
  by (induction s) auto

lemma opening_runI:
  assumes "p \<in> set openings" and "list_all token_char suffix" and "n \<le> length suffix"
  shows "opening_run openings n (p @ ''_'' @ suffix @ t)"
proof -
  have "after (p @ ''_'') (p @ ''_'' @ suffix @ t) = Some (suffix @ t)" by (simp only: after_Some append_assoc)
  with takeWhile_run [OF assms(2), of t] assms(1,3) show ?thesis
    unfolding opening_run_def list_ex_iff by (intro bexI [of _ p]) simp_all
qed

lemma family_infix_listed: "fst (credential_grammar f) \<in> set credential_family_infixes"
  by (cases f) (simp_all add: credential_family_infixes_def)

lemma credentialPatternE:
  assumes "credentialPattern families v"
  obtains b f infx lo hi suffix where "b \<in> set credential_brands" "f \<in> set families"
    "credential_grammar f = (infx, lo, hi)" "v = opening_of b infx @ ''_'' @ suffix"
    "lo \<le> length suffix" "length suffix \<le> hi" "list_all token_char suffix"
proof -
  obtain b f where bf: "b \<in> set credential_brands" "f \<in> set families" and
    m: "case credential_grammar f of (infx, lo, hi) \<Rightarrow> (case after (opening_of b infx @ ''_'') v of None \<Rightarrow> False
      | Some suffix \<Rightarrow> lo \<le> length suffix \<and> length suffix \<le> hi \<and> list_all token_char suffix)"
    using assms unfolding credentialPattern_def list_ex_iff by (elim bexE)
  obtain infx lo hi where g: "credential_grammar f = (infx, lo, hi)" by (rule prod_cases3)
  with m obtain suffix where "after (opening_of b infx @ ''_'') v = Some suffix"
    "lo \<le> length suffix" "length suffix \<le> hi" "list_all token_char suffix" by (auto split: option.splits)
  then show ?thesis by (intro that [OF bf g]) (simp_all only: after_Some append_assoc)
qed

lemma opening_listed:
  "b \<in> set credential_brands \<Longrightarrow> opening_of b (fst (credential_grammar f)) \<in> set credential_openings"
  using family_infix_listed by (auto simp: credential_openings_def)

text \<open>
  The denylist never falls behind the validators: a value that any of the validated
  credential families accepts is recognized by \<^verbatim>\<open>containsCredentialValue\<close> wherever it stands
  in a text.
\<close>

theorem accepted_credential_recognized:
  assumes "credentialPattern families v"
  shows "containsCredentialValue (before @ v @ behind)"
proof -
  obtain b f infx lo hi suffix where v: "b \<in> set credential_brands"
    "credential_grammar f = (infx, lo, hi)" "v = opening_of b infx @ ''_'' @ suffix" "lo \<le> length suffix" "list_all token_char suffix"
    using assms by (rule credentialPatternE)
  have "8 \<le> lo" using v(2) by (cases f) auto
  then have "opening_run credential_openings 8 (v @ behind)"
    using opening_runI [OF opening_listed [OF v(1), of f] v(5), of 8 behind] v(2,3,4) by simp
  then show ?thesis
    unfolding containsCredentialValue_def by (rule somewhere_append)
qed

theorem accepted_credential_recognized_witness:
  "containsCredentialValue (''key='' @ ''runa_sk_0123456789abcdef'' @ '' end'')"
  by (rule accepted_credential_recognized [of "[SecretKey]"]) code_simp

end
