(* ===== verification/Exclusion.thy ===== *)
theory Exclusion
  imports Workspace_Paths Namespace Json Wire
begin

text \<open>
  What synchronization leaves out, \<^verbatim>\<open>src/workspace/exclusion.ts\<close>: the entries that are always
  excluded, the rules in gitignore syntax and the detector of secrets in file contents. A
  pattern is compiled to items of a regular expression and matched by backtracking in the
  order of priorities of the JavaScript engine, since the source asks which of two
  alternatives ended the match. \<open>nfc\<close> and \<open>lower\<close> are as in \<open>Workspace_Paths\<close>, \<open>sha\<close> is the
  hexadecimal SHA-256 and \<open>decode\<close> is \<^verbatim>\<open>Buffer.toString("utf8")\<close>.
\<close>

datatype exclusion_reason =
  Immutable_credentials | Immutable_metadata | Immutable_dependency_tree | Immutable_special_file | User_rule

record exclusion_decision =
  xd_excluded :: bool
  xd_immutable :: bool
  xd_reason :: "exclusion_reason option"
  xd_ruleIndex :: "nat option"

datatype rule_source = Gitignore | Cunaignore | Cli

datatype entry_kind = File_entry | Directory_entry | Symlink_entry | Special_entry

fun source_name :: "rule_source \<Rightarrow> string" where
  "source_name Gitignore = ''gitignore''"
| "source_name Cunaignore = ''cunaignore''"
| "source_name Cli = ''cli''"

definition policySyntaxFailure :: "string \<Rightarrow> cuna_error" where
  "policySyntaxFailure reason = workspaceError ''policy_invalid'' Policy reason"

section \<open>Patterns\<close>

type_synonym pattern_token = "char \<times> bool"

fun tokenizePattern :: "string \<Rightarrow> pattern_token list" where
  "tokenizePattern [] = []"
| "tokenizePattern [c] = [(c, c = CHR 0x5C)]"
| "tokenizePattern (c # d # cs) =
     (if c = CHR 0x5C then (d, True) # tokenizePattern cs else (c, False) # tokenizePattern (d # cs))"

definition isSyntacticSeparator :: "pattern_token \<Rightarrow> bool" where
  "isSyntacticSeparator t \<longleftrightarrow> t = (CHR ''/'', False)"

definition isSyntacticStar :: "pattern_token \<Rightarrow> bool" where
  "isSyntacticStar t \<longleftrightarrow> t = (CHR ''*'', False)"

text \<open>
  The pieces of the expression: a character, \<^verbatim>\<open>[^/]\<close>, \<^verbatim>\<open>[^/]*\<close>, \<^verbatim>\<open>.*\<close> and \<^verbatim>\<open>(?:.*/)?\<close>.
\<close>

datatype glob_item = G_char char | G_one | G_segment | G_rest | G_directories

fun compile_body :: "bool \<Rightarrow> pattern_token list \<Rightarrow> glob_item list" where
  "compile_body boundary [] = []"
| "compile_body boundary (t # ts) =
     (if isSyntacticStar t then
        (case ts of
           u # vs \<Rightarrow>
             if boundary \<and> isSyntacticStar u \<and> (case vs of [] \<Rightarrow> True | v # _ \<Rightarrow> isSyntacticSeparator v)
             then (case vs of [] \<Rightarrow> [G_rest] | v # ws \<Rightarrow> G_directories # compile_body True ws)
             else G_segment # compile_body False ts
         | [] \<Rightarrow> [G_segment])
      else if t = (CHR ''?'', False) then G_one # compile_body False ts
      else G_char (fst t) # compile_body (isSyntacticSeparator t) ts)"

record compiled_glob =
  cg_anchored :: bool
  cg_body :: "glob_item list"
  cg_directoryOnly :: bool

definition compileGlob :: "string \<Rightarrow> compiled_glob" where
  "compileGlob pat =
     (let tokens = tokenizePattern pat;
          directoryOnly = (tokens \<noteq> [] \<and> isSyntacticSeparator (last tokens));
          tokens = (if directoryOnly then butlast tokens else tokens);
          anchored = list_ex isSyntacticSeparator tokens;
          tokens = (case tokens of [] \<Rightarrow> [] | t # ts \<Rightarrow> if isSyntacticSeparator t then ts else tokens)
      in \<lparr>cg_anchored = anchored, cg_body = compile_body True tokens, cg_directoryOnly = directoryOnly\<rparr>)"

section \<open>Matching\<close>

definition dot_char :: "char \<Rightarrow> bool" where
  "dot_char c \<longleftrightarrow> c \<noteq> CHR 0x0A \<and> c \<noteq> CHR 0x0D"

definition or_else :: "'a option \<Rightarrow> 'a option \<Rightarrow> 'a option" where
  "or_else a b = (case a of None \<Rightarrow> b | Some x \<Rightarrow> Some x)"

text \<open>
  \<open>glob_match items s\<close> matches the items and then \<^verbatim>\<open>(?:(?<end>$)|/)\<close> at the front of \<open>s\<close>: \<open>None\<close>
  when there is no match, else whether the first match in the order of the engine ends with
  the path. \<open>glob_dirs\<close> matches \<^verbatim>\<open>.*/\<close> first, as long as possible.
\<close>

function glob_match :: "glob_item list \<Rightarrow> string \<Rightarrow> bool option"
  and glob_dirs :: "glob_item list \<Rightarrow> string \<Rightarrow> bool option" where
  "glob_match [] s = (case s of [] \<Rightarrow> Some True | d # _ \<Rightarrow> if d = CHR ''/'' then Some False else None)"
| "glob_match (G_char c # r) s = (case s of [] \<Rightarrow> None | d # s' \<Rightarrow> if d = c then glob_match r s' else None)"
| "glob_match (G_one # r) s = (case s of [] \<Rightarrow> None | d # s' \<Rightarrow> if d \<noteq> CHR ''/'' then glob_match r s' else None)"
| "glob_match (G_segment # r) s = (case s of [] \<Rightarrow> glob_match r s
     | d # s' \<Rightarrow> if d \<noteq> CHR ''/'' then or_else (glob_match (G_segment # r) s') (glob_match r s) else glob_match r s)"
| "glob_match (G_rest # r) s = (case s of [] \<Rightarrow> glob_match r s
     | d # s' \<Rightarrow> if dot_char d then or_else (glob_match (G_rest # r) s') (glob_match r s) else glob_match r s)"
| "glob_match (G_directories # r) s = or_else (glob_dirs r s) (glob_match r s)"
| "glob_dirs r s = (case s of [] \<Rightarrow> None
     | d # s' \<Rightarrow> or_else (if dot_char d then glob_dirs r s' else None)
                         (if d = CHR ''/'' then glob_match r s' else None))"
  by pat_completeness auto
termination
  by (relation "measures [\<lambda>x. case x of Inl (r, s) \<Rightarrow> length r | Inr (r, s) \<Rightarrow> length r,
        \<lambda>x. case x of Inl (r, s) \<Rightarrow> 2 * length s | Inr (r, s) \<Rightarrow> 2 * length s + 1]") auto

declare glob_match.simps [simp del] glob_dirs.simps [simp del]

text \<open>\<open>exec\<close> of the expression: with the prefix \<^verbatim>\<open>^\<close>, or with \<^verbatim>\<open>(?:^|.*/)\<close> from the leftmost start on.\<close>

fun glob_search :: "glob_item list \<Rightarrow> string \<Rightarrow> bool option" where
  "glob_search body [] = glob_dirs body []"
| "glob_search body (c # s) = or_else (glob_dirs body (c # s)) (glob_search body s)"

definition glob_exec :: "compiled_glob \<Rightarrow> string \<Rightarrow> bool option" where
  "glob_exec g s = (if cg_anchored g then glob_match (cg_body g) s
     else or_else (glob_match (cg_body g) s) (glob_search (cg_body g) s))"

section \<open>Policies\<close>

record compiled_rule =
  cr_excluded :: bool
  cr_pattern :: string
  cr_glob :: compiled_glob
  cr_source :: rule_source
  cr_line :: nat

text \<open>\<^verbatim>\<open>text.split(/\r?\n/u)\<close>.\<close>

definition strip_cr :: "string \<Rightarrow> string" where
  "strip_cr l = (if l \<noteq> [] \<and> last l = CHR 0x0D then butlast l else l)"

definition split_lines :: "string \<Rightarrow> string list" where
  "split_lines s = (let ls = split_on CHR 0x0A s in map strip_cr (butlast ls) @ [last ls])"

fun compile_lines :: "rule_source \<Rightarrow> string list \<Rightarrow> nat \<Rightarrow> compiled_rule list \<Rightarrow> cuna_error + nat \<times> compiled_rule list" where
  "compile_lines src [] index rules = Inr (index, rules)"
| "compile_lines src (rawLine # ls) index rules =
     (let index = index + 1 in
      if int (length rules) \<ge> 10000 then Inl (policySyntaxFailure ''rule_limit'')
      else if rawLine = [] \<or> hd rawLine = CHR ''#'' then compile_lines src ls index rules
      else if CHR 0x00 \<in> set rawLine \<or> int (utf8_length rawLine) > 1024 then Inl (policySyntaxFailure ''invalid_rule'')
      else let excluded = (hd rawLine \<noteq> CHR ''!''); pat = (if excluded then rawLine else tl rawLine) in
        if pat = [] then Inl (policySyntaxFailure ''invalid_rule'')
        else compile_lines src ls index (rules @
          [\<lparr>cr_excluded = excluded, cr_pattern = pat, cr_glob = compileGlob pat, cr_source = src, cr_line = index\<rparr>]))"

fun compile_sources :: "(rule_source \<times> string) list \<Rightarrow> nat \<Rightarrow> compiled_rule list \<Rightarrow> cuna_error + compiled_rule list" where
  "compile_sources [] index rules = Inr rules"
| "compile_sources ((src, content) # rest) index rules =
     (if int (utf8_length content) > 1048576 then Inl (policySyntaxFailure ''file_too_large'')
      else case compile_lines src (split_lines content) index rules of
        Inl e \<Rightarrow> Inl e
      | Inr (index, rules) \<Rightarrow> compile_sources rest index rules)"

record exclusion_policy =
  ep_digest :: string
  ep_rules :: "compiled_rule list"
  ep_capabilities :: filesystem_capabilities

definition rule_json :: "(string \<Rightarrow> string) \<Rightarrow> compiled_rule \<Rightarrow> json" where
  "rule_json nfc r = JObj [(''excluded'', JBool (cr_excluded r)), (''line'', JNum (JInt (int (cr_line r)))),
     (''pattern'', JStr (nfc (cr_pattern r))), (''source'', JStr (source_name (cr_source r)))]"

definition compileExclusionPolicy ::
  "(string \<Rightarrow> string) \<Rightarrow> (byte list \<Rightarrow> string) \<Rightarrow> (rule_source \<times> string) list \<Rightarrow> filesystem_capabilities
   \<Rightarrow> cuna_error + exclusion_policy" where
  "compileExclusionPolicy nfc sha sources caps =
     (case compile_sources sources 0 [] of
        Inl e \<Rightarrow> Inl e
      | Inr rules \<Rightarrow> Inr \<lparr>ep_digest = sha (utf8_bytes (''cuna-exclusion-policy-v1'' @ [CHR 0x00]) @
            utf8_bytes (json_stringify (JArr (map (rule_json nfc) rules)))),
          ep_rules = rules, ep_capabilities = caps\<rparr>)"

definition immutable_components :: "string list" where
  "immutable_components = [''.env'', ''.env.local'', ''.netrc'', ''credentials'', ''id_rsa'', ''id_dsa'', ''id_ecdsa'', ''id_ed25519'']"

definition immutable_dependency_tree_components :: "string list" where
  "immutable_dependency_tree_components = [''node_modules'', ''.venv'', ''venv'', ''__pycache__'', ''.mypy_cache'',
     ''.pytest_cache'', ''target'', ''dist'', ''build'', ''.next'', ''.turbo'', ''.gradle'', ''.terraform'', ''vendor'']"

definition always_excluded :: "exclusion_reason \<Rightarrow> exclusion_decision" where
  "always_excluded r = \<lparr>xd_excluded = True, xd_immutable = True, xd_reason = Some r, xd_ruleIndex = None\<rparr>"

definition immutableDecision :: "(string \<Rightarrow> string) \<Rightarrow> string \<Rightarrow> entry_kind \<Rightarrow> exclusion_decision option" where
  "immutableDecision lower wirePath kind =
     (if kind = Special_entry then Some (always_excluded Immutable_special_file)
      else let components = split_on CHR ''/'' (lower wirePath) in
        if ''.cuna'' \<in> set components then Some (always_excluded Immutable_metadata)
        else if ''.ssh'' \<in> set components \<or> ''.git'' \<in> set components \<or>
                list_ex (\<lambda>c. c \<in> set immutable_components) components
        then Some (always_excluded Immutable_credentials)
        else if list_ex (\<lambda>c. c \<in> set immutable_dependency_tree_components) components
        then Some (always_excluded Immutable_dependency_tree)
        else None)"

definition not_excluded :: exclusion_decision where
  "not_excluded = \<lparr>xd_excluded = False, xd_immutable = False, xd_reason = None, xd_ruleIndex = None\<rparr>"

definition rule_applies :: "compiled_rule \<Rightarrow> string \<Rightarrow> entry_kind \<Rightarrow> bool" where
  "rule_applies rule path kind = (case glob_exec (cr_glob rule) path of
     None \<Rightarrow> False
   | Some exactMatch \<Rightarrow> \<not> (cg_directoryOnly (cr_glob rule) \<and> exactMatch \<and> kind \<noteq> Directory_entry))"

fun decide_loop :: "nat \<Rightarrow> compiled_rule list \<Rightarrow> string \<Rightarrow> entry_kind \<Rightarrow> exclusion_decision \<Rightarrow> exclusion_decision" where
  "decide_loop ruleIndex [] path kind result = result"
| "decide_loop ruleIndex (rule # rules) path kind result =
     decide_loop (ruleIndex + 1) rules path kind
       (if rule_applies rule path kind
        then \<lparr>xd_excluded = cr_excluded rule, xd_immutable = False, xd_reason = Some User_rule, xd_ruleIndex = Some ruleIndex\<rparr>
        else result)"

definition policy_decide ::
  "(string \<Rightarrow> string) \<Rightarrow> (string \<Rightarrow> string) \<Rightarrow> exclusion_policy \<Rightarrow> string \<Rightarrow> entry_kind \<Rightarrow> cuna_error + exclusion_decision" where
  "policy_decide nfc lower policy wirePath kind =
     (case normalizeWirePath nfc (ep_capabilities policy) wirePath of
        Inl e \<Rightarrow> Inl e
      | Inr normalized \<Rightarrow> Inr (case immutableDecision lower normalized kind of
            Some d \<Rightarrow> d
          | None \<Rightarrow> decide_loop 0 (ep_rules policy) normalized kind not_excluded))"

section \<open>Secrets in file contents\<close>

text \<open>\<^verbatim>\<open>/-----BEGIN (?:RSA |EC |OPENSSH )?PRIVATE KEY-----/u\<close>.\<close>

definition private_key_here :: "string \<Rightarrow> bool" where
  "private_key_here s = list_ex (\<lambda>k. after (''-----BEGIN '' @ k @ ''PRIVATE KEY-----'') s \<noteq> None)
     [''RSA '', ''EC '', ''OPENSSH '', []]"

definition regex_word_char :: "char \<Rightarrow> bool" where
  "regex_word_char c \<longleftrightarrow> alnum c \<or> c = CHR ''_''"

definition upper_digit :: "char \<Rightarrow> bool" where
  "upper_digit c \<longleftrightarrow> (let n = of_char c :: nat in 48 \<le> n \<and> n \<le> 57 \<or> 65 \<le> n \<and> n \<le> 90)"

text \<open>\<^verbatim>\<open>AKIA[0-9A-Z]{16}\b\<close> at the front; the leading \<^verbatim>\<open>\b\<close> looks at the character before.\<close>

definition access_key_here :: "string \<Rightarrow> bool" where
  "access_key_here s = (case after ''AKIA'' s of None \<Rightarrow> False
     | Some rest \<Rightarrow> length rest \<ge> 16 \<and> list_all upper_digit (take 16 rest) \<and>
         (case drop 16 rest of [] \<Rightarrow> True | c # _ \<Rightarrow> \<not> regex_word_char c))"

definition boundary_then :: "(char \<Rightarrow> bool) \<Rightarrow> (string \<Rightarrow> bool) \<Rightarrow> string \<Rightarrow> bool" where
  "boundary_then joined P s \<longleftrightarrow> P s \<or> somewhere (\<lambda>t. case t of [] \<Rightarrow> False | c # r \<Rightarrow> \<not> joined c \<and> P r) s"

definition service_openings :: "string list" where
  "service_openings = credential_openings @ [''sk'']"

definition service_token :: "string \<Rightarrow> bool" where
  "service_token s = boundary_then token_char (opening_run service_openings 20) s"

definition detectHighConfidenceSecret :: "(byte list \<Rightarrow> string) \<Rightarrow> byte list \<Rightarrow> string option" where
  "detectHighConfidenceSecret decode content =
     (if int (length content) > 2 * 1024 * 1024 \<or> 0 \<in> set content then None
      else let s = decode content in
        if somewhere private_key_here s then Some ''private_key''
        else if boundary_then regex_word_char access_key_here s then Some ''cloud_access_key''
        else if service_token s then Some ''service_token''
        else None)"

section \<open>The language of a pattern\<close>

fun piece_lang :: "glob_item \<Rightarrow> string set" where
  "piece_lang (G_char c) = {[c]}"
| "piece_lang G_one = {[d] | d. d \<noteq> CHR ''/''}"
| "piece_lang G_segment = {p. CHR ''/'' \<notin> set p}"
| "piece_lang G_rest = {p. list_all dot_char p}"
| "piece_lang G_directories = insert [] {p @ [CHR ''/''] | p. list_all dot_char p}"

fun body_lang :: "glob_item list \<Rightarrow> string set" where
  "body_lang [] = {[]}"
| "body_lang (i # r) = {p @ q | p q. p \<in> piece_lang i \<and> q \<in> body_lang r}"

text \<open>\<open>covers r s\<close>: the path \<open>s\<close>, or a directory above it, is in the language of \<open>r\<close>.\<close>

definition covers :: "glob_item list \<Rightarrow> string \<Rightarrow> bool" where
  "covers r s \<longleftrightarrow> (\<exists>p q. s = p @ q \<and> p \<in> body_lang r \<and> (q = [] \<or> hd q = CHR ''/''))"

lemma or_else_None [simp]: "or_else a b = None \<longleftrightarrow> a = None \<and> b = None"
  by (cases a) (auto simp: or_else_def)

lemma or_else_Some: "or_else a b = Some x \<longleftrightarrow> a = Some x \<or> a = None \<and> b = Some x"
  by (cases a) (auto simp: or_else_def)

lemma covers_Nil: "covers [] s \<longleftrightarrow> s = [] \<or> hd s = CHR ''/''"
  by (auto simp: covers_def)

lemma coversI: "p \<in> body_lang r \<Longrightarrow> q = [] \<or> hd q = CHR ''/'' \<Longrightarrow> covers r (p @ q)"
  unfolding covers_def by blast

lemma covers_Cons: "covers (i # r) s \<longleftrightarrow> (\<exists>a t. s = a @ t \<and> a \<in> piece_lang i \<and> covers r t)"
proof
  assume "covers (i # r) s"
  then obtain b q where b: "s = b @ q" "b \<in> body_lang (i # r)" "q = [] \<or> hd q = CHR ''/''"
    unfolding covers_def by (elim exE conjE)
  then obtain a p where "b = a @ p" "a \<in> piece_lang i" "p \<in> body_lang r" by (simp, elim exE conjE)
  moreover from this b have "covers r (p @ q)" by (intro coversI)
  ultimately show "\<exists>a t. s = a @ t \<and> a \<in> piece_lang i \<and> covers r t"
    using b(1) by (intro exI [of _ a] exI [of _ "p @ q"]) simp
next
  assume "\<exists>a t. s = a @ t \<and> a \<in> piece_lang i \<and> covers r t"
  then obtain a p q where "s = a @ p @ q" "a \<in> piece_lang i" "p \<in> body_lang r" "q = [] \<or> hd q = CHR ''/''"
    unfolding covers_def by (elim exE conjE) simp
  moreover from this have "a @ p \<in> body_lang (i # r)" by auto
  ultimately show "covers (i # r) s" unfolding covers_def by (metis append.assoc)
qed

lemma covers_one: "covers (G_one # r) s \<longleftrightarrow> (\<exists>d t. s = d # t \<and> d \<noteq> CHR ''/'' \<and> covers r t)"
proof -
  have "(\<exists>a t. s = a @ t \<and> (\<exists>d. a = [d] \<and> d \<noteq> CHR ''/'') \<and> covers r t) \<longleftrightarrow>
    (\<exists>d t. s = d # t \<and> d \<noteq> CHR ''/'' \<and> covers r t)" by (metis append_Cons append_Nil)
  then show ?thesis by (simp add: covers_Cons)
qed

text \<open>A piece that repeats a class of characters either stops here or takes one more character.\<close>

lemma covers_run:
  assumes "piece_lang i = {p. list_all P p}"
  shows "covers (i # r) s \<longleftrightarrow> covers r s \<or> (\<exists>d s'. s = d # s' \<and> P d \<and> covers (i # r) s')"
proof -
  have "(\<exists>a t. s = a @ t \<and> list_all P a \<and> covers r t) \<longleftrightarrow>
    covers r s \<or> (\<exists>d a t. s = d # a @ t \<and> P d \<and> list_all P a \<and> covers r t)"
    (is "?l \<longleftrightarrow> ?r")
  proof
    assume ?l
    then obtain a t where "s = a @ t" "list_all P a" "covers r t" by blast
    then show ?r by (cases a) auto
  next
    assume ?r
    then show ?l
    proof
      assume "covers r s"
      then show ?l by (intro exI [of _ "[]"] exI [of _ s]) simp
    next
      assume "\<exists>d a t. s = d # a @ t \<and> P d \<and> list_all P a \<and> covers r t"
      then obtain d a t where "s = (d # a) @ t" "list_all P (d # a)" "covers r t" by auto
      then show ?l by blast
    qed
  qed
  then show ?thesis by (simp add: covers_Cons assms) blast
qed

lemma segment_run: "piece_lang G_segment = {p. list_all (\<lambda>d. d \<noteq> CHR ''/'') p}"
  by (auto simp: list_all_iff)

definition dirs_covers :: "glob_item list \<Rightarrow> string \<Rightarrow> bool" where
  "dirs_covers r s \<longleftrightarrow> (\<exists>p t. s = p @ CHR ''/'' # t \<and> list_all dot_char p \<and> covers r t)"

lemma dirs_covers_simps [simp]:
  "dirs_covers r [] = False"
  "dirs_covers r (d # s) = ((dot_char d \<and> dirs_covers r s) \<or> (d = CHR ''/'' \<and> covers r s))"
proof -
  show "dirs_covers r (d # s) = ((dot_char d \<and> dirs_covers r s) \<or> (d = CHR ''/'' \<and> covers r s))" (is "?l = ?r")
  proof
    assume ?l
    then obtain p t where "d # s = p @ CHR ''/'' # t" "list_all dot_char p" "covers r t" by (auto simp: dirs_covers_def)
    then show ?r by (cases p) (auto simp: dirs_covers_def)
  next
    assume ?r
    then show ?l
    proof
      assume "dot_char d \<and> dirs_covers r s"
      then obtain p t where "d # s = (d # p) @ CHR ''/'' # t" "list_all dot_char (d # p)" "covers r t"
        by (auto simp: dirs_covers_def)
      then show ?l unfolding dirs_covers_def by blast
    next
      assume "d = CHR ''/'' \<and> covers r s"
      then show ?l unfolding dirs_covers_def by (intro exI [of _ "[]"] exI [of _ s]) simp
    qed
  qed
qed (simp add: dirs_covers_def)

lemma covers_directories: "covers (G_directories # r) s \<longleftrightarrow> dirs_covers r s \<or> covers r s"
proof
  assume "covers (G_directories # r) s"
  then obtain a t where "s = a @ t" "covers r t" "a = [] \<or> (\<exists>p. a = p @ [CHR ''/''] \<and> list_all dot_char p)"
    by (auto simp: covers_Cons)
  then consider "s = t" | p where "s = p @ CHR ''/'' # t" "list_all dot_char p" by auto
  then show "dirs_covers r s \<or> covers r s" using \<open>covers r t\<close> by cases (auto simp: dirs_covers_def)
next
  assume "dirs_covers r s \<or> covers r s"
  then show "covers (G_directories # r) s"
  proof
    assume "dirs_covers r s"
    then obtain p t where "s = (p @ [CHR ''/'']) @ t" "list_all dot_char p" "covers r t" by (auto simp: dirs_covers_def)
    then show ?thesis unfolding covers_Cons by (intro exI [of _ "p @ [CHR ''/'']"] exI [of _ t]) simp
  next
    assume "covers r s"
    then show ?thesis unfolding covers_Cons by (intro exI [of _ "[]"] exI [of _ s]) simp
  qed
qed

lemma glob_match_None:
  "glob_match r s = None \<longleftrightarrow> \<not> covers r s"
  "glob_dirs r s = None \<longleftrightarrow> \<not> dirs_covers r s"
proof (induction r s and r s rule: glob_match_glob_dirs.induct)
  case (1 s)
  show ?case by (cases s) (simp_all add: covers_Nil glob_match.simps)
next
  case (2 c r s)
  then show ?case by (cases s) (auto simp: covers_Cons glob_match.simps)
next
  case (3 r s)
  then show ?case by (cases s) (simp_all add: covers_one glob_match.simps)
next
  case (4 r s)
  then show ?case using covers_run [OF segment_run, of r s] by (cases s) (auto simp: glob_match.simps(4) [of r "[]"] glob_match.simps(4) [of r "_ # _"])
next
  case (5 r s)
  then show ?case using covers_run [of G_rest dot_char r s] by (cases s) (auto simp: glob_match.simps(5) [of r "[]"] glob_match.simps(5) [of r "_ # _"])
next
  case (6 r s)
  then show ?case by (simp add: covers_directories glob_match.simps)
next
  case (7 r s)
  then show ?case by (cases s) (simp_all add: glob_dirs.simps [of r])
qed

lemma glob_match_covers: "glob_match r s \<noteq> None \<longleftrightarrow> covers r s"
  by (simp add: glob_match_None)

lemma glob_search_iff: "glob_search r s \<noteq> None \<longleftrightarrow> (\<exists>u t. s = u @ CHR ''/'' # t \<and> covers r t)"
proof (induction r s rule: glob_search.induct)
  case (2 r c s)
  have "(\<exists>u t. c # s = u @ CHR ''/'' # t \<and> covers r t) \<longleftrightarrow>
    dirs_covers r (c # s) \<or> (\<exists>u t. s = u @ CHR ''/'' # t \<and> covers r t)" (is "?l \<longleftrightarrow> ?r")
  proof
    assume ?l
    then obtain u t where "c # s = u @ CHR ''/'' # t" "covers r t" by blast
    then show ?r by (cases u) auto
  next
    assume ?r
    then show ?l by (metis dirs_covers_def append_Cons)
  qed
  with 2 show ?case by (simp add: glob_match_None)
qed (simp add: glob_match_None)

text \<open>
  The reference: a pattern governs a path when the path, or a directory above it, has a tail
  of whole components (all of it, for an anchored pattern) in the language of the pattern.
\<close>

definition component_start :: "bool \<Rightarrow> string \<Rightarrow> bool" where
  "component_start anchored pre = (if anchored then pre = [] else pre = [] \<or> last pre = CHR ''/'')"

definition governs :: "compiled_glob \<Rightarrow> string \<Rightarrow> bool" where
  "governs g s \<longleftrightarrow> (\<exists>pre p q. s = pre @ p @ q \<and> component_start (cg_anchored g) pre \<and>
     p \<in> body_lang (cg_body g) \<and> (q = [] \<or> hd q = CHR ''/''))"

lemma governs_covers: "governs g s \<longleftrightarrow> (\<exists>pre t. s = pre @ t \<and> component_start (cg_anchored g) pre \<and> covers (cg_body g) t)"
  unfolding governs_def covers_def by blast

lemma glob_exec_iff: "glob_exec g s \<noteq> None \<longleftrightarrow> governs g s"
proof (cases "cg_anchored g")
  case True
  then show ?thesis using glob_match_covers [of "cg_body g" s]
    by (simp add: glob_exec_def governs_covers component_start_def)
next
  case False
  have "governs g s \<longleftrightarrow> covers (cg_body g) s \<or> (\<exists>u t. s = u @ CHR ''/'' # t \<and> covers (cg_body g) t)" (is "_ \<longleftrightarrow> ?r")
  proof
    assume "governs g s"
    then obtain pre t where "s = pre @ t" "pre = [] \<or> last pre = CHR ''/''" "covers (cg_body g) t"
      using False by (auto simp: governs_covers component_start_def)
    then show ?r by (cases pre rule: rev_cases) auto
  next
    assume ?r
    then consider "covers (cg_body g) s" | u t where "s = (u @ [CHR ''/'']) @ t" "covers (cg_body g) t" by auto
    then show "governs g s"
    proof cases
      case 1
      then show ?thesis unfolding governs_covers component_start_def by (intro exI [of _ "[]"] exI [of _ s]) simp
    next
      case 2
      then show ?thesis using False unfolding governs_covers component_start_def
        by (intro exI [of _ "u @ [CHR ''/'']"] exI [of _ t]) simp
    qed
  qed
  with False glob_search_iff [of "cg_body g" s] show ?thesis
    by (simp add: glob_exec_def glob_match_None)
qed

section \<open>The meaning of a pattern text\<close>

text \<open>
  The reference reads the text of a pattern without tokens and expressions. A backslash makes
  the next character literal (alone at the end it stands for itself); of the others a star, a
  question mark and a slash are special.
\<close>

datatype pattern_unit = Literal char | Star | Any_char | Separator

definition plain_unit :: "char \<Rightarrow> pattern_unit" where
  "plain_unit c = (if c = CHR ''*'' then Star else if c = CHR ''?'' then Any_char else if c = CHR ''/'' then Separator else Literal c)"

fun pattern_units :: "string \<Rightarrow> pattern_unit list" where
  "pattern_units [] = []"
| "pattern_units [c] = [plain_unit c]"
| "pattern_units (c # d # p) = (if c = CHR 0x5C then Literal d # pattern_units p else plain_unit c # pattern_units (d # p))"

text \<open>The segments between the separators.\<close>

function pattern_segments :: "pattern_unit list \<Rightarrow> pattern_unit list list" where
  "pattern_segments us = takeWhile (\<lambda>u. u \<noteq> Separator) us #
     (case dropWhile (\<lambda>u. u \<noteq> Separator) us of [] \<Rightarrow> [] | _ # rest \<Rightarrow> pattern_segments rest)"
  by pat_completeness auto
termination
proof (relation "measure length")
  fix us rest :: "pattern_unit list" and u
  assume "dropWhile (\<lambda>u. u \<noteq> Separator) us = u # rest"
  then have "length (u # rest) \<le> length us" by (metis length_dropWhile_le)
  then show "(rest, us) \<in> measure length" by simp
qed simp

declare pattern_segments.simps [simp del]

text \<open>
  A text is an instance of a segment when each literal character stands for itself, each question
  mark for one character and each star for any number of characters, none of them a slash.
\<close>

fun segment_instance :: "pattern_unit list \<Rightarrow> string \<Rightarrow> bool" where
  "segment_instance [] p \<longleftrightarrow> p = []"
| "segment_instance (u # us) p \<longleftrightarrow> (\<exists>a t. p = a @ t \<and> segment_instance us t \<and>
     (case u of Literal c \<Rightarrow> a = [c] | Star \<Rightarrow> CHR ''/'' \<notin> set a | Any_char \<Rightarrow> (\<exists>d. a = [d] \<and> d \<noteq> CHR ''/'') | Separator \<Rightarrow> a = ''/''))"

definition one_line :: "string \<Rightarrow> bool" where
  "one_line p \<longleftrightarrow> CHR 0x0A \<notin> set p \<and> CHR 0x0D \<notin> set p"

text \<open>
  The segments describe the path, or a directory above it: a segment of two stars stands for
  any number of whole components (at least one at the end of the pattern), any other
  for its instances, with a slash between one segment and the next.
\<close>

fun segments_cover :: "pattern_unit list list \<Rightarrow> string \<Rightarrow> bool" where
  "segments_cover [] s \<longleftrightarrow> False"
| "segments_cover [seg] s \<longleftrightarrow> (\<exists>p q. s = p @ q \<and> (if seg = [Star, Star] then one_line p else segment_instance seg p) \<and>
     (q = [] \<or> hd q = CHR ''/''))"
| "segments_cover (seg # next_seg # segs) s \<longleftrightarrow>
     (if seg = [Star, Star] then \<exists>p t. s = p @ t \<and> (p = [] \<or> last p = CHR ''/'') \<and> one_line p \<and> segments_cover (next_seg # segs) t
      else \<exists>p t. s = p @ CHR ''/'' # t \<and> segment_instance seg p \<and> segments_cover (next_seg # segs) t)"

text \<open>
  A slash at the end restricts the rule to directories, one at the front or in the middle ties
  the pattern to the root; without one the pattern may start at any component.
\<close>

definition pattern_core :: "string \<Rightarrow> pattern_unit list" where
  "pattern_core pat = (let us = pattern_units pat in if us \<noteq> [] \<and> last us = Separator then butlast us else us)"

definition pattern_governs :: "string \<Rightarrow> string \<Rightarrow> bool" where
  "pattern_governs pat s \<longleftrightarrow> (\<exists>pre t. s = pre @ t \<and> (pre = [] \<or> Separator \<notin> set (pattern_core pat) \<and> last pre = CHR ''/'') \<and>
     segments_cover (pattern_segments (case pattern_core pat of [] \<Rightarrow> [] | u # us \<Rightarrow> if u = Separator then us else u # us)) t)"

text \<open>The tokens of the code read the same units.\<close>

definition token_unit :: "pattern_token \<Rightarrow> pattern_unit" where
  "token_unit t = (if snd t then Literal (fst t) else plain_unit (fst t))"

lemma token_unit_simps [simp]:
  "token_unit t = Star \<longleftrightarrow> isSyntacticStar t" "token_unit t = Separator \<longleftrightarrow> isSyntacticSeparator t"
  "token_unit t = Any_char \<longleftrightarrow> t = (CHR ''?'', False)" "Separator = token_unit t \<longleftrightarrow> isSyntacticSeparator t"
  by (cases t; simp add: token_unit_def plain_unit_def isSyntacticStar_def isSyntacticSeparator_def)+

lemma tokenize_units: "pattern_units pat = map token_unit (tokenizePattern pat)"
  by (induction pat rule: pattern_units.induct) (simp_all add: token_unit_def plain_unit_def)

definition unit_item :: "pattern_token \<Rightarrow> glob_item" where
  "unit_item t = (case token_unit t of Star \<Rightarrow> G_segment | Any_char \<Rightarrow> G_one | _ \<Rightarrow> G_char (fst t))"

lemma unit_item_lang: "p \<in> piece_lang (unit_item t) \<longleftrightarrow>
    (case token_unit t of Literal c \<Rightarrow> p = [c] | Star \<Rightarrow> CHR ''/'' \<notin> set p | Any_char \<Rightarrow> (\<exists>d. p = [d] \<and> d \<noteq> CHR ''/'') | Separator \<Rightarrow> p = ''/'')"
  by (cases t; cases "token_unit t") (auto simp: unit_item_def token_unit_def plain_unit_def split: if_splits)

lemma compile_unit: "\<not> isSyntacticStar t \<Longrightarrow> compile_body b (t # ts) = unit_item t # compile_body (isSyntacticSeparator t) ts"
  by (cases t; cases "token_unit t") (auto simp: unit_item_def isSyntacticSeparator_def isSyntacticStar_def token_unit_def plain_unit_def split: if_splits)

text \<open>A segment that is not two stars is compiled unit by unit.\<close>

lemma compile_segment:
  assumes "list_all (\<lambda>t. \<not> isSyntacticSeparator t) seg" and "rest = [] \<or> isSyntacticSeparator (hd rest)"
    and "\<not> (b \<and> map token_unit seg = [Star, Star])"
  shows "compile_body b (seg @ rest) = map unit_item seg @ compile_body False rest"
  using assms
proof (induction seg arbitrary: b)
  case Nil
  then show ?case by (cases rest) (auto simp: isSyntacticSeparator_def isSyntacticStar_def)
next
  case (Cons t seg)
  show ?case
  proof (cases "isSyntacticStar t")
    case False
    with Cons show ?thesis by (simp add: compile_unit del: compile_body.simps)
  next
    case True
    have star: "unit_item t = G_segment" using True by (simp add: unit_item_def flip: token_unit_simps(1))
    have single: "\<not> (b \<and> (case seg @ rest of u # vs \<Rightarrow> isSyntacticStar u \<and> (case vs of [] \<Rightarrow> True | v # _ \<Rightarrow> isSyntacticSeparator v) | [] \<Rightarrow> False))"
      using Cons(2-4) True by (cases seg; cases rest; cases "tl seg")
        (auto simp: isSyntacticSeparator_def isSyntacticStar_def)
    have "compile_body b (t # seg @ rest) = G_segment # compile_body False (seg @ rest)"
      using True single by (cases "seg @ rest") (auto split: list.splits)
    with star Cons show ?thesis by simp
  qed
qed

lemma covers_units: "covers (map unit_item seg @ r) s \<longleftrightarrow> (\<exists>p t. s = p @ t \<and> segment_instance (map token_unit seg) p \<and> covers r t)"
proof (induction seg arbitrary: s)
  case (Cons u seg)
  have "covers (map unit_item (u # seg) @ r) s \<longleftrightarrow> (\<exists>a t. s = a @ t \<and> a \<in> piece_lang (unit_item u) \<and> covers (map unit_item seg @ r) t)"
    by (simp add: covers_Cons)
  also have "\<dots> \<longleftrightarrow> (\<exists>a p t. s = (a @ p) @ t \<and> a \<in> piece_lang (unit_item u) \<and> segment_instance (map token_unit seg) p \<and> covers r t)"
    unfolding Cons by (metis append.assoc)
  also have "\<dots> \<longleftrightarrow> (\<exists>p t. s = p @ t \<and> segment_instance (map token_unit (u # seg)) p \<and> covers r t)"
    unfolding unit_item_lang list.map segment_instance.simps by blast
  finally show ?case .
qed simp

lemma one_line_dot: "one_line p \<longleftrightarrow> list_all dot_char p"
  by (auto simp: one_line_def dot_char_def list_all_iff)

lemma covers_directories_one_line:
  "covers (G_directories # r) s \<longleftrightarrow> (\<exists>p t. s = p @ t \<and> (p = [] \<or> last p = CHR ''/'') \<and> one_line p \<and> covers r t)"
proof
  assume "covers (G_directories # r) s"
  then consider "covers r s" | p t where "s = (p @ [CHR ''/'']) @ t" "list_all dot_char p" "covers r t"
    unfolding covers_directories dirs_covers_def by auto
  then show "\<exists>p t. s = p @ t \<and> (p = [] \<or> last p = CHR ''/'') \<and> one_line p \<and> covers r t"
  proof cases
    case 1
    then show ?thesis by (intro exI [of _ "[]"] exI [of _ s]) (simp add: one_line_dot)
  next
    case 2
    then show ?thesis by (intro exI [of _ "p @ [CHR ''/'']"] exI [of _ t]) (simp add: one_line_dot dot_char_def)
  qed
next
  assume "\<exists>p t. s = p @ t \<and> (p = [] \<or> last p = CHR ''/'') \<and> one_line p \<and> covers r t"
  then obtain p t where p: "s = p @ t" "p = [] \<or> last p = CHR ''/''" "one_line p" "covers r t" by blast
  then show "covers (G_directories # r) s" unfolding covers_directories dirs_covers_def one_line_dot
    by (cases p rule: rev_cases) auto
qed

lemma compile_segments: "covers (compile_body True ts) s \<longleftrightarrow> segments_cover (pattern_segments (map token_unit ts)) s"
proof (induction "length ts" arbitrary: ts s rule: less_induct)
  case less
  define seg where "seg = takeWhile (\<lambda>t. \<not> isSyntacticSeparator t) ts"
  define rest where "rest = dropWhile (\<lambda>t. \<not> isSyntacticSeparator t) ts"
  have ts: "ts = seg @ rest" by (simp add: seg_def rest_def)
  have seg: "list_all (\<lambda>t. \<not> isSyntacticSeparator t) seg" by (auto simp: seg_def list_all_iff dest: set_takeWhileD)
  have rest: "rest = [] \<or> isSyntacticSeparator (hd rest)" using hd_dropWhile [of "\<lambda>t. \<not> isSyntacticSeparator t" ts] unfolding rest_def by blast
  have segments: "pattern_segments (map token_unit ts) =
      map token_unit seg # (case rest of [] \<Rightarrow> [] | _ # ts' \<Rightarrow> pattern_segments (map token_unit ts'))"
    by (subst pattern_segments.simps) (cases rest; simp add: takeWhile_map dropWhile_map comp_def flip: seg_def rest_def)
  show ?case
  proof (cases rest)
    case Nil
    show ?thesis
    proof (cases "map token_unit seg = [Star, Star]")
      case True
      then obtain t u where "seg = [t, u]" "isSyntacticStar t" "isSyntacticStar u" by (auto simp: map_eq_Cons_conv)
      then have "compile_body True ts = [G_rest]" using ts Nil by simp
      with True show ?thesis by (simp add: segments Nil covers_Cons covers_Nil one_line_dot)
    next
      case False
      have "compile_body True ts = map unit_item seg @ []" using compile_segment [OF seg rest, of True] False ts Nil by simp
      with False show ?thesis using covers_units [of seg "[]" s] by (simp add: segments Nil covers_Nil)
    qed
  next
    case (Cons sep ts')
    have sep: "isSyntacticSeparator sep" "sep = (CHR ''/'', False)" using rest Cons by (simp_all add: isSyntacticSeparator_def)
    have "length ts' < length ts" by (simp add: ts Cons)
    note IH = less [OF this]
    obtain seg2 segs where next_seg: "pattern_segments (map token_unit ts') = seg2 # segs" by (subst (asm) pattern_segments.simps) simp
    show ?thesis
    proof (cases "map token_unit seg = [Star, Star]")
      case True
      then obtain t u where "seg = [t, u]" "isSyntacticStar t" "isSyntacticStar u" by (auto simp: map_eq_Cons_conv)
      then have "compile_body True ts = G_directories # compile_body True ts'" using ts Cons sep(1) by simp
      with True IH show ?thesis by (simp add: segments Cons next_seg covers_directories_one_line)
    next
      case False
      have "compile_body False (sep # ts') = G_char CHR ''/'' # compile_body True ts'" using sep by (simp add: isSyntacticStar_def)
      with compile_segment [OF seg rest, of True] False ts Cons
      have "compile_body True ts = map unit_item seg @ G_char CHR ''/'' # compile_body True ts'" by simp
      moreover have "covers (G_char CHR ''/'' # compile_body True ts') t \<longleftrightarrow> (\<exists>t'. t = CHR ''/'' # t' \<and> covers (compile_body True ts') t')" for t
        by (simp add: covers_Cons)
      ultimately show ?thesis using False IH by (simp add: covers_units segments Cons next_seg) blast
    qed
  qed
qed

lemma compileGlob_pattern:
  "cg_anchored (compileGlob pat) \<longleftrightarrow> Separator \<in> set (pattern_core pat)"
  "cg_directoryOnly (compileGlob pat) \<longleftrightarrow> pattern_units pat \<noteq> [] \<and> last (pattern_units pat) = Separator"
  "covers (cg_body (compileGlob pat)) t \<longleftrightarrow>
     segments_cover (pattern_segments (case pattern_core pat of [] \<Rightarrow> [] | u # us \<Rightarrow> if u = Separator then us else u # us)) t"
proof -
  let ?ts = "tokenizePattern pat"
  define core where "core = (if ?ts \<noteq> [] \<and> isSyntacticSeparator (last ?ts) then butlast ?ts else ?ts)"
  have core: "pattern_core pat = map token_unit core"
    by (cases "?ts = []") (simp_all add: pattern_core_def core_def tokenize_units last_map map_butlast Let_def)
  have glob: "compileGlob pat = \<lparr>cg_anchored = list_ex isSyntacticSeparator core,
      cg_body = compile_body True (case core of [] \<Rightarrow> [] | t # ts \<Rightarrow> if isSyntacticSeparator t then ts else core),
      cg_directoryOnly = (?ts \<noteq> [] \<and> isSyntacticSeparator (last ?ts))\<rparr>"
    by (simp only: compileGlob_def core_def Let_def)
  show "cg_anchored (compileGlob pat) \<longleftrightarrow> Separator \<in> set (pattern_core pat)"
    unfolding glob core by (simp add: list_ex_iff image_iff)
  show "cg_directoryOnly (compileGlob pat) \<longleftrightarrow> pattern_units pat \<noteq> [] \<and> last (pattern_units pat) = Separator"
    unfolding glob by (auto simp: tokenize_units last_map)
  show "covers (cg_body (compileGlob pat)) t \<longleftrightarrow>
     segments_cover (pattern_segments (case pattern_core pat of [] \<Rightarrow> [] | u # us \<Rightarrow> if u = Separator then us else u # us)) t"
    unfolding glob core using compile_segments [of "[]" t] by (cases core) (simp_all add: compile_segments)
qed

lemma glob_pattern_iff: "glob_exec (compileGlob pat) s \<noteq> None \<longleftrightarrow> pattern_governs pat s"
  unfolding glob_exec_iff governs_covers component_start_def pattern_governs_def compileGlob_pattern by auto


text \<open>Some readings of the reference.\<close>

lemma pattern_governs_examples:
  "pattern_governs ''*.log'' ''a/keep.log''" "pattern_governs ''/out/**/x'' ''out/a/b/x/y''" "\<not> pattern_governs ''/out'' ''a/out''"
  by (simp_all flip: glob_pattern_iff) code_simp+

definition escape_pattern :: "string \<Rightarrow> string" where
  "escape_pattern p = concat (map (\<lambda>c. [CHR 0x5C, c]) p)"

lemma tokenize_escaped: "tokenizePattern (escape_pattern p) = map (\<lambda>c. (c, True)) p"
  by (induction p) (simp_all add: escape_pattern_def)

lemma compile_literal: "compile_body boundary (map (\<lambda>c. (c, True)) p) = map G_char p"
  by (induction p arbitrary: boundary) (simp_all add: isSyntacticStar_def)

lemma body_lang_literal: "body_lang (map G_char p) = {p}"
  by (induction p) auto

lemma compile_escaped:
  "compileGlob (escape_pattern p) = \<lparr>cg_anchored = False, cg_body = map G_char p, cg_directoryOnly = False\<rparr>"
proof -
  have "\<not> list_ex isSyntacticSeparator (map (\<lambda>c. (c, True)) p)"
    by (auto simp: list_ex_iff isSyntacticSeparator_def)
  moreover have "p \<noteq> [] \<Longrightarrow> \<not> isSyntacticSeparator (last (map (\<lambda>c. (c, True)) p))"
    by (simp add: last_map isSyntacticSeparator_def)
  moreover have "(case map (\<lambda>c. (c, True)) p of [] \<Rightarrow> [] | t # ts \<Rightarrow> if isSyntacticSeparator t then ts else map (\<lambda>c. (c, True)) p) =
      map (\<lambda>c. (c, True)) p"
    by (cases p) (simp_all add: isSyntacticSeparator_def)
  ultimately show ?thesis
    by (cases "p = []") (simp_all add: compileGlob_def tokenize_escaped compile_literal Let_def)
qed

text \<open>
  A backslash makes every character literal: the pattern in which each character of \<open>p\<close> is
  escaped finds exactly the paths in which \<open>p\<close> starts at a component and ends at one, whatever
  wildcards, separators or comment signs \<open>p\<close> holds.
\<close>

theorem escaped_pattern_literal:
  "glob_exec (compileGlob (escape_pattern p)) s \<noteq> None \<longleftrightarrow>
     (\<exists>pre q. s = pre @ p @ q \<and> (pre = [] \<or> last pre = CHR ''/'') \<and> (q = [] \<or> hd q = CHR ''/''))"
  unfolding glob_exec_iff governs_def compile_escaped by (simp add: body_lang_literal component_start_def)

section \<open>Decisions\<close>

definition user_decision :: "compiled_rule list \<Rightarrow> nat \<Rightarrow> exclusion_decision" where
  "user_decision rules i =
     \<lparr>xd_excluded = cr_excluded (rules ! i), xd_immutable = False, xd_reason = Some User_rule, xd_ruleIndex = Some i\<rparr>"

definition last_rule :: "compiled_rule list \<Rightarrow> (compiled_rule \<Rightarrow> bool) \<Rightarrow> exclusion_decision" where
  "last_rule rules P = (let applying = filter (\<lambda>i. P (rules ! i)) [0..<length rules] in
     if applying = [] then not_excluded else user_decision rules (last applying))"

lemma decide_loop_snoc:
  "decide_loop k (rules @ [r]) path kind result =
     (if rule_applies r path kind
      then \<lparr>xd_excluded = cr_excluded r, xd_immutable = False, xd_reason = Some User_rule, xd_ruleIndex = Some (k + length rules)\<rparr>
      else decide_loop k rules path kind result)"
  by (induction rules arbitrary: k result) simp_all

lemma last_rule_snoc:
  "last_rule (rules @ [r]) P = (if P r then user_decision (rules @ [r]) (length rules) else last_rule rules P)"
proof -
  let ?f = "filter (\<lambda>i. P (rules ! i)) [0..<length rules]"
  have "filter (\<lambda>i. P ((rules @ [r]) ! i)) [0..<length rules] = ?f"
    by (rule filter_cong) (auto simp: nth_append)
  then have f: "filter (\<lambda>i. P ((rules @ [r]) ! i)) [0..<length (rules @ [r])] = ?f @ (if P r then [length rules] else [])"
    by simp
  have "?f \<noteq> [] \<Longrightarrow> last ?f < length rules" using last_in_set [of ?f] by auto
  then have "?f \<noteq> [] \<Longrightarrow> user_decision (rules @ [r]) (last ?f) = user_decision rules (last ?f)"
    by (simp add: user_decision_def nth_append)
  then show ?thesis unfolding last_rule_def Let_def f by simp
qed

lemma decide_last_rule: "decide_loop 0 rules path kind not_excluded = last_rule rules (\<lambda>r. rule_applies r path kind)"
proof (induction rules rule: rev_induct)
  case (snoc r rules)
  then show ?case by (simp add: decide_loop_snoc last_rule_snoc user_decision_def)
qed (simp add: last_rule_def)

lemma applies_governs:
  "kind = Directory_entry \<or> \<not> cg_directoryOnly (cr_glob r) \<Longrightarrow> rule_applies r path kind \<longleftrightarrow> governs (cr_glob r) path"
  unfolding rule_applies_def glob_exec_iff [symmetric] by (auto split: option.splits)

text \<open>
  The last rule wins: when an entry is not excluded for good, and it is a directory or no
  rule is for directories only, the decision is the sign of the last rule whose pattern
  governs the path in the declarative sense, and no rule at all leaves the entry in.
\<close>

theorem policy_last_rule_decides:
  assumes "normalizeWirePath nfc (ep_capabilities policy) path = Inr w" and "immutableDecision lower w kind = None"
    and "kind = Directory_entry \<or> list_all (\<lambda>r. \<not> cg_directoryOnly (cr_glob r)) (ep_rules policy)"
  shows "policy_decide nfc lower policy path kind = Inr (last_rule (ep_rules policy) (\<lambda>r. governs (cr_glob r) w))"
proof -
  have "filter (\<lambda>i. rule_applies (ep_rules policy ! i) w kind) [0..<length (ep_rules policy)] =
      filter (\<lambda>i. governs (cr_glob (ep_rules policy ! i)) w) [0..<length (ep_rules policy)]"
    by (rule filter_cong) (use assms(3) in \<open>auto simp: list_all_length intro!: applies_governs\<close>)
  with assms(1,2) show ?thesis by (simp add: policy_decide_def decide_last_rule last_rule_def)
qed

definition sample_policy :: "string list \<Rightarrow> exclusion_policy" where
  "sample_policy ls = (case compileExclusionPolicy (\<lambda>s. s) (\<lambda>b. []) [(Gitignore, join_on CHR 0x0A ls)] ex_caps of
     Inr p \<Rightarrow> p | Inl _ \<Rightarrow> \<lparr>ep_digest = [], ep_rules = [], ep_capabilities = ex_caps\<rparr>)"

theorem policy_last_rule_decides_witness:
  "policy_decide (\<lambda>s. s) (map ascii_lower) (sample_policy [''*.log'', ''!keep.log'']) ''a/keep.log'' File_entry =
     Inr (last_rule (ep_rules (sample_policy [''*.log'', ''!keep.log''])) (\<lambda>r. governs (cr_glob r) ''a/keep.log''))"
proof (rule policy_last_rule_decides)
  show "normalizeWirePath (\<lambda>s. s) (ep_capabilities (sample_policy [''*.log'', ''!keep.log''])) ''a/keep.log'' = Inr ''a/keep.log''"
    by code_simp
  show "immutableDecision (map ascii_lower) ''a/keep.log'' File_entry = None" by code_simp
  show "File_entry = Directory_entry \<or>
      list_all (\<lambda>r. \<not> cg_directoryOnly (cr_glob r)) (ep_rules (sample_policy [''*.log'', ''!keep.log'']))"
    by code_simp
qed

text \<open>
  C36. No rule overrides the fixed exclusions: whatever rules a policy was compiled from, special
  files and every path with a component that names credentials, metadata or a dependency tree
  (in any case) are excluded, and marked as immutable.
\<close>

theorem fixed_exclusions_hold:
  assumes "compileExclusionPolicy nfc sha sources caps = Inr policy"
    and "policy_decide nfc lower policy path kind = Inr d"
    and "normalizeWirePath nfc caps path = Inr w"
    and "kind = Special_entry \<or> (\<exists>c \<in> set (split_on CHR ''/'' (lower w)). c \<in> {''.cuna'', ''.ssh'', ''.git''} \<or>
        c \<in> set immutable_components \<or> c \<in> set immutable_dependency_tree_components)"
  shows "xd_excluded d \<and> xd_immutable d"
proof -
  have "ep_capabilities policy = caps" using assms(1) by (auto simp: compileExclusionPolicy_def split: sum.splits)
  moreover have "\<exists>r. immutableDecision lower w kind = Some (always_excluded r)"
    using assms(4) by (auto simp: immutableDecision_def Let_def list_ex_iff)
  ultimately show ?thesis using assms(2,3) by (auto simp: policy_decide_def always_excluded_def)
qed

theorem fixed_exclusions_hold_witness:
  "xd_excluded (always_excluded Immutable_credentials) \<and> xd_immutable (always_excluded Immutable_credentials)"
proof (rule fixed_exclusions_hold)
  show "compileExclusionPolicy (\<lambda>s. s) (\<lambda>b. []) [(Gitignore, ''!.env'')] ex_caps = Inr (sample_policy [''!.env''])"
    by code_simp
  show "policy_decide (\<lambda>s. s) (map ascii_lower) (sample_policy [''!.env'']) ''a/.ENV'' File_entry =
      Inr (always_excluded Immutable_credentials)"
    by code_simp
  show "normalizeWirePath (\<lambda>s. s) ex_caps ''a/.ENV'' = Inr ''a/.ENV''" by code_simp
  show "File_entry = Special_entry \<or> (\<exists>c \<in> set (split_on CHR ''/'' (map ascii_lower ''a/.ENV'')).
      c \<in> {''.cuna'', ''.ssh'', ''.git''} \<or> c \<in> set immutable_components \<or> c \<in> set immutable_dependency_tree_components)"
    by code_simp
qed

section \<open>Rules for directories\<close>

text \<open>\<open>ends_at b r s\<close>: the whole path (\<open>b\<close>) or a directory strictly above it is in the language.\<close>

definition ends_at :: "bool \<Rightarrow> glob_item list \<Rightarrow> string \<Rightarrow> bool" where
  "ends_at b r s \<longleftrightarrow> (\<exists>p q. s = p @ q \<and> p \<in> body_lang r \<and> (if b then q = [] else q \<noteq> [] \<and> hd q = CHR ''/''))"

lemma ends_at_Cons: "a \<in> piece_lang i \<Longrightarrow> ends_at b r t \<Longrightarrow> ends_at b (i # r) (a @ t)"
  unfolding ends_at_def by (simp, metis append.assoc)

lemma ends_at_run:
  assumes "piece_lang i = {p. list_all P p}" and "ends_at b (i # r) s" and "P d"
  shows "ends_at b (i # r) (d # s)"
proof -
  obtain a p q where "s = (a @ p) @ q" "list_all P a" "p \<in> body_lang r" "if b then q = [] else q \<noteq> [] \<and> hd q = CHR ''/''"
    using assms(1,2) by (auto simp: ends_at_def)
  moreover from this have "ends_at b r (p @ q)" unfolding ends_at_def by blast
  moreover from calculation assms(1,3) have "d # a \<in> piece_lang i" by simp
  ultimately show ?thesis using ends_at_Cons [of "d # a" i b r "p @ q"] by simp
qed

lemma glob_match_ends_at:
  "glob_match r s = Some b \<Longrightarrow> ends_at b r s"
  "glob_dirs r s = Some b \<Longrightarrow> (\<exists>u t. s = u @ CHR ''/'' # t \<and> list_all dot_char u \<and> ends_at b r t)"
proof (induction r s and r s arbitrary: b and b rule: glob_match_glob_dirs.induct)
  case (1 s)
  then show ?case by (auto simp: glob_match.simps ends_at_def split: list.splits if_splits)
next
  case (2 c r s)
  then show ?case using ends_at_Cons [of "[c]" "G_char c" b r]
    by (auto simp: glob_match.simps split: list.splits if_splits)
next
  case (3 r s)
  then show ?case using ends_at_Cons [of "[_]" G_one b r]
    by (auto simp: glob_match.simps split: list.splits if_splits)
next
  case (4 r s)
  then show ?case using ends_at_Cons [of "[]" G_segment b r] ends_at_run [OF segment_run, of b r]
    by (auto simp: glob_match.simps(4) [of r s] or_else_Some split: list.splits if_splits)
next
  case (5 r s)
  then show ?case using ends_at_Cons [of "[]" G_rest b r] ends_at_run [of G_rest dot_char b r]
    by (auto simp: glob_match.simps(5) [of r s] or_else_Some split: list.splits if_splits)
next
  case (6 r s)
  consider "glob_dirs r s = Some b" | "glob_match r s = Some b"
    using 6(3) by (auto simp: glob_match.simps or_else_Some)
  then show ?case
  proof cases
    case 1
    from 6(1) [OF this] obtain u t where "s = (u @ [CHR ''/'']) @ t" "list_all dot_char u" "ends_at b r t" by auto
    then show ?thesis using ends_at_Cons [of "u @ [CHR ''/'']" G_directories b r t] by simp
  next
    case 2
    from 6(2) [OF this] ends_at_Cons [of "[]" G_directories b r s] show ?thesis by simp
  qed
next
  case (7 r s)
  then obtain d s' where s: "s = d # s'" by (cases s) (auto simp: glob_dirs.simps [of r])
  with 7(3) consider "dot_char d" "glob_dirs r s' = Some b" | "d = CHR ''/''" "glob_match r s' = Some b"
    by (auto simp: glob_dirs.simps [of r "d # s'"] or_else_Some split: if_splits)
  then show ?case
  proof cases
    case 1
    with 7(1) [OF s] obtain u t where "s = (d # u) @ CHR ''/'' # t" "list_all dot_char (d # u)" "ends_at b r t"
      using s by auto
    then show ?thesis by blast
  next
    case 2
    with 7(2) [OF s] show ?thesis using s by (intro exI [of _ "[]"] exI [of _ s']) simp
  qed
qed

lemma glob_search_ends_at:
  "glob_search r s = Some b \<Longrightarrow> \<exists>u t. s = u @ CHR ''/'' # t \<and> ends_at b r t"
proof (induction r s rule: glob_search.induct)
  case (1 r)
  then show ?case using glob_match_ends_at(2) by fastforce
next
  case (2 r c s)
  then consider "glob_dirs r (c # s) = Some b" | "glob_search r s = Some b" by (auto simp: or_else_Some)
  then show ?case
  proof cases
    case 1
    then show ?thesis using glob_match_ends_at(2) by blast
  next
    case 2
    then show ?thesis using "2.IH" by (metis append_Cons)
  qed
qed

lemma glob_exec_ends_at:
  assumes "glob_exec g s = Some b"
  shows "\<exists>pre t. s = pre @ t \<and> component_start (cg_anchored g) pre \<and> ends_at b (cg_body g) t"
proof -
  have "glob_match (cg_body g) s = Some b \<or> \<not> cg_anchored g \<and> glob_search (cg_body g) s = Some b"
    using assms by (auto simp: glob_exec_def or_else_Some split: if_splits)
  then consider "ends_at b (cg_body g) s" | u t where "\<not> cg_anchored g" "s = (u @ [CHR ''/'']) @ t" "ends_at b (cg_body g) t"
    using glob_match_ends_at(1) glob_search_ends_at by fastforce
  then show ?thesis
  proof cases
    case 1
    then show ?thesis by (intro exI [of _ "[]"] exI [of _ s]) (simp add: component_start_def)
  next
    case 2
    then show ?thesis by (intro exI [of _ "u @ [CHR ''/'']"] exI [of _ t]) (simp add: component_start_def)
  qed
qed

text \<open>
  A rule with a trailing slash is about directories: when it applies to a file or a link,
  the pattern describes a directory strictly above that entry, never the entry itself.
\<close>

theorem directory_rule_needs_directory:
  assumes "rule_applies rule path kind" and "cg_directoryOnly (cr_glob rule)" and "kind \<noteq> Directory_entry"
  shows "\<exists>pre p q. path = pre @ p @ CHR ''/'' # q \<and> component_start (cg_anchored (cr_glob rule)) pre \<and>
     p \<in> body_lang (cg_body (cr_glob rule))"
proof -
  have "glob_exec (cr_glob rule) path = Some False"
    using assms by (auto simp: rule_applies_def split: option.splits)
  from glob_exec_ends_at [OF this] obtain pre p q where
    "path = pre @ p @ q" "component_start (cg_anchored (cr_glob rule)) pre" "p \<in> body_lang (cg_body (cr_glob rule))"
    "q \<noteq> []" "hd q = CHR ''/''" by (auto simp: ends_at_def)
  then show ?thesis by (metis list.exhaust_sel)
qed

theorem directory_rule_needs_directory_witness:
  "\<exists>pre p q. ''x/out/a'' = pre @ p @ CHR ''/'' # q \<and> component_start False pre \<and> p \<in> body_lang (map G_char ''out'')"
proof -
  let ?r = "hd (ep_rules (sample_policy [''out/'']))"
  have "rule_applies ?r ''x/out/a'' File_entry" "cg_directoryOnly (cr_glob ?r)"
    "cg_anchored (cr_glob ?r) = False" "cg_body (cr_glob ?r) = map G_char ''out''" by code_simp+
  with directory_rule_needs_directory [of ?r "''x/out/a''" File_entry] show ?thesis by simp
qed

text \<open>
  The converse fails: the rule \<^verbatim>\<open>out/\<close> keeps out \<^verbatim>\<open>x/out/a\<close> and \<^verbatim>\<open>out/out\<close>, but the file \<^verbatim>\<open>x/out/out\<close>
  inside the same directory stays in, since the greedy expression prefers the match that ends
  with the path, and only that match is tested.
\<close>

theorem directory_rule_misses_namesake:
  "policy_decide (\<lambda>s. s) (map ascii_lower) (sample_policy [''out/'']) ''x/out/out'' File_entry = Inr not_excluded \<and>
   governs (compileGlob ''out/'') ''x/out'' \<and>
   policy_decide (\<lambda>s. s) (map ascii_lower) (sample_policy [''out/'']) ''x/out/a'' File_entry =
     Inr (user_decision (ep_rules (sample_policy [''out/''])) 0) \<and>
   policy_decide (\<lambda>s. s) (map ascii_lower) (sample_policy [''out/'']) ''out/out'' File_entry =
     Inr (user_decision (ep_rules (sample_policy [''out/''])) 0)"
proof (intro conjI)
  have "glob_exec (compileGlob ''out/'') ''x/out'' \<noteq> None" by code_simp
  then show "governs (compileGlob ''out/'') ''x/out''" by (simp only: glob_exec_iff)
qed code_simp+

section \<open>Secrets\<close>

text \<open>
  A credential that a validator accepts is found in a file: if it is at least 28 characters
  long (20 for its opaque part), stands at the start or behind a character that cannot belong
  to it, and the file is text of at most two mebibytes, then the content is reported as a
  secret.
\<close>

theorem credential_in_file_detected:
  assumes "credentialPattern families v" and "28 \<le> length v"
    and "decode content = before @ v @ behind" and "before = [] \<or> \<not> token_char (last before)"
    and "int (length content) \<le> 2097152" and "0 \<notin> set content"
  shows "detectHighConfidenceSecret decode content \<noteq> None"
proof -
  obtain b f infx lo hi suffix where v: "b \<in> set credential_brands"
    "credential_grammar f = (infx, lo, hi)" "v = opening_of b infx @ ''_'' @ suffix" "lo \<le> length suffix" "list_all token_char suffix"
    using assms(1) by (rule credentialPatternE)
  have "length b = 4" using v(1) by (auto simp: credential_brands_def compat_credential_brand_def)
  then have "20 \<le> length suffix" using v(2,3,4) assms(2) by (cases f) (auto simp: opening_of_def)
  then have run: "opening_run service_openings 20 (v @ behind)"
    using opening_runI [OF _ v(5), of "opening_of b infx" service_openings 20 behind] opening_listed [OF v(1), of f] v(2,3)
    by (simp add: service_openings_def)
  have "service_token (before @ v @ behind)"
  proof (cases before rule: rev_cases)
    case Nil
    with run show ?thesis by (simp add: service_token_def boundary_then_def)
  next
    case (snoc us c)
    with assms(4) have "\<not> token_char c" by simp
    with run have "somewhere (\<lambda>t. case t of [] \<Rightarrow> False | c # r \<Rightarrow> \<not> token_char c \<and> opening_run service_openings 20 r) (us @ [c] @ v @ behind)"
      unfolding somewhere_iff by (intro exI [of _ us] exI [of _ "c # v @ behind"]) simp
    then show ?thesis using snoc by (simp add: service_token_def boundary_then_def)
  qed
  with assms(3,5,6) show ?thesis by (simp add: detectHighConfidenceSecret_def Let_def)
qed

definition ascii_decode :: "byte list \<Rightarrow> string" where
  "ascii_decode bs = map (\<lambda>b. char_of (unat b)) bs"

theorem credential_in_file_detected_witness:
  "detectHighConfidenceSecret ascii_decode (utf8_bytes ''k=cuna_sk_0123456789abcdefghij'') \<noteq> None"
proof (rule credential_in_file_detected)
  show "credentialPattern [SecretKey] ''cuna_sk_0123456789abcdefghij''" by code_simp
  show "28 \<le> length ''cuna_sk_0123456789abcdefghij''" by simp
  show "ascii_decode (utf8_bytes ''k=cuna_sk_0123456789abcdefghij'') = ''k='' @ ''cuna_sk_0123456789abcdefghij'' @ []"
    by code_simp
  show "''k='' = [] \<or> \<not> token_char (last ''k='')" by code_simp
  show "int (length (utf8_bytes ''k=cuna_sk_0123456789abcdefghij'')) \<le> 2097152" by code_simp
  show "0 \<notin> set (utf8_bytes ''k=cuna_sk_0123456789abcdefghij'')" by code_simp
qed

text \<open>
  The length bound is needed: an API key with an opaque part of 16 characters is accepted
  by \<^verbatim>\<open>isSecretApiKey\<close>, yet a file that holds nothing else passes the detector of secrets.
\<close>

theorem short_key_undetected:
  "isSecretApiKey ''cuna_sk_0123456789abcdef'' \<and>
   detectHighConfidenceSecret ascii_decode (utf8_bytes ''cuna_sk_0123456789abcdef'') = None"
  by code_simp

end
