(* ===== verification/Sync_Protocol.thy ===== *)
theory Sync_Protocol
  imports Workspace_Paths Json Base64url
begin

text \<open>
  The wire contract of workspace synchronization, \<^verbatim>\<open>src/sync/workspace-sync-protocol.ts\<close>, with the
  manifest of \<^verbatim>\<open>src/workspace/manifest.ts\<close> that it carries: the entries, the root of a manifest,
  the cutting of a manifest into pages, and the decoders of the responses. The record
  \<open>sync_env\<close> holds what is not in the repository: NFC, whether \<^verbatim>\<open>Date.parse\<close> gives a finite
  number, and the hexadecimal SHA-256.
\<close>

record sync_env =
  se_nfc :: "string \<Rightarrow> string"
  se_date :: "string \<Rightarrow> bool"
  se_sha :: "byte list \<Rightarrow> string"

section \<open>Manifests\<close>

record content_chunk =
  cc_index :: int
  cc_byteLength :: int
  cc_digest :: string

datatype manifest_kind = M_directory | M_file | M_symlink

record manifest_entry =
  me_path :: string
  me_kind :: manifest_kind
  me_byteLength :: int
  me_executable :: bool
  me_contentDigest :: "string option"
  me_chunks :: "content_chunk list option"
  me_linkTarget :: "string option"

record workspace_manifest =
  wm_policyDigest :: string
  wm_manifestRoot :: string
  wm_entryCount :: int
  wm_totalBytes :: int
  wm_entries :: "manifest_entry list"

fun kind_text :: "manifest_kind \<Rightarrow> string" where
  "kind_text M_directory = ''directory''"
| "kind_text M_file = ''file''"
| "kind_text M_symlink = ''symlink''"

definition json_string_or_null :: "string option \<Rightarrow> json" where
  "json_string_or_null v = (case v of None \<Rightarrow> JNull | Some s \<Rightarrow> JStr s)"

definition root_entry_json :: "manifest_entry \<Rightarrow> json" where
  "root_entry_json e = JObj [(''path'', JStr (me_path e)), (''kind'', JStr (kind_text (me_kind e))),
     (''byte_length'', JNum (JInt (if me_kind e = M_symlink then 0 else me_byteLength e))),
     (''executable'', JBool (me_executable e)),
     (''chunks'', JArr (map (\<lambda>c. JObj [(''digest'', JStr (cc_digest c)), (''byte_length'', JNum (JInt (cc_byteLength c)))])
        (case me_chunks e of None \<Rightarrow> [] | Some cs \<Rightarrow> cs))),
     (''link_target'', json_string_or_null (me_linkTarget e))]"

text \<open>\<^verbatim>\<open>Buffer.compare\<close> of the UTF-8 bytes is the lexicographic order of the code units.\<close>

fun path_le :: "string \<Rightarrow> string \<Rightarrow> bool" where
  "path_le [] _ = True"
| "path_le (_ # _) [] = False"
| "path_le (a # s) (b # t) = ((of_char a :: nat) < of_char b \<or> a = b \<and> path_le s t)"

lemma path_le_code [code]:
  "path_le [] t = True"
  "path_le (a # s) [] = False"
  "path_le (a # s) (b # t) = ((of_char a :: int) < of_char b \<or> a = b \<and> path_le s t)"
  by (simp_all add: of_char_less_int)

fun insert_by_path :: "('a \<Rightarrow> string) \<Rightarrow> 'a \<Rightarrow> 'a list \<Rightarrow> 'a list" where
  "insert_by_path f x [] = [x]"
| "insert_by_path f x (y # ys) = (if path_le (f x) (f y) then x # y # ys else y # insert_by_path f x ys)"

definition sort_by_path :: "('a \<Rightarrow> string) \<Rightarrow> 'a list \<Rightarrow> 'a list" where
  "sort_by_path f xs = foldr (insert_by_path f) xs []"

definition publicProtocolManifestRoot :: "sync_env \<Rightarrow> manifest_entry list \<Rightarrow> string" where
  "publicProtocolManifestRoot env entries =
     se_sha env (utf8_bytes (concat (map snd (sort_by_path fst
       (map (\<lambda>e. (me_path e, se_sha env (utf8_bytes (json_stringify (root_entry_json e))))) entries)))))"

definition carriedCollision :: cuna_error where
  "carriedCollision = workspaceError ''portability_conflict'' Conflict ''carried_path_collision''"

fun carried_clash :: "string set \<Rightarrow> manifest_entry list \<Rightarrow> bool" where
  "carried_clash held [] = False"
| "carried_clash held (e # es) = (me_path e \<in> held \<or> carried_clash (insert (me_path e) held) es)"

definition withCarriedEntries :: "sync_env \<Rightarrow> workspace_manifest \<Rightarrow> manifest_entry list \<Rightarrow> cuna_error + workspace_manifest" where
  "withCarriedEntries env m carried =
     (if carried = [] then Inr m
      else if carried_clash (set (map me_path (wm_entries m))) carried then Inl carriedCollision
      else let entries = sort_by_path me_path (wm_entries m @ carried) in
        Inr (m\<lparr>wm_manifestRoot := publicProtocolManifestRoot env entries,
               wm_entryCount := int (length entries),
               wm_totalBytes := wm_totalBytes m + sum_list (map (\<lambda>e. if me_kind e = M_file then me_byteLength e else 0) carried),
               wm_entries := entries\<rparr>))"

section \<open>Constants and messages\<close>

definition protocol_minimum :: int where "protocol_minimum = 1"
definition protocol_maximum :: int where "protocol_maximum = 2"

definition workspace_sync_capabilities :: "string list" where
  "workspace_sync_capabilities = [''atomic_generation_commit'', ''bounded_manifest_pages'', ''content_digest_verification'',
     ''explicit_reconciliation'', ''ordered_generation_changes'', ''policy_bound_admission'']"

definition manifest_page_bytes :: int where "manifest_page_bytes = 4 * 1024 * 1024"
definition manifest_page_entries :: int where "manifest_page_entries = 4096"
definition manifest_pages :: int where "manifest_pages = 256"
definition chunk_bytes :: int where "chunk_bytes = 8 * 1024 * 1024"
definition concurrent_chunk_uploads :: int where "concurrent_chunk_uploads = 8"
definition change_page_entries :: int where "change_page_entries = 1000"

record wire_chunk =
  wc_digest :: string
  wc_byte_length :: int

record wire_entry =
  we_path :: string
  we_kind :: manifest_kind
  we_byte_length :: int
  we_executable :: bool
  we_chunks :: "wire_chunk list"
  we_link_target :: "string option"

record manifest_page =
  mp_page_index :: int
  mp_is_last :: bool
  mp_minimum_reader :: int
  mp_minimum_writer :: int
  mp_entries :: "wire_entry list"

definition protocolFailure :: "string \<Rightarrow> cuna_error" where
  "protocolFailure reason = \<lparr>ce_code = ''cuna.workspace_sync.contract_mismatch'', ce_exitCode = Exit_remote,
     ce_hint = None, ce_retryable = False, ce_reason = Some reason\<rparr>"

definition malformed :: "string \<Rightarrow> cuna_error" where
  "malformed label = protocolFailure (''malformed_'' @ map (\<lambda>c. if c = CHR '' '' then CHR ''_'' else c) label)"

section \<open>Checks of values\<close>

definition boundedInteger :: "json option \<Rightarrow> int \<Rightarrow> int \<Rightarrow> string \<Rightarrow> cuna_error + int" where
  "boundedInteger v lo hi label = (case json_int v of
     Some i \<Rightarrow> if lo \<le> i \<and> i \<le> hi then Inr i else Inl (malformed label) | None \<Rightarrow> Inl (malformed label))"

definition positive :: "json option \<Rightarrow> string \<Rightarrow> cuna_error + int" where
  "positive v label = boundedInteger v 1 max_safe_integer label"

definition nonnegative :: "json option \<Rightarrow> string \<Rightarrow> cuna_error + int" where
  "nonnegative v label = boundedInteger v 0 max_safe_integer label"

definition text_where :: "(string \<Rightarrow> bool) \<Rightarrow> json option \<Rightarrow> cuna_error \<Rightarrow> cuna_error + string" where
  "text_where P v e = (case v of Some (JStr s) \<Rightarrow> if P s then Inr s else Inl e | _ \<Rightarrow> Inl e)"

definition uuid :: "json option \<Rightarrow> string \<Rightarrow> cuna_error + string" where
  "uuid v label = text_where uuid_text v (malformed label)"

definition assertDigest :: "json option \<Rightarrow> string \<Rightarrow> cuna_error + string" where
  "assertDigest v label = text_where is_sha256_hex v (malformed label)"

definition dateTime :: "sync_env \<Rightarrow> json option \<Rightarrow> string \<Rightarrow> cuna_error + string" where
  "dateTime env v label = text_where (se_date env) v (malformed label)"

definition protocol :: "json option \<Rightarrow> cuna_error + int" where
  "protocol v = (case json_int v of Some i \<Rightarrow> if i = 1 \<or> i = 2 then Inr i else Inl (protocolFailure ''protocol_mismatch'')
     | None \<Rightarrow> Inl (protocolFailure ''protocol_mismatch''))"

definition containsAsciiControl :: "string \<Rightarrow> bool" where
  "containsAsciiControl s = list_ex (\<lambda>c. (of_char c :: nat) \<le> 31 \<or> (of_char c :: nat) = 127) s"

text \<open>\<^verbatim>\<open>/^(?:con|prn|aux|nul|com[1-9]|lpt[1-9])(?:\.|$)/iu\<close>.\<close>

definition device_component :: "string \<Rightarrow> bool" where
  "device_component s \<longleftrightarrow> (let l = map ascii_lower s in
     list_ex (\<lambda>d. take (length d) l = d \<and> (case drop (length d) l of [] \<Rightarrow> True | c # _ \<Rightarrow> c = CHR ''.'')) windows_devices)"

definition wire_component_ok :: "string \<Rightarrow> bool" where
  "wire_component_ok c \<longleftrightarrow> c \<noteq> [] \<and> c \<noteq> ''.'' \<and> c \<noteq> ''..'' \<and> \<not> ends_with CHR ''.'' c \<and> \<not> ends_with CHR '' '' c \<and>
     utf8_length c \<le> 255 \<and> \<not> device_component c"

definition rooted :: "string \<Rightarrow> bool" where
  "rooted s \<longleftrightarrow> (case s of [] \<Rightarrow> False | c # _ \<Rightarrow> c = CHR ''/'' \<or> c = CHR 0x5C) \<or> CHR 0x5C \<in> set s \<or> has_drive_prefix s"

definition wire_path_ok :: "sync_env \<Rightarrow> string \<Rightarrow> bool" where
  "wire_path_ok env s \<longleftrightarrow> s \<noteq> [] \<and> se_nfc env s = s \<and> int (utf8_length s) \<le> 4096 \<and> \<not> rooted s \<and>
     \<not> containsAsciiControl s \<and> length (split_on CHR ''/'' s) \<le> 256 \<and> list_all wire_component_ok (split_on CHR ''/'' s)"

definition assertWirePath :: "sync_env \<Rightarrow> json option \<Rightarrow> cuna_error + string" where
  "assertWirePath env v = text_where (wire_path_ok env) v (protocolFailure ''malformed_workspace_path'')"

text \<open>The walk of a link target from the directory of its entry; \<open>base\<close> is the innermost component first.\<close>

fun link_walk :: "string list \<Rightarrow> string list \<Rightarrow> string list option" where
  "link_walk base [] = Some base"
| "link_walk base (c # cs) =
     (if c = [] \<or> c = ''.'' then link_walk base cs
      else if c = ''..'' then (case base of [] \<Rightarrow> None | _ # base' \<Rightarrow> link_walk base' cs)
      else link_walk (c # base) cs)"

definition assertSafeLinkTarget :: "sync_env \<Rightarrow> json option \<Rightarrow> string \<Rightarrow> cuna_error + unit" where
  "assertSafeLinkTarget env path target =
     try_bind (assertWirePath env path) (\<lambda>wirePath.
       if target = [] \<or> se_nfc env target \<noteq> target \<or> rooted target \<or> containsAsciiControl target \<or> int (utf8_length target) > 4096
       then Inl (protocolFailure ''malformed_link_target'')
       else case link_walk (rev (butlast (split_on CHR ''/'' wirePath))) (split_on CHR ''/'' target) of
         None \<Rightarrow> Inl (protocolFailure ''malformed_link_target'') | Some _ \<Rightarrow> Inr ())"

section \<open>Pages\<close>

fun map_try :: "('a \<Rightarrow> 'e + 'b) \<Rightarrow> 'a list \<Rightarrow> 'e + 'b list" where
  "map_try f [] = Inr []"
| "map_try f (x # xs) = try_bind (f x) (\<lambda>y. try_bind (map_try f xs) (\<lambda>ys. Inr (y # ys)))"

definition wire_chunk_of :: "content_chunk \<Rightarrow> cuna_error + wire_chunk" where
  "wire_chunk_of c =
     try_bind (assertDigest (Some (JStr (cc_digest c))) ''manifest chunk digest'') (\<lambda>d.
     try_bind (boundedInteger (Some (JNum (JInt (cc_byteLength c)))) 0 chunk_bytes ''chunk length'') (\<lambda>n.
       Inr \<lparr>wc_digest = d, wc_byte_length = n\<rparr>))"

definition manifestEntryForPublicProtocol :: "sync_env \<Rightarrow> manifest_entry \<Rightarrow> cuna_error + wire_entry" where
  "manifestEntryForPublicProtocol env e =
     try_bind (assertWirePath env (Some (JStr (me_path e)))) (\<lambda>path.
     try_bind (map_try wire_chunk_of (case me_chunks e of None \<Rightarrow> [] | Some cs \<Rightarrow> cs)) (\<lambda>chunks.
       Inr \<lparr>we_path = path, we_kind = me_kind e,
            we_byte_length = (if me_kind e = M_symlink then 0 else me_byteLength e),
            we_executable = me_executable e, we_chunks = chunks, we_link_target = me_linkTarget e\<rparr>))"

definition wire_entry_json :: "wire_entry \<Rightarrow> json" where
  "wire_entry_json e = JObj [(''path'', JStr (we_path e)), (''kind'', JStr (kind_text (we_kind e))),
     (''byte_length'', JNum (JInt (we_byte_length e))), (''executable'', JBool (we_executable e)),
     (''chunks'', JArr (map (\<lambda>c. JObj [(''digest'', JStr (wc_digest c)), (''byte_length'', JNum (JInt (wc_byte_length c)))]) (we_chunks e))),
     (''link_target'', json_string_or_null (we_link_target e))]"

definition manifest_page_json :: "manifest_page \<Rightarrow> json" where
  "manifest_page_json p = JObj [(''page_index'', JNum (JInt (mp_page_index p))), (''is_last'', JBool (mp_is_last p)),
     (''minimum_reader'', JNum (JInt (mp_minimum_reader p))), (''minimum_writer'', JNum (JInt (mp_minimum_writer p))),
     (''entries'', JArr (map wire_entry_json (mp_entries p)))]"

definition freezeManifestPage :: "int \<Rightarrow> bool \<Rightarrow> wire_entry list \<Rightarrow> manifest_page" where
  "freezeManifestPage i l es = \<lparr>mp_page_index = i, mp_is_last = l, mp_minimum_reader = 1, mp_minimum_writer = 1, mp_entries = es\<rparr>"

definition encodedManifestPageBytes :: "int \<Rightarrow> bool \<Rightarrow> wire_entry list \<Rightarrow> int" where
  "encodedManifestPageBytes i l es = int (utf8_length (json_stringify (manifest_page_json (freezeManifestPage i l es))))"

text \<open>
  The generator yields pages until it returns or throws; a run of it is the list of the pages
  and the failure, if any, that follows them.
\<close>

fun pages_loop :: "sync_env \<Rightarrow> int \<Rightarrow> int \<Rightarrow> wire_entry list \<Rightarrow> manifest_entry list \<Rightarrow> manifest_page list \<times> cuna_error option" where
  "pages_loop env maximumEntries pageIndex buffered [] =
     (if pageIndex \<ge> manifest_pages then ([], Some (protocolFailure ''too_many_manifest_pages''))
      else ([freezeManifestPage pageIndex True buffered], None))"
| "pages_loop env maximumEntries pageIndex buffered (e # es) =
     (case manifestEntryForPublicProtocol env e of
        Inl f \<Rightarrow> ([], Some f)
      | Inr candidate \<Rightarrow>
          if int (length (buffered @ [candidate])) > maximumEntries \<or>
             encodedManifestPageBytes pageIndex False (buffered @ [candidate]) > manifest_page_bytes
          then if buffered = [] then ([], Some (protocolFailure ''manifest_entry_too_large''))
               else if pageIndex \<ge> manifest_pages then ([], Some (protocolFailure ''too_many_manifest_pages''))
               else let rest = (if encodedManifestPageBytes (pageIndex + 1) True [candidate] > manifest_page_bytes
                                then ([], Some (protocolFailure ''manifest_entry_too_large''))
                                else pages_loop env maximumEntries (pageIndex + 1) [candidate] es)
                    in (freezeManifestPage pageIndex False buffered # fst rest, snd rest)
          else pages_loop env maximumEntries pageIndex (buffered @ [candidate]) es)"

definition iterateWorkspaceManifestPages :: "sync_env \<Rightarrow> manifest_entry list \<Rightarrow> int \<Rightarrow> manifest_page list \<times> cuna_error option" where
  "iterateWorkspaceManifestPages env entries maximumEntries =
     (case boundedInteger (Some (JNum (JInt maximumEntries))) 1 manifest_page_entries ''manifest page limit'' of
        Inl f \<Rightarrow> ([], Some f)
      | Inr _ \<Rightarrow> if entries = [] then ([freezeManifestPage 0 True []], None)
                 else pages_loop env maximumEntries 0 [] entries)"

section \<open>Responses\<close>

definition exactObject :: "json \<Rightarrow> string list \<Rightarrow> cuna_error + (string \<times> json) list" where
  "exactObject v allowed = (case v of
     JObj props \<Rightarrow>
       if list_ex (\<lambda>(k, _). k \<notin> set allowed) props \<or>
          list_ex (\<lambda>k. k \<notin> fst ` set props \<and>
            k \<notin> {''last_page_index'', ''committed_generation'', ''committed_manifest_root''}) allowed
       then Inl (protocolFailure ''malformed_response'') else Inr props
   | _ \<Rightarrow> Inl (protocolFailure ''malformed_response''))"

definition capabilities :: "json option \<Rightarrow> cuna_error + unit" where
  "capabilities v = (if v = Some (JArr (map JStr workspace_sync_capabilities)) then Inr ()
     else Inl (protocolFailure ''capability_vector_mismatch''))"

datatype sync_session_state = Ss_staging | Ss_committed | Ss_conflicted | Ss_expired

definition enumValue :: "json option \<Rightarrow> (string \<times> 'a) list \<Rightarrow> string \<Rightarrow> cuna_error + 'a" where
  "enumValue v table label = (case v of Some (JStr s) \<Rightarrow>
       (case map_of table s of Some x \<Rightarrow> Inr x | None \<Rightarrow> Inl (malformed label)) | _ \<Rightarrow> Inl (malformed label))"

definition if_present :: "json option \<Rightarrow> (json option \<Rightarrow> cuna_error + 'a) \<Rightarrow> cuna_error + 'a option" where
  "if_present v f = (if v = None then Inr None else try_bind (f v) (\<lambda>x. Inr (Some x)))"

record sync_session =
  sy_id :: string
  sy_workspace_id :: string
  sy_machine_id :: string
  sy_base_generation :: int
  sy_exclusion_policy_digest :: string
  sy_selected_protocol :: int
  sy_state :: sync_session_state
  sy_last_page_index :: "int option"
  sy_committed_generation :: "int option"
  sy_committed_manifest_root :: "string option"
  sy_expires_at :: string

definition session_states :: "(string \<times> sync_session_state) list" where
  "session_states = [(''staging'', Ss_staging), (''committed'', Ss_committed), (''conflicted'', Ss_conflicted), (''expired'', Ss_expired)]"

definition decodeWorkspaceSyncSession :: "sync_env \<Rightarrow> json \<Rightarrow> cuna_error + sync_session" where
  "decodeWorkspaceSyncSession env v =
     try_bind (exactObject v [''id'', ''workspace_id'', ''machine_id'', ''base_generation'', ''exclusion_policy_digest'',
       ''selected_protocol'', ''capabilities'', ''state'', ''manifest_entry_count'', ''manifest_encoded_bytes'',
       ''content_bytes'', ''last_page_index'', ''committed_generation'', ''committed_manifest_root'',
       ''expires_at'', ''created_at'', ''updated_at'']) (\<lambda>props. let source = map_of props in
     try_bind (uuid (source ''id'') ''sync ID'') (\<lambda>i.
     try_bind (uuid (source ''workspace_id'') ''workspace ID'') (\<lambda>w.
     try_bind (uuid (source ''machine_id'') ''machine ID'') (\<lambda>m.
     try_bind (nonnegative (source ''base_generation'') ''base generation'') (\<lambda>g.
     try_bind (assertDigest (source ''exclusion_policy_digest'') ''policy digest'') (\<lambda>d.
     try_bind (protocol (source ''selected_protocol'')) (\<lambda>p.
     try_bind (enumValue (source ''state'') session_states ''sync state'') (\<lambda>s.
     try_bind (if_present (source ''last_page_index'') (\<lambda>x. nonnegative x ''last page'')) (\<lambda>l.
     try_bind (if_present (source ''committed_generation'') (\<lambda>x. positive x ''committed generation'')) (\<lambda>cg.
     try_bind (if_present (source ''committed_manifest_root'') (\<lambda>x. assertDigest x ''committed root'')) (\<lambda>cr.
     try_bind (dateTime env (source ''expires_at'') ''expiry'') (\<lambda>ex.
     try_bind (capabilities (source ''capabilities'')) (\<lambda>_.
     try_bind (nonnegative (source ''manifest_entry_count'') ''manifest entry count'') (\<lambda>_.
     try_bind (nonnegative (source ''manifest_encoded_bytes'') ''manifest encoded bytes'') (\<lambda>_.
     try_bind (nonnegative (source ''content_bytes'') ''content bytes'') (\<lambda>_.
     try_bind (dateTime env (source ''created_at'') ''created time'') (\<lambda>_.
     try_bind (dateTime env (source ''updated_at'') ''updated time'') (\<lambda>_.
       Inr \<lparr>sy_id = i, sy_workspace_id = w, sy_machine_id = m, sy_base_generation = g, sy_exclusion_policy_digest = d,
            sy_selected_protocol = p, sy_state = s, sy_last_page_index = l, sy_committed_generation = cg,
            sy_committed_manifest_root = cr, sy_expires_at = ex\<rparr>))))))))))))))))))"

record manifest_receipt =
  mr_sync :: sync_session
  mr_page_index :: int
  mr_page_digest :: string
  mr_missing_digests :: "string list"

definition decodeManifestReceipt :: "sync_env \<Rightarrow> json \<Rightarrow> cuna_error + manifest_receipt" where
  "decodeManifestReceipt env v =
     try_bind (exactObject v [''sync'', ''page_index'', ''page_digest'', ''missing_digests'']) (\<lambda>props. let source = map_of props in
     case source ''missing_digests'' of
       Some (JArr ds) \<Rightarrow>
         if int (length ds) > 1000000 then Inl (protocolFailure ''malformed_missing_digests'') else
         try_bind (decodeWorkspaceSyncSession env (the (source ''sync''))) (\<lambda>s.
         try_bind (nonnegative (source ''page_index'') ''page index'') (\<lambda>i.
         try_bind (assertDigest (source ''page_digest'') ''page digest'') (\<lambda>d.
         try_bind (map_try (\<lambda>x. assertDigest (Some x) ''missing digest'') ds) (\<lambda>m.
           Inr \<lparr>mr_sync = s, mr_page_index = i, mr_page_digest = d, mr_missing_digests = m\<rparr>))))
     | _ \<Rightarrow> Inl (protocolFailure ''malformed_missing_digests''))"

record chunk_receipt =
  cp_selected_protocol :: int
  cp_digest :: string
  cp_byte_length :: int
  cp_stored :: bool

definition decodeChunkReceipt :: "json \<Rightarrow> cuna_error + chunk_receipt" where
  "decodeChunkReceipt v =
     try_bind (exactObject v [''selected_protocol'', ''digest'', ''byte_length'', ''stored'']) (\<lambda>props. let source = map_of props in
     case source ''stored'' of
       Some (JBool st) \<Rightarrow>
         try_bind (protocol (source ''selected_protocol'')) (\<lambda>p.
         try_bind (assertDigest (source ''digest'') ''chunk digest'') (\<lambda>d.
         try_bind (boundedInteger (source ''byte_length'') 0 chunk_bytes ''chunk length'') (\<lambda>n.
           Inr \<lparr>cp_selected_protocol = p, cp_digest = d, cp_byte_length = n, cp_stored = st\<rparr>)))
     | _ \<Rightarrow> Inl (protocolFailure ''malformed_chunk_receipt''))"

text \<open>
  \<^verbatim>\<open>Buffer.toString("base64")\<close> and \<^verbatim>\<open>Buffer.from(text, "base64")\<close> on a text of the regular expression of
  the source: the alphabet of base64url with two characters exchanged, and padding.
\<close>

definition from_url_char :: "char \<Rightarrow> char" where
  "from_url_char c = (if c = CHR ''-'' then CHR ''+'' else if c = CHR ''_'' then CHR ''/'' else c)"

definition to_url_char :: "char \<Rightarrow> char" where
  "to_url_char c = (if c = CHR ''+'' then CHR ''-'' else if c = CHR ''/'' then CHR ''_'' else c)"

definition base64_encode :: "byte list \<Rightarrow> string" where
  "base64_encode bs = (let s = map from_url_char (base64url_encode bs) in
     s @ (if length s mod 4 = 2 then ''=='' else if length s mod 4 = 3 then ''='' else []))"

definition base64_body :: "string \<Rightarrow> string" where
  "base64_body s = (if ends_with CHR ''='' s then (if ends_with CHR ''='' (butlast s) then butlast (butlast s) else butlast s) else s)"

definition base64_decode :: "string \<Rightarrow> byte list" where
  "base64_decode s = base64url_decode (map to_url_char (base64_body s))"

definition base64_text :: "string \<Rightarrow> bool" where
  "base64_text s \<longleftrightarrow> length s mod 4 = 0 \<and> list_all (\<lambda>c. is_base64url_char (to_url_char c) \<and> c \<noteq> CHR ''-'' \<and> c \<noteq> CHR ''_'') (base64_body s)"

record chunk_content =
  ct_selected_protocol :: int
  ct_digest :: string
  ct_byte_length :: int
  ct_minimum_reader :: int
  ct_content_base64 :: string

definition decodeChunkContent :: "sync_env \<Rightarrow> json \<Rightarrow> cuna_error + chunk_content" where
  "decodeChunkContent env v =
     try_bind (exactObject v [''selected_protocol'', ''digest'', ''byte_length'', ''minimum_reader'', ''content_base64''])
       (\<lambda>props. let source = map_of props in
     case source ''content_base64'' of
       Some (JStr t) \<Rightarrow>
         if int (length t) > 11184812 \<or> \<not> base64_text t then Inl (protocolFailure ''malformed_chunk_content'')
         else let bytes = base64_decode t in
         try_bind (boundedInteger (source ''byte_length'') 0 chunk_bytes ''chunk length'') (\<lambda>n.
         try_bind (assertDigest (source ''digest'') ''chunk digest'') (\<lambda>d.
           if int (length bytes) \<noteq> n \<or> base64_encode bytes \<noteq> t \<or> se_sha env bytes \<noteq> d
           then Inl (protocolFailure ''chunk_content_mismatch'') else
         try_bind (protocol (source ''selected_protocol'')) (\<lambda>p.
         try_bind (boundedInteger (source ''minimum_reader'') 1 protocol_maximum ''minimum reader'') (\<lambda>r.
           Inr \<lparr>ct_selected_protocol = p, ct_digest = d, ct_byte_length = n, ct_minimum_reader = r, ct_content_base64 = t\<rparr>))))
     | _ \<Rightarrow> Inl (protocolFailure ''malformed_chunk_content''))"

record commit_receipt =
  co_selected_protocol :: int
  co_generation :: int
  co_manifest_root :: string
  co_committed_at :: string
  co_minimum_reader :: int
  co_minimum_writer :: int

definition decodeCommitReceipt :: "sync_env \<Rightarrow> json \<Rightarrow> cuna_error + commit_receipt" where
  "decodeCommitReceipt env v =
     try_bind (exactObject v [''selected_protocol'', ''state'', ''generation'', ''manifest_root'', ''committed_at'',
       ''minimum_reader'', ''minimum_writer'']) (\<lambda>props. let source = map_of props in
     if source ''state'' \<noteq> Some (JStr ''committed'') then Inl (protocolFailure ''malformed_commit_receipt'') else
     try_bind (protocol (source ''selected_protocol'')) (\<lambda>p.
     try_bind (positive (source ''generation'') ''generation'') (\<lambda>g.
     try_bind (assertDigest (source ''manifest_root'') ''manifest root'') (\<lambda>r.
     try_bind (dateTime env (source ''committed_at'') ''committed time'') (\<lambda>t.
     try_bind (positive (source ''minimum_reader'') ''minimum reader'') (\<lambda>mr.
     try_bind (positive (source ''minimum_writer'') ''minimum writer'') (\<lambda>mw.
       Inr \<lparr>co_selected_protocol = p, co_generation = g, co_manifest_root = r, co_committed_at = t,
            co_minimum_reader = mr, co_minimum_writer = mw\<rparr>)))))))"

definition decode_wire_chunk :: "json \<Rightarrow> cuna_error + wire_chunk" where
  "decode_wire_chunk v =
     try_bind (exactObject v [''digest'', ''byte_length'']) (\<lambda>props.
     try_bind (assertDigest (map_of props ''digest'') ''chunk digest'') (\<lambda>d.
     try_bind (boundedInteger (map_of props ''byte_length'') 0 chunk_bytes ''chunk length'') (\<lambda>n.
       Inr \<lparr>wc_digest = d, wc_byte_length = n\<rparr>)))"

definition entry_kinds :: "(string \<times> manifest_kind) list" where
  "entry_kinds = [(''directory'', M_directory), (''file'', M_file), (''symlink'', M_symlink)]"

definition entry_shape_ok :: "manifest_kind \<Rightarrow> int \<Rightarrow> bool \<Rightarrow> wire_chunk list \<Rightarrow> string option \<Rightarrow> bool" where
  "entry_shape_ok kind n ex chunks link \<longleftrightarrow> (case kind of
     M_directory \<Rightarrow> n = 0 \<and> \<not> ex \<and> chunks = [] \<and> link = None
   | M_symlink \<Rightarrow> n = 0 \<and> \<not> ex \<and> chunks = [] \<and> link \<noteq> None
   | M_file \<Rightarrow> link = None \<and> chunks \<noteq> [] \<and> sum_list (map wc_byte_length chunks) = n)"

definition link_of :: "json option \<Rightarrow> cuna_error + string option" where
  "link_of v = (case v of Some JNull \<Rightarrow> Inr None | Some (JStr s) \<Rightarrow> Inr (Some s)
     | _ \<Rightarrow> Inl (protocolFailure ''malformed_link_target''))"

definition decodeManifestEntry :: "sync_env \<Rightarrow> json \<Rightarrow> cuna_error + wire_entry" where
  "decodeManifestEntry env v =
     try_bind (exactObject v [''path'', ''kind'', ''byte_length'', ''executable'', ''chunks'', ''link_target''])
       (\<lambda>props. let source = map_of props in
     case (source ''chunks'', source ''executable'') of
       (Some (JArr cs), Some (JBool ex)) \<Rightarrow>
         try_bind (enumValue (source ''kind'') entry_kinds ''entry kind'') (\<lambda>kind.
         try_bind (map_try decode_wire_chunk cs) (\<lambda>chunks.
         try_bind (link_of (source ''link_target'')) (\<lambda>link.
         try_bind (nonnegative (source ''byte_length'') ''entry length'') (\<lambda>n.
           if \<not> entry_shape_ok kind n ex chunks link then Inl (protocolFailure ''malformed_manifest_entry_shape'') else
         try_bind (if kind = M_symlink \<and> link \<noteq> None then assertSafeLinkTarget env (source ''path'') (the link) else Inr ()) (\<lambda>_.
         try_bind (assertWirePath env (source ''path'')) (\<lambda>path.
           Inr \<lparr>we_path = path, we_kind = kind, we_byte_length = n, we_executable = ex, we_chunks = chunks, we_link_target = link\<rparr>))))))
     | _ \<Rightarrow> Inl (protocolFailure ''malformed_manifest_entry''))"

datatype change_operation = Op_revision | Op_upsert | Op_delete

record change_item =
  ch_generation :: int
  ch_operation :: change_operation
  ch_path :: "string option"
  ch_entry :: "wire_entry option"
  ch_manifest_root :: string
  ch_exclusion_policy_digest :: string
  ch_committed_at :: string
  ch_minimum_reader :: int
  ch_minimum_writer :: int

definition nullable :: "json option \<Rightarrow> (json option \<Rightarrow> cuna_error + 'a) \<Rightarrow> cuna_error + 'a option" where
  "nullable v f = (if v = Some JNull then Inr None else try_bind (f v) (\<lambda>x. Inr (Some x)))"

definition change_operations :: "(string \<times> change_operation) list" where
  "change_operations = [(''revision'', Op_revision), (''upsert'', Op_upsert), (''delete'', Op_delete)]"

definition change_shape_ok :: "change_operation \<Rightarrow> string option \<Rightarrow> wire_entry option \<Rightarrow> bool" where
  "change_shape_ok operation path entry \<longleftrightarrow> (case operation of
     Op_revision \<Rightarrow> path = None \<and> entry = None
   | Op_delete \<Rightarrow> path \<noteq> None \<and> entry = None
   | Op_upsert \<Rightarrow> path \<noteq> None \<and> entry \<noteq> None)"

definition decodeChangeItem :: "sync_env \<Rightarrow> json \<Rightarrow> cuna_error + change_item" where
  "decodeChangeItem env v =
     try_bind (exactObject v [''generation'', ''operation'', ''path'', ''entry'', ''manifest_root'', ''exclusion_policy_digest'',
       ''committed_at'', ''minimum_reader'', ''minimum_writer'']) (\<lambda>props. let source = map_of props in
     try_bind (enumValue (source ''operation'') change_operations ''change operation'') (\<lambda>operation.
     try_bind (nullable (source ''path'') (assertWirePath env)) (\<lambda>path.
     try_bind (nullable (source ''entry'') (\<lambda>e. decodeManifestEntry env (the e))) (\<lambda>entry.
       if \<not> change_shape_ok operation path entry then Inl (protocolFailure ''malformed_change_shape'')
       else if entry \<noteq> None \<and> Some (we_path (the entry)) \<noteq> path then Inl (protocolFailure ''change_path_mismatch'') else
     try_bind (positive (source ''minimum_reader'') ''minimum reader'') (\<lambda>mr.
     try_bind (positive (source ''minimum_writer'') ''minimum writer'') (\<lambda>mw.
       if mr > protocol_maximum then Inl (protocolFailure ''reader_version_incompatible'') else
     try_bind (positive (source ''generation'') ''change generation'') (\<lambda>g.
     try_bind (assertDigest (source ''manifest_root'') ''change manifest root'') (\<lambda>r.
     try_bind (assertDigest (source ''exclusion_policy_digest'') ''policy digest'') (\<lambda>d.
     try_bind (dateTime env (source ''committed_at'') ''committed time'') (\<lambda>t.
       Inr \<lparr>ch_generation = g, ch_operation = operation, ch_path = path, ch_entry = entry, ch_manifest_root = r,
            ch_exclusion_policy_digest = d, ch_committed_at = t, ch_minimum_reader = mr, ch_minimum_writer = mw\<rparr>))))))))))"

record change_page =
  cg_selected_protocol :: int
  cg_items :: "change_item list"
  cg_next_cursor :: "string option"

definition decodeChangePage :: "sync_env \<Rightarrow> json \<Rightarrow> cuna_error + change_page" where
  "decodeChangePage env v =
     try_bind (exactObject v [''selected_protocol'', ''items'', ''next_cursor'']) (\<lambda>props. let source = map_of props in
     case source ''items'' of
       Some (JArr items) \<Rightarrow>
         if int (length items) > change_page_entries then Inl (protocolFailure ''malformed_change_page'') else
         try_bind (case source ''next_cursor'' of Some JNull \<Rightarrow> Inr None
             | Some (JStr c) \<Rightarrow> if int (length c) > 1024 then Inl (protocolFailure ''malformed_change_cursor'') else Inr (Some c)
             | _ \<Rightarrow> Inl (protocolFailure ''malformed_change_cursor'')) (\<lambda>cursor.
         try_bind (protocol (source ''selected_protocol'')) (\<lambda>p.
         try_bind (map_try (decodeChangeItem env) items) (\<lambda>xs.
           Inr \<lparr>cg_selected_protocol = p, cg_items = xs, cg_next_cursor = cursor\<rparr>)))
     | _ \<Rightarrow> Inl (protocolFailure ''malformed_change_page''))"

datatype reconcile_status = Converged | Reconciliation_required

record reconcile_receipt =
  re_selected_protocol :: int
  re_status :: reconcile_status
  re_active_generation :: int
  re_active_manifest_root :: string
  re_exclusion_policy_digest :: string

definition decodeReconcileReceipt :: "json \<Rightarrow> cuna_error + reconcile_receipt" where
  "decodeReconcileReceipt v =
     try_bind (exactObject v [''selected_protocol'', ''status'', ''active_generation'', ''active_manifest_root'',
       ''exclusion_policy_digest'']) (\<lambda>props. let source = map_of props in
     try_bind (protocol (source ''selected_protocol'')) (\<lambda>p.
     try_bind (enumValue (source ''status'') [(''converged'', Converged), (''reconciliation_required'', Reconciliation_required)]
       ''reconcile status'') (\<lambda>s.
     try_bind (nonnegative (source ''active_generation'') ''active generation'') (\<lambda>g.
     try_bind (assertDigest (source ''active_manifest_root'') ''active manifest root'') (\<lambda>r.
     try_bind (assertDigest (source ''exclusion_policy_digest'') ''policy digest'') (\<lambda>d.
       Inr \<lparr>re_selected_protocol = p, re_status = s, re_active_generation = g, re_active_manifest_root = r,
            re_exclusion_policy_digest = d\<rparr>))))))"

record 'a envelope =
  ev_request_id :: string
  ev_selected_protocol :: int
  ev_data :: 'a

definition decodeEnvelope :: "json \<Rightarrow> (json \<Rightarrow> cuna_error + 'a) \<Rightarrow> cuna_error + 'a envelope" where
  "decodeEnvelope v decoder =
     try_bind (exactObject v [''request_id'', ''selected_protocol'', ''capabilities'', ''data'']) (\<lambda>props. let source = map_of props in
     try_bind (uuid (source ''request_id'') ''request ID'') (\<lambda>i.
     try_bind (protocol (source ''selected_protocol'')) (\<lambda>p.
     try_bind (capabilities (source ''capabilities'')) (\<lambda>_.
     try_bind (decoder (the (source ''data''))) (\<lambda>x.
       Inr \<lparr>ev_request_id = i, ev_selected_protocol = p, ev_data = x\<rparr>)))))"

section \<open>Paging\<close>

lemma encoded_last: "encodedManifestPageBytes i False es = encodedManifestPageBytes i True es + 1"
  by (simp add: encodedManifestPageBytes_def manifest_page_json_def freezeManifestPage_def utf8_length_def)

definition page_fits :: "int \<Rightarrow> manifest_page \<Rightarrow> bool" where
  "page_fits maximumEntries p \<longleftrightarrow> int (length (mp_entries p)) \<le> maximumEntries \<and>
     encodedManifestPageBytes (mp_page_index p) (mp_is_last p) (mp_entries p) \<le> manifest_page_bytes + (if mp_is_last p then 0 else 1)"

definition pages_numbered :: "int \<Rightarrow> manifest_page list \<Rightarrow> bool" where
  "pages_numbered i ps \<longleftrightarrow> map mp_page_index ps = map (\<lambda>k. i + int k) [0..<length ps] \<and>
     map mp_is_last ps = replicate (length ps - 1) False @ [True]"

lemma pages_numbered_single: "pages_numbered i [freezeManifestPage i True es]"
  by (simp add: pages_numbered_def freezeManifestPage_def)

lemma pages_numbered_Cons:
  assumes "pages_numbered (i + 1) ps" and "ps \<noteq> []"
  shows "pages_numbered i (freezeManifestPage i False es # ps)"
proof -
  have "map (\<lambda>k. i + int k) [0..<Suc (length ps)] = i # map (\<lambda>k. i + 1 + int k) [0..<length ps]"
    by (simp add: upt_conv_Cons map_Suc_upt [symmetric] del: upt_Suc)
  moreover obtain n where "length ps = Suc n" using assms(2) by (cases ps) auto
  ultimately show ?thesis using assms(1) by (simp add: pages_numbered_def freezeManifestPage_def del: upt_Suc)
qed

lemma pages_loop_spec:
  assumes "pages_loop env mx i buf es = (ps, None)" and "int (length buf) \<le> mx" and "1 \<le> mx"
    and "encodedManifestPageBytes i True buf \<le> manifest_page_bytes"
  shows "\<exists>ws. map_try (manifestEntryForPublicProtocol env) es = Inr ws \<and> concat (map mp_entries ps) = buf @ ws \<and>
     pages_numbered i ps \<and> ps \<noteq> [] \<and> i + int (length ps) \<le> manifest_pages \<and> list_all (page_fits mx) ps"
  using assms
proof (induction env mx i buf es arbitrary: ps rule: pages_loop.induct)
  case (1 env mx i buf)
  then have ps: "ps = [freezeManifestPage i True buf]" "i < manifest_pages" by (auto split: if_splits)
  with 1 show ?case
    by (auto simp: pages_numbered_single page_fits_def) (simp_all add: freezeManifestPage_def)
next
  case (2 env mx i buf e es)
  then obtain c where c: "manifestEntryForPublicProtocol env e = Inr c" by (cases "manifestEntryForPublicProtocol env e") auto
  show ?case
  proof (cases "int (length (buf @ [c])) > mx \<or> encodedManifestPageBytes i False (buf @ [c]) > manifest_page_bytes")
    case True
    with 2(3) c obtain ps' where ps: "ps = freezeManifestPage i False buf # ps'" "i < manifest_pages"
      "encodedManifestPageBytes (i + 1) True [c] \<le> manifest_page_bytes" "pages_loop env mx (i + 1) [c] es = (ps', None)" "buf \<noteq> []"
      by (auto simp: Let_def prod_eq_iff split: if_splits)
    have "\<exists>ws. map_try (manifestEntryForPublicProtocol env) es = Inr ws \<and> concat (map mp_entries ps') = [c] @ ws \<and>
        pages_numbered (i + 1) ps' \<and> ps' \<noteq> [] \<and> i + 1 + int (length ps') \<le> manifest_pages \<and> list_all (page_fits mx) ps'"
      using True ps 2(5) by (intro 2(1) [OF c]) auto
    moreover have "page_fits mx (freezeManifestPage i False buf)"
      using 2(4,6) encoded_last [of i buf] by (simp add: page_fits_def freezeManifestPage_def)
    ultimately show ?thesis using c pages_numbered_Cons [of i ps' buf] ps(1) by (auto simp: freezeManifestPage_def)
  next
    case False
    with 2(3) c have "pages_loop env mx i (buf @ [c]) es = (ps, None)" by simp
    moreover from False have "encodedManifestPageBytes i True (buf @ [c]) \<le> manifest_page_bytes"
      using encoded_last [of i "buf @ [c]"] by simp
    ultimately have "\<exists>ws. map_try (manifestEntryForPublicProtocol env) es = Inr ws \<and> concat (map mp_entries ps) = (buf @ [c]) @ ws \<and>
        pages_numbered i ps \<and> ps \<noteq> [] \<and> i + int (length ps) \<le> manifest_pages \<and> list_all (page_fits mx) ps"
      using False 2(5) by (intro 2(2) [OF c False]) auto
    then show ?thesis using c by auto
  qed
qed

text \<open>
  C39. Paging loses and reorders nothing: when the generator ends without a failure, the pages
  carry exactly the entries of the manifest in their order, they are numbered from zero, at
  most 256, only the last is marked as last, and each holds at most the number of entries
  asked for and four mebibytes, one byte more for a page that is not the last.
\<close>

theorem paging_exact:
  assumes "iterateWorkspaceManifestPages env entries mx = (ps, None)"
  shows "\<exists>ws. map_try (manifestEntryForPublicProtocol env) entries = Inr ws \<and> concat (map mp_entries ps) = ws \<and>
     pages_numbered 0 ps \<and> int (length ps) \<le> manifest_pages \<and> list_all (page_fits mx) ps"
proof -
  have empty: "encodedManifestPageBytes 0 True [] \<le> manifest_page_bytes" by code_simp
  have "1 \<le> mx" using assms by (auto simp: iterateWorkspaceManifestPages_def boundedInteger_def split: option.splits if_splits)
  show ?thesis
  proof (cases "entries = []")
    case True
    with assms have "ps = [freezeManifestPage 0 True []]"
      by (auto simp: iterateWorkspaceManifestPages_def split: sum.splits)
    with True empty \<open>1 \<le> mx\<close> pages_numbered_single [of 0 "[]"] show ?thesis
      by (simp add: page_fits_def manifest_pages_def) (simp add: freezeManifestPage_def)
  next
    case False
    with assms have "pages_loop env mx 0 [] entries = (ps, None)"
      by (auto simp: iterateWorkspaceManifestPages_def split: sum.splits)
    from pages_loop_spec [OF this] \<open>1 \<le> mx\<close> empty show ?thesis by auto
  qed
qed

definition sample_sync_env :: sync_env where
  "sample_sync_env = \<lparr>se_nfc = (\<lambda>s. s), se_date = (\<lambda>s. s \<noteq> []), se_sha = (\<lambda>b. replicate 64 (CHR ''0''))\<rparr>"

definition sample_entry :: "string \<Rightarrow> manifest_entry" where
  "sample_entry p = \<lparr>me_path = p, me_kind = M_directory, me_byteLength = 0, me_executable = False, me_contentDigest = None,
     me_chunks = None, me_linkTarget = None\<rparr>"

theorem paging_exact_witness:
  "\<exists>ws. map_try (manifestEntryForPublicProtocol sample_sync_env) [sample_entry ''a'', sample_entry ''b''] = Inr ws \<and>
     concat (map mp_entries (fst (iterateWorkspaceManifestPages sample_sync_env [sample_entry ''a'', sample_entry ''b''] 1))) = ws \<and>
     pages_numbered 0 (fst (iterateWorkspaceManifestPages sample_sync_env [sample_entry ''a'', sample_entry ''b''] 1)) \<and>
     int (length (fst (iterateWorkspaceManifestPages sample_sync_env [sample_entry ''a'', sample_entry ''b''] 1))) \<le> manifest_pages \<and>
     list_all (page_fits 1) (fst (iterateWorkspaceManifestPages sample_sync_env [sample_entry ''a'', sample_entry ''b''] 1))"
proof (rule paging_exact)
  have "snd (iterateWorkspaceManifestPages sample_sync_env [sample_entry ''a'', sample_entry ''b''] 1) = None" by code_simp
  then show "iterateWorkspaceManifestPages sample_sync_env [sample_entry ''a'', sample_entry ''b''] 1 =
      (fst (iterateWorkspaceManifestPages sample_sync_env [sample_entry ''a'', sample_entry ''b''] 1), None)"
    by (metis prod.collapse)
qed

section \<open>The root of a manifest\<close>

lemma path_le_linear: "path_le s t \<or> path_le t s"
  by (induction s t rule: path_le.induct) auto

lemma path_le_antisym: "path_le s t \<Longrightarrow> path_le t s \<Longrightarrow> s = t"
proof (induction s t rule: path_le.induct)
  case (1 t)
  then show ?case by (cases t) auto
qed auto

lemma path_le_trans: "path_le s t \<Longrightarrow> path_le t u \<Longrightarrow> path_le s u"
proof (induction s t arbitrary: u rule: path_le.induct)
  case (3 a s b t)
  then show ?case by (cases u) auto
qed auto

lemma insert_by_path_set [simp]: "set (insert_by_path f x ys) = insert x (set ys)"
  by (induction ys) auto

lemma sort_by_path_set [simp]: "set (sort_by_path f xs) = set xs"
  by (induction xs) (simp_all add: sort_by_path_def)

lemma length_sort_by_path [simp]: "length (sort_by_path f xs) = length xs"
proof -
  have "length (insert_by_path f x ys) = Suc (length ys)" for x ys by (induction ys) auto
  then show ?thesis by (induction xs) (simp_all add: sort_by_path_def)
qed

lemma sorted_insert_by_path:
  "sorted_wrt (\<lambda>x y. path_le (f x) (f y)) ys \<Longrightarrow> sorted_wrt (\<lambda>x y. path_le (f x) (f y)) (insert_by_path f x ys)"
proof (induction ys)
  case (Cons y ys)
  then show ?case using path_le_linear [of "f x" "f y"] by (auto intro: path_le_trans)
qed simp

lemma sorted_sort_by_path: "sorted_wrt (\<lambda>x y. path_le (f x) (f y)) (sort_by_path f xs)"
  by (induction xs) (simp_all add: sort_by_path_def sorted_insert_by_path)

lemma sorted_by_path_unique:
  assumes "sorted_wrt (\<lambda>x y. path_le (f x) (f y)) xs" "sorted_wrt (\<lambda>x y. path_le (f x) (f y)) ys"
    and "set xs = set ys" "length xs = length ys" "inj_on f (set xs)" "distinct xs"
  shows "xs = ys"
  using assms
proof (induction xs arbitrary: ys)
  case (Cons x xs)
  then obtain y ys' where ys: "ys = y # ys'" by (cases ys) auto
  have "distinct ys" using Cons.prems(3,4,6) by (metis card_distinct distinct_card)
  have "path_le (f x) (f y)" using Cons.prems(1,3) ys path_le_linear [of "f x" "f x"] by auto
  moreover have "path_le (f y) (f x)" using Cons.prems(2,3) ys path_le_linear [of "f y" "f y"] by auto
  ultimately have "f x = f y" by (rule path_le_antisym)
  moreover have "y \<in> set (x # xs)" using Cons.prems(3) ys by simp
  ultimately have "x = y" using inj_onD [OF Cons.prems(5)] by simp
  moreover from this have "set xs = set ys'" using Cons.prems(3,6) \<open>distinct ys\<close> ys by auto
  ultimately show ?case using Cons ys by auto
qed simp

lemma sort_by_path_order_independent:
  assumes "set xs = set ys" "distinct xs" "distinct ys" "inj_on f (set xs)"
  shows "sort_by_path f xs = sort_by_path f ys"
proof (rule sorted_by_path_unique [of f])
  show "distinct (sort_by_path f xs)"
    using assms(2) by (metis card_distinct distinct_card length_sort_by_path sort_by_path_set)
  show "length (sort_by_path f xs) = length (sort_by_path f ys)"
    using assms(1-3) by (metis distinct_card length_sort_by_path)
qed (use assms sorted_sort_by_path in auto)

text \<open>
  The root names a set of entries: two listings of the same entries, in whatever order the
  directory was walked or the server returned them, have the same root when no path occurs
  twice.
\<close>

theorem manifest_root_order_independent:
  assumes "set es = set fs" and "distinct (map me_path es)" and "distinct (map me_path fs)"
  shows "publicProtocolManifestRoot env es = publicProtocolManifestRoot env fs"
proof -
  let ?g = "\<lambda>e. (me_path e, se_sha env (utf8_bytes (json_stringify (root_entry_json e))))"
  have "distinct (map fst (map ?g es))" "distinct (map fst (map ?g fs))"
    using assms(2,3) by (simp_all add: comp_def)
  then have d: "distinct (map ?g es)" "distinct (map ?g fs)" "inj_on fst (set (map ?g es))"
    by (simp_all only: distinct_map)
  have "sort_by_path fst (map ?g es) = sort_by_path fst (map ?g fs)"
    by (rule sort_by_path_order_independent) (use assms(1) d in auto)
  then show ?thesis by (simp add: publicProtocolManifestRoot_def)
qed

theorem manifest_root_order_independent_witness:
  "publicProtocolManifestRoot sample_sync_env [sample_entry ''b'', sample_entry ''a''] =
     publicProtocolManifestRoot sample_sync_env [sample_entry ''a'', sample_entry ''b'']"
  by (rule manifest_root_order_independent) (auto simp: sample_entry_def)

section \<open>Entries on the wire\<close>

definition wire_entry_ok :: "sync_env \<Rightarrow> wire_entry \<Rightarrow> bool" where
  "wire_entry_ok env w \<longleftrightarrow> entry_shape_ok (we_kind w) (we_byte_length w) (we_executable w) (we_chunks w) (we_link_target w) \<and>
     0 \<le> we_byte_length w \<and> we_byte_length w \<le> max_safe_integer \<and>
     (case we_link_target w of None \<Rightarrow> True | Some t \<Rightarrow> assertSafeLinkTarget env (Some (JStr (we_path w))) t = Inr ())"

definition wire_chunk_json :: "wire_chunk \<Rightarrow> json" where
  "wire_chunk_json c = JObj [(''digest'', JStr (wc_digest c)), (''byte_length'', JNum (JInt (wc_byte_length c)))]"

lemma chunk_bytes_safe: "0 \<le> n \<Longrightarrow> n \<le> chunk_bytes \<Longrightarrow> is_safe_integer n"
  by (simp add: chunk_bytes_def js_defs)

lemma decode_wire_chunk_json:
  assumes "wire_chunk_of c = Inr w"
  shows "decode_wire_chunk (wire_chunk_json w) = Inr w"
  using assms by (auto simp: wire_chunk_of_def try_bind_Inr decode_wire_chunk_def wire_chunk_json_def exactObject_def
      assertDigest_def text_where_def boundedInteger_def split: if_splits option.splits)

lemma map_try_decode:
  assumes "map_try wire_chunk_of cs = Inr ws"
  shows "map_try decode_wire_chunk (map wire_chunk_json ws) = Inr ws"
  using assms by (induction cs arbitrary: ws) (auto simp: try_bind_Inr decode_wire_chunk_json)

lemma wire_entry_json_chunks: "wire_entry_json w = JObj [(''path'', JStr (we_path w)), (''kind'', JStr (kind_text (we_kind w))),
     (''byte_length'', JNum (JInt (we_byte_length w))), (''executable'', JBool (we_executable w)),
     (''chunks'', JArr (map wire_chunk_json (we_chunks w))), (''link_target'', json_string_or_null (we_link_target w))]"
  unfolding wire_entry_json_def wire_chunk_json_def by simp

lemma enum_kind_text: "enumValue (Some (JStr (kind_text k))) entry_kinds ''entry kind'' = Inr k"
  by (cases k) (simp_all add: enumValue_def entry_kinds_def)

lemma link_of_json: "link_of (Some (json_string_or_null v)) = Inr v"
  by (cases v) (simp_all add: link_of_def json_string_or_null_def)

text \<open>
  What this client sends it would accept: the JSON of an entry that
  \<^verbatim>\<open>manifestEntryForPublicProtocol\<close> admitted decodes to the same entry, when the lengths of its
  chunks add up and a link stays inside the workspace.
\<close>

theorem manifest_entry_roundtrip:
  assumes "manifestEntryForPublicProtocol env e = Inr w" and "wire_entry_ok env w"
  shows "decodeManifestEntry env (wire_entry_json w) = Inr w"
proof -
  from assms(1) obtain path chunks where p: "assertWirePath env (Some (JStr (me_path e))) = Inr path"
    and c: "map_try wire_chunk_of (case me_chunks e of None \<Rightarrow> [] | Some cs \<Rightarrow> cs) = Inr chunks"
    and w: "w = \<lparr>we_path = path, we_kind = me_kind e, we_byte_length = (if me_kind e = M_symlink then 0 else me_byteLength e),
            we_executable = me_executable e, we_chunks = chunks, we_link_target = me_linkTarget e\<rparr>"
    by (auto simp: manifestEntryForPublicProtocol_def try_bind_Inr)
  have path: "assertWirePath env (Some (JStr (we_path w))) = Inr (we_path w)"
    using p w by (auto simp: assertWirePath_def text_where_def split: if_splits)
  have chunks: "map_try decode_wire_chunk (map wire_chunk_json (we_chunks w)) = Inr (we_chunks w)"
    using map_try_decode [OF c] w by simp
  have len: "nonnegative (Some (JNum (JInt (we_byte_length w)))) ''entry length'' = Inr (we_byte_length w)"
    using assms(2) by (auto simp: nonnegative_def boundedInteger_def wire_entry_ok_def js_defs)
  have link: "we_link_target w = Some t \<Longrightarrow> assertSafeLinkTarget env (Some (JStr (we_path w))) t = Inr ()" for t
    using assms(2) by (simp add: wire_entry_ok_def)
  have shape: "entry_shape_ok (we_kind w) (we_byte_length w) (we_executable w) (we_chunks w) (we_link_target w)"
    using assms(2) by (simp add: wire_entry_ok_def)
  show ?thesis
    unfolding decodeManifestEntry_def wire_entry_json_chunks
    by (auto simp: exactObject_def enum_kind_text chunks link_of_json len shape link path Let_def)
qed

definition sample_file :: manifest_entry where
  "sample_file = \<lparr>me_path = ''a/b.ts'', me_kind = M_file, me_byteLength = 3, me_executable = False, me_contentDigest = None,
     me_chunks = Some [\<lparr>cc_index = 0, cc_byteLength = 3, cc_digest = replicate 64 (CHR ''0'')\<rparr>], me_linkTarget = None\<rparr>"

definition sample_wire :: wire_entry where
  "sample_wire = (case manifestEntryForPublicProtocol sample_sync_env sample_file of Inr w \<Rightarrow> w
     | Inl _ \<Rightarrow> \<lparr>we_path = [], we_kind = M_file, we_byte_length = 0, we_executable = False, we_chunks = [], we_link_target = None\<rparr>)"

theorem manifest_entry_roundtrip_witness: "decodeManifestEntry sample_sync_env (wire_entry_json sample_wire) = Inr sample_wire"
proof (rule manifest_entry_roundtrip)
  show "manifestEntryForPublicProtocol sample_sync_env sample_file = Inr sample_wire" by code_simp
  show "wire_entry_ok sample_sync_env sample_wire" by code_simp
qed

text \<open>A carried entry never replaces one of the folder, and nothing is left out.\<close>

lemma carried_clash_distinct:
  "\<not> carried_clash held es \<longleftrightarrow> distinct (map me_path es) \<and> held \<inter> set (map me_path es) = {}"
  by (induction es arbitrary: held) auto

text \<open>
  Carrying entries of the machine keeps the folder's own: when \<^verbatim>\<open>withCarriedEntries\<close> succeeds on a
  manifest without repeated paths, the result holds exactly the entries of both, every path
  once, sorted, and its root is the root of any listing of them.
\<close>

theorem carried_entries_exact:
  assumes "withCarriedEntries env m carried = Inr m'" and "distinct (map me_path (wm_entries m))" and "carried \<noteq> []"
  shows "set (wm_entries m') = set (wm_entries m) \<union> set carried \<and> distinct (map me_path (wm_entries m')) \<and>
     sorted_wrt (\<lambda>x y. path_le (me_path x) (me_path y)) (wm_entries m') \<and>
     wm_entryCount m' = int (length (wm_entries m) + length carried) \<and>
     wm_manifestRoot m' = publicProtocolManifestRoot env (wm_entries m @ carried)"
proof -
  let ?es = "sort_by_path me_path (wm_entries m @ carried)"
  have nc: "\<not> carried_clash (set (map me_path (wm_entries m))) carried"
    and m': "wm_entries m' = ?es" "wm_entryCount m' = int (length ?es)" "wm_manifestRoot m' = publicProtocolManifestRoot env ?es"
    using assms(1,3) by (auto simp: withCarriedEntries_def Let_def split: if_splits)
  from nc have d: "distinct (map me_path (wm_entries m @ carried))"
    using assms(2) unfolding carried_clash_distinct by auto
  moreover have "card (me_path ` set ?es) = length ?es"
    using distinct_card [OF d] by (simp add: image_Un)
  then have ds: "distinct (map me_path ?es)" by (intro card_distinct) simp
  have "publicProtocolManifestRoot env ?es = publicProtocolManifestRoot env (wm_entries m @ carried)"
  proof -
    let ?g = "\<lambda>e. (me_path e, se_sha env (utf8_bytes (json_stringify (root_entry_json e))))"
    have "distinct (map fst (map ?g ?es))" "distinct (map fst (map ?g (wm_entries m @ carried)))"
      using d ds by (simp_all add: comp_def)
    then have "distinct (map ?g ?es)" "distinct (map ?g (wm_entries m @ carried))" "inj_on fst (set (map ?g ?es))"
      by (simp_all only: distinct_map)
    then have "sort_by_path fst (map ?g ?es) = sort_by_path fst (map ?g (wm_entries m @ carried))"
      by (intro sort_by_path_order_independent) auto
    then show ?thesis by (simp only: publicProtocolManifestRoot_def)
  qed
  with m' ds sorted_sort_by_path show ?thesis by (simp del: map_append)
qed

definition sample_manifest :: workspace_manifest where
  "sample_manifest = \<lparr>wm_policyDigest = replicate 64 (CHR ''0''), wm_manifestRoot = replicate 64 (CHR ''0''), wm_entryCount = 1,
     wm_totalBytes = 3, wm_entries = [sample_file]\<rparr>"

definition sample_carried :: workspace_manifest where
  "sample_carried = (case withCarriedEntries sample_sync_env sample_manifest [sample_entry ''a''] of Inr m \<Rightarrow> m | Inl _ \<Rightarrow> sample_manifest)"

theorem carried_entries_exact_witness:
  "set (wm_entries sample_carried) = set (wm_entries sample_manifest) \<union> set [sample_entry ''a''] \<and>
     distinct (map me_path (wm_entries sample_carried)) \<and>
     sorted_wrt (\<lambda>x y. path_le (me_path x) (me_path y)) (wm_entries sample_carried) \<and>
     wm_entryCount sample_carried = int (length (wm_entries sample_manifest) + length [sample_entry ''a'']) \<and>
     wm_manifestRoot sample_carried = publicProtocolManifestRoot sample_sync_env (wm_entries sample_manifest @ [sample_entry ''a''])"
proof (rule carried_entries_exact)
  show "withCarriedEntries sample_sync_env sample_manifest [sample_entry ''a''] = Inr sample_carried"
    unfolding sample_carried_def by (simp add: withCarriedEntries_def sample_manifest_def sample_file_def sample_entry_def Let_def)
  show "distinct (map me_path (wm_entries sample_manifest))" by (simp add: sample_manifest_def)
  show "[sample_entry ''a''] \<noteq> []" by simp
qed

definition wire_chunk_ok :: "wire_chunk \<Rightarrow> bool" where
  "wire_chunk_ok c \<longleftrightarrow> is_sha256_hex (wc_digest c) \<and> 0 \<le> wc_byte_length c \<and> wc_byte_length c \<le> chunk_bytes"

lemma text_where_Inr: "text_where P v e = Inr s \<longleftrightarrow> v = Some (JStr s) \<and> P s"
  by (auto simp: text_where_def split: option.splits json.splits if_splits)

lemma boundedInteger_Inr: "boundedInteger v lo hi label = Inr i \<longleftrightarrow> json_int v = Some i \<and> lo \<le> i \<and> i \<le> hi"
  by (auto simp: boundedInteger_def split: option.splits if_splits)

lemmas decoded_values = try_bind_Inr uuid_def assertDigest_def dateTime_def assertWirePath_def text_where_Inr
  nonnegative_def positive_def protocol_def boundedInteger_Inr

lemma array_and_bool_Inr:
  "(case (a, b) of (Some (JArr cs), Some (JBool ex)) \<Rightarrow> f cs ex | _ \<Rightarrow> Inl e) = Inr y \<longleftrightarrow>
     (\<exists>cs ex. a = Some (JArr cs) \<and> b = Some (JBool ex) \<and> f cs ex = Inr y)"
  by (auto split: option.splits json.splits)

lemma if_Inl_Inr: "(if p then Inl e else m) = Inr y \<longleftrightarrow> \<not> p \<and> m = Inr y"
  by simp

lemma map_try_list_all:
  assumes "map_try f xs = Inr ys" and "\<And>x y. f x = Inr y \<Longrightarrow> P y"
  shows "list_all P ys"
  using assms(1) by (induction xs arbitrary: ys) (auto simp: try_bind_Inr intro: assms(2))

lemma decode_wire_chunk_ok: "decode_wire_chunk v = Inr c \<Longrightarrow> wire_chunk_ok c"
  by (auto simp: decode_wire_chunk_def decoded_values wire_chunk_ok_def)

text \<open>
  What a well-formed path and link are, in terms of their components: a text that no host reads as
  absolute or as a control sequence, names that are neither empty nor a step of a path nor a
  device of Windows, and a target whose steps up never outnumber the directories entered before them.
\<close>

definition portable_text :: "sync_env \<Rightarrow> string \<Rightarrow> bool" where
  "portable_text env s \<longleftrightarrow> s \<noteq> [] \<and> se_nfc env s = s \<and> utf8_length s \<le> 4096 \<and>
     (\<forall>c \<in> set s. c \<noteq> CHR 0x5C \<and> 32 \<le> (of_char c :: nat) \<and> (of_char c :: nat) \<noteq> 127) \<and> hd s \<noteq> CHR ''/'' \<and>
     \<not> (\<exists>d rest. s = d # CHR '':'' # rest \<and> (of_char d :: nat) \<in> {65..90} \<union> {97..122})"

definition portable_name :: "string \<Rightarrow> bool" where
  "portable_name c \<longleftrightarrow> CHR ''/'' \<notin> set c \<and> c \<noteq> [] \<and> c \<noteq> ''.'' \<and> c \<noteq> ''..'' \<and> last c \<noteq> CHR ''.'' \<and> last c \<noteq> CHR '' '' \<and> utf8_length c \<le> 255 \<and>
     (let stem = takeWhile (\<lambda>x. x \<noteq> CHR ''.'') (map ascii_lower c) in stem \<notin> {''con'', ''prn'', ''aux'', ''nul''} \<and>
        \<not> (\<exists>d \<in> set ''123456789''. stem = ''com'' @ [d] \<or> stem = ''lpt'' @ [d]))"

definition steps_up :: "string list \<Rightarrow> nat" where
  "steps_up ts = length (filter (\<lambda>t. t = ''..'') ts)"

definition steps_down :: "string list \<Rightarrow> nat" where
  "steps_down ts = length (filter (\<lambda>t. t \<notin> {[], ''.'', ''..''}) ts)"

lemma device_stem:
  assumes "\<not> device_component c" and "d \<in> set windows_devices"
  shows "takeWhile (\<lambda>x. x \<noteq> CHR ''.'') (map ascii_lower c) \<noteq> d"
proof
  let ?l = "map ascii_lower c"
  assume d: "takeWhile (\<lambda>x. x \<noteq> CHR ''.'') ?l = d"
  have "take (length d) ?l = d" using d takeWhile_eq_take [of "\<lambda>x. x \<noteq> CHR ''.''" ?l] by metis
  moreover have "drop (length d) ?l = dropWhile (\<lambda>x. x \<noteq> CHR ''.'') ?l" using d dropWhile_eq_drop [of "\<lambda>x. x \<noteq> CHR ''.''" ?l] by metis
  moreover have "case xs of [] \<Rightarrow> True | x # _ \<Rightarrow> x = CHR ''.''" if "dropWhile (\<lambda>x. x \<noteq> CHR ''.'') ?l = xs" for xs
    using that by (cases xs) (simp_all add: dropWhile_eq_Cons_conv)
  then have "case dropWhile (\<lambda>x. x \<noteq> CHR ''.'') ?l of [] \<Rightarrow> True | x # _ \<Rightarrow> x = CHR ''.''" by blast
  ultimately have "device_component c" unfolding device_component_def Let_def list_ex_iff using assms(2) by (intro bexI [of _ d]) simp_all
  with assms(1) show False by contradiction
qed

lemma component_portable_name: "wire_component_ok c \<Longrightarrow> CHR ''/'' \<notin> set c \<Longrightarrow> portable_name c"
  using device_stem [of c] unfolding portable_name_def wire_component_ok_def ends_with_def Let_def windows_devices_def by auto

lemma ascii_letter: "(of_char d :: nat) \<in> {65..90} \<union> {97..122} \<Longrightarrow> 97 \<le> (of_char (ascii_lower d) :: nat) \<and> (of_char (ascii_lower d) :: nat) \<le> 122"
  by (auto simp: ascii_lower_def)

lemma plain_text:
  assumes "\<not> rooted s" and "\<not> containsAsciiControl s" and "s \<noteq> []" and "se_nfc env s = s" and "int (utf8_length s) \<le> 4096"
  shows "portable_text env s"
proof -
  have "\<not> (\<exists>d rest. s = d # CHR '':'' # rest \<and> (of_char d :: nat) \<in> {65..90} \<union> {97..122})"
    using assms(1) ascii_letter by (fastforce simp: rooted_def has_drive_prefix_def)
  with assms show ?thesis
    by (cases s) (auto simp: portable_text_def rooted_def containsAsciiControl_def list_ex_iff not_le)
qed

lemma path_components:
  assumes "wire_path_ok env s"
  shows "portable_text env s" and "list_all portable_name (split_on CHR ''/'' s)" and "length (split_on CHR ''/'' s) \<le> 256"
proof -
  show "portable_text env s" using assms by (intro plain_text) (auto simp: wire_path_ok_def)
  show "length (split_on CHR ''/'' s) \<le> 256" using assms by (simp add: wire_path_ok_def)
  have "wire_component_ok c \<and> CHR ''/'' \<notin> set c" if "c \<in> set (split_on CHR ''/'' s)" for c
    using assms that split_on_set [OF that] by (auto simp: wire_path_ok_def list_all_iff)
  then show "list_all portable_name (split_on CHR ''/'' s)" by (auto simp: list_all_iff intro: component_portable_name)
qed

lemma link_walk_depth:
  "link_walk base ts = Some b \<Longrightarrow> n \<le> length ts \<Longrightarrow> steps_up (take n ts) \<le> length base + steps_down (take n ts)"
proof (induction base ts arbitrary: n rule: link_walk.induct)
  case (2 base c cs)
  show ?case
  proof (cases n)
    case (Suc m)
    then have m: "m \<le> length cs" using 2(5) by simp
    consider (stay) "c = [] \<or> c = ''.''" | (up) base' x where "c = ''..''" "base = x # base'" | (down) "c \<notin> {[], ''.'', ''..''}"
      using 2(4) by (cases "c = ''..''"; cases base) auto
    then show ?thesis
    proof cases
      case stay
      with 2(1) [OF stay _ m] 2(4) Suc show ?thesis by (auto simp: steps_up_def steps_down_def)
    next
      case up
      with 2(2) [OF _ _ _ _ m] 2(4) Suc show ?thesis by (auto simp: steps_up_def steps_down_def)
    next
      case down
      with 2(3) [OF _ _ _ m] 2(4) Suc show ?thesis by (auto simp: steps_up_def steps_down_def)
    qed
  qed (simp add: steps_up_def)
qed (simp add: steps_up_def)

lemma safe_link:
  assumes "assertSafeLinkTarget env (Some (JStr path)) target = Inr ()"
  shows "portable_text env target \<and> (\<forall>n. steps_up (take n (split_on CHR ''/'' target)) \<le>
      length (split_on CHR ''/'' path) - 1 + steps_down (take n (split_on CHR ''/'' target)))"
proof -
  let ?ts = "split_on CHR ''/'' target"
  from assms obtain b where b: "link_walk (rev (butlast (split_on CHR ''/'' path))) ?ts = Some b"
    by (auto simp: assertSafeLinkTarget_def decoded_values split: if_splits option.splits)
  have t: "portable_text env target"
    using assms by (intro plain_text) (auto simp: assertSafeLinkTarget_def decoded_values split: if_splits)
  have "steps_up (take n ?ts) \<le> length (split_on CHR ''/'' path) - 1 + steps_down (take n ?ts)" for n
  proof (cases "n \<le> length ?ts")
    case True
    with link_walk_depth [OF b] show ?thesis by simp
  next
    case False
    with link_walk_depth [OF b, of "length ?ts"] show ?thesis by simp
  qed
  with t show ?thesis by blast
qed

lemma wire_chunk_explicit:
  assumes "wire_chunk_ok c"
  shows "length (wc_digest c) = 64 \<and> set (wc_digest c) \<subseteq> set ''0123456789abcdef'' \<and> 0 \<le> wc_byte_length c \<and> wc_byte_length c \<le> 8388608"
proof -
  have "is_sha256_hex (wc_digest c)" "0 \<le> wc_byte_length c" "wc_byte_length c \<le> 8388608"
    using assms by (simp_all add: wire_chunk_ok_def chunk_bytes_def)
  then show ?thesis unfolding is_sha256_hex_def is_lower_hex_def list_all_iff by blast
qed

text \<open>
  C40. A manifest entry from the service is well formed once it is decoded, whatever JSON was sent.
  Its path is a sequence of at most 256 names separated by slashes, none of them empty, a dot, two dots, ending
  in a dot or a space, longer than 255 bytes or a device of Windows; the path is in normal form,
  at most 4096 bytes long and has no backslash, control character, drive letter or leading slash.
  Every chunk has 64 lower-case hexadecimal digits as its digest and at most 8 MiB. The length of a
  file is the sum of the lengths of its chunks, of which there is one at least; a directory or link has
  no content. Only a link has a target, which is a relative text of the same
  kind, and following it from the directory of the entry never goes above the root of the
  workspace: at no point has it gone up more often than the depth of that directory and the
  names entered on the way allow.
\<close>

theorem decoded_entry_well_formed:
  assumes "decodeManifestEntry env v = Inr w"
  shows "portable_text env (we_path w) \<and>
     (\<exists>names. we_path w = join_on CHR ''/'' names \<and> names \<noteq> [] \<and> length names \<le> 256 \<and> list_all portable_name names \<and>
       (case we_kind w of
          M_directory \<Rightarrow> we_byte_length w = 0 \<and> \<not> we_executable w \<and> we_chunks w = [] \<and> we_link_target w = None
        | M_file \<Rightarrow> we_byte_length w = (\<Sum>c\<leftarrow>we_chunks w. wc_byte_length c) \<and> we_chunks w \<noteq> [] \<and> we_link_target w = None
        | M_symlink \<Rightarrow> we_byte_length w = 0 \<and> \<not> we_executable w \<and> we_chunks w = [] \<and>
            (\<exists>steps. we_link_target w = Some (join_on CHR ''/'' steps) \<and> list_all (\<lambda>t. CHR ''/'' \<notin> set t) steps \<and>
               portable_text env (join_on CHR ''/'' steps) \<and>
               (\<forall>n. steps_up (take n steps) \<le> length names - 1 + steps_down (take n steps))))) \<and>
     0 \<le> we_byte_length w \<and> we_byte_length w < 2 ^ 53 \<and>
     list_all (\<lambda>c. length (wc_digest c) = 64 \<and> set (wc_digest c) \<subseteq> set ''0123456789abcdef'' \<and>
       0 \<le> wc_byte_length c \<and> wc_byte_length c \<le> 8388608) (we_chunks w)"
proof -
  from assms obtain props cs where
      w: "map_try decode_wire_chunk cs = Inr (we_chunks w)" "nonnegative (map_of props ''byte_length'') ''entry length'' = Inr (we_byte_length w)"
      "entry_shape_ok (we_kind w) (we_byte_length w) (we_executable w) (we_chunks w) (we_link_target w)"
      "assertWirePath env (map_of props ''path'') = Inr (we_path w)"
      "(if we_kind w = M_symlink \<and> we_link_target w \<noteq> None then assertSafeLinkTarget env (map_of props ''path'') (the (we_link_target w)) else Inr ()) = Inr ()"
    unfolding decodeManifestEntry_def Let_def try_bind_Inr array_and_bool_Inr
    unfolding if_Inl_Inr try_bind_Inr by (elim exE conjE, intro that) auto
  have path: "map_of props ''path'' = Some (JStr (we_path w))" "wire_path_ok env (we_path w)"
    using w(4) by (simp_all add: decoded_values)
  have link: "assertSafeLinkTarget env (Some (JStr (we_path w))) t = Inr ()" if "we_kind w = M_symlink" "we_link_target w = Some t" for t
    using w(5) that path(1) by simp
  have steps: "\<exists>steps. we_link_target w = Some (join_on CHR ''/'' steps) \<and> list_all (\<lambda>t. CHR ''/'' \<notin> set t) steps \<and>
      portable_text env (join_on CHR ''/'' steps) \<and>
      (\<forall>n. steps_up (take n steps) \<le> length (split_on CHR ''/'' (we_path w)) - 1 + steps_down (take n steps))" if sym: "we_kind w = M_symlink"
  proof -
    from sym w(3) obtain t where t: "we_link_target w = Some t" by (auto simp: entry_shape_ok_def)
    show ?thesis using safe_link [OF link [OF sym t]] t split_on_set [of _ "CHR ''/''" t]
      by (intro exI [of _ "split_on CHR ''/'' t"]) (auto simp: join_split list_all_iff)
  qed
  have chunks: "list_all (\<lambda>c. length (wc_digest c) = 64 \<and> set (wc_digest c) \<subseteq> set ''0123456789abcdef'' \<and>
       0 \<le> wc_byte_length c \<and> wc_byte_length c \<le> 8388608) (we_chunks w)"
    by (rule map_try_list_all [OF w(1)]) (rule wire_chunk_explicit [OF decode_wire_chunk_ok])
  have len: "0 \<le> we_byte_length w" "we_byte_length w < 2 ^ 53"
    using w(2) by (simp_all add: decoded_values max_safe_integer_def)
  note parts = path_components [OF path(2)]
  show ?thesis
  proof (intro conjI exI [of _ "split_on CHR ''/'' (we_path w)"] chunks len parts)
    show "case we_kind w of
          M_directory \<Rightarrow> we_byte_length w = 0 \<and> \<not> we_executable w \<and> we_chunks w = [] \<and> we_link_target w = None
        | M_file \<Rightarrow> we_byte_length w = (\<Sum>c\<leftarrow>we_chunks w. wc_byte_length c) \<and> we_chunks w \<noteq> [] \<and> we_link_target w = None
        | M_symlink \<Rightarrow> we_byte_length w = 0 \<and> \<not> we_executable w \<and> we_chunks w = [] \<and>
            (\<exists>steps. we_link_target w = Some (join_on CHR ''/'' steps) \<and> list_all (\<lambda>t. CHR ''/'' \<notin> set t) steps \<and>
               portable_text env (join_on CHR ''/'' steps) \<and>
               (\<forall>n. steps_up (take n steps) \<le> length (split_on CHR ''/'' (we_path w)) - 1 + steps_down (take n steps)))"
    proof (cases "we_kind w")
      case M_symlink
      with w(3) steps [OF M_symlink] show ?thesis by (simp add: entry_shape_ok_def)
    qed (use w(3) in \<open>auto simp: entry_shape_ok_def\<close>)
  qed (simp_all add: join_split)
qed

text \<open>A link that goes up to the root of the workspace and back into it.\<close>

definition sample_link :: wire_entry where
  "sample_link = \<lparr>we_path = ''a/b/l'', we_kind = M_symlink, we_byte_length = 0, we_executable = False, we_chunks = [], we_link_target = Some ''../../c''\<rparr>"

theorem decoded_entry_well_formed_witness:
  "portable_text sample_sync_env (we_path sample_link) \<and> (\<exists>names. we_path sample_link = join_on CHR ''/'' names \<and> list_all portable_name names)"
proof -
  have "decodeManifestEntry sample_sync_env (wire_entry_json sample_link) = Inr sample_link" by code_simp
  from decoded_entry_well_formed [OF this] show ?thesis by blast
qed

end
