(* ===== verification/Sync_Coordinator.thy ===== *)
theory Sync_Coordinator
  imports Sync_Protocol
begin

text \<open>
  The client and the coordinator of workspace synchronization, \<^verbatim>\<open>src/sync/workspace-sync-client.ts\<close> and
  the class \<^verbatim>\<open>WorkspaceSyncCoordinator\<close> of \<^verbatim>\<open>src/sync/workspace-sync-coordinator.ts\<close>. A run is
  a function of the history of what it has done so far: every request, save of the checkpoint,
  read of a chunk and pause is appended to the history, and what comes back is given by a
  \<open>sync_world\<close>, any function of the history. So a statement about the history holds whatever
  the service, the disk and the user do, and wherever the process is stopped. Uploads of one batch,
  which the source starts together, are made one after the other.
\<close>

datatype sync_failure = Cuna cuna_error | Foreign

datatype request_body = No_body | Json_body json | Bytes_body "byte list"

record http_request =
  hr_method :: string
  hr_path :: string
  hr_query :: "(string \<times> string) list"
  hr_body :: request_body
  hr_key :: "string option"

datatype sync_phase = Begin_pending | Staging | Commit_pending | Committed | Conflicted

record sync_identity =
  id_workspace_id :: string
  id_workspace_binding_id :: string
  id_machine_id :: string
  id_base_generation :: int
  id_exclusion_policy_digest :: string
  id_manifest_root :: string

record checkpoint =
  ck_identity :: sync_identity
  ck_phase :: sync_phase
  ck_sync_id :: "string option"
  ck_selected_protocol :: "int option"
  ck_committed_generation :: "int option"
  ck_updated_at :: string

datatype sync_event =
    Acquire
  | Release
  | Load
  | Save checkpoint
  | Http http_request
  | Read_chunk string int
  | Sleep int
  | Deliver change_page

type_synonym history = "sync_event list"

record sync_world =
  sw_acquire :: "history \<Rightarrow> sync_failure option"
  sw_release :: "history \<Rightarrow> sync_failure option"
  sw_load :: "history \<Rightarrow> sync_failure + checkpoint option"
  sw_save :: "history \<Rightarrow> sync_failure option"
  sw_http :: "history \<Rightarrow> sync_failure + json"
  sw_chunk :: "history \<Rightarrow> sync_failure + byte list"
  sw_deliver :: "history \<Rightarrow> sync_failure option"
  sw_aborted :: "history \<Rightarrow> bool"
  sw_now :: "history \<Rightarrow> string"

type_synonym 'a run = "history \<Rightarrow> (sync_failure + 'a) \<times> history"

definition ret :: "'a \<Rightarrow> 'a run" where "ret x h = (Inr x, h)"
definition raise :: "sync_failure \<Rightarrow> 'a run" where "raise e h = (Inl e, h)"

definition bind :: "'a run \<Rightarrow> ('a \<Rightarrow> 'b run) \<Rightarrow> 'b run" where
  "bind m f h = (case m h of (Inl e, h') \<Rightarrow> (Inl e, h') | (Inr x, h') \<Rightarrow> f x h')"

definition lift :: "cuna_error + 'a \<Rightarrow> 'a run" where
  "lift r h = (case r of Inl e \<Rightarrow> (Inl (Cuna e), h) | Inr x \<Rightarrow> (Inr x, h))"

definition guard :: "bool \<Rightarrow> cuna_error \<Rightarrow> unit run" where
  "guard ok e = (if ok then ret () else raise (Cuna e))"

definition http :: "sync_world \<Rightarrow> http_request \<Rightarrow> json run" where
  "http w r h = (sw_http w (h @ [Http r]), h @ [Http r])"

section \<open>The client\<close>

definition sync_error :: "string \<Rightarrow> exit_code \<Rightarrow> string option \<Rightarrow> cuna_error" where
  "sync_error code ex reason = \<lparr>ce_code = ''cuna.workspace_sync.'' @ code, ce_exitCode = ex, ce_hint = None,
     ce_retryable = False, ce_reason = reason\<rparr>"

definition invalidRequest :: "string \<Rightarrow> cuna_error" where
  "invalidRequest reason = sync_error ''invalid_request'' Exit_usage (Some reason)"

definition scopeMismatch :: cuna_error where
  "scopeMismatch = sync_error ''scope_mismatch'' Exit_policy None"

definition chunkMismatch :: cuna_error where
  "chunkMismatch = sync_error ''chunk_mismatch'' Exit_policy None"

text \<open>\<^verbatim>\<open>assertCanonicalUuid\<close> of \<^verbatim>\<open>core/validation.ts\<close>.\<close>

definition assertCanonicalUuid :: "string \<Rightarrow> string \<Rightarrow> unit run" where
  "assertCanonicalUuid s label = guard (uuid_text s)
     \<lparr>ce_code = ''cuna.usage.invalid'', ce_exitCode = Exit_usage,
      ce_hint = Some (label @ '' must be a canonical lowercase Cuna UUID.''), ce_retryable = False, ce_reason = None\<rparr>"

definition validateIdempotencyKey :: "string \<Rightarrow> unit run" where
  "validateIdempotencyKey k = guard (16 \<le> utf8_length k \<and> utf8_length k \<le> 256 \<and> \<not> containsAsciiControl k)
     (invalidRequest ''idempotency_key'')"

definition protocol_range_json :: json where
  "protocol_range_json = JObj [(''minimum'', JNum (JInt protocol_minimum)), (''maximum'', JNum (JInt protocol_maximum))]"

record begin_request =
  br_workspace_binding_id :: string
  br_machine_id :: string
  br_base_generation :: int
  br_exclusion_policy_digest :: string

definition begin_json :: "begin_request \<Rightarrow> json" where
  "begin_json r = JObj [(''workspace_binding_id'', JStr (br_workspace_binding_id r)), (''machine_id'', JStr (br_machine_id r)),
     (''base_generation'', JNum (JInt (br_base_generation r))), (''exclusion_policy_digest'', JStr (br_exclusion_policy_digest r)),
     (''protocol'', protocol_range_json), (''minimum_reader'', JNum (JInt 1)), (''minimum_writer'', JNum (JInt 1))]"

definition begin_call :: "string \<Rightarrow> begin_request \<Rightarrow> string \<Rightarrow> http_request" where
  "begin_call workspaceId r key = \<lparr>hr_method = ''POST'', hr_path = ''/v1/workspaces/'' @ workspaceId @ ''/sync-sessions'',
     hr_query = [], hr_body = Json_body (begin_json r), hr_key = Some key\<rparr>"

definition client_begin :: "sync_env \<Rightarrow> sync_world \<Rightarrow> string \<Rightarrow> begin_request \<Rightarrow> string \<Rightarrow> sync_session envelope run" where
  "client_begin env w workspaceId r key =
     bind (assertCanonicalUuid workspaceId ''workspace ID'') (\<lambda>_.
     bind (assertCanonicalUuid (br_workspace_binding_id r) ''workspace binding ID'') (\<lambda>_.
     bind (guard (br_workspace_binding_id r \<noteq> workspaceId) (invalidRequest ''workspace_binding_id_domain'')) (\<lambda>_.
     bind (assertCanonicalUuid (br_machine_id r) ''machine ID'') (\<lambda>_.
     bind (validateIdempotencyKey key) (\<lambda>_.
     bind (http w (begin_call workspaceId r key)) (\<lambda>v.
     bind (lift (decodeEnvelope v (decodeWorkspaceSyncSession env))) (\<lambda>response. let s = ev_data response in
     bind (guard (sy_workspace_id s = workspaceId \<and> sy_machine_id s = br_machine_id r \<and>
          sy_base_generation s = br_base_generation r \<and> sy_exclusion_policy_digest s = br_exclusion_policy_digest r \<and>
          ev_selected_protocol response = sy_selected_protocol s \<and>
          protocol_minimum \<le> ev_selected_protocol response \<and> ev_selected_protocol response \<le> protocol_maximum) scopeMismatch) (\<lambda>_.
     ret response))))))))"

definition manifest_call :: "string \<Rightarrow> manifest_page \<Rightarrow> string \<Rightarrow> http_request" where
  "manifest_call syncId page key = \<lparr>hr_method = ''POST'', hr_path = ''/v1/workspace-sync/'' @ syncId @ ''/manifests'', hr_query = [],
     hr_body = Json_body (manifest_page_json page), hr_key = Some key\<rparr>"

definition client_manifest :: "sync_env \<Rightarrow> sync_world \<Rightarrow> string \<Rightarrow> manifest_page \<Rightarrow> string \<Rightarrow> manifest_receipt envelope run" where
  "client_manifest env w syncId page key =
     bind (assertCanonicalUuid syncId ''workspace sync ID'') (\<lambda>_.
     bind (validateIdempotencyKey key) (\<lambda>_.
     bind (http w (manifest_call syncId page key)) (\<lambda>v.
     bind (lift (decodeEnvelope v (decodeManifestReceipt env))) (\<lambda>response.
     bind (guard (sy_id (mr_sync (ev_data response)) = syncId \<and> mr_page_index (ev_data response) = mp_page_index page \<and>
          ev_selected_protocol response = sy_selected_protocol (mr_sync (ev_data response))) scopeMismatch) (\<lambda>_.
     ret response)))))"

definition chunk_call :: "string \<Rightarrow> string \<Rightarrow> byte list \<Rightarrow> string \<Rightarrow> http_request" where
  "chunk_call syncId digest bytes key = \<lparr>hr_method = ''PUT'', hr_path = ''/v1/workspace-sync/'' @ syncId @ ''/chunks/'' @ digest,
     hr_query = [], hr_body = Bytes_body bytes, hr_key = Some key\<rparr>"

definition client_chunk :: "sync_env \<Rightarrow> sync_world \<Rightarrow> string \<Rightarrow> string \<Rightarrow> byte list \<Rightarrow> string \<Rightarrow> chunk_receipt envelope run" where
  "client_chunk env w syncId digest bytes key =
     bind (assertCanonicalUuid syncId ''workspace sync ID'') (\<lambda>_.
     bind (guard (is_sha256_hex digest) (invalidRequest ''digest'')) (\<lambda>_.
     bind (validateIdempotencyKey key) (\<lambda>_.
     bind (guard (int (length bytes) \<le> chunk_bytes \<and> se_sha env bytes = digest) chunkMismatch) (\<lambda>_.
     bind (http w (chunk_call syncId digest bytes key)) (\<lambda>v.
     bind (lift (decodeEnvelope v decodeChunkReceipt)) (\<lambda>response.
     bind (guard (cp_digest (ev_data response) = digest \<and> cp_byte_length (ev_data response) = int (length bytes) \<and>
          ev_selected_protocol response = cp_selected_protocol (ev_data response)) scopeMismatch) (\<lambda>_.
     ret response)))))))"

definition client_downloadChunk :: "sync_env \<Rightarrow> sync_world \<Rightarrow> string \<Rightarrow> string \<Rightarrow> int \<Rightarrow> chunk_content envelope run" where
  "client_downloadChunk env w syncId digest readerVersion =
     bind (assertCanonicalUuid syncId ''workspace sync ID'') (\<lambda>_.
     bind (guard (is_sha256_hex digest) (invalidRequest ''digest'')) (\<lambda>_.
     bind (guard (1 \<le> readerVersion \<and> readerVersion \<le> protocol_maximum) (invalidRequest ''reader_version'')) (\<lambda>_.
     bind (http w \<lparr>hr_method = ''GET'', hr_path = ''/v1/workspace-sync/'' @ syncId @ ''/chunks/'' @ digest,
        hr_query = [(''reader_version'', int_text readerVersion)], hr_body = No_body, hr_key = None\<rparr>) (\<lambda>v.
     bind (lift (decodeEnvelope v (decodeChunkContent env))) (\<lambda>response.
     bind (guard (ct_digest (ev_data response) = digest \<and> ct_selected_protocol (ev_data response) = ev_selected_protocol response \<and>
          ct_minimum_reader (ev_data response) \<le> readerVersion) scopeMismatch) (\<lambda>_.
     ret response))))))"

record commit_request =
  cq_expected_generation :: int
  cq_exclusion_policy_digest :: string
  cq_manifest_root :: string

definition commit_json :: "commit_request \<Rightarrow> json" where
  "commit_json r = JObj [(''expected_generation'', JNum (JInt (cq_expected_generation r))),
     (''exclusion_policy_digest'', JStr (cq_exclusion_policy_digest r)), (''manifest_root'', JStr (cq_manifest_root r)),
     (''minimum_reader'', JNum (JInt 1)), (''minimum_writer'', JNum (JInt 1))]"

definition commit_call :: "string \<Rightarrow> commit_request \<Rightarrow> string \<Rightarrow> http_request" where
  "commit_call syncId r key = \<lparr>hr_method = ''POST'', hr_path = ''/v1/workspace-sync/'' @ syncId @ ''/commit'', hr_query = [],
     hr_body = Json_body (commit_json r), hr_key = Some key\<rparr>"

definition client_commit :: "sync_env \<Rightarrow> sync_world \<Rightarrow> string \<Rightarrow> commit_request \<Rightarrow> string \<Rightarrow> commit_receipt envelope run" where
  "client_commit env w syncId r key =
     bind (assertCanonicalUuid syncId ''workspace sync ID'') (\<lambda>_.
     bind (validateIdempotencyKey key) (\<lambda>_.
     bind (http w (commit_call syncId r key)) (\<lambda>v.
     bind (lift (decodeEnvelope v (decodeCommitReceipt env))) (\<lambda>response.
     bind (guard (co_manifest_root (ev_data response) = cq_manifest_root r \<and>
          ev_selected_protocol response = co_selected_protocol (ev_data response)) scopeMismatch) (\<lambda>_.
     ret response)))))"

definition client_changes :: "sync_env \<Rightarrow> sync_world \<Rightarrow> string \<Rightarrow> string option \<Rightarrow> int option \<Rightarrow> int \<Rightarrow> change_page envelope run" where
  "client_changes env w syncId cursor limit readerVersion =
     bind (assertCanonicalUuid syncId ''workspace sync ID'') (\<lambda>_.
     bind (guard (is_safe_integer readerVersion \<and> 1 \<le> readerVersion) (invalidRequest ''reader_version'')) (\<lambda>_.
     bind (guard (case limit of None \<Rightarrow> True | Some l \<Rightarrow> is_safe_integer l \<and> 1 \<le> l \<and> l \<le> change_page_entries) (invalidRequest ''limit'')) (\<lambda>_.
     bind (guard (case cursor of None \<Rightarrow> True | Some c \<Rightarrow> 1 \<le> length c \<and> int (length c) \<le> 1024 \<and> \<not> containsAsciiControl c)
       (invalidRequest ''cursor'')) (\<lambda>_.
     bind (http w \<lparr>hr_method = ''GET'', hr_path = ''/v1/workspace-sync/'' @ syncId @ ''/changes'',
        hr_query = (case cursor of None \<Rightarrow> [] | Some c \<Rightarrow> [(''cursor'', c)]) @
          (case limit of None \<Rightarrow> [] | Some l \<Rightarrow> [(''limit'', int_text l)]) @ [(''reader_version'', int_text readerVersion)],
        hr_body = No_body, hr_key = None\<rparr>) (\<lambda>v.
     lift (decodeEnvelope v (decodeChangePage env)))))))"

record reconcile_request =
  rq_workspace_binding_id :: string
  rq_machine_id :: string
  rq_observed_generation :: int
  rq_exclusion_policy_digest :: string
  rq_manifest_root :: string

definition reconcile_json :: "reconcile_request \<Rightarrow> (string \<times> json) list" where
  "reconcile_json r = [(''workspace_binding_id'', JStr (rq_workspace_binding_id r)), (''machine_id'', JStr (rq_machine_id r)),
     (''observed_generation'', JNum (JInt (rq_observed_generation r))), (''exclusion_policy_digest'', JStr (rq_exclusion_policy_digest r)),
     (''manifest_root'', JStr (rq_manifest_root r)), (''protocol'', protocol_range_json)]"

definition client_reconcile :: "sync_env \<Rightarrow> sync_world \<Rightarrow> string \<Rightarrow> reconcile_request \<Rightarrow> string \<Rightarrow> reconcile_receipt envelope run" where
  "client_reconcile env w workspaceId r key =
     bind (assertCanonicalUuid workspaceId ''workspace ID'') (\<lambda>_.
     bind (assertCanonicalUuid (rq_workspace_binding_id r) ''workspace binding ID'') (\<lambda>_.
     bind (guard (rq_workspace_binding_id r \<noteq> workspaceId) (invalidRequest ''workspace_binding_id_domain'')) (\<lambda>_.
     bind (assertCanonicalUuid (rq_machine_id r) ''machine ID'') (\<lambda>_.
     bind (validateIdempotencyKey key) (\<lambda>_.
     bind (http w \<lparr>hr_method = ''POST'', hr_path = ''/v1/workspaces/'' @ workspaceId @ ''/reconcile'', hr_query = [],
        hr_body = Json_body (JObj (reconcile_json r)), hr_key = Some key\<rparr>) (\<lambda>v.
     bind (lift (decodeEnvelope v decodeReconcileReceipt)) (\<lambda>response.
     bind (guard (re_exclusion_policy_digest (ev_data response) = rq_exclusion_policy_digest r \<and>
          protocol_minimum \<le> ev_selected_protocol response \<and> ev_selected_protocol response \<le> protocol_maximum) scopeMismatch) (\<lambda>_.
     ret response))))))))"

section \<open>The coordinator\<close>

definition invalid :: "string \<Rightarrow> cuna_error" where
  "invalid reason = sync_error ''invalid'' Exit_usage (Some reason)"

definition conflict :: "string \<Rightarrow> cuna_error" where
  "conflict reason = sync_error ''conflict'' Exit_conflict (Some reason)"

definition contractMismatch :: "string \<Rightarrow> cuna_error" where
  "contractMismatch reason = sync_error ''contract_mismatch'' Exit_remote (Some reason)"

definition invalidCheckpoint :: cuna_error where
  "invalidCheckpoint = sync_error ''checkpoint_invalid'' Exit_conflict None"

definition observation_budget_codes :: "string list" where
  "observation_budget_codes = [''cuna.client.response_budget_elapsed'', ''cuna.client.convergence_budget_elapsed'']"

definition isAmbiguousOrRetryable :: "sync_failure \<Rightarrow> bool" where
  "isAmbiguousOrRetryable e = (case e of Foreign \<Rightarrow> False | Cuna c \<Rightarrow> ce_retryable c \<or> ce_code c \<in> set observation_budget_codes \<or>
     ce_code c = ''cuna.network.failed'' \<or> ce_code c = ''cuna.network.service_unavailable'')"

definition isAuthoritativeConflict :: "sync_failure \<Rightarrow> bool" where
  "isAuthoritativeConflict e = (case e of Foreign \<Rightarrow> False | Cuna c \<Rightarrow> ce_code c = ''cuna.remote.conflict'' \<or>
     ce_reason c \<in> Some ` {''workspace_sync_generation_conflict'', ''workspace_sync_policy_conflict'',
       ''workspace_sync_manifest_conflict'', ''workspace_sync_idempotency_conflict''})"

text \<open>\<^verbatim>\<open>abortableSleep\<close>.\<close>

definition pause :: "sync_world \<Rightarrow> int \<Rightarrow> unit run" where
  "pause w ms h = (if sw_aborted w h then (Inl Foreign, h)
     else let h' = h @ [Sleep ms] in (if sw_aborted w h' then Inl Foreign else Inr (), h'))"

text \<open>\<open>attempt\<close> counts the attempts from 1, \<open>remaining\<close> those that are left after this one.\<close>

fun idempotent :: "sync_world \<Rightarrow> nat \<Rightarrow> nat \<Rightarrow> 'a run \<Rightarrow> 'a run" where
  "idempotent w remaining attempt op h =
     (case op h of
        (Inr x, h') \<Rightarrow> (Inr x, h')
      | (Inl e, h') \<Rightarrow>
          if \<not> isAmbiguousOrRetryable e \<or> sw_aborted w h' then (Inl e, h')
          else (case remaining of
             0 \<Rightarrow> (Inl e, h')
           | Suc r \<Rightarrow> (case pause w (min 1000 (50 * 2 ^ (attempt - 1))) h' of
                 (Inl f, h'') \<Rightarrow> (Inl f, h'')
               | (Inr _, h'') \<Rightarrow> idempotent w r (attempt + 1) op h'')))"

declare idempotent.simps [simp del]

record coordinator =
  cd_env :: sync_env
  cd_world :: sync_world
  cd_uploads :: nat
  cd_attempts :: nat

definition coordinator_ok :: "coordinator \<Rightarrow> bool" where
  "coordinator_ok c \<longleftrightarrow> 1 \<le> cd_uploads c \<and> int (cd_uploads c) \<le> concurrent_chunk_uploads \<and> 1 \<le> cd_attempts c \<and> cd_attempts c \<le> 5"

definition retry :: "coordinator \<Rightarrow> 'a run \<Rightarrow> 'a run" where
  "retry c op = idempotent (cd_world c) (cd_attempts c - 1) 1 op"

definition stableKey :: "sync_env \<Rightarrow> string \<Rightarrow> (string \<times> json) list \<Rightarrow> string" where
  "stableKey env domain props = ''cuna-sync-'' @ domain @ ''-'' @ se_sha env (utf8_bytes (json_stringify (JObj props)))"

definition identity_json :: "sync_identity \<Rightarrow> (string \<times> json) list" where
  "identity_json i = [(''workspace_id'', JStr (id_workspace_id i)), (''workspace_binding_id'', JStr (id_workspace_binding_id i)),
     (''machine_id'', JStr (id_machine_id i)), (''base_generation'', JNum (JInt (id_base_generation i))),
     (''exclusion_policy_digest'', JStr (id_exclusion_policy_digest i)), (''manifest_root'', JStr (id_manifest_root i))]"

definition load_checkpoint :: "sync_world \<Rightarrow> checkpoint option run" where
  "load_checkpoint w h = (sw_load w (h @ [Load]), h @ [Load])"

definition persist :: "sync_world \<Rightarrow> sync_identity \<Rightarrow> sync_phase \<Rightarrow> string option \<Rightarrow> int option \<Rightarrow> int option \<Rightarrow> checkpoint run" where
  "persist w i phase syncId proto generation h =
     (let ck = \<lparr>ck_identity = i, ck_phase = phase, ck_sync_id = syncId, ck_selected_protocol = proto,
                ck_committed_generation = generation, ck_updated_at = sw_now w h\<rparr>
      in (case sw_save w (h @ [Save ck]) of None \<Rightarrow> Inr ck | Some e \<Rightarrow> Inl e, h @ [Save ck]))"

definition read_chunk :: "sync_world \<Rightarrow> string \<Rightarrow> int \<Rightarrow> byte list run" where
  "read_chunk w d n h = (sw_chunk w (h @ [Read_chunk d n]), h @ [Read_chunk d n])"

fun chunkLengths :: "wire_chunk list \<Rightarrow> (string, int) js_map \<Rightarrow> cuna_error + (string, int) js_map" where
  "chunkLengths [] lengths = Inr lengths"
| "chunkLengths (c # cs) lengths =
     (case map_get lengths (wc_digest c) of
        Some n \<Rightarrow> if n \<noteq> wc_byte_length c then Inl (contractMismatch ''digest_length_conflict'')
                  else chunkLengths cs (map_set (wc_digest c) (wc_byte_length c) lengths)
      | None \<Rightarrow> chunkLengths cs (map_set (wc_digest c) (wc_byte_length c) lengths))"

fun check_missing :: "(string, int) js_map \<Rightarrow> string set \<Rightarrow> string list \<Rightarrow> cuna_error + unit" where
  "check_missing lengths seen [] = Inr ()"
| "check_missing lengths seen (d # ds) =
     (if d \<in> seen then Inl (contractMismatch ''duplicate_missing_digest'')
      else if map_get lengths d = None then Inl (contractMismatch ''unexpected_missing_digest'')
      else check_missing lengths (insert d seen) ds)"

definition upload_chunk :: "coordinator \<Rightarrow> string \<Rightarrow> int \<Rightarrow> (string, int) js_map \<Rightarrow> string \<Rightarrow> unit run" where
  "upload_chunk c syncId proto lengths d =
     (case map_get lengths d of
        None \<Rightarrow> raise (Cuna (contractMismatch ''unexpected_missing_digest''))
      | Some n \<Rightarrow>
          bind (read_chunk (cd_world c) d n) (\<lambda>bytes.
          bind (guard (int (length bytes) = n \<and> se_sha (cd_env c) bytes = d) (conflict ''chunk_source_changed'')) (\<lambda>_.
          bind (retry c (client_chunk (cd_env c) (cd_world c) syncId d bytes
                 (stableKey (cd_env c) ''chunk'' [(''syncId'', JStr syncId), (''digest'', JStr d)]))) (\<lambda>uploaded.
          guard (ev_selected_protocol uploaded = proto) (contractMismatch ''protocol_changed'')))))"

text \<open>\<^verbatim>\<open>Promise.allSettled\<close>: every upload of a batch is made, then the first failure is thrown.\<close>

fun settle :: "unit run list \<Rightarrow> unit run" where
  "settle [] h = (Inr (), h)"
| "settle (m # ms) h = (case m h of (r, h1) \<Rightarrow> (case settle ms h1 of (rs, h2) \<Rightarrow>
     (case r of Inl e \<Rightarrow> Inl e | Inr _ \<Rightarrow> rs, h2)))"

fun batches :: "nat \<Rightarrow> 'a list \<Rightarrow> 'a list list" where
  "batches n [] = []"
| "batches n (x # xs) = (x # take (n - 1) xs) # batches n (drop (n - 1) xs)"

fun each :: "('b \<Rightarrow> unit run) \<Rightarrow> 'b list \<Rightarrow> unit run" where
  "each f [] = ret ()"
| "each f (x # xs) = bind (f x) (\<lambda>_. each f xs)"

definition send_page :: "coordinator \<Rightarrow> string \<Rightarrow> int \<Rightarrow> string \<Rightarrow> manifest_page \<Rightarrow> unit run" where
  "send_page c syncId proto root page =
     bind (retry c (client_manifest (cd_env c) (cd_world c) syncId page
       (stableKey (cd_env c) ''manifest'' [(''syncId'', JStr syncId), (''root'', JStr root), (''page'', JNum (JInt (mp_page_index page)))])))
       (\<lambda>receipt.
     bind (guard (ev_selected_protocol receipt = proto) (contractMismatch ''protocol_changed'')) (\<lambda>_.
     bind (lift (chunkLengths (concat (map we_chunks (mp_entries page))) [])) (\<lambda>lengths.
     bind (lift (check_missing lengths {} (mr_missing_digests (ev_data receipt)))) (\<lambda>_.
     each (\<lambda>batch. settle (map (upload_chunk c syncId proto lengths) batch))
       (batches (cd_uploads c) (mr_missing_digests (ev_data receipt)))))))"

definition send_pages :: "coordinator \<Rightarrow> string \<Rightarrow> int \<Rightarrow> string \<Rightarrow> manifest_page list \<times> cuna_error option \<Rightarrow> unit run" where
  "send_pages c syncId proto root pages =
     bind (each (send_page c syncId proto root) (fst pages))
       (\<lambda>_. case snd pages of None \<Rightarrow> ret () | Some e \<Rightarrow> raise (Cuna e))"

record sync_input =
  in_identity :: sync_identity
  in_entries :: "manifest_entry list"

definition commit_request_of :: "sync_identity \<Rightarrow> commit_request" where
  "commit_request_of i = \<lparr>cq_expected_generation = id_base_generation i,
     cq_exclusion_policy_digest = id_exclusion_policy_digest i, cq_manifest_root = id_manifest_root i\<rparr>"

definition commit_key :: "sync_env \<Rightarrow> string \<Rightarrow> sync_identity \<Rightarrow> string" where
  "commit_key env syncId i = stableKey env ''commit'' [(''syncId'', JStr syncId), (''root'', JStr (id_manifest_root i))]"

definition pages_of :: "coordinator \<Rightarrow> sync_input \<Rightarrow> manifest_page list \<times> cuna_error option" where
  "pages_of c input = iterateWorkspaceManifestPages (cd_env c) (in_entries input) manifest_page_entries"

definition stage_and_commit :: "coordinator \<Rightarrow> sync_input \<Rightarrow> string \<Rightarrow> int \<Rightarrow> commit_receipt run" where
  "stage_and_commit c input syncId proto = (let i = in_identity input; w = cd_world c in
     bind (send_pages c syncId proto (id_manifest_root i) (pages_of c input)) (\<lambda>_.
     bind (persist w i Commit_pending (Some syncId) (Some proto) None) (\<lambda>_.
     bind (retry c (client_commit (cd_env c) w syncId (commit_request_of i) (commit_key (cd_env c) syncId i))) (\<lambda>committed.
     bind (guard (ev_selected_protocol committed = proto) (contractMismatch ''protocol_changed'')) (\<lambda>_.
     bind (persist w i Committed (Some syncId) (Some proto) (Some (co_generation (ev_data committed)))) (\<lambda>_.
     ret (ev_data committed)))))))"

definition on_conflict :: "coordinator \<Rightarrow> sync_identity \<Rightarrow> string \<Rightarrow> int \<Rightarrow> 'a run \<Rightarrow> 'a run" where
  "on_conflict c i syncId proto m h = (case m h of
     (Inr x, h') \<Rightarrow> (Inr x, h')
   | (Inl e, h') \<Rightarrow> if isAuthoritativeConflict e
        then (case persist (cd_world c) i Conflicted (Some syncId) (Some proto) None h' of
                (Inl f, h'') \<Rightarrow> (Inl f, h'') | (Inr _, h'') \<Rightarrow> (Inl e, h''))
        else (Inl e, h'))"

definition begin_request_of :: "sync_identity \<Rightarrow> begin_request" where
  "begin_request_of i = \<lparr>br_workspace_binding_id = id_workspace_binding_id i, br_machine_id = id_machine_id i,
     br_base_generation = id_base_generation i, br_exclusion_policy_digest = id_exclusion_policy_digest i\<rparr>"

definition begin_session :: "coordinator \<Rightarrow> sync_identity \<Rightarrow> checkpoint run" where
  "begin_session c i =
     bind (retry c (client_begin (cd_env c) (cd_world c) (id_workspace_id i) (begin_request_of i) (stableKey (cd_env c) ''begin'' (identity_json i))))
       (\<lambda>begun. persist (cd_world c) i Staging (Some (sy_id (ev_data begun))) (Some (ev_selected_protocol begun)) None)"

definition receipt_of :: "checkpoint \<Rightarrow> cuna_error + commit_receipt" where
  "receipt_of ck = (case (ck_sync_id ck, ck_selected_protocol ck, ck_committed_generation ck) of
     (Some _, Some p, Some g) \<Rightarrow> Inr \<lparr>co_selected_protocol = p, co_generation = g, co_manifest_root = id_manifest_root (ck_identity ck),
        co_committed_at = ck_updated_at ck, co_minimum_reader = 1, co_minimum_writer = 1\<rparr>
   | _ \<Rightarrow> Inl invalidCheckpoint)"

definition continue_from :: "coordinator \<Rightarrow> sync_input \<Rightarrow> checkpoint \<Rightarrow> commit_receipt run" where
  "continue_from c input ck = (let i = in_identity input in
     if ck_phase ck = Committed then lift (receipt_of ck)
     else if ck_phase ck = Conflicted then raise (Cuna (conflict ''checkpoint_conflicted''))
     else bind (if ck_sync_id ck = None then begin_session c i else ret ck) (\<lambda>ck.
       case (ck_sync_id ck, ck_selected_protocol ck) of
         (Some syncId, Some proto) \<Rightarrow> on_conflict c i syncId proto (stage_and_commit c input syncId proto)
       | _ \<Rightarrow> raise (Cuna invalidCheckpoint)))"

definition synchronizeWithLease :: "coordinator \<Rightarrow> sync_input \<Rightarrow> commit_receipt run" where
  "synchronizeWithLease c input =
     bind (load_checkpoint (cd_world c)) (\<lambda>loaded.
       case loaded of
         Some ck \<Rightarrow> if ck_identity ck \<noteq> in_identity input then raise (Cuna (conflict ''checkpoint_intent_mismatch''))
                    else continue_from c input ck
       | None \<Rightarrow> bind (persist (cd_world c) (in_identity input) Begin_pending None None None) (continue_from c input))"

definition withLease :: "sync_world \<Rightarrow> 'a run \<Rightarrow> 'a run" where
  "withLease w m h = (case sw_acquire w (h @ [Acquire]) of
     Some e \<Rightarrow> (Inl e, h @ [Acquire])
   | None \<Rightarrow> (case m (h @ [Acquire]) of (r, h') \<Rightarrow>
       (case sw_release w (h' @ [Release]) of Some e \<Rightarrow> Inl e | None \<Rightarrow> r, h' @ [Release])))"

definition synchronize :: "coordinator \<Rightarrow> sync_input \<Rightarrow> commit_receipt run" where
  "synchronize c input = (let i = in_identity input in
     bind (assertCanonicalUuid (id_workspace_id i) ''workspace ID'') (\<lambda>_.
     bind (assertCanonicalUuid (id_workspace_binding_id i) ''workspace binding ID'') (\<lambda>_.
     bind (guard (id_workspace_binding_id i \<noteq> id_workspace_id i) (invalid ''workspace_binding_id_domain'')) (\<lambda>_.
     bind (assertCanonicalUuid (id_machine_id i) ''machine ID'') (\<lambda>_.
     bind (guard (is_safe_integer (id_base_generation i) \<and> 0 \<le> id_base_generation i) (invalid ''base_generation'')) (\<lambda>_.
     bind (guard (is_sha256_hex (id_exclusion_policy_digest i)) (invalid ''policy_digest'')) (\<lambda>_.
     bind (guard (is_sha256_hex (id_manifest_root i)) (invalid ''manifest_root'')) (\<lambda>_.
     withLease (cd_world c) (synchronizeWithLease c input)))))))))"

definition coordinator_reconcile :: "coordinator \<Rightarrow> string \<Rightarrow> reconcile_request \<Rightarrow> reconcile_receipt run" where
  "coordinator_reconcile c workspaceId r =
     bind (assertCanonicalUuid workspaceId ''workspace ID'') (\<lambda>_.
     bind (assertCanonicalUuid (rq_workspace_binding_id r) ''workspace binding ID'') (\<lambda>_.
     bind (guard (rq_workspace_binding_id r \<noteq> workspaceId) (invalid ''workspace_binding_id_domain'')) (\<lambda>_.
     bind (assertCanonicalUuid (rq_machine_id r) ''machine ID'') (\<lambda>_.
     bind (guard (0 \<le> rq_observed_generation r \<and> rq_observed_generation r \<le> max_safe_integer) (invalid ''observed_generation'')) (\<lambda>_.
     bind (guard (is_sha256_hex (rq_exclusion_policy_digest r)) (invalid ''policy_digest'')) (\<lambda>_.
     bind (guard (is_sha256_hex (rq_manifest_root r)) (invalid ''manifest_root'')) (\<lambda>_.
     bind (retry c (client_reconcile (cd_env c) (cd_world c) workspaceId r
       (stableKey (cd_env c) ''reconcile'' ((''workspaceId'', JStr workspaceId) # reconcile_json r)))) (\<lambda>response.
     ret (ev_data response)))))))))"

definition deliver :: "sync_world \<Rightarrow> change_page \<Rightarrow> unit run" where
  "deliver w p h = (case sw_deliver w (h @ [Deliver p]) of None \<Rightarrow> Inr () | Some e \<Rightarrow> Inl e, h @ [Deliver p])"

fun consume_loop :: "coordinator \<Rightarrow> string \<Rightarrow> int \<Rightarrow> nat \<Rightarrow> string option \<Rightarrow> string option run" where
  "consume_loop c syncId readerVersion 0 cursor = ret cursor"
| "consume_loop c syncId readerVersion (Suc n) cursor =
     bind (client_changes (cd_env c) (cd_world c) syncId cursor (Some change_page_entries) readerVersion) (\<lambda>response.
     bind (deliver (cd_world c) (ev_data response)) (\<lambda>_.
       case cg_next_cursor (ev_data response) of
         None \<Rightarrow> ret None
       | Some nx \<Rightarrow> if Some nx = cursor then raise (Cuna (contractMismatch ''cursor_did_not_advance''))
                   else consume_loop c syncId readerVersion n (Some nx)))"

definition consumeChanges :: "coordinator \<Rightarrow> string \<Rightarrow> string option \<Rightarrow> int option \<Rightarrow> nat option \<Rightarrow> string option run" where
  "consumeChanges c syncId cursor readerVersion maximumPages =
     (let n = (case maximumPages of None \<Rightarrow> 256 | Some n \<Rightarrow> n); rv = (case readerVersion of None \<Rightarrow> 2 | Some v \<Rightarrow> v) in
     bind (assertCanonicalUuid syncId ''workspace sync ID'') (\<lambda>_.
     bind (guard (1 \<le> n \<and> n \<le> 1024) (invalid ''change_page_limit'')) (\<lambda>_.
     consume_loop c syncId rv n cursor)))"

section \<open>Reasoning about runs\<close>

text \<open>
  \<open>obeys D h es\<close>: each event of \<open>es\<close> is allowed by \<open>D\<close> after the history before it. \<open>spec D P m Q F\<close>:
  from a history with \<open>P\<close>, the run \<open>m\<close> only appends events that \<open>D\<close> allows and ends with \<open>Q\<close> when it
  returns and \<open>F\<close> when it throws.
\<close>

fun obeys :: "(history \<Rightarrow> sync_event \<Rightarrow> bool) \<Rightarrow> history \<Rightarrow> history \<Rightarrow> bool" where
  "obeys D h [] = True"
| "obeys D h (e # es) = (D h e \<and> obeys D (h @ [e]) es)"

definition spec ::
  "(history \<Rightarrow> sync_event \<Rightarrow> bool) \<Rightarrow> (history \<Rightarrow> bool) \<Rightarrow> 'a run \<Rightarrow> ('a \<Rightarrow> history \<Rightarrow> bool) \<Rightarrow> (history \<Rightarrow> bool) \<Rightarrow> bool" where
  "spec D P m Q F \<longleftrightarrow> (\<forall>h r h'. P h \<longrightarrow> m h = (r, h') \<longrightarrow> (\<exists>es. h' = h @ es \<and> obeys D h es) \<and>
     (case r of Inr x \<Rightarrow> Q x h' | Inl _ \<Rightarrow> F h'))"

definition lasting :: "(history \<Rightarrow> bool) \<Rightarrow> bool" where
  "lasting K \<longleftrightarrow> (\<forall>h e. K h \<longrightarrow> K (h @ [e]))"

lemma obeys_append: "obeys D h (es @ fs) \<longleftrightarrow> obeys D h es \<and> obeys D (h @ es) fs"
  by (induction es arbitrary: h) auto

lemma obeysD: "obeys D h (a @ e # b) \<Longrightarrow> D (h @ a) e"
  by (simp add: obeys_append)

lemma lasting_append: "lasting K \<Longrightarrow> K h \<Longrightarrow> K (h @ es)"
proof (induction es rule: rev_induct)
  case (snoc e es)
  then show ?case unfolding lasting_def by (metis append.assoc)
qed simp

lemma specD:
  assumes "spec D P m Q F" and "P h" and "m h = (r, h')"
  obtains es where "h' = h @ es" "obeys D h es" "\<And>x. r = Inr x \<Longrightarrow> Q x h'" "\<And>e. r = Inl e \<Longrightarrow> F h'"
proof -
  have "(\<exists>es. h' = h @ es \<and> obeys D h es) \<and> (case r of Inr x \<Rightarrow> Q x h' | Inl _ \<Rightarrow> F h')"
    using assms unfolding spec_def by blast
  then show thesis by (cases r) (auto intro: that)
qed

lemma specI:
  assumes "\<And>h r h'. P h \<Longrightarrow> m h = (r, h') \<Longrightarrow> (\<exists>es. h' = h @ es \<and> obeys D h es) \<and> (case r of Inr x \<Rightarrow> Q x h' | Inl _ \<Rightarrow> F h')"
  shows "spec D P m Q F"
  using assms unfolding spec_def by blast

lemma spec_weaken:
  assumes "spec D P m Q F" and "\<And>h. P' h \<Longrightarrow> P h" and "\<And>x h. Q x h \<Longrightarrow> Q' x h" and "\<And>h. F h \<Longrightarrow> F' h"
  shows "spec D P' m Q' F'"
proof (rule specI)
  fix h r h' assume "P' h" "m h = (r, h')"
  with assms(2) obtain es where "h' = h @ es" "obeys D h es" "\<And>x. r = Inr x \<Longrightarrow> Q x h'" "\<And>e. r = Inl e \<Longrightarrow> F h'"
    using specD [OF assms(1)] by metis
  with assms(3,4) show "(\<exists>es. h' = h @ es \<and> obeys D h es) \<and> (case r of Inr x \<Rightarrow> Q' x h' | Inl _ \<Rightarrow> F' h')"
    by (auto split: sum.splits)
qed

lemma spec_frame:
  assumes "spec D P m Q F" and "lasting K"
  shows "spec D (\<lambda>h. P h \<and> K h) m (\<lambda>x h. Q x h \<and> K h) (\<lambda>h. F h \<and> K h)"
proof (rule specI)
  fix h r h' assume "P h \<and> K h" "m h = (r, h')"
  then obtain es where "h' = h @ es" "obeys D h es" "\<And>x. r = Inr x \<Longrightarrow> Q x h'" "\<And>e. r = Inl e \<Longrightarrow> F h'" "K h"
    using specD [OF assms(1)] by metis
  with lasting_append [OF assms(2)] show "(\<exists>es. h' = h @ es \<and> obeys D h es) \<and>
      (case r of Inr x \<Rightarrow> Q x h' \<and> K h' | Inl _ \<Rightarrow> F h' \<and> K h')"
    by (auto split: sum.splits)
qed

lemma spec_ret: "(\<And>h. P h \<Longrightarrow> Q x h) \<Longrightarrow> spec D P (ret x) Q F"
  by (rule specI) (auto simp: ret_def)

lemma spec_raise: "(\<And>h. P h \<Longrightarrow> F h) \<Longrightarrow> spec D P (raise e) Q F"
  by (rule specI) (auto simp: raise_def)

lemma spec_guard: "(\<And>h. P h \<Longrightarrow> F h) \<Longrightarrow> spec D P (guard b e) (\<lambda>_ h. P h \<and> b) F"
  by (rule specI) (auto simp: guard_def ret_def raise_def split: if_splits)

lemma spec_lift: "(\<And>h. P h \<Longrightarrow> F h) \<Longrightarrow> spec D P (lift r) (\<lambda>x h. P h \<and> r = Inr x) F"
  by (rule specI) (auto simp: lift_def split: sum.splits)

lemma spec_bind:
  assumes "spec D P m Q F" and "\<And>x. spec D (Q x) (f x) R F"
  shows "spec D P (bind m f) R F"
proof (rule specI)
  fix h r h' assume "P h" and run: "bind m f h = (r, h')"
  obtain s k where m: "m h = (s, k)" by fastforce
  from specD [OF assms(1) \<open>P h\<close> m] obtain es where es: "k = h @ es" "obeys D h es"
    "\<And>x. s = Inr x \<Longrightarrow> Q x k" "\<And>e. s = Inl e \<Longrightarrow> F k" by metis
  show "(\<exists>es. h' = h @ es \<and> obeys D h es) \<and> (case r of Inr x \<Rightarrow> R x h' | Inl _ \<Rightarrow> F h')"
  proof (cases s)
    case (Inl e)
    with run m es show ?thesis by (auto simp: bind_def)
  next
    case (Inr x)
    with run m have "f x k = (r, h')" by (simp add: bind_def)
    from specD [OF assms(2) es(3) [OF Inr] this] obtain fs where "h' = k @ fs" "obeys D k fs"
      "\<And>x. r = Inr x \<Longrightarrow> R x h'" "\<And>e. r = Inl e \<Longrightarrow> F h'" by metis
    with es(1,2) show ?thesis by (auto simp: obeys_append split: sum.splits)
  qed
qed

text \<open>A step that appends one event.\<close>

lemma spec_event:
  assumes "\<And>h. P h \<Longrightarrow> D h (ev h)" and "\<And>h. m h = (res h, h @ [ev h])"
    and "\<And>h x. P h \<Longrightarrow> res h = Inr x \<Longrightarrow> Q x (h @ [ev h])" and "\<And>h. P h \<Longrightarrow> F (h @ [ev h])"
  shows "spec D P m Q F"
proof (rule specI)
  fix h r h' assume "P h" "m h = (r, h')"
  with assms show "(\<exists>es. h' = h @ es \<and> obeys D h es) \<and> (case r of Inr x \<Rightarrow> Q x h' | Inl _ \<Rightarrow> F h')"
    by (auto split: sum.splits)
qed

lemma spec_idempotent:
  assumes "spec D P op Q P" and "\<And>h ms. P h \<Longrightarrow> D h (Sleep ms) \<and> P (h @ [Sleep ms])"
  shows "spec D P (idempotent w remaining attempt op) Q P"
proof (rule specI)
  fix h r h' assume "P h" and run: "idempotent w remaining attempt op h = (r, h')"
  then show "(\<exists>es. h' = h @ es \<and> obeys D h es) \<and> (case r of Inr x \<Rightarrow> Q x h' | Inl _ \<Rightarrow> P h')"
  proof (induction remaining arbitrary: attempt h)
    case (0 attempt h)
    obtain s k where op: "op h = (s, k)" by fastforce
    from specD [OF assms(1) \<open>P h\<close> op] obtain es where "k = h @ es" "obeys D h es"
      "\<And>x. s = Inr x \<Longrightarrow> Q x k" "\<And>e. s = Inl e \<Longrightarrow> P k" by metis
    with 0 op show ?case by (auto simp: idempotent.simps split: sum.splits if_splits)
  next
    case (Suc n attempt h)
    obtain s k where op: "op h = (s, k)" by fastforce
    from specD [OF assms(1) \<open>P h\<close> op] obtain es where es: "k = h @ es" "obeys D h es"
      "\<And>x. s = Inr x \<Longrightarrow> Q x k" "\<And>e. s = Inl e \<Longrightarrow> P k" by metis
    show ?case
    proof (cases "\<exists>e. s = Inl e \<and> isAmbiguousOrRetryable e \<and> \<not> sw_aborted w k")
      case False
      with Suc.prems op es show ?thesis by (auto simp: idempotent.simps split: sum.splits if_splits)
    next
      case True
      let ?ms = "min 1000 (50 * 2 ^ (attempt - 1)) :: int"
      let ?k = "k @ [Sleep ?ms]"
      from True obtain e where e: "s = Inl e" "isAmbiguousOrRetryable e" "\<not> sw_aborted w k" by blast
      have k: "P ?k" "D k (Sleep ?ms)" using assms(2) es(4) [OF e(1)] by auto
      show ?thesis
      proof (cases "sw_aborted w ?k")
        case True
        with Suc.prems(2) op e have "r = Inl Foreign" "h' = ?k"
          by (auto simp: idempotent.simps [of w "Suc n"] pause_def Let_def)
        with es k show ?thesis by (auto simp: obeys_append)
      next
        case False
        with Suc.prems(2) op e have "idempotent w n (attempt + 1) op ?k = (r, h')"
          by (auto simp: idempotent.simps [of w "Suc n"] pause_def Let_def)
        from Suc.IH [OF k(1) this] obtain fs where "h' = ?k @ fs" "obeys D ?k fs"
          "case r of Inr x \<Rightarrow> Q x h' | Inl _ \<Rightarrow> P h'" by blast
        with es k show ?thesis by (auto simp: obeys_append)
      qed
    qed
  qed
qed

lemma lasting_conj: "lasting K \<Longrightarrow> lasting L \<Longrightarrow> lasting (\<lambda>h. K h \<and> L h)"
  by (simp add: lasting_def)

lemma lasting_ball: "(\<And>x. lasting (S x)) \<Longrightarrow> lasting (\<lambda>h. \<forall>x \<in> X. S x h)"
  by (simp add: lasting_def)

lemma spec_each:
  assumes "\<And>x. x \<in> set xs \<Longrightarrow> spec D P (f x) (\<lambda>_. S x) (\<lambda>_. True)" and "lasting P" and "\<And>x. lasting (S x)"
  shows "spec D P (each f xs) (\<lambda>_ h. \<forall>x \<in> set xs. S x h) (\<lambda>_. True)"
  using assms(1)
proof (induction xs)
  case Nil
  show ?case by (simp add: spec_ret)
next
  case (Cons x xs)
  have "spec D (\<lambda>h. P h \<and> P h) (f x) (\<lambda>_ h. S x h \<and> P h) (\<lambda>h. True \<and> P h)"
    by (rule spec_frame [OF Cons.prems assms(2)]) simp
  then have 1: "spec D P (f x) (\<lambda>_ h. P h \<and> S x h) (\<lambda>_. True)" by (rule spec_weaken) auto
  have "spec D (\<lambda>h. P h \<and> S x h) (each f xs) (\<lambda>_ h. (\<forall>y \<in> set xs. S y h) \<and> S x h) (\<lambda>h. True \<and> S x h)"
    by (rule spec_frame [OF Cons.IH assms(3)]) (simp add: Cons.prems)
  then have 2: "spec D (\<lambda>h. P h \<and> S x h) (each f xs) (\<lambda>_ h. \<forall>y \<in> set (x # xs). S y h) (\<lambda>_. True)"
    by (rule spec_weaken) auto
  show ?case unfolding each.simps by (rule spec_bind [OF 1 2])
qed

section \<open>What a run has established\<close>

text \<open>\<open>answered w h r v\<close>: the history holds the request \<open>r\<close>, and the service answered it with \<open>v\<close>.\<close>

definition answered :: "sync_world \<Rightarrow> history \<Rightarrow> http_request \<Rightarrow> json \<Rightarrow> bool" where
  "answered w h r v \<longleftrightarrow> (\<exists>a b. h = a @ Http r # b \<and> sw_http w (a @ [Http r]) = Inr v)"

definition chunk_stored :: "coordinator \<Rightarrow> string \<Rightarrow> string \<Rightarrow> history \<Rightarrow> bool" where
  "chunk_stored c syncId d h \<longleftrightarrow> (\<exists>bytes key v rc. answered (cd_world c) h (chunk_call syncId d bytes key) v \<and>
     se_sha (cd_env c) bytes = d \<and> decodeEnvelope v decodeChunkReceipt = Inr rc \<and> cp_digest (ev_data rc) = d \<and>
     cp_byte_length (ev_data rc) = int (length bytes))"

definition page_receipt :: "coordinator \<Rightarrow> string \<Rightarrow> manifest_page \<Rightarrow> manifest_receipt envelope \<Rightarrow> history \<Rightarrow> bool" where
  "page_receipt c syncId page rc h \<longleftrightarrow> (\<exists>key v. answered (cd_world c) h (manifest_call syncId page key) v \<and>
     decodeEnvelope v (decodeManifestReceipt (cd_env c)) = Inr rc \<and> sy_id (mr_sync (ev_data rc)) = syncId \<and>
     mr_page_index (ev_data rc) = mp_page_index page)"

definition page_staged :: "coordinator \<Rightarrow> string \<Rightarrow> manifest_page \<Rightarrow> history \<Rightarrow> bool" where
  "page_staged c syncId page h \<longleftrightarrow> (\<exists>rc. page_receipt c syncId page rc h \<and>
     (\<forall>d \<in> set (mr_missing_digests (ev_data rc)). chunk_stored c syncId d h))"

text \<open>
  What the store holds for sure: the checkpoint of the last save, if the store accepted it. After a
  save that failed nothing is certain, since the file may have been replaced or not.
\<close>

fun stored_after :: "sync_world \<Rightarrow> history \<Rightarrow> checkpoint option \<Rightarrow> history \<Rightarrow> checkpoint option" where
  "stored_after w h st [] = st"
| "stored_after w h st (e # es) = stored_after w (h @ [e])
     (case e of Save ck \<Rightarrow> if sw_save w (h @ [e]) = None then Some ck else None | _ \<Rightarrow> st) es"

definition last_saved :: "sync_world \<Rightarrow> history \<Rightarrow> checkpoint option" where
  "last_saved w h = stored_after w [] None h"

definition commit_ready :: "coordinator \<Rightarrow> sync_input \<Rightarrow> string \<Rightarrow> history \<Rightarrow> bool" where
  "commit_ready c input syncId h \<longleftrightarrow> (\<forall>p \<in> set (fst (pages_of c input)). page_staged c syncId p h) \<and>
     snd (pages_of c input) = None \<and>
     (\<exists>ck. last_saved (cd_world c) h = Some ck \<and> ck_identity ck = in_identity input \<and> ck_phase ck = Commit_pending \<and> ck_sync_id ck = Some syncId)"

definition commit_answered :: "coordinator \<Rightarrow> sync_input \<Rightarrow> string \<Rightarrow> commit_receipt \<Rightarrow> history \<Rightarrow> bool" where
  "commit_answered c input syncId rc h \<longleftrightarrow> (\<exists>key v ev. answered (cd_world c) h (commit_call syncId (commit_request_of (in_identity input)) key) v \<and>
     decodeEnvelope v (decodeCommitReceipt (cd_env c)) = Inr ev \<and> ev_data ev = rc \<and>
     co_manifest_root rc = id_manifest_root (in_identity input))"

definition is_commit :: "http_request \<Rightarrow> bool" where
  "is_commit r \<longleftrightarrow> (\<exists>syncId q key. r = commit_call syncId q key)"

text \<open>
  The rule every event of a run obeys: a commit is requested for what was staged, after the
  checkpoint said so; a saved checkpoint is of the run's own intent, and says that it is
  committed only with the generation of an answered commit.
\<close>

definition sync_rule :: "coordinator \<Rightarrow> sync_input \<Rightarrow> history \<Rightarrow> sync_event \<Rightarrow> bool" where
  "sync_rule c input h e = (case e of
     Http r \<Rightarrow> if is_commit r then (\<exists>syncId. commit_ready c input syncId h \<and>
         r = commit_call syncId (commit_request_of (in_identity input)) (commit_key (cd_env c) syncId (in_identity input))) else True
   | Save ck \<Rightarrow> ck_identity ck = in_identity input \<and>
       (if ck_phase ck = Committed
        then (\<exists>syncId rc. ck_sync_id ck = Some syncId \<and> commit_answered c input syncId rc h \<and>
                ck_committed_generation ck = Some (co_generation rc))
        else True)
   | _ \<Rightarrow> True)"

lemma answered_lasting: "lasting (\<lambda>h. answered w h r v)"
  unfolding lasting_def answered_def by (metis append.assoc append_Cons)

lemma answered_now: "sw_http w (h @ [Http r]) = Inr v \<Longrightarrow> answered w (h @ [Http r]) r v"
  unfolding answered_def by (intro exI [of _ h] exI [of _ "[]"]) simp

lemma chunk_stored_lasting: "lasting (chunk_stored c syncId d)"
  using answered_lasting unfolding lasting_def chunk_stored_def by metis

lemma page_receipt_lasting: "lasting (page_receipt c syncId p rc)"
  using answered_lasting unfolding lasting_def page_receipt_def by metis

lemma page_staged_lasting: "lasting (page_staged c syncId p)"
  using page_receipt_lasting chunk_stored_lasting unfolding lasting_def page_staged_def by metis

lemma commit_answered_lasting: "lasting (commit_answered c input syncId rc)"
  using answered_lasting unfolding lasting_def commit_answered_def by metis

lemma stored_after_append: "stored_after w h st (es @ fs) = stored_after w (h @ es) (stored_after w h st es) fs"
  by (induction es arbitrary: h st) simp_all

lemma last_saved_snoc: "last_saved w (h @ [e]) = (case e of Save ck \<Rightarrow> if sw_save w (h @ [e]) = None then Some ck else None | _ \<Rightarrow> last_saved w h)"
  by (simp add: last_saved_def stored_after_append split: sync_event.splits)

lemma not_commit [simp]:
  "\<not> is_commit (manifest_call s p k)" "\<not> is_commit (chunk_call s d b k)" "\<not> is_commit (begin_call ws r k)"
proof -
  have "hr_path (manifest_call s p k) \<noteq> hr_path (commit_call s' q k')" for s' q k'
  proof
    assume "hr_path (manifest_call s p k) = hr_path (commit_call s' q k')"
    then have "last (hr_path (manifest_call s p k)) = last (hr_path (commit_call s' q k'))" by simp
    then show False by (simp add: manifest_call_def commit_call_def)
  qed
  then show "\<not> is_commit (manifest_call s p k)" unfolding is_commit_def by metis
  have "hr_path (begin_call ws r k) \<noteq> hr_path (commit_call s' q k')" for s' q k'
  proof
    assume "hr_path (begin_call ws r k) = hr_path (commit_call s' q k')"
    then have "last (hr_path (begin_call ws r k)) = last (hr_path (commit_call s' q k'))" by simp
    then show False by (simp add: begin_call_def commit_call_def)
  qed
  then show "\<not> is_commit (begin_call ws r k)" unfolding is_commit_def by metis
  show "\<not> is_commit (chunk_call s d b k)" by (auto simp: is_commit_def chunk_call_def commit_call_def)
qed

lemma sync_rule_simps [simp]:
  "sync_rule c input h (Sleep ms)" "sync_rule c input h (Read_chunk d n)" "sync_rule c input h Load"
  "sync_rule c input h Acquire" "sync_rule c input h Release" "\<not> is_commit r \<Longrightarrow> sync_rule c input h (Http r)"
  by (simp_all add: sync_rule_def)

section \<open>Staging\<close>

abbreviation quiet :: "history \<Rightarrow> bool" where "quiet \<equiv> \<lambda>_. True"

text \<open>The same judgement at one history, with introduction rules for straight-line code.\<close>

definition wp ::
  "(history \<Rightarrow> sync_event \<Rightarrow> bool) \<Rightarrow> 'a run \<Rightarrow> ('a \<Rightarrow> history \<Rightarrow> bool) \<Rightarrow> (history \<Rightarrow> bool) \<Rightarrow> history \<Rightarrow> bool" where
  "wp D m Q F h \<longleftrightarrow> spec D (\<lambda>k. k = h) m Q F"

lemma spec_wp: "spec D P m Q F \<longleftrightarrow> (\<forall>h. P h \<longrightarrow> wp D m Q F h)"
  unfolding wp_def spec_def by blast

lemma wp_spec: "spec D P m Q F \<Longrightarrow> P h \<Longrightarrow> wp D m Q F h"
  by (simp add: spec_wp)

lemma wp_bind:
  assumes "wp D m (\<lambda>x. wp D (f x) Q F) F h"
  shows "wp D (bind m f) Q F h"
proof -
  have "spec D (\<lambda>k. k = h) m (\<lambda>x. wp D (f x) Q F) F" using assms by (simp only: wp_def [of D m])
  moreover have "spec D (wp D (f x) Q F) (f x) Q F" for x by (simp add: spec_wp)
  ultimately show ?thesis unfolding wp_def [of D "bind m f"] by (rule spec_bind)
qed

lemma wp_ret: "Q x h \<Longrightarrow> wp D (ret x) Q F h"
  unfolding wp_def by (rule spec_ret) simp

lemma wp_raise: "F h \<Longrightarrow> wp D (raise e) Q F h"
  unfolding wp_def by (rule spec_raise) simp

lemma wp_guard: "(b \<Longrightarrow> Q () h) \<Longrightarrow> F h \<Longrightarrow> wp D (guard b e) Q F h"
  unfolding wp_def by (rule specI) (auto simp: guard_def ret_def raise_def split: if_splits)

lemma wp_lift: "(\<And>x. r = Inr x \<Longrightarrow> Q x h) \<Longrightarrow> F h \<Longrightarrow> wp D (lift r) Q F h"
  unfolding wp_def by (rule specI) (auto simp: lift_def split: sum.splits)

lemma wp_http:
  assumes "D h (Http r)" and "\<And>v. sw_http w (h @ [Http r]) = Inr v \<Longrightarrow> Q v (h @ [Http r])" and "F (h @ [Http r])"
  shows "wp D (http w r) Q F h"
  unfolding wp_def
  by (rule spec_event [where ev = "\<lambda>_. Http r" and res = "\<lambda>h. sw_http w (h @ [Http r])"]) (use assms in \<open>auto simp: http_def\<close>)

lemma wp_read:
  assumes "D h (Read_chunk d n)" and "\<And>v. Q v (h @ [Read_chunk d n])" and "F (h @ [Read_chunk d n])"
  shows "wp D (read_chunk w d n) Q F h"
  unfolding wp_def
  by (rule spec_event [where ev = "\<lambda>_. Read_chunk d n" and res = "\<lambda>h. sw_chunk w (h @ [Read_chunk d n])"])
    (use assms in \<open>auto simp: read_chunk_def\<close>)

lemma wp_load:
  assumes "D h Load" and "\<And>v. sw_load w (h @ [Load]) = Inr v \<Longrightarrow> Q v (h @ [Load])" and "F (h @ [Load])"
  shows "wp D (load_checkpoint w) Q F h"
  unfolding wp_def
  by (rule spec_event [where ev = "\<lambda>_. Load" and res = "\<lambda>h. sw_load w (h @ [Load])"])
    (use assms in \<open>auto simp: load_checkpoint_def\<close>)

abbreviation checkpoint_of :: "sync_identity \<Rightarrow> sync_phase \<Rightarrow> string option \<Rightarrow> int option \<Rightarrow> int option \<Rightarrow> string \<Rightarrow> checkpoint" where
  "checkpoint_of i phase syncId proto generation t \<equiv> \<lparr>ck_identity = i, ck_phase = phase, ck_sync_id = syncId,
     ck_selected_protocol = proto, ck_committed_generation = generation, ck_updated_at = t\<rparr>"

lemma wp_persist:
  assumes "\<And>t. D h (Save (checkpoint_of i phase s p g t))"
    and "\<And>t. sw_save w (h @ [Save (checkpoint_of i phase s p g t)]) = None \<Longrightarrow> Q (checkpoint_of i phase s p g t) (h @ [Save (checkpoint_of i phase s p g t)])"
    and "\<And>t. F (h @ [Save (checkpoint_of i phase s p g t)])"
  shows "wp D (persist w i phase s p g) Q F h"
  unfolding wp_def
  by (rule spec_event [where ev = "\<lambda>h. Save (checkpoint_of i phase s p g (sw_now w h))"
        and res = "\<lambda>h. case sw_save w (h @ [Save (checkpoint_of i phase s p g (sw_now w h))]) of
          None \<Rightarrow> Inr (checkpoint_of i phase s p g (sw_now w h)) | Some e \<Rightarrow> Inl e"])
    (use assms in \<open>auto simp: persist_def Let_def split: option.splits\<close>)

lemmas wp_intros = wp_bind wp_ret wp_raise wp_guard wp_lift wp_http wp_read wp_load wp_persist

lemma spec_client_chunk:
  "spec (sync_rule c input) quiet (client_chunk (cd_env c) (cd_world c) syncId d bytes key) (\<lambda>_. chunk_stored c syncId d) quiet"
  unfolding spec_wp client_chunk_def assertCanonicalUuid_def validateIdempotencyKey_def chunk_stored_def
  by (intro allI impI wp_intros) (auto intro: answered_now)

lemma spec_client_manifest:
  "spec (sync_rule c input) quiet (client_manifest (cd_env c) (cd_world c) syncId page key) (page_receipt c syncId page) quiet"
  unfolding spec_wp client_manifest_def assertCanonicalUuid_def validateIdempotencyKey_def page_receipt_def
  by (intro allI impI wp_intros) (auto intro: answered_now)

lemma spec_client_begin:
  "spec (sync_rule c input) quiet (client_begin (cd_env c) (cd_world c) ws r key) (\<lambda>_ _. True) quiet"
  unfolding spec_wp client_begin_def assertCanonicalUuid_def validateIdempotencyKey_def Let_def
  by (intro allI impI wp_intros) auto

lemma spec_retry_quiet:
  assumes "spec (sync_rule c input) quiet op Q quiet"
  shows "spec (sync_rule c input) quiet (retry c op) Q quiet"
  unfolding retry_def using assms by (rule spec_idempotent) simp

lemma spec_upload_chunk:
  "spec (sync_rule c input) quiet (upload_chunk c syncId proto lengths d) (\<lambda>_. chunk_stored c syncId d) quiet"
proof (cases "map_get lengths d")
  case None
  then show ?thesis by (simp add: upload_chunk_def spec_raise)
next
  case (Some n)
  have r: "wp (sync_rule c input) (retry c (client_chunk (cd_env c) (cd_world c) syncId d bytes key))
      (\<lambda>x. wp (sync_rule c input) (guard (ev_selected_protocol x = proto) e) (\<lambda>_. chunk_stored c syncId d) quiet) quiet h"
    for bytes key e h
    by (rule wp_spec [OF spec_weaken [OF spec_retry_quiet [OF spec_client_chunk]]]) (auto intro: wp_guard)
  show ?thesis
    unfolding spec_wp upload_chunk_def Some option.case
    by (intro allI impI wp_bind wp_read wp_guard r) simp_all
qed

lemma concat_batches: "concat (batches n xs) = xs"
  by (induction n xs rule: batches.induct) simp_all

lemma spec_send_batches:
  "spec (sync_rule c input) quiet (each (\<lambda>batch. settle (map (upload_chunk c syncId proto lengths) batch)) (batches n ds))
     (\<lambda>_ h. \<forall>d \<in> set ds. chunk_stored c syncId d h) quiet"
proof -
  let ?S = "\<lambda>batch h. \<forall>d \<in> set batch. chunk_stored c syncId d h"
  have settle: "spec (sync_rule c input) quiet (settle (map (upload_chunk c syncId proto lengths) batch)) (\<lambda>_. ?S batch) quiet" for batch
  proof (induction batch)
    case Nil
    show ?case by (rule specI) auto
  next
    case (Cons d ds)
    show ?case
    proof (rule specI)
      fix h r h' assume run: "settle (map (upload_chunk c syncId proto lengths) (d # ds)) h = (r, h')"
      obtain r1 h1 r2 h2 where m: "upload_chunk c syncId proto lengths d h = (r1, h1)"
        "settle (map (upload_chunk c syncId proto lengths) ds) h1 = (r2, h2)" by fastforce
      from specD [OF spec_upload_chunk _ m(1)] obtain es where es: "h1 = h @ es" "obeys (sync_rule c input) h es"
        "\<And>x. r1 = Inr x \<Longrightarrow> chunk_stored c syncId d h1" by metis
      from specD [OF Cons.IH _ m(2)] obtain fs where fs: "h2 = h1 @ fs" "obeys (sync_rule c input) h1 fs"
        "\<And>x. r2 = Inr x \<Longrightarrow> ?S ds h2" by metis
      have "r = Inr x \<Longrightarrow> ?S (d # ds) h'" for x
        using run m es(3) fs(1,3) lasting_append [OF chunk_stored_lasting] by (auto split: sum.splits)
      moreover have "h' = h @ (es @ fs)" "obeys (sync_rule c input) h (es @ fs)"
        using run m es fs by (auto simp: obeys_append split: sum.splits)
      ultimately show "(\<exists>es. h' = h @ es \<and> obeys (sync_rule c input) h es) \<and> (case r of Inr x \<Rightarrow> ?S (d # ds) h' | Inl _ \<Rightarrow> True)"
        by (auto split: sum.splits)
    qed
  qed
  have "spec (sync_rule c input) quiet (each (\<lambda>batch. settle (map (upload_chunk c syncId proto lengths) batch)) (batches n ds))
     (\<lambda>_ h. \<forall>batch \<in> set (batches n ds). ?S batch h) quiet"
    by (rule spec_each [OF settle]) (auto simp: lasting_def intro!: lasting_append [OF chunk_stored_lasting])
  moreover have "set ds = (\<Union>batch \<in> set (batches n ds). set batch)" by (metis concat_batches set_concat)
  ultimately show ?thesis by (elim spec_weaken) auto
qed

lemma spec_send_page:
  "spec (sync_rule c input) quiet (send_page c syncId proto root page) (\<lambda>_. page_staged c syncId page) quiet"
proof -
  have b: "wp (sync_rule c input) (each (\<lambda>batch. settle (map (upload_chunk c syncId proto lengths) batch))
      (batches (cd_uploads c) (mr_missing_digests (ev_data rc)))) (\<lambda>_. page_staged c syncId page) quiet h"
    if "page_receipt c syncId page rc h" for rc lengths h
  proof -
    have "spec (sync_rule c input) (\<lambda>h. True \<and> page_receipt c syncId page rc h)
      (each (\<lambda>batch. settle (map (upload_chunk c syncId proto lengths) batch)) (batches (cd_uploads c) (mr_missing_digests (ev_data rc))))
      (\<lambda>_ h. (\<forall>d \<in> set (mr_missing_digests (ev_data rc)). chunk_stored c syncId d h) \<and> page_receipt c syncId page rc h)
      (\<lambda>h. True \<and> page_receipt c syncId page rc h)"
      by (rule spec_frame [OF spec_send_batches page_receipt_lasting])
    then have "spec (sync_rule c input) (page_receipt c syncId page rc)
      (each (\<lambda>batch. settle (map (upload_chunk c syncId proto lengths) batch)) (batches (cd_uploads c) (mr_missing_digests (ev_data rc))))
      (\<lambda>_. page_staged c syncId page) quiet"
      by (rule spec_weaken) (auto simp: page_staged_def)
    then show ?thesis using that by (rule wp_spec)
  qed
  have rest: "wp (sync_rule c input) (bind (guard (ev_selected_protocol rc = proto) e)
      (\<lambda>_. bind (lift ls) (\<lambda>lengths. bind (lift (cm lengths)) (\<lambda>_. each (\<lambda>batch. settle (map (upload_chunk c syncId proto lengths) batch))
      (batches (cd_uploads c) (mr_missing_digests (ev_data rc))))))) (\<lambda>_. page_staged c syncId page) quiet h"
    if "page_receipt c syncId page rc h" for rc h e ls and cm :: "_ \<Rightarrow> cuna_error + unit"
    by (intro wp_bind wp_guard wp_lift b) (use that in auto)
  show ?thesis
    unfolding spec_wp send_page_def
    by (intro allI impI, rule wp_bind, rule wp_spec [OF spec_weaken [OF spec_retry_quiet [OF spec_client_manifest]]])
      (auto intro: rest)
qed

lemma spec_send_pages:
  "spec (sync_rule c input) quiet (send_pages c syncId proto root pages)
     (\<lambda>_ h. (\<forall>p \<in> set (fst pages). page_staged c syncId p h) \<and> snd pages = None) quiet"
proof -
  let ?Q = "\<lambda>_ h. \<forall>p \<in> set (fst pages). page_staged c syncId p h"
  have "spec (sync_rule c input) quiet (each (send_page c syncId proto root) (fst pages)) ?Q quiet"
    by (rule spec_each [OF spec_send_page]) (auto simp: lasting_def intro!: lasting_append [OF page_staged_lasting])
  then show ?thesis
    unfolding send_pages_def by (rule spec_bind) (auto intro: spec_ret spec_raise split: option.splits)
qed

section \<open>Committing\<close>

lemma commit_ready_Sleep: "commit_ready c input syncId h \<Longrightarrow> commit_ready c input syncId (h @ [Sleep ms])"
  using lasting_append [OF page_staged_lasting] by (auto simp: commit_ready_def last_saved_snoc)

lemma commit_ready_Http: "commit_ready c input syncId h \<Longrightarrow> commit_ready c input syncId (h @ [Http r])"
  using lasting_append [OF page_staged_lasting] by (auto simp: commit_ready_def last_saved_snoc)

lemma spec_client_commit:
  "spec (sync_rule c input) (commit_ready c input syncId)
     (client_commit (cd_env c) (cd_world c) syncId (commit_request_of (in_identity input)) (commit_key (cd_env c) syncId (in_identity input)))
     (\<lambda>ev. commit_answered c input syncId (ev_data ev)) (commit_ready c input syncId)"
  unfolding spec_wp client_commit_def assertCanonicalUuid_def validateIdempotencyKey_def
proof (intro allI impI wp_bind wp_guard wp_http, goal_cases)
  case (2 h v)
  then show ?case
    by (intro wp_lift wp_bind wp_guard wp_ret)
      (auto simp: commit_answered_def commit_request_of_def intro: answered_now commit_ready_Http)
qed (auto simp: sync_rule_def is_commit_def intro: commit_ready_Http)

lemma spec_retry_commit:
  "spec (sync_rule c input) (commit_ready c input syncId)
     (retry c (client_commit (cd_env c) (cd_world c) syncId (commit_request_of (in_identity input)) (commit_key (cd_env c) syncId (in_identity input))))
     (\<lambda>ev. commit_answered c input syncId (ev_data ev)) (commit_ready c input syncId)"
  unfolding retry_def by (rule spec_idempotent [OF spec_client_commit]) (simp add: commit_ready_Sleep)

text \<open>
  \<open>finished\<close>: the receipt carries the root of the manifest and the generation of a checkpoint that
  says committed, saved by this run or found by it.
\<close>

definition loaded :: "sync_world \<Rightarrow> history \<Rightarrow> checkpoint \<Rightarrow> bool" where
  "loaded w h ck \<longleftrightarrow> (\<exists>a b. h = a @ Load # b \<and> sw_load w (a @ [Load]) = Inr (Some ck))"

definition accepted :: "sync_world \<Rightarrow> history \<Rightarrow> checkpoint \<Rightarrow> bool" where
  "accepted w h ck \<longleftrightarrow> (\<exists>a b. h = a @ Save ck # b \<and> sw_save w (a @ [Save ck]) = None)"

lemma accepted_now: "sw_save w (h @ [Save ck]) = None \<Longrightarrow> accepted w (h @ [Save ck]) ck"
  unfolding accepted_def by (intro exI [of _ h] exI [of _ "[]"]) simp

lemma accepted_snoc: "accepted w h ck \<Longrightarrow> accepted w (h @ [e]) ck"
  unfolding accepted_def by (metis append.assoc append_Cons)

definition finished :: "coordinator \<Rightarrow> sync_input \<Rightarrow> commit_receipt \<Rightarrow> history \<Rightarrow> bool" where
  "finished c input rc h \<longleftrightarrow> co_manifest_root rc = id_manifest_root (in_identity input) \<and>
     (\<exists>ck. (accepted (cd_world c) h ck \<or> loaded (cd_world c) h ck) \<and> ck_phase ck = Committed \<and> ck_identity ck = in_identity input \<and>
        ck_committed_generation ck = Some (co_generation rc))"

lemma loaded_snoc: "loaded w h ck \<Longrightarrow> loaded w (h @ [e]) ck"
proof -
  assume "loaded w h ck"
  then obtain a b where "h = a @ Load # b" "sw_load w (a @ [Load]) = Inr (Some ck)" unfolding loaded_def by blast
  then show ?thesis unfolding loaded_def by (intro exI [of _ a] exI [of _ "b @ [e]"]) simp
qed

lemma finished_lasting: "lasting (finished c input rc)"
  unfolding lasting_def
proof (intro allI impI)
  fix h e assume "finished c input rc h"
  then obtain ck where *: "co_manifest_root rc = id_manifest_root (in_identity input)" "accepted (cd_world c) h ck \<or> loaded (cd_world c) h ck"
      "ck_phase ck = Committed" "ck_identity ck = in_identity input" "ck_committed_generation ck = Some (co_generation rc)"
    unfolding finished_def by blast
  have "accepted (cd_world c) (h @ [e]) ck \<or> loaded (cd_world c) (h @ [e]) ck"
    using *(2) loaded_snoc accepted_snoc by blast
  with * show "finished c input rc (h @ [e])" unfolding finished_def by blast
qed

lemma spec_stage_and_commit:
  "spec (sync_rule c input) quiet (stage_and_commit c input syncId proto) (finished c input) quiet"
proof -
  let ?i = "in_identity input"
  let ?staged = "\<lambda>h. (\<forall>p \<in> set (fst (pages_of c input)). page_staged c syncId p h) \<and> snd (pages_of c input) = None"
  have fin: "wp (sync_rule c input) (bind (guard b e) (\<lambda>_. bind (persist (cd_world c) ?i Committed (Some syncId) (Some proto)
      (Some (co_generation (ev_data ev)))) (\<lambda>_. ret (ev_data ev)))) (finished c input) quiet h"
    if "commit_answered c input syncId (ev_data ev) h" for ev h b e
  proof -
    let ?ck = "checkpoint_of ?i Committed (Some syncId) (Some proto) (Some (co_generation (ev_data ev)))"
    have root: "co_manifest_root (ev_data ev) = id_manifest_root ?i" using that unfolding commit_answered_def by blast
    have rule: "sync_rule c input h (Save (?ck t))" for t using that by (auto simp: sync_rule_def)
    have fin: "finished c input (ev_data ev) (h @ [Save (?ck t)])" if "sw_save (cd_world c) (h @ [Save (?ck t)]) = None" for t
      unfolding finished_def using that by (intro conjI exI [of _ "?ck t"] root) (auto simp: accepted_now)
    show ?thesis by (intro wp_bind wp_guard wp_persist wp_ret rule fin) simp_all
  qed
  have commit: "wp (sync_rule c input) (bind (retry c (client_commit (cd_env c) (cd_world c) syncId (commit_request_of ?i) (commit_key (cd_env c) syncId ?i)))
      (\<lambda>ev. bind (guard (ev_selected_protocol ev = proto) (contractMismatch ''protocol_changed''))
        (\<lambda>_. bind (persist (cd_world c) ?i Committed (Some syncId) (Some proto) (Some (co_generation (ev_data ev)))) (\<lambda>_. ret (ev_data ev)))))
      (finished c input) quiet h"
    if "commit_ready c input syncId h" for h
  proof -
    have "spec (sync_rule c input) (commit_ready c input syncId)
       (retry c (client_commit (cd_env c) (cd_world c) syncId (commit_request_of ?i) (commit_key (cd_env c) syncId ?i)))
       (\<lambda>ev. commit_answered c input syncId (ev_data ev)) quiet"
      by (rule spec_weaken [OF spec_retry_commit]) simp_all
    moreover have "spec (sync_rule c input) (commit_answered c input syncId (ev_data ev))
       (bind (guard (ev_selected_protocol ev = proto) (contractMismatch ''protocol_changed''))
        (\<lambda>_. bind (persist (cd_world c) ?i Committed (Some syncId) (Some proto) (Some (co_generation (ev_data ev)))) (\<lambda>_. ret (ev_data ev))))
       (finished c input) quiet" for ev
      unfolding spec_wp by (intro allI impI fin)
    ultimately have "spec (sync_rule c input) (commit_ready c input syncId)
       (bind (retry c (client_commit (cd_env c) (cd_world c) syncId (commit_request_of ?i) (commit_key (cd_env c) syncId ?i)))
      (\<lambda>ev. bind (guard (ev_selected_protocol ev = proto) (contractMismatch ''protocol_changed''))
        (\<lambda>_. bind (persist (cd_world c) ?i Committed (Some syncId) (Some proto) (Some (co_generation (ev_data ev)))) (\<lambda>_. ret (ev_data ev)))))
       (finished c input) quiet" by (rule spec_bind)
    then show ?thesis using that by (rule wp_spec)
  qed
  have ready: "commit_ready c input syncId (h @ [Save (checkpoint_of ?i Commit_pending (Some syncId) (Some proto) None t)])"
    if "?staged h" "sw_save (cd_world c) (h @ [Save (checkpoint_of ?i Commit_pending (Some syncId) (Some proto) None t)]) = None" for h t
    using that lasting_append [OF page_staged_lasting] by (auto simp: commit_ready_def last_saved_snoc)
  have "spec (sync_rule c input) ?staged (bind (persist (cd_world c) ?i Commit_pending (Some syncId) (Some proto) None)
      (\<lambda>_. bind (retry c (client_commit (cd_env c) (cd_world c) syncId (commit_request_of ?i) (commit_key (cd_env c) syncId ?i)))
      (\<lambda>ev. bind (guard (ev_selected_protocol ev = proto) (contractMismatch ''protocol_changed''))
        (\<lambda>_. bind (persist (cd_world c) ?i Committed (Some syncId) (Some proto) (Some (co_generation (ev_data ev)))) (\<lambda>_. ret (ev_data ev))))))
      (finished c input) quiet"
    unfolding spec_wp by (intro allI impI, rule wp_bind, rule wp_persist) (auto simp: sync_rule_def intro: commit ready)
  from spec_bind [OF spec_send_pages this] show ?thesis
    unfolding stage_and_commit_def Let_def by simp
qed

lemma spec_on_conflict:
  assumes "spec (sync_rule c input) quiet m Q quiet"
  shows "spec (sync_rule c input) quiet (on_conflict c (in_identity input) syncId proto m) Q quiet"
proof (rule specI)
  fix h r h' assume run: "on_conflict c (in_identity input) syncId proto m h = (r, h')"
  obtain s k where m: "m h = (s, k)" by fastforce
  from specD [OF assms _ m] obtain es where es: "k = h @ es" "obeys (sync_rule c input) h es" "\<And>x. s = Inr x \<Longrightarrow> Q x k" by metis
  show "(\<exists>es. h' = h @ es \<and> obeys (sync_rule c input) h es) \<and> (case r of Inr x \<Rightarrow> Q x h' | Inl _ \<Rightarrow> True)"
  proof (cases "\<exists>e. s = Inl e \<and> isAuthoritativeConflict e")
    case False
    with run m es show ?thesis by (auto simp: on_conflict_def split: sum.splits if_splits)
  next
    case True
    let ?ck = "checkpoint_of (in_identity input) Conflicted (Some syncId) (Some proto) None (sw_now (cd_world c) k)"
    from True run m have h': "h' = k @ [Save ?ck]" "\<And>x. r \<noteq> Inr x"
      by (auto simp: on_conflict_def persist_def Let_def split: option.splits)
    moreover have "obeys (sync_rule c input) k [Save ?ck]" by (simp add: sync_rule_def)
    ultimately show ?thesis using es by (auto simp: obeys_append split: sum.splits)
  qed
qed

lemma spec_begin_session: "spec (sync_rule c input) quiet (begin_session c (in_identity input)) (\<lambda>_ _. True) quiet"
  unfolding begin_session_def
  by (rule spec_bind [OF spec_retry_quiet [OF spec_client_begin]])
    (auto simp: spec_wp sync_rule_def intro!: wp_persist)

lemma spec_continue:
  "spec (sync_rule c input) (\<lambda>h. ck_identity ck = in_identity input \<and> (ck_phase ck = Committed \<longrightarrow> loaded (cd_world c) h ck))
     (continue_from c input ck) (finished c input) quiet"
proof (cases "ck_phase ck = Committed")
  case True
  have "finished c input rc h" if "receipt_of ck = Inr rc" "ck_identity ck = in_identity input" "loaded (cd_world c) h ck" for rc h
    using that True by (auto simp: finished_def receipt_of_def split: option.splits)
  with True show ?thesis
    unfolding spec_wp continue_from_def Let_def by (auto intro!: wp_lift)
next
  case open_phase: False
  show ?thesis
  proof (cases "ck_phase ck = Conflicted")
    case True
    then show ?thesis unfolding continue_from_def Let_def by (simp add: spec_raise)
  next
    case False
    have start: "spec (sync_rule c input) quiet (if ck_sync_id ck = None then begin_session c (in_identity input) else ret ck) (\<lambda>_ _. True) quiet"
      by (simp add: spec_begin_session spec_ret)
    have resume: "spec (sync_rule c input) quiet (case (ck_sync_id k, ck_selected_protocol k) of
         (Some syncId, Some proto) \<Rightarrow> on_conflict c (in_identity input) syncId proto (stage_and_commit c input syncId proto)
       | _ \<Rightarrow> raise (Cuna invalidCheckpoint)) (finished c input) quiet" for k
      using spec_on_conflict [OF spec_stage_and_commit] by (auto intro: spec_raise split: option.splits)
    have body: "continue_from c input ck = bind (if ck_sync_id ck = None then begin_session c (in_identity input) else ret ck)
      (\<lambda>k. case (ck_sync_id k, ck_selected_protocol k) of
         (Some syncId, Some proto) \<Rightarrow> on_conflict c (in_identity input) syncId proto (stage_and_commit c input syncId proto)
       | _ \<Rightarrow> raise (Cuna invalidCheckpoint))"
      using open_phase False by (simp add: continue_from_def Let_def)
    show ?thesis unfolding body by (rule spec_weaken [OF spec_bind [OF start resume]]) auto
  qed
qed

lemma spec_with_lease:
  "spec (sync_rule c input) quiet (synchronizeWithLease c input) (finished c input) quiet"
proof -
  have run: "wp (sync_rule c input) (case l of
         Some ck \<Rightarrow> if ck_identity ck \<noteq> in_identity input then raise (Cuna (conflict ''checkpoint_intent_mismatch''))
                    else continue_from c input ck
       | None \<Rightarrow> bind (persist (cd_world c) (in_identity input) Begin_pending None None None) (continue_from c input))
     (finished c input) quiet (h @ [Load])" if "sw_load (cd_world c) (h @ [Load]) = Inr l" for l h
  proof (cases l)
    case None
    then show ?thesis
      by (auto simp: sync_rule_def intro!: wp_bind wp_persist wp_spec [OF spec_continue])
  next
    case (Some ck)
    with that have "loaded (cd_world c) (h @ [Load]) ck" unfolding loaded_def by blast
    with Some show ?thesis by (auto intro: wp_raise wp_spec [OF spec_continue])
  qed
  show ?thesis
    unfolding spec_wp synchronizeWithLease_def by (intro allI impI, rule wp_bind, rule wp_load) (auto intro: run)
qed

lemma spec_withLease:
  assumes "spec (sync_rule c input) quiet m Q quiet" and "\<And>x. lasting (Q x)"
  shows "spec (sync_rule c input) quiet (withLease w m) Q quiet"
proof (rule specI)
  fix h r h' assume run: "withLease w m h = (r, h')"
  show "(\<exists>es. h' = h @ es \<and> obeys (sync_rule c input) h es) \<and> (case r of Inr x \<Rightarrow> Q x h' | Inl _ \<Rightarrow> True)"
  proof (cases "sw_acquire w (h @ [Acquire])")
    case (Some e)
    with run show ?thesis by (auto simp: withLease_def)
  next
    case None
    obtain s k where m: "m (h @ [Acquire]) = (s, k)" by fastforce
    from specD [OF assms(1) _ m] obtain es where es: "k = (h @ [Acquire]) @ es" "obeys (sync_rule c input) (h @ [Acquire]) es"
      "\<And>x. s = Inr x \<Longrightarrow> Q x k" by metis
    have "h' = h @ (Acquire # es @ [Release])" "obeys (sync_rule c input) h (Acquire # es @ [Release])"
      using run m None es by (auto simp: withLease_def obeys_append split: option.splits)
    moreover have "r = Inr x \<Longrightarrow> Q x h'" for x
      using run m None es(3) assms(2) by (auto simp: withLease_def lasting_def split: option.splits)
    ultimately show ?thesis by (auto split: sum.splits)
  qed
qed

lemma spec_synchronize: "spec (sync_rule c input) quiet (synchronize c input) (finished c input) quiet"
  unfolding spec_wp synchronize_def Let_def assertCanonicalUuid_def
  by (intro allI impI wp_bind wp_guard wp_spec [OF spec_withLease [OF spec_with_lease finished_lasting]]) simp_all

section \<open>What a run guarantees\<close>

lemma synchronize_event: "synchronize c input h = (r, h @ a @ e # b) \<Longrightarrow> sync_rule c input (h @ a) e"
  by (rule specD [OF spec_synchronize [of c input], of h]) (auto dest: obeysD)

text \<open>
  C3. A commit is requested only for what the service already holds: when a run sends a commit, the
  manifest was split into pages without a failure, every page was accepted in the same session, the
  bytes of every digest the service missed were uploaded and acknowledged, and the last checkpoint
  that was saved, which the store accepted, says that this very commit is pending. This holds for
  every service, disk and interruption.
\<close>

theorem commit_after_staging:
  assumes "synchronize c input h = (r, h @ a @ Http q # b)" and "is_commit q"
  shows "\<exists>syncId ck. q = commit_call syncId (commit_request_of (in_identity input)) (commit_key (cd_env c) syncId (in_identity input)) \<and>
     snd (pages_of c input) = None \<and> (\<forall>p \<in> set (fst (pages_of c input)). page_staged c syncId p (h @ a)) \<and>
     last_saved (cd_world c) (h @ a) = Some ck \<and> ck_identity ck = in_identity input \<and> ck_phase ck = Commit_pending \<and> ck_sync_id ck = Some syncId"
  using synchronize_event [OF assms(1)] assms(2) unfolding sync_rule_def commit_ready_def by auto

text \<open>
  C4. The checkpoint never claims more than happened: whatever a run saves is about its own intent,
  and it says committed only after the service answered the commit of that session and manifest
  root, with the generation of that answer.
\<close>

theorem saved_checkpoint_is_true:
  assumes "synchronize c input h = (r, h @ a @ Save ck # b)"
  shows "ck_identity ck = in_identity input \<and> (ck_phase ck = Committed \<longrightarrow>
     (\<exists>syncId rc. ck_sync_id ck = Some syncId \<and> commit_answered c input syncId rc (h @ a) \<and> ck_committed_generation ck = Some (co_generation rc)))"
  using synchronize_event [OF assms] unfolding sync_rule_def by auto

text \<open>
  A successful run leaves its receipt on disk: the receipt is for the manifest root of the input,
  and a checkpoint of the same intent that says committed, with the generation of the receipt, was
  found by the run or saved by it and accepted by the store.
\<close>

theorem synchronize_success:
  assumes "synchronize c input h = (Inr rc, h')"
  shows "finished c input rc h'"
  by (rule specD [OF spec_synchronize [of c input] _ assms]) auto

text \<open>
  Settled intents are not replayed: when the checkpoint found says committed or conflicted, a run
  sends nothing and saves nothing; it gives back the receipt of the checkpoint if that is for the
  same intent and committed, and fails otherwise.
\<close>

theorem settled_checkpoint_sends_nothing:
  assumes "synchronize c input h = (r, h')" and "sw_load (cd_world c) (h @ [Acquire, Load]) = Inr (Some ck)"
    and "ck_phase ck \<in> {Committed, Conflicted}"
  shows "h' \<in> {h, h @ [Acquire], h @ [Acquire, Load, Release]} \<and>
     (case r of Inr rc \<Rightarrow> ck_phase ck = Committed \<and> ck_identity ck = in_identity input \<and> receipt_of ck = Inr rc | Inl _ \<Rightarrow> True)"
proof -
  have inner: "synchronizeWithLease c input (h @ [Acquire]) =
     (if ck_identity ck \<noteq> in_identity input then raise (Cuna (conflict ''checkpoint_intent_mismatch''))
      else if ck_phase ck = Committed then lift (receipt_of ck) else raise (Cuna (conflict ''checkpoint_conflicted''))) (h @ [Acquire, Load])"
    using assms(2,3) by (auto simp: synchronizeWithLease_def bind_def load_checkpoint_def continue_from_def Let_def)
  have lease: "h' \<in> {h @ [Acquire], h @ [Acquire, Load, Release]} \<and>
     (case r of Inr rc \<Rightarrow> ck_phase ck = Committed \<and> ck_identity ck = in_identity input \<and> receipt_of ck = Inr rc | Inl _ \<Rightarrow> True)"
    if "withLease (cd_world c) (synchronizeWithLease c input) h = (r, h')"
    using that inner by (auto simp: withLease_def lift_def raise_def split: option.splits if_splits sum.splits)
  show ?thesis
    using assms(1) lease unfolding synchronize_def Let_def assertCanonicalUuid_def
    by (auto simp: bind_def guard_def ret_def raise_def split: if_splits)
qed

section \<open>Retries\<close>

definition requests :: "history \<Rightarrow> nat" where
  "requests h = length (filter (\<lambda>e. case e of Http _ \<Rightarrow> True | _ \<Rightarrow> False) h)"

definition paused :: "history \<Rightarrow> int" where
  "paused h = sum_list (map (\<lambda>e. case e of Sleep ms \<Rightarrow> ms | _ \<Rightarrow> 0) h)"

lemma requests_append [simp]: "requests (g @ h) = requests g + requests h"
  by (simp add: requests_def)

lemma requests_simps [simp]: "requests [] = 0" "requests [Http q] = 1" "requests [Sleep ms] = 0"
  by (simp_all add: requests_def)

lemma paused_simps [simp]: "paused (g @ h) = paused g + paused h" "paused [] = 0" "paused [Http q] = 0" "paused [Sleep ms] = ms"
  by (simp_all add: paused_def)

text \<open>The pauses before the next attempts, and a run that appends at most one request and no pause.\<close>

fun backoff :: "nat \<Rightarrow> nat \<Rightarrow> int" where
  "backoff 0 attempt = 0"
| "backoff (Suc n) attempt = min 1000 (50 * 2 ^ (attempt - 1)) + backoff n (attempt + 1)"

definition one_request :: "'a run \<Rightarrow> bool" where
  "one_request m \<longleftrightarrow> (\<forall>h. snd (m h) = h \<or> (\<exists>q. snd (m h) = h @ [Http q]))"

lemma backoff_nonneg: "0 \<le> backoff n attempt"
  by (induction n arbitrary: attempt) auto

lemma one_requestD:
  assumes "one_request op" and "op h = (s, k)"
  obtains es where "k = h @ es" "requests es \<le> 1" "paused es = 0"
proof -
  have "k = h \<or> (\<exists>q. k = h @ [Http q])" using assms unfolding one_request_def by (metis snd_conv)
  then show thesis using that [of "[]"] that [of "[Http q]" for q] by auto
qed

lemma idempotent_bounded:
  assumes "one_request op"
  shows "\<exists>es. snd (idempotent w n attempt op h) = h @ es \<and> requests es \<le> n + 1 \<and> paused es \<le> backoff n attempt"
proof (induction n arbitrary: attempt h)
  case 0
  obtain s k where op: "op h = (s, k)" by fastforce
  from one_requestD [OF assms op] obtain es where "k = h @ es" "requests es \<le> 1" "paused es = 0" .
  with op show ?case by (auto simp: idempotent.simps split: sum.splits)
next
  case (Suc n)
  obtain s k where op: "op h = (s, k)" by fastforce
  from one_requestD [OF assms op] obtain es where es: "k = h @ es" "requests es \<le> 1" "paused es = 0" .
  let ?ms = "min 1000 (50 * 2 ^ (attempt - 1)) :: int"
  from Suc.IH [of "attempt + 1" "k @ [Sleep ?ms]"] obtain fs where
    fs: "snd (idempotent w n (attempt + 1) op (k @ [Sleep ?ms])) = h @ (es @ Sleep ?ms # fs)" "requests fs \<le> n + 1"
        "paused fs \<le> backoff n (attempt + 1)" using es(1) by auto
  consider "snd (idempotent w (Suc n) attempt op h) = k" | "snd (idempotent w (Suc n) attempt op h) = k @ [Sleep ?ms]"
    | "snd (idempotent w (Suc n) attempt op h) = snd (idempotent w n (attempt + 1) op (k @ [Sleep ?ms]))"
    using op by (cases s; cases "sw_aborted w k"; cases "sw_aborted w (k @ [Sleep ?ms])"; cases "isAmbiguousOrRetryable (projl s)")
      (simp_all add: idempotent.simps [of w "Suc n"] pause_def Let_def)
  then show ?case
  proof cases
    case 1
    then show ?thesis using es backoff_nonneg [of "Suc n" attempt] by (intro exI [of _ es]) simp
  next
    case 2
    then show ?thesis using es backoff_nonneg [of n "attempt + 1"] by (intro exI [of _ "es @ [Sleep ?ms]"]) simp
  next
    case 3
    have "es @ Sleep ?ms # fs = es @ [Sleep ?ms] @ fs" by simp
    then have "requests (es @ Sleep ?ms # fs) = requests es + requests fs" "paused (es @ Sleep ?ms # fs) = ?ms + paused fs"
      using es(3) by (simp_all only: requests_append paused_simps requests_simps add_0)
    with 3 fs es(2) show ?thesis by (intro exI [of _ "es @ Sleep ?ms # fs"]) simp
  qed
qed

lemma backoff_within_750: "n \<le> 4 \<Longrightarrow> backoff n 1 \<le> 750"
proof -
  assume "n \<le> 4"
  then have "n = 0 \<or> n = 1 \<or> n = 2 \<or> n = 3 \<or> n = 4" by arith
  then show ?thesis by (elim disjE) (simp_all add: numeral_eq_Suc)
qed

lemma idempotent_recovers:
  assumes "\<And>k. \<not> sw_aborted w k" and "isAmbiguousOrRetryable e"
    and op: "\<And>k. op k = (if requests k < n then Inl e else Inr x, k @ [Http q])" and "n \<le> requests h + remaining"
  shows "\<exists>es. idempotent w remaining attempt op h = (Inr x, h @ es) \<and> requests es = Suc (n - requests h)"
  using assms(4)
proof (induction remaining arbitrary: attempt h)
  case 0
  then show ?case by (auto simp: idempotent.simps op)
next
  case (Suc r)
  show ?case
  proof (cases "n \<le> requests h")
    case True
    then show ?thesis by (auto simp: idempotent.simps op)
  next
    case False
    let ?ms = "min 1000 (50 * 2 ^ (attempt - 1)) :: int"
    from Suc.IH [of "h @ [Http q, Sleep ?ms]" "attempt + 1"] Suc.prems obtain es where
      es: "idempotent w r (attempt + 1) op (h @ [Http q, Sleep ?ms]) = (Inr x, (h @ [Http q, Sleep ?ms]) @ es)"
        "requests es = Suc (n - requests (h @ [Http q, Sleep ?ms]))" by (auto simp: requests_def)
    moreover have "idempotent w (Suc r) attempt op h = idempotent w r (attempt + 1) op (h @ [Http q, Sleep ?ms])"
      using False assms(1,2) by (simp add: idempotent.simps [of w "Suc r"] op pause_def Let_def)
    ultimately show ?thesis using False by (intro exI [of _ "Http q # Sleep ?ms # es"]) (auto simp: requests_def)
  qed
qed

definition silent :: "'a run \<Rightarrow> bool" where
  "silent m \<longleftrightarrow> (\<forall>h. snd (m h) = h)"

lemma silent_bind: "silent m \<Longrightarrow> (\<And>x. silent (f x)) \<Longrightarrow> silent (bind m f)"
  by (auto simp: silent_def bind_def split: prod.splits sum.splits) (metis snd_conv)+

lemma silent_simps [simp]: "silent (ret x)" "silent (lift r)" "silent (guard b e)"
  by (auto simp: silent_def ret_def lift_def guard_def raise_def split: sum.splits)

lemma one_request_guard: "(b \<Longrightarrow> one_request (f ())) \<Longrightarrow> one_request (bind (guard b e) f)"
  by (auto simp: one_request_def bind_def guard_def ret_def raise_def)

lemma one_request_http: "(\<And>v. silent (f v)) \<Longrightarrow> one_request (bind (http w q) f)"
  unfolding one_request_def silent_def bind_def http_def by (auto split: sum.splits)

lemmas one_request_intros = one_request_guard one_request_http silent_bind silent_simps

lemma one_request_client:
  "one_request (client_begin env w ws br key)" "one_request (client_manifest env w syncId page key)"
  "one_request (client_chunk env w syncId d bytes key)" "one_request (client_commit env w syncId cr key)"
  "one_request (client_reconcile env w ws rr key)"
  unfolding client_begin_def client_manifest_def client_chunk_def client_commit_def client_reconcile_def
    assertCanonicalUuid_def validateIdempotencyKey_def Let_def
  by (intro one_request_intros)+

definition bounded_call :: "coordinator \<Rightarrow> 'a run \<Rightarrow> history \<Rightarrow> bool" where
  "bounded_call c m h \<longleftrightarrow> (\<exists>es. snd (m h) = h @ es \<and> requests es \<le> cd_attempts c \<and> paused es \<le> 750)"

lemma retry_bounded_call:
  assumes "coordinator_ok c" and "one_request m"
  shows "bounded_call c (retry c m) h"
proof -
  have n: "1 \<le> cd_attempts c" "cd_attempts c - 1 \<le> 4" using assms(1) by (auto simp: coordinator_ok_def)
  from idempotent_bounded [OF assms(2)] obtain es where "snd (retry c m h) = h @ es" "requests es \<le> cd_attempts c - 1 + 1"
    "paused es \<le> backoff (cd_attempts c - 1) 1" unfolding retry_def by blast
  with n backoff_within_750 [OF n(2)] show ?thesis unfolding bounded_call_def by (intro exI [of _ es]) simp
qed

text \<open>
  Retries are bounded: whatever the service does, a begin, a page, a chunk, a commit or a
  reconciliation is requested at most as often as the coordinator was constructed for (at most five
  times), and the pauses between the attempts add up to at most 750 ms.
\<close>

theorem retries_bounded:
  assumes "coordinator_ok c"
  shows "bounded_call c (retry c (client_begin env w ws br key)) h \<and> bounded_call c (retry c (client_manifest env w syncId page key)) h \<and>
     bounded_call c (retry c (client_chunk env w syncId d bytes key)) h \<and> bounded_call c (retry c (client_commit env w syncId cr key)) h \<and>
     bounded_call c (retry c (client_reconcile env w ws rr key)) h"
  by (intro conjI retry_bounded_call [OF assms] one_request_client)

text \<open>
  C38. An outage shorter than the retries is survived: if a call fails in a retryable way until \<open>n\<close>
  requests were made and then succeeds, \<open>n\<close> is less than the number of attempts and nobody aborts, the
  retried call returns what the service gave, after exactly \<open>n + 1\<close> requests.
\<close>

theorem retry_survives_outage:
  assumes "\<And>k. \<not> sw_aborted (cd_world c) k" and "isAmbiguousOrRetryable e" and "n < cd_attempts c"
    and "\<And>k. op k = (if requests k < n then Inl e else Inr x, k @ [Http q])"
  shows "\<exists>es. retry c op [] = (Inr x, es) \<and> requests es = n + 1"
  using idempotent_recovers [OF assms(1,2,4), of "[]" "cd_attempts c - 1" 1] assms(3) by (simp add: retry_def)

section \<open>A run resumed while staging\<close>

abbreviation zeros :: string where "zeros \<equiv> replicate 64 (CHR ''0'')"
abbreviation id_a :: string where "id_a \<equiv> ''00000000-0000-4000-8000-00000000000a''"
abbreviation id_b :: string where "id_b \<equiv> ''00000000-0000-4000-8000-00000000000b''"

definition sample_envelope :: "json \<Rightarrow> json" where
  "sample_envelope d = JObj [(''request_id'', JStr id_a), (''selected_protocol'', JNum (JInt 2)),
     (''capabilities'', JArr (map JStr workspace_sync_capabilities)), (''data'', d)]"

definition sample_session_json :: json where
  "sample_session_json = JObj [(''id'', JStr id_a), (''workspace_id'', JStr id_a), (''machine_id'', JStr id_a), (''base_generation'', JNum (JInt 0)),
     (''exclusion_policy_digest'', JStr zeros), (''selected_protocol'', JNum (JInt 2)),
     (''capabilities'', JArr (map JStr workspace_sync_capabilities)), (''state'', JStr ''staging''),
     (''manifest_entry_count'', JNum (JInt 0)), (''manifest_encoded_bytes'', JNum (JInt 0)), (''content_bytes'', JNum (JInt 0)),
     (''expires_at'', JStr ''t''), (''created_at'', JStr ''t''), (''updated_at'', JStr ''t'')]"

definition sample_answer :: "http_request \<Rightarrow> json" where
  "sample_answer r = sample_envelope (if hr_method r = ''PUT'' then JObj [(''selected_protocol'', JNum (JInt 2)), (''digest'', JStr zeros),
       (''byte_length'', JNum (JInt 3)), (''stored'', JBool True)]
     else if last (hr_path r) = CHR ''t'' then JObj [(''selected_protocol'', JNum (JInt 2)), (''state'', JStr ''committed''),
       (''generation'', JNum (JInt 1)), (''manifest_root'', JStr zeros), (''committed_at'', JStr ''t''),
       (''minimum_reader'', JNum (JInt 1)), (''minimum_writer'', JNum (JInt 1))]
     else JObj [(''sync'', sample_session_json), (''page_index'', JNum (JInt 0)), (''page_digest'', JStr zeros), (''missing_digests'', JArr [JStr zeros])])"

definition sample_input :: sync_input where
  "sample_input = \<lparr>in_identity = \<lparr>id_workspace_id = id_a, id_workspace_binding_id = id_b, id_machine_id = id_a, id_base_generation = 0,
     id_exclusion_policy_digest = zeros, id_manifest_root = zeros\<rparr>, in_entries = [sample_file]\<rparr>"

definition sample_staging :: checkpoint where
  "sample_staging = checkpoint_of (in_identity sample_input) Staging (Some id_a) (Some 2) None ''t''"

definition sample_world :: sync_world where
  "sample_world = \<lparr>sw_acquire = (\<lambda>_. None), sw_release = (\<lambda>_. None), sw_load = (\<lambda>_. Inr (Some sample_staging)), sw_save = (\<lambda>_. None),
     sw_http = (\<lambda>h. case last h of Http r \<Rightarrow> Inr (sample_answer r) | _ \<Rightarrow> Inl Foreign), sw_chunk = (\<lambda>_. Inr [1, 2, 3]), sw_deliver = (\<lambda>_. None),
     sw_aborted = (\<lambda>_. False), sw_now = (\<lambda>_. ''t'')\<rparr>"

definition sample_coordinator :: coordinator where
  "sample_coordinator = \<lparr>cd_env = sample_sync_env, cd_world = sample_world, cd_uploads = 2, cd_attempts = 3\<rparr>"

definition sample_run :: "(sync_failure + commit_receipt) \<times> history" where
  "sample_run = synchronize sample_coordinator sample_input []"

definition sample_commit :: http_request where
  "sample_commit = commit_call id_a (commit_request_of (in_identity sample_input)) (commit_key sample_sync_env id_a (in_identity sample_input))"

definition sample_receipt :: commit_receipt where
  "sample_receipt = \<lparr>co_selected_protocol = 2, co_generation = 1, co_manifest_root = zeros, co_committed_at = ''t'',
     co_minimum_reader = 1, co_minimum_writer = 1\<rparr>"

definition sample_committed :: checkpoint where
  "sample_committed = checkpoint_of (in_identity sample_input) Committed (Some id_a) (Some 2) (Some 1) ''t''"

lemma sample_run_evaluated: "case sample_run of (r, h) \<Rightarrow> r = Inr sample_receipt \<and> length h = 9 \<and> h ! 6 = Http sample_commit \<and> h ! 7 = Save sample_committed"
  by code_simp

lemma sample_run_events: "length (snd sample_run) = 9 \<and> snd sample_run ! 6 = Http sample_commit \<and> snd sample_run ! 7 = Save sample_committed"
  and sample_run_result: "fst sample_run = Inr sample_receipt"
  using sample_run_evaluated by (simp_all add: case_prod_unfold)

lemma sample_run_split:
  "synchronize sample_coordinator sample_input [] = (Inr sample_receipt, [] @ take 6 (snd sample_run) @ Http sample_commit # drop 7 (snd sample_run))"
  "synchronize sample_coordinator sample_input [] = (Inr sample_receipt, [] @ take 7 (snd sample_run) @ Save sample_committed # drop 8 (snd sample_run))"
  using sample_run_events sample_run_result id_take_nth_drop [of 6 "snd sample_run"] id_take_nth_drop [of 7 "snd sample_run"]
  by (simp_all add: sample_run_def prod_eq_iff)

theorem commit_after_staging_witness:
  "\<exists>syncId ck. sample_commit = commit_call syncId (commit_request_of (in_identity sample_input)) (commit_key (cd_env sample_coordinator) syncId (in_identity sample_input)) \<and>
     snd (pages_of sample_coordinator sample_input) = None \<and>
     list_all (\<lambda>p. page_staged sample_coordinator syncId p (take 6 (snd sample_run))) (fst (pages_of sample_coordinator sample_input)) \<and>
     last_saved sample_world (take 6 (snd sample_run)) = Some ck \<and> ck_identity ck = in_identity sample_input \<and> ck_phase ck = Commit_pending \<and> ck_sync_id ck = Some syncId"
proof -
  have "is_commit sample_commit" unfolding is_commit_def sample_commit_def by blast
  from commit_after_staging [OF sample_run_split(1) this] show ?thesis by (simp add: list_all_iff sample_coordinator_def)
qed

theorem saved_checkpoint_is_true_witness:
  "\<exists>rc. commit_answered sample_coordinator sample_input id_a rc (take 7 (snd sample_run)) \<and> co_generation rc = 1"
  using saved_checkpoint_is_true [OF sample_run_split(2)] by (auto simp: sample_committed_def)

theorem synchronize_success_witness: "finished sample_coordinator sample_input sample_receipt (snd sample_run)"
proof (rule synchronize_success)
  show "synchronize sample_coordinator sample_input [] = (Inr sample_receipt, snd sample_run)"
    using sample_run_result by (simp add: sample_run_def prod_eq_iff)
qed

definition resumed_coordinator :: coordinator where
  "resumed_coordinator = sample_coordinator\<lparr>cd_world := sample_world\<lparr>sw_load := \<lambda>_. Inr (Some sample_committed)\<rparr>\<rparr>"

theorem settled_checkpoint_sends_nothing_witness:
  "[Acquire, Load, Release] \<in> {[], [Acquire], [Acquire, Load, Release]} \<and> receipt_of sample_committed = Inr sample_receipt"
proof -
  have "synchronize resumed_coordinator sample_input [] = (Inr sample_receipt, [Acquire, Load, Release])" by code_simp
  from settled_checkpoint_sends_nothing [OF this, of sample_committed] show ?thesis
    by (simp add: resumed_coordinator_def sample_committed_def sample_coordinator_def)
qed

theorem retries_bounded_witness:
  "bounded_call sample_coordinator (retry sample_coordinator (client_commit sample_sync_env sample_world id_a
     (commit_request_of (in_identity sample_input)) zeros)) []"
proof -
  have "coordinator_ok sample_coordinator" by (simp add: coordinator_ok_def sample_coordinator_def concurrent_chunk_uploads_def)
  from retries_bounded [OF this] show ?thesis by blast
qed

text \<open>A service that is unavailable for the first two requests.\<close>

definition unavailable :: sync_failure where
  "unavailable = Cuna \<lparr>ce_code = ''cuna.network.service_unavailable'', ce_exitCode = Exit_remote, ce_hint = None, ce_retryable = False, ce_reason = None\<rparr>"

definition flaky_world :: sync_world where
  "flaky_world = sample_world\<lparr>sw_http := \<lambda>h. if requests h \<le> 2 then Inl unavailable else Inr (sample_answer sample_commit)\<rparr>"

definition sample_commit_call :: "commit_receipt envelope run" where
  "sample_commit_call = client_commit sample_sync_env flaky_world id_a (commit_request_of (in_identity sample_input))
     (commit_key sample_sync_env id_a (in_identity sample_input))"

definition sample_response :: "commit_receipt envelope" where
  "sample_response = \<lparr>ev_request_id = id_a, ev_selected_protocol = 2, ev_data = sample_receipt\<rparr>"

lemma sample_commit_call_run: "sample_commit_call k = (if requests k < 2 then Inl unavailable else Inr sample_response, k @ [Http sample_commit])"
proof -
  have "uuid_text id_a" "16 \<le> utf8_length (commit_key sample_sync_env id_a (in_identity sample_input))"
    "utf8_length (commit_key sample_sync_env id_a (in_identity sample_input)) \<le> 256"
    "\<not> containsAsciiControl (commit_key sample_sync_env id_a (in_identity sample_input))"
    "decodeEnvelope (sample_answer sample_commit) (decodeCommitReceipt sample_sync_env) = Inr sample_response"
    by code_simp+
  moreover have "co_manifest_root (ev_data sample_response) = cq_manifest_root (commit_request_of (in_identity sample_input))"
    "ev_selected_protocol sample_response = co_selected_protocol (ev_data sample_response)"
    by (simp_all add: sample_response_def sample_receipt_def commit_request_of_def sample_input_def)
  ultimately show ?thesis
    by (simp add: sample_commit_call_def client_commit_def bind_def guard_def ret_def raise_def http_def lift_def assertCanonicalUuid_def
        validateIdempotencyKey_def flaky_world_def sample_commit_def [symmetric])
qed

theorem retry_survives_outage_witness:
  "\<exists>es. retry (sample_coordinator\<lparr>cd_world := flaky_world\<rparr>) sample_commit_call [] = (Inr sample_response, es) \<and> requests es = 2 + 1"
  by (rule retry_survives_outage [where e = unavailable and q = sample_commit])
    (simp_all add: sample_commit_call_run flaky_world_def sample_world_def sample_coordinator_def isAmbiguousOrRetryable_def unavailable_def)

end
