(* ===== verification/Checkpoint_Store.thy ===== *)
theory Checkpoint_Store
  imports Sync_Coordinator
begin

text \<open>
  \<^verbatim>\<open>FileWorkspaceSyncCheckpointStore\<close> of \<^verbatim>\<open>src/sync/workspace-sync-coordinator.ts\<close>, the checkpoint of the
  coordinator on disk: the decoders of its two files, and the store as a machine in which any
  number of processes interleave at every call of the file system and may die between two calls.
  The files are those this store wrote; a reader sees a file whole, because every file is put in
  place by \<^verbatim>\<open>link\<close> or \<^verbatim>\<open>rename\<close>. A process runs one transaction at a time.
\<close>

section \<open>The files\<close>

record sync_lease =
  ls_token :: string
  ls_pid :: int
  ls_host :: string
  ls_fence :: int
  ls_created_at :: string

record checkpoint_record =
  cr_checkpoint :: checkpoint
  cr_revision :: int
  cr_fence :: int

definition leaseBusy :: cuna_error where
  "leaseBusy = (sync_error ''checkpoint_busy'' Exit_conflict None)\<lparr>ce_retryable := True\<rparr>"

definition leaseLost :: cuna_error where
  "leaseLost = sync_error ''checkpoint_lease_lost'' Exit_conflict None"

definition staleCheckpoint :: "string \<Rightarrow> cuna_error" where
  "staleCheckpoint reason = sync_error ''checkpoint_stale'' Exit_conflict (Some reason)"

definition canonicalUuid :: "json option \<Rightarrow> cuna_error + string" where
  "canonicalUuid v = text_where uuid_text v invalidCheckpoint"

definition store_digest :: "json option \<Rightarrow> string \<Rightarrow> cuna_error + string" where
  "store_digest v reason = text_where is_sha256_hex v (invalid reason)"

definition store_integer :: "json option \<Rightarrow> int \<Rightarrow> int \<Rightarrow> string \<Rightarrow> cuna_error + int" where
  "store_integer v lo hi reason = (case json_int v of
     Some i \<Rightarrow> if is_safe_integer i \<and> lo \<le> i \<and> i \<le> hi then Inr i else Inl (invalid reason) | None \<Rightarrow> Inl (invalid reason))"

definition boundedStorageInteger :: "json option \<Rightarrow> cuna_error + int" where
  "boundedStorageInteger v = (case json_int v of
     Some i \<Rightarrow> if is_safe_integer i \<and> 0 \<le> i then Inr i else Inl invalidCheckpoint | None \<Rightarrow> Inl invalidCheckpoint)"

fun phase_text :: "sync_phase \<Rightarrow> string" where
  "phase_text Begin_pending = ''begin_pending''"
| "phase_text Staging = ''staging''"
| "phase_text Commit_pending = ''commit_pending''"
| "phase_text Committed = ''committed''"
| "phase_text Conflicted = ''conflicted''"

definition phase_of :: "json option \<Rightarrow> cuna_error + sync_phase" where
  "phase_of v = (if v = Some (JStr ''begin_pending'') then Inr Begin_pending else if v = Some (JStr ''staging'') then Inr Staging
     else if v = Some (JStr ''commit_pending'') then Inr Commit_pending else if v = Some (JStr ''committed'') then Inr Committed
     else if v = Some (JStr ''conflicted'') then Inr Conflicted else Inl invalidCheckpoint)"

definition checkpoint_fields :: "string list" where
  "checkpoint_fields = [''schema_version'', ''workspace_id'', ''workspace_binding_id'', ''machine_id'', ''base_generation'',
     ''exclusion_policy_digest'', ''manifest_root'', ''phase'', ''sync_id'', ''selected_protocol'', ''committed_generation'', ''updated_at'']"

definition null_or :: "json option \<Rightarrow> (json option \<Rightarrow> 'e + 'a) \<Rightarrow> 'e + 'a option" where
  "null_or v f = (if v = Some JNull then Inr None else try_bind (f v) (\<lambda>x. Inr (Some x)))"

definition one_or_two :: "json option \<Rightarrow> cuna_error + int" where
  "one_or_two v = (if v = Some (JNum (JInt 1)) then Inr 1 else if v = Some (JNum (JInt 2)) then Inr 2 else Inl invalidCheckpoint)"

text \<open>The properties of an object as \<^verbatim>\<open>JSON.parse\<close> gives it have distinct names.\<close>

definition decodeCheckpoint :: "(string \<Rightarrow> bool) \<Rightarrow> json \<Rightarrow> cuna_error + checkpoint" where
  "decodeCheckpoint date v = (case v of
     JObj props \<Rightarrow> let source = map_of props in
       if length props \<noteq> length checkpoint_fields \<or> list_ex (\<lambda>(k, _). k \<notin> set checkpoint_fields) props \<or>
          source ''schema_version'' \<noteq> Some (JNum (JInt 2))
       then Inl invalidCheckpoint else
       try_bind (phase_of (source ''phase'')) (\<lambda>phase.
       try_bind (null_or (source ''sync_id'') canonicalUuid) (\<lambda>syncId.
       try_bind (null_or (source ''selected_protocol'') one_or_two) (\<lambda>selectedProtocol.
       try_bind (null_or (source ''committed_generation'') (\<lambda>x. store_integer x 1 max_safe_integer ''committed_generation'')) (\<lambda>committedGeneration.
       if (phase = Begin_pending) \<noteq> (syncId = None) \<or> (syncId = None) \<noteq> (selectedProtocol = None) \<or>
          (phase = Committed) \<noteq> (committedGeneration \<noteq> None)
       then Inl invalidCheckpoint else
       try_bind (text_where date (source ''updated_at'') invalidCheckpoint) (\<lambda>updated.
       try_bind (canonicalUuid (source ''workspace_id'')) (\<lambda>w.
       try_bind (canonicalUuid (source ''workspace_binding_id'')) (\<lambda>b.
       try_bind (canonicalUuid (source ''machine_id'')) (\<lambda>m.
       try_bind (store_integer (source ''base_generation'') 0 max_safe_integer ''base_generation'') (\<lambda>g.
       try_bind (store_digest (source ''exclusion_policy_digest'') ''policy_digest'') (\<lambda>d.
       try_bind (store_digest (source ''manifest_root'') ''manifest_root'') (\<lambda>r.
         Inr \<lparr>ck_identity = \<lparr>id_workspace_id = w, id_workspace_binding_id = b, id_machine_id = m, id_base_generation = g,
                id_exclusion_policy_digest = d, id_manifest_root = r\<rparr>,
              ck_phase = phase, ck_sync_id = syncId, ck_selected_protocol = selectedProtocol,
              ck_committed_generation = committedGeneration, ck_updated_at = updated\<rparr>)))))))))))
   | _ \<Rightarrow> Inl invalidCheckpoint)"

definition decodeCheckpointRecord :: "(string \<Rightarrow> bool) \<Rightarrow> json \<Rightarrow> cuna_error + checkpoint_record" where
  "decodeCheckpointRecord date v = (case v of
     JObj props \<Rightarrow> let source = map_of props; hasRevision = (source ''storage_revision'' \<noteq> None); hasFence = (source ''fence'' \<noteq> None) in
       if hasRevision \<noteq> hasFence then Inl invalidCheckpoint else
       try_bind (decodeCheckpoint date (JObj (filter (\<lambda>(k, _). k \<noteq> ''storage_revision'' \<and> k \<noteq> ''fence'') props))) (\<lambda>ck.
       try_bind (if hasRevision then boundedStorageInteger (source ''storage_revision'') else Inr 0) (\<lambda>r.
       try_bind (if hasFence then boundedStorageInteger (source ''fence'') else Inr 0) (\<lambda>f.
         Inr \<lparr>cr_checkpoint = ck, cr_revision = r, cr_fence = f\<rparr>)))
   | _ \<Rightarrow> Inl invalidCheckpoint)"

definition null_or_int :: "int option \<Rightarrow> json" where
  "null_or_int v = (case v of None \<Rightarrow> JNull | Some i \<Rightarrow> JNum (JInt i))"

text \<open>A checkpoint as the coordinator builds it, and the document that \<^verbatim>\<open>#compareAndSwap\<close> writes.\<close>

definition checkpoint_props :: "checkpoint \<Rightarrow> (string \<times> json) list" where
  "checkpoint_props ck = (''schema_version'', JNum (JInt 2)) # identity_json (ck_identity ck) @
     [(''phase'', JStr (phase_text (ck_phase ck))), (''sync_id'', json_string_or_null (ck_sync_id ck)),
      (''selected_protocol'', null_or_int (ck_selected_protocol ck)), (''committed_generation'', null_or_int (ck_committed_generation ck)),
      (''updated_at'', JStr (ck_updated_at ck))]"

definition record_document :: "checkpoint_record \<Rightarrow> json" where
  "record_document r = JObj (checkpoint_props (cr_checkpoint r) @
     [(''storage_revision'', JNum (JInt (cr_revision r))), (''fence'', JNum (JInt (cr_fence r)))])"

text \<open>\<^verbatim>\<open>/[\p{Cc}\p{Cf}]/u\<close> below 256: the control characters and the soft hyphen.\<close>

definition control_or_format :: "char \<Rightarrow> bool" where
  "control_or_format c \<longleftrightarrow> (let n = of_char c :: nat in n < 32 \<or> (127 \<le> n \<and> n < 160) \<or> n = 173)"

definition lease_fields :: "string list" where
  "lease_fields = [''schema_version'', ''token'', ''pid'', ''host'', ''fence'', ''created_at'']"

definition host_ok :: "string \<Rightarrow> bool" where
  "host_ok s \<longleftrightarrow> 1 \<le> length s \<and> length s \<le> 255 \<and> \<not> list_ex control_or_format s"

definition decodeLease :: "(string \<Rightarrow> bool) \<Rightarrow> json \<Rightarrow> cuna_error + sync_lease" where
  "decodeLease date v = (case v of
     JObj props \<Rightarrow> let source = map_of props in
       if source ''schema_version'' \<noteq> Some (JNum (JInt 1)) \<or> length props \<noteq> length lease_fields \<or> list_ex (\<lambda>(k, _). k \<notin> set lease_fields) props
       then Inl leaseLost else
       try_bind (text_where uuid_text (source ''token'') leaseLost) (\<lambda>t.
       try_bind (case json_int (source ''pid'') of Some i \<Rightarrow> if is_safe_integer i \<and> 1 \<le> i then Inr i else Inl leaseLost | None \<Rightarrow> Inl leaseLost) (\<lambda>p.
       try_bind (text_where host_ok (source ''host'') leaseLost) (\<lambda>h.
       try_bind (text_where date (source ''created_at'') leaseLost) (\<lambda>c.
       try_bind (boundedStorageInteger (source ''fence'')) (\<lambda>f.
         Inr \<lparr>ls_token = t, ls_pid = p, ls_host = h, ls_fence = f, ls_created_at = c\<rparr>)))))
   | _ \<Rightarrow> Inl leaseLost)"

definition lease_document :: "sync_lease \<Rightarrow> json" where
  "lease_document l = JObj [(''schema_version'', JNum (JInt 1)), (''token'', JStr (ls_token l)), (''pid'', JNum (JInt (ls_pid l))),
     (''host'', JStr (ls_host l)), (''fence'', JNum (JInt (ls_fence l))), (''created_at'', JStr (ls_created_at l))]"

section \<open>Transactions\<close>

record hold =
  ho_lease :: sync_lease
  ho_loaded :: bool
  ho_expectedRevision :: int
  ho_cached :: "checkpoint option"

datatype outcome = Ended | Threw cuna_error | Threw_io

text \<open>
  Where a process is: the next call of the file system it makes, and what it has read so far.
  \<open>Out\<close> is outside a transaction, \<open>Held\<close> inside it while the operation of the caller runs.
\<close>

datatype program_point =
    Out outcome
  | Link_claim nat sync_lease
  | Read_prior sync_lease
  | Assert_claim sync_lease sync_lease
  | Put_lease sync_lease sync_lease
  | Drop_check sync_lease cuna_error
  | Drop_unlink sync_lease cuna_error
  | Inspect nat
  | Reclaim nat sync_lease
  | Held hold
  | Load_assert hold
  | Load_read hold
  | Save_assert hold checkpoint
  | Save_read hold checkpoint
  | Save_assert_again hold checkpoint
  | Save_read_again hold checkpoint
  | Save_put hold checkpoint
  | Release_assert hold
  | Release_unlink hold

text \<open>
  What a process does when it is scheduled: it makes its next call (\<open>Proceed\<close>, with the random token
  and the time a new claim would get), its caller starts a transaction, loads, saves or returns, or
  it dies.
\<close>

datatype choice =
    Proceed string string
  | Start string string
  | Do_load
  | Do_save checkpoint
  | Do_return
  | Die

record disk =
  dk_lease :: "sync_lease option"
  dk_record :: "checkpoint_record option"

record store_env =
  sv_host :: string
  sv_date :: "string \<Rightarrow> bool"
  sv_alive :: "int \<Rightarrow> bool"

definition new_claim :: "store_env \<Rightarrow> int \<Rightarrow> string \<Rightarrow> string \<Rightarrow> sync_lease" where
  "new_claim env pid token now = \<lparr>ls_token = token, ls_pid = pid, ls_host = sv_host env, ls_fence = 0, ls_created_at = now\<rparr>"

definition lease_matches :: "sync_lease option \<Rightarrow> sync_lease \<Rightarrow> bool" where
  "lease_matches observed expected \<longleftrightarrow> (case observed of None \<Rightarrow> False | Some l \<Rightarrow> ls_token l = ls_token expected \<and>
     ls_pid l = ls_pid expected \<and> ls_host l = ls_host expected \<and> ls_fence l = ls_fence expected)"

definition record_fence :: "checkpoint_record option \<Rightarrow> int" where
  "record_fence r = (case r of None \<Rightarrow> 0 | Some r \<Rightarrow> cr_fence r)"

definition record_revision :: "checkpoint_record option \<Rightarrow> int" where
  "record_revision r = (case r of None \<Rightarrow> 0 | Some r \<Rightarrow> cr_revision r)"

definition record_committed :: "checkpoint_record option \<Rightarrow> bool" where
  "record_committed r \<longleftrightarrow> (case r of None \<Rightarrow> False | Some r \<Rightarrow> ck_phase (cr_checkpoint r) = Committed)"

definition next_attempt :: "store_env \<Rightarrow> int \<Rightarrow> nat \<Rightarrow> string \<Rightarrow> string \<Rightarrow> program_point" where
  "next_attempt env pid attempt token now = (if attempt + 1 < 4 then Link_claim (attempt + 1) (new_claim env pid token now) else Out (Threw leaseBusy))"

definition fresh_record :: "hold \<Rightarrow> checkpoint_record option \<Rightarrow> bool" where
  "fresh_record h r \<longleftrightarrow> record_revision r = ho_expectedRevision h \<and> record_fence r \<le> ls_fence (ho_lease h)"

text \<open>One call of the file system, by the process \<open>pid\<close>.\<close>

fun proceed :: "store_env \<Rightarrow> int \<Rightarrow> string \<Rightarrow> string \<Rightarrow> program_point \<Rightarrow> disk \<Rightarrow> program_point \<times> disk" where
  "proceed env pid token now (Link_claim attempt claim) d =
     (if dk_lease d = None then (Read_prior claim, d\<lparr>dk_lease := Some claim\<rparr>) else (Inspect attempt, d))"
| "proceed env pid token now (Read_prior claim) d =
     (if record_fence (dk_record d) \<ge> max_safe_integer then (Drop_check claim invalidCheckpoint, d)
      else (Assert_claim claim (claim\<lparr>ls_fence := record_fence (dk_record d) + 1\<rparr>), d))"
| "proceed env pid token now (Assert_claim claim lease) d =
     (if lease_matches (dk_lease d) claim then (Put_lease claim lease, d) else (Drop_check claim leaseLost, d))"
| "proceed env pid token now (Put_lease claim lease) d =
     (Held \<lparr>ho_lease = lease, ho_loaded = False, ho_expectedRevision = 0, ho_cached = None\<rparr>, d\<lparr>dk_lease := Some lease\<rparr>)"
| "proceed env pid token now (Drop_check claim e) d =
     (case dk_lease d of Some l \<Rightarrow> if ls_token l = ls_token claim then (Drop_unlink claim e, d) else (Out (Threw e), d)
      | None \<Rightarrow> (Out (Threw e), d))"
| "proceed env pid token now (Drop_unlink claim e) d = (Out (Threw e), d\<lparr>dk_lease := None\<rparr>)"
| "proceed env pid token now (Inspect attempt) d =
     (case dk_lease d of
        None \<Rightarrow> (Out (Threw leaseLost), d)
      | Some l \<Rightarrow> if ls_host l \<noteq> sv_host env \<or> sv_alive env (ls_pid l) then (Out (Threw leaseBusy), d) else (Reclaim attempt l, d))"
| "proceed env pid token now (Reclaim attempt incumbent) d = (next_attempt env pid attempt token now, d\<lparr>dk_lease := None\<rparr>)"
| "proceed env pid token now (Load_assert h) d =
     (if lease_matches (dk_lease d) (ho_lease h) \<and> \<not> ho_loaded h then (Load_read h, d) else (Held h, d))"
| "proceed env pid token now (Load_read h) d =
     (Held (h\<lparr>ho_expectedRevision := record_revision (dk_record d), ho_cached := map_option cr_checkpoint (dk_record d), ho_loaded := True\<rparr>), d)"
| "proceed env pid token now (Save_assert h ck) d = (if lease_matches (dk_lease d) (ho_lease h) then (Save_read h ck, d) else (Held h, d))"
| "proceed env pid token now (Save_read h ck) d =
     (if \<not> fresh_record h (dk_record d) then (Held h, d)
      else if record_committed (dk_record d) \<and> ck_phase ck \<noteq> Committed then (Held h, d)
      else (Save_assert_again h ck, d))"
| "proceed env pid token now (Save_assert_again h ck) d =
     (if lease_matches (dk_lease d) (ho_lease h) then (Save_read_again h ck, d) else (Held h, d))"
| "proceed env pid token now (Save_read_again h ck) d = (if fresh_record h (dk_record d) then (Save_put h ck, d) else (Held h, d))"
| "proceed env pid token now (Save_put h ck) d =
     (Held (h\<lparr>ho_expectedRevision := ho_expectedRevision h + 1, ho_cached := Some ck\<rparr>),
      d\<lparr>dk_record := Some \<lparr>cr_checkpoint = ck, cr_revision = ho_expectedRevision h + 1, cr_fence = ls_fence (ho_lease h)\<rparr>\<rparr>)"
| "proceed env pid token now (Release_assert h) d =
     (if lease_matches (dk_lease d) (ho_lease h) then (Release_unlink h, d) else (Out (Threw leaseLost), d))"
| "proceed env pid token now (Release_unlink h) d =
     (case dk_lease d of None \<Rightarrow> (Out Threw_io, d) | Some _ \<Rightarrow> (Out Ended, d\<lparr>dk_lease := None\<rparr>))"
| "proceed env pid token now pc d = (pc, d)"

definition act_on :: "store_env \<Rightarrow> int \<Rightarrow> choice \<Rightarrow> program_point \<Rightarrow> disk \<Rightarrow> program_point \<times> disk" where
  "act_on env pid a pc d = (case (a, pc) of
     (Proceed token now, _) \<Rightarrow> proceed env pid token now pc d
   | (Start token now, Out _) \<Rightarrow> (Link_claim 0 (new_claim env pid token now), d)
   | (Do_load, Held h) \<Rightarrow> (Load_assert h, d)
   | (Do_save ck, Held h) \<Rightarrow> if \<not> ho_loaded h then (pc, d)
        else (case decodeCheckpoint (sv_date env) (JObj (checkpoint_props ck)) of Inl _ \<Rightarrow> (pc, d) | Inr v \<Rightarrow> (Save_assert h v, d))
   | (Do_return, Held h) \<Rightarrow> (Release_assert h, d)
   | _ \<Rightarrow> (pc, d))"

record store_state =
  st_disk :: disk
  st_pc :: "int \<Rightarrow> program_point"
  st_alive :: "int \<Rightarrow> bool"

definition store_step :: "string \<Rightarrow> (string \<Rightarrow> bool) \<Rightarrow> int \<times> choice \<Rightarrow> store_state \<Rightarrow> store_state" where
  "store_step host date e s = (case e of (pid, a) \<Rightarrow>
     if \<not> st_alive s pid then s
     else if a = Die then s\<lparr>st_alive := (st_alive s)(pid := False)\<rparr>
     else case act_on \<lparr>sv_host = host, sv_date = date, sv_alive = st_alive s\<rparr> pid a (st_pc s pid) (st_disk s) of
       (pc, d) \<Rightarrow> s\<lparr>st_disk := d, st_pc := (st_pc s)(pid := pc)\<rparr>)"

fun run_store :: "string \<Rightarrow> (string \<Rightarrow> bool) \<Rightarrow> (int \<times> choice) list \<Rightarrow> store_state \<Rightarrow> store_state" where
  "run_store host date [] s = s"
| "run_store host date (e # es) s = run_store host date es (store_step host date e s)"

text \<open>
  A step is orderly unless it moves away another lease than the one it has inspected: \<^verbatim>\<open>rename\<close> in the
  reclaiming of a stale lease takes whatever is there by then. Which leases may be reclaimed at all
  is left to the guard of the code.
\<close>

definition orderly :: "int \<times> choice \<Rightarrow> store_state \<Rightarrow> bool" where
  "orderly e s \<longleftrightarrow> (case (snd e, st_pc s (fst e), dk_lease (st_disk s)) of
     (Proceed _ _, Reclaim _ incumbent, Some l) \<Rightarrow> l = incumbent | _ \<Rightarrow> True)"

definition orderly_step :: "string \<Rightarrow> (string \<Rightarrow> bool) \<Rightarrow> store_state \<Rightarrow> store_state \<Rightarrow> bool" where
  "orderly_step host date s t \<longleftrightarrow> (\<exists>e. orderly e s \<and> t = store_step host date e s)"

definition all_out :: "store_state \<Rightarrow> bool" where
  "all_out s \<longleftrightarrow> (\<forall>p. \<exists>r. st_pc s p = Out r)"

text \<open>The lease a process relies on from the moment its claim is linked.\<close>

fun relies_on :: "program_point \<Rightarrow> sync_lease option" where
  "relies_on (Read_prior c) = Some c"
| "relies_on (Assert_claim c l) = Some c"
| "relies_on (Put_lease c l) = Some c"
| "relies_on (Drop_check c e) = Some c"
| "relies_on (Drop_unlink c e) = Some c"
| "relies_on (Held h) = Some (ho_lease h)"
| "relies_on (Load_assert h) = Some (ho_lease h)"
| "relies_on (Load_read h) = Some (ho_lease h)"
| "relies_on (Save_assert h ck) = Some (ho_lease h)"
| "relies_on (Save_read h ck) = Some (ho_lease h)"
| "relies_on (Save_assert_again h ck) = Some (ho_lease h)"
| "relies_on (Save_read_again h ck) = Some (ho_lease h)"
| "relies_on (Save_put h ck) = Some (ho_lease h)"
| "relies_on (Release_assert h) = Some (ho_lease h)"
| "relies_on (Release_unlink h) = Some (ho_lease h)"
| "relies_on pc = None"

section \<open>One transaction at a time\<close>

fun hold_of :: "program_point \<Rightarrow> hold option" where
  "hold_of (Held h) = Some h"
| "hold_of (Load_assert h) = Some h"
| "hold_of (Load_read h) = Some h"
| "hold_of (Save_assert h ck) = Some h"
| "hold_of (Save_read h ck) = Some h"
| "hold_of (Save_assert_again h ck) = Some h"
| "hold_of (Save_read_again h ck) = Some h"
| "hold_of (Save_put h ck) = Some h"
| "hold_of (Release_assert h) = Some h"
| "hold_of (Release_unlink h) = Some h"
| "hold_of pc = None"

definition hold_ok :: "checkpoint_record option \<Rightarrow> hold \<Rightarrow> bool" where
  "hold_ok r h \<longleftrightarrow> record_fence r \<le> ls_fence (ho_lease h) \<and> (ho_loaded h \<longrightarrow> record_revision r = ho_expectedRevision h)"

definition lease_ok :: "disk \<Rightarrow> int \<Rightarrow> program_point \<Rightarrow> bool" where
  "lease_ok d pid pc \<longleftrightarrow> (\<forall>l. relies_on pc = Some l \<longrightarrow> dk_lease d = Some l \<and> ls_pid l = pid)"

fun detail_ok :: "checkpoint_record option \<Rightarrow> int \<Rightarrow> program_point \<Rightarrow> bool" where
  "detail_ok r pid (Link_claim n c) = (ls_pid c = pid)"
| "detail_ok r pid (Assert_claim c l) = (ls_pid l = pid \<and> record_fence r \<le> ls_fence l)"
| "detail_ok r pid (Put_lease c l) = (ls_pid l = pid \<and> record_fence r \<le> ls_fence l)"
| "detail_ok r pid (Save_assert h ck) = ho_loaded h"
| "detail_ok r pid (Save_read h ck) = ho_loaded h"
| "detail_ok r pid (Save_assert_again h ck) = (ho_loaded h \<and> (record_committed r \<longrightarrow> ck_phase ck = Committed))"
| "detail_ok r pid (Save_read_again h ck) = (ho_loaded h \<and> (record_committed r \<longrightarrow> ck_phase ck = Committed))"
| "detail_ok r pid (Save_put h ck) = (ho_loaded h \<and> (record_committed r \<longrightarrow> ck_phase ck = Committed))"
| "detail_ok r pid pc = True"

definition pc_ok :: "disk \<Rightarrow> int \<Rightarrow> program_point \<Rightarrow> bool" where
  "pc_ok d pid pc \<longleftrightarrow> lease_ok d pid pc \<and> (\<forall>h. hold_of pc = Some h \<longrightarrow> hold_ok (dk_record d) h) \<and> detail_ok (dk_record d) pid pc"

text \<open>A lease is reclaimed only from a process that has died, and the dead stay dead.\<close>

definition reclaims_dead :: "(int \<Rightarrow> bool) \<Rightarrow> program_point \<Rightarrow> bool" where
  "reclaims_dead alive pc \<longleftrightarrow> (\<forall>n l. pc = Reclaim n l \<longrightarrow> \<not> alive (ls_pid l))"

definition store_inv :: "store_state \<Rightarrow> bool" where
  "store_inv s \<longleftrightarrow> (\<forall>p. st_alive s p \<longrightarrow> pc_ok (st_disk s) p (st_pc s p) \<and> reclaims_dead (st_alive s) (st_pc s p))"

lemmas pc_ok_defs = pc_ok_def lease_ok_def hold_ok_def

lemma record_simps [simp]:
  "record_fence (Some r) = cr_fence r" "record_revision (Some r) = cr_revision r" "record_committed (Some r) = (ck_phase (cr_checkpoint r) = Committed)"
  by (simp_all add: record_fence_def record_revision_def record_committed_def)

lemma proceed_own:
  assumes "pc_ok d pid pc" and "proceed env pid token now pc d = (pc', d')"
  shows "pc_ok d' pid pc'"
  using assms
  by (cases pc) (auto simp: pc_ok_defs new_claim_def next_attempt_def split: if_splits option.splits)

lemma act_own:
  assumes "pc_ok d pid pc" and "act_on env pid a pc d = (pc', d')"
  shows "pc_ok d' pid pc'"
proof (cases a)
  case (Proceed token now)
  with assms show ?thesis by (auto simp: act_on_def intro: proceed_own)
qed (use assms in \<open>auto simp: act_on_def pc_ok_defs new_claim_def split: program_point.splits sum.splits if_splits\<close>)

text \<open>A process that relies on no lease touches only an absent lease or, when it reclaims, any.\<close>

lemma proceed_foreign:
  assumes "relies_on pc = None" and "proceed env pid token now pc d = (pc', d')" and "dk_lease d = Some l" and "\<And>n i. pc \<noteq> Reclaim n i"
  shows "d' = d"
  using assms by (cases pc) (auto split: if_splits)

lemma act_foreign:
  assumes "relies_on pc = None" and "act_on env pid a pc d = (pc', d')" and "dk_lease d = Some l"
    and "\<And>token now n i. a = Proceed token now \<Longrightarrow> pc \<noteq> Reclaim n i"
  shows "d' = d"
proof (cases a)
  case (Proceed token now)
  with assms(2) have "proceed env pid token now pc d = (pc', d')" by (simp add: act_on_def)
  from proceed_foreign [OF assms(1) this assms(3)] assms(4) Proceed show ?thesis by blast
qed (use assms in \<open>auto simp: act_on_def split: program_point.splits sum.splits if_splits\<close>)

lemma act_other:
  assumes p: "pc_ok d p pc" and q: "pc_ok d q qc" and "p \<noteq> q" and step: "act_on env p a pc d = (pc', d')"
    and reclaim: "\<And>token now n i l. a = Proceed token now \<Longrightarrow> pc = Reclaim n i \<Longrightarrow> dk_lease d = Some l \<Longrightarrow> ls_pid l \<noteq> q"
  shows "pc_ok d' q qc"
proof (cases "relies_on qc")
  case None
  then show ?thesis using q by (cases qc) (auto simp: pc_ok_defs)
next
  case (Some l)
  with q have l: "dk_lease d = Some l" "ls_pid l = q" by (auto simp: pc_ok_defs)
  with p \<open>p \<noteq> q\<close> have "relies_on pc = None" by (cases "relies_on pc") (auto simp: pc_ok_defs)
  with l step reclaim have "d' = d" by (metis act_foreign)
  with q show ?thesis by simp
qed

lemma act_reclaims_dead:
  assumes "reclaims_dead (sv_alive env) pc" and "act_on env pid a pc d = (pc', d')"
  shows "reclaims_dead (sv_alive env) pc'"
proof (cases a)
  case (Proceed token now)
  with assms show ?thesis
    by (cases pc) (auto simp: act_on_def reclaims_dead_def next_attempt_def split: if_splits option.splits)
qed (use assms in \<open>auto simp: act_on_def reclaims_dead_def split: program_point.splits sum.splits if_splits\<close>)

lemma checkpoint_step_inv:
  assumes "store_inv s" and "orderly_step host date s t"
  shows "store_inv t"
proof -
  from assms(2) obtain pid a where o: "orderly (pid, a) s" and t: "t = store_step host date (pid, a) s"
    unfolding orderly_step_def by auto
  show ?thesis
  proof (cases "st_alive s pid \<and> a \<noteq> Die")
    case False
    with assms(1) t show ?thesis by (auto simp: store_step_def store_inv_def reclaims_dead_def)
  next
    case True
    obtain pc' d' where c: "act_on \<lparr>sv_host = host, sv_date = date, sv_alive = st_alive s\<rparr> pid a (st_pc s pid) (st_disk s) = (pc', d')"
      by fastforce
    with True t have t': "t = s\<lparr>st_disk := d', st_pc := (st_pc s)(pid := pc')\<rparr>" by (simp add: store_step_def)
    have "pc_ok d' q (st_pc s q)" if "st_alive s q" "q \<noteq> pid" for q
    proof (rule act_other [OF _ _ _ c])
      show "ls_pid l \<noteq> q" if "a = Proceed token now" "st_pc s pid = Reclaim n i" "dk_lease (st_disk s) = Some l" for token now n i l
        using o that \<open>st_alive s q\<close> assms(1) True by (auto simp: orderly_def store_inv_def reclaims_dead_def)
    qed (use assms(1) that True in \<open>auto simp: store_inv_def\<close>)
    moreover have "pc_ok d' pid pc'" using assms(1) True c by (auto simp: store_inv_def intro: act_own)
    moreover have "reclaims_dead (st_alive s) pc'" using assms(1) True act_reclaims_dead [OF _ c] by (simp add: store_inv_def)
    ultimately show ?thesis using assms(1) unfolding store_inv_def t' by simp
  qed
qed

interpretation checkpoint_store: invariant_system all_out "orderly_step host date" store_inv for host date
proof unfold_locales
  show "store_inv s" if "all_out s" for s
    unfolding store_inv_def
  proof (intro allI impI)
    fix p
    from that obtain r where "st_pc s p = Out r" unfolding all_out_def by blast
    then show "pc_ok (st_disk s) p (st_pc s p) \<and> reclaims_dead (st_alive s) (st_pc s p)" by (simp add: pc_ok_defs reclaims_dead_def)
  qed
qed (rule checkpoint_step_inv)

lemma store_invD:
  assumes "store_inv s" and "st_alive s p" and "relies_on (st_pc s p) = Some l"
  shows "dk_lease (st_disk s) = Some l \<and> ls_pid l = p"
proof -
  have "lease_ok (st_disk s) p (st_pc s p)" using assms(1,2) by (simp add: store_inv_def pc_ok_def)
  with assms(3) show ?thesis by (simp add: lease_ok_def)
qed

lemma proceed_record:
  assumes "proceed env pid token now pc d = (pc', d')" and "dk_record d' \<noteq> dk_record d"
  shows "\<exists>h ck. pc = Save_put h ck \<and> dk_record d' = Some \<lparr>cr_checkpoint = ck, cr_revision = ho_expectedRevision h + 1,
    cr_fence = ls_fence (ho_lease h)\<rparr>"
  using assms by (cases pc) (auto split: if_splits option.splits)

lemma act_record:
  assumes "act_on env pid a pc d = (pc', d')" and "dk_record d' \<noteq> dk_record d"
  shows "\<exists>h ck. pc = Save_put h ck \<and> dk_record d' = Some \<lparr>cr_checkpoint = ck, cr_revision = ho_expectedRevision h + 1,
    cr_fence = ls_fence (ho_lease h)\<rparr>"
proof (cases a)
  case (Proceed token now)
  with assms show ?thesis by (intro proceed_record) (auto simp: act_on_def)
qed (use assms in \<open>auto simp: act_on_def split: program_point.splits sum.splits if_splits\<close>)

text \<open>
  C5. One transaction at a time: as long as every process that reclaims a lease moves away the lease it
  has inspected, and not one that was put there in between, two living processes are never inside
  a transaction at once, however their calls interleave and whoever dies between two of them.
\<close>

theorem checkpoint_exclusive:
  assumes "all_out s" and "(orderly_step host date)\<^sup>*\<^sup>* s t" and "st_alive t p" and "st_alive t q"
    and "relies_on (st_pc t p) \<noteq> None" and "relies_on (st_pc t q) \<noteq> None"
  shows "p = q"
proof -
  from checkpoint_store.reachable_inv [OF assms(1,2)] have inv: "store_inv t" .
  from assms(5,6) obtain l m where "relies_on (st_pc t p) = Some l" "relies_on (st_pc t q) = Some m" by blast
  with store_invD [OF inv assms(3)] store_invD [OF inv assms(4)] show ?thesis by fastforce
qed

text \<open>
  Under the same condition every step leaves the stored record as it is or replaces it by one with
  the next revision and a fence that is not older, and a record that says committed is only replaced
  by one that says so too.
\<close>

theorem committed_record_stays:
  assumes "all_out s" and "(orderly_step host date)\<^sup>*\<^sup>* s t" and "u = store_step host date e t"
    and "dk_record (st_disk u) \<noteq> dk_record (st_disk t)"
  shows "record_revision (dk_record (st_disk u)) = record_revision (dk_record (st_disk t)) + 1 \<and>
     record_fence (dk_record (st_disk t)) \<le> record_fence (dk_record (st_disk u)) \<and>
     (record_committed (dk_record (st_disk t)) \<longrightarrow> record_committed (dk_record (st_disk u)))"
proof -
  from checkpoint_store.reachable_inv [OF assms(1,2)] have inv: "store_inv t" .
  obtain pid a where e: "e = (pid, a)" by fastforce
  have alive: "st_alive t pid" "a \<noteq> Die" using assms(3,4) e by (auto simp: store_step_def split: if_splits)
  obtain pc' d' where c: "act_on \<lparr>sv_host = host, sv_date = date, sv_alive = st_alive t\<rparr> pid a (st_pc t pid) (st_disk t) = (pc', d')"
    by fastforce
  with alive assms(3) e have u: "st_disk u = d'" by (simp add: store_step_def)
  with act_record [OF c] assms(4) obtain h ck where pc: "st_pc t pid = Save_put h ck" and d: "dk_record d' = Some \<lparr>cr_checkpoint = ck,
      cr_revision = ho_expectedRevision h + 1, cr_fence = ls_fence (ho_lease h)\<rparr>" by auto
  from inv alive pc have "pc_ok (st_disk t) pid (Save_put h ck)" unfolding store_inv_def by metis
  with u d show ?thesis by (simp add: pc_ok_defs)
qed

section \<open>Compare and swap\<close>

text \<open>
  What a process has seen of the record: the revision it read when its transaction loaded, or the
  one its last save wrote.
\<close>

definition sees :: "string \<Rightarrow> (string \<Rightarrow> bool) \<Rightarrow> int \<Rightarrow> int \<times> choice \<Rightarrow> store_state \<Rightarrow> int option \<Rightarrow> int option" where
  "sees host date pid e s r = (case e of (p, Proceed token now) \<Rightarrow>
       if p = pid \<and> st_alive s pid then (case st_pc s pid of
           Load_read h \<Rightarrow> Some (record_revision (dk_record (st_disk s)))
         | Save_put h ck \<Rightarrow> Some (record_revision (dk_record (st_disk (store_step host date e s))))
         | _ \<Rightarrow> r) else r
     | _ \<Rightarrow> r)"

fun seen_in :: "string \<Rightarrow> (string \<Rightarrow> bool) \<Rightarrow> int \<Rightarrow> (int \<times> choice) list \<Rightarrow> store_state \<Rightarrow> int option \<Rightarrow> int option" where
  "seen_in host date pid [] s r = r"
| "seen_in host date pid (e # es) s r = seen_in host date pid es (store_step host date e s) (sees host date pid e s r)"

definition knows :: "int option \<Rightarrow> program_point \<Rightarrow> bool" where
  "knows r pc \<longleftrightarrow> (\<forall>h. hold_of pc = Some h \<longrightarrow> ho_loaded h \<longrightarrow> r = Some (ho_expectedRevision h)) \<and>
     (case pc of Save_assert h ck \<Rightarrow> ho_loaded h | Save_read h ck \<Rightarrow> ho_loaded h | Save_assert_again h ck \<Rightarrow> ho_loaded h
        | Save_read_again h ck \<Rightarrow> ho_loaded h | Save_put h ck \<Rightarrow> ho_loaded h | _ \<Rightarrow> True)"

lemma proceed_knows:
  assumes "knows r pc" and "proceed env pid token now pc d = (pc', d')"
  shows "knows (case pc of Load_read h \<Rightarrow> Some (record_revision (dk_record d)) | Save_put h ck \<Rightarrow> Some (record_revision (dk_record d')) | _ \<Rightarrow> r) pc'"
  using assms by (cases pc) (auto simp: knows_def next_attempt_def split: if_splits option.splits)

lemma act_knows:
  assumes "knows r pc" and "act_on env pid a pc d = (pc', d')" and "\<And>token now. a \<noteq> Proceed token now"
  shows "knows r pc'"
proof (cases a)
  case (Do_save ck)
  with assms show ?thesis by (cases pc) (auto simp: act_on_def knows_def split: if_splits sum.splits)
qed (use assms in \<open>cases pc; auto simp: act_on_def knows_def\<close>)+

lemma store_step_knows:
  assumes "knows r (st_pc s pid)"
  shows "knows (sees host date pid e s r) (st_pc (store_step host date e s) pid)"
proof -
  obtain p a where e: "e = (p, a)" by fastforce
  obtain pc' d' where c: "act_on \<lparr>sv_host = host, sv_date = date, sv_alive = st_alive s\<rparr> p a (st_pc s p) (st_disk s) = (pc', d')" by fastforce
  show ?thesis
  proof (cases "p = pid \<and> st_alive s pid \<and> a \<noteq> Die")
    case False
    with assms e show ?thesis by (auto simp: sees_def store_step_def split: choice.splits prod.splits)
  next
    case True
    with c e have t: "st_pc (store_step host date e s) pid = pc'" "st_disk (store_step host date e s) = d'" by (simp_all add: store_step_def)
    show ?thesis
    proof (cases a)
      case (Proceed token now)
      with c True have "proceed \<lparr>sv_host = host, sv_date = date, sv_alive = st_alive s\<rparr> pid token now (st_pc s pid) (st_disk s) = (pc', d')"
        by (simp add: act_on_def)
      from proceed_knows [OF assms this] t True Proceed e show ?thesis by (cases "st_pc s pid") (simp_all add: sees_def)
    qed (use act_knows [OF assms] c t True e in \<open>auto simp: sees_def\<close>)
  qed
qed

lemma run_store_knows: "knows r (st_pc s pid) \<Longrightarrow> knows (seen_in host date pid es s r) (st_pc (run_store host date es s) pid)"
  by (induction es arbitrary: s r) (simp_all add: store_step_knows)

text \<open>
  C6. Saving is a compare and swap, even if leases are stolen: after any interleaving of any processes,
  a process that makes the last check of a save and then puts the new record in place, with nobody
  in between, replaces the record exactly if that still has the revision this process has seen and
  no newer fence, and then by the next revision with its own fence; otherwise nothing is written
  and the save fails.
\<close>

theorem checkpoint_compare_and_swap:
  assumes "all_out s" and "t = run_store host date es s" and "st_alive t pid" and "st_pc t pid = Save_read_again h ck"
    and "u = store_step host date (pid, Proceed tok now) t" and "v = store_step host date (pid, Proceed tok' now') u"
  shows "\<exists>r. seen_in host date pid es s None = Some r \<and>
     (if record_revision (dk_record (st_disk t)) = r \<and> record_fence (dk_record (st_disk t)) \<le> ls_fence (ho_lease h)
      then dk_record (st_disk v) = Some \<lparr>cr_checkpoint = ck, cr_revision = r + 1, cr_fence = ls_fence (ho_lease h)\<rparr>
      else st_pc u pid = Held h \<and> st_disk v = st_disk t)"
proof -
  from assms(1) obtain o0 where "st_pc s pid = Out o0" unfolding all_out_def by blast
  then have "knows None (st_pc s pid)" by (simp add: knows_def)
  from run_store_knows [OF this, of host date es] assms(2,4) have r: "seen_in host date pid es s None = Some (ho_expectedRevision h)"
    by (simp add: knows_def)
  show ?thesis
  proof (cases "fresh_record h (dk_record (st_disk t))")
    case True
    with assms(3-6) show ?thesis by (intro exI [of _ "ho_expectedRevision h"]) (simp add: r store_step_def act_on_def fresh_record_def)
  next
    case False
    with assms(3-6) show ?thesis by (intro exI [of _ "ho_expectedRevision h"]) (auto simp: r store_step_def act_on_def fresh_record_def)
  qed
qed

section \<open>The race for a stale lease\<close>

abbreviation race_checkpoint :: "sync_phase \<Rightarrow> int option \<Rightarrow> checkpoint" where
  "race_checkpoint phase g \<equiv> checkpoint_of (in_identity sample_input) phase (Some id_a) (Some 2) g ''t''"

definition race_start :: store_state where
  "race_start = \<lparr>st_disk = \<lparr>dk_lease = Some \<lparr>ls_token = id_a, ls_pid = 9, ls_host = ''h'', ls_fence = 3, ls_created_at = ''t''\<rparr>,
       dk_record = Some \<lparr>cr_checkpoint = race_checkpoint Staging None, cr_revision = 5, cr_fence = 3\<rparr>\<rparr>,
     st_pc = (\<lambda>_. Out Ended), st_alive = (\<lambda>p. p \<noteq> 9)\<rparr>"

definition calls :: "int \<Rightarrow> nat \<Rightarrow> (int \<times> choice) list" where
  "calls pid n = replicate n (pid, Proceed id_b ''t'')"

text \<open>
  Both processes find the lease of the dead process 9. The first reclaims it, acquires the lease and
  is about to put its pending commit in place; the second reclaims what is now the lease of the first.
\<close>

definition race_to_reclaim :: "(int \<times> choice) list" where
  "race_to_reclaim = (1, Start id_a ''t'') # calls 1 2 @ (2, Start id_b ''t'') # calls 2 2 @
     calls 1 5 @ (1, Do_load) # calls 1 2 @ (1, Do_save (race_checkpoint Commit_pending None)) # calls 1 4 @
     calls 2 5"

definition race_commit :: "(int \<times> choice) list" where
  "race_commit = (2, Do_load) # calls 2 2 @ (2, Do_save (race_checkpoint Committed (Some 1))) # calls 2 5"

abbreviation race_run :: "(int \<times> choice) list \<Rightarrow> store_state" where
  "race_run es \<equiv> run_store ''h'' (\<lambda>s. s \<noteq> []) es race_start"

text \<open>
  C7. Reclaiming a stale lease can take the lease of a living process: two processes that inspect the
  same stale lease can both end up inside a transaction, and the second one's committed checkpoint
  is then replaced by the first one's pending one.
\<close>

theorem stale_lease_race:
  "all_out race_start \<and>
   (let s = race_run race_to_reclaim in st_alive s 1 \<and> st_alive s 2 \<and> relies_on (st_pc s 1) \<noteq> None \<and> relies_on (st_pc s 2) \<noteq> None) \<and>
   record_committed (dk_record (st_disk (race_run (race_to_reclaim @ race_commit)))) \<and>
   \<not> record_committed (dk_record (st_disk (race_run (race_to_reclaim @ race_commit @ calls 1 1))))"
proof (intro conjI)
  show "all_out race_start" by (simp add: all_out_def race_start_def)
  show "let s = race_run race_to_reclaim in st_alive s 1 \<and> st_alive s 2 \<and> relies_on (st_pc s 1) \<noteq> None \<and> relies_on (st_pc s 2) \<noteq> None"
    by code_simp
  show "record_committed (dk_record (st_disk (race_run (race_to_reclaim @ race_commit))))" by code_simp
  show "\<not> record_committed (dk_record (st_disk (race_run (race_to_reclaim @ race_commit @ calls 1 1))))" by code_simp
qed

fun orderly_run :: "string \<Rightarrow> (string \<Rightarrow> bool) \<Rightarrow> (int \<times> choice) list \<Rightarrow> store_state \<Rightarrow> bool" where
  "orderly_run host date [] s = True"
| "orderly_run host date (e # es) s = (orderly e s \<and> orderly_run host date es (store_step host date e s))"

lemma orderly_run_steps: "orderly_run host date es s \<Longrightarrow> (orderly_step host date)\<^sup>*\<^sup>* s (run_store host date es s)"
proof (induction es arbitrary: s)
  case (Cons e es)
  have "orderly_step host date s (store_step host date e s)" using Cons.prems unfolding orderly_step_def orderly_run.simps by blast
  with Cons show ?case by (auto intro: converse_rtranclp_into_rtranclp)
qed simp

definition lone_run :: "(int \<times> choice) list" where
  "lone_run = (1, Start id_a ''t'') # calls 1 8 @ (1, Do_load) # calls 1 2 @ (1, Do_save (race_checkpoint Commit_pending None)) # calls 1 4"

lemma lone_run_orderly: "(orderly_step ''h'' (\<lambda>s. s \<noteq> []))\<^sup>*\<^sup>* race_start (race_run lone_run)"
  by (rule orderly_run_steps) code_simp

lemma race_start_out: "all_out race_start"
  by (simp add: all_out_def race_start_def)

theorem checkpoint_exclusive_witness: "list_all (\<lambda>q. if st_alive (race_run lone_run) q \<and> relies_on (st_pc (race_run lone_run) q) \<noteq> None then q = 1 else True) [1, 2, 9]"
proof -
  have "st_alive (race_run lone_run) 1" "relies_on (st_pc (race_run lone_run) 1) \<noteq> None" by code_simp+
  with checkpoint_exclusive [OF race_start_out lone_run_orderly] show ?thesis by (fastforce simp: list_all_iff)
qed

theorem committed_record_stays_witness:
  "record_revision (dk_record (st_disk (store_step ''h'' (\<lambda>s. s \<noteq> []) (1, Proceed id_b ''t'') (race_run lone_run)))) =
     record_revision (dk_record (st_disk (race_run lone_run))) + 1"
proof -
  have "dk_record (st_disk (store_step ''h'' (\<lambda>s. s \<noteq> []) (1, Proceed id_b ''t'') (race_run lone_run))) \<noteq> dk_record (st_disk (race_run lone_run))"
    by code_simp
  from committed_record_stays [OF race_start_out lone_run_orderly refl this] show ?thesis by simp
qed

definition checked_run :: "(int \<times> choice) list" where
  "checked_run = butlast lone_run"

theorem checkpoint_compare_and_swap_witness:
  "seen_in ''h'' (\<lambda>s. s \<noteq> []) 1 checked_run race_start None = Some 5 \<and>
   record_revision (dk_record (st_disk (store_step ''h'' (\<lambda>s. s \<noteq> []) (1, Proceed id_b ''t'') (store_step ''h'' (\<lambda>s. s \<noteq> []) (1, Proceed id_b ''t'') (race_run checked_run))))) = 6"
proof -
  have seen: "seen_in ''h'' (\<lambda>s. s \<noteq> []) 1 checked_run race_start None = Some 5" by code_simp
  have pc: "case st_pc (race_run checked_run) 1 of Save_read_again h ck \<Rightarrow> 3 \<le> ls_fence (ho_lease h) | _ \<Rightarrow> False" by code_simp
  then obtain h ck where h: "st_pc (race_run checked_run) 1 = Save_read_again h ck" "3 \<le> ls_fence (ho_lease h)" by (auto split: program_point.splits)
  have t: "st_alive (race_run checked_run) 1" "record_revision (dk_record (st_disk (race_run checked_run))) = 5"
    "record_fence (dk_record (st_disk (race_run checked_run))) = 3" by code_simp+
  from checkpoint_compare_and_swap [OF race_start_out refl t(1) h(1) refl refl, of id_b "''t''" id_b "''t''"] seen t h(2) show ?thesis by simp
qed

section \<open>Reading back what was saved\<close>

lemma null_or_int_eq [simp]: "null_or_int v = JNull \<longleftrightarrow> v = None"
  by (cases v) (simp_all add: null_or_int_def)

lemma phase_of_text: "phase_of (Some (JStr (phase_text p))) = Inr p"
  by (cases p) (simp_all add: phase_of_def)

lemma store_integer_Inr: "store_integer v lo hi e = Inr i \<longleftrightarrow> json_int v = Some i \<and> is_safe_integer i \<and> lo \<le> i \<and> i \<le> hi"
  by (auto simp: store_integer_def split: option.splits if_splits)

definition checkpoint_ok :: "(string \<Rightarrow> bool) \<Rightarrow> checkpoint \<Rightarrow> bool" where
  "checkpoint_ok date ck \<longleftrightarrow> (let i = ck_identity ck in
     uuid_text (id_workspace_id i) \<and> uuid_text (id_workspace_binding_id i) \<and> uuid_text (id_machine_id i) \<and>
     is_safe_integer (id_base_generation i) \<and> 0 \<le> id_base_generation i \<and> is_sha256_hex (id_exclusion_policy_digest i) \<and>
     is_sha256_hex (id_manifest_root i)) \<and>
     (ck_phase ck = Begin_pending \<longleftrightarrow> ck_sync_id ck = None) \<and> (ck_sync_id ck = None \<longleftrightarrow> ck_selected_protocol ck = None) \<and>
     (ck_phase ck = Committed \<longleftrightarrow> ck_committed_generation ck \<noteq> None) \<and>
     (case ck_sync_id ck of None \<Rightarrow> True | Some s \<Rightarrow> uuid_text s) \<and> (case ck_selected_protocol ck of None \<Rightarrow> True | Some p \<Rightarrow> p = 1 \<or> p = 2) \<and>
     (case ck_committed_generation ck of None \<Rightarrow> True | Some g \<Rightarrow> 1 \<le> g \<and> g \<le> max_safe_integer) \<and> date (ck_updated_at ck)"

lemma null_or_Inr: "null_or v f = Inr y \<longleftrightarrow> (v = Some JNull \<and> y = None) \<or> (v \<noteq> Some JNull \<and> (\<exists>x. f v = Inr x \<and> y = Some x))"
  by (auto simp: null_or_def try_bind_Inr)

lemma one_or_two_Inr: "one_or_two v = Inr p \<longleftrightarrow> v = Some (JNum (JInt p)) \<and> (p = 1 \<or> p = 2)"
  by (auto simp: one_or_two_def)

lemma decodeCheckpoint_ok:
  assumes "decodeCheckpoint date v = Inr ck"
  shows "checkpoint_ok date ck"
proof -
  from assms obtain props where v: "v = JObj props" by (cases v) (auto simp: decodeCheckpoint_def)
  from assms [unfolded v] obtain phase sid proto gen t w b m g d r where
      ids: "null_or (map_of props ''sync_id'') canonicalUuid = Inr sid" "null_or (map_of props ''selected_protocol'') one_or_two = Inr proto"
        "null_or (map_of props ''committed_generation'') (\<lambda>x. store_integer x 1 max_safe_integer ''committed_generation'') = Inr gen"
      and consistent: "\<not> ((phase = Begin_pending) \<noteq> (sid = None) \<or> (sid = None) \<noteq> (proto = None) \<or> (phase = Committed) \<noteq> (gen \<noteq> None))"
      and t: "text_where date (map_of props ''updated_at'') invalidCheckpoint = Inr t" "canonicalUuid (map_of props ''workspace_id'') = Inr w"
        "canonicalUuid (map_of props ''workspace_binding_id'') = Inr b" "canonicalUuid (map_of props ''machine_id'') = Inr m"
        "store_integer (map_of props ''base_generation'') 0 max_safe_integer ''base_generation'' = Inr g"
        "store_digest (map_of props ''exclusion_policy_digest'') ''policy_digest'' = Inr d"
        "store_digest (map_of props ''manifest_root'') ''manifest_root'' = Inr r"
      and ck: "ck = \<lparr>ck_identity = \<lparr>id_workspace_id = w, id_workspace_binding_id = b, id_machine_id = m, id_base_generation = g,
                id_exclusion_policy_digest = d, id_manifest_root = r\<rparr>,
              ck_phase = phase, ck_sync_id = sid, ck_selected_protocol = proto,
              ck_committed_generation = gen, ck_updated_at = t\<rparr>"
    unfolding decodeCheckpoint_def json.case Let_def try_bind_Inr if_Inl_Inr by (elim exE conjE, intro that) auto
  have "case sid of None \<Rightarrow> True | Some s \<Rightarrow> uuid_text s"
    using ids(1) by (auto simp: null_or_Inr canonicalUuid_def text_where_Inr)
  moreover have "case proto of None \<Rightarrow> True | Some p \<Rightarrow> p = 1 \<or> p = 2" using ids(2) by (auto simp: null_or_Inr one_or_two_Inr)
  moreover have "case gen of None \<Rightarrow> True | Some n \<Rightarrow> 1 \<le> n \<and> n \<le> max_safe_integer" using ids(3) by (auto simp: null_or_Inr store_integer_Inr)
  moreover have "date t" "uuid_text w" "uuid_text b" "uuid_text m" "is_safe_integer g" "0 \<le> g" "is_sha256_hex d" "is_sha256_hex r"
    using t by (simp_all add: text_where_Inr canonicalUuid_def store_integer_Inr store_digest_def)
  moreover have "phase = Begin_pending \<longleftrightarrow> sid = None" "sid = None \<longleftrightarrow> proto = None" "phase = Committed \<longleftrightarrow> gen \<noteq> None"
    using consistent by auto
  ultimately show ?thesis unfolding ck checkpoint_ok_def checkpoint.simps sync_identity.simps Let_def by (intro conjI)
qed

lemma checkpoint_decodes:
  assumes "checkpoint_ok date ck"
  shows "decodeCheckpoint date (JObj (checkpoint_props ck)) = Inr ck"
proof -
  let ?s = "map_of (checkpoint_props ck)"
  have vals: "?s ''schema_version'' = Some (JNum (JInt 2))" "?s ''phase'' = Some (JStr (phase_text (ck_phase ck)))"
    "?s ''sync_id'' = Some (json_string_or_null (ck_sync_id ck))" "?s ''selected_protocol'' = Some (null_or_int (ck_selected_protocol ck))"
    "?s ''committed_generation'' = Some (null_or_int (ck_committed_generation ck))" "?s ''updated_at'' = Some (JStr (ck_updated_at ck))"
    "?s ''workspace_id'' = Some (JStr (id_workspace_id (ck_identity ck)))"
    "?s ''workspace_binding_id'' = Some (JStr (id_workspace_binding_id (ck_identity ck)))"
    "?s ''machine_id'' = Some (JStr (id_machine_id (ck_identity ck)))" "?s ''base_generation'' = Some (JNum (JInt (id_base_generation (ck_identity ck))))"
    "?s ''exclusion_policy_digest'' = Some (JStr (id_exclusion_policy_digest (ck_identity ck)))"
    "?s ''manifest_root'' = Some (JStr (id_manifest_root (ck_identity ck)))"
    by (simp_all add: checkpoint_props_def identity_json_def)
  have shape: "length (checkpoint_props ck) = length checkpoint_fields" "\<not> list_ex (\<lambda>(k, _). k \<notin> set checkpoint_fields) (checkpoint_props ck)"
    by (simp_all add: checkpoint_props_def identity_json_def checkpoint_fields_def)
  have syncId: "null_or (Some (json_string_or_null (ck_sync_id ck))) canonicalUuid = Inr (ck_sync_id ck)"
    using assms by (cases "ck_sync_id ck") (auto simp: checkpoint_ok_def null_or_Inr json_string_or_null_def canonicalUuid_def text_where_Inr)
  have proto: "null_or (Some (null_or_int (ck_selected_protocol ck))) one_or_two = Inr (ck_selected_protocol ck)"
    using assms by (cases "ck_selected_protocol ck") (auto simp: checkpoint_ok_def null_or_Inr null_or_int_def one_or_two_Inr)
  have gen: "null_or (Some (null_or_int (ck_committed_generation ck))) (\<lambda>x. store_integer x 1 max_safe_integer e) = Inr (ck_committed_generation ck)" for e
    using assms by (cases "ck_committed_generation ck") (auto simp: checkpoint_ok_def null_or_Inr null_or_int_def store_integer_Inr js_defs)
  have base: "store_integer (Some (JNum (JInt (id_base_generation (ck_identity ck))))) 0 max_safe_integer e = Inr (id_base_generation (ck_identity ck))" for e
    using assms by (auto simp: checkpoint_ok_def store_integer_Inr Let_def js_defs)
  have rest: "canonicalUuid (Some (JStr (id_workspace_id (ck_identity ck)))) = Inr (id_workspace_id (ck_identity ck))"
    "canonicalUuid (Some (JStr (id_workspace_binding_id (ck_identity ck)))) = Inr (id_workspace_binding_id (ck_identity ck))"
    "canonicalUuid (Some (JStr (id_machine_id (ck_identity ck)))) = Inr (id_machine_id (ck_identity ck))"
    "store_digest (Some (JStr (id_exclusion_policy_digest (ck_identity ck)))) e = Inr (id_exclusion_policy_digest (ck_identity ck))"
    "store_digest (Some (JStr (id_manifest_root (ck_identity ck)))) e = Inr (id_manifest_root (ck_identity ck))"
    "text_where date (Some (JStr (ck_updated_at ck))) f = Inr (ck_updated_at ck)" for e f
    using assms by (auto simp: checkpoint_ok_def canonicalUuid_def store_digest_def text_where_Inr Let_def)
  have consistent: "(ck_phase ck = Begin_pending) = (ck_sync_id ck = None)" "(ck_sync_id ck = None) = (ck_selected_protocol ck = None)"
    "(ck_phase ck = Committed) = (ck_committed_generation ck \<noteq> None)"
    using assms by (auto simp: checkpoint_ok_def)
  show ?thesis
    unfolding decodeCheckpoint_def json.case Let_def vals syncId proto gen base rest phase_of_text try_bind_simps
    using shape consistent by simp
qed

text \<open>
  What is saved is read back: a checkpoint that passed the check of a save, with a revision and a
  fence that are safe integers, is decoded from the document on disk unchanged.
\<close>

theorem checkpoint_file_roundtrip:
  assumes "decodeCheckpoint date v = Inr ck" and "0 \<le> r" "r \<le> max_safe_integer" and "0 \<le> f" "f \<le> max_safe_integer"
  shows "decodeCheckpointRecord date (record_document \<lparr>cr_checkpoint = ck, cr_revision = r, cr_fence = f\<rparr>) =
     Inr \<lparr>cr_checkpoint = ck, cr_revision = r, cr_fence = f\<rparr>"
proof -
  have strip: "filter (\<lambda>(k, _). k \<noteq> ''storage_revision'' \<and> k \<noteq> ''fence'')
      (checkpoint_props ck @ [(''storage_revision'', JNum (JInt r)), (''fence'', JNum (JInt f))]) = checkpoint_props ck"
    by (simp add: checkpoint_props_def identity_json_def)
  have vals: "map_of (checkpoint_props ck @ [(''storage_revision'', JNum (JInt r)), (''fence'', JNum (JInt f))]) ''storage_revision'' = Some (JNum (JInt r))"
    "map_of (checkpoint_props ck @ [(''storage_revision'', JNum (JInt r)), (''fence'', JNum (JInt f))]) ''fence'' = Some (JNum (JInt f))"
    by (simp_all add: checkpoint_props_def identity_json_def)
  have "boundedStorageInteger (Some (JNum (JInt r))) = Inr r" "boundedStorageInteger (Some (JNum (JInt f))) = Inr f"
    using assms by (simp_all add: boundedStorageInteger_def js_defs)
  with checkpoint_decodes [OF decodeCheckpoint_ok [OF assms(1)]] show ?thesis
    unfolding decodeCheckpointRecord_def record_document_def checkpoint_record.simps json.case Let_def strip vals by simp
qed

theorem checkpoint_file_roundtrip_witness:
  "decodeCheckpointRecord (\<lambda>s. s \<noteq> []) (record_document \<lparr>cr_checkpoint = sample_committed, cr_revision = 6, cr_fence = 4\<rparr>) =
     Inr \<lparr>cr_checkpoint = sample_committed, cr_revision = 6, cr_fence = 4\<rparr>"
proof (rule checkpoint_file_roundtrip)
  show "decodeCheckpoint (\<lambda>s. s \<noteq> []) (JObj (checkpoint_props sample_committed)) = Inr sample_committed" by code_simp
qed (simp_all add: js_defs)

section \<open>The source of chunks\<close>

text \<open>
  \<^verbatim>\<open>createFilesystemChunkSource\<close>. \<open>open_file\<close> stands for resolving a path below the root and opening it;
  the handle it gives reads some bytes at a position, at most as many as asked for, and none at
  the end of the file.
\<close>

record chunk_location =
  cl_path :: string
  cl_offset :: nat
  cl_length :: int

fun place_chunks :: "string \<Rightarrow> nat \<Rightarrow> content_chunk list \<Rightarrow> (string, chunk_location) js_map \<Rightarrow> cuna_error + (string, chunk_location) js_map" where
  "place_chunks path offset [] m = Inr m"
| "place_chunks path offset (c # cs) m =
     (if case map_get m (cc_digest c) of None \<Rightarrow> False | Some l \<Rightarrow> cl_length l \<noteq> cc_byteLength c then Inl (conflict ''digest_length_conflict'')
      else place_chunks path (offset + nat (cc_byteLength c)) cs
        (map_set (cc_digest c) \<lparr>cl_path = path, cl_offset = offset, cl_length = cc_byteLength c\<rparr> m))"

fun chunk_locations :: "manifest_entry list \<Rightarrow> (string, chunk_location) js_map \<Rightarrow> cuna_error + (string, chunk_location) js_map" where
  "chunk_locations [] m = Inr m"
| "chunk_locations (e # es) m =
     (if me_kind e \<noteq> M_file then chunk_locations es m
      else try_bind (place_chunks (me_path e) 0 (case me_chunks e of None \<Rightarrow> [] | Some cs \<Rightarrow> cs) m) (chunk_locations es))"

function read_loop :: "(nat \<Rightarrow> nat \<Rightarrow> byte list) \<Rightarrow> nat \<Rightarrow> nat \<Rightarrow> byte list" where
  "read_loop pread position n = (let b = take n (pread position n) in
     if n = 0 \<or> b = [] then [] else b @ read_loop pread (position + length b) (n - length b))"
  by pat_completeness auto
termination by (relation "measure (\<lambda>(_, _, n). n)") auto

declare read_loop.simps [simp del]

definition chunk_read ::
  "(byte list \<Rightarrow> string) \<Rightarrow> (string \<Rightarrow> sync_failure + (nat \<Rightarrow> nat \<Rightarrow> byte list)) \<Rightarrow> (string, chunk_location) js_map \<Rightarrow> string \<Rightarrow> int \<Rightarrow> sync_failure + byte list" where
  "chunk_read sha open_file locations d expectedLength = (case map_get locations d of
     None \<Rightarrow> Inl (Cuna (conflict ''chunk_unavailable''))
   | Some l \<Rightarrow> if cl_length l \<noteq> expectedLength then Inl (Cuna (conflict ''chunk_unavailable'')) else
       try_bind (open_file (cl_path l)) (\<lambda>pread. let bytes = read_loop pread (cl_offset l) (nat expectedLength) in
         if int (length bytes) \<noteq> expectedLength \<or> sha bytes \<noteq> d then Inl (Cuna (conflict ''chunk_source_changed'')) else Inr bytes))"

definition reads_of :: "byte list \<Rightarrow> (nat \<Rightarrow> nat \<Rightarrow> byte list) \<Rightarrow> bool" where
  "reads_of content pread \<longleftrightarrow> (\<forall>position n. \<exists>k. pread position n = take k (drop position content) \<and> k \<le> n \<and> (0 < n \<longrightarrow> 0 < k))"

lemma read_loop_content: "reads_of content pread \<Longrightarrow> read_loop pread position n = take n (drop position content)"
proof (induction pread position n rule: read_loop.induct)
  case (1 pread position n)
  from 1(2) obtain k where k: "pread position n = take k (drop position content)" "k \<le> n" "0 < n \<Longrightarrow> 0 < k" unfolding reads_of_def by metis
  let ?b = "take n (pread position n)"
  have b: "?b = take k (drop position content)" using k by (simp add: min_def)
  show ?case
  proof (cases "n = 0 \<or> ?b = []")
    case True
    with b k show ?thesis by (auto simp: read_loop.simps [of pread] Let_def)
  next
    case False
    then have "read_loop pread (position + length ?b) (n - length ?b) = take (n - length ?b) (drop (position + length ?b) content)"
      by (intro 1(1) [OF refl] 1(2)) auto
    with False have "read_loop pread position n = ?b @ take (n - length ?b) (drop (position + length ?b) content)"
      by (simp add: read_loop.simps [of pread position] Let_def)
    also have "\<dots> = take n (drop position content)"
    proof (cases "k \<le> length (drop position content)")
      case True
      then have "length ?b = k" by (simp add: b)
      then show ?thesis using take_add [of k "n - k" "drop position content"] b \<open>k \<le> n\<close> by (simp add: add.commute)
    qed (use k(2) in \<open>simp add: b\<close>)
    finally show ?thesis .
  qed
qed

text \<open>
  The chunk source gives the bytes at the place the manifest names, however the reads are cut short,
  and fails when they are no longer the bytes of the digest.
\<close>

theorem chunk_source_exact:
  assumes "map_get locations d = Some l" and "open_file (cl_path l) = Inr pread" and "reads_of content pread"
  shows "chunk_read sha open_file locations d (cl_length l) =
     (let bytes = take (nat (cl_length l)) (drop (cl_offset l) content) in
      if int (length bytes) = cl_length l \<and> sha bytes = d then Inr bytes else Inl (Cuna (conflict ''chunk_source_changed'')))"
  using assms read_loop_content [OF assms(3)] by (auto simp: chunk_read_def Let_def)

end
