(* ===== verification/Cli_Parser.thy ===== *)
theory Cli_Parser
  imports Prelude
begin

text \<open>
  The command line, \<^verbatim>\<open>src/cli/parser.ts\<close> and the check of \<^verbatim>\<open>src/cli/route-contract.ts\<close>: the tokenizer
  \<^verbatim>\<open>parseArgv\<close>, the registry of the commands this build admits, the resolution of an invocation to one
  of them, and the operations of the service that a command may send. A usage error is a
  constructor with the parts of its message. The operations the service has come from a generated
  file and are an argument.
\<close>

datatype option_value = Text_value string | True_value

record parsed_invocation =
  pi_command :: "string option"
  pi_operands :: "string list"
  pi_options :: "(string, option_value) js_map"

datatype usage_error =
    Invalid_option string
  | Repeated_option string
  | Unknown_option string
  | Option_takes_no_value string
  | Option_requires_value string
  | Requires_action string "string list"
  | Has_no_action string string "string list"
  | Unknown_command "string option"
  | Operation_not_served string "string list"

section \<open>The registry\<close>

datatype cli_route_dispatch = Routed | Reserved
datatype operand_mode = Exact | Free

record cli_route =
  rt_key :: string
  rt_command :: string
  rt_action :: "string option"
  rt_path :: string
  rt_operandMode :: operand_mode
  rt_syntax :: string
  rt_argv :: "string list"
  rt_summary :: string
  rt_dispatch :: cli_route_dispatch
  rt_operations :: "string list"

definition capabilities_operation :: string where
  "capabilities_operation = ''GET /v1/capabilities''"

definition terminal_attach :: "string list" where
  "terminal_attach = [''GET /v1/agent-sessions/{id}'', capabilities_operation, ''POST /v1/agent-sessions/{id}/terminal-connections'']"

definition api_keys :: "string list" where
  "api_keys = [capabilities_operation, ''GET /v1/api-keys'']"

definition transition_operations :: "string \<Rightarrow> string list" where
  "transition_operations action = [capabilities_operation, ''GET /v1/sessions/{id}'', ''POST /v1/sessions/{id}/'' @ action]"

definition route_operations :: "(string \<times> string list) list" where
  "route_operations =
    [(''signup'', [''GET /v1/cli-auth/signup-capability'', ''POST /v1/cli-auth/continuations'', ''POST /v1/cli-auth/continuations/{id}/exchange'']),
     (''login'', [''POST /v1/cli-auth/continuations'', ''POST /v1/cli-auth/continuations/{id}/exchange'']),
     (''logout'', [''POST /v1/cli-auth/logout'']),
     (''whoami'', [''GET /v1/cli-auth/context'']),
     (''access status'', [''GET /v1/cli-auth/context'']),
     (''observe'', [''POST /v1/collaboration/2/projects/{id}/observer-sessions'', ''POST /v1/collaboration/2/observe-grants/{id}/attachments'']),
     (''share'', [''POST /v1/collaboration/2/projects/{id}/observers'', ''POST /v1/collaboration/2/agent-sessions/{id}/observe-grants'', ''POST /v1/collaboration/2/observe-grants/{id}/inspect'', ''POST /v1/collaboration/2/observe-grants/{id}/revoke'', ''POST /v1/collaboration/2/agent-sessions/{id}/audience'', ''POST /v1/collaboration/2/agent-sessions/{id}/audience-state'']),
     (''capabilities'', [capabilities_operation]),
     (''secrets operation'', [''GET /v1/named-secrets/operations/{operation_id}'']),
     (''machines'', [''GET /v1/sessions'']),
     (''machines list'', [''GET /v1/sessions'']),
     (''machines create'', [capabilities_operation, ''POST /v1/sessions'', ''GET /v1/sessions/{id}'']),
     (''machines start'', transition_operations ''start''),
     (''machines pause'', transition_operations ''pause''),
     (''machines resume'', transition_operations ''resume''),
     (''machines stop'', transition_operations ''stop''),
     (''machines update-supervisor'', transition_operations ''supervisor/replace''),
     (''machines live-update-supervisor'', [capabilities_operation, ''GET /v1/sessions/{id}'', ''POST /v1/sessions/{id}/supervisor/live-update'', ''GET /v1/sessions/{id}/supervisor/live-update/{operationId}'']),
     (''machines live-update-status'', [''GET /v1/sessions/{id}/supervisor/live-update/{operationId}'']),
     (''machines delete'', [capabilities_operation, ''GET /v1/sessions/{id}'', ''DELETE /v1/sessions/{id}'']),
     (''records list'', [capabilities_operation, ''GET /v1/records'']),
     (''executions list'', [''GET /v1/sessions/{id}/executions'']),
     (''executions get'', [''GET /v1/sessions/{id}/executions/{operationId}'']),
     (''executions cancel'', [''POST /v1/sessions/{id}/executions/{operationId}/cancel'']),
     (''authorizations list'', [capabilities_operation, ''GET /v1/sessions/{id}/authorizations'']),
     (''account show'', [''GET /v1/me'']),
     (''workspace show'', [''GET /v1/me'']),
     (''usage show'', [''GET /v1/me'']),
     (''api-keys list'', api_keys),
     (''api-keys create'', api_keys @ [''POST /v1/api-keys'']),
     (''api-keys revoke'', api_keys @ [''DELETE /v1/api-keys/{id}'']),
     (''agent-sessions list'', [''GET /v1/sessions/{id}/agent-sessions'']),
     (''agent-sessions get'', [''GET /v1/agent-sessions/{id}'']),
     (''agent-sessions create'', [capabilities_operation, ''GET /v1/sessions/{id}'', ''POST /v1/sessions/{id}/agent-sessions'']),
     (''agent-sessions rename'', [capabilities_operation, ''GET /v1/agent-sessions/{id}'', ''PATCH /v1/agent-sessions/{id}'']),
     (''agent-sessions terminate'', [capabilities_operation, ''GET /v1/agent-sessions/{id}'', ''POST /v1/agent-sessions/{id}/terminate'']),
     (''agent-sessions attach'', terminal_attach),
     (''agent logout'', [capabilities_operation, ''GET /v1/agent-sessions/{id}'', ''POST /v1/agent-sessions/{id}/agent-auth/logout'', ''GET /v1/agent-sessions/{id}/agent-auth'']),
     (''connect'', terminal_attach),
     (''claude'', terminal_attach),
     (''codex'', terminal_attach),
     (''opencode'', terminal_attach)]"

definition dotted :: "string \<Rightarrow> string" where
  "dotted key = map (\<lambda>c. if c = CHR '' '' then CHR ''.'' else c) key"

definition key_action :: "string \<Rightarrow> string option" where
  "key_action key = (case split_on (CHR '' '') key of _ # a # _ \<Rightarrow> Some a | _ \<Rightarrow> None)"

definition routed :: "string \<Rightarrow> string \<Rightarrow> string list \<Rightarrow> string \<Rightarrow> operand_mode \<Rightarrow> string \<Rightarrow> cli_route" where
  "routed key syntax argv summary mode path = \<lparr>rt_key = key, rt_command = hd (split_on (CHR '' '') key), rt_action = key_action key,
     rt_path = path, rt_operandMode = mode, rt_syntax = syntax, rt_argv = argv, rt_summary = summary, rt_dispatch = Routed,
     rt_operations = (case map_of route_operations key of Some os \<Rightarrow> os | None \<Rightarrow> [])\<rparr>"

definition reserved :: "string \<Rightarrow> string \<Rightarrow> cli_route" where
  "reserved key summary = \<lparr>rt_key = key, rt_command = hd (split_on (CHR '' '') key), rt_action = key_action key,
     rt_path = dotted key, rt_operandMode = Exact, rt_syntax = key, rt_argv = split_on (CHR '' '') key, rt_summary = summary,
     rt_dispatch = Reserved, rt_operations = []\<rparr>"

definition cli_route_registry :: "cli_route list" where
  "cli_route_registry =
    [routed ''signup'' ''signup'' [''signup''] ''Create an account through the browser'' Exact (dotted ''signup''),
     routed ''login'' ''login'' [''login''] ''Sign in through the browser'' Exact (dotted ''login''),
     routed ''logout'' ''logout'' [''logout''] ''Revoke the current interactive login'' Exact (dotted ''logout''),
     routed ''whoami'' ''whoami'' [''whoami''] ''Show the current account context'' Exact (dotted ''whoami''),
     routed ''access status'' ''access status'' [''access'', ''status''] ''Show the same account context whoami prints, recorded as access.status'' Exact (dotted ''access status''),
     routed ''observe'' ''observe --project PROJECT_ID'' [''observe'', ''--project'', ''00000000-0000-4000-8000-000000000001''] ''Observe an authorized shared session read-only'' Exact (dotted ''observe''),
     routed ''share'' ''share --project PROJECT_ID [--grant GRANT_ID]'' [''share'', ''--project'', ''00000000-0000-4000-8000-000000000001''] ''Grant, inspect or revoke a member's read-only observation, and share or unshare the session itself'' Exact (dotted ''share''),
     routed ''capabilities'' ''capabilities'' [''capabilities''] ''Inspect live server capability truth'' Exact (dotted ''capabilities''),
     routed ''secrets operation'' ''secrets operation OPERATION_ID'' [''secrets'', ''operation'', ''00000000-0000-4000-8000-000000000001''] ''Read a named-secret operation without creating a secret'' Exact (dotted ''secrets operation''),
     routed ''machines'' ''machines'' [''machines''] ''Browse machines and AgentSessions interactively'' Exact ''machines.overview'',
     routed ''machines list'' ''machines list'' [''machines'', ''list''] ''List exact machine resources'' Exact (dotted ''machines list''),
     routed ''machines create'' ''machines create --name NAME --yes'' [''machines'', ''create'', ''--name'', ''fixture'', ''--yes''] ''Create a machine'' Exact (dotted ''machines create''),
     routed ''machines start'' ''machines start MACHINE_ID --yes'' [''machines'', ''start'', ''00000000-0000-4000-8000-000000000001'', ''--yes''] ''Start a machine'' Exact (dotted ''machines start''),
     routed ''machines pause'' ''machines pause MACHINE_ID --yes'' [''machines'', ''pause'', ''00000000-0000-4000-8000-000000000001'', ''--yes''] ''Pause a machine'' Exact (dotted ''machines pause''),
     routed ''machines resume'' ''machines resume MACHINE_ID --yes'' [''machines'', ''resume'', ''00000000-0000-4000-8000-000000000001'', ''--yes''] ''Resume a machine'' Exact (dotted ''machines resume''),
     routed ''machines stop'' ''machines stop MACHINE_ID --yes'' [''machines'', ''stop'', ''00000000-0000-4000-8000-000000000001'', ''--yes''] ''Stop a machine'' Exact (dotted ''machines stop''),
     routed ''machines update-supervisor'' ''machines update-supervisor MACHINE_ID --yes'' [''machines'', ''update-supervisor'', ''00000000-0000-4000-8000-000000000001'', ''--yes''] ''Update a stopped machine's terminal supervisor'' Exact (dotted ''machines update-supervisor''),
     routed ''machines live-update-supervisor'' ''machines live-update-supervisor MACHINE_ID --yes'' [''machines'', ''live-update-supervisor'', ''00000000-0000-4000-8000-000000000001'', ''--yes''] ''Update a running machine's terminal supervisor in place and report each AgentSession's custody'' Exact (dotted ''machines live-update-supervisor''),
     routed ''machines live-update-status'' ''machines live-update-status MACHINE_ID'' [''machines'', ''live-update-status'', ''00000000-0000-4000-8000-000000000001''] ''Read what one in-place supervisor update did, without sending anything to the machine'' Exact (dotted ''machines live-update-status''),
     routed ''machines delete'' ''machines delete MACHINE_ID --yes'' [''machines'', ''delete'', ''00000000-0000-4000-8000-000000000001'', ''--yes''] ''Delete a machine'' Exact (dotted ''machines delete''),
     routed ''records list'' ''records list'' [''records'', ''list''] ''List redacted account activity'' Exact (dotted ''records list''),
     routed ''executions list'' ''executions list --machine MACHINE_ID'' [''executions'', ''list'', ''--machine'', ''00000000-0000-4000-8000-000000000001''] ''List remote commands and their remaining process ownership'' Exact (dotted ''executions list''),
     routed ''executions get'' ''executions get EXECUTION_ID --machine MACHINE_ID'' [''executions'', ''get'', ''00000000-0000-4000-8000-000000000002'', ''--machine'', ''00000000-0000-4000-8000-000000000001''] ''Inspect one exact remote command'' Exact (dotted ''executions get''),
     routed ''executions cancel'' ''executions cancel EXECUTION_ID --machine MACHINE_ID --yes'' [''executions'', ''cancel'', ''00000000-0000-4000-8000-000000000002'', ''--machine'', ''00000000-0000-4000-8000-000000000001'', ''--yes''] ''Request cancellation of one remote command and its descendants'' Exact (dotted ''executions cancel''),
     routed ''authorizations list'' ''authorizations list --machine MACHINE_ID'' [''authorizations'', ''list'', ''--machine'', ''00000000-0000-4000-8000-000000000001''] ''List machine credential rules'' Exact (dotted ''authorizations list''),
     routed ''account show'' ''account show'' [''account'', ''show''] ''Show the account identity'' Exact (dotted ''account show''),
     routed ''workspace show'' ''workspace show'' [''workspace'', ''show''] ''Show workspace assignment'' Exact (dotted ''workspace show''),
     routed ''usage show'' ''usage show'' [''usage'', ''show''] ''Show workspace usage estimates'' Exact (dotted ''usage show''),
     routed ''api-keys list'' ''api-keys list'' [''api-keys'', ''list''] ''List API-key metadata'' Exact (dotted ''api-keys list''),
     routed ''api-keys create'' ''api-keys create --name NAME --yes'' [''api-keys'', ''create'', ''--name'', ''fixture'', ''--yes''] ''Create an API key'' Exact (dotted ''api-keys create''),
     routed ''api-keys revoke'' ''api-keys revoke KEY_ID --yes'' [''api-keys'', ''revoke'', ''00000000-0000-4000-8000-000000000001'', ''--yes''] ''Revoke an API key'' Exact (dotted ''api-keys revoke''),
     routed ''agent-sessions list'' ''agent-sessions list --machine MACHINE_ID'' [''agent-sessions'', ''list'', ''--machine'', ''00000000-0000-4000-8000-000000000001''] ''List a machine's AgentSessions'' Exact (dotted ''agent-sessions list''),
     routed ''agent-sessions get'' ''agent-sessions get SESSION_ID'' [''agent-sessions'', ''get'', ''00000000-0000-4000-8000-000000000001''] ''Read one AgentSession'' Exact (dotted ''agent-sessions get''),
     routed ''agent-sessions create'' ''agent-sessions create --machine ID --workspace-binding-id ID --workspace-generation N --agent KIND --yes'' [''agent-sessions'', ''create'', ''--machine'', ''00000000-0000-4000-8000-000000000001'', ''--workspace-binding-id'', ''00000000-0000-4000-8000-000000000002'', ''--workspace-generation'', ''1'', ''--agent'', ''claude-code'', ''--yes''] ''Create an exact AgentSession'' Exact (dotted ''agent-sessions create''),
     routed ''agent-sessions rename'' ''agent-sessions rename SESSION_ID --name NAME --yes'' [''agent-sessions'', ''rename'', ''00000000-0000-4000-8000-000000000001'', ''--name'', ''fixture'', ''--yes''] ''Rename an AgentSession'' Exact (dotted ''agent-sessions rename''),
     routed ''agent-sessions terminate'' ''agent-sessions terminate SESSION_ID --yes'' [''agent-sessions'', ''terminate'', ''00000000-0000-4000-8000-000000000001'', ''--yes''] ''Terminate an AgentSession'' Exact (dotted ''agent-sessions terminate''),
     routed ''agent-sessions attach'' ''agent-sessions attach SESSION_ID'' [''agent-sessions'', ''attach'', ''00000000-0000-4000-8000-000000000001''] ''Attach an exact AgentSession once the server grants terminal_connections.create'' Exact (dotted ''agent-sessions attach''),
     routed ''agent logout'' ''agent logout --agent-session SESSION_ID --yes'' [''agent'', ''logout'', ''--agent-session'', ''00000000-0000-4000-8000-000000000001'', ''--yes''] ''Sign a provider out of one AgentSession'' Exact (dotted ''agent logout''),
     routed ''connect'' ''connect SESSION_ID [SESSION_ID...]'' [''connect'', ''00000000-0000-4000-8000-000000000001''] ''Attach one through four exact AgentSessions once the server grants terminal_connections.create'' Free (dotted ''connect''),
     routed ''config get'' ''config get'' [''config'', ''get''] ''Show redacted configuration'' Exact (dotted ''config get''),
     routed ''doctor'' ''doctor'' [''doctor''] ''Inspect local runtime health'' Exact (dotted ''doctor''),
     routed ''self-test'' ''self-test --offline'' [''self-test'', ''--offline''] ''Verify this installation offline'' Exact (dotted ''self-test''),
     routed ''version'' ''version'' [''version''] ''Show build identity'' Exact (dotted ''version''),
     routed ''help'' ''help [--all]'' [''help''] ''Show primary or complete help'' Exact (dotted ''help''),
     routed ''claude'' ''claude [PATH]'' [''claude''] ''Open Claude Code'' Free (dotted ''claude''),
     routed ''codex'' ''codex [PATH]'' [''codex''] ''Open Codex'' Free (dotted ''codex''),
     routed ''opencode'' ''opencode [PATH]'' [''opencode''] ''Open OpenCode'' Free (dotted ''opencode''),
     routed ''sync recover'' ''sync recover [PATH] --yes [--timeout-ms N]'' [''sync'', ''recover'', ''--yes''] ''Bring a folder whose workspace sync stopped back to syncing, keeping both versions of every conflict'' Exact (dotted ''sync recover''),
     reserved ''config set'' ''Reserved; configuration mutation is not implemented'',
     reserved ''shell'' ''Reserved; no shell runtime in this build'',
     reserved ''sync'' ''Reserved; the one standalone sync action is `sync recover`'',
     reserved ''companion'' ''Reserved; no local companion in this build'']"

definition resolve_in :: "cli_route list \<Rightarrow> parsed_invocation \<Rightarrow> cli_route option" where
  "resolve_in registry p = (case pi_command p of None \<Rightarrow> None | Some c \<Rightarrow>
     let candidates = filter (\<lambda>r. rt_command r = c) registry;
         base = (case find (\<lambda>r. rt_action r = None) candidates of
             None \<Rightarrow> None
           | Some b \<Rightarrow> if rt_operandMode b = Free \<or> pi_operands p = [] then Some b else None)
     in case pi_operands p of
          [] \<Rightarrow> base
        | action # _ \<Rightarrow> (case find (\<lambda>r. rt_action r = Some action) candidates of Some r \<Rightarrow> Some r | None \<Rightarrow> base))"

definition resolveCliRoute :: "parsed_invocation \<Rightarrow> cli_route option" where
  "resolveCliRoute p = resolve_in cli_route_registry p"

definition actions_in :: "cli_route list \<Rightarrow> string \<Rightarrow> string list" where
  "actions_in registry c = rev (remdups (rev (List.map_filter (\<lambda>r. if rt_command r = c then rt_action r else None) registry)))"

definition registeredActions :: "string \<Rightarrow> string list" where
  "registeredActions c = actions_in cli_route_registry c"

definition assertRegisteredCliRoute :: "parsed_invocation \<Rightarrow> usage_error + cli_route" where
  "assertRegisteredCliRoute p = (case resolveCliRoute p of
     Some r \<Rightarrow> Inr r
   | None \<Rightarrow> (case pi_command p of
       Some c \<Rightarrow> if list_ex (\<lambda>r. rt_command r = c) cli_route_registry
         then Inl (case pi_operands p of [] \<Rightarrow> Requires_action c (registeredActions c) | a # _ \<Rightarrow> Has_no_action c a (registeredActions c))
         else Inl (Unknown_command (Some c))
     | None \<Rightarrow> Inl (Unknown_command None)))"

definition missingContractOperations :: "string list \<Rightarrow> cli_route \<Rightarrow> string list" where
  "missingContractOperations served r = filter (\<lambda>op. op \<notin> set served) (rt_operations r)"

definition isRouteServedByContract :: "string list \<Rightarrow> cli_route \<Rightarrow> bool" where
  "isRouteServedByContract served r \<longleftrightarrow> rt_dispatch r = Routed \<and> missingContractOperations served r = []"

definition assertRouteServedByContract :: "string list \<Rightarrow> cli_route \<Rightarrow> usage_error + unit" where
  "assertRouteServedByContract served r = (if rt_dispatch r \<noteq> Routed then Inr ()
     else if missingContractOperations served r = [] then Inr () else Inl (Operation_not_served (rt_key r) (missingContractOperations served r)))"

section \<open>The tokenizer\<close>

definition boolean_options :: "string list" where
  "boolean_options = [''help'', ''version'', ''json'', ''no-color'', ''yes'', ''background'', ''no-sync'', ''new'', ''new-session'', ''offline'', ''check-browser-login'', ''all'', ''forget-unknown'', ''resume'', ''no-wait'']"

definition value_options :: "string list" where
  "value_options = [''install-tetragon'', ''project'', ''grant'', ''after'', ''execution-workspace-id'', ''agent'', ''agent-session'', ''auth-mode'', ''base-url'', ''config-file'', ''credential-binding'', ''cursor'', ''cwd'', ''expires-at'', ''idempotency-key'', ''limit'', ''machine'', ''memory-mib'', ''name'', ''operation'', ''profile'', ''resource-id'', ''scope'', ''timeout-ms'', ''vcpus'', ''workspace-binding-id'', ''workspace-generation'']"

definition is_lower_letter :: "char \<Rightarrow> bool" where
  "is_lower_letter c \<longleftrightarrow> c \<in> set ''abcdefghijklmnopqrstuvwxyz''"

definition option_char :: "char \<Rightarrow> bool" where
  "option_char c \<longleftrightarrow> is_lower_letter c \<or> c \<in> set ''0123456789-''"

definition option_text :: "string \<Rightarrow> bool" where
  "option_text s \<longleftrightarrow> (case s of [] \<Rightarrow> False | c # cs \<Rightarrow> is_lower_letter c \<and> list_all option_char cs)"

definition optionName :: "string \<Rightarrow> usage_error + string" where
  "optionName s = (if option_text s then Inr s else Inl (Invalid_option s))"

definition dashed :: "string \<Rightarrow> bool" where
  "dashed s \<longleftrightarrow> take 2 s = ''--''"

text \<open>\<^verbatim>\<open>token.indexOf("=")\<close> with the two slices it cuts: before and, if there is one, after the first sign.\<close>

definition name_part :: "string \<Rightarrow> string" where
  "name_part s = takeWhile (\<lambda>c. c \<noteq> CHR ''='') s"

definition value_part :: "string \<Rightarrow> string option" where
  "value_part s = (case dropWhile (\<lambda>c. c \<noteq> CHR ''='') s of [] \<Rightarrow> None | _ # v \<Rightarrow> Some v)"

text \<open>The option that \<open>token\<close> starts: its name, its value and how many of the tokens after it were taken.\<close>

definition parse_option :: "(string, option_value) js_map \<Rightarrow> string \<Rightarrow> string list \<Rightarrow> usage_error + string \<times> option_value \<times> nat" where
  "parse_option options token rest = (case optionName (name_part (drop 2 token)) of Inl e \<Rightarrow> Inl e | Inr name \<Rightarrow>
     if map_get options name \<noteq> None then Inl (Repeated_option name)
     else if name \<notin> set boolean_options \<and> name \<notin> set value_options then Inl (Unknown_option name)
     else if name \<in> set boolean_options then
       (if value_part token \<noteq> None then Inl (Option_takes_no_value name) else Inr (name, True_value, 0))
     else (case value_part token of
         Some v \<Rightarrow> if v = [] then Inl (Option_requires_value name) else Inr (name, Text_value v, 0)
       | None \<Rightarrow> (case rest of
           [] \<Rightarrow> Inl (Option_requires_value name)
         | v # _ \<Rightarrow> if v = [] \<or> dashed v then Inl (Option_requires_value name) else Inr (name, Text_value v, 1))))"

function parse_loop :: "bool \<Rightarrow> (string, option_value) js_map \<Rightarrow> string list \<Rightarrow> string list \<Rightarrow> usage_error + (string, option_value) js_map \<times> string list" where
  "parse_loop flags options positionals [] = Inr (options, positionals)"
| "parse_loop flags options positionals (token # rest) =
     (if flags \<and> token = ''--'' then parse_loop False options positionals rest
      else if flags \<and> dashed token then
        (case parse_option options token rest of
           Inl e \<Rightarrow> Inl e
         | Inr (name, v, k) \<Rightarrow> parse_loop flags (map_set name v options) positionals (drop k rest))
      else parse_loop flags options (positionals @ [token]) rest)"
  by pat_completeness auto
termination by (relation "measure (\<lambda>(_, _, _, argv). length argv)") auto

definition parseArgv :: "string list \<Rightarrow> usage_error + parsed_invocation" where
  "parseArgv argv = (case parse_loop True [] [] argv of
     Inl e \<Rightarrow> Inl e
   | Inr (options, positionals) \<Rightarrow> Inr \<lparr>pi_command = (case positionals of [] \<Rightarrow> None | c # _ \<Rightarrow> Some c),
       pi_operands = drop 1 positionals, pi_options = options\<rparr>)"

definition stringOption :: "parsed_invocation \<Rightarrow> string \<Rightarrow> usage_error + string option" where
  "stringOption p name = (case map_get (pi_options p) name of
     None \<Rightarrow> Inr None | Some (Text_value v) \<Rightarrow> Inr (Some v) | Some True_value \<Rightarrow> Inl (Option_requires_value name))"

definition booleanOption :: "parsed_invocation \<Rightarrow> string \<Rightarrow> usage_error + bool" where
  "booleanOption p name = (case map_get (pi_options p) name of
     None \<Rightarrow> Inr False | Some True_value \<Rightarrow> Inr True | Some (Text_value _) \<Rightarrow> Inl (Option_takes_no_value name))"

definition common_options :: "string list" where
  "common_options = [''json'', ''no-color'', ''profile'', ''base-url'', ''config-file'', ''timeout-ms'']"

definition rejectUnknownOptions :: "parsed_invocation \<Rightarrow> string list \<Rightarrow> usage_error + unit" where
  "rejectUnknownOptions p allowed = (case filter (\<lambda>k. k \<notin> set (allowed @ common_options)) (map fst (pi_options p)) of
     [] \<Rightarrow> Inr () | k # _ \<Rightarrow> Inl (Unknown_option k))"

section \<open>Parsing\<close>

definition option_ok :: "string \<times> option_value \<Rightarrow> bool" where
  "option_ok e \<longleftrightarrow> option_text (fst e) \<and> (case snd e of
     True_value \<Rightarrow> fst e \<in> set boolean_options
   | Text_value v \<Rightarrow> fst e \<notin> set boolean_options \<and> fst e \<in> set value_options \<and> v \<noteq> [])"

definition options_ok :: "(string, option_value) js_map \<Rightarrow> bool" where
  "options_ok os \<longleftrightarrow> distinct (map fst os) \<and> list_all option_ok os"

fun print_option :: "string \<times> option_value \<Rightarrow> string" where
  "print_option (n, True_value) = ''--'' @ n"
| "print_option (n, Text_value v) = ''--'' @ n @ ''='' @ v"

text \<open>An invocation written out again: its options, each as one token, the separator, its operands.\<close>

definition print_invocation :: "parsed_invocation \<Rightarrow> string list" where
  "print_invocation p = map print_option (pi_options p) @ ''--'' # (case pi_command p of None \<Rightarrow> [] | Some c \<Rightarrow> c # pi_operands p)"

lemma optionName_Inr: "optionName s = Inr n \<longleftrightarrow> s = n \<and> option_text n"
  by (auto simp: optionName_def)

lemma options_ok_add:
  assumes "options_ok os" and "map_get os n = None" and "option_ok (n, v)"
  shows "options_ok (map_set n v os)"
  using assms by (auto simp: options_ok_def map_set_new map_of_eq_None_iff)

lemma parse_option_ok:
  assumes "parse_option os token rest = Inr (n, v, k)"
  shows "option_ok (n, v) \<and> map_get os n = None"
  using assms unfolding parse_option_def optionName_def option_ok_def
  by (auto split: if_splits option.splits list.splits)

lemma parse_loop_ok:
  assumes "parse_loop flags os ps argv = Inr (os', ps')" and "options_ok os"
  shows "options_ok os'"
  using assms
proof (induction flags os ps argv rule: parse_loop.induct)
  case (2 flags os ps token rest)
  consider (separator) "flags \<and> token = ''--''" | (option) "flags \<and> token \<noteq> ''--'' \<and> dashed token" | (operand) "\<not> flags \<or> \<not> dashed token"
    by blast
  then show ?case
  proof cases
    case option
    with "2.prems"(1) obtain n v k where o: "parse_option os token rest = Inr (n, v, k)"
      and rest: "parse_loop flags (map_set n v os) ps (drop k rest) = Inr (os', ps')" by (auto split: sum.splits)
    from parse_option_ok [OF o] "2.prems"(2) have "options_ok (map_set n v os)" by (auto intro: options_ok_add)
    with "2.IH"(2) [OF _ _ o refl refl] option rest show ?thesis by blast
  next
    case separator
    with "2.IH"(1) "2.prems" show ?thesis by auto
  next
    case operand
    then have n: "\<not> (flags \<and> token = ''--'')" "\<not> (flags \<and> dashed token)" by (auto simp: dashed_def)
    with "2.prems"(1) have "parse_loop flags os (ps @ [token]) rest = Inr (os', ps')" unfolding parse_loop.simps by (simp only: if_False)
    with "2.IH"(3) [OF n] "2.prems"(2) show ?thesis by blast
  qed
qed simp

lemma parse_loop_operands: "parse_loop False os ps argv = Inr (os, ps @ argv)"
  by (induction argv arbitrary: ps) auto

lemma option_text_no_sign: "option_text n \<Longrightarrow> CHR ''='' \<notin> set n"
proof -
  have sign: "\<not> option_char (CHR ''='')" "\<not> is_lower_letter (CHR ''='')" by code_simp+
  assume "option_text n"
  with sign show ?thesis by (cases n) (auto simp: option_text_def list_all_iff)
qed

lemma print_option_parts:
  assumes "option_ok e"
  shows "dashed (print_option e)" "print_option e \<noteq> ''--''" "name_part (drop 2 (print_option e)) = fst e"
    "value_part (print_option e) = (case snd e of True_value \<Rightarrow> None | Text_value v \<Rightarrow> Some v)"
proof -
  obtain n x where e: "e = (n, x)" by fastforce
  have n: "CHR ''='' \<notin> set n" "n \<noteq> []" using assms e option_text_no_sign by (auto simp: option_ok_def option_text_def)
  then have plain: "\<forall>c \<in> set n. c \<noteq> CHR ''=''" by auto
  then have tw: "takeWhile (\<lambda>c. c \<noteq> CHR ''='') (n @ CHR ''='' # v) = n" "dropWhile (\<lambda>c. c \<noteq> CHR ''='') (n @ CHR ''='' # v) = CHR ''='' # v"
    "takeWhile (\<lambda>c. c \<noteq> CHR ''='') n = n" "dropWhile (\<lambda>c. c \<noteq> CHR ''='') n = []" for v
    by (simp_all add: takeWhile_tail takeWhile_eq_all_conv dropWhile_append2 dropWhile_eq_Nil_conv)
  show "dashed (print_option e)" "print_option e \<noteq> ''--''" "name_part (drop 2 (print_option e)) = fst e"
    "value_part (print_option e) = (case snd e of True_value \<Rightarrow> None | Text_value v \<Rightarrow> Some v)"
    unfolding e fst_conv snd_conv dashed_def name_part_def value_part_def
    by (cases x; simp add: n(2) tw)+
qed

lemma parse_loop_prints:
  assumes "options_ok (os @ es)"
  shows "parse_loop True os [] (map print_option es @ ''--'' # argv) = Inr (os @ es, argv)"
  using assms
proof (induction es arbitrary: os)
  case Nil
  show ?case using parse_loop_operands [of os "[]" argv] by simp
next
  case (Cons e es)
  have e: "option_ok e" "map_get os (fst e) = None" and rest: "options_ok ((os @ [e]) @ es)"
    using Cons.prems by (auto simp: options_ok_def map_of_eq_None_iff)
  have set: "map_set (fst e) (snd e) os = os @ [e]" using e(2) by (simp add: map_set_new)
  have "option_text (fst e)" using e(1) by (simp add: option_ok_def)
  then have name: "optionName (fst e) = Inr (fst e)" by (simp add: optionName_def)
  have parsed: "parse_option os (print_option e) (map print_option es @ ''--'' # argv) = Inr (fst e, snd e, 0)"
    using e name unfolding parse_option_def print_option_parts(3,4) [OF e(1)] option_ok_def by (cases "snd e") simp_all
  have "parse_loop True os [] (print_option e # map print_option es @ ''--'' # argv) =
      parse_loop True (os @ [e]) [] (map print_option es @ ''--'' # argv)"
    using parsed print_option_parts(1,2) [OF e(1)] set by simp
  with Cons.IH [OF rest] show ?case by simp
qed

text \<open>
  C29. Parsing has a canonical form: whatever command line was accepted, writing its command, operands
  and options out again (options as single tokens, then the separator, then the operands) is
  accepted and parses to the same invocation.
\<close>

theorem parse_print_roundtrip:
  assumes "parseArgv argv = Inr p"
  shows "parseArgv (print_invocation p) = Inr p"
proof -
  from assms obtain os ps where l: "parse_loop True [] [] argv = Inr (os, ps)" and p: "p = \<lparr>pi_command = (case ps of [] \<Rightarrow> None | c # _ \<Rightarrow> Some c),
       pi_operands = drop 1 ps, pi_options = os\<rparr>"
    by (auto simp: parseArgv_def split: sum.splits)
  have ok: "options_ok ([] @ os)" using parse_loop_ok [OF l] by (simp add: options_ok_def)
  have "print_invocation p = map print_option os @ ''--'' # ps" unfolding print_invocation_def p by (cases ps) simp_all
  with parse_loop_prints [OF ok, of ps] p show ?thesis by (simp add: parseArgv_def)
qed

section \<open>Resolution\<close>

definition registry_ok :: "cli_route list \<Rightarrow> bool" where
  "registry_ok registry \<longleftrightarrow> distinct (map (\<lambda>r. (rt_command r, rt_action r)) registry) \<and>
     list_all (\<lambda>r. list_all (\<lambda>s. \<not> (rt_operandMode r = Free \<and> rt_command s = rt_command r \<and> rt_action s \<noteq> None)) registry) registry"

lemma find_unique:
  assumes "x \<in> set xs" and "P x" and "\<And>y. y \<in> set xs \<Longrightarrow> P y \<Longrightarrow> y = x"
  shows "find P xs = Some x"
  using assms
proof (induction xs)
  case (Cons y ys)
  show ?case
  proof (cases "P y")
    case True
    then have "y = x" by (rule Cons.prems(3) [OF list.set_intros(1)])
    with True show ?thesis by simp
  next
    case False
    with Cons.prems(1,2) have "x \<in> set ys" by auto
    from Cons.IH [OF this Cons.prems(2)] Cons.prems(3) have "find P ys = Some x" by (metis list.set_intros(2))
    with False show ?thesis by simp
  qed
qed simp

lemma find_SomeD: "find P xs = Some x \<Longrightarrow> x \<in> set xs \<and> P x"
  by (auto simp: find_Some_iff)

definition route_matches :: "parsed_invocation \<Rightarrow> cli_route \<Rightarrow> bool" where
  "route_matches p r \<longleftrightarrow> pi_command p = Some (rt_command r) \<and> (case rt_action r of
     Some a \<Rightarrow> (case pi_operands p of [] \<Rightarrow> False | x # _ \<Rightarrow> x = a)
   | None \<Rightarrow> rt_operandMode r = Free \<or> pi_operands p = [])"

lemma registry_unique:
  assumes "registry_ok registry" and "r \<in> set registry" "s \<in> set registry" and "rt_command r = rt_command s" "rt_action r = rt_action s"
  shows "r = s"
  using assms unfolding registry_ok_def by (auto simp: distinct_map dest: inj_onD)

lemma resolve_matches:
  assumes "registry_ok registry" and "r \<in> set registry" and "route_matches p r"
  shows "resolve_in registry p = Some r"
proof -
  let ?c = "filter (\<lambda>s. rt_command s = rt_command r) registry"
  have found: "find (\<lambda>s. rt_action s = rt_action r) ?c = Some r"
    using assms(2) registry_unique [OF assms(1)] by (intro find_unique) auto
  show ?thesis
  proof (cases "rt_action r")
    case (Some a)
    with found have "find (\<lambda>s. rt_action s = Some a) ?c = Some r" by simp
    with Some assms(3) show ?thesis by (auto simp: resolve_in_def route_matches_def Let_def split: list.splits)
  next
    case None
    have "find (\<lambda>s. rt_action s = Some x) ?c = None" if "pi_operands p = x # xs" for x xs
      using assms None that by (auto simp: registry_ok_def route_matches_def find_None_iff list_all_iff)
    moreover from found None have "find (\<lambda>s. rt_action s = None) ?c = Some r" by simp
    ultimately show ?thesis using None assms(3)
      by (cases "pi_operands p") (auto simp: resolve_in_def route_matches_def Let_def)
  qed
qed

lemma resolve_sound:
  assumes "resolve_in registry p = Some r"
  shows "r \<in> set registry \<and> route_matches p r"
proof -
  from assms obtain c where c: "pi_command p = Some c" by (auto simp: resolve_in_def split: option.splits)
  let ?c = "filter (\<lambda>s. rt_command s = c) registry"
  consider (action) a xs where "pi_operands p = a # xs" "find (\<lambda>s. rt_action s = Some a) ?c = Some r"
    | (base) "find (\<lambda>s. rt_action s = None) ?c = Some r" "rt_operandMode r = Free \<or> pi_operands p = []"
    using assms c by (auto simp: resolve_in_def Let_def split: option.splits list.splits if_splits)
  then show ?thesis
  proof cases
    case action
    with find_SomeD [OF action(2)] c show ?thesis by (auto simp: route_matches_def)
  next
    case base
    with find_SomeD [OF base(1)] c show ?thesis by (auto simp: route_matches_def)
  qed
qed

text \<open>What resolution looks at, without the operations of a route.\<close>

type_synonym route_row = "string \<times> string option \<times> operand_mode \<times> string list"

definition row_of :: "cli_route \<Rightarrow> route_row" where
  "row_of r = (rt_command r, rt_action r, rt_operandMode r, rt_argv r)"

definition routed_row :: "string \<Rightarrow> string list \<Rightarrow> operand_mode \<Rightarrow> route_row" where
  "routed_row key argv mode = (hd (split_on (CHR '' '') key), key_action key, mode, argv)"

definition reserved_row :: "string \<Rightarrow> route_row" where
  "reserved_row key = (hd (split_on (CHR '' '') key), key_action key, Exact, split_on (CHR '' '') key)"

lemma row_of_simps: "row_of (routed k s argv m mode path) = routed_row k argv mode" "row_of (reserved k m) = reserved_row k"
  by (simp_all add: row_of_def routed_def reserved_def routed_row_def reserved_row_def)

lemmas registry_rows = list.map(2) [of row_of] list.map(1) [of row_of] row_of_simps

definition rows_ok :: "route_row list \<Rightarrow> bool" where
  "rows_ok rows \<longleftrightarrow> distinct (map (\<lambda>(c, a, _). (c, a)) rows) \<and>
     list_all (\<lambda>(c, _, mode, _). mode = Free \<longrightarrow> list_all (\<lambda>(d, a, _). d \<noteq> c \<or> a = None) rows) rows"

fun row_matches :: "parsed_invocation \<Rightarrow> route_row \<Rightarrow> bool" where
  "row_matches p (c, a, mode, argv) \<longleftrightarrow> pi_command p = Some c \<and> (case a of
     Some a \<Rightarrow> (case pi_operands p of [] \<Rightarrow> False | x # _ \<Rightarrow> x = a) | None \<Rightarrow> mode = Free \<or> pi_operands p = [])"

definition example_ok :: "route_row \<Rightarrow> bool" where
  "example_ok row \<longleftrightarrow> (case parseArgv (snd (snd (snd row))) of Inr p \<Rightarrow> row_matches p row | Inl _ \<Rightarrow> False)"

lemma registry_ok_rows: "registry_ok registry \<longleftrightarrow> rows_ok (map row_of registry)"
  unfolding registry_ok_def rows_ok_def by (auto simp: row_of_def comp_def list.pred_map list_all_iff)

lemma example_ok_row: "example_ok (row_of r) \<longleftrightarrow> (case parseArgv (rt_argv r) of Inr p \<Rightarrow> route_matches p r | Inl _ \<Rightarrow> False)"
  by (auto simp: example_ok_def row_of_def route_matches_def split: sum.splits)

lemma registry_is_ok: "registry_ok cli_route_registry"
  unfolding registry_ok_rows cli_route_registry_def registry_rows by code_simp

text \<open>
  C30. The registry decides alone what is executable: an invocation resolves to a route exactly if the
  route is registered for its command and either names its first operand as the action, or has no
  action and the command has no operand or admits free ones. In particular no invocation fits two routes.
\<close>

theorem resolution_exact:
  "resolveCliRoute p = Some r \<longleftrightarrow> r \<in> set cli_route_registry \<and> route_matches p r"
  unfolding resolveCliRoute_def using resolve_sound resolve_matches [OF registry_is_ok] by blast

text \<open>
  The help is executable: the example command line that the registry holds for a route parses and
  resolves to that very route, for every route, the reserved ones included.
\<close>

theorem registry_examples_resolve:
  "list_all (\<lambda>r. case parseArgv (rt_argv r) of Inr p \<Rightarrow> resolveCliRoute p = Some r | Inl _ \<Rightarrow> False) cli_route_registry"
proof -
  have "list_all example_ok (map row_of cli_route_registry)"
    unfolding cli_route_registry_def registry_rows by code_simp
  then show ?thesis
    by (auto simp: list_all_iff example_ok_row resolveCliRoute_def intro!: resolve_matches [OF registry_is_ok] split: sum.splits)
qed

definition sample_argv :: "string list" where
  "sample_argv = [''executions'', ''--json'', ''get'', ''--machine'', ''m1'', ''--cursor=--x=1'', ''--'', ''--yes'']"

definition sample_invocation :: parsed_invocation where
  "sample_invocation = \<lparr>pi_command = Some ''executions'', pi_operands = [''get'', ''--yes''],
     pi_options = [(''json'', True_value), (''machine'', Text_value ''m1''), (''cursor'', Text_value ''--x=1'')]\<rparr>"

lemma sample_parses: "parseArgv sample_argv = Inr sample_invocation"
  by code_simp

theorem parse_print_roundtrip_witness:
  "parseArgv [''--json'', ''--machine=m1'', ''--cursor=--x=1'', ''--'', ''executions'', ''get'', ''--yes''] = Inr sample_invocation"
proof -
  have "print_invocation sample_invocation = [''--json'', ''--machine=m1'', ''--cursor=--x=1'', ''--'', ''executions'', ''get'', ''--yes'']"
    by code_simp
  with parse_print_roundtrip [OF sample_parses] show ?thesis by simp
qed

text \<open>
  An accepted command line gives every option the kind the command reads it with: a flag is never
  read as text, an option that takes a value always has one that is not empty, and no option is
  there that the command line knows nothing of.
\<close>

theorem parsed_options_typed:
  assumes "parseArgv argv = Inr p" and "map_get (pi_options p) n = Some v"
  shows "if n \<in> set boolean_options then booleanOption p n = Inr True
    else n \<in> set value_options \<and> (\<exists>s. stringOption p n = Inr (Some s) \<and> s \<noteq> [])"
proof -
  from assms(1) obtain ps where l: "parse_loop True [] [] argv = Inr (pi_options p, ps)"
    by (auto simp: parseArgv_def split: sum.splits)
  have "options_ok (pi_options p)" using parse_loop_ok [OF l] by (simp add: options_ok_def)
  then have "option_ok (n, v)" using map_of_SomeD [OF assms(2)] by (simp add: options_ok_def list_all_iff)
  then show ?thesis using assms(2)
    by (cases v) (auto simp: option_ok_def booleanOption_def stringOption_def)
qed

theorem parsed_options_typed_witness: "booleanOption sample_invocation ''json'' = Inr True"
proof -
  have "map_get (pi_options sample_invocation) ''json'' = Some True_value" by (simp add: sample_invocation_def)
  from parsed_options_typed [OF sample_parses this] show ?thesis by (simp add: boolean_options_def)
qed

end
