(* ===== verification/Sessions.thy ===== *)
theory Sessions
  imports Prelude "HOL-Library.Sublist" "HOL-Library.Multiset"
begin

text \<open>
  What the client says about agent sessions: whether one can be attached to and what is known about
  its process (\<^verbatim>\<open>src/machines/session-visibility.ts\<close>, \<^verbatim>\<open>session-actionability.ts\<close> and
  \<^verbatim>\<open>provider-availability.ts\<close>), and the numbered sessions of the top bar
  (\<^verbatim>\<open>src/terminal/session-roster.ts\<close>). A session has the fields these decisions read. \<^verbatim>\<open>Date.parse\<close>, the
  collation of \<^verbatim>\<open>localeCompare\<close> and the character classes of Unicode are arguments; the name of a
  session and a label are lists of code points.
\<close>

section \<open>Sessions and machines\<close>

datatype agent_kind = Claude_code | Codex | Openclaw | Opencode
datatype desired_state = Desired_running | Desired_terminated
datatype request_state = Launch_pending | Runtime_claimed | Launched | Termination_pending | Terminal | Request_failed
datatype process_state = Unknown_process | Starting | Ready | Running | Exited | Process_failed | Terminating | Terminated
datatype process_observation = Observed | Unproven | Unknown_observation
datatype auth_state = Login_required | Authenticated | Configured | Auth_unavailable

record agent_session =
  as_id :: string
  as_machineId :: string
  as_name :: "nat list"
  as_agent :: agent_kind
  as_desiredState :: desired_state
  as_requestState :: request_state
  as_processState :: process_state
  as_processObservation :: "process_observation option"
  as_processEpoch :: "string option"
  as_runtimeObservedAt :: "string option"
  as_runtimeExpiresAt :: "string option"
  as_rowVersion :: int
  as_createdAt :: string

record machine =
  ma_id :: string
  ma_agent :: "string option"
  ma_state :: string

section \<open>Visibility\<close>

definition max_future_skew_ms :: int where "max_future_skew_ms = 5000"

definition agentSessionProcessObservation :: "agent_session \<Rightarrow> process_observation" where
  "agentSessionProcessObservation s = (case as_processObservation s of None \<Rightarrow> Unknown_observation | Some p \<Rightarrow> p)"

fun observation_note :: "process_observation \<Rightarrow> string option" where
  "observation_note Observed = None"
| "observation_note Unproven = Some ''not observed''"
| "observation_note Unknown_observation = Some ''observation unknown''"

definition isAgentSessionIntendedActive :: "agent_session \<Rightarrow> bool" where
  "isAgentSessionIntendedActive s \<longleftrightarrow> as_desiredState s = Desired_running \<and> as_requestState s \<noteq> Termination_pending"

definition isAgentSessionVisibleInPicker :: "agent_session \<Rightarrow> bool" where
  "isAgentSessionVisibleInPicker s \<longleftrightarrow> isAgentSessionIntendedActive s \<and> as_requestState s \<noteq> Terminal \<and>
     as_processState s \<notin> {Exited, Process_failed, Terminating, Terminated}"

text \<open>\<^verbatim>\<open>isAgentSessionGone\<close> of \<^verbatim>\<open>runtime/terminal-client-identity.ts\<close>.\<close>

definition isAgentSessionGone :: "agent_session \<Rightarrow> bool" where
  "isAgentSessionGone s \<longleftrightarrow> as_desiredState s = Desired_terminated \<or> as_requestState s \<in> {Terminal, Request_failed} \<or>
     as_processState s \<in> {Exited, Process_failed, Terminated}"

datatype runtime_window_kind = Missing | Invalid_window | Lease_current | Lease_expired

record runtime_window =
  rw_kind :: runtime_window_kind
  rw_lastObservedAt :: "string option"
  rw_observationAgeMs :: "int option"
  rw_leaseExpiresAt :: "string option"

definition bare_window :: "runtime_window_kind \<Rightarrow> runtime_window" where
  "bare_window k = \<lparr>rw_kind = k, rw_lastObservedAt = None, rw_observationAgeMs = None, rw_leaseExpiresAt = None\<rparr>"

definition readRuntimeWindow :: "(string \<Rightarrow> int option) \<Rightarrow> agent_session \<Rightarrow> int \<Rightarrow> runtime_window" where
  "readRuntimeWindow date s now = (case (as_runtimeObservedAt s, as_runtimeExpiresAt s) of
     (Some o1, Some e1) \<Rightarrow> (case (date o1, date e1) of
         (Some observedAt, Some expiresAt) \<Rightarrow>
           if observedAt > now + max_future_skew_ms \<or> expiresAt \<le> observedAt then bare_window Invalid_window
           else \<lparr>rw_kind = if expiresAt > now then Lease_current else Lease_expired, rw_lastObservedAt = Some o1,
                 rw_observationAgeMs = Some (now - observedAt), rw_leaseExpiresAt = Some e1\<rparr>
       | _ \<Rightarrow> bare_window Invalid_window)
   | _ \<Rightarrow> bare_window Missing)"

datatype runtime_evidence = Not_intended_active | Not_reported_running | Evidence_missing | Evidence_invalid
  | Observed_running_lease_expired | Reported_running_observation_unproven | Observed_running_lease_current

record runtime_reading =
  rr_evidence :: runtime_evidence
  rr_window :: runtime_window
  rr_leaseCurrent :: bool
  rr_processObservation :: process_observation

text \<open>\<open>rr_window\<close> holds the fields that a reading has beside its evidence; a bare one has none.\<close>

definition reading :: "runtime_evidence \<Rightarrow> process_observation \<Rightarrow> runtime_window \<Rightarrow> bool \<Rightarrow> runtime_reading" where
  "reading ev ob w current = \<lparr>rr_evidence = ev, rr_window = w, rr_leaseCurrent = current, rr_processObservation = ob\<rparr>"

definition readAgentSessionRuntime :: "(string \<Rightarrow> int option) \<Rightarrow> agent_session \<Rightarrow> int \<Rightarrow> runtime_reading" where
  "readAgentSessionRuntime date s now = (let observation = agentSessionProcessObservation s; w = readRuntimeWindow date s now in
     if \<not> isAgentSessionIntendedActive s then reading Not_intended_active observation (bare_window Missing) False
     else if as_processState s \<noteq> Running then reading Not_reported_running observation (bare_window Missing) False
     else if rw_kind w = Missing then reading Evidence_missing observation (bare_window Missing) False
     else if rw_kind w = Invalid_window then reading Evidence_invalid observation (bare_window Missing) False
     else if observation \<noteq> Observed then reading Reported_running_observation_unproven observation w (rw_kind w = Lease_current)
     else reading (if rw_kind w = Lease_current then Observed_running_lease_current else Observed_running_lease_expired)
       observation w (rw_kind w = Lease_current))"

definition wasAgentSessionObservedRunning :: "(string \<Rightarrow> int option) \<Rightarrow> agent_session \<Rightarrow> int \<Rightarrow> bool" where
  "wasAgentSessionObservedRunning date s now \<longleftrightarrow>
     rr_evidence (readAgentSessionRuntime date s now) \<in> {Observed_running_lease_current, Observed_running_lease_expired}"

definition hasCurrentAgentSessionRuntimeLease :: "(string \<Rightarrow> int option) \<Rightarrow> agent_session \<Rightarrow> int \<Rightarrow> bool" where
  "hasCurrentAgentSessionRuntimeLease date s now \<longleftrightarrow> rr_leaseCurrent (readAgentSessionRuntime date s now)"

section \<open>Providers\<close>

definition js_space :: "char \<Rightarrow> bool" where
  "js_space c \<longleftrightarrow> (let n = of_char c :: nat in (9 \<le> n \<and> n \<le> 13) \<or> n = 32 \<or> n = 160)"

definition trim_text :: "string \<Rightarrow> string" where
  "trim_text s = rev (dropWhile js_space (rev (dropWhile js_space s)))"

definition normalizeKnownProvider :: "string option \<Rightarrow> agent_kind option" where
  "normalizeKnownProvider p = (if p = Some ''claude'' \<or> p = Some ''claude-code'' then Some Claude_code
     else if p = Some ''codex'' then Some Codex else if p = Some ''openclaw'' then Some Openclaw
     else if p = Some ''opencode'' then Some Opencode else None)"

datatype provider_usability = Declared_installed | Unavailable_provider
datatype provider_reason = Provider_not_observed | Provider_not_supported_by_cli | Provider_not_publicly_supported

record provider_availability =
  pa_machineId :: string
  pa_declaredId :: "string option"
  pa_agent :: "agent_kind option"
  pa_displayName :: string
  pa_usability :: provider_usability
  pa_actionable :: bool
  pa_reasonCode :: "provider_reason option"

fun display_name :: "agent_kind \<Rightarrow> string" where
  "display_name Claude_code = ''Claude''"
| "display_name Codex = ''Codex''"
| "display_name Openclaw = ''OpenClaw''"
| "display_name Opencode = ''OpenCode''"

definition supported_by_cli :: "agent_kind \<Rightarrow> bool" where
  "supported_by_cli a \<longleftrightarrow> a = Claude_code \<or> a = Codex \<or> a = Opencode"

definition machineProviderAvailability :: "machine \<Rightarrow> provider_availability" where
  "machineProviderAvailability m = (let declaredId = map_option trim_text (ma_agent m) in
     case normalizeKnownProvider declaredId of
       None \<Rightarrow> (let absent = (declaredId = None \<or> declaredId = Some []) in
         \<lparr>pa_machineId = ma_id m, pa_declaredId = if absent then None else declaredId, pa_agent = None,
          pa_displayName = if absent then ''Unknown'' else ''Unknown ('' @ the declaredId @ '')'',
          pa_usability = if absent then Unavailable_provider else Declared_installed, pa_actionable = False,
          pa_reasonCode = Some (if absent then Provider_not_observed else Provider_not_supported_by_cli)\<rparr>)
     | Some a \<Rightarrow> \<lparr>pa_machineId = ma_id m, pa_declaredId = declaredId, pa_agent = Some a, pa_displayName = display_name a,
          pa_usability = if supported_by_cli a then Declared_installed else Unavailable_provider, pa_actionable = supported_by_cli a,
          pa_reasonCode = if supported_by_cli a then None else Some Provider_not_publicly_supported\<rparr>)"

definition machineSupportsProvider :: "machine \<Rightarrow> agent_kind \<Rightarrow> bool" where
  "machineSupportsProvider m requested \<longleftrightarrow> pa_actionable (machineProviderAvailability m) \<and> supported_by_cli requested"

section \<open>Actionability\<close>

datatype base_state = Attachable | Starting_session | Login_needed | Stale | Failed_session | Terminated_session | Unsupported
datatype refresh_status = Refresh_idle | Refresh_pending
datatype recovery_action = Attach | Wait | Authenticate | Refresh | Show_failure | No_action
datatype action_reason = Runtime_lease_current | Runtime_lease_current_observation_unproven | Runtime_lease_current_observation_unknown
  | Launch_is_pending | Provider_authentication_required | Runtime_evidence_missing | Runtime_evidence_invalid | Runtime_lease_expired
  | Session_failed | Termination_intended | Machine_not_running | Machine_mismatch | Provider_unavailable

record actionability =
  ac_baseState :: base_state
  ac_refreshStatus :: refresh_status
  ac_recoveryAction :: recovery_action
  ac_reasonCode :: action_reason
  ac_observationRevision :: int
  ac_canAttach :: bool
  ac_processObservation :: process_observation
  ac_window :: runtime_window

fun recoveryFor :: "base_state \<Rightarrow> recovery_action" where
  "recoveryFor Attachable = Attach"
| "recoveryFor Starting_session = Wait"
| "recoveryFor Login_needed = Authenticate"
| "recoveryFor Stale = Refresh"
| "recoveryFor Failed_session = Show_failure"
| "recoveryFor Terminated_session = No_action"
| "recoveryFor Unsupported = No_action"

fun current_reason :: "process_observation \<Rightarrow> action_reason" where
  "current_reason Observed = Runtime_lease_current"
| "current_reason Unproven = Runtime_lease_current_observation_unproven"
| "current_reason Unknown_observation = Runtime_lease_current_observation_unknown"

definition classifyRuntime :: "(string \<Rightarrow> int option) \<Rightarrow> agent_session \<Rightarrow> int \<Rightarrow> base_state \<times> action_reason" where
  "classifyRuntime date s now = (let w = rw_kind (readRuntimeWindow date s now); unseen = as_processState s \<in> {Unknown_process, Starting} in
     if as_requestState s = Launched \<and> unseen \<and> w = Lease_expired then (Stale, Runtime_lease_expired)
     else if as_requestState s = Launched \<and> unseen \<and> w = Invalid_window then (Stale, Runtime_evidence_invalid)
     else if as_requestState s \<in> {Launch_pending, Runtime_claimed} \<or> unseen then (Starting_session, Launch_is_pending)
     else if as_processState s \<notin> {Ready, Running} then (Stale, Runtime_evidence_invalid)
     else if as_processEpoch s = None then (Stale, Runtime_evidence_missing)
     else if w = Missing then (Stale, Runtime_evidence_missing)
     else if w = Invalid_window then (Stale, Runtime_evidence_invalid)
     else if w \<noteq> Lease_current then (Stale, Runtime_lease_expired)
     else (Attachable, current_reason (agentSessionProcessObservation s)))"

definition machine_refusal :: "agent_session \<Rightarrow> machine option \<Rightarrow> action_reason option" where
  "machine_refusal s m = (case m of
     Some m \<Rightarrow> if ma_state m \<noteq> ''running'' then Some Machine_not_running
               else if as_machineId s \<noteq> ma_id m then Some Machine_mismatch
               else if \<not> machineSupportsProvider m (as_agent s) then Some Provider_unavailable else None
   | None \<Rightarrow> if \<not> supported_by_cli (as_agent s) then Some Provider_unavailable else None)"

definition classifyBase :: "(string \<Rightarrow> int option) \<Rightarrow> agent_session \<Rightarrow> machine option \<Rightarrow> auth_state option \<Rightarrow> int \<Rightarrow> base_state \<times> action_reason" where
  "classifyBase date s m auth now =
     (if \<not> isAgentSessionIntendedActive s \<or> as_requestState s = Terminal \<or> as_processState s \<in> {Terminated, Terminating}
      then (Terminated_session, Termination_intended)
      else if as_requestState s = Request_failed \<or> as_processState s \<in> {Process_failed, Exited} then (Failed_session, Session_failed)
      else (case machine_refusal s m of Some reason \<Rightarrow> (Unsupported, reason) | None \<Rightarrow>
        if auth = Some Login_required \<and> as_agent s \<noteq> Opencode then (Login_needed, Provider_authentication_required)
        else if auth = Some Auth_unavailable then (Unsupported, Provider_unavailable)
        else classifyRuntime date s now))"

definition classifySessionActionability ::
  "(string \<Rightarrow> int option) \<Rightarrow> agent_session \<Rightarrow> machine option \<Rightarrow> auth_state option \<Rightarrow> int \<Rightarrow> refresh_status option \<Rightarrow> actionability" where
  "classifySessionActionability date s m auth now status = (case classifyBase date s m auth now of (base, reason) \<Rightarrow>
     \<lparr>ac_baseState = base, ac_refreshStatus = (case status of None \<Rightarrow> Refresh_idle | Some st \<Rightarrow> st), ac_recoveryAction = recoveryFor base,
      ac_reasonCode = reason, ac_observationRevision = as_rowVersion s, ac_canAttach = (base = Attachable),
      ac_processObservation = agentSessionProcessObservation s, ac_window = readRuntimeWindow date s now\<rparr>)"

fun base_text :: "base_state \<Rightarrow> string" where
  "base_text Attachable = ''attachable''"
| "base_text Starting_session = ''starting''"
| "base_text Login_needed = ''login-required''"
| "base_text Stale = ''stale''"
| "base_text Failed_session = ''failed''"
| "base_text Terminated_session = ''terminated''"
| "base_text Unsupported = ''unsupported''"

text \<open>The parts of the line, which the source joins with a middle dot.\<close>

definition displaySessionActionability :: "actionability \<Rightarrow> string list" where
  "displaySessionActionability a = base_text (ac_baseState a) #
     (case if ac_baseState a = Attachable then observation_note (ac_processObservation a) else None of None \<Rightarrow> [] | Some n \<Rightarrow> [n]) @
     (if ac_refreshStatus a = Refresh_pending then [''checking''] else [])"

definition mergeSessionActionabilityObservation :: "actionability \<Rightarrow> actionability option \<Rightarrow> refresh_status \<Rightarrow> actionability" where
  "mergeSessionActionabilityObservation confirmed candidate status =
     (case candidate of
        Some c \<Rightarrow> if ac_observationRevision c > ac_observationRevision confirmed then c else confirmed
      | None \<Rightarrow> confirmed)\<lparr>ac_refreshStatus := status\<rparr>"

section \<open>The session roster\<close>

record roster_record =
  ro_agentSessionId :: string
  ro_agent :: agent_kind
  ro_name :: "nat list"
  ro_createdAt :: string
  ro_ended :: bool
  ro_rowVersion :: int

record roster_entry =
  re_number :: nat
  re_agentSessionId :: string
  re_agent :: agent_kind
  re_label :: "nat list"
  re_ended :: bool

text \<open>
  \<open>tx_nfc\<close> is \<^verbatim>\<open>normalize("NFC")\<close>, \<open>tx_control\<close> the class \<^verbatim>\<open>[\p{Cc}\p{Cf}\p{Cs}]\<close>, \<open>tx_space\<close> the class \<^verbatim>\<open>\s\<close>, which
  \<^verbatim>\<open>trim\<close> uses as well, and \<open>tx_compare\<close> is \<^verbatim>\<open>localeCompare\<close>.
\<close>

record text_env =
  tx_nfc :: "nat list \<Rightarrow> nat list"
  tx_control :: "nat \<Rightarrow> bool"
  tx_space :: "nat \<Rightarrow> bool"
  tx_compare :: "string \<Rightarrow> string \<Rightarrow> int"

definition label_maximum :: nat where "label_maximum = 40"
definition ellipsis :: nat where "ellipsis = 0x2026"

function squeeze :: "(nat \<Rightarrow> bool) \<Rightarrow> nat list \<Rightarrow> nat list" where
  "squeeze space [] = []"
| "squeeze space (c # cs) = (if space c then 32 # squeeze space (dropWhile space cs) else c # squeeze space cs)"
  by pat_completeness auto
termination by (relation "measure (\<lambda>(_, cs). length cs)") (auto simp: le_imp_less_Suc length_dropWhile_le)

definition cleanText :: "text_env \<Rightarrow> nat list \<Rightarrow> nat list" where
  "cleanText env v = (let t = squeeze (tx_space env) (map (\<lambda>c. if tx_control env c then 32 else c) (tx_nfc env v))
     in rev (dropWhile (tx_space env) (rev (dropWhile (tx_space env) t))))"

definition truncateLabel :: "nat list \<Rightarrow> nat \<Rightarrow> nat list" where
  "truncateLabel v maximum = (if length v \<le> maximum then v else take (maximum - 1) v @ [ellipsis])"

definition appendLabelSuffix :: "nat list \<Rightarrow> nat list \<Rightarrow> nat list" where
  "appendLabelSuffix base suf = (if suf = [] then base else
     let shown = truncateLabel suf (label_maximum - (if base = [] then 0 else 2)) in
     if base = [] then shown else truncateLabel base (label_maximum - length shown - 1) @ [32] @ shown)"

definition recordFor :: "text_env \<Rightarrow> agent_session \<Rightarrow> bool \<Rightarrow> roster_record" where
  "recordFor env s ended = \<lparr>ro_agentSessionId = as_id s, ro_agent = as_agent s, ro_name = cleanText env (as_name s),
     ro_createdAt = as_createdAt s, ro_ended = ended, ro_rowVersion = as_rowVersion s\<rparr>"

text \<open>\<^verbatim>\<open>new Map(sessions.map(...))\<close>: of two sessions with one id the later counts.\<close>

definition session_by_id :: "agent_session list \<Rightarrow> string \<Rightarrow> agent_session option" where
  "session_by_id sessions i = find (\<lambda>s. as_id s = i) (rev sessions)"

definition merge_record :: "text_env \<Rightarrow> agent_session list \<Rightarrow> roster_record \<Rightarrow> roster_record" where
  "merge_record env sessions r = (case session_by_id sessions (ro_agentSessionId r) of
     None \<Rightarrow> if ro_ended r then r else r\<lparr>ro_ended := True\<rparr>
   | Some s \<Rightarrow> if as_rowVersion s \<le> ro_rowVersion r \<or> ro_ended r then r else recordFor env s (isAgentSessionGone s))"

definition created_before :: "text_env \<Rightarrow> agent_session \<Rightarrow> agent_session \<Rightarrow> bool" where
  "created_before env s t \<longleftrightarrow> (let c = tx_compare env (as_createdAt s) (as_createdAt t) in
     if c \<noteq> 0 then c < 0 else tx_compare env (as_id s) (as_id t) \<le> 0)"

text \<open>A stable sort by insertion.\<close>

fun insert_created :: "text_env \<Rightarrow> agent_session \<Rightarrow> agent_session list \<Rightarrow> agent_session list" where
  "insert_created env s [] = [s]"
| "insert_created env s (t # ts) = (if created_before env s t then s # t # ts else t # insert_created env s ts)"

definition fresh_sessions :: "text_env \<Rightarrow> roster_record list \<Rightarrow> agent_session list \<Rightarrow> agent_session list" where
  "fresh_sessions env previous sessions = foldr (insert_created env)
     (filter (\<lambda>s. as_id s \<notin> ro_agentSessionId ` set previous \<and> supported_by_cli (as_agent s) \<and> \<not> isAgentSessionGone s) sessions) []"

definition mergeSessionRoster :: "text_env \<Rightarrow> roster_record list \<Rightarrow> agent_session list \<Rightarrow> roster_record list" where
  "mergeSessionRoster env previous sessions =
     map (merge_record env sessions) previous @ map (\<lambda>s. recordFor env s False) (fresh_sessions env previous sessions)"

definition codes :: "string \<Rightarrow> nat list" where
  "codes s = map of_char s"

fun agent_text :: "agent_kind \<Rightarrow> string" where
  "agent_text Claude_code = ''claude-code''"
| "agent_text Codex = ''codex''"
| "agent_text Openclaw = ''openclaw''"
| "agent_text Opencode = ''opencode''"

definition shortIdWidth :: "string list \<Rightarrow> nat" where
  "shortIdWidth ids = (case find (\<lambda>w. card (set (map (take w) ids)) = length ids) [8, 13, 18, 23] of Some w \<Rightarrow> w | None \<Rightarrow> 36)"

definition entry_of :: "nat \<Rightarrow> nat \<times> roster_record \<Rightarrow> roster_entry" where
  "entry_of width e = (case e of (i, r) \<Rightarrow> \<lparr>re_number = i + 1, re_agentSessionId = ro_agentSessionId r, re_agent = ro_agent r,
     re_label = appendLabelSuffix (truncateLabel (if ro_name r = codes (agent_text (ro_agent r)) then [] else ro_name r) label_maximum)
       (codes (take width (ro_agentSessionId r))), re_ended = ro_ended r\<rparr>)"

definition sessionRosterEntries :: "roster_record list \<Rightarrow> roster_entry list" where
  "sessionRosterEntries records = map (entry_of (shortIdWidth (map ro_agentSessionId records))) (enumerate 0 records)"

definition sameEntries :: "roster_entry list \<Rightarrow> roster_entry list \<Rightarrow> bool" where
  "sameEntries left right \<longleftrightarrow> length left = length right \<and> list_all (\<lambda>(a, b). re_agentSessionId a = re_agentSessionId b \<and>
     re_label a = re_label b \<and> re_ended a = re_ended b \<and> re_agent a = re_agent b) (zip left right)"

text \<open>
  \<^verbatim>\<open>PollingSessionRoster\<close>. A refresh that finds another one under way waits for it, so refreshes are
  steps one after the other; \<open>listing\<close> is what the request of a refresh gave, \<open>po_calls\<close> counts how
  often the listeners were called.
\<close>

record polling_roster =
  po_records :: "roster_record list"
  po_entries :: "roster_entry list"
  po_listeners :: "nat set"
  po_aborted :: bool
  po_timer :: bool
  po_calls :: nat

definition polling_interval_ok :: "int option \<Rightarrow> bool" where
  "polling_interval_ok interval \<longleftrightarrow> (let ms = (case interval of None \<Rightarrow> 10000 | Some n \<Rightarrow> n) in is_safe_integer ms \<and> 1000 \<le> ms \<and> ms \<le> 300000)"

definition polling_new :: polling_roster where
  "polling_new = \<lparr>po_records = [], po_entries = [], po_listeners = {}, po_aborted = False, po_timer = False, po_calls = 0\<rparr>"

definition polling_refresh :: "text_env \<Rightarrow> agent_session list option \<Rightarrow> polling_roster \<Rightarrow> polling_roster" where
  "polling_refresh env listing p = (case listing of
     None \<Rightarrow> p
   | Some sessions \<Rightarrow> if po_aborted p then p else
       let records = mergeSessionRoster env (po_records p) sessions; entries = sessionRosterEntries records; p' = p\<lparr>po_records := records\<rparr> in
       if sameEntries (po_entries p) entries then p' else p'\<lparr>po_entries := entries, po_calls := po_calls p + card (po_listeners p)\<rparr>)"

definition polling_subscribe :: "nat \<Rightarrow> polling_roster \<Rightarrow> polling_roster" where
  "polling_subscribe l p = p\<lparr>po_listeners := insert l (po_listeners p)\<rparr>"

definition polling_unsubscribe :: "nat \<Rightarrow> polling_roster \<Rightarrow> polling_roster" where
  "polling_unsubscribe l p = p\<lparr>po_listeners := po_listeners p - {l}\<rparr>"

definition polling_start :: "polling_roster \<Rightarrow> polling_roster" where
  "polling_start p = (if po_timer p \<or> po_aborted p then p else p\<lparr>po_timer := True\<rparr>)"

definition polling_stop :: "polling_roster \<Rightarrow> polling_roster" where
  "polling_stop p = p\<lparr>po_timer := False, po_aborted := True, po_listeners := {}\<rparr>"

section \<open>What is said about a session\<close>

lemma supported_agents: "supported_by_cli a \<longleftrightarrow> a \<in> {Claude_code, Codex, Opencode}"
  by (auto simp: supported_by_cli_def)

lemma provider_actionable: "pa_actionable (machineProviderAvailability mc) \<longleftrightarrow>
    (\<exists>declared. ma_agent mc = Some declared \<and> trim_text declared \<in> {''claude'', ''claude-code'', ''codex'', ''opencode''})"
  by (cases "ma_agent mc") (auto simp: machineProviderAvailability_def Let_def normalizeKnownProvider_def supported_by_cli_def split: option.splits)

lemma machine_refusal_None: "machine_refusal s m = None \<longleftrightarrow> as_agent s \<in> {Claude_code, Codex, Opencode} \<and>
    (case m of None \<Rightarrow> True | Some mc \<Rightarrow> ma_id mc = as_machineId s \<and> ma_state mc = ''running'' \<and>
       (\<exists>declared. ma_agent mc = Some declared \<and> trim_text declared \<in> {''claude'', ''claude-code'', ''codex'', ''opencode''}))"
  by (cases m) (auto simp: machine_refusal_def machineSupportsProvider_def provider_actionable supported_agents)

text \<open>
  C28. A session is offered for attaching exactly when it is intended to run and launched, its process
  is reported ready or running with an epoch, both timestamps are readable with an observation that
  is at most 5 seconds in the future and before the end of a lease that is open now, the machine (if
  one is given) is this session's, running and declares, up to surrounding spaces, a provider that
  the client can run, the session's agent is not OpenClaw, and sign-in does not stand in the way:
  it is not reported as unavailable, and as required only for OpenCode.
\<close>

theorem attachable_exact:
  "ac_canAttach (classifySessionActionability date s m auth now status) \<longleftrightarrow>
     as_desiredState s = Desired_running \<and> as_requestState s = Launched \<and> as_processState s \<in> {Ready, Running} \<and> as_processEpoch s \<noteq> None \<and>
     (\<exists>o1 e1 observedAt expiresAt. as_runtimeObservedAt s = Some o1 \<and> as_runtimeExpiresAt s = Some e1 \<and> date o1 = Some observedAt \<and>
        date e1 = Some expiresAt \<and> observedAt \<le> now + 5000 \<and> observedAt < expiresAt \<and> now < expiresAt) \<and>
     as_agent s \<in> {Claude_code, Codex, Opencode} \<and>
     (case m of None \<Rightarrow> True | Some mc \<Rightarrow> ma_id mc = as_machineId s \<and> ma_state mc = ''running'' \<and>
        (\<exists>declared. ma_agent mc = Some declared \<and> trim_text declared \<in> {''claude'', ''claude-code'', ''codex'', ''opencode''})) \<and>
     \<not> (auth = Some Login_required \<and> as_agent s \<noteq> Opencode) \<and> auth \<noteq> Some Auth_unavailable"
proof -
  have window: "rw_kind (readRuntimeWindow date s now) = Lease_current \<longleftrightarrow>
     (\<exists>o1 e1 observedAt expiresAt. as_runtimeObservedAt s = Some o1 \<and> as_runtimeExpiresAt s = Some e1 \<and> date o1 = Some observedAt \<and>
        date e1 = Some expiresAt \<and> observedAt \<le> now + 5000 \<and> observedAt < expiresAt \<and> now < expiresAt)"
    by (auto simp: readRuntimeWindow_def bare_window_def max_future_skew_ms_def not_less split: option.splits)
  have runtime: "fst (classifyRuntime date s now) = Attachable \<longleftrightarrow> as_requestState s \<notin> {Launch_pending, Runtime_claimed} \<and>
      as_processState s \<in> {Ready, Running} \<and> as_processEpoch s \<noteq> None \<and> rw_kind (readRuntimeWindow date s now) = Lease_current"
    by (auto simp: classifyRuntime_def Let_def)
  have attach: "ac_canAttach (classifySessionActionability date s m auth now status) \<longleftrightarrow> fst (classifyBase date s m auth now) = Attachable"
    by (simp add: classifySessionActionability_def split: prod.splits)
  have base: "fst (classifyBase date s m auth now) = Attachable \<longleftrightarrow>
      isAgentSessionIntendedActive s \<and> as_requestState s \<notin> {Terminal, Request_failed} \<and> machine_refusal s m = None \<and>
      \<not> (auth = Some Login_required \<and> as_agent s \<noteq> Opencode) \<and> auth \<noteq> Some Auth_unavailable \<and> fst (classifyRuntime date s now) = Attachable"
    using runtime by (auto simp: classifyBase_def split: option.splits)
  have "isAgentSessionIntendedActive s \<and> as_requestState s \<notin> {Terminal, Request_failed} \<and> as_requestState s \<notin> {Launch_pending, Runtime_claimed} \<longleftrightarrow>
      as_desiredState s = Desired_running \<and> as_requestState s = Launched"
    by (cases "as_requestState s") (auto simp: isAgentSessionIntendedActive_def)
  then show ?thesis unfolding attach base runtime window machine_refusal_None by blast
qed

text \<open>
  The word attachable alone is a claim of an observation: the line of a session consists of that
  word and nothing else exactly if it can be attached to, the producer recorded that a supervisor
  observed the process in its current epoch, and no refresh is under way.
\<close>

theorem unqualified_attachable:
  "displaySessionActionability (classifySessionActionability date s m auth now status) = [''attachable''] \<longleftrightarrow>
     ac_canAttach (classifySessionActionability date s m auth now status) \<and> as_processObservation s = Some Observed \<and>
     status \<noteq> Some Refresh_pending"
proof -
  obtain base reason where c: "classifyBase date s m auth now = (base, reason)" by fastforce
  have plain: "observation_note (agentSessionProcessObservation s) = None \<longleftrightarrow> as_processObservation s = Some Observed"
    by (cases "agentSessionProcessObservation s") (auto simp: agentSessionProcessObservation_def split: option.splits)
  show ?thesis
    using plain by (cases base; cases status) (auto simp: classifySessionActionability_def c displaySessionActionability_def split: option.splits refresh_status.splits)
qed

lemma merge_revision: "ac_observationRevision (mergeSessionActionabilityObservation a c st) =
    (case c of None \<Rightarrow> ac_observationRevision a | Some b \<Rightarrow> max (ac_observationRevision a) (ac_observationRevision b))"
  by (auto simp: mergeSessionActionabilityObservation_def split: option.splits)

text \<open>
  Late answers never undo newer ones: after any sequence of observations the confirmed revision is
  the largest seen, in whatever order they arrived, and the rest of the state is that of an
  observation with this revision.
\<close>

theorem observations_keep_newest:
  "let final = foldl (\<lambda>a (c, st). mergeSessionActionabilityObservation a (Some c) st) a cs in
     ac_observationRevision final = Max (ac_observationRevision ` set (a # map fst cs)) \<and>
     (\<exists>b \<in> set (a # map fst cs). final\<lparr>ac_refreshStatus := Refresh_idle\<rparr> = b\<lparr>ac_refreshStatus := Refresh_idle\<rparr>)"
proof (induction cs rule: rev_induct)
  case (snoc x xs)
  obtain c st where x: "x = (c, st)" by fastforce
  let ?f = "foldl (\<lambda>a (c, st). mergeSessionActionabilityObservation a (Some c) st) a xs"
  have new: "foldl (\<lambda>a (c, st). mergeSessionActionabilityObservation a (Some c) st) a (xs @ [x]) = mergeSessionActionabilityObservation ?f (Some c) st"
    by (simp add: x)
  have set: "set (a # map fst (xs @ [x])) = insert c (set (a # map fst xs))" by (auto simp: x)
  have "Max (ac_observationRevision ` set (a # map fst (xs @ [x]))) = max (ac_observationRevision c) (Max (ac_observationRevision ` set (a # map fst xs)))"
    unfolding set by (subst image_insert, subst Max_insert) auto
  with snoc have "ac_observationRevision (mergeSessionActionabilityObservation ?f (Some c) st) = Max (ac_observationRevision ` set (a # map fst (xs @ [x])))"
    by (simp add: merge_revision Let_def max.commute)
  moreover have "(mergeSessionActionabilityObservation ?f (Some c) st)\<lparr>ac_refreshStatus := Refresh_idle\<rparr> \<in>
      {?f\<lparr>ac_refreshStatus := Refresh_idle\<rparr>, c\<lparr>ac_refreshStatus := Refresh_idle\<rparr>}"
    by (auto simp: mergeSessionActionabilityObservation_def)
  moreover from snoc obtain b where "b \<in> set (a # map fst xs)" "?f\<lparr>ac_refreshStatus := Refresh_idle\<rparr> = b\<lparr>ac_refreshStatus := Refresh_idle\<rparr>"
    unfolding Let_def by blast
  ultimately show ?case unfolding Let_def new set by auto
qed simp

section \<open>Numbers and labels\<close>

definition roster_ids :: "roster_record list \<Rightarrow> string list" where
  "roster_ids rs = map ro_agentSessionId rs"

lemma session_by_idD: "session_by_id sessions i = Some s \<Longrightarrow> s \<in> set sessions \<and> as_id s = i"
  unfolding session_by_id_def find_Some_iff by (metis nth_mem set_rev)

lemma merge_record_id [simp]: "ro_agentSessionId (merge_record env sessions r) = ro_agentSessionId r"
  by (auto simp: merge_record_def recordFor_def split: option.splits dest: session_by_idD)

lemma merge_record_ended: "ro_ended r \<Longrightarrow> merge_record env sessions r = r"
  by (auto simp: merge_record_def split: option.splits)

lemma insert_created_mset [simp]: "mset (insert_created env s ts) = add_mset s (mset ts)"
  by (induction ts) auto

lemma fresh_mset: "mset (fresh_sessions env previous sessions) =
    mset (filter (\<lambda>s. as_id s \<notin> ro_agentSessionId ` set previous \<and> supported_by_cli (as_agent s) \<and> \<not> isAgentSessionGone s) sessions)"
proof -
  have "mset (foldr (insert_created env) ss []) = mset ss" for ss by (induction ss) auto
  then show ?thesis by (simp add: fresh_sessions_def)
qed

lemma fresh_set: "set (fresh_sessions env previous sessions) =
    {s \<in> set sessions. as_id s \<notin> set (roster_ids previous) \<and> supported_by_cli (as_agent s) \<and> \<not> isAgentSessionGone s}"
proof -
  have "set (fresh_sessions env previous sessions) = set (filter (\<lambda>s. as_id s \<notin> ro_agentSessionId ` set previous \<and>
      supported_by_cli (as_agent s) \<and> \<not> isAgentSessionGone s) sessions)"
    by (rule mset_eq_setD [OF fresh_mset])
  then show ?thesis by (simp add: roster_ids_def)
qed

lemma recordFor_id [simp]: "ro_agentSessionId (recordFor env s e) = as_id s"
  by (simp add: recordFor_def)

lemma merge_ids: "roster_ids (mergeSessionRoster env previous sessions) = roster_ids previous @ map as_id (fresh_sessions env previous sessions)"
  by (simp add: mergeSessionRoster_def roster_ids_def)

lemma count_list_map: "count_list (map f xs) i = length (filter (\<lambda>x. f x = i) xs)"
  by (induction xs) auto

text \<open>How often a session stands in the roster: as often as before, or as often as the listing that brought it has it.\<close>

lemma merge_count: "count_list (roster_ids (mergeSessionRoster env previous sessions)) i =
    (if i \<in> set (roster_ids previous) then count_list (roster_ids previous) i
     else length (filter (\<lambda>s. as_id s = i \<and> supported_by_cli (as_agent s) \<and> \<not> isAgentSessionGone s) sessions))"
proof -
  let ?fresh = "\<lambda>s. as_id s \<notin> ro_agentSessionId ` set previous \<and> supported_by_cli (as_agent s) \<and> \<not> isAgentSessionGone s"
  have "length (filter (\<lambda>s. as_id s = i) (fresh_sessions env previous sessions)) =
      size (filter_mset (\<lambda>s. as_id s = i) (mset (fresh_sessions env previous sessions)))" by (simp flip: mset_filter)
  also have "\<dots> = length (filter (\<lambda>s. as_id s = i \<and> ?fresh s) sessions)"
    unfolding fresh_mset by (simp add: conj_commute flip: mset_filter)
  finally have "count_list (map as_id (fresh_sessions env previous sessions)) i = length (filter (\<lambda>s. as_id s = i \<and> ?fresh s) sessions)"
    by (simp only: count_list_map)
  moreover have "count_list (roster_ids previous) i = 0" if "i \<notin> set (roster_ids previous)"
    using that by (simp add: count_notin)
  moreover have "filter (\<lambda>s. as_id s = i \<and> ?fresh s) sessions = (if i \<in> set (roster_ids previous) then [] else
      filter (\<lambda>s. as_id s = i \<and> supported_by_cli (as_agent s) \<and> \<not> isAgentSessionGone s) sessions)"
    by (auto simp: roster_ids_def filter_empty_conv intro!: filter_cong)
  ultimately show ?thesis by (simp add: merge_ids)
qed

lemma entry_of_simps: "re_number (entry_of w e) = Suc (fst e)" "re_agentSessionId (entry_of w e) = ro_agentSessionId (snd e)"
  "re_ended (entry_of w e) = ro_ended (snd e)"
  by (simp_all add: entry_of_def split: prod.splits)

lemma map_snd_of_enumerate: "map (\<lambda>e. f (snd e)) (enumerate k xs) = map f xs"
  by (induction xs arbitrary: k) simp_all

lemma entries_numbers: "map re_number (sessionRosterEntries rs) = [1..<Suc (length rs)]"
proof -
  have "map re_number (sessionRosterEntries rs) = map Suc (map fst (enumerate 0 rs))"
    unfolding sessionRosterEntries_def map_map by (rule map_cong [OF refl]) (simp add: entry_of_simps)
  then show ?thesis by (simp only: map_fst_enumerate map_Suc_upt One_nat_def add_0)
qed

lemma entries_ids: "map re_agentSessionId (sessionRosterEntries rs) = roster_ids rs"
  by (simp add: sessionRosterEntries_def entry_of_simps comp_def map_snd_of_enumerate roster_ids_def)

lemma entries_ended: "map re_ended (sessionRosterEntries rs) = map ro_ended rs"
  by (simp add: sessionRosterEntries_def entry_of_simps comp_def map_snd_of_enumerate)

lemma entries_length [simp]: "length (sessionRosterEntries rs) = length rs"
  by (simp add: sessionRosterEntries_def)

lemma roster_entry_eqI:
  fixes a b :: roster_entry
  shows "re_number a = re_number b \<Longrightarrow> re_agentSessionId a = re_agentSessionId b \<Longrightarrow> re_label a = re_label b \<Longrightarrow>
    re_ended a = re_ended b \<Longrightarrow> re_agent a = re_agent b \<Longrightarrow> a = b"
  by (cases a; cases b) simp

lemma sameEntries_eq: "sameEntries (sessionRosterEntries rs) (sessionRosterEntries rs') \<Longrightarrow> sessionRosterEntries rs = sessionRosterEntries rs'"
proof (rule nth_equalityI)
  assume same: "sameEntries (sessionRosterEntries rs) (sessionRosterEntries rs')"
  then show len: "length (sessionRosterEntries rs) = length (sessionRosterEntries rs')" by (simp add: sameEntries_def)
  fix i assume i: "i < length (sessionRosterEntries rs)"
  have n: "re_number (sessionRosterEntries us ! i) = i + 1" if "i < length us" for us
  proof -
    have "map re_number (sessionRosterEntries us) ! i = [1..<Suc (length us)] ! i" by (simp only: entries_numbers)
    with that show ?thesis by (simp del: upt_Suc)
  qed
  show "sessionRosterEntries rs ! i = sessionRosterEntries rs' ! i"
    using same i len n [of rs] n [of rs'] unfolding sameEntries_def list_all_length
    by (intro roster_entry_eqI) (auto simp: split: prod.splits)
qed

section \<open>The polling roster\<close>

inductive polling_step :: "text_env \<Rightarrow> polling_roster \<Rightarrow> polling_roster \<Rightarrow> bool" for env where
  refresh: "polling_step env p (polling_refresh env listing p)"
| subscribe: "polling_step env p (polling_subscribe l p)"
| unsubscribe: "polling_step env p (polling_unsubscribe l p)"
| start: "polling_step env p (polling_start p)"
| stop: "polling_step env p (polling_stop p)"

definition polling_inv :: "polling_roster \<Rightarrow> bool" where
  "polling_inv p \<longleftrightarrow> po_entries p = sessionRosterEntries (po_records p)"

lemmas polling_defs = polling_refresh_def polling_subscribe_def polling_unsubscribe_def polling_start_def polling_stop_def

lemma polling_step_records:
  assumes "polling_step env p q" and "polling_inv p"
  shows "polling_inv q \<and> (po_records q = po_records p \<or> (\<exists>sessions. po_records q = mergeSessionRoster env (po_records p) sessions))"
  using assms
proof cases
  case (refresh listing)
  show ?thesis
  proof (cases "listing = None \<or> po_aborted p")
    case True
    with refresh assms(2) show ?thesis by (auto simp: polling_refresh_def split: option.splits)
  next
    case False
    then obtain sessions where l: "listing = Some sessions" "\<not> po_aborted p" by auto
    let ?r = "mergeSessionRoster env (po_records p) sessions"
    have "po_records q = ?r" "po_entries q = sessionRosterEntries ?r"
      using refresh l assms(2) sameEntries_eq [of "po_records p" ?r] by (auto simp: polling_refresh_def Let_def polling_inv_def)
    then show ?thesis by (auto simp: polling_inv_def)
  qed
qed (auto simp: polling_defs polling_inv_def)

lemma refresh_entries: "polling_inv p \<Longrightarrow> po_entries (polling_refresh env (Some sessions) p) =
    (if po_aborted p then po_entries p else sessionRosterEntries (mergeSessionRoster env (po_records p) sessions))"
  using sameEntries_eq [of "po_records p" "mergeSessionRoster env (po_records p) sessions"]
  by (auto simp: polling_refresh_def polling_inv_def Let_def)

interpretation polling: invariant_system "\<lambda>p. p = polling_new" "polling_step env" polling_inv for env
proof unfold_locales
  show "polling_inv p" if "p = polling_new" for p
    using that by (simp add: polling_inv_def polling_new_def sessionRosterEntries_def roster_ids_def)
qed (use polling_step_records in blast)

definition roster_extends :: "roster_record list \<Rightarrow> roster_record list \<Rightarrow> bool" where
  "roster_extends rs rs' \<longleftrightarrow> prefix (roster_ids rs) (roster_ids rs') \<and>
     list_all2 (\<lambda>r r'. if ro_ended r then r' = r else True) rs (take (length rs) rs')"

lemma roster_extends_refl: "roster_extends rs rs"
  by (simp add: roster_extends_def list_all2_refl)

lemma roster_extends_merge: "roster_extends rs (mergeSessionRoster env rs sessions)"
proof -
  have "list_all2 (\<lambda>r r'. if ro_ended r then r' = r else True) rs (map (merge_record env sessions) rs)"
    by (auto simp: list_all2_conv_all_nth merge_record_ended)
  moreover have "take (length rs) (mergeSessionRoster env rs sessions) = map (merge_record env sessions) rs"
    by (simp add: mergeSessionRoster_def)
  ultimately show ?thesis unfolding roster_extends_def merge_ids by simp
qed

lemma roster_extends_trans:
  assumes "roster_extends a b" and "roster_extends b c"
  shows "roster_extends a c"
proof -
  have len: "length a \<le> length b" "length b \<le> length c"
    using assms by (auto simp: roster_extends_def roster_ids_def dest: prefix_length_le)
  have "if ro_ended (a ! i) then c ! i = a ! i else True" if "i < length a" for i
    using assms that len by (fastforce simp: roster_extends_def list_all2_conv_all_nth split: if_splits)
  with assms len show ?thesis
    by (auto simp: roster_extends_def list_all2_conv_all_nth intro: prefix_order.trans)
qed

lemma polling_extends:
  assumes "(polling_step env)\<^sup>*\<^sup>* p q" and "polling_inv p"
  shows "roster_extends (po_records p) (po_records q)"
  using assms
proof (induction rule: rtranclp_induct)
  case base
  show ?case by (rule roster_extends_refl)
next
  case (step q r)
  have "polling_inv q" using polling.steps_inv [OF step(1)] step.prems by blast
  from polling_step_records [OF step(2) this] have "roster_extends (po_records q) (po_records r)"
    using roster_extends_refl roster_extends_merge by metis
  with step show ?case by (blast intro: roster_extends_trans)
qed

text \<open>
  C27. A number is a promise: whatever the listings of a run said (an id listed twice included) and
  whichever of them failed, the session shown under a number is shown under it to the end of the run,
  the numbers are those from 1 on, and one that was shown as ended stays ended. A successful listing changes
  how often a session is numbered only for a session not numbered yet, which gets as many
  numbers as the listing has live entries of a supported agent with its id: one, unless the pages
  of the listing repeat it.
\<close>

theorem session_numbers_stable:
  assumes "(polling_step env)\<^sup>*\<^sup>* polling_new p" and "(polling_step env)\<^sup>*\<^sup>* p q"
  shows "prefix (map (\<lambda>e. (re_number e, re_agentSessionId e)) (po_entries p)) (map (\<lambda>e. (re_number e, re_agentSessionId e)) (po_entries q)) \<and>
     map re_number (po_entries q) = [1..<Suc (length (po_entries q))] \<and>
     list_all2 (\<lambda>e f. re_ended e \<le> re_ended f) (po_entries p) (take (length (po_entries p)) (po_entries q)) \<and>
     (\<forall>sessions i. count_list (map re_agentSessionId (po_entries (polling_refresh env (Some sessions) q))) i =
       (if po_aborted q \<or> i \<in> set (map re_agentSessionId (po_entries q)) then count_list (map re_agentSessionId (po_entries q)) i
        else length (filter (\<lambda>s. as_id s = i \<and> as_agent s \<in> {Claude_code, Codex, Opencode} \<and> \<not> isAgentSessionGone s) sessions)))"
proof -
  have p: "polling_inv p" using polling.reachable_inv [OF refl assms(1)] .
  then have q: "polling_inv q" using polling.steps_inv [OF assms(2)] by blast
  have ext: "roster_extends (po_records p) (po_records q)" by (rule polling_extends [OF assms(2) p])
  have pairs: "map (\<lambda>e. (re_number e, re_agentSessionId e)) es = zip (map re_number es) (map re_agentSessionId es)" for es
    by (induction es) simp_all
  from ext obtain zs where ids: "roster_ids (po_records q) = roster_ids (po_records p) @ zs"
    by (auto simp: roster_extends_def prefix_def)
  then have len: "length (po_records q) = length (po_records p) + length zs" by (metis length_append length_map roster_ids_def)
  have "[1..<Suc (length (po_records q))] = [1..<Suc (length (po_records p))] @ [Suc (length (po_records p))..<Suc (length (po_records q))]"
    unfolding len by (metis One_nat_def Suc_le_mono add_Suc le0 upt_add_eq_append)
  moreover have "length [1..<Suc (length (po_records p))] = length (roster_ids (po_records p))" unfolding roster_ids_def length_map length_upt by simp
  ultimately have zip: "zip [1..<Suc (length (po_records q))] (roster_ids (po_records q)) =
      zip [1..<Suc (length (po_records p))] (roster_ids (po_records p)) @ zip [Suc (length (po_records p))..<Suc (length (po_records q))] zs"
    unfolding ids by (simp only: zip_append)
  have "list_all2 (\<lambda>r r'. ro_ended r \<le> ro_ended r') (po_records p) (take (length (po_records p)) (po_records q))"
    using ext unfolding roster_extends_def by (auto elim!: list_all2_mono split: if_splits)
  then have "list_all2 (\<le>) (map ro_ended (po_records p)) (take (length (po_records p)) (map ro_ended (po_records q)))"
    by (simp add: list_all2_map1 list_all2_map2 take_map)
  then have ended: "list_all2 (\<lambda>e f. re_ended e \<le> re_ended f) (po_entries p) (take (length (po_entries p)) (po_entries q))"
    using p q by (simp add: polling_inv_def entries_ended [symmetric] list_all2_map1 list_all2_map2 take_map)
  have counts: "count_list (map re_agentSessionId (po_entries (polling_refresh env (Some sessions) q))) i =
       (if po_aborted q \<or> i \<in> set (map re_agentSessionId (po_entries q)) then count_list (map re_agentSessionId (po_entries q)) i
        else length (filter (\<lambda>s. as_id s = i \<and> as_agent s \<in> {Claude_code, Codex, Opencode} \<and> \<not> isAgentSessionGone s) sessions))" for sessions i
    using refresh_entries [OF q, of env sessions] merge_count [of env "po_records q" sessions i]
    by (simp add: q [unfolded polling_inv_def] entries_ids supported_agents)
  from p q zip have numbered: "prefix (map (\<lambda>e. (re_number e, re_agentSessionId e)) (po_entries p)) (map (\<lambda>e. (re_number e, re_agentSessionId e)) (po_entries q))"
    "map re_number (po_entries q) = [1..<Suc (length (po_entries q))]"
    by (simp_all add: polling_inv_def pairs entries_numbers entries_ids del: upt_Suc)
  show ?thesis by (intro conjI allI counts ended numbered)
qed

section \<open>Labels\<close>

lemma truncateLabel_length: "1 \<le> m \<Longrightarrow> length (truncateLabel v m) \<le> m"
  by (auto simp: truncateLabel_def)

lemma codes_inj: "codes s = codes t \<Longrightarrow> s = t"
  unfolding codes_def by (metis (no_types, lifting) inj_map_eq_map inj_on_def of_char_eq_iff)

lemma appendLabelSuffix_ends:
  assumes "suf \<noteq> []" and "length suf \<le> 38"
  shows "length (appendLabelSuffix base suf) \<le> 40" and "\<exists>front. appendLabelSuffix base suf = front @ suf"
proof -
  have shown: "truncateLabel suf (label_maximum - (if base = [] then 0 else 2)) = suf"
    using assms by (simp add: truncateLabel_def label_maximum_def)
  have "1 \<le> label_maximum - length suf - 1" using assms(2) by (simp add: label_maximum_def)
  from truncateLabel_length [OF this, of base] assms shown show "length (appendLabelSuffix base suf) \<le> 40"
    by (auto simp: appendLabelSuffix_def Let_def label_maximum_def)
  show "\<exists>front. appendLabelSuffix base suf = front @ suf" using assms shown by (auto simp: appendLabelSuffix_def Let_def)
qed

lemma shortIdWidth_distinct:
  assumes "distinct ids" and "list_all (\<lambda>i. length i = 36) ids"
  shows "distinct (map (take (shortIdWidth ids)) ids)" and "1 \<le> shortIdWidth ids" and "shortIdWidth ids \<le> 36"
proof -
  have "distinct (map (take (shortIdWidth ids)) ids) \<and> 1 \<le> shortIdWidth ids \<and> shortIdWidth ids \<le> 36"
  proof (cases "find (\<lambda>w. card (set (map (take w) ids)) = length ids) [8, 13, 18, 23]")
    case None
    have "map (take 36) ids = ids" using assms(2) by (intro map_idI) (simp add: list_all_iff)
    with None assms(1) show ?thesis by (simp add: shortIdWidth_def)
  next
    case (Some w)
    from Some have "card (set (map (take w) ids)) = length ids" unfolding find_Some_iff by blast
    then have "distinct (map (take w) ids)" by (intro card_distinct) simp
    moreover have "w \<in> set [8, 13, 18, 23]" using Some unfolding find_Some_iff by (metis nth_mem)
    then have "w = 8 \<or> w = 13 \<or> w = 18 \<or> w = 23" by simp
    then have "1 \<le> w \<and> w \<le> 36" by (elim disjE) simp_all
    ultimately show ?thesis using Some by (simp add: shortIdWidth_def)
  qed
  then show "distinct (map (take (shortIdWidth ids)) ids)" "1 \<le> shortIdWidth ids" "shortIdWidth ids \<le> 36" by auto
qed

text \<open>
  Labels name sessions: with distinct AgentSession ids of the usual length no two entries of the
  bar have the same label, whatever the sessions are called, and no label is longer than 40
  characters.
\<close>

theorem labels_distinct:
  fixes rs :: "roster_record list"
  assumes "distinct (roster_ids rs)" and "list_all (\<lambda>i. length i = 36) (roster_ids rs)"
  shows "distinct (map re_label (sessionRosterEntries rs)) \<and> list_all (\<lambda>e. length (re_label e) \<le> 40) (sessionRosterEntries rs)"
proof -
  let ?w = "shortIdWidth (roster_ids rs)"
  note width = shortIdWidth_distinct [OF assms]
  define base where "base r = truncateLabel (if ro_name r = codes (agent_text (ro_agent r)) then [] else ro_name r) label_maximum" for r :: roster_record
  define suf where "suf r = codes (take ?w (ro_agentSessionId r))" for r :: roster_record
  have label: "map re_label (sessionRosterEntries rs) = map (\<lambda>r. appendLabelSuffix (base r) (suf r)) rs"
    unfolding sessionRosterEntries_def map_map map_snd_of_enumerate [of "\<lambda>r. appendLabelSuffix (base r) (suf r)" 0, symmetric]
    by (rule map_cong [OF refl]) (simp add: entry_of_def base_def suf_def roster_ids_def split: prod.splits)
  have suf: "length (suf r) = ?w" "suf r \<noteq> []" if "r \<in> set rs" for r
  proof -
    have "length (ro_agentSessionId r) = 36" using assms(2) that by (auto simp: roster_ids_def list_all_iff)
    with width(2,3) show "length (suf r) = ?w" by (simp add: suf_def codes_def)
    with width(2) show "suf r \<noteq> []" by auto
  qed
  have ends: "length (appendLabelSuffix (base r) (suf r)) \<le> 40" "\<exists>front. appendLabelSuffix (base r) (suf r) = front @ suf r" if "r \<in> set rs" for r
    using appendLabelSuffix_ends [of "suf r" "base r"] suf [OF that] width(3) by auto
  have "inj_on (\<lambda>r. appendLabelSuffix (base r) (suf r)) (set rs)"
  proof (rule inj_onI)
    fix r s assume rs: "r \<in> set rs" "s \<in> set rs" "appendLabelSuffix (base r) (suf r) = appendLabelSuffix (base s) (suf s)"
    from ends(2) [OF rs(1)] ends(2) [OF rs(2)] rs(3) suf(1) [OF rs(1)] suf(1) [OF rs(2)] have "suf r = suf s"
      by (auto simp: append_eq_append_conv)
    then have "take ?w (ro_agentSessionId r) = take ?w (ro_agentSessionId s)" unfolding suf_def by (rule codes_inj)
    moreover have "inj_on (\<lambda>r. take ?w (ro_agentSessionId r)) (set rs)"
      using width(1) by (simp add: roster_ids_def distinct_map comp_def)
    ultimately show "r = s" using rs(1,2) by (auto dest: inj_onD)
  qed
  moreover have "distinct rs" using assms(1) by (simp add: roster_ids_def distinct_map)
  ultimately have "distinct (map re_label (sessionRosterEntries rs))" unfolding label by (simp add: distinct_map)
  moreover have "list_all (\<lambda>l. length l \<le> 40) (map re_label (sessionRosterEntries rs))"
    unfolding label using ends(1) by (simp add: list_all_iff)
  ultimately show ?thesis by (simp add: list.pred_map comp_def)
qed

section \<open>A run of the roster\<close>

abbreviation session_a :: string where "session_a \<equiv> ''f3cd5d5c-0000-4000-8000-00000000000a''"
abbreviation session_b :: string where "session_b \<equiv> ''f3cd5d5c-0000-4000-8000-00000000000b''"

definition sample_text_env :: text_env where
  "sample_text_env = \<lparr>tx_nfc = (\<lambda>t. t), tx_control = (\<lambda>c. c < 32), tx_space = (\<lambda>c. c = 32),
     tx_compare = (\<lambda>s t. if s = t then 0 else if length s < length t then -1 else 1)\<rparr>"

definition sample_session :: "string \<Rightarrow> process_state \<Rightarrow> int \<Rightarrow> agent_session" where
  "sample_session i st v = \<lparr>as_id = i, as_machineId = ''m'', as_name = [104, 105], as_agent = Codex, as_desiredState = Desired_running,
     as_requestState = Launched, as_processState = st, as_processObservation = Some Observed, as_processEpoch = Some ''e'',
     as_runtimeObservedAt = None, as_runtimeExpiresAt = None, as_rowVersion = v, as_createdAt = ''t''\<rparr>"

definition first_roster :: polling_roster where
  "first_roster = polling_refresh sample_text_env (Some [sample_session session_a Running 1]) polling_new"

definition second_roster :: polling_roster where
  "second_roster = polling_refresh sample_text_env (Some [sample_session session_b Running 1, sample_session session_a Exited 2]) first_roster"

theorem session_numbers_stable_witness:
  "map re_agentSessionId (po_entries second_roster) = [session_a, session_b] \<and>
   prefix (map (\<lambda>e. (re_number e, re_agentSessionId e)) (po_entries first_roster)) (map (\<lambda>e. (re_number e, re_agentSessionId e)) (po_entries second_roster))"
proof
  have "(polling_step sample_text_env)\<^sup>*\<^sup>* polling_new first_roster"
    unfolding first_roster_def by (rule r_into_rtranclp, rule polling_step.refresh)
  moreover have "(polling_step sample_text_env)\<^sup>*\<^sup>* first_roster second_roster"
    unfolding second_roster_def by (rule r_into_rtranclp, rule polling_step.refresh)
  ultimately show "prefix (map (\<lambda>e. (re_number e, re_agentSessionId e)) (po_entries first_roster)) (map (\<lambda>e. (re_number e, re_agentSessionId e)) (po_entries second_roster))"
    using session_numbers_stable by blast
  show "map re_agentSessionId (po_entries second_roster) = [session_a, session_b]" by code_simp
qed

theorem labels_distinct_witness: "distinct (map re_label (sessionRosterEntries (po_records second_roster)))"
proof -
  have "roster_ids (po_records second_roster) = [session_a, session_b]" by code_simp
  then have "distinct (roster_ids (po_records second_roster))" "list_all (\<lambda>i. length i = 36) (roster_ids (po_records second_roster))" by simp_all
  from labels_distinct [OF this] show ?thesis by blast
qed

end
