(* ===== verification/Workspace_Folder.thy ===== *)
theory Workspace_Folder
  imports Sync_Protocol Exclusion "HOL-Library.Multiset"
begin

text \<open>
  The folder on disk and the manifest that is made of it: \<^verbatim>\<open>createWorkspaceManifest\<close> with
  \<^verbatim>\<open>hashStableFile\<close> of \<^verbatim>\<open>src/workspace/manifest.ts\<close>, and the file operations with which
  \<^verbatim>\<open>src/sync/continuous-sync-supervisor.ts\<close> changes the folder. A folder maps paths in their wire
  form to what is there; \<open>fe_same\<close> gives the name the file system compares by (the path itself
  where case counts), \<open>fe_symlinks\<close> is \<^verbatim>\<open>allowSafeRelativeSymlinks\<close> and \<open>fe_linkInside\<close> the host's lexical check
  of the target of a link. What \<^verbatim>\<open>hashStableFile\<close> does against files that change while they are read
  and against hard links is left out: a manifest is made of one state of the folder.
\<close>

section \<open>Folders\<close>

datatype node = Dir | Reg "byte list" bool | Link string | Special

type_synonym folder = "(string, node) js_map"

record manifest_limits =
  ml_maximumEntries :: int
  ml_maximumTotalBytes :: int
  ml_maximumFileBytes :: int
  ml_chunkBytes :: nat

definition default_limits :: manifest_limits where
  "default_limits = \<lparr>ml_maximumEntries = 100000, ml_maximumTotalBytes = 2 * 1024 * 1024 * 1024,
     ml_maximumFileBytes = 512 * 1024 * 1024, ml_chunkBytes = 4 * 1024 * 1024\<rparr>"

record folder_env =
  fe_sync :: sync_env
  fe_lower :: "string \<Rightarrow> string"
  fe_decode :: "byte list \<Rightarrow> string"
  fe_policy :: exclusion_policy
  fe_caps :: filesystem_capabilities
  fe_limits :: manifest_limits
  fe_symlinks :: bool
  fe_linkInside :: "string \<Rightarrow> string \<Rightarrow> bool"
  fe_same :: "string \<Rightarrow> string"

abbreviation fe_normalize :: "folder_env \<Rightarrow> string \<Rightarrow> cuna_error + string" where
  "fe_normalize env \<equiv> normalizeWirePath (se_nfc (fe_sync env)) (fe_caps env)"

definition decide :: "folder_env \<Rightarrow> string \<Rightarrow> entry_kind \<Rightarrow> cuna_error + bool" where
  "decide env path kind = (case policy_decide (se_nfc (fe_sync env)) (fe_lower env) (fe_policy env) path kind of
     Inl e \<Rightarrow> Inl e | Inr d \<Rightarrow> Inr (xd_excluded d))"

text \<open>The directories above a path, from the top.\<close>

definition ancestors :: "string \<Rightarrow> string list" where
  "ancestors p = (let cs = split_on CHR ''/'' p in map (\<lambda>k. join_on CHR ''/'' (take k cs)) [1..<length cs])"

fun any_excluded :: "folder_env \<Rightarrow> string list \<Rightarrow> cuna_error + bool" where
  "any_excluded env [] = Inr False"
| "any_excluded env (d # ds) = try_bind (decide env d Directory_entry) (\<lambda>x. if x then Inr True else any_excluded env ds)"

section \<open>The manifest of a folder\<close>

fun node_kind :: "node \<Rightarrow> entry_kind" where
  "node_kind Dir = Directory_entry"
| "node_kind (Reg _ _) = File_entry"
| "node_kind (Link _) = Symlink_entry"
| "node_kind Special = Special_entry"

definition limitFailure :: "string \<Rightarrow> cuna_error" where
  "limitFailure reason = workspaceError ''resource_limit'' Policy reason"

text \<open>The chunks as the stream delivers them; an empty file is one empty chunk.\<close>

function split_chunks :: "nat \<Rightarrow> byte list \<Rightarrow> byte list list" where
  "split_chunks k bs = (if bs = [] \<or> k = 0 then [] else take k bs # split_chunks k (drop k bs))"
  by pat_completeness auto
termination by (relation "measure (\<lambda>(_, bs). length bs)") auto

declare split_chunks.simps [simp del]

definition file_chunks :: "nat \<Rightarrow> byte list \<Rightarrow> byte list list" where
  "file_chunks k bs = (let cs = split_chunks k bs in if cs = [] then [[]] else cs)"

definition content_chunk_of :: "folder_env \<Rightarrow> nat \<times> byte list \<Rightarrow> content_chunk" where
  "content_chunk_of env c = (case c of (i, b) \<Rightarrow> \<lparr>cc_index = int i, cc_byteLength = int (length b), cc_digest = se_sha (fe_sync env) b\<rparr>)"

text \<open>Each chunk is searched for secrets together with the last 128 bytes before it.\<close>

fun secret_scan :: "folder_env \<Rightarrow> byte list \<Rightarrow> byte list list \<Rightarrow> string option" where
  "secret_scan env overlap [] = None"
| "secret_scan env overlap (b # bs) = (case detectHighConfidenceSecret (fe_decode env) (overlap @ b) of
     Some category \<Rightarrow> Some category
   | None \<Rightarrow> secret_scan env (drop (length b - 128) b) bs)"

definition hashStableFile :: "folder_env \<Rightarrow> string \<Rightarrow> byte list \<Rightarrow> bool \<Rightarrow> cuna_error + manifest_entry" where
  "hashStableFile env w bytes executable =
     (if int (length bytes) > ml_maximumFileBytes (fe_limits env) then Inl (limitFailure ''file_bytes_limit'')
      else case secret_scan env [] (split_chunks (ml_chunkBytes (fe_limits env)) bytes) of
        Some category \<Rightarrow> Inl (workspaceError ''secret_blocked'' Policy category)
      | None \<Rightarrow> Inr \<lparr>me_path = w, me_kind = M_file, me_byteLength = int (length bytes), me_executable = executable,
          me_contentDigest = Some (se_sha (fe_sync env) (utf8_bytes (''cuna-content-v1'' @ [CHR 0x00]) @ bytes)),
          me_chunks = Some (map (content_chunk_of env) (enumerate 0 (file_chunks (ml_chunkBytes (fe_limits env)) bytes))),
          me_linkTarget = None\<rparr>)"

definition external_target :: "string \<Rightarrow> bool" where
  "external_target t \<longleftrightarrow> CHR 0x00 \<in> set t \<or> (case t of [] \<Rightarrow> False | c # _ \<Rightarrow> c = CHR ''/'' \<or> c = CHR 0x5C) \<or> has_drive_prefix t"

definition link_entry :: "folder_env \<Rightarrow> string \<Rightarrow> string \<Rightarrow> cuna_error + manifest_entry" where
  "link_entry env w target =
     (if \<not> fe_symlinks env \<or> \<not> fc_symlinks (fe_caps env) then Inl (workspaceError ''portability_conflict'' Unsupported ''symlink_unsupported'')
      else if external_target target then Inl (workspaceError ''path_escape'' Policy ''external_symlink'')
      else if \<not> fe_linkInside env w target then Inl (workspaceError ''path_escape'' Policy ''outside_root'')
      else if utf8_length target > 4096 then Inl (limitFailure ''symlink_limit'')
      else Inr \<lparr>me_path = w, me_kind = M_symlink, me_byteLength = int (utf8_length target), me_executable = False,
        me_contentDigest = None, me_chunks = None, me_linkTarget = Some (se_nfc (fe_sync env) target)\<rparr>)"

definition directory_entry :: "string \<Rightarrow> manifest_entry" where
  "directory_entry w = \<lparr>me_path = w, me_kind = M_directory, me_byteLength = 0, me_executable = False,
     me_contentDigest = None, me_chunks = None, me_linkTarget = None\<rparr>"

text \<open>The entry the walk makes of one thing in the folder; \<open>None\<close> is a thing it leaves out.\<close>

definition entry_at :: "folder_env \<Rightarrow> string \<Rightarrow> node \<Rightarrow> cuna_error + manifest_entry option" where
  "entry_at env p n =
     try_bind (any_excluded env (ancestors p)) (\<lambda>above. if above then Inr None else
     try_bind (fe_normalize env p) (\<lambda>w.
     try_bind (decide env w (node_kind n)) (\<lambda>out. if out then Inr None else
       map_sum id Some (case n of
         Special \<Rightarrow> Inl (workspaceError ''portability_conflict'' Unsupported ''special_file'')
       | Dir \<Rightarrow> Inr (directory_entry w)
       | Link target \<Rightarrow> link_entry env w target
       | Reg bytes executable \<Rightarrow> hashStableFile env w bytes executable))))"

fun walk_entries :: "folder_env \<Rightarrow> folder \<Rightarrow> manifest_entry list \<Rightarrow> int \<Rightarrow> cuna_error + manifest_entry list \<times> int" where
  "walk_entries env [] entries totalBytes = Inr (entries, totalBytes)"
| "walk_entries env ((p, n) # rest) entries totalBytes =
     try_bind (entry_at env p n) (\<lambda>found. case found of
       None \<Rightarrow> walk_entries env rest entries totalBytes
     | Some e \<Rightarrow> (let total = totalBytes + me_byteLength e in
         if int (length entries) \<ge> ml_maximumEntries (fe_limits env) then Inl (limitFailure ''entry_limit'')
         else if me_kind e = M_file \<and> total > ml_maximumTotalBytes (fe_limits env) then Inl (limitFailure ''total_bytes_limit'')
         else walk_entries env rest (entries @ [e]) total))"

text \<open>
  The walk goes through the folder in the order of the paths; the order of the source differs, and
  with it which of several failures is reported. The exclusion counts are left out.
\<close>

definition createWorkspaceManifest :: "folder_env \<Rightarrow> folder \<Rightarrow> cuna_error + workspace_manifest" where
  "createWorkspaceManifest env f =
     try_bind (walk_entries env (sort_by_path fst f) [] 0) (\<lambda>(entries, totalBytes).
     try_bind (assertNoPortableCollisions (se_nfc (fe_sync env)) (fe_lower env) (fe_caps env) (map me_path entries)) (\<lambda>_.
       let es = sort_by_path me_path entries in
       Inr \<lparr>wm_policyDigest = ep_digest (fe_policy env), wm_manifestRoot = publicProtocolManifestRoot (fe_sync env) es,
            wm_entryCount = int (length es), wm_totalBytes = totalBytes, wm_entries = es\<rparr>))"

section \<open>Changing the folder\<close>

text \<open>What can go wrong: a refusal of the program, or a code of the host's file system.\<close>

datatype sync_fault = Refused cuna_error | Host_code string

definition syncFailure :: "string \<Rightarrow> exit_code \<Rightarrow> sync_fault" where
  "syncFailure reason code = Refused \<lparr>ce_code = ''cuna.workspace_sync.continuous_failed'', ce_exitCode = code,
     ce_hint = None, ce_retryable = False, ce_reason = Some reason\<rparr>"

datatype resolution = Local_in_place | Remote_in_place

record sync_conflict =
  sx_resolution :: resolution
  sx_path :: string
  sx_sibling :: "string option"
  sx_generation :: int

text \<open>
  A file is put in place by one \<^verbatim>\<open>rename\<close>, so an operation is a list of atomic effects and, if it
  fails, the failure that follows them.
\<close>

datatype fs_effect = Mkdir string | Put string "byte list" bool | Remove string | Announce sync_conflict

type_synonym plan = "fs_effect list \<times> sync_fault option"

definition stored :: "folder_env \<Rightarrow> folder \<Rightarrow> string \<Rightarrow> string" where
  "stored env f p = (case find (\<lambda>(q, _). fe_same env q = fe_same env p) f of Some (q, _) \<Rightarrow> q | None \<Rightarrow> p)"

definition look :: "folder_env \<Rightarrow> folder \<Rightarrow> string \<Rightarrow> node option" where
  "look env f p = map_get f (stored env f p)"

fun run_effect :: "folder_env \<Rightarrow> fs_effect \<Rightarrow> folder \<Rightarrow> folder" where
  "run_effect env (Mkdir p) f = map_set (stored env f p) Dir f"
| "run_effect env (Put p b x) f = map_set (stored env f p) (Reg b x) f"
| "run_effect env (Remove p) f = AList.delete (stored env f p) f"
| "run_effect env (Announce c) f = f"

definition run_effects :: "folder_env \<Rightarrow> fs_effect list \<Rightarrow> folder \<Rightarrow> folder" where
  "run_effects env es f = fold (run_effect env) es f"

definition seq_plan :: "folder_env \<Rightarrow> folder \<Rightarrow> plan \<Rightarrow> (folder \<Rightarrow> plan) \<Rightarrow> plan" where
  "seq_plan env f p k = (case p of
     (es, Some e) \<Rightarrow> (es, Some e)
   | (es, None) \<Rightarrow> (case k (run_effects env es f) of (es', r) \<Rightarrow> (es @ es', r)))"

definition fail_plan :: "sync_fault \<Rightarrow> plan" where
  "fail_plan e = ([], Some e)"

definition ancestor_untrusted :: sync_fault where
  "ancestor_untrusted = syncFailure ''ancestor_untrusted'' Exit_policy"

fun assertSafeAncestors :: "folder_env \<Rightarrow> folder \<Rightarrow> string list \<Rightarrow> sync_fault option" where
  "assertSafeAncestors env f [] = None"
| "assertSafeAncestors env f (d # ds) = (case look env f d of
     None \<Rightarrow> Some (Host_code ''ENOENT'')
   | Some Dir \<Rightarrow> assertSafeAncestors env f ds
   | Some _ \<Rightarrow> Some ancestor_untrusted)"

fun ensureSafeDirectory :: "folder_env \<Rightarrow> string list \<Rightarrow> folder \<Rightarrow> plan" where
  "ensureSafeDirectory env [] f = ([], None)"
| "ensureSafeDirectory env (d # ds) f = (case look env f d of
     None \<Rightarrow> seq_plan env f ([Mkdir d], None) (ensureSafeDirectory env ds)
   | Some Dir \<Rightarrow> ensureSafeDirectory env ds f
   | Some _ \<Rightarrow> fail_plan ancestor_untrusted)"

definition retention_collision :: sync_fault where
  "retention_collision = syncFailure ''conflict_retention_collision'' Exit_conflict"

definition atomicReplaceFile :: "folder_env \<Rightarrow> folder \<Rightarrow> string \<Rightarrow> byte list list \<Rightarrow> bool \<Rightarrow> bool \<Rightarrow> plan" where
  "atomicReplaceFile env f p chunks executable requireMissing =
     seq_plan env f (ensureSafeDirectory env (ancestors p) f) (\<lambda>f.
       if requireMissing \<and> look env f p \<noteq> None then fail_plan retention_collision
       else case look env f p of
         None \<Rightarrow> ([Put p (concat chunks) executable], None)
       | Some (Reg _ _) \<Rightarrow> ([Put p (concat chunks) executable], None)
       | Some _ \<Rightarrow> fail_plan (syncFailure ''replace_target_untrusted'' Exit_policy))"

definition empty_directory :: "folder_env \<Rightarrow> folder \<Rightarrow> string \<Rightarrow> bool" where
  "empty_directory env f p \<longleftrightarrow> (let top = fe_same env p @ ''/'' in \<not> list_ex (\<lambda>(q, _). take (length top) (fe_same env q) = top) f)"

definition safeDelete :: "folder_env \<Rightarrow> folder \<Rightarrow> string \<Rightarrow> plan" where
  "safeDelete env f p = (case assertSafeAncestors env f (ancestors p) of
     Some e \<Rightarrow> fail_plan e
   | None \<Rightarrow> (case look env f p of
       None \<Rightarrow> ([], None)
     | Some Dir \<Rightarrow> if empty_directory env f p then ([Remove p], None) else fail_plan (Host_code ''ENOTEMPTY'')
     | Some (Reg _ _) \<Rightarrow> ([Remove p], None)
     | Some _ \<Rightarrow> fail_plan (syncFailure ''delete_target_untrusted'' Exit_policy)))"

definition writeRetainedSibling :: "folder_env \<Rightarrow> folder \<Rightarrow> string \<Rightarrow> byte list list \<Rightarrow> bool \<Rightarrow> plan" where
  "writeRetainedSibling env f p chunks executable = (case look env f p of
     None \<Rightarrow> atomicReplaceFile env f p chunks executable True
   | Some (Reg bytes _) \<Rightarrow> if bytes = concat chunks then ([], None) else fail_plan retention_collision
   | Some _ \<Rightarrow> fail_plan retention_collision)"

section \<open>What a change leaves alone\<close>

fun touches :: "fs_effect \<Rightarrow> string option" where
  "touches (Mkdir p) = Some p"
| "touches (Put p b x) = Some p"
| "touches (Remove p) = Some p"
| "touches (Announce c) = None"

definition spares :: "string \<Rightarrow> plan \<Rightarrow> bool" where
  "spares w p \<longleftrightarrow> list_all (\<lambda>e. touches e \<noteq> Some w) (fst p)"

lemma stored_exact: "inj (fe_same env) \<Longrightarrow> stored env f p = p"
  by (auto simp: stored_def find_Some_iff inj_eq split: option.splits)

lemma look_exact: "inj (fe_same env) \<Longrightarrow> look env f p = map_get f p"
  by (simp add: look_def stored_exact)

lemma run_effect_other: "inj (fe_same env) \<Longrightarrow> touches e \<noteq> Some w \<Longrightarrow> map_get (run_effect env e f) w = map_get f w"
  by (cases e) (auto simp: stored_exact map_get_delete)

lemma run_effects_simps [simp]: "run_effects env [] f = f" "run_effects env (e # es) f = run_effects env es (run_effect env e f)"
  by (simp_all add: run_effects_def)

lemma run_effects_other: "inj (fe_same env) \<Longrightarrow> list_all (\<lambda>e. touches e \<noteq> Some w) es \<Longrightarrow> map_get (run_effects env es f) w = map_get f w"
  by (induction es arbitrary: f) (simp_all add: run_effect_other)

lemma spares_simps [simp]: "spares w (fail_plan fault)" "spares w ([], r)" "spares w (e # es, r) \<longleftrightarrow> touches e \<noteq> Some w \<and> spares w (es, r)"
  by (simp_all add: spares_def fail_plan_def)

lemma seq_plan_spares:
  assumes "inj (fe_same env)" and "spares w p" and "\<And>f'. map_get f' w = map_get f w \<Longrightarrow> spares w (k f')"
  shows "spares w (seq_plan env f p k)"
proof (cases p)
  case (Pair es r)
  show ?thesis
  proof (cases r)
    case None
    have "map_get (run_effects env es f) w = map_get f w" using assms(1,2) Pair by (intro run_effects_other) (auto simp: spares_def)
    from assms(3) [OF this] assms(2) Pair None show ?thesis by (auto simp: seq_plan_def spares_def split: prod.splits)
  next
    case (Some e)
    with assms(2) Pair show ?thesis by (simp add: seq_plan_def)
  qed
qed

lemma ensureSafeDirectory_spares:
  assumes "inj (fe_same env)" and "map_get f w \<noteq> None"
  shows "spares w (ensureSafeDirectory env ds f)"
  using assms(2)
proof (induction ds arbitrary: f)
  case (Cons d ds)
  have "spares w (seq_plan env f ([Mkdir d], None) (ensureSafeDirectory env ds))" if "map_get f d = None"
    using that Cons by (intro seq_plan_spares [OF assms(1)]) auto
  with Cons show ?case by (auto simp: look_exact [OF assms(1)] split: option.splits node.splits)
qed simp

lemma atomicReplaceFile_spares:
  assumes "inj (fe_same env)" and "map_get f w \<noteq> None" and "p \<noteq> w \<or> requireMissing"
  shows "spares w (atomicReplaceFile env f p chunks x requireMissing)"
  unfolding atomicReplaceFile_def using assms ensureSafeDirectory_spares [OF assms(1,2)]
  by (intro seq_plan_spares) (auto simp: look_exact split: option.splits node.splits)

lemma safeDelete_spares: "inj (fe_same env) \<Longrightarrow> p \<noteq> w \<Longrightarrow> spares w (safeDelete env f p)"
  by (auto simp: safeDelete_def split: option.splits node.splits)

lemma writeRetainedSibling_spares: "inj (fe_same env) \<Longrightarrow> map_get f w \<noteq> None \<Longrightarrow> spares w (writeRetainedSibling env f p chunks x)"
  by (auto simp: writeRetainedSibling_def intro: atomicReplaceFile_spares split: option.splits node.splits)

section \<open>What a manifest says of the folder\<close>

lemma walk_entries_sound:
  assumes "walk_entries env f es sum1 = Inr (es', sum2)"
  shows "\<exists>new. es' = es @ new \<and> (\<forall>(p, n) \<in> set f. \<exists>r. entry_at env p n = Inr r \<and> (\<forall>e. r = Some e \<longrightarrow> e \<in> set new)) \<and>
    (\<forall>e \<in> set new. \<exists>(p, n) \<in> set f. entry_at env p n = Inr (Some e))"
  using assms
proof (induction f arbitrary: es sum1)
  case (Cons x f)
  obtain p n where x: "x = (p, n)" by fastforce
  from Cons(2) obtain r where r: "entry_at env p n = Inr r" by (auto simp: x try_bind_Inr)
  show ?case
  proof (cases r)
    case None
    from Cons(1) [of es sum1] Cons(2) r None obtain new where "es' = es @ new" "\<forall>(p, n) \<in> set f. \<exists>r. entry_at env p n = Inr r \<and> (\<forall>e. r = Some e \<longrightarrow> e \<in> set new)"
      "\<forall>e \<in> set new. \<exists>(p, n) \<in> set f. entry_at env p n = Inr (Some e)" by (auto simp: x)
    with x r None show ?thesis by (intro exI [of _ new]) auto
  next
    case (Some e)
    from Cons(2) r Some have "walk_entries env f (es @ [e]) (sum1 + me_byteLength e) = Inr (es', sum2)"
      by (auto simp: x Let_def split: if_splits)
    from Cons(1) [OF this] obtain new where "es' = (es @ [e]) @ new" "\<forall>(p, n) \<in> set f. \<exists>r. entry_at env p n = Inr r \<and> (\<forall>e. r = Some e \<longrightarrow> e \<in> set new)"
      "\<forall>e \<in> set new. \<exists>(p, n) \<in> set f. entry_at env p n = Inr (Some e)" by blast
    with x r Some show ?thesis by (intro exI [of _ "e # new"]) fastforce
  qed
qed simp

lemma collisions_loop_distinct:
  assumes "collisions_loop nfc lower caps observed paths = Inr ()"
  shows "distinct paths \<and> (\<forall>p \<in> set paths. \<forall>n key. normalizeWirePath nfc caps p = Inr n \<longrightarrow>
    portabilityCollisionKey nfc lower caps n = Inr key \<longrightarrow> map_get observed key = None)"
  using assms
proof (induction paths arbitrary: observed)
  case (Cons p ps)
  from Cons(2) obtain n key where n: "normalizeWirePath nfc caps p = Inr n" "portabilityCollisionKey nfc lower caps n = Inr key"
    "map_get observed key = None" "collisions_loop nfc lower caps (map_set key n observed) ps = Inr ()"
    by (auto split: sum.splits if_splits)
  from Cons(1) [OF n(4)] have ih: "distinct ps" "\<forall>q \<in> set ps. \<forall>m k. normalizeWirePath nfc caps q = Inr m \<longrightarrow>
    portabilityCollisionKey nfc lower caps m = Inr k \<longrightarrow> k \<noteq> key \<and> map_get observed k = None" by (auto split: if_splits)
  with n have "p \<notin> set ps" by blast
  with n ih show ?case by auto
qed simp

lemma createWorkspaceManifest_sound:
  assumes "createWorkspaceManifest env f = Inr m"
  shows "distinct (map me_path (wm_entries m))"
    and "(p, n) \<in> set f \<Longrightarrow> entry_at env p n = Inr (Some e) \<Longrightarrow> e \<in> set (wm_entries m)"
    and "e \<in> set (wm_entries m) \<Longrightarrow> \<exists>(p, n) \<in> set f. entry_at env p n = Inr (Some e)"
proof -
  from assms obtain es sum1 where w: "walk_entries env (sort_by_path fst f) [] 0 = Inr (es, sum1)"
    and c: "collisions_loop (se_nfc (fe_sync env)) (fe_lower env) (fe_caps env) [] (map me_path es) = Inr ()"
    and m: "wm_entries m = sort_by_path me_path es"
    by (auto simp: createWorkspaceManifest_def try_bind_Inr assertNoPortableCollisions_def Let_def split: prod.splits)
  have "mset (sort_by_path g xs) = mset xs" for g :: "manifest_entry \<Rightarrow> string" and xs
  proof -
    have "mset (insert_by_path g x ys) = add_mset x (mset ys)" for x ys by (induction ys) auto
    then have "mset (foldr (insert_by_path g) xs []) = mset xs" by (induction xs) auto
    then show ?thesis by (simp add: sort_by_path_def)
  qed
  then have "mset (map me_path (wm_entries m)) = mset (map me_path es)" using m by simp
  moreover have "distinct (map me_path es)" using collisions_loop_distinct [OF c] by blast
  ultimately show "distinct (map me_path (wm_entries m))" using mset_eq_imp_distinct_iff by blast
  from walk_entries_sound [OF w] have sound: "\<forall>(p, n) \<in> set f. \<exists>r. entry_at env p n = Inr r \<and> (\<forall>e. r = Some e \<longrightarrow> e \<in> set es)"
    "\<forall>e \<in> set es. \<exists>(p, n) \<in> set f. entry_at env p n = Inr (Some e)" by auto
  show "e \<in> set (wm_entries m)" if "(p, n) \<in> set f" "entry_at env p n = Inr (Some e)"
    using sound(1) that m by fastforce
  show "\<exists>(p, n) \<in> set f. entry_at env p n = Inr (Some e)" if "e \<in> set (wm_entries m)" using sound(2) that m by auto
qed

end
