(* ===== verification/Continuous_Sync.thy ===== *)
theory Continuous_Sync
  imports Workspace_Folder
begin

text \<open>
  The data of \<^verbatim>\<open>src/sync/continuous-sync-supervisor.ts\<close> and its pure functions: projections of the
  folder and of an incoming generation, their differences, the order in which a generation is
  taken in, the record of this folder's own commits, the names of conflict siblings and the
  classification of failures.
\<close>

section \<open>Data\<close>

datatype sync_status = Recovering | Reconciling | Catching_up | Live_unverified | Is_converged | Is_conflicted | Paused
  | Recovery_required | Is_unknown

record entry_projection =
  pj_path :: string
  pj_kind :: manifest_kind
  pj_fingerprint :: string
  pj_byteLength :: int

datatype local_change = Create | Update | Erase

record pending_local =
  pl_operationId :: string
  pl_path :: string
  pl_kind :: local_change
  pl_baseGeneration :: int
  pl_fingerprint :: string
  pl_byteLength :: int

record pending_remote =
  pr_generation :: int
  pr_manifestRoot :: string
  pr_cursor :: "string option"
  pr_items :: "change_item list"
  pr_nextIndex :: nat

record local_commit =
  lc_generation :: int
  lc_entries :: "(string \<times> string) list"

record durable_state =
  ds_binding_id :: string
  ds_binding_generation :: int
  ds_policy_digest :: string
  ds_sync_id :: string
  ds_generation :: int
  ds_manifest_root :: string
  ds_cursor :: "string option"
  ds_dirty :: bool
  ds_status :: sync_status
  ds_reason :: "string option"
  ds_baseline :: "entry_projection list"
  ds_pending_local :: "pending_local list"
  ds_pending_remote :: "pending_remote option"
  ds_last_local_commit :: "local_commit option"
  ds_remote_only :: "wire_entry list"
  ds_updated_at :: string

definition zero_digest :: string where "zero_digest = replicate 64 (CHR ''0'')"

section \<open>Projections\<close>

text \<open>\<^verbatim>\<open>new Map(xs.map((x) => [key(x), x]))\<close>: a later entry replaces an earlier one in its place.\<close>

definition map_by :: "('a \<Rightarrow> 'k) \<Rightarrow> 'a list \<Rightarrow> ('k, 'a) js_map" where
  "map_by key xs = fold (\<lambda>x m. map_set (key x) x m) xs []"

definition entryFingerprint :: "sync_env \<Rightarrow> manifest_entry \<Rightarrow> string" where
  "entryFingerprint env e = se_sha env (utf8_bytes (json_stringify (root_entry_json e)))"

definition project_entry :: "sync_env \<Rightarrow> manifest_entry \<Rightarrow> entry_projection" where
  "project_entry env e = \<lparr>pj_path = me_path e, pj_kind = me_kind e, pj_fingerprint = entryFingerprint env e, pj_byteLength = me_byteLength e\<rparr>"

definition projectManifest :: "sync_env \<Rightarrow> workspace_manifest \<Rightarrow> entry_projection list" where
  "projectManifest env m = map (project_entry env) (wm_entries m)"

definition projectRemoteItem :: "sync_env \<Rightarrow> change_item \<Rightarrow> entry_projection option" where
  "projectRemoteItem env item = (case (ch_entry item, ch_path item) of
     (Some e, Some p) \<Rightarrow> if ch_operation item \<noteq> Op_upsert then None else
       Some \<lparr>pj_path = p, pj_kind = we_kind e,
         pj_fingerprint = se_sha env (utf8_bytes (json_stringify (wire_entry_json
           (e\<lparr>we_path := p, we_byte_length := (if we_kind e = M_symlink then 0 else we_byte_length e)\<rparr>)))),
         pj_byteLength = we_byte_length e\<rparr>
   | _ \<Rightarrow> None)"

definition sameProjection :: "entry_projection option \<Rightarrow> entry_projection option \<Rightarrow> bool" where
  "sameProjection left right \<longleftrightarrow> (case (left, right) of
     (None, r) \<Rightarrow> r = None
   | (Some l, None) \<Rightarrow> False
   | (Some l, Some r) \<Rightarrow> pj_fingerprint l = pj_fingerprint r \<and> pj_kind l = pj_kind r)"

definition target_step :: "sync_env \<Rightarrow> change_item \<Rightarrow> (string, entry_projection) js_map \<Rightarrow> (string, entry_projection) js_map" where
  "target_step env item target = (case ch_path item of
     None \<Rightarrow> target
   | Some p \<Rightarrow> (case projectRemoteItem env item of None \<Rightarrow> AList.delete p target | Some pj \<Rightarrow> map_set p pj target))"

definition remoteTargetProjection :: "sync_env \<Rightarrow> entry_projection list \<Rightarrow> change_item list \<Rightarrow> (string, entry_projection) js_map" where
  "remoteTargetProjection env baseline items = fold (target_step env) items (map_by pj_path baseline)"

definition carriedManifestEntry :: "wire_entry \<Rightarrow> manifest_entry" where
  "carriedManifestEntry e = \<lparr>me_path = we_path e, me_kind = we_kind e, me_byteLength = we_byte_length e, me_executable = we_executable e,
     me_contentDigest = None,
     me_chunks = (if we_kind e = M_file then Some (map (\<lambda>(i, c). \<lparr>cc_index = int i, cc_byteLength = wc_byte_length c, cc_digest = wc_digest c\<rparr>)
        (enumerate 0 (we_chunks e))) else None),
     me_linkTarget = we_link_target e\<rparr>"

definition sortedRemoteOnly :: "(string, wire_entry) js_map \<Rightarrow> wire_entry list" where
  "sortedRemoteOnly m = sort_by_path we_path (map_values m)"

section \<open>Differences\<close>

fun change_kind :: "entry_projection option \<Rightarrow> entry_projection option \<Rightarrow> local_change" where
  "change_kind None newer = Create"
| "change_kind (Some before) None = Erase"
| "change_kind (Some before) (Some newer) = Update"

definition changed_paths :: "(string, entry_projection) js_map \<Rightarrow> (string, entry_projection) js_map \<Rightarrow> string list" where
  "changed_paths baseline current = filter (\<lambda>p. \<not> sameProjection (map_get baseline p) (map_get current p))
     (sort_by_path id (remdups (map fst baseline @ map fst current)))"

text \<open>\<open>ids\<close> are the results of \<^verbatim>\<open>randomUUID\<close>, one for each operation.\<close>

definition diffManifest :: "sync_env \<Rightarrow> (nat \<Rightarrow> string) \<Rightarrow> entry_projection list \<Rightarrow> workspace_manifest \<Rightarrow> int \<Rightarrow> pending_local list" where
  "diffManifest env ids baselineEntries m baseGeneration =
     (let baseline = map_by pj_path baselineEntries; current = map_by pj_path (projectManifest env m) in
      map (\<lambda>(i, p). let newer = map_get current p in
          \<lparr>pl_operationId = ids i, pl_path = p, pl_kind = change_kind (map_get baseline p) newer, pl_baseGeneration = baseGeneration,
           pl_fingerprint = (case newer of None \<Rightarrow> zero_digest | Some a \<Rightarrow> pj_fingerprint a),
           pl_byteLength = (case newer of None \<Rightarrow> 0 | Some a \<Rightarrow> pj_byteLength a)\<rparr>)
        (enumerate 0 (changed_paths baseline current)))"

definition samePendingIntent :: "pending_local list \<Rightarrow> pending_local list \<Rightarrow> bool" where
  "samePendingIntent durable observed \<longleftrightarrow> length durable = length observed \<and>
     list_all (\<lambda>(a, b). pl_path a = pl_path b \<and> pl_kind a = pl_kind b \<and> pl_baseGeneration a = pl_baseGeneration b \<and>
       pl_fingerprint a = pl_fingerprint b \<and> pl_byteLength a = pl_byteLength b) (zip durable observed)"

definition localCommitRecord :: "int \<Rightarrow> pending_local list \<Rightarrow> local_commit option \<Rightarrow> local_commit" where
  "localCommitRecord generation operations previous =
     (let start = (case previous of None \<Rightarrow> []
        | Some c \<Rightarrow> if lc_generation c = generation - 1 then fold (\<lambda>(p, x) m. map_set p x m) (lc_entries c) [] else []);
      entries = fold (\<lambda>operation m. map_set (pl_path operation) (pl_fingerprint operation) m) operations start
      in \<lparr>lc_generation = generation, lc_entries = sort_by_path fst entries\<rparr>)"

section \<open>The order of a generation\<close>

definition path_depth :: "string option \<Rightarrow> nat" where
  "path_depth p = (case p of None \<Rightarrow> 0 | Some p \<Rightarrow> length (split_on CHR ''/'' p))"

definition is_directory_item :: "change_item \<Rightarrow> bool" where
  "is_directory_item item \<longleftrightarrow> (case ch_entry item of None \<Rightarrow> False | Some e \<Rightarrow> we_kind e = M_directory)"

definition is_new_item :: "(string, 'a) js_map \<Rightarrow> change_item \<Rightarrow> bool" where
  "is_new_item baseline item \<longleftrightarrow> (case ch_path item of None \<Rightarrow> False | Some p \<Rightarrow> map_get baseline p = None)"

definition orderRemoteItems :: "change_item list \<Rightarrow> (string, 'a) js_map \<Rightarrow> change_item list" where
  "orderRemoteItems items baseline =
     (let upserts = filter (\<lambda>i. ch_operation i = Op_upsert \<and> \<not> is_directory_item i) items in
      filter (\<lambda>i. ch_operation i = Op_revision) items @
      sort_key (\<lambda>i. path_depth (ch_path i)) (filter (\<lambda>i. ch_operation i = Op_upsert \<and> is_directory_item i) items) @
      filter (is_new_item baseline) upserts @ filter (\<lambda>i. \<not> is_new_item baseline i) upserts @
      sort_key (\<lambda>i. - int (path_depth (ch_path i))) (filter (\<lambda>i. ch_operation i = Op_delete) items))"

definition commonRemoteField :: "(change_item \<Rightarrow> string) \<Rightarrow> change_item list \<Rightarrow> sync_fault + string" where
  "commonRemoteField field items = (case items of
     [] \<Rightarrow> Inl (syncFailure ''remote_generation_inconsistent'' Exit_remote)
   | i # _ \<Rightarrow> if list_ex (\<lambda>j. field j \<noteq> field i) items then Inl (syncFailure ''remote_generation_inconsistent'' Exit_remote)
       else Inr (field i))"

definition conflictSiblingPath :: "sync_env \<Rightarrow> string \<Rightarrow> int \<Rightarrow> string \<Rightarrow> string" where
  "conflictSiblingPath env bindingId generation path =
     path @ ''.cuna-conflict-'' @ int_text generation @ ''-'' @
     take 12 (se_sha env (utf8_bytes (bindingId @ [CHR 0x00] @ int_text generation @ [CHR 0x00] @ path)))"

section \<open>Failures\<close>

definition isStaleBaseRefusal :: "sync_fault \<Rightarrow> bool \<Rightarrow> bool" where
  "isStaleBaseRefusal fault refusedOnThisBase \<longleftrightarrow> (case fault of
     Host_code _ \<Rightarrow> False
   | Refused e \<Rightarrow> ce_exitCode e = Exit_conflict \<and> (ce_reason e = Some ''workspace_sync_generation_conflict'' \<or>
       refusedOnThisBase \<and> ce_reason e \<in> {Some ''checkpoint_conflicted'', Some ''checkpoint_intent_mismatch''}))"

definition isJournalFenced :: "sync_fault \<Rightarrow> bool" where
  "isJournalFenced fault \<longleftrightarrow> (case fault of Refused e \<Rightarrow> ce_code e = ''cuna.workspace.writer_fenced'' | Host_code _ \<Rightarrow> False)"

definition classifyFailure :: "sync_fault \<Rightarrow> sync_status \<times> string" where
  "classifyFailure fault = (case fault of
     Refused e \<Rightarrow> let reason = (case ce_reason e of Some r \<Rightarrow> r | None \<Rightarrow> ce_code e) in
       if ce_code e \<in> {''cuna.workspace_sync.contract_mismatch'', ''cuna.workspace.path_invalid'', ''cuna.workspace.path_escape''}
       then (Recovery_required, reason)
       else if ce_exitCode e = Exit_conflict then (Is_conflicted, reason)
       else if ce_exitCode e \<in> {Exit_policy, Exit_usage, Exit_unsupported} then (Recovery_required, reason)
       else (Paused, reason)
   | Host_code c \<Rightarrow> (Paused, if c \<in> {''ENOSPC'', ''EDQUOT''} then ''disk_exhausted'' else ''dependency_unavailable''))"

definition isUuid :: "string \<Rightarrow> bool" where
  "isUuid s \<longleftrightarrow> uuid_text s \<and> s ! 14 \<in> set ''12345'' \<and> s ! 19 \<in> set ''89ab''"

section \<open>Facts\<close>

lemma map_by_fold: "map_get (fold (\<lambda>x m. map_set (key x) x m) xs m) k =
    (case find (\<lambda>x. key x = k) (rev xs) of Some x \<Rightarrow> Some x | None \<Rightarrow> map_get m k)"
proof (induction xs arbitrary: m)
  case (Cons x xs)
  have "find P (ys @ [x]) = (case find P ys of Some y \<Rightarrow> Some y | None \<Rightarrow> if P x then Some x else None)" for P and ys :: "'a list"
    by (induction ys) auto
  with Cons show ?case by (auto split: option.splits)
qed simp

lemma map_by_get: "map_get (map_by key xs) k = find (\<lambda>x. key x = k) (rev xs)"
  by (simp add: map_by_def map_by_fold split: option.splits)

lemma map_by_Some: "map_get (map_by key xs) k = Some x \<Longrightarrow> x \<in> set xs \<and> key x = k"
  unfolding map_by_get find_Some_iff by (metis nth_mem set_rev)

lemma map_by_distinct:
  assumes "distinct (map key xs)" and "x \<in> set xs"
  shows "map_get (map_by key xs) (key x) = Some x"
proof (cases "map_get (map_by key xs) (key x)")
  case None
  with assms(2) show ?thesis by (auto simp: map_by_get find_None_iff)
next
  case (Some y)
  with map_by_Some [OF Some] assms show ?thesis by (metis distinct_map inj_onD)
qed

lemma distinct_map_by [simp]: "distinct (map fst (map_by key xs))"
proof -
  have "distinct (map fst (fold (\<lambda>x m. map_set (key x) x m) xs m))" if "distinct (map fst m)" for m
    using that by (induction xs arbitrary: m) auto
  then show ?thesis by (simp add: map_by_def)
qed

lemma sameProjection_refl [simp]: "sameProjection p p"
  by (auto simp: sameProjection_def split: option.splits)

lemma orderRemoteItems_set: "set (orderRemoteItems items baseline) = set items"
proof
  show "set items \<subseteq> set (orderRemoteItems items baseline)"
  proof
    fix i assume "i \<in> set items"
    then show "i \<in> set (orderRemoteItems items baseline)"
      by (cases "ch_operation i") (auto simp: orderRemoteItems_def Let_def)
  qed
qed (auto simp: orderRemoteItems_def Let_def)

end
