(* ===== verification/Remote_Apply.thy ===== *)
theory Remote_Apply
  imports Continuous_Sync
begin

text \<open>
  How the folder takes in a generation of the remote workspace: \<^verbatim>\<open>#resumeRemoteApply\<close> of
  \<^verbatim>\<open>src/sync/continuous-sync-supervisor.ts\<close> with the methods it calls. The model is a machine that
  makes one atomic change to the folder or one durable write at a time, so that the process can
  stop between any two of them and start again from what is on disk.
\<close>

record apply_env =
  ap_folder :: folder_env
  ap_bindingId :: string
  ap_readChunk :: "string \<Rightarrow> string \<Rightarrow> int \<Rightarrow> sync_fault + byte list"
  ap_commitRefused :: "(int \<Rightarrow> bool) option"

abbreviation ap_sync :: "apply_env \<Rightarrow> sync_env" where
  "ap_sync env \<equiv> fe_sync (ap_folder env)"

definition refuse :: "cuna_error + 'a \<Rightarrow> sync_fault + 'a" where
  "refuse m = map_sum Refused id m"

section \<open>One item\<close>

fun fetch_chunks :: "apply_env \<Rightarrow> string \<Rightarrow> wire_chunk list \<Rightarrow> sync_fault + byte list list" where
  "fetch_chunks env syncId [] = Inr []"
| "fetch_chunks env syncId (c # cs) =
     try_bind (ap_readChunk env syncId (wc_digest c) (wc_byte_length c)) (\<lambda>bytes.
       if int (length bytes) \<noteq> wc_byte_length c \<or> se_sha (ap_sync env) bytes \<noteq> wc_digest c
       then Inl (syncFailure ''remote_chunk_mismatch'' Exit_policy)
       else try_bind (fetch_chunks env syncId cs) (\<lambda>rest. Inr (bytes # rest)))"

fun kind_of_entry :: "manifest_kind \<Rightarrow> entry_kind" where
  "kind_of_entry M_directory = Directory_entry"
| "kind_of_entry M_file = File_entry"
| "kind_of_entry M_symlink = Symlink_entry"

definition total_length :: "byte list list \<Rightarrow> int" where
  "total_length chunks = sum_list (map (\<lambda>b. int (length b)) chunks)"

definition apply_file :: "apply_env \<Rightarrow> string \<Rightarrow> folder \<Rightarrow> string \<Rightarrow> wire_entry \<Rightarrow> plan" where
  "apply_file env syncId f path e = (case fetch_chunks env syncId (we_chunks e) of
     Inl fault \<Rightarrow> fail_plan fault
   | Inr chunks \<Rightarrow> if total_length chunks \<noteq> we_byte_length e
       then fail_plan (syncFailure ''remote_content_length_mismatch'' Exit_remote)
       else atomicReplaceFile (ap_folder env) f path chunks (we_executable e) False)"

definition applyRemoteItem :: "apply_env \<Rightarrow> string \<Rightarrow> folder \<Rightarrow> change_item \<Rightarrow> plan" where
  "applyRemoteItem env syncId f item = (case ch_path item of None \<Rightarrow> ([], None) | Some p \<Rightarrow>
     (case fe_normalize (ap_folder env) p of Inl e \<Rightarrow> fail_plan (Refused e) | Inr path \<Rightarrow>
       if ch_operation item = Op_delete then safeDelete (ap_folder env) f path
       else (case ch_entry item of
         None \<Rightarrow> fail_plan (syncFailure ''remote_change_shape'' Exit_remote)
       | Some e \<Rightarrow> (case decide (ap_folder env) path (kind_of_entry (we_kind e)) of
           Inl err \<Rightarrow> fail_plan (Refused err)
         | Inr True \<Rightarrow> fail_plan (syncFailure ''remote_excluded_path'' Exit_policy)
         | Inr False \<Rightarrow> (case we_kind e of
             M_symlink \<Rightarrow> fail_plan (syncFailure ''remote_symlink_unsupported'' Exit_policy)
           | M_directory \<Rightarrow> ensureSafeDirectory (ap_folder env) (ancestors path @ [path]) f
           | M_file \<Rightarrow> apply_file env syncId f path e)))))"

definition retainRemoteSibling :: "apply_env \<Rightarrow> string \<Rightarrow> folder \<Rightarrow> change_item \<Rightarrow> string option \<times> plan" where
  "retainRemoteSibling env syncId f item = (case (ch_entry item, ch_path item) of
     (Some e, Some p) \<Rightarrow>
       if ch_operation item \<noteq> Op_upsert \<or> we_kind e \<noteq> M_file then (None, ([], None))
       else (let retained = conflictSiblingPath (ap_sync env) (ap_bindingId env) (ch_generation item) p in
         (case fetch_chunks env syncId (we_chunks e) of
            Inl fault \<Rightarrow> (Some retained, fail_plan fault)
          | Inr chunks \<Rightarrow> (Some retained, writeRetainedSibling (ap_folder env) f retained chunks (we_executable e))))
   | _ \<Rightarrow> (None, ([], None)))"

definition retainLocalSibling :: "apply_env \<Rightarrow> folder \<Rightarrow> string \<Rightarrow> int \<Rightarrow> string \<times> plan" where
  "retainLocalSibling env f path generation = (case fe_normalize (ap_folder env) path of
     Inl e \<Rightarrow> (path, fail_plan (Refused e))
   | Inr wirePath \<Rightarrow> let retained = conflictSiblingPath (ap_sync env) (ap_bindingId env) generation wirePath in
       (retained, case assertSafeAncestors (ap_folder env) f (ancestors wirePath) of
          Some fault \<Rightarrow> fail_plan fault
        | None \<Rightarrow> (case look (ap_folder env) f wirePath of
            None \<Rightarrow> fail_plan (Host_code ''ENOENT'')
          | Some (Link _) \<Rightarrow> fail_plan (Host_code ''ELOOP'')
          | Some (Reg bytes executable) \<Rightarrow> writeRetainedSibling (ap_folder env) f retained [bytes] executable
          | Some _ \<Rightarrow> fail_plan (syncFailure ''conflict_source_untrusted'' Exit_policy))))"

text \<open>
  What is done for an item inside the folder, given what the baseline and the folder had at its
  path when the run began; \<open>own\<close> are the paths of this folder's last commits, if the generation
  directly follows them.
\<close>

definition item_plan ::
  "apply_env \<Rightarrow> string \<Rightarrow> int \<Rightarrow> (string, string) js_map option \<Rightarrow> entry_projection option \<Rightarrow> entry_projection option \<Rightarrow> folder \<Rightarrow> string \<Rightarrow> change_item \<Rightarrow> plan" where
  "item_plan env syncId generation own prior observed f path item =
     (if sameProjection observed (projectRemoteItem (ap_sync env) item) then ([], None)
      else if \<not> sameProjection prior observed then
        (case retainRemoteSibling env syncId f item of (sibling, plan) \<Rightarrow>
           seq_plan (ap_folder env) f plan (\<lambda>_. ([Announce \<lparr>sx_resolution = Local_in_place, sx_path = path, sx_sibling = sibling, sx_generation = generation\<rparr>], None)))
      else seq_plan (ap_folder env) f
        (case observed of
           None \<Rightarrow> ([], None)
         | Some o1 \<Rightarrow>
             if pj_kind o1 = M_file \<and> (case own of None \<Rightarrow> False | Some paths \<Rightarrow> map_get paths path = Some (pj_fingerprint o1))
             then (case retainLocalSibling env f path (generation - 1) of (sibling, plan) \<Rightarrow>
                seq_plan (ap_folder env) f plan (\<lambda>_. ([Announce \<lparr>sx_resolution = Remote_in_place, sx_path = path, sx_sibling = Some sibling, sx_generation = generation\<rparr>], None)))
             else ([], None))
        (\<lambda>f. applyRemoteItem env syncId f item))"

definition outside_folder :: "apply_env \<Rightarrow> (string, wire_entry) js_map \<Rightarrow> (string, entry_projection) js_map \<Rightarrow> change_item \<Rightarrow> sync_fault + bool" where
  "outside_folder env remoteOnly baseline item = (case ch_path item of None \<Rightarrow> Inr False | Some path \<Rightarrow>
     if ch_operation item = Op_delete \<and> map_get remoteOnly path \<noteq> None then Inr True
     else let kind = (case ch_entry item of Some e \<Rightarrow> we_kind e
         | None \<Rightarrow> (case map_get baseline path of Some b \<Rightarrow> pj_kind b | None \<Rightarrow> M_file)) in
       refuse (try_bind (any_excluded (ap_folder env) (ancestors path)) (\<lambda>above.
         if above then Inr True else decide (ap_folder env) path (kind_of_entry kind))))"

section \<open>The run\<close>

record run =
  rn_pending :: pending_remote
  rn_current :: "(string, entry_projection) js_map"
  rn_baseline :: "(string, entry_projection) js_map"
  rn_own :: "(string, string) js_map option"
  rn_ordered :: "change_item list"
  rn_remoteOnly :: "(string, wire_entry) js_map"
  rn_unrecorded :: "nat option"
  rn_next :: nat
  rn_busy :: bool
  rn_todo :: "fs_effect list"
  rn_fault :: "sync_fault option"
  rn_final :: "durable_state option"

datatype phase = Idle | Running run | Stopped sync_fault | Done

record apply_state =
  aa_folder :: folder
  aa_durable :: durable_state
  aa_phase :: phase
  aa_conflicts :: "sync_conflict list"

definition buildManifest :: "apply_env \<Rightarrow> durable_state \<Rightarrow> folder \<Rightarrow> sync_fault + workspace_manifest" where
  "buildManifest env d f = refuse (try_bind (createWorkspaceManifest (ap_folder env) f) (\<lambda>m.
     withCarriedEntries (ap_sync env) m (map carriedManifestEntry (ds_remote_only d))))"

definition own_commit :: "durable_state \<Rightarrow> int \<Rightarrow> (string, string) js_map option" where
  "own_commit d generation = (case ds_last_local_commit d of None \<Rightarrow> None
     | Some c \<Rightarrow> if lc_generation c = generation - 1 then Some (fold (\<lambda>(p, x) m. map_set p x m) (lc_entries c) []) else None)"

definition begin_apply :: "apply_env \<Rightarrow> apply_state \<Rightarrow> apply_state" where
  "begin_apply env s = (case ds_pending_remote (aa_durable s) of None \<Rightarrow> s | Some p \<Rightarrow>
     (case buildManifest env (aa_durable s) (aa_folder s) of
        Inl fault \<Rightarrow> s\<lparr>aa_phase := Stopped fault\<rparr>
      | Inr m \<Rightarrow> let baseline = map_by pj_path (ds_baseline (aa_durable s)) in
          s\<lparr>aa_phase := Running \<lparr>rn_pending = p, rn_current = map_by pj_path (projectManifest (ap_sync env) m), rn_baseline = baseline,
             rn_own = own_commit (aa_durable s) (pr_generation p),
             rn_ordered = (if pr_nextIndex p = 0 then orderRemoteItems (pr_items p) baseline else pr_items p),
             rn_remoteOnly = map_by we_path (ds_remote_only (aa_durable s)), rn_unrecorded = None, rn_next = pr_nextIndex p,
             rn_busy = False, rn_todo = [], rn_fault = None, rn_final = None\<rparr>\<rparr>))"

definition recorded :: "run \<Rightarrow> nat \<Rightarrow> pending_remote option" where
  "recorded r i = Some ((rn_pending r)\<lparr>pr_items := rn_ordered r, pr_nextIndex := i\<rparr>)"

text \<open>\<^verbatim>\<open>recordExcluded\<close>: the durable write that catches up with the excluded items passed over.\<close>

definition flush_excluded :: "string \<Rightarrow> run \<Rightarrow> nat \<Rightarrow> apply_state \<Rightarrow> apply_state" where
  "flush_excluded now r i s = s\<lparr>aa_durable := (aa_durable s)\<lparr>ds_pending_remote := recorded r i,
       ds_remote_only := sortedRemoteOnly (rn_remoteOnly r), ds_updated_at := now\<rparr>,
     aa_phase := Running (r\<lparr>rn_unrecorded := None\<rparr>)\<rparr>"

definition pass_excluded :: "run \<Rightarrow> string \<Rightarrow> change_item \<Rightarrow> run" where
  "pass_excluded r path item = r\<lparr>rn_remoteOnly := (case ch_entry item of
       Some e \<Rightarrow> if ch_operation item = Op_upsert then map_set path e (rn_remoteOnly r) else AList.delete path (rn_remoteOnly r)
     | None \<Rightarrow> AList.delete path (rn_remoteOnly r)),
     rn_unrecorded := Some (rn_next r + 1), rn_next := rn_next r + 1\<rparr>"

definition start_item :: "apply_env \<Rightarrow> string \<Rightarrow> run \<Rightarrow> change_item \<Rightarrow> apply_state \<Rightarrow> apply_state" where
  "start_item env now r item s =
     (if ch_operation item = Op_revision then s\<lparr>aa_phase := Running (r\<lparr>rn_busy := True\<rparr>)\<rparr>
      else case ch_path item of
        None \<Rightarrow> s\<lparr>aa_phase := Stopped (syncFailure ''remote_change_shape'' Exit_remote)\<rparr>
      | Some path \<Rightarrow> (case outside_folder env (rn_remoteOnly r) (rn_baseline r) item of
          Inl fault \<Rightarrow> s\<lparr>aa_phase := Stopped fault\<rparr>
        | Inr True \<Rightarrow> s\<lparr>aa_phase := Running (pass_excluded r path item)\<rparr>
        | Inr False \<Rightarrow> (case rn_unrecorded r of
            Some i \<Rightarrow> flush_excluded now r i s
          | None \<Rightarrow> (case item_plan env (ds_sync_id (aa_durable s)) (pr_generation (rn_pending r)) (rn_own r)
                (map_get (rn_baseline r) path) (map_get (rn_current r) path) (aa_folder s) path item of
              (todo, fault) \<Rightarrow> s\<lparr>aa_phase := Running (r\<lparr>rn_busy := True, rn_todo := todo, rn_fault := fault\<rparr>)\<rparr>))))"

definition releaseRefusedLocal :: "apply_env \<Rightarrow> string \<Rightarrow> durable_state \<Rightarrow> durable_state" where
  "releaseRefusedLocal env now d = (case ap_commitRefused env of None \<Rightarrow> d
     | Some refused \<Rightarrow> if list_ex (\<lambda>operation. refused (pl_baseGeneration operation)) (ds_pending_local d)
         then d\<lparr>ds_pending_local := filter (\<lambda>operation. \<not> refused (pl_baseGeneration operation)) (ds_pending_local d), ds_updated_at := now\<rparr>
         else d)"

text \<open>A path that the generation names and that still shows what it was before was not taken in.\<close>

definition not_taken_in :: "(string, entry_projection) js_map \<Rightarrow> (string, entry_projection) js_map \<Rightarrow> (string, entry_projection) js_map \<Rightarrow> change_item \<Rightarrow> bool" where
  "not_taken_in current adopted baseline item \<longleftrightarrow> (case ch_path item of None \<Rightarrow> False | Some p \<Rightarrow>
     \<not> sameProjection (map_get current p) (map_get adopted p) \<and> sameProjection (map_get current p) (map_get baseline p))"

definition finish_apply :: "apply_env \<Rightarrow> string \<Rightarrow> run \<Rightarrow> apply_state \<Rightarrow> apply_state" where
  "finish_apply env now r s = (case buildManifest env (aa_durable s) (aa_folder s) of
     Inl fault \<Rightarrow> s\<lparr>aa_phase := Stopped fault\<rparr>
   | Inr m \<Rightarrow>
       let d = aa_durable s;
           current = map_by pj_path (projectManifest (ap_sync env) m);
           adopted = remoteTargetProjection (ap_sync env) (ds_baseline d) (rn_ordered r);
           ahead = (wm_manifestRoot m \<noteq> pr_manifestRoot (rn_pending r));
           released = releaseRefusedLocal env now d in
       if ahead \<and> list_ex (not_taken_in current adopted (rn_baseline r)) (rn_ordered r)
       then s\<lparr>aa_phase := Stopped (syncFailure ''remote_apply_manifest_mismatch'' Exit_conflict)\<rparr>
       else s\<lparr>aa_durable := released, aa_phase := Running (r\<lparr>rn_final := Some (released\<lparr>
           ds_generation := pr_generation (rn_pending r), ds_manifest_root := pr_manifestRoot (rn_pending r),
           ds_baseline := (if ahead then sort_by_path pj_path (map_values adopted) else projectManifest (ap_sync env) m),
           ds_cursor := pr_cursor (rn_pending r), ds_pending_remote := None, ds_dirty := ahead,
           ds_status := Live_unverified, ds_reason := None\<rparr>)\<rparr>)\<rparr>)"

definition announce :: "fs_effect \<Rightarrow> sync_conflict list" where
  "announce e = (case e of Announce c \<Rightarrow> [c] | _ \<Rightarrow> [])"

definition advance :: "apply_env \<Rightarrow> string \<Rightarrow> run \<Rightarrow> apply_state \<Rightarrow> apply_state" where
  "advance env now r s = (case rn_todo r of
     e # es \<Rightarrow> s\<lparr>aa_folder := run_effect (ap_folder env) e (aa_folder s), aa_conflicts := aa_conflicts s @ announce e,
                aa_phase := Running (r\<lparr>rn_todo := es\<rparr>)\<rparr>
   | [] \<Rightarrow> (case (rn_fault r, rn_final r) of
       (Some fault, _) \<Rightarrow> s\<lparr>aa_phase := Stopped fault\<rparr>
     | (None, Some final) \<Rightarrow> s\<lparr>aa_durable := final\<lparr>ds_updated_at := now\<rparr>, aa_phase := Done\<rparr>
     | (None, None) \<Rightarrow>
         if rn_busy r then s\<lparr>aa_durable := (aa_durable s)\<lparr>ds_pending_remote := recorded r (rn_next r + 1), ds_updated_at := now\<rparr>,
           aa_phase := Running (r\<lparr>rn_busy := False, rn_next := rn_next r + 1\<rparr>)\<rparr>
         else if rn_next r < length (rn_ordered r) then start_item env now r (rn_ordered r ! rn_next r) s
         else (case rn_unrecorded r of Some i \<Rightarrow> flush_excluded now r i s | None \<Rightarrow> finish_apply env now r s)))"

text \<open>A step of a process that works alone on the folder; it can be killed at any time.\<close>

definition apply_next :: "apply_env \<Rightarrow> string \<Rightarrow> apply_state \<Rightarrow> apply_state" where
  "apply_next env now s = (case aa_phase s of Running r \<Rightarrow> advance env now r s | _ \<Rightarrow> begin_apply env s)"

inductive apply_step :: "apply_env \<Rightarrow> apply_state \<Rightarrow> apply_state \<Rightarrow> bool" for env where
  next_step: "apply_step env s (apply_next env now s)"
| killed: "apply_step env s (s\<lparr>aa_phase := Idle\<rparr>)"

section \<open>Nothing local is overwritten\<close>

text \<open>Every part of a normalized text is normalized; Unicode guarantees it for NFC.\<close>

definition nfc_substrings :: "(string \<Rightarrow> string) \<Rightarrow> bool" where
  "nfc_substrings nfc \<longleftrightarrow> (\<forall>a b c. nfc (a @ b @ c) = a @ b @ c \<longrightarrow> nfc b = b)"

lemma split_on_substring: "c \<in> set (split_on s p) \<Longrightarrow> \<exists>a b. p = a @ c @ b"
proof (induction p arbitrary: c)
  case (Cons x p)
  show ?case
  proof (cases "x = s")
    case True
    with Cons.prems have "c = [] \<or> c \<in> set (split_on s p)" by auto
    with Cons.IH show ?thesis by (metis append_Cons append_Nil)
  next
    case False
    obtain q qs where q: "split_on s p = q # qs" by (meson list.exhaust split_on_not_Nil)
    with Cons.prems False have "c = x # q \<or> c \<in> set qs" by simp
    then show ?thesis
    proof
      assume c: "c = x # q"
      have "join_on s (q # qs) = p" using join_split [of s p] q by simp
      then have "\<exists>b. p = q @ b" by (cases qs) auto
      with c show ?thesis by (metis append_Cons append_Nil)
    next
      assume "c \<in> set qs"
      with Cons.IH [of c] q have "\<exists>a b. p = a @ c @ b" by simp
      then show ?thesis by (metis append_Cons)
    qed
  qed
qed simp

lemma normalizeWirePath_fixed:
  assumes "nfc_substrings nfc" and "nfc p = p" and "normalizeWirePath nfc caps p = Inr q"
  shows "q = p"
proof -
  have components: "normalize_components nfc caps cs = Inr ns \<Longrightarrow> \<forall>c \<in> set cs. nfc c = c \<Longrightarrow> ns = cs" for cs ns
    by (induction cs arbitrary: ns) (auto simp: normalize_component_def Let_def split: sum.splits if_splits)
  have "nfc c = c" if "c \<in> set (split_on CHR ''/'' p)" for c
    using split_on_substring [OF that] assms(1,2) unfolding nfc_substrings_def by metis
  with assms(3) components [of "split_on CHR ''/'' p"] show ?thesis
    by (auto simp: normalizeWirePath_def Let_def join_split split: sum.splits if_splits)
qed

definition stable_item :: "apply_env \<Rightarrow> change_item \<Rightarrow> bool" where
  "stable_item env item \<longleftrightarrow> (case ch_path item of None \<Rightarrow> True | Some p \<Rightarrow> se_nfc (ap_sync env) p = p)"

lemma refuse_Inr: "refuse m = Inr x \<longleftrightarrow> m = Inr x"
  by (cases m) (simp_all add: refuse_def)

lemma buildManifest_distinct: "buildManifest env d f = Inr m \<Longrightarrow> distinct (map me_path (wm_entries m))"
  and buildManifest_current: "buildManifest env d f = Inr m \<Longrightarrow> map_get f w = Some n \<Longrightarrow> entry_at (ap_folder env) w n = Inr (Some e) \<Longrightarrow>
    map_get (map_by pj_path (projectManifest (ap_sync env) m)) (me_path e) = Some (project_entry (ap_sync env) e)"
proof -
  assume b: "buildManifest env d f = Inr m"
  then obtain l where l: "createWorkspaceManifest (ap_folder env) f = Inr l"
    "withCarriedEntries (ap_sync env) l (map carriedManifestEntry (ds_remote_only d)) = Inr m"
    by (auto simp: buildManifest_def refuse_Inr try_bind_Inr)
  note dl = createWorkspaceManifest_sound(1) [OF l(1)]
  have m: "distinct (map me_path (wm_entries m)) \<and> set (wm_entries l) \<subseteq> set (wm_entries m)"
  proof (cases "ds_remote_only d = []")
    case True
    with l(2) dl show ?thesis by (simp add: withCarriedEntries_def)
  next
    case False
    with carried_entries_exact [OF l(2) dl] show ?thesis by auto
  qed
  then show "distinct (map me_path (wm_entries m))" ..
  assume "map_get f w = Some n" "entry_at (ap_folder env) w n = Inr (Some e)"
  then have "e \<in> set (wm_entries l)" by (intro createWorkspaceManifest_sound(2) [OF l(1)]) (auto dest: map_of_SomeD)
  with m have "project_entry (ap_sync env) e \<in> set (projectManifest (ap_sync env) m)" by (auto simp: projectManifest_def)
  moreover have "distinct (map pj_path (projectManifest (ap_sync env) m))" using m by (simp add: projectManifest_def project_entry_def comp_def)
  ultimately show "map_get (map_by pj_path (projectManifest (ap_sync env) m)) (me_path e) = Some (project_entry (ap_sync env) e)"
    using map_by_distinct [of pj_path] by (fastforce simp: project_entry_def)
qed

lemma item_plan_spares:
  assumes "inj (fe_same (ap_folder env))" and "nfc_substrings (se_nfc (ap_sync env))" and "map_get f w \<noteq> None"
    and "ch_path item = Some path" and "stable_item env item" and "path = w \<Longrightarrow> \<not> sameProjection prior observed"
  shows "spares w (item_plan env syncId generation own prior observed f path item)"
proof -
  have norm: "q = path" if "fe_normalize (ap_folder env) path = Inr q" for q
    using normalizeWirePath_fixed [OF assms(2) _ that] assms(4,5) by (simp add: stable_item_def)
  have sibling: "spares w (snd (retainRemoteSibling env syncId f item))"
    using writeRetainedSibling_spares [OF assms(1,3)] assms(1,3)
    by (auto simp: retainRemoteSibling_def Let_def split: option.splits sum.splits)
  have own: "spares w (snd (retainLocalSibling env f path g))" for g
    using writeRetainedSibling_spares [OF assms(1,3)] by (auto simp: retainLocalSibling_def Let_def split: option.splits sum.splits node.splits)
  have apply_item: "spares w (applyRemoteItem env syncId f' item)" if "path \<noteq> w" "map_get f' w \<noteq> None" for f'
    using that assms(4) norm ensureSafeDirectory_spares [OF assms(1) that(2)] safeDelete_spares [OF assms(1)] atomicReplaceFile_spares [OF assms(1) that(2)]
    by (auto simp: applyRemoteItem_def apply_file_def split: option.splits sum.splits bool.splits manifest_kind.splits)
  let ?announce = "\<lambda>c. (\<lambda>_. ([Announce c], None)) :: folder \<Rightarrow> plan"
  have announced: "spares w p \<Longrightarrow> spares w (seq_plan (ap_folder env) f p (?announce c))" for p c
    using assms(1) by (intro seq_plan_spares) auto
  show ?thesis
  proof (cases "sameProjection prior observed")
    case True
    with assms(6) have "path \<noteq> w" by blast
    have "spares w (seq_plan (ap_folder env) f p (\<lambda>f. applyRemoteItem env syncId f item))" if "spares w p" for p
      using that \<open>path \<noteq> w\<close> assms(3) by (intro seq_plan_spares [OF assms(1)] apply_item) auto
    with True show ?thesis using announced [OF own]
      by (auto simp: item_plan_def case_prod_unfold split: option.splits)
  next
    case False
    with announced [OF sibling] show ?thesis by (auto simp: item_plan_def split: prod.splits)
  qed
qed

definition edit_of :: "apply_env \<Rightarrow> string \<Rightarrow> node \<Rightarrow> manifest_entry \<Rightarrow> entry_projection option \<Rightarrow> bool" where
  "edit_of env w n e prior \<longleftrightarrow> inj (fe_same (ap_folder env)) \<and> nfc_substrings (se_nfc (ap_sync env)) \<and>
     entry_at (ap_folder env) w n = Inr (Some e) \<and> me_path e = w \<and> \<not> sameProjection prior (Some (project_entry (ap_sync env) e))"

definition kept_run :: "apply_env \<Rightarrow> string \<Rightarrow> manifest_entry \<Rightarrow> entry_projection option \<Rightarrow> run \<Rightarrow> bool" where
  "kept_run env w e prior r \<longleftrightarrow> map_get (rn_current r) w = Some (project_entry (ap_sync env) e) \<and> map_get (rn_baseline r) w = prior \<and>
     list_all (stable_item env) (rn_ordered r) \<and> spares w (rn_todo r, rn_fault r) \<and> (\<forall>d. rn_final r = Some d \<longrightarrow> ds_pending_remote d = None)"

definition kept :: "apply_env \<Rightarrow> string \<Rightarrow> node \<Rightarrow> manifest_entry \<Rightarrow> entry_projection option \<Rightarrow> apply_state \<Rightarrow> bool" where
  "kept env w n e prior s \<longleftrightarrow> map_get (aa_folder s) w = Some n \<and>
     (\<forall>p. ds_pending_remote (aa_durable s) = Some p \<longrightarrow> list_all (stable_item env) (pr_items p)) \<and>
     (ds_pending_remote (aa_durable s) \<noteq> None \<longrightarrow> map_get (map_by pj_path (ds_baseline (aa_durable s))) w = prior) \<and>
     (\<forall>r. aa_phase s = Running r \<longrightarrow> kept_run env w e prior r \<and> map_get (map_by pj_path (ds_baseline (aa_durable s))) w = prior)"

lemma begin_apply_kept:
  assumes "edit_of env w n e prior" and "kept env w n e prior s" and "\<And>r. aa_phase s \<noteq> Running r"
  shows "kept env w n e prior (begin_apply env s)"
proof (cases "ds_pending_remote (aa_durable s)")
  case (Some p)
  show ?thesis
  proof (cases "buildManifest env (aa_durable s) (aa_folder s)")
    case (Inr m)
    from assms have "map_get (map_by pj_path (projectManifest (ap_sync env) m)) w = Some (project_entry (ap_sync env) e)"
      using buildManifest_current [OF Inr, of w n e] by (auto simp: edit_of_def kept_def)
    with assms Some Inr show ?thesis
      by (auto simp: begin_apply_def kept_def kept_run_def spares_def Let_def list_all_iff orderRemoteItems_set)
  qed (use assms Some in \<open>auto simp: begin_apply_def kept_def\<close>)
qed (use assms in \<open>auto simp: begin_apply_def\<close>)

lemma start_item_kept:
  assumes "edit_of env w n e prior" and "kept env w n e prior s" and "aa_phase s = Running r" and "item \<in> set (rn_ordered r)"
  shows "kept env w n e prior (start_item env now r item s)"
proof -
  have r: "kept_run env w e prior r" and base: "map_get (map_by pj_path (ds_baseline (aa_durable s))) w = prior" using assms(2,3) by (auto simp: kept_def)
  have stable: "stable_item env item" using r assms(4) by (auto simp: kept_run_def list_all_iff)
  have keep: "kept env w n e prior (s\<lparr>aa_phase := ph\<rparr>)" if "\<And>r'. ph = Running r' \<Longrightarrow> kept_run env w e prior r'" for ph
    using assms(2) base that by (auto simp: kept_def)
  have busy: "kept env w n e prior (s\<lparr>aa_phase := Running (r\<lparr>rn_busy := b\<rparr>)\<rparr>)" for b using r by (intro keep) (auto simp: kept_run_def)
  have stop: "kept env w n e prior (s\<lparr>aa_phase := Stopped x\<rparr>)" for x by (rule keep) simp
  have excluded: "kept env w n e prior (s\<lparr>aa_phase := Running (pass_excluded r path item)\<rparr>)" for path
    using r by (intro keep) (auto simp: kept_run_def pass_excluded_def)
  have flush: "kept env w n e prior (flush_excluded now r i s)" for i
    using assms(2) base r by (auto simp: flush_excluded_def kept_def kept_run_def recorded_def)
  have plan: "kept env w n e prior (s\<lparr>aa_phase := Running (r\<lparr>rn_busy := True, rn_todo := todo, rn_fault := fault\<rparr>)\<rparr>)"
    if "ch_path item = Some path" "item_plan env sy g own (map_get (rn_baseline r) path) (map_get (rn_current r) path) (aa_folder s) path item = (todo, fault)" for path sy g own todo fault
  proof -
    have "spares w (item_plan env sy g own (map_get (rn_baseline r) path) (map_get (rn_current r) path) (aa_folder s) path item)"
      using assms(1,2) r stable that(1) by (intro item_plan_spares) (auto simp: edit_of_def kept_def kept_run_def)
    with that(2) r show ?thesis by (intro keep) (auto simp: kept_run_def)
  qed
  show ?thesis unfolding start_item_def using busy stop excluded flush plan
    by (auto split: option.splits sum.splits bool.splits prod.splits)
qed

lemma finish_apply_kept:
  assumes "kept env w n e prior s" and "aa_phase s = Running r" and "rn_todo r = []"
  shows "kept env w n e prior (finish_apply env now r s)"
proof -
  have released: "ds_pending_remote (releaseRefusedLocal env now d) = ds_pending_remote d" "ds_baseline (releaseRefusedLocal env now d) = ds_baseline d" for d
    by (auto simp: releaseRefusedLocal_def split: option.splits)
  show ?thesis using assms
    by (auto simp: finish_apply_def kept_def kept_run_def released spares_def Let_def split: sum.splits)
qed

lemma advance_kept:
  assumes "edit_of env w n e prior" and "kept env w n e prior s" and "aa_phase s = Running r"
  shows "kept env w n e prior (advance env now r s)"
proof (cases "rn_todo r")
  case (Cons x xs)
  with assms have "touches x \<noteq> Some w" "inj (fe_same (ap_folder env))" by (auto simp: kept_def kept_run_def edit_of_def)
  from run_effect_other [OF this(2,1)] assms Cons show ?thesis by (auto simp: advance_def kept_def kept_run_def)
next
  case Nil
  show ?thesis
  proof (cases "rn_fault r")
    case (Some f)
    with assms Nil show ?thesis by (auto simp: advance_def kept_def)
  next
    case None
    show ?thesis
    proof (cases "rn_final r")
      case (Some d)
      with assms Nil None show ?thesis by (auto simp: advance_def kept_def kept_run_def)
    next
      case final: None
      have flush: "kept env w n e prior (flush_excluded now r i s)" for i
        using assms(2,3) by (auto simp: flush_excluded_def kept_def kept_run_def recorded_def)
      have rec_step: "kept env w n e prior (s\<lparr>aa_durable := (aa_durable s)\<lparr>ds_pending_remote := recorded r j, ds_updated_at := now\<rparr>,
          aa_phase := Running (r\<lparr>rn_busy := False, rn_next := j\<rparr>)\<rparr>)" for j
        using assms(2,3) by (auto simp: kept_def kept_run_def recorded_def)
      show ?thesis
        using Nil None final rec_step flush start_item_kept [OF assms] finish_apply_kept [OF assms(2,3) Nil]
        by (auto simp: advance_def split: option.splits)
    qed
  qed
qed

interpretation local_edit: invariant_system "\<lambda>s. edit_of env w n e prior \<and> kept env w n e prior s" "apply_step env"
  "\<lambda>s. edit_of env w n e prior \<and> kept env w n e prior s" for env w n e prior
proof unfold_locales
  fix s t assume "edit_of env w n e prior \<and> kept env w n e prior s" "apply_step env s t"
  moreover from this(2) have "kept env w n e prior t" if "edit_of env w n e prior" "kept env w n e prior s"
  proof cases
    case (next_step now)
    with that show ?thesis by (auto simp: apply_next_def intro: begin_apply_kept advance_kept split: phase.splits)
  next
    case killed
    with that show ?thesis by (auto simp: kept_def)
  qed
  ultimately show "edit_of env w n e prior \<and> kept env w n e prior t" by blast
qed

text \<open>The decoder lets only paths in normal form through, so what it delivers is stable.\<close>

lemma decoded_item_stable: "decodeChangeItem (ap_sync env) v = Inr item \<Longrightarrow> stable_item env item"
  unfolding decodeChangeItem_def Let_def try_bind_Inr if_Inl_Inr
  by (auto simp: stable_item_def nullable_def decoded_values wire_path_ok_def split: if_splits option.splits)

text \<open>
  C8. On a file system that compares names exactly nothing local is overwritten: whatever this folder
  holds, when the apply begins, at a path that takes part in synchronization (the manifest has an
  entry for it under this very path) and that differs from the baseline, stays exactly as it is while a
  generation of the remote workspace is taken in, whatever the generation says about the path, wherever
  the process is killed and however often it starts again, if no other program changes the folder
  meanwhile. The incoming paths are in normal form, as the decoder sees to (\<open>decoded_item_stable\<close>),
  and every part of a normalized text is taken to be normalized, as Unicode guarantees for NFC. Where the file
  system ignores case an edit can be lost (\<open>case_rename_overwrites_edit\<close>), and so can one
  that is saved during the apply (\<open>late_edit_overwritten\<close>).
\<close>

theorem local_edits_kept:
  assumes "inj (fe_same (ap_folder env))" and "nfc_substrings (se_nfc (ap_sync env))"
    and "aa_phase s = Idle" and "(apply_step env)\<^sup>*\<^sup>* s t"
    and "case ds_pending_remote (aa_durable s) of None \<Rightarrow> True | Some p \<Rightarrow> list_all (stable_item env) (pr_items p)"
    and "map_get (aa_folder s) w = Some n" and "entry_at (ap_folder env) w n = Inr (Some e)" and "me_path e = w"
    and "\<not> sameProjection (map_get (map_by pj_path (ds_baseline (aa_durable s))) w) (Some (project_entry (ap_sync env) e))"
  shows "map_get (aa_folder t) w = Some n"
proof -
  let ?prior = "map_get (map_by pj_path (ds_baseline (aa_durable s))) w"
  have "edit_of env w n e ?prior \<and> kept env w n e ?prior s" using assms by (auto simp: edit_of_def kept_def)
  from local_edit.reachable_inv [OF this assms(4)] show ?thesis by (simp add: kept_def)
qed

section \<open>Runs\<close>

text \<open>
  Concrete runs. A digest here is made of the letters \<^verbatim>\<open>j\<close>, \<^verbatim>\<open>q\<close> and \<^verbatim>\<open>w\<close> of the bytes, which
  are the contents used below and occur nowhere in the JSON around them; there are no rules beside the
  fixed exclusions, and the authority serves the chunk \<^verbatim>\<open>q\<close>. \<open>demo_state\<close> holds a folder with the
  given paths, kinds and fingerprints as its baseline and the given items of the generation with the
  given root pending.
\<close>

definition demo_digest :: "byte list \<Rightarrow> string" where
  "demo_digest b = concat (map (\<lambda>w. let n = uint w in if n = 0x6A then ''j'' else if n = 0x71 then ''q'' else if n = 0x77 then ''w'' else []) b)"

definition demo_caps :: filesystem_capabilities where
  "demo_caps = \<lparr>fc_platform = Macos, fc_caseSensitive = False, fc_unicodeNormalization = Nfc, fc_symlinks = True,
     fc_atomicRename = True, fc_maximumComponentBytes = 40, fc_maximumPathBytes = 80\<rparr>"

definition demo_env :: "(string \<Rightarrow> string) \<Rightarrow> apply_env" where
  "demo_env same = \<lparr>ap_folder = \<lparr>fe_sync = \<lparr>se_nfc = (\<lambda>s. s), se_date = (\<lambda>s. True), se_sha = demo_digest\<rparr>, fe_lower = map ascii_lower,
       fe_decode = (\<lambda>b. []), fe_policy = \<lparr>ep_digest = [], ep_rules = [], ep_capabilities = demo_caps\<rparr>, fe_caps = demo_caps,
       fe_limits = \<lparr>ml_maximumEntries = 10, ml_maximumTotalBytes = 100, ml_maximumFileBytes = 100, ml_chunkBytes = 8\<rparr>,
       fe_symlinks = False, fe_linkInside = (\<lambda>p t. False), fe_same = same\<rparr>,
     ap_bindingId = ''b'', ap_readChunk = (\<lambda>syncId digest n. Inr [0x71]), ap_commitRefused = None\<rparr>"

definition demo_item :: "change_operation \<Rightarrow> string \<Rightarrow> byte list \<Rightarrow> change_item" where
  "demo_item operation path b = \<lparr>ch_generation = 2, ch_operation = operation, ch_path = Some path,
     ch_entry = (if operation = Op_upsert then Some \<lparr>we_path = path, we_kind = M_file, we_byte_length = int (length b), we_executable = False,
       we_chunks = [\<lparr>wc_digest = demo_digest b, wc_byte_length = int (length b)\<rparr>], we_link_target = None\<rparr> else None),
     ch_manifest_root = ''r'', ch_exclusion_policy_digest = ''p'', ch_committed_at = ''t'', ch_minimum_reader = 1, ch_minimum_writer = 1\<rparr>"

definition demo_durable :: "entry_projection list \<Rightarrow> pending_remote \<Rightarrow> durable_state" where
  "demo_durable baseline pending = \<lparr>ds_binding_id = ''b'', ds_binding_generation = 1, ds_policy_digest = ''p'', ds_sync_id = ''s'', ds_generation = 1,
     ds_manifest_root = ''r'', ds_cursor = None, ds_dirty = False, ds_status = Catching_up, ds_reason = None, ds_baseline = baseline,
     ds_pending_local = [], ds_pending_remote = Some pending, ds_last_local_commit = None, ds_remote_only = [], ds_updated_at = ''t''\<rparr>"

definition demo_state :: "(string \<times> manifest_kind \<times> string) list \<Rightarrow> folder \<Rightarrow> change_item list \<Rightarrow> string \<Rightarrow> apply_state" where
  "demo_state base f items root = \<lparr>aa_folder = f, aa_durable = demo_durable
       (map (\<lambda>(p, k, x). \<lparr>pj_path = p, pj_kind = k, pj_fingerprint = x, pj_byteLength = int (length x)\<rparr>) base)
       \<lparr>pr_generation = 2, pr_manifestRoot = root, pr_cursor = None, pr_items = items, pr_nextIndex = 0\<rparr>,
     aa_phase = Idle, aa_conflicts = []\<rparr>"

fun run_steps :: "nat \<Rightarrow> apply_env \<Rightarrow> apply_state \<Rightarrow> apply_state" where
  "run_steps 0 env s = s"
| "run_steps (Suc k) env s = run_steps k env (apply_next env ''t'' s)"

definition edited_state :: apply_state where
  "edited_state = demo_state [(''a'', M_file, ''j'')] [(''a'', Reg [0x77] False)] [demo_item Op_upsert ''a'' [0x71]] ''q''"

lemma run_steps_reachable: "(apply_step env)\<^sup>*\<^sup>* s (run_steps k env s)"
proof (induction k arbitrary: s)
  case (Suc k)
  from Suc [of "apply_next env ''t'' s"] show ?case
    by (auto intro: converse_rtranclp_into_rtranclp [where r = "apply_step env", OF next_step])
qed simp

theorem local_edits_kept_witness: "map_get (aa_folder (run_steps 6 (demo_env (\<lambda>p. p)) edited_state)) ''a'' = Some (Reg [0x77] False)"
proof (rule local_edits_kept)
  show "inj (fe_same (ap_folder (demo_env (\<lambda>p. p))))" "nfc_substrings (se_nfc (ap_sync (demo_env (\<lambda>p. p))))"
    by (simp_all add: demo_env_def nfc_substrings_def)
  show "aa_phase edited_state = Idle" by (simp add: edited_state_def demo_state_def)
  show "(apply_step (demo_env (\<lambda>p. p)))\<^sup>*\<^sup>* edited_state (run_steps 6 (demo_env (\<lambda>p. p)) edited_state)" by (rule run_steps_reachable)
  show "case ds_pending_remote (aa_durable edited_state) of None \<Rightarrow> True | Some p \<Rightarrow> list_all (stable_item (demo_env (\<lambda>p. p))) (pr_items p)"
    by (simp add: edited_state_def demo_state_def demo_durable_def stable_item_def demo_env_def demo_item_def)
  show "map_get (aa_folder edited_state) ''a'' = Some (Reg [0x77] False)" by (simp add: edited_state_def demo_state_def)
  show "entry_at (ap_folder (demo_env (\<lambda>p. p))) ''a'' (Reg [0x77] False) = Inr (Some \<lparr>me_path = ''a'', me_kind = M_file, me_byteLength = 1,
      me_executable = False, me_contentDigest = Some ''w'', me_chunks = Some [\<lparr>cc_index = 0, cc_byteLength = 1, cc_digest = ''w''\<rparr>], me_linkTarget = None\<rparr>)"
    by code_simp
  show "\<not> sameProjection (map_get (map_by pj_path (ds_baseline (aa_durable edited_state))) ''a'') (Some (project_entry (ap_sync (demo_env (\<lambda>p. p)))
      \<lparr>me_path = ''a'', me_kind = M_file, me_byteLength = 1, me_executable = False, me_contentDigest = Some ''w'',
        me_chunks = Some [\<lparr>cc_index = 0, cc_byteLength = 1, cc_digest = ''w''\<rparr>], me_linkTarget = None\<rparr>))"
    by code_simp
qed simp

section \<open>Edits during the apply\<close>

text \<open>The run stands before an item and has nothing else to write first.\<close>

definition next_item :: "run \<Rightarrow> change_item \<Rightarrow> bool" where
  "next_item r item \<longleftrightarrow> rn_todo r = [] \<and> rn_fault r = None \<and> rn_final r = None \<and> \<not> rn_busy r \<and> rn_unrecorded r = None \<and>
     rn_next r < length (rn_ordered r) \<and> rn_ordered r ! rn_next r = item"

lemma apply_next_item: "aa_phase s = Running r \<Longrightarrow> next_item r item \<Longrightarrow> apply_next env now s = start_item env now r item s"
  by (auto simp: apply_next_def advance_def next_item_def)

lemma stored_overwrite: "map_get f k \<noteq> None \<Longrightarrow> stored fe (map_set k v f) q = stored fe f q"
proof -
  assume "map_get f k \<noteq> None"
  then have "map fst (map_set k v f) = map fst f" by (induction f) (auto split: if_splits)
  moreover have "(case find (\<lambda>(q, _). P q) f of Some (q, _) \<Rightarrow> q | None \<Rightarrow> d) = (case find P (map fst f) of Some q \<Rightarrow> q | None \<Rightarrow> d)" for P d and f :: folder
    by (induction f) auto
  ultimately show ?thesis by (simp add: stored_def)
qed

lemma look_overwrite:
  assumes "look fe f p \<noteq> None"
  shows "look fe (map_set (stored fe f p) v f) q = (if stored fe f q = stored fe f p then Some v else look fe f q)"
  using assms by (simp add: look_def stored_overwrite)

lemma ensureSafeDirectory_there: "list_all (\<lambda>d. look fe f d = Some Dir) ds \<Longrightarrow> ensureSafeDirectory fe ds f = ([], None)"
  by (induction ds) simp_all

lemma overwrite_twice: "map_set k v (map_set k u f) = map_set k v f"
  by (induction f) auto

definition saved_over :: "apply_env \<Rightarrow> string \<Rightarrow> node \<Rightarrow> apply_state \<Rightarrow> apply_state" where
  "saved_over env p n s = s\<lparr>aa_folder := map_set (stored (ap_folder env) (aa_folder s) p) n (aa_folder s)\<rparr>"

text \<open>The item brings a file whose content can be fetched, to a path inside the folder.\<close>

definition brings_file :: "apply_env \<Rightarrow> apply_state \<Rightarrow> run \<Rightarrow> change_item \<Rightarrow> string \<Rightarrow> wire_entry \<Rightarrow> byte list list \<Rightarrow> bool" where
  "brings_file env s r item p e chunks \<longleftrightarrow> ch_operation item = Op_upsert \<and> ch_path item = Some p \<and> ch_entry item = Some e \<and> we_kind e = M_file \<and>
     fe_normalize (ap_folder env) p = Inr p \<and> outside_folder env (rn_remoteOnly r) (rn_baseline r) item = Inr False \<and>
     fetch_chunks env (ds_sync_id (aa_durable s)) (we_chunks e) = Inr chunks \<and> total_length chunks = we_byte_length e"

lemma bring_file_plan:
  assumes "brings_file env s r item p e chunks" and "\<not> sameProjection (map_get (rn_current r) p) (projectRemoteItem (ap_sync env) item)"
    and "sameProjection (map_get (rn_baseline r) p) (map_get (rn_current r) p)"
    and "case rn_own r of None \<Rightarrow> True | Some paths \<Rightarrow> map_get paths p = None"
    and "list_all (\<lambda>d. look (ap_folder env) f d = Some Dir) (ancestors p)" and "look (ap_folder env) f p = Some (Reg b x)"
  shows "item_plan env (ds_sync_id (aa_durable s)) g (rn_own r) (map_get (rn_baseline r) p) (map_get (rn_current r) p) f p item =
     ([Put p (concat chunks) (we_executable e)], None)"
proof -
  have decided: "decide (ap_folder env) p File_entry = Inr False"
    using assms(1) by (auto simp: brings_file_def outside_folder_def refuse_Inr try_bind_Inr split: if_splits)
  have "applyRemoteItem env (ds_sync_id (aa_durable s)) f item = ([Put p (concat chunks) (we_executable e)], None)"
    using assms(1,5,6) decided
    by (simp add: brings_file_def applyRemoteItem_def apply_file_def atomicReplaceFile_def seq_plan_def ensureSafeDirectory_there)
  moreover have "\<not> (case rn_own r of None \<Rightarrow> False | Some paths \<Rightarrow> map_get paths p = Some y)" for y
    using assms(4) by (auto split: option.splits)
  ultimately show ?thesis using assms(2,3) by (auto simp: item_plan_def seq_plan_def split: option.splits)
qed

lemma bring_file_steps:
  assumes "aa_phase s = Running r" and "next_item r item" and "brings_file env s r item p e chunks"
    and "\<not> sameProjection (map_get (rn_current r) p) (projectRemoteItem (ap_sync env) item)"
    and "sameProjection (map_get (rn_baseline r) p) (map_get (rn_current r) p)"
    and "case rn_own r of None \<Rightarrow> True | Some paths \<Rightarrow> map_get paths p = None"
    and "list_all (\<lambda>d. look (ap_folder env) (aa_folder s) d = Some Dir) (ancestors p)" and "look (ap_folder env) (aa_folder s) p = Some (Reg b x)"
  shows "apply_next env now s = s\<lparr>aa_phase := Running (r\<lparr>rn_busy := True, rn_todo := [Put p (concat chunks) (we_executable e)], rn_fault := None\<rparr>)\<rparr>"
    and "apply_next env now' (apply_next env now s) = (saved_over env p (Reg (concat chunks) (we_executable e)) s)
       \<lparr>aa_phase := Running (r\<lparr>rn_busy := True, rn_todo := [], rn_fault := None\<rparr>)\<rparr>"
proof -
  have "start_item env now r item s = s\<lparr>aa_phase := Running (r\<lparr>rn_busy := True, rn_todo := [Put p (concat chunks) (we_executable e)], rn_fault := None\<rparr>)\<rparr>"
    using bring_file_plan [OF assms(3-8)] assms(2,3) by (simp add: start_item_def brings_file_def next_item_def)
  then show first: "apply_next env now s = s\<lparr>aa_phase := Running (r\<lparr>rn_busy := True, rn_todo := [Put p (concat chunks) (we_executable e)], rn_fault := None\<rparr>)\<rparr>"
    unfolding apply_next_item [OF assms(1,2)] .
  show "apply_next env now' (apply_next env now s) = (saved_over env p (Reg (concat chunks) (we_executable e)) s)
       \<lparr>aa_phase := Running (r\<lparr>rn_busy := True, rn_todo := [], rn_fault := None\<rparr>)\<rparr>"
    unfolding first by (simp add: apply_next_def advance_def announce_def saved_over_def)
qed

text \<open>
  C9. An edit that is saved while a generation is being taken in is lost. What the folder holds is
  read once, when the run begins. Let the run stand before an item that brings a file to a path which at
  that reading was as in the baseline (and none of this folder's last commits), other than the item
  says. Whatever is saved at this path after the reading, before the item is begun or between the
  start of its download and its replacement, the state after the replacement is the one without the edit:
  the file has the incoming bytes, no copy is kept, no conflict is announced, and no later step can tell the
  difference.
\<close>

theorem late_edit_overwritten:
  assumes "aa_phase s = Running r" and "next_item r item" and "brings_file env s r item p e chunks"
    and "\<not> sameProjection (map_get (rn_current r) p) (projectRemoteItem (ap_sync env) item)"
    and "sameProjection (map_get (rn_baseline r) p) (map_get (rn_current r) p)"
    and "case rn_own r of None \<Rightarrow> True | Some paths \<Rightarrow> map_get paths p = None"
    and "list_all (\<lambda>d. look (ap_folder env) (aa_folder s) d = Some Dir) (ancestors p)" and "look (ap_folder env) (aa_folder s) p = Some (Reg b x)"
  shows "(let t = apply_next env now' (apply_next env now s) in
     apply_next env now' (apply_next env now (saved_over env p (Reg edit executable) s)) = t \<and>
     apply_next env now' (saved_over env p (Reg edit executable) (apply_next env now s)) = t \<and>
     look (ap_folder env) (aa_folder t) p = Some (Reg (concat chunks) (we_executable e)) \<and> aa_conflicts t = aa_conflicts s)"
proof -
  let ?s = "saved_over env p (Reg edit executable) s"
  have there: "look (ap_folder env) (aa_folder s) p \<noteq> None" using assms(8) by simp
  have same: "stored (ap_folder env) (aa_folder ?s) q = stored (ap_folder env) (aa_folder s) q" for q
    using there by (simp add: saved_over_def look_def stored_overwrite)
  have dirs: "list_all (\<lambda>d. look (ap_folder env) (aa_folder ?s) d = Some Dir) (ancestors p)"
    using assms(7,8) by (auto simp: list_all_iff saved_over_def look_overwrite [OF there]) (auto simp: look_def)
  have s: "aa_phase ?s = Running r" "brings_file env ?s r item p e chunks" "look (ap_folder env) (aa_folder ?s) p = Some (Reg edit executable)"
    using assms(1,3) by (simp_all add: saved_over_def brings_file_def look_overwrite [OF there])
  note steps = bring_file_steps [OF assms] and edited = bring_file_steps [OF s(1) assms(2) s(2) assms(4-6) dirs s(3)]
  have over: "saved_over env p n ?s = saved_over env p n s" for n
    using same [of p] by (simp add: saved_over_def overwrite_twice)
  have "apply_next env now' (saved_over env p (Reg edit executable) (apply_next env now s)) = (saved_over env p (Reg (concat chunks) (we_executable e)) s)
       \<lparr>aa_phase := Running (r\<lparr>rn_busy := True, rn_todo := [], rn_fault := None\<rparr>)\<rparr>"
    using over [of "Reg (concat chunks) (we_executable e)"] unfolding steps(1)
    by (simp add: apply_next_def advance_def announce_def saved_over_def)
  then show ?thesis unfolding Let_def steps(2) edited(2) over
    by (simp add: saved_over_def look_overwrite [OF there])
qed

text \<open>A run that has read the folder and stands before its only item.\<close>

definition late_edit_state :: apply_state where
  "late_edit_state = run_steps 1 (demo_env (\<lambda>p. p)) (demo_state [(''a'', M_file, ''j'')] [(''a'', Reg [0x6A] False)] [demo_item Op_upsert ''a'' [0x71]] ''q'')"

definition run_of :: "apply_state \<Rightarrow> run" where
  "run_of s = (case aa_phase s of Running r \<Rightarrow> r | _ \<Rightarrow> undefined)"

definition is_running :: "phase \<Rightarrow> bool" where
  "is_running ph = (case ph of Running _ \<Rightarrow> True | _ \<Rightarrow> False)"

theorem late_edit_overwritten_witness:
  "apply_next (demo_env (\<lambda>p. p)) ''t'' (apply_next (demo_env (\<lambda>p. p)) ''t'' (saved_over (demo_env (\<lambda>p. p)) ''a'' (Reg [0x77] False) late_edit_state)) =
     apply_next (demo_env (\<lambda>p. p)) ''t'' (apply_next (demo_env (\<lambda>p. p)) ''t'' late_edit_state)"
proof -
  let ?env = "demo_env (\<lambda>p. p)" and ?r = "run_of late_edit_state" and ?i = "demo_item Op_upsert ''a'' [0x71]"
  have "is_running (aa_phase late_edit_state)" by code_simp
  then have r: "aa_phase late_edit_state = Running ?r" by (auto simp: run_of_def is_running_def split: phase.splits)
  have "next_item ?r ?i" by code_simp
  moreover have "brings_file ?env late_edit_state ?r ?i ''a'' (the (ch_entry ?i)) [[0x71]]" by code_simp
  moreover have "\<not> sameProjection (map_get (rn_current ?r) ''a'') (projectRemoteItem (ap_sync ?env) ?i)" by code_simp
  moreover have "sameProjection (map_get (rn_baseline ?r) ''a'') (map_get (rn_current ?r) ''a'')" by code_simp
  moreover have "case rn_own ?r of None \<Rightarrow> True | Some paths \<Rightarrow> map_get paths ''a'' = None" by code_simp
  moreover have "list_all (\<lambda>d. look (ap_folder ?env) (aa_folder late_edit_state) d = Some Dir) (ancestors ''a'')" by code_simp
  moreover have "look (ap_folder ?env) (aa_folder late_edit_state) ''a'' = Some (Reg [0x6A] False)" by code_simp
  ultimately show ?thesis using late_edit_overwritten [OF r, of ?i ?env "''a''" _ "[[0x71]]" "[0x6A]" False] unfolding Let_def by blast
qed

definition case_rename_run :: apply_state where
  "case_rename_run = run_steps 8 (demo_env (map ascii_lower)) (demo_state [(''readme'', M_file, ''j'')] [(''readme'', Reg [0x77] False)]
     [demo_item Op_upsert ''README'' [0x71], demo_item Op_delete ''readme'' []] ''q'')"

text \<open>
  On a file system that ignores case, a rename on the Machine that only changes case overwrites an
  unsent edit: the incoming \<^verbatim>\<open>README\<close> is new by its exact name and is written over the edited
  \<^verbatim>\<open>readme\<close>, the bytes of the edit are nowhere in the folder, and the conflict that is announced for
  the old name says that they stayed in place.
\<close>

theorem case_rename_overwrites_edit:
  "aa_folder case_rename_run = [(''readme'', Reg [0x71] False)] \<and>
     aa_conflicts case_rename_run = [\<lparr>sx_resolution = Local_in_place, sx_path = ''readme'', sx_sibling = None, sx_generation = 2\<rparr>]"
  by code_simp

definition kept_directory :: apply_state where
  "kept_directory = demo_state [(''d'', M_directory, []), (''d/a'', M_file, ''j'')]
     [(''d'', Dir), (''d/a'', Reg [0x6A] False), (''d/node_modules'', Dir)] [demo_item Op_delete ''d/a'' [], demo_item Op_delete ''d'' []] []"

text \<open>
  C10. A directory that the Machine removes and that still holds something here, such as an entry the
  policy keeps out of synchronization, stops the folder for good. Whenever an apply begins with the removal
  of such a directory (it was as in the baseline when the folder was read), its third step stops with \<^verbatim>\<open>ENOTEMPTY\<close>,
  which is reported as a pause for an unavailable dependency; and however often the program is killed, stopped
  and started again, the folder, the durable state and the announced conflicts stay as they are and
  the apply never completes, so this folder takes in no generation any more.
\<close>

theorem removed_directory_blocks:
  assumes "aa_phase s = Idle" and "begin_apply env s = s\<lparr>aa_phase := Running r\<rparr>" and "next_item r item"
    and "ch_operation item = Op_delete" and "ch_path item = Some d" and "fe_normalize (ap_folder env) d = Inr d"
    and "outside_folder env (rn_remoteOnly r) (rn_baseline r) item = Inr False"
    and "map_get (rn_current r) d = Some seen" and "pj_kind seen = M_directory" and "sameProjection (map_get (rn_baseline r) d) (Some seen)"
    and "list_all (\<lambda>a. look (ap_folder env) (aa_folder s) a = Some Dir) (ancestors d)" and "look (ap_folder env) (aa_folder s) d = Some Dir"
    and "(q, inside) \<in> set (aa_folder s)" and "fe_same (ap_folder env) q = fe_same (ap_folder env) d @ ''/'' @ name"
  shows "aa_phase (apply_next env now3 (apply_next env now2 (apply_next env now1 s))) = Stopped (Host_code ''ENOTEMPTY'') \<and>
     classifyFailure (Host_code ''ENOTEMPTY'') = (Paused, ''dependency_unavailable'') \<and>
     ((apply_step env)\<^sup>*\<^sup>* s t \<longrightarrow> aa_folder t = aa_folder s \<and> aa_durable t = aa_durable s \<and> aa_conflicts t = aa_conflicts s \<and> aa_phase t \<noteq> Done)"
proof -
  let ?fault = "Host_code ''ENOTEMPTY''"
  let ?tried = "r\<lparr>rn_busy := True, rn_todo := [], rn_fault := Some ?fault\<rparr>"
  have ancestors: "assertSafeAncestors (ap_folder env) (aa_folder s) ds = None" if "list_all (\<lambda>a. look (ap_folder env) (aa_folder s) a = Some Dir) ds" for ds
    using that by (induction ds) simp_all
  have "\<not> empty_directory (ap_folder env) (aa_folder s) d"
    using assms(13,14) by (force simp: empty_directory_def list_ex_iff Let_def)
  then have "safeDelete (ap_folder env) (aa_folder s) d = ([], Some ?fault)"
    using ancestors [OF assms(11)] assms(12) by (simp add: safeDelete_def fail_plan_def)
  moreover have "projectRemoteItem (ap_sync env) item = None" using assms(4) by (simp add: projectRemoteItem_def split: option.splits)
  ultimately have plan: "item_plan env sy g (rn_own r) (map_get (rn_baseline r) d) (map_get (rn_current r) d) (aa_folder s) d item = ([], Some ?fault)" for sy g
    using assms(4-6,8-10) by (simp add: item_plan_def seq_plan_def applyRemoteItem_def sameProjection_def [of "Some seen" None])
  have run: "apply_next env now (s\<lparr>aa_phase := Running r\<rparr>) = s\<lparr>aa_phase := Running ?tried\<rparr>"
    "apply_next env now (s\<lparr>aa_phase := Running ?tried\<rparr>) = s\<lparr>aa_phase := Stopped ?fault\<rparr>" for now
  proof -
    have "apply_next env now (s\<lparr>aa_phase := Running r\<rparr>) = start_item env now r item (s\<lparr>aa_phase := Running r\<rparr>)"
      using assms(3) by (simp add: apply_next_item)
    then show "apply_next env now (s\<lparr>aa_phase := Running r\<rparr>) = s\<lparr>aa_phase := Running ?tried\<rparr>"
      using assms(3-5,7) plan by (simp add: start_item_def next_item_def)
    show "apply_next env now (s\<lparr>aa_phase := Running ?tried\<rparr>) = s\<lparr>aa_phase := Stopped ?fault\<rparr>"
      by (simp add: apply_next_def advance_def)
  qed
  have again: "apply_next env now (s\<lparr>aa_phase := ph\<rparr>) = s\<lparr>aa_phase := Running r\<rparr>" if "ph = Idle \<or> ph = Stopped ?fault" for now ph
  proof -
    have "apply_next env now (s\<lparr>aa_phase := ph\<rparr>) = begin_apply env (s\<lparr>aa_phase := ph\<rparr>)" using that by (auto simp: apply_next_def)
    also have "\<dots> = (begin_apply env s)\<lparr>aa_phase := aa_phase (begin_apply env s)\<rparr>"
      using assms(1,2) by (auto simp: begin_apply_def Let_def split: option.splits sum.splits dest!: arg_cong [where f = aa_phase])
    finally show ?thesis by (simp add: assms(2))
  qed
  have idle: "s\<lparr>aa_phase := Idle\<rparr> = s" using assms(1) by simp
  have "\<exists>ph \<in> {Idle, Running r, Running ?tried, Stopped ?fault}. t = s\<lparr>aa_phase := ph\<rparr>" if "(apply_step env)\<^sup>*\<^sup>* s t"
    using that
  proof (induction rule: rtranclp_induct)
    case base
    show ?case using idle [symmetric] by (intro bexI [of _ Idle]) simp_all
  next
    case (step u v)
    from step(2) show ?case
    proof cases
      case (next_step now)
      from step(3) obtain ph where ph: "u = s\<lparr>aa_phase := ph\<rparr>" "ph \<in> {Idle, Running r, Running ?tried, Stopped ?fault}" by blast
      then show ?thesis using next_step run again by auto
    next
      case killed
      then show ?thesis using step(3) by auto
    qed
  qed
  then have "(apply_step env)\<^sup>*\<^sup>* s t \<longrightarrow> aa_folder t = aa_folder s \<and> aa_durable t = aa_durable s \<and> aa_conflicts t = aa_conflicts s \<and> aa_phase t \<noteq> Done"
    by auto
  moreover have "apply_next env now1 s = s\<lparr>aa_phase := Running r\<rparr>" using again [of Idle now1] idle by simp
  moreover have "classifyFailure ?fault = (Paused, ''dependency_unavailable'')" by (simp add: classifyFailure_def)
  ultimately show ?thesis by (simp add: run)
qed

text \<open>The file in the directory is removed first; then the removal of the directory is due.\<close>

definition blocked_state :: apply_state where
  "blocked_state = (run_steps 4 (demo_env (\<lambda>p. p)) kept_directory)\<lparr>aa_phase := Idle\<rparr>"

theorem removed_directory_blocks_witness:
  "aa_phase (apply_next (demo_env (\<lambda>p. p)) ''t'' (apply_next (demo_env (\<lambda>p. p)) ''t'' (apply_next (demo_env (\<lambda>p. p)) ''t'' blocked_state))) =
     Stopped (Host_code ''ENOTEMPTY'') \<and> aa_folder blocked_state = [(''d'', Dir), (''d/node_modules'', Dir)]"
proof
  let ?env = "demo_env (\<lambda>p. p)" and ?r = "run_of (begin_apply (demo_env (\<lambda>p. p)) blocked_state)" and ?i = "demo_item Op_delete ''d'' []"
  show folder: "aa_folder blocked_state = [(''d'', Dir), (''d/node_modules'', Dir)]" by code_simp
  have idle: "aa_phase blocked_state = Idle" by (simp add: blocked_state_def)
  have "is_running (aa_phase (begin_apply ?env blocked_state))" by code_simp
  then have begun: "begin_apply ?env blocked_state = blocked_state\<lparr>aa_phase := Running ?r\<rparr>"
    by (auto simp: begin_apply_def run_of_def is_running_def Let_def idle split: option.splits sum.splits)
  have next_i: "next_item ?r ?i" by code_simp
  have outside: "outside_folder ?env (rn_remoteOnly ?r) (rn_baseline ?r) ?i = Inr False" by code_simp
  have seen: "map_get (rn_current ?r) ''d'' = Some \<lparr>pj_path = ''d'', pj_kind = M_directory, pj_fingerprint = [], pj_byteLength = 0\<rparr>" by code_simp
  have unchanged: "sameProjection (map_get (rn_baseline ?r) ''d'') (Some \<lparr>pj_path = ''d'', pj_kind = M_directory, pj_fingerprint = [], pj_byteLength = 0\<rparr>)"
    by code_simp
  have normal: "fe_normalize (ap_folder ?env) ''d'' = Inr ''d''" by code_simp
  have above: "list_all (\<lambda>a. look (ap_folder ?env) (aa_folder blocked_state) a = Some Dir) (ancestors ''d'')" by code_simp
  have there: "look (ap_folder ?env) (aa_folder blocked_state) ''d'' = Some Dir" by code_simp
  have inside: "(''d/node_modules'', Dir) \<in> set (aa_folder blocked_state)" by (simp add: folder)
  have below: "fe_same (ap_folder ?env) ''d/node_modules'' = fe_same (ap_folder ?env) ''d'' @ ''/'' @ ''node_modules''" by (simp add: demo_env_def)
  have item: "ch_operation ?i = Op_delete" "ch_path ?i = Some ''d''" by (simp_all add: demo_item_def)
  show "aa_phase (apply_next ?env ''t'' (apply_next ?env ''t'' (apply_next ?env ''t'' blocked_state))) = Stopped (Host_code ''ENOTEMPTY'')"
    using removed_directory_blocks [OF idle begun next_i item normal outside seen _ unchanged above there inside below] by simp
qed

end
