(* ===== verification/Spec2Isabelle.thy ===== *)
theory Spec2Isabelle
  imports
    Lease
    Daemon_Machines
    Ipc_Protocol
    Terminal_Codec
    Terminal_Control
    Terminal_Mode
    Intent_Journal
    Attachment
    Workspace_Paths
    Revision_Proofs
    Sync_Supervisor
    Wait_Policy
    Sync_Journal
    Local_Action_Broker
    Host_Mouse
    Viewport
    Predictive_Echo
    Namespace
    Exclusion
    Checkpoint_Store
    Cli_Parser
    Sessions
    Remote_Apply
begin

text \<open>
  A verification library for the command line client in \<^verbatim>\<open>src/\<close>: the program that runs coding
  agents on remote machines, attaches the local terminal to them, keeps a local workspace and
  the remote one synchronized, and lets a remote agent ask for actions on the local machine.

  \<^bold>\<open>The program.\<close> A client process parses a command, talks to the remote service over HTTP and
  a web socket, and to a local daemon over a framed IPC. The daemon owns leases, supervised
  processes, views and an intent journal. The terminal part frames the bytes of a remote
  terminal, resumes an interrupted attachment and puts the host terminal in raw mode for the
  time of a session. Synchronization queues file operations, journals them durably, and merges
  overlays into revisions with vector clocks. Local actions (opening a browser, writing the
  clipboard, signing a commit) are requested by the remote agent, checked against closed schemas
  and policies, queued by a broker and decided by the user.

  \<^bold>\<open>Conventions.\<close> Functions of the source keep their names where the name is free; methods carry
  a prefix of their class. Objects are records, unions are datatypes, a JavaScript \<^verbatim>\<open>Map\<close> is an
  association list in insertion order, an error is \<open>Inl\<close> of a datatype of error codes. Safe
  integers are \<^typ>\<open>int\<close>, bytes are \<open>8 word\<close>, text is a list of characters (code units below 256).
  A promise that the source awaits is a sequential step. What is not in the repository is an
  argument: SHA-256, \<^verbatim>\<open>JSON.parse\<close>, Unicode normalization, \<^verbatim>\<open>Date.parse\<close>, rounding of doubles, the
  clock, random identifiers, the file system's faults and the calls of the host terminal. Where
  a theorem needs a law of such an argument (that the normal form is idempotent, that the clock
  does not go back) the law is a hypothesis, and a witness instantiates it.

  \<^bold>\<open>Shared theories.\<close>
  \<^item> \<open>Prelude\<close>: checks on numbers and text, maps, the error classes of \<^verbatim>\<open>core/errors.ts\<close> and
    \<^verbatim>\<open>workspace/errors.ts\<close>, and two interfaces. \<open>invariant_system\<close> is interpreted by every state
    machine below; \<open>generation_fence\<close> extends it and is interpreted by the leases, the
    attachment, the conflict records and the synchronization journal, which all fence writers
    by a growing generation.
  \<^item> \<open>Wire\<close>: bytes, UTF-8, big-endian integers, and the interface \<open>frame_stream\<close> of an incremental
    frame decoder, interpreted by the IPC and by the terminal codec.
  \<^item> \<open>Json\<close>: JSON values, \<^verbatim>\<open>String(value)\<close>, \<^verbatim>\<open>JSON.stringify\<close>. \<open>Base64url\<close>: Node's coding, with its
    round trip.

  \<^bold>\<open>Daemon.\<close>
  \<^item> \<open>Lease\<close> models \<^verbatim>\<open>daemon/lease.ts\<close>. Stale tokens are refused for ever, one writer holds a
    resource at a time.
  \<^item> \<open>Daemon_Machines\<close> models \<^verbatim>\<open>daemon/lifecycle.ts\<close>, \<^verbatim>\<open>daemon/supervisor.ts\<close> and \<^verbatim>\<open>daemon/views.ts\<close>.
    From every lifecycle state the daemon can become ready again, ended processes stay ended,
    input is routed to the binding the view was opened with.
  \<^item> \<open>Ipc_Protocol\<close> models \<^verbatim>\<open>daemon/protocol.ts\<close>: round trip, independence of chunking, failing
    closed within the buffer bound.
  \<^item> \<open>Intent_Journal\<close> models \<^verbatim>\<open>daemon/journal.ts\<close> with both storages. The interface
    \<open>journal_storage\<close> states what the journal relies on. Reopening after any crash gives the
    document of the last successful save or the one in flight; entries are never lost or
    reopened; recording is idempotent.

  \<^bold>\<open>Terminal.\<close>
  \<^item> \<open>Terminal_Codec\<close> and \<open>Terminal_Control\<close> model \<^verbatim>\<open>terminal/codec.ts\<close>. The decoder's queue of chunks
    refines a loop over flat bytes; frames round-trip and chunking does not matter; a chunk of a
    local stream that is accepted has the length and digest it claims; what the client accepts
    in a negotiation passes the protocol's own validation.
  \<^item> \<open>Attachment\<close> models \<^verbatim>\<open>terminal/resume.ts\<close>: fencing of clients, inputs accepted exactly once, a
    bounded and gap-free replay window, continuous resumption, and the case in which the flag
    of continuity is wrong.
  \<^item> \<open>Terminal_Mode\<close> models \<^verbatim>\<open>terminal/mode.ts\<close>: whatever the host's calls do, a terminal that was
    taken is given back or the lease still says what is to be given back.
  \<^item> \<open>Host_Mouse\<close> models \<^verbatim>\<open>terminal/host-mouse.ts\<close>: how the input is cut into chunks does not
    matter, nothing pasted is taken for a mouse report, and reports round-trip.
  \<^item> \<open>Viewport\<close> models \<^verbatim>\<open>terminal/viewport.ts\<close>: no control character reaches the host, tabs do not see
    each other's frames, and frames of an older attachment generation stay refused.
  \<^item> \<open>Predictive_Echo\<close> models \<^verbatim>\<open>terminal/predictive-echo.ts\<close> and the widths of
    \<^verbatim>\<open>terminal/cell-width.ts\<close>: what is drawn ahead of the remote echo is printable, unconfirmed
    and on one row of blank cells, and a wrong guess silences the display.

  \<^bold>\<open>Workspace and synchronization.\<close>
  \<^item> \<open>Workspace_Paths\<close> models \<^verbatim>\<open>workspace/paths.ts\<close>: accepted paths are portable and stable under
    normalization, accepted sets of paths are free of collisions.
  \<^item> \<open>Namespace\<close> models \<^verbatim>\<open>core/namespace.ts\<close>: every credential that a validator accepts is on the
    denylist.
  \<^item> \<open>Exclusion\<close> models \<^verbatim>\<open>workspace/exclusion.ts\<close>: the expression compiled from a pattern, matched by
    backtracking, finds a match exactly when the text of the pattern, read segment by segment
    without the compiler, describes the path or a directory above it; the last
    rule that applies decides, and no rule overrides what is always excluded.
  \<^item> \<open>Revisions\<close>, with its proofs in \<open>Revision_Proofs\<close>, models \<^verbatim>\<open>sync/revisions.ts\<close>: vector clocks
    compare by causality and merge to the least upper bound, overlay accounts stay exact, a merge
    loses no change but one at the path \<^verbatim>\<open>__proto__\<close> and decides for the overlay only where the head has
    not changed or is older, conflicts are resolved by compare and swap.
  \<^item> \<open>Sync_Supervisor\<close> models \<^verbatim>\<open>sync/supervisor.ts\<close>: a bounded queue that loses nothing silently and
    convergence that is claimed with current evidence only.
  \<^item> \<open>Sync_Journal\<close> models \<^verbatim>\<open>sync/journal.ts\<close> and \<^verbatim>\<open>workspace/schema.ts\<close>: every acknowledged record is
    recovered after crashes at any point, superseded writers are harmless, and the failure that
    poisons a journal.
  \<^item> \<open>Sync_Protocol\<close> models \<^verbatim>\<open>sync/workspace-sync-protocol.ts\<close> and the manifests of
    \<^verbatim>\<open>workspace/manifest.ts\<close>: paging loses nothing and keeps the limits, what is decoded is well
    formed, entries round-trip, and the root of a manifest does not depend on the order of its
    entries.
  \<^item> \<open>Sync_Coordinator\<close> models \<^verbatim>\<open>sync/workspace-sync-client.ts\<close> and the class
    \<^verbatim>\<open>WorkspaceSyncCoordinator\<close> of \<^verbatim>\<open>sync/workspace-sync-coordinator.ts\<close> as functions of the history
    of their effects. Against every service, disk and interruption, a commit is requested only
    for what was staged and recorded as pending, a checkpoint never claims more than happened,
    settled intents are not replayed, and retries are bounded but survive shorter outages.
  \<^item> \<open>Checkpoint_Store\<close> models \<^verbatim>\<open>FileWorkspaceSyncCheckpointStore\<close> and \<^verbatim>\<open>createFilesystemChunkSource\<close> of the
    same file. Any number of processes interleave at their calls of the file system and may die
    between two of them. The last check of a save and its write, with nobody in between, are an exact compare
    and swap in every interleaving. As long as reclaiming a lease moves away the very lease that was
    inspected, there is one transaction at a time; the run in which it moves away another one,
    which the code does not rule out, is a theorem as well. Files round-trip.
  \<^item> \<open>Workspace_Folder\<close> models the folder on disk, the manifest that \<^verbatim>\<open>workspace/manifest.ts\<close> makes
    of it and the operations with which \<^verbatim>\<open>sync/continuous-sync-supervisor.ts\<close> changes it, as plans of
    atomic effects. \<open>Continuous_Sync\<close> models the durable state and the pure functions of that file,
    and \<open>Remote_Apply\<close> how a generation of the remote workspace is taken in, one effect or durable
    write at a time: on a file system that tells names apart
    exactly, what was edited here before a run begins is never touched, wherever the process
    is killed and however often it starts again. What this does not cover is proved as well: an edit
    that is saved during the run leaves no trace, a rename that only changes case overwrites an edit where
    the file system ignores case (one run), and a removed directory that still holds something stops
    the folder for good.
  \<^item> \<open>Wait_Policy\<close> models \<^verbatim>\<open>runtime/backoff.ts\<close> and the waiting of \<^verbatim>\<open>journey/wait-policy.ts\<close>: reads are
    re-issued, and reconnections delayed, within their bounds; a pause that is broken off ends the loop.

  \<^bold>\<open>Local actions.\<close>
  \<^item> \<open>Local_Actions\<close> models \<^verbatim>\<open>contracts.ts\<close>, \<^verbatim>\<open>providers.ts\<close>, \<^verbatim>\<open>policy.ts\<close>, \<^verbatim>\<open>policy-store.ts\<close> and
    \<^verbatim>\<open>schemas.ts\<close> of \<^verbatim>\<open>local-actions/\<close>: policies can only restrict.
  \<^item> \<open>Local_Action_Broker\<close> models \<^verbatim>\<open>broker.ts\<close>: nothing is executed without the user's consent to
    exactly that request and scope, one request is presented at a time in bounded memory, and
    an admitted nonce is not admitted again.

  \<^bold>\<open>Command line and sessions.\<close>
  \<^item> \<open>Cli_Parser\<close> models \<^verbatim>\<open>cli/parser.ts\<close> with its registry of commands and the check of
    \<^verbatim>\<open>cli/route-contract.ts\<close>: what is accepted can be printed and is parsed back, and an invocation
    resolves exactly when a row of the registry describes it.
  \<^item> \<open>Sessions\<close> models \<^verbatim>\<open>session-visibility.ts\<close>, \<^verbatim>\<open>session-actionability.ts\<close> and
    \<^verbatim>\<open>provider-availability.ts\<close> of \<^verbatim>\<open>machines/\<close>, and \<^verbatim>\<open>terminal/session-roster.ts\<close>: when a session is
    offered for attaching, that late observations undo nothing, and that the number and the label
    of a session in the top bar mean the same session for the whole run.

  \<^bold>\<open>Fuel and bounds.\<close> Two definitions count down. \<open>activate\<close> of the broker takes one unit per
  request in the queue and is called with one more than the queue is long; \<open>activate_inv\<close> shows
  that this is enough for the head of the queue to be presented. The loop of re-issued reads
  stops at the deadline of its phase; the bound is part of the theorem. All other recursions
  are structural or have a measure.

  \<^bold>\<open>Not modelled.\<close> Screens and command handlers (\<^verbatim>\<open>terminal/foreground.ts\<close>, \<^verbatim>\<open>commands/\<close>,
  the rest of \<^verbatim>\<open>machines/\<close> and \<^verbatim>\<open>cli/\<close>), the HTTP client and its contracts (\<^verbatim>\<open>api/\<close>), authentication and
  credentials (browser, key stores), pseudo terminals, sockets and file watching, and the loop of
  the continuous synchronization that decides when to scan, commit, poll and reconcile: they drive the
  host or the remote service, or print fixed texts. Interleavings of concurrent calls on one
  object are modelled as sequences of its operations. The manifest lists the files.
\<close>

end
